(* ===== verification/Lt_Prelude.thy ===== *)
theory Lt_Prelude
  imports Main "HOL-Library.Word"
begin

unbundle bit_operations_syntax

section \<open>Shared vocabulary of the LtMicros development\<close>

text \<open>
  What every component theory uses: the machine integer types of
  \<^verbatim>\<open>kernel/lib/Types.hpp\<close>, the result type of code that can fail to return, the generic
  facts on words, lists and maps, and the collections of simplification rules.
\<close>

subsection \<open>Machine integers\<close>

type_synonym u8 = "8 word"
type_synonym u16 = "16 word"
type_synonym u32 = "32 word"

text \<open>Addresses are 32-bit; the null pointer is the address 0.\<close>

type_synonym addr = u32

abbreviation nullptr :: addr where
  "nullptr \<equiv> 0"

subsection \<open>Executions\<close>

text \<open>
  A call in the kernel has four outcomes. It returns a value; it stops the machine on
  purpose (\<^verbatim>\<open>Kernel::Panic\<close> disables interrupts and loops); it dereferences an
  address that holds no object of the expected kind (a null or dangling pointer); or it
  never returns because a loop of the code never ends. The last one is \<open>None\<close>, so that
  such loops are defined by \<^theory_text>\<open>partial_function (option)\<close>.
\<close>

datatype stop = Panicked | BadAccess

type_synonym 'a exec = "(stop + 'a) option"

definition ret :: "'a \<Rightarrow> 'a exec" where
  "ret x = Some (Inr x)"

definition halt :: "stop \<Rightarrow> 'a exec" where
  "halt e = Some (Inl e)"

abbreviation diverge :: "'a exec" where
  "diverge \<equiv> None"

definition andThen :: "'a exec \<Rightarrow> ('a \<Rightarrow> 'b exec) \<Rightarrow> 'b exec" where
  "andThen m f = Option.bind m (case_sum (\<lambda>e. Some (Inl e)) f)"

text \<open>Reading the object at an address: only addresses of the store hold one.\<close>

definition deref :: "(addr \<rightharpoonup> 'a) \<Rightarrow> addr \<Rightarrow> 'a exec" where
  "deref m p = (if p = nullptr then halt BadAccess
     else case m p of None \<Rightarrow> halt BadAccess | Some x \<Rightarrow> ret x)"

named_theorems exec_simps \<open>rewrite rules for executions\<close>

lemma andThen_ret [simp, exec_simps]: "andThen (ret x) f = f x"
  by (simp add: andThen_def ret_def)

lemma andThen_halt [simp, exec_simps]: "andThen (halt e) f = halt e"
  by (simp add: andThen_def halt_def)

lemma andThen_diverge [simp, exec_simps]: "andThen diverge f = diverge"
  by (simp add: andThen_def)

lemma ret_eq_iff [simp, exec_simps]: "ret x = ret y \<longleftrightarrow> x = y"
  by (simp add: ret_def)

lemma halt_eq_iff [simp, exec_simps]: "halt e = halt e' \<longleftrightarrow> e = e'"
  by (simp add: halt_def)

lemma exec_distinct [simp, exec_simps]:
  "ret x \<noteq> halt e" "halt e \<noteq> ret x" "ret x \<noteq> None" "None \<noteq> ret x" "halt e \<noteq> None" "None \<noteq> halt e"
  by (auto simp: ret_def halt_def)

lemma exec_cases [case_names ret halt diverge]:
  assumes "\<And>x. m = ret x \<Longrightarrow> P" and "\<And>e. m = halt e \<Longrightarrow> P" and "m = diverge \<Longrightarrow> P"
  shows P
proof (cases m)
  case None
  then show P by (rule assms(3))
next
  case (Some r)
  then show P using assms(1,2) by (cases r) (auto simp: ret_def halt_def)
qed

lemma andThen_eq_ret_iff [exec_simps]:
  "andThen m f = ret y \<longleftrightarrow> (\<exists>x. m = ret x \<and> f x = ret y)"
  by (cases m rule: exec_cases) auto

lemma andThen_eq_retE:
  assumes "andThen m f = ret y"
  obtains x where "m = ret x" and "f x = ret y"
  using assms by (auto simp: andThen_eq_ret_iff)

lemma andThen_assoc: "andThen (andThen m f) g = andThen m (\<lambda>x. andThen (f x) g)"
  by (cases m rule: exec_cases) auto

lemma andThen_cong [fundef_cong]:
  assumes "m = m'" and "\<And>x. m' = ret x \<Longrightarrow> f x = f' x"
  shows "andThen m f = andThen m' f'"
  using assms by (cases m' rule: exec_cases) auto

lemma andThen_mono [partial_function_mono]:
  assumes "mono_option B" and "\<And>y. mono_option (\<lambda>f. C y f)"
  shows "mono_option (\<lambda>f. andThen (B f) (\<lambda>y. C y f))"
  unfolding andThen_def
proof (rule bind_mono [OF assms(1)])
  fix y
  show "mono_option (\<lambda>f. case y of Inl e \<Rightarrow> Some (Inl e) | Inr x \<Rightarrow> C x f)"
    using assms(2) by (cases y) (auto simp: monotone_def flat_ord_def fun_ord_def)
qed

lemma deref_null [simp, exec_simps]: "deref m nullptr = halt BadAccess"
  by (simp add: deref_def)

lemma deref_Some [simp, exec_simps]: "p \<noteq> nullptr \<Longrightarrow> m p = Some x \<Longrightarrow> deref m p = ret x"
  by (simp add: deref_def)

lemma deref_eq_ret_iff: "deref m p = ret x \<longleftrightarrow> p \<noteq> nullptr \<and> m p = Some x"
  by (auto simp: deref_def split: option.splits)

lemma deref_upd [simp]: "p \<noteq> nullptr \<Longrightarrow> deref (m(p \<mapsto> x)) p = ret x"
  by (simp add: deref_def)

lemma deref_upd_other [simp]: "p \<noteq> q \<Longrightarrow> deref (m(q := v)) p = deref m p"
  by (simp add: deref_def)

text \<open>
  An execution that ends on its own: it returns, or the kernel stops the machine.
  It neither touches an invalid address nor loops forever.
\<close>

definition safe :: "'a exec \<Rightarrow> bool" where
  "safe m \<longleftrightarrow> (\<exists>x. m = ret x) \<or> m = halt Panicked"

lemma safe_ret [simp]: "safe (ret x)"
  by (simp add: safe_def)

lemma safe_panic [simp]: "safe (halt Panicked)"
  by (simp add: safe_def)

lemma safe_andThen: "safe m \<Longrightarrow> (\<And>x. m = ret x \<Longrightarrow> safe (f x)) \<Longrightarrow> safe (andThen m f)"
  by (auto simp: safe_def)

subsection \<open>Words read as natural numbers\<close>

lemma unat_lt_2p32: "unat (x :: u32) < 4294967296"
  using unsigned_less [of x, where ?'a = nat] by simp

lemma unat_minus_1_u32 [simp]: "unat (-1 :: u32) = 4294967295"
  by (simp add: unsigned_minus_1_eq_mask mask_eq_exp_minus_1)

lemma unat_add_nowrap:
  "unat (a :: u32) + unat b < 4294967296 \<Longrightarrow> unat (a + b) = unat a + unat b"
  by (simp add: unat_word_ariths)

lemma unat_sub_nowrap: "(b :: u32) \<le> a \<Longrightarrow> unat (a - b) = unat a - unat b"
  by (rule unat_sub)

lemma unat_mult_nowrap:
  "unat (a :: u32) * unat b < 4294967296 \<Longrightarrow> unat (a * b) = unat a * unat b"
  by (simp add: unat_word_ariths)

lemma unat_of_nat_u32: "n < 4294967296 \<Longrightarrow> unat (of_nat n :: u32) = n"
  by (simp add: unat_of_nat)

lemma of_nat_u32_eq_iff:
  "m < 4294967296 \<Longrightarrow> n < 4294967296 \<Longrightarrow> (of_nat m :: u32) = of_nat n \<longleftrightarrow> m = n"
  by (metis unat_of_nat_u32)

subsection \<open>Chains of linked objects\<close>

text \<open>
  The kernel links its objects by pointer members. \<open>chain nxt m p ps\<close>: following the member
  \<open>nxt\<close> from \<open>p\<close> through the store \<open>m\<close> visits the objects \<open>ps\<close> and ends at null.
\<close>

fun chain :: "('a \<Rightarrow> addr) \<Rightarrow> (addr \<rightharpoonup> 'a) \<Rightarrow> addr \<Rightarrow> addr list \<Rightarrow> bool" where
  "chain nxt m p [] \<longleftrightarrow> p = nullptr"
| "chain nxt m p (a # as) \<longleftrightarrow> p = a \<and> a \<noteq> nullptr \<and>
     (case m a of None \<Rightarrow> False | Some e \<Rightarrow> chain nxt m (nxt e) as)"

lemma chain_null [simp]: "chain nxt m nullptr ps \<longleftrightarrow> ps = []"
  by (cases ps) auto

lemma chain_nonnull: "p \<noteq> nullptr \<Longrightarrow> chain nxt m p ps \<longleftrightarrow>
    (\<exists>e qs. ps = p # qs \<and> m p = Some e \<and> chain nxt m (nxt e) qs)"
  by (cases ps) (auto split: option.splits)

lemma chain_unique: "chain nxt m p ps \<Longrightarrow> chain nxt m p qs \<Longrightarrow> ps = qs"
  by (induction ps arbitrary: p qs) (auto simp: chain_nonnull split: option.splits)

lemma chain_suffix:
  "chain nxt m p (ps @ a # qs) \<Longrightarrow> chain nxt m a (a # qs)"
proof (induction ps arbitrary: p)
  case (Cons b ps)
  from Cons.prems have "\<exists>q. chain nxt m q (ps @ a # qs)" by (auto split: option.splits)
  then show ?case using Cons.IH by blast
qed auto

lemma chain_distinct: "chain nxt m p ps \<Longrightarrow> distinct ps"
proof (induction ps arbitrary: p)
  case (Cons a ps)
  from Cons.prems obtain e where e: "m a = Some e" "chain nxt m (nxt e) ps" "p = a"
    by (auto split: option.splits)
  have "a \<notin> set ps"
  proof
    assume "a \<in> set ps"
    then obtain us vs where ps: "ps = us @ a # vs" by (auto simp: in_set_conv_decomp)
    have "chain nxt m a (a # vs)" using e(2) chain_suffix unfolding ps by blast
    moreover have "chain nxt m a (a # ps)" using Cons.prems e(3) by simp
    ultimately have "a # vs = a # ps" by (rule chain_unique)
    then show False using ps by auto
  qed
  with Cons.IH [OF e(2)] show ?case by simp
qed simp

lemma chain_dom: "chain nxt m p ps \<Longrightarrow> set ps \<subseteq> dom m"
  by (induction ps arbitrary: p) (auto split: option.splits)

lemma chain_not_null: "chain nxt m p ps \<Longrightarrow> nullptr \<notin> set ps"
  by (induction ps arbitrary: p) (auto split: option.splits)

text \<open>Updates outside a chain, or of the data of its nodes, keep it.\<close>

lemma chain_cong:
  assumes "\<And>a. a \<in> set ps \<Longrightarrow> map_option nxt (m' a) = map_option nxt (m a)"
  shows "chain nxt m' p ps = chain nxt m p ps"
  using assms
proof (induction ps arbitrary: p)
  case (Cons a ps)
  have "map_option nxt (m' a) = map_option nxt (m a)" using Cons.prems by simp
  with Cons show ?case by (cases "m a"; cases "m' a") auto
qed simp

lemma chain_upd_other [simp]: "a \<notin> set ps \<Longrightarrow> chain nxt (m(a := v)) p ps = chain nxt m p ps"
  by (rule chain_cong) auto

end
