(* ===== verification/Kernel_Lib.thy ===== *)
theory Kernel_Lib
  imports Lt_Prelude
begin

section \<open>The kernel library: status codes, strings, memory\<close>

text \<open>
  \<^verbatim>\<open>kernel/lib/Status.hpp\<close>, \<^verbatim>\<open>kernel/lib/StdLib.cpp\<close> and
  \<^verbatim>\<open>kernel/lib/StdMem.cpp\<close> (the user library
  \<^verbatim>\<open>userland/StdLib/src/stdlib.cpp\<close> has the same bodies). A C string is the list of
  its bytes; reading at or behind its end gives the terminating NUL. Memory is a function from
  32-bit addresses to bytes.
\<close>

subsection \<open>Status codes\<close>

datatype KeStatus =
    STATUS_SUCCESS
  | STATUS_FAILURE
  | STATUS_NOT_FOUND
  | STATUS_INVALID_PARAMETER
  | STATUS_NULL_PARAMETER
  | STATUS_INAVLID_HANDLE
  | STATUS_ALLOC_FAILED
  | STATUS_INVALID_VIRTUAL_USER_ADDRESS
  | STATUS_PHYSICAL_MEMORY_FULL
  | STATUS_PROCESS_HEAP_LIMIT_REACHED
  | IPC_STATUS_ID_STRING_ALREADY_USED
  | IPC_STATUS_SERVER_NOT_FOUND
  | IPC_STATUS_ACCESS_DENIED
  | STATUS_HANDLE_ALREADY_EXIST
  | STATUS_LIST_STOP_ITERATING
  | STATUS_UNEXPECTED

text \<open>The macro \<^verbatim>\<open>FAILED\<close>.\<close>

definition FAILED :: "KeStatus \<Rightarrow> bool" where
  "FAILED status \<longleftrightarrow> status \<noteq> STATUS_SUCCESS"

text \<open>\<^verbatim>\<open>StatusGetStringFromInt\<close>: the name of each enumerator.\<close>

fun StatusGetStringFromInt :: "KeStatus \<Rightarrow> string" where
  "StatusGetStringFromInt STATUS_SUCCESS = ''STATUS_SUCCESS''"
| "StatusGetStringFromInt STATUS_FAILURE = ''STATUS_FAILURE''"
| "StatusGetStringFromInt STATUS_NOT_FOUND = ''STATUS_NOT_FOUND''"
| "StatusGetStringFromInt STATUS_INVALID_PARAMETER = ''STATUS_INVALID_PARAMETER''"
| "StatusGetStringFromInt STATUS_NULL_PARAMETER = ''STATUS_NULL_PARAMETER''"
| "StatusGetStringFromInt STATUS_INAVLID_HANDLE = ''STATUS_INAVLID_HANDLE''"
| "StatusGetStringFromInt STATUS_ALLOC_FAILED = ''STATUS_ALLOC_FAILED''"
| "StatusGetStringFromInt STATUS_INVALID_VIRTUAL_USER_ADDRESS =
     ''STATUS_INVALID_VIRTUAL_USER_ADDRESS''"
| "StatusGetStringFromInt STATUS_PHYSICAL_MEMORY_FULL = ''STATUS_PHYSICAL_MEMORY_FULL''"
| "StatusGetStringFromInt STATUS_PROCESS_HEAP_LIMIT_REACHED =
     ''STATUS_PROCESS_HEAP_LIMIT_REACHED''"
| "StatusGetStringFromInt IPC_STATUS_ID_STRING_ALREADY_USED =
     ''IPC_STATUS_ID_STRING_ALREADY_USED''"
| "StatusGetStringFromInt IPC_STATUS_SERVER_NOT_FOUND = ''IPC_STATUS_SERVER_NOT_FOUND''"
| "StatusGetStringFromInt IPC_STATUS_ACCESS_DENIED = ''IPC_STATUS_ACCESS_DENIED''"
| "StatusGetStringFromInt STATUS_HANDLE_ALREADY_EXIST = ''STATUS_HANDLE_ALREADY_EXIST''"
| "StatusGetStringFromInt STATUS_LIST_STOP_ITERATING = ''STATUS_LIST_STOP_ITERATING''"
| "StatusGetStringFromInt STATUS_UNEXPECTED = ''STATUS_UNEXPECTED''"

subsection \<open>Strings\<close>

type_synonym cstr = "u8 list"

text \<open>\<open>str[i]\<close>: the byte at an index, NUL at the end of the string.\<close>

definition char_at :: "cstr \<Rightarrow> nat \<Rightarrow> u8" where
  "char_at s i = (if i < length s then s ! i else 0)"

definition nul_free :: "cstr \<Rightarrow> bool" where
  "nul_free s \<longleftrightarrow> 0 \<notin> set s"

function StrLen_loop :: "cstr \<Rightarrow> nat \<Rightarrow> nat" where
  "StrLen_loop s i = (if char_at s i \<noteq> 0 then StrLen_loop s (Suc i) else i)"
  by pat_completeness auto
termination
  by (relation "measure (\<lambda>(s, i). length s - i)") (auto simp: char_at_def split: if_splits)

definition StrLen :: "cstr option \<Rightarrow> nat" where
  "StrLen str = (case str of None \<Rightarrow> 0 | Some s \<Rightarrow> StrLen_loop s 0)"

text \<open>
  The loop of \<^verbatim>\<open>StrCmp\<close>. \<^verbatim>\<open>char\<close> is signed on x86, so bytes are compared as
  signed numbers.
\<close>

function StrCmp_loop :: "cstr \<Rightarrow> cstr \<Rightarrow> nat \<Rightarrow> int" where
  "StrCmp_loop s t i =
     (if char_at s i \<noteq> 0 \<and> char_at t i \<noteq> 0 then
        if sint (char_at s i) < sint (char_at t i) then -1
        else if sint (char_at s i) > sint (char_at t i) then 1
        else if char_at s (Suc i) = 0 \<and> char_at t (Suc i) \<noteq> 0 then -1
        else if char_at t (Suc i) = 0 \<and> char_at s (Suc i) \<noteq> 0 then 1
        else StrCmp_loop s t (Suc i)
      else 0)"
  by pat_completeness auto
termination
  by (relation "measure (\<lambda>(s, t, i). length s - i)") (auto simp: char_at_def split: if_splits)

definition StrCmp :: "cstr option \<Rightarrow> cstr option \<Rightarrow> int" where
  "StrCmp str1 str2 = (case str1 of None \<Rightarrow> -2 | Some s \<Rightarrow>
     (case str2 of None \<Rightarrow> -2 | Some t \<Rightarrow> StrCmp_loop s t 0))"

function FirstIndexOf_loop :: "cstr \<Rightarrow> u8 \<Rightarrow> nat \<Rightarrow> int" where
  "FirstIndexOf_loop s c i =
     (if char_at s i \<noteq> 0 then
        if char_at s i = c then int i else FirstIndexOf_loop s c (Suc i)
      else -1)"
  by pat_completeness auto
termination
  by (relation "measure (\<lambda>(s, c, i). length s - i)") (auto simp: char_at_def split: if_splits)

definition FirstIndexOf :: "cstr option \<Rightarrow> u8 \<Rightarrow> int" where
  "FirstIndexOf str c = (case str of None \<Rightarrow> -2 | Some s \<Rightarrow> FirstIndexOf_loop s c 0)"

declare StrLen_loop.simps [simp del] StrCmp_loop.simps [simp del] FirstIndexOf_loop.simps [simp del]

subsection \<open>Memory\<close>

type_synonym memory = "addr \<Rightarrow> u8"

text \<open>\<^verbatim>\<open>MemSet\<close> and \<^verbatim>\<open>MemCopy\<close>: one byte per round, forwards.\<close>

fun MemSet_loop :: "memory \<Rightarrow> addr \<Rightarrow> u8 \<Rightarrow> nat \<Rightarrow> memory" where
  "MemSet_loop m p b 0 = m"
| "MemSet_loop m p b (Suc n) = MemSet_loop (m(p := b)) (p + 1) b n"

definition MemSet :: "memory \<Rightarrow> addr \<Rightarrow> u8 \<Rightarrow> u32 \<Rightarrow> memory" where
  "MemSet m p b sz = MemSet_loop m p b (unat sz)"

fun MemCopy_loop :: "memory \<Rightarrow> addr \<Rightarrow> addr \<Rightarrow> nat \<Rightarrow> memory" where
  "MemCopy_loop m src dst 0 = m"
| "MemCopy_loop m src dst (Suc n) = MemCopy_loop (m(dst := m src)) (src + 1) (dst + 1) n"

definition MemCopy :: "memory \<Rightarrow> addr \<Rightarrow> addr \<Rightarrow> u32 \<Rightarrow> memory" where
  "MemCopy m src dst sz = MemCopy_loop m src dst (unat sz)"

text \<open>\<^verbatim>\<open>StrCpy\<close> copies up to and including the NUL; without one it never ends.\<close>

partial_function (option) StrCpy_loop :: "memory \<Rightarrow> addr \<Rightarrow> addr \<Rightarrow> memory exec" where
  "StrCpy_loop m src dst =
     (if m src \<noteq> 0 then StrCpy_loop (m(dst := m src)) (src + 1) (dst + 1)
      else ret (m(dst := 0)))"

definition StrCpy :: "memory \<Rightarrow> addr \<Rightarrow> addr \<Rightarrow> memory exec" where
  "StrCpy m src dst =
     (if src = nullptr \<or> dst = nullptr then ret m else StrCpy_loop m src dst)"

text \<open>A 32-bit little-endian word in memory.\<close>

definition read32 :: "memory \<Rightarrow> addr \<Rightarrow> u32" where
  "read32 m p = ucast (m p) OR push_bit 8 (ucast (m (p + 1)))
     OR push_bit 16 (ucast (m (p + 2))) OR push_bit 24 (ucast (m (p + 3)))"

definition write32 :: "memory \<Rightarrow> addr \<Rightarrow> u32 \<Rightarrow> memory" where
  "write32 m p v = m(p := ucast v, p + 1 := ucast (drop_bit 8 v),
     p + 2 := ucast (drop_bit 16 v), p + 3 := ucast (drop_bit 24 v))"


subsection \<open>Port instructions\<close>

text \<open>
  \<^verbatim>\<open>kernel/drivers/proc_io.hpp\<close> and \<^verbatim>\<open>userland/system/Common/proc_io.h\<close>. The device behind the ports is not
  code: its state \<open>'d\<close> and what the instructions do to it are a parameter.
\<close>

record 'd ports =
  inb :: "u16 \<Rightarrow> 'd \<Rightarrow> u8 \<times> 'd"
  outb :: "u16 \<Rightarrow> u8 \<Rightarrow> 'd \<Rightarrow> 'd"
  inw :: "u16 \<Rightarrow> 'd \<Rightarrow> u16 \<times> 'd"
  outw :: "u16 \<Rightarrow> u16 \<Rightarrow> 'd \<Rightarrow> 'd"

subsection \<open>Facts on the string functions\<close>

lemma char_at_0_iff: "nul_free s \<Longrightarrow> char_at s i = 0 \<longleftrightarrow> length s \<le> i"
  unfolding char_at_def nul_free_def by (metis leI linorder_not_less nth_mem)

lemma char_at_Cons_Suc [simp]: "char_at (x # s) (Suc i) = char_at s i"
  by (simp add: char_at_def)

lemma char_at_Cons_0 [simp]: "char_at (x # s) 0 = x"
  by (simp add: char_at_def)

lemma char_at_Nil [simp]: "char_at [] i = 0"
  by (simp add: char_at_def)

lemma StrLen_loop_end [simp]: "nul_free s \<Longrightarrow> StrLen_loop s (length s) = length s"
  by (subst StrLen_loop.simps) (simp add: char_at_0_iff)

lemma StrLen_loop_eq: "i \<le> length s \<Longrightarrow> nul_free s \<Longrightarrow> StrLen_loop s i = length s"
proof (induction s i rule: StrLen_loop.induct)
  case (1 s i)
  then show ?case
    by (cases "i = length s") (simp_all add: char_at_0_iff StrLen_loop.simps [of s i])
qed

lemma StrLen_eq [simp]: "nul_free s \<Longrightarrow> StrLen (Some s) = length s"
  by (simp add: StrLen_def StrLen_loop_eq)

text \<open>The reference comparison: lexicographic on signed bytes.\<close>

fun lexcmp :: "cstr \<Rightarrow> cstr \<Rightarrow> int" where
  "lexcmp [] [] = 0"
| "lexcmp [] (y # ys) = -1"
| "lexcmp (x # xs) [] = 1"
| "lexcmp (x # xs) (y # ys) =
     (if sint x < sint y then -1 else if sint x > sint y then 1 else lexcmp xs ys)"

lemma lexcmp_eq_0_iff: "lexcmp s t = 0 \<longleftrightarrow> s = t"
  by (induction s t rule: lexcmp.induct) (auto simp flip: word_eq_iff_signed)

lemma StrCmp_loop_shift:
  "StrCmp_loop (x # s) (y # t) (Suc i) = StrCmp_loop s t i"
proof (induction s t i rule: StrCmp_loop.induct)
  case (1 s t i)
  then show ?case
    by (auto simp: StrCmp_loop.simps [of "x # s" "y # t" "Suc i"] StrCmp_loop.simps [of s t i])
qed

lemma StrCmp_loop_Cons:
  "StrCmp_loop (x # s) (y # t) 0 =
     (if x \<noteq> 0 \<and> y \<noteq> 0 then
        if sint x < sint y then -1 else if sint x > sint y then 1
        else if char_at s 0 = 0 \<and> char_at t 0 \<noteq> 0 then -1
        else if char_at t 0 = 0 \<and> char_at s 0 \<noteq> 0 then 1
        else StrCmp_loop s t 0
      else 0)"
  by (subst StrCmp_loop.simps) (simp add: StrCmp_loop_shift)

lemma StrCmp_loop_Nil: "StrCmp_loop [] t 0 = 0" "StrCmp_loop t [] 0 = 0"
  by (simp_all add: StrCmp_loop.simps)

lemma StrCmp_loop_lexcmp:
  "s \<noteq> [] \<Longrightarrow> t \<noteq> [] \<Longrightarrow> nul_free s \<Longrightarrow> nul_free t \<Longrightarrow> StrCmp_loop s t 0 = lexcmp s t"
proof (induction s t rule: lexcmp.induct)
  case (4 x xs y ys)
  have free: "nul_free xs" "nul_free ys" "x \<noteq> 0" "y \<noteq> 0"
    using "4.prems" by (auto simp: nul_free_def)
  have tail: "char_at xs 0 = 0 \<longleftrightarrow> xs = []" "char_at ys 0 = 0 \<longleftrightarrow> ys = []"
    using free by (auto simp: char_at_0_iff)
  show ?case
    using free "4.IH"
    by (cases "xs = []"; cases "ys = []") (auto simp: StrCmp_loop_Cons StrCmp_loop_Nil tail neq_Nil_conv)
qed simp_all

lemma StrCmp_eq_lexcmp:
  "s \<noteq> [] \<Longrightarrow> t \<noteq> [] \<Longrightarrow> nul_free s \<Longrightarrow> nul_free t \<Longrightarrow> StrCmp (Some s) (Some t) = lexcmp s t"
  by (simp add: StrCmp_def StrCmp_loop_lexcmp)

lemma StrCmp_empty: "StrCmp (Some []) (Some t) = 0" "StrCmp (Some t) (Some []) = 0"
  by (simp_all add: StrCmp_def StrCmp_loop_Nil)

lemma StrCmp_0_iff:
  "s \<noteq> [] \<Longrightarrow> t \<noteq> [] \<Longrightarrow> nul_free s \<Longrightarrow> nul_free t \<Longrightarrow> StrCmp (Some s) (Some t) = 0 \<longleftrightarrow> s = t"
  by (simp add: StrCmp_eq_lexcmp lexcmp_eq_0_iff)

lemma FirstIndexOf_loop_spec:
  assumes "nul_free s" and "c \<noteq> 0" and "i \<le> length s"
  shows "FirstIndexOf_loop s c i =
    (if c \<in> set (drop i s) then int (i + length (takeWhile (\<lambda>x. x \<noteq> c) (drop i s))) else -1)"
  using assms
proof (induction s c i rule: FirstIndexOf_loop.induct)
  case (1 s c i)
  show ?case
  proof (cases "i = length s")
    case True
    with "1.prems" show ?thesis
      by (subst FirstIndexOf_loop.simps) (simp add: char_at_0_iff)
  next
    case False
    with "1.prems" have i: "i < length s" and nz: "char_at s i \<noteq> 0"
      by (auto simp: char_at_0_iff)
    have d: "drop i s = s ! i # drop (Suc i) s"
      using i by (rule Cons_nth_drop_Suc [symmetric])
    show ?thesis
    proof (cases "s ! i = c")
      case True
      with i nz d show ?thesis
        by (simp add: FirstIndexOf_loop.simps [of s c i] char_at_def)
    next
      case False
      have "char_at s i \<noteq> c" using False i by (simp add: char_at_def)
      with nz i have step: "FirstIndexOf_loop s c i = FirstIndexOf_loop s c (Suc i)"
        by (simp add: FirstIndexOf_loop.simps [of s c i])
      show ?thesis
        using "1.IH" [OF nz \<open>char_at s i \<noteq> c\<close>] "1.prems" i False
        unfolding step d by auto
    qed
  qed
qed

lemma FirstIndexOf_spec:
  assumes "nul_free s" and "c \<noteq> 0"
  shows "FirstIndexOf (Some s) c =
    (if c \<in> set s then int (length (takeWhile (\<lambda>x. x \<noteq> c) s)) else -1)"
  using FirstIndexOf_loop_spec [OF assms, of 0] by (simp add: FirstIndexOf_def)

subsection \<open>Facts on memory\<close>

text \<open>
  Both block operations in closed form; \<open>a - p\<close> wraps, so \<open>unat (a - p) < n\<close> says that
  \<open>a\<close> is one of the \<open>n\<close> addresses from \<open>p\<close> on.
\<close>

lemma u32_succ_dist: "(a :: u32) \<noteq> p \<Longrightarrow> unat (a - p) = Suc (unat (a - (p + 1)))"
proof -
  assume "a \<noteq> p"
  then have "a - p \<noteq> 0" by simp
  moreover have "a - (p + 1) = (a - p) - 1" by simp
  ultimately show ?thesis by (metis Suc_pred' unat_gt_0 unat_minus_one)
qed

lemma MemSet_loop_eq:
  "n \<le> 4294967296 \<Longrightarrow> MemSet_loop m p b n a = (if unat (a - p) < n then b else m a)"
proof (induction n arbitrary: m p)
  case (Suc n)
  show ?case
  proof (cases "a = p")
    case True
    have "unat (p - (p + 1)) \<ge> n"
      using Suc.prems by simp
    with Suc True show ?thesis by simp
  next
    case False
    with Suc show ?thesis by (simp add: u32_succ_dist)
  qed
qed simp

lemma MemSet_eq: "MemSet m p b n a = (if unat (a - p) < unat n then b else m a)"
  using unat_lt_2p32 [of n] by (simp add: MemSet_def MemSet_loop_eq)

text \<open>A copy between disjoint regions.\<close>

definition separate :: "addr \<Rightarrow> nat \<Rightarrow> addr \<Rightarrow> nat \<Rightarrow> bool" where
  "separate p n q k \<longleftrightarrow> unat p + n \<le> 4294967296 \<and> unat q + k \<le> 4294967296 \<and>
     (unat p + n \<le> unat q \<or> unat q + k \<le> unat p)"

lemma unat_diff_lt_iff:
  assumes "unat p + n \<le> 4294967296"
  shows "unat ((a :: u32) - p) < n \<longleftrightarrow> unat p \<le> unat a \<and> unat a < unat p + n"
proof (cases "p \<le> a")
  case True
  then show ?thesis using unat_sub_nowrap [OF True] by (auto simp: word_le_nat_alt)
next
  case False
  then have "a < p" by simp
  then have "unat (a - p) = 4294967296 + unat a - unat p"
    by (simp add: unat_sub_if' word_le_nat_alt word_less_nat_alt)
  then show ?thesis using False assms \<open>a < p\<close> unat_lt_2p32 [of a]
    by (auto simp: word_le_nat_alt word_less_nat_alt)
qed

lemma MemCopy_loop_eq:
  assumes "separate src n dst n"
  shows "MemCopy_loop m src dst n a = (if unat (a - dst) < n then m (src + (a - dst)) else m a)"
  using assms
proof (induction n arbitrary: m src dst)
  case (Suc n)
  have sep: "separate (src + 1) n (dst + 1) n" if "n \<noteq> 0"
  proof -
    have "unat (src + 1) = unat src + 1" "unat (dst + 1) = unat dst + 1"
      using Suc.prems that by (auto simp: separate_def unat_word_ariths)
    then show ?thesis using Suc.prems by (auto simp: separate_def)
  qed
  have ih: "MemCopy_loop m' (src + 1) (dst + 1) n a =
      (if unat (a - (dst + 1)) < n then m' (src + 1 + (a - (dst + 1))) else m' a)" for m'
    using Suc.IH [OF sep] by (cases "n = 0") auto
  have bound: "unat dst + Suc n \<le> 4294967296" "unat src + Suc n \<le> 4294967296"
    using Suc.prems by (auto simp: separate_def)
  have src_ne: "src + (a - dst) \<noteq> dst" if "unat (a - dst) < Suc n"
  proof
    assume eq: "src + (a - dst) = dst"
    have "unat src + unat (a - dst) = unat (src + (a - dst))"
      using bound that by (simp add: unat_add_nowrap)
    then have "unat src + unat (a - dst) = unat dst" using eq by metis
    with that Suc.prems show False by (auto simp: separate_def)
  qed
  show ?case
  proof (cases "a = dst")
    case True
    moreover have "\<not> unat (dst - (dst + 1)) < n" using bound by simp
    ultimately show ?thesis using ih [of "m(dst := m src)"] by simp
  next
    case False
    have shift: "src + 1 + (a - (dst + 1)) = src + (a - dst)" by simp
    show ?thesis
      using src_ne False ih [of "m(dst := m src)"] u32_succ_dist [OF False] unfolding shift by auto
  qed
qed simp

lemma MemCopy_eq:
  assumes "separate src (unat n) dst (unat n)"
  shows "MemCopy m src dst n a = (if unat (a - dst) < unat n then m (src + (a - dst)) else m a)"
  by (simp add: MemCopy_def MemCopy_loop_eq [OF assms])

lemma read32_write32_same [simp]: "read32 (write32 m p v) p = v"
proof (rule bit_word_eqI)
  fix n
  assume "n < LENGTH(32)"
  then consider "n < 8" | "8 \<le> n \<and> n < 16" | "16 \<le> n \<and> n < 24" | "24 \<le> n \<and> n < 32"
    by fastforce
  then show "bit (read32 (write32 m p v) p) n = bit v n"
    by cases (auto simp: read32_def write32_def bit_simps)
qed

lemma write32_other:
  assumes "a \<noteq> p" "a \<noteq> p + 1" "a \<noteq> p + 2" "a \<noteq> p + 3"
  shows "write32 m p v a = m a"
  using assms by (simp add: write32_def)

lemma read32_cong:
  assumes "m' p = m p" "m' (p + 1) = m (p + 1)" "m' (p + 2) = m (p + 2)" "m' (p + 3) = m (p + 3)"
  shows "read32 m' p = read32 m p"
  using assms by (simp add: read32_def)

subsection \<open>Properties\<close>

text \<open>
  on two non-empty C strings \<^verbatim>\<open>StrCmp\<close> is the lexicographic comparison of signed
  bytes, and it is 0 exactly on equal strings.
\<close>

theorem StrCmp_lexicographic:
  assumes "s \<noteq> []" and "t \<noteq> []" and "nul_free s" and "nul_free t"
  shows "StrCmp (Some s) (Some t) = lexcmp s t \<and> (StrCmp (Some s) (Some t) = 0 \<longleftrightarrow> s = t)"
  using StrCmp_eq_lexcmp [OF assms] StrCmp_0_iff [OF assms] by blast

theorem StrCmp_lexicographic_witness:
  "StrCmp (Some [97, 98]) (Some [97, 200]) = 1 \<and> lexcmp [97, 98] [97, 200] = 1"
proof -
  have "lexcmp [97, 98] [97, 200] = 1" by code_simp
  then show ?thesis
    using StrCmp_lexicographic [of "[97, 98]" "[97, 200]"] by (simp add: nul_free_def)
qed

end
