(* ===== verification/Pmm.thy ===== *)
theory Pmm
  imports Kernel_Lib
begin

section \<open>The physical memory manager\<close>

text \<open>
  \<^verbatim>\<open>kernel/arch/x86/Pmm.cpp\<close>: one bit per 4 KiB page of the 4 GiB physical address space.
  The operations work on any state that extends the record \<open>pmm\<close>. The locale
  \<open>physical_allocator\<close> is the contract of the abstract class \<^verbatim>\<open>PmmInterface\<close>;
  \<open>PmmBitmap\<close> implements it.
\<close>

abbreviation PAGE_SIZE :: u32 where
  "PAGE_SIZE \<equiv> 4096"

abbreviation RAM_MAXPAGE :: nat where
  "RAM_MAXPAGE \<equiv> 1048576"

abbreviation MEM_BITMAP_SIZE :: nat where
  "MEM_BITMAP_SIZE \<equiv> 131072"

text \<open>The macro \<^verbatim>\<open>PAGE\<close>.\<close>

definition PAGE :: "u32 \<Rightarrow> u32" where
  "PAGE a = drop_bit 12 a"

record pmm =
  memBitmap :: "nat \<Rightarrow> u8"

subsection \<open>Operations\<close>

definition SET_PAGE_USED :: "u32 \<Rightarrow> (nat \<Rightarrow> u8) \<Rightarrow> (nat \<Rightarrow> u8)" where
  "SET_PAGE_USED page m =
     (let byte = unat page div 8 in m(byte := m byte OR push_bit (unat page mod 8) 1))"

definition SET_PAGE_UNUSED :: "addr \<Rightarrow> (nat \<Rightarrow> u8) \<Rightarrow> (nat \<Rightarrow> u8)" where
  "SET_PAGE_UNUSED a m =
     (let page = unat (a div PAGE_SIZE); byte = page div 8
      in m(byte := m byte AND NOT (push_bit (page mod 8) 1)))"

text \<open>The two loops of \<^verbatim>\<open>PmmBitmap::Init\<close>.\<close>

function fill_missing :: "nat \<Rightarrow> (nat \<Rightarrow> u8) \<Rightarrow> (nat \<Rightarrow> u8)" where
  "fill_missing page m =
     (if page < RAM_MAXPAGE div 8 then fill_missing (page + 1) (m(page := 0xFF)) else m)"
  by pat_completeness auto
termination
  by (relation "measure (\<lambda>(page, _). RAM_MAXPAGE - page)") auto

function fill_kernel :: "nat \<Rightarrow> nat \<Rightarrow> (nat \<Rightarrow> u8) \<Rightarrow> (nat \<Rightarrow> u8)" where
  "fill_kernel page n m =
     (if page < n then fill_kernel (page + 1) n (SET_PAGE_USED (of_nat page) m) else m)"
  by pat_completeness auto
termination
  by (relation "measure (\<lambda>(page, n, _). n - page)") auto

declare fill_missing.simps [simp del] fill_kernel.simps [simp del]

text \<open>
  \<open>high_mem\<close> is the multiboot field in KiB, \<open>pKernelLimit\<close> the end of the kernel's
  physical memory.
\<close>

definition Pmm_Init :: "u32 \<Rightarrow> addr \<Rightarrow> 'z pmm_scheme \<Rightarrow> 'z pmm_scheme" where
  "Pmm_Init high_mem pKernelLimit s =
     (let m0 = (\<lambda>i. if i < MEM_BITMAP_SIZE then 0 else memBitmap s i);
          lastPage = unat ((high_mem * 1024) div PAGE_SIZE);
          m1 = fill_missing (lastPage div 8) m0
      in s\<lparr>memBitmap := fill_kernel (unat (PAGE 0)) (unat (PAGE pKernelLimit)) m1\<rparr>)"

text \<open>The inner and the outer loop of \<^verbatim>\<open>GetFreePage\<close>.\<close>

function find_bit :: "u8 \<Rightarrow> nat \<Rightarrow> nat option" where
  "find_bit b i =
     (if i < 8 then if b AND push_bit i 1 = 0 then Some i else find_bit b (i + 1) else None)"
  by pat_completeness auto
termination
  by (relation "measure (\<lambda>(b, i). 8 - i)") auto

function find_page :: "(nat \<Rightarrow> u8) \<Rightarrow> nat \<Rightarrow> nat option" where
  "find_page m byte =
     (if byte < MEM_BITMAP_SIZE then
        if m byte \<noteq> 0xFF then
          case find_bit (m byte) 0 of Some i \<Rightarrow> Some (8 * byte + i) | None \<Rightarrow> find_page m (byte + 1)
        else find_page m (byte + 1)
      else None)"
  by pat_completeness auto
termination
  by (relation "measure (\<lambda>(m, byte). MEM_BITMAP_SIZE - byte)") auto

declare find_bit.simps [simp del] find_page.simps [simp del]

definition GetFreePage :: "'z pmm_scheme \<Rightarrow> addr \<times> 'z pmm_scheme" where
  "GetFreePage s = (case find_page (memBitmap s) 0 of
     Some page \<Rightarrow> (of_nat page * PAGE_SIZE, s\<lparr>memBitmap := SET_PAGE_USED (of_nat page) (memBitmap s)\<rparr>)
   | None \<Rightarrow> (-1, s))"

definition ReleasePage :: "addr \<Rightarrow> 'z pmm_scheme \<Rightarrow> 'z pmm_scheme" where
  "ReleasePage a s = s\<lparr>memBitmap := SET_PAGE_UNUSED a (memBitmap s)\<rparr>"

subsection \<open>The set of used pages\<close>

definition page_used :: "(nat \<Rightarrow> u8) \<Rightarrow> nat \<Rightarrow> bool" where
  "page_used m p \<longleftrightarrow> bit (m (p div 8)) (p mod 8)"

definition used_pages :: "'z pmm_scheme \<Rightarrow> nat set" where
  "used_pages s = {p. p < RAM_MAXPAGE \<and> page_used (memBitmap s) p}"

lemma page_split: "p div 8 = q div 8 \<Longrightarrow> p mod 8 = q mod 8 \<Longrightarrow> p = (q :: nat)"
  by (metis div_mult_mod_eq)

lemma page_used_set [simp]:
  assumes "p < RAM_MAXPAGE"
  shows "page_used (SET_PAGE_USED (of_nat p) m) q \<longleftrightarrow> q = p \<or> page_used m q"
proof -
  have "unat (of_nat p :: u32) = p" using assms by (simp add: unat_of_nat_u32)
  then show ?thesis
    by (auto simp: SET_PAGE_USED_def page_used_def Let_def bit_simps dest: page_split)
qed

lemma page_used_unset [simp]:
  "page_used (SET_PAGE_UNUSED a m) q \<longleftrightarrow> q \<noteq> unat a div 4096 \<and> page_used m q"
  by (auto simp: SET_PAGE_UNUSED_def page_used_def Let_def bit_simps unat_div dest: page_split)

lemma and_bit_zero_iff: "(b :: u8) AND 2 ^ i = 0 \<longleftrightarrow> \<not> bit b i"
  by (rule and_exp_eq_0_iff_not_bit)

lemma bit_u8_FF: "bit (0xFF :: u8) k \<longleftrightarrow> k < 8"
proof -
  have "(0xFF :: u8) = -1" by simp
  then show ?thesis by (simp only: bit_minus_1_iff) simp
qed

lemma find_bit_Some: "find_bit b i = Some k \<Longrightarrow> i \<le> k \<and> k < 8 \<and> \<not> bit b k \<and> (\<forall>j. i \<le> j \<and> j < k \<longrightarrow> bit b j)"
proof (induction b i rule: find_bit.induct)
  case (1 b i)
  from "1.prems" have i: "i < 8" by (subst (asm) find_bit.simps) (auto split: if_splits)
  show ?case
  proof (cases "bit b i")
    case True
    then have "find_bit b (i + 1) = Some k"
      using "1.prems" i by (simp add: find_bit.simps [of b i] and_bit_zero_iff)
    with "1.IH" i True have "i + 1 \<le> k \<and> k < 8 \<and> \<not> bit b k \<and> (\<forall>j. i + 1 \<le> j \<and> j < k \<longrightarrow> bit b j)"
      by (simp add: and_bit_zero_iff)
    with True show ?thesis by (metis Suc_eq_plus1 Suc_leD Suc_leI order_le_less)
  next
    case False
    with "1.prems" i have "k = i" by (simp add: find_bit.simps [of b i] and_bit_zero_iff)
    with False i show ?thesis by auto
  qed
qed

lemma find_bit_None: "find_bit b i = None \<Longrightarrow> i \<le> j \<Longrightarrow> j < 8 \<Longrightarrow> bit b j"
proof (induction b i rule: find_bit.induct)
  case (1 b i)
  then have i: "i < 8" by simp
  from "1.prems"(1) i have b: "bit b i" "find_bit b (i + 1) = None"
    by (auto simp: find_bit.simps [of b i] and_bit_zero_iff split: if_splits)
  show ?case
  proof (cases "j = i")
    case False
    with "1.prems" i b show ?thesis by (intro "1.IH") (auto simp: and_bit_zero_iff)
  qed (use b in simp)
qed

lemma find_page_Some:
  "find_page m i = Some p \<Longrightarrow>
     8 * i \<le> p \<and> p < RAM_MAXPAGE \<and> \<not> page_used m p \<and> (\<forall>q. 8 * i \<le> q \<and> q < p \<longrightarrow> page_used m q)"
proof (induction m i rule: find_page.induct)
  case (1 m i)
  from "1.prems" have i: "i < MEM_BITMAP_SIZE" by (subst (asm) find_page.simps) (auto split: if_splits)
  show ?case
  proof (cases "find_bit (m i) 0")
    case (Some k)
    then have k: "k < 8" "\<not> bit (m i) k" "\<And>j. j < k \<Longrightarrow> bit (m i) j"
      using find_bit_Some by blast+
    then have "m i \<noteq> 0xFF" using bit_u8_FF by metis
    then have p: "p = 8 * i + k" using "1.prems" i Some by (simp add: find_page.simps [of m i])
    have "page_used m q" if "8 * i \<le> q" "q < p" for q
    proof -
      have qi: "q div 8 = i" using that k(1) p by auto
      then have "q mod 8 < k" using that(2) p div_mult_mod_eq [of q 8] by linarith
      with qi show ?thesis using k(3) by (simp add: page_used_def)
    qed
    then show ?thesis using p k i by (auto simp: page_used_def)
  next
    case None
    then have step: "find_page m (i + 1) = Some p"
      using "1.prems" i by (auto simp: find_page.simps [of m i] split: if_splits)
    have "8 * (i + 1) \<le> p \<and> p < RAM_MAXPAGE \<and> \<not> page_used m p \<and>
        (\<forall>q. 8 * (i + 1) \<le> q \<and> q < p \<longrightarrow> page_used m q)"
      using "1.IH" i None step by (cases "m i = 0xFF") auto
    moreover have "page_used m q" if "8 * i \<le> q" "q < 8 * (i + 1)" for q
    proof -
      have "q div 8 = i" "q mod 8 < 8" using that by auto
      then show ?thesis using find_bit_None [OF None] by (simp add: page_used_def)
    qed
    ultimately show ?thesis by (metis add_leD1 distrib_left not_le_imp_less nat_mult_1_right)
  qed
qed

lemma find_page_None:
  "find_page m i = None \<Longrightarrow> 8 * i \<le> q \<Longrightarrow> q < RAM_MAXPAGE \<Longrightarrow> page_used m q"
proof (induction m i rule: find_page.induct)
  case (1 m i)
  then have i: "i < MEM_BITMAP_SIZE" by auto
  have all: "bit (m i) j" if "j < 8" for j
  proof (cases "m i = 0xFF")
    case False
    then have "find_bit (m i) 0 = None"
      using "1.prems"(1) i by (auto simp: find_page.simps [of m i] split: option.splits)
    then show ?thesis using find_bit_None that by blast
  next
    case True
    then show ?thesis using that bit_u8_FF by metis
  qed
  show ?case
  proof (cases "q < 8 * (i + 1)")
    case True
    then have "q div 8 = i" using "1.prems"(2) by auto
    then show ?thesis using all by (simp add: page_used_def)
  next
    case False
    have "find_page m (i + 1) = None"
      using "1.prems"(1) i by (auto simp: find_page.simps [of m i] split: option.splits if_splits)
    then show ?thesis using "1.IH" "1.prems" False i
      by (cases "m i = 0xFF"; cases "find_bit (m i) 0")
        (auto simp: find_page.simps [of m i])
  qed
qed

subsection \<open>What the operations do to the set of used pages\<close>

lemma used_pages_upd [simp]:
  "used_pages (s\<lparr>memBitmap := m\<rparr>) = {p. p < RAM_MAXPAGE \<and> page_used m p}"
  by (simp add: used_pages_def)

lemma used_pages_bound: "used_pages s \<subseteq> {..<RAM_MAXPAGE}"
  by (auto simp: used_pages_def)

lemma finite_used_pages [simp]: "finite (used_pages s)"
  by (rule finite_subset [OF used_pages_bound]) simp

lemma GetFreePage_Some:
  assumes "used_pages s \<noteq> {..<RAM_MAXPAGE}"
  obtains p where "GetFreePage s = (of_nat p * PAGE_SIZE, s\<lparr>memBitmap := SET_PAGE_USED (of_nat p) (memBitmap s)\<rparr>)"
    "p < RAM_MAXPAGE" "p \<notin> used_pages s" "\<And>q. q < p \<Longrightarrow> q \<in> used_pages s"
    "used_pages (snd (GetFreePage s)) = insert p (used_pages s)"
proof (cases "find_page (memBitmap s) 0")
  case None
  then have "used_pages s = {..<RAM_MAXPAGE}"
    using find_page_None [of "memBitmap s" 0] by (auto simp: used_pages_def)
  with assms show ?thesis by simp
next
  case (Some p)
  then have p: "p < RAM_MAXPAGE" "\<not> page_used (memBitmap s) p" "\<And>q. q < p \<Longrightarrow> page_used (memBitmap s) q"
    using find_page_Some by fastforce+
  show ?thesis
    by (rule that [of p]) (use Some p in \<open>auto simp: GetFreePage_def used_pages_def\<close>)
qed

lemma GetFreePage_full:
  assumes "used_pages s = {..<RAM_MAXPAGE}"
  shows "GetFreePage s = (-1, s)"
proof (cases "find_page (memBitmap s) 0")
  case (Some p)
  then have "p < RAM_MAXPAGE" "p \<notin> used_pages s"
    using find_page_Some by (fastforce simp: used_pages_def)+
  with assms show ?thesis by auto
qed (simp add: GetFreePage_def)

lemma used_pages_release [simp]: "used_pages (ReleasePage a s) = used_pages s - {unat a div 4096}"
  by (auto simp: ReleasePage_def used_pages_def)

lemma fill_missing_eq:
  "fill_missing i m = (\<lambda>k. if i \<le> k \<and> k < MEM_BITMAP_SIZE then 0xFF else m k)"
proof (induction i m rule: fill_missing.induct)
  case (1 i m)
  show ?case
  proof (cases "i < MEM_BITMAP_SIZE")
    case True
    then have "fill_missing i m = fill_missing (i + 1) (m(i := 0xFF))" by (subst fill_missing.simps) simp
    also have "\<dots> = (\<lambda>k. if i + 1 \<le> k \<and> k < MEM_BITMAP_SIZE then 0xFF else (m(i := 0xFF)) k)"
      using 1 True by (simp add: fun_upd_def)
    finally show ?thesis using True by (auto simp: fun_eq_iff)
  next
    case False
    then show ?thesis by (subst fill_missing.simps) (auto simp: fun_eq_iff)
  qed
qed

lemma page_used_fill_kernel:
  "n \<le> RAM_MAXPAGE \<Longrightarrow> page_used (fill_kernel i n m) p \<longleftrightarrow> (i \<le> p \<and> p < n) \<or> page_used m p"
proof (induction i n m rule: fill_kernel.induct)
  case (1 i n m)
  show ?case
  proof (cases "i < n")
    case True
    with 1 have "page_used (fill_kernel (i + 1) n (SET_PAGE_USED (of_nat i) m)) p \<longleftrightarrow>
        (i + 1 \<le> p \<and> p < n) \<or> page_used (SET_PAGE_USED (of_nat i) m) p" by blast
    then show ?thesis using True "1.prems" by (subst fill_kernel.simps) (auto simp: le_less_Suc_eq)
  next
    case False
    then show ?thesis by (subst fill_kernel.simps) auto
  qed
qed

lemma used_pages_Init:
  "used_pages (Pmm_Init high_mem limit s) =
     {p. p < RAM_MAXPAGE \<and> (unat ((high_mem * 1024) div PAGE_SIZE) div 8 * 8 \<le> p \<or> p < unat limit div 4096)}"
proof -
  let ?last = "unat ((high_mem * 1024) div PAGE_SIZE)"
  let ?m = "\<lambda>k. if k < MEM_BITMAP_SIZE then 0 else memBitmap s k"
  have limit: "unat (PAGE limit) = unat limit div 4096"
    by (simp add: PAGE_def drop_bit_eq_div unat_div)
  have zero: "unat (PAGE 0) = 0" by (simp add: PAGE_def)
  have bound: "unat limit div 4096 \<le> RAM_MAXPAGE" using unat_lt_2p32 [of limit] by simp
  have ff: "bit (0xFF :: u8) (p mod 8)" for p :: nat using bit_u8_FF [of "p mod 8"] by simp
  have "page_used (fill_missing (?last div 8) ?m) p \<longleftrightarrow> ?last div 8 * 8 \<le> p" if "p < RAM_MAXPAGE" for p
  proof -
    have "p div 8 < MEM_BITMAP_SIZE" using that by simp
    moreover have "?last div 8 \<le> p div 8 \<longleftrightarrow> ?last div 8 * 8 \<le> p" by linarith
    ultimately show ?thesis using ff [of p] by (simp add: fill_missing_eq page_used_def)
  qed
  then have "page_used (fill_kernel 0 (unat limit div 4096) (fill_missing (?last div 8) ?m)) p \<longleftrightarrow>
      ?last div 8 * 8 \<le> p \<or> p < unat limit div 4096" if "p < RAM_MAXPAGE" for p
    using page_used_fill_kernel [OF bound] that by auto
  then show ?thesis by (auto simp: Pmm_Init_def Let_def limit zero)
qed

subsection \<open>The contract of \<open>PmmInterface\<close>\<close>

locale physical_allocator =
  fixes get :: "'s \<Rightarrow> addr \<times> 's"
    and release :: "addr \<Rightarrow> 's \<Rightarrow> 's"
    and used :: "'s \<Rightarrow> nat set"
  assumes get_new: "used s \<noteq> {..<RAM_MAXPAGE} \<Longrightarrow> get s = (a, s') \<Longrightarrow>
      \<exists>p < RAM_MAXPAGE. a = of_nat p * PAGE_SIZE \<and> p \<notin> used s \<and> used s' = insert p (used s)"
    and get_full: "used s = {..<RAM_MAXPAGE} \<Longrightarrow> get s = (-1, s)"
    and release_used: "used (release a s) = used s - {unat a div 4096}"
    and used_bound: "used s \<subseteq> {..<RAM_MAXPAGE}"
begin

lemma page_addr: "p < RAM_MAXPAGE \<Longrightarrow> unat (of_nat p * PAGE_SIZE) = p * 4096"
  by (subst unat_mult_nowrap) (simp_all add: unat_of_nat_u32)

text \<open>A page goes round: taken and given back, the set of used pages is as before.\<close>

lemma get_release:
  assumes "used s \<noteq> {..<RAM_MAXPAGE}" and "get s = (a, s')"
  shows "used (release a s') = used s"
proof -
  obtain p where "p < RAM_MAXPAGE" "a = of_nat p * PAGE_SIZE" "p \<notin> used s" "used s' = insert p (used s)"
    using get_new [OF assms] by blast
  then show ?thesis by (simp add: release_used page_addr)
qed

text \<open>The failure value is not an address that \<open>get\<close> can return for a page.\<close>

lemma get_fails_iff: "get s = (a, s') \<Longrightarrow> a = -1 \<longleftrightarrow> used s = {..<RAM_MAXPAGE}"
proof -
  assume g: "get s = (a, s')"
  have "a \<noteq> -1" if "used s \<noteq> {..<RAM_MAXPAGE}"
  proof -
    note notfull = that
    obtain p where "p < RAM_MAXPAGE" "a = of_nat p * PAGE_SIZE" using get_new [OF notfull g] by blast
    then have "unat a = p * 4096" by (simp add: page_addr)
    moreover have "p * 4096 mod 4096 \<noteq> 4294967295 mod 4096" by simp
    then have "p * 4096 \<noteq> 4294967295" by metis
    ultimately show ?thesis using unat_minus_1_u32 by metis
  qed
  then show ?thesis using get_full [of s] g by (metis prod.inject)
qed

lemma free_count:
  assumes "get s = (a, s')"
  shows "card ({..<RAM_MAXPAGE} - used s') = card ({..<RAM_MAXPAGE} - used s) - 1"
proof (cases "used s = {..<RAM_MAXPAGE}")
  case True
  then show ?thesis using get_full [OF True] assms by simp
next
  case False
  then obtain p where "p < RAM_MAXPAGE" "p \<notin> used s" "used s' = insert p (used s)"
    using get_new [OF False assms] by blast
  then have "{..<RAM_MAXPAGE} - used s' = ({..<RAM_MAXPAGE} - used s) - {p}"
    and "p \<in> {..<RAM_MAXPAGE} - used s" by blast+
  then show ?thesis by (metis card_Diff_singleton)
qed

end

interpretation pmm: physical_allocator GetFreePage ReleasePage used_pages
proof
  show "\<exists>p < RAM_MAXPAGE. a = of_nat p * PAGE_SIZE \<and> p \<notin> used_pages s \<and> used_pages s' = insert p (used_pages s)"
    if "used_pages s \<noteq> {..<RAM_MAXPAGE}" "GetFreePage s = (a, s')" for s s' :: "'z pmm_scheme" and a
    by (rule GetFreePage_Some [OF that(1)]) (use that(2) in auto)
qed (auto simp: GetFreePage_full used_pages_bound dest: subsetD [OF used_pages_bound])

end
