(* ===== verification/Vmm.thy ===== *)
theory Vmm
  imports Pmm
begin

section \<open>The virtual memory manager\<close>

text \<open>
  \<^verbatim>\<open>kernel/arch/x86/Vmm.cpp\<close> on a model of the x86 memory management unit: byte
  addressed physical memory, the register \<^verbatim>\<open>cr3\<close>, the paging bit of
  \<^verbatim>\<open>cr0\<close>, and two-level translation. An access to an address without a present
  mapping is a page fault, here a \<open>BadAccess\<close>. The accessed and dirty bits the processor
  sets, and stale translations in the TLB, are not modelled.
\<close>

subsection \<open>The machine\<close>

record machine = pmm +
  pmem :: memory
  cr3 :: addr
  paging :: bool
  s_SavedPageDirectoryEntry :: addr

text \<open>The constants of \<^verbatim>\<open>Kernel.hpp\<close> and \<^verbatim>\<open>Vmm.hpp\<close>.\<close>

abbreviation KERNEL_PAGE_DIR_P_ADDR :: addr where
  "KERNEL_PAGE_DIR_P_ADDR \<equiv> 0x1000"

abbreviation KERNEL_PAGES_TABLE_P_ADDR :: addr where
  "KERNEL_PAGES_TABLE_P_ADDR \<equiv> 0x400000"

abbreviation KERNEL_LIMIT_P_ADDR :: addr where
  "KERNEL_LIMIT_P_ADDR \<equiv> 0x800000"

abbreviation V_USER_BASE_ADDR :: addr where
  "V_USER_BASE_ADDR \<equiv> 0x40000000"

abbreviation PAGE_PRESENT :: u32 where "PAGE_PRESENT \<equiv> 1"
abbreviation PAGE_WRITEABLE :: u32 where "PAGE_WRITEABLE \<equiv> 2"
abbreviation PAGE_NON_PRIVILEGED_ACCESS :: u32 where "PAGE_NON_PRIVILEGED_ACCESS \<equiv> 4"
abbreviation PAGE_PWT :: u32 where "PAGE_PWT \<equiv> 8"
abbreviation PAGE_PCD :: u32 where "PAGE_PCD \<equiv> 16"
abbreviation PAGE_ACCESSED :: u32 where "PAGE_ACCESSED \<equiv> 32"
abbreviation PAGE_WRITTEN :: u32 where "PAGE_WRITTEN \<equiv> 64"
abbreviation PAGE_SIZE_4MO :: u32 where "PAGE_SIZE_4MO \<equiv> 128"
abbreviation PAGE_EMPTY :: u32 where "PAGE_EMPTY \<equiv> 0"

text \<open>The macro \<^verbatim>\<open>FlagOn\<close>.\<close>

definition FlagOn :: "u32 \<Rightarrow> u32 \<Rightarrow> bool" where
  "FlagOn a b \<longleftrightarrow> a AND b \<noteq> 0"

text \<open>The translation the processor makes for a supervisor access.\<close>

definition mmu :: "'z machine_scheme \<Rightarrow> addr \<Rightarrow> addr option" where
  "mmu s v = (if \<not> paging s then Some v
     else let pde = read32 (pmem s) ((cr3 s AND 0xFFFFF000) + 4 * drop_bit 22 v) in
       if \<not> FlagOn pde PAGE_PRESENT then None
       else let pte = read32 (pmem s) ((pde AND 0xFFFFF000) + 4 * (drop_bit 12 v AND 0x3FF)) in
         if \<not> FlagOn pte PAGE_PRESENT then None
         else Some ((pte AND 0xFFFFF000) + (v AND 0xFFF)))"

definition vread8 :: "'z machine_scheme \<Rightarrow> addr \<Rightarrow> u8 exec" where
  "vread8 s v = (case mmu s v of None \<Rightarrow> halt BadAccess | Some p \<Rightarrow> ret (pmem s p))"

definition vwrite8 :: "addr \<Rightarrow> u8 \<Rightarrow> 'z machine_scheme \<Rightarrow> 'z machine_scheme exec" where
  "vwrite8 v b s = (case mmu s v of None \<Rightarrow> halt BadAccess
     | Some p \<Rightarrow> ret (s\<lparr>pmem := (pmem s)(p := b)\<rparr>))"

text \<open>A 32-bit access: the four addresses are translated first, the access may cross a page.\<close>

definition vread32 :: "'z machine_scheme \<Rightarrow> addr \<Rightarrow> u32 exec" where
  "vread32 s v = (case (mmu s v, mmu s (v + 1), mmu s (v + 2), mmu s (v + 3)) of
       (Some a, Some b, Some c, Some d) \<Rightarrow>
         ret (ucast (pmem s a) OR push_bit 8 (ucast (pmem s b))
           OR push_bit 16 (ucast (pmem s c)) OR push_bit 24 (ucast (pmem s d)))
     | _ \<Rightarrow> halt BadAccess)"

definition vwrite32 :: "addr \<Rightarrow> u32 \<Rightarrow> 'z machine_scheme \<Rightarrow> 'z machine_scheme exec" where
  "vwrite32 v w s = (case (mmu s v, mmu s (v + 1), mmu s (v + 2), mmu s (v + 3)) of
       (Some a, Some b, Some c, Some d) \<Rightarrow>
         ret (s\<lparr>pmem := (pmem s)(a := ucast w, b := ucast (drop_bit 8 w),
           c := ucast (drop_bit 16 w), d := ucast (drop_bit 24 w))\<rparr>)
     | _ \<Rightarrow> halt BadAccess)"

text \<open>\<^verbatim>\<open>MemSet\<close> on virtual addresses.\<close>

fun vMemSet :: "addr \<Rightarrow> u8 \<Rightarrow> nat \<Rightarrow> 'z machine_scheme \<Rightarrow> 'z machine_scheme exec" where
  "vMemSet p b 0 s = ret s"
| "vMemSet p b (Suc n) s = andThen (vwrite8 p b s) (vMemSet (p + 1) b n)"

subsection \<open>Page directory and page table entries\<close>

text \<open>Assigning one bit or one bit field of a 32-bit structure.\<close>

definition set_field :: "nat \<Rightarrow> nat \<Rightarrow> u32 \<Rightarrow> u32 \<Rightarrow> u32" where
  "set_field lo width v w = (w AND NOT (push_bit lo (mask width))) OR push_bit lo (v AND mask width)"

abbreviation set_flag :: "nat \<Rightarrow> bool \<Rightarrow> u32 \<Rightarrow> u32" where
  "set_flag i b w \<equiv> set_field i 1 (of_bool b) w"

definition encode_pde :: "u32 \<Rightarrow> u32 \<Rightarrow> u32" where
  "encode_pde ptAddr flags =
     set_flag 7 (FlagOn flags PAGE_SIZE_4MO)
      (set_flag 5 (FlagOn flags PAGE_ACCESSED)
       (set_flag 4 (FlagOn flags PAGE_PCD)
        (set_flag 3 (FlagOn flags PAGE_PWT)
         (set_flag 2 (FlagOn flags PAGE_NON_PRIVILEGED_ACCESS)
          (set_flag 1 (FlagOn flags PAGE_WRITEABLE)
           (set_flag 0 (FlagOn flags PAGE_PRESENT) ptAddr))))))"

definition encode_pte :: "u32 \<Rightarrow> u32 \<Rightarrow> u32" where
  "encode_pte pageAddr flags =
     set_flag 6 (FlagOn flags PAGE_WRITTEN)
      (set_flag 5 (FlagOn flags PAGE_ACCESSED)
       (set_flag 4 (FlagOn flags PAGE_PCD)
        (set_flag 3 (FlagOn flags PAGE_PWT)
         (set_flag 2 (FlagOn flags PAGE_NON_PRIVILEGED_ACCESS)
          (set_flag 1 (FlagOn flags PAGE_WRITEABLE)
           (set_flag 0 (FlagOn flags PAGE_PRESENT) pageAddr))))))"

text \<open>
  The setters. The clearing for \<^verbatim>\<open>PAGE_EMPTY\<close> is overwritten by the assignment that
  follows it; the bit field assignments all hit the word just written, so they are one store.
\<close>

definition SetPageDirectoryEntry :: "addr \<Rightarrow> u32 \<Rightarrow> u32 \<Rightarrow> 'z machine_scheme \<Rightarrow> 'z machine_scheme exec" where
  "SetPageDirectoryEntry pd ptAddr flags s =
     andThen (if flags = PAGE_EMPTY then vMemSet pd 0 4 s else ret s)
       (vwrite32 pd (encode_pde ptAddr flags))"

definition SetPageDirectoryEntryEx ::
  "addr \<Rightarrow> u32 \<Rightarrow> u32 \<Rightarrow> u8 \<Rightarrow> u8 \<Rightarrow> 'z machine_scheme \<Rightarrow> 'z machine_scheme exec" where
  "SetPageDirectoryEntryEx pd ptAddr flags global avail s =
     andThen (SetPageDirectoryEntry pd ptAddr flags s) (\<lambda>s1.
     andThen (vread32 s1 pd) (\<lambda>w.
       vwrite32 pd (set_field 8 1 (ucast global) (set_field 9 3 (ucast avail) w)) s1))"

definition SetPageTableEntry :: "addr \<Rightarrow> u32 \<Rightarrow> u32 \<Rightarrow> 'z machine_scheme \<Rightarrow> 'z machine_scheme exec" where
  "SetPageTableEntry pt pageAddr flags s =
     andThen (if flags = PAGE_EMPTY then vMemSet pt 0 4 s else ret s)
       (vwrite32 pt (encode_pte pageAddr flags))"

definition SetPageTableEntryEx ::
  "addr \<Rightarrow> u32 \<Rightarrow> u32 \<Rightarrow> u8 \<Rightarrow> u8 \<Rightarrow> 'z machine_scheme \<Rightarrow> 'z machine_scheme exec" where
  "SetPageTableEntryEx pt pageAddr flags global avail s =
     andThen (SetPageTableEntry pt pageAddr flags s) (\<lambda>s1.
     andThen (vread32 s1 pt) (\<lambda>w.
       vwrite32 pt (set_field 8 1 (ucast global) (set_field 9 3 (ucast avail) w)) s1))"

definition CleanPageDirectory :: "addr \<Rightarrow> 'z machine_scheme \<Rightarrow> 'z machine_scheme exec" where
  "CleanPageDirectory pageDirectoryEntry s = vMemSet pageDirectoryEntry 0 4096 s"

definition CleanPageTable :: "addr \<Rightarrow> 'z machine_scheme \<Rightarrow> 'z machine_scheme exec" where
  "CleanPageTable pageTableEntry s = vMemSet pageTableEntry 0 4096 s"

subsection \<open>Initialisation\<close>

function init_entries :: "addr \<Rightarrow> nat \<Rightarrow> 'z machine_scheme \<Rightarrow> 'z machine_scheme exec" where
  "init_entries pageTable j s =
     (if j < 1024 then
        andThen (SetPageTableEntry (pageTable + of_nat (4 * j)) 0 (PAGE_PRESENT OR PAGE_WRITEABLE) s)
          (init_entries pageTable (j + 1))
      else ret s)"
  by pat_completeness auto
termination
  by (relation "measure (\<lambda>(_, j, _). 1024 - j)") auto

function init_tables :: "addr \<Rightarrow> addr \<Rightarrow> nat \<Rightarrow> 'z machine_scheme \<Rightarrow> 'z machine_scheme exec" where
  "init_tables pageDirectory pageTable pdIndex s =
     (if pdIndex < 256 then
        andThen (SetPageDirectoryEntry (pageDirectory + of_nat (4 * pdIndex)) pageTable
            (PAGE_PRESENT OR PAGE_WRITEABLE) s) (\<lambda>s1.
        andThen (init_entries pageTable 0 s1) (\<lambda>s2.
        andThen (SetPageTableEntry (pageTable + 4 * 1023) pageTable
            (PAGE_PRESENT OR PAGE_WRITEABLE) s2)
          (init_tables pageDirectory (pageTable + PAGE_SIZE) (pdIndex + 1))))
      else ret s)"
  by pat_completeness auto
termination
  by (relation "measure (\<lambda>(_, _, i, _). 256 - i)") auto

declare init_entries.simps [simp del] init_tables.simps [simp del]

definition InitKernelPageDirectoryAndPageTables :: "'z machine_scheme \<Rightarrow> 'z machine_scheme exec" where
  "InitKernelPageDirectoryAndPageTables s =
     andThen (init_tables KERNEL_PAGE_DIR_P_ADDR KERNEL_PAGES_TABLE_P_ADDR 0 s)
       (SetPageDirectoryEntry (KERNEL_PAGE_DIR_P_ADDR + 4 * 1023) KERNEL_PAGE_DIR_P_ADDR
          (PAGE_PRESENT OR PAGE_WRITEABLE))"

text \<open>The loop counts pages and table entries together; the entries run on into the second table.\<close>

function identity_entries :: "addr \<Rightarrow> nat \<Rightarrow> nat \<Rightarrow> 'z machine_scheme \<Rightarrow> 'z machine_scheme exec" where
  "identity_entries kernelFirstPt page n s =
     (if page < n then
        andThen (SetPageTableEntry (kernelFirstPt + of_nat (4 * page)) (of_nat page * PAGE_SIZE)
            (PAGE_PRESENT OR PAGE_WRITEABLE) s)
          (identity_entries kernelFirstPt (page + 1) n)
      else ret s)"
  by pat_completeness auto
termination
  by (relation "measure (\<lambda>(_, i, n, _). n - i)") auto

declare identity_entries.simps [simp del]

definition SetIdentityMapping :: "'z machine_scheme \<Rightarrow> 'z machine_scheme exec" where
  "SetIdentityMapping s =
     (let kernelFirstPt = KERNEL_PAGES_TABLE_P_ADDR; kernelSecondPt = kernelFirstPt + PAGE_SIZE;
          flags = PAGE_PRESENT OR PAGE_WRITEABLE
      in andThen (SetPageDirectoryEntry KERNEL_PAGE_DIR_P_ADDR kernelFirstPt flags s) (\<lambda>s1.
         andThen (SetPageDirectoryEntry (KERNEL_PAGE_DIR_P_ADDR + 4) kernelSecondPt flags s1) (\<lambda>s2.
         andThen (identity_entries kernelFirstPt (unat (PAGE 0)) (unat (PAGE KERNEL_LIMIT_P_ADDR)) s2) (\<lambda>s3.
         andThen (SetPageTableEntry (kernelFirstPt + 4 * 1023) kernelFirstPt flags s3) (\<lambda>s4.
           SetPageTableEntry (kernelSecondPt + 4 * 1023) kernelSecondPt flags s4)))))"

text \<open>\<^verbatim>\<open>_init_vmm\<close> loads \<^verbatim>\<open>cr3\<close> and sets the paging bit.\<close>

definition Vmm_Init :: "'z machine_scheme \<Rightarrow> 'z machine_scheme exec" where
  "Vmm_Init s =
     andThen (InitKernelPageDirectoryAndPageTables s) (\<lambda>s1.
     andThen (SetIdentityMapping s1) (\<lambda>s2.
       ret (s2\<lparr>cr3 := KERNEL_PAGE_DIR_P_ADDR, paging := True\<rparr>)))"

subsection \<open>Operations on the current address space\<close>

definition PD_OFFSET :: "addr \<Rightarrow> u32" where
  "PD_OFFSET a = drop_bit 20 (a AND 0xFFC00000)"

text \<open>Where the self-mapped directory shows the two entries of an address.\<close>

definition pde_ptr :: "addr \<Rightarrow> addr" where
  "pde_ptr v = 0xFFFFF000 OR PD_OFFSET v"

definition pte_ptr :: "addr \<Rightarrow> addr" where
  "pte_ptr v = 0xFFC00000 OR drop_bit 10 (v AND 0xFFFFF000)"

definition GetPhysicalAddressOf :: "addr \<Rightarrow> 'z machine_scheme \<Rightarrow> u32 exec" where
  "GetPhysicalAddressOf virtualAddress s =
     andThen (vread32 s (pde_ptr virtualAddress)) (\<lambda>pde.
       if pde AND PAGE_PRESENT \<noteq> 0 then
         andThen (vread32 s (pte_ptr virtualAddress)) (\<lambda>pte.
           if pte AND PAGE_PRESENT \<noteq> 0
           then ret ((pte AND 0xFFFFF000) + (virtualAddress AND 0xFFF))
           else ret 0)
       else ret 0)"

text \<open>The parameter \<open>flags\<close> is not used by the code.\<close>

definition AddPageToKernelPageDirectory ::
  "addr \<Rightarrow> addr \<Rightarrow> u32 \<Rightarrow> 'z machine_scheme \<Rightarrow> 'z machine_scheme exec" where
  "AddPageToKernelPageDirectory vAddr pAddr flags s =
     (if vAddr > V_USER_BASE_ADDR then halt Panicked
      else andThen (vread32 s (pde_ptr vAddr)) (\<lambda>pde.
        if \<not> FlagOn pde PAGE_PRESENT then halt Panicked
        else SetPageTableEntry (pte_ptr vAddr) pAddr (PAGE_PRESENT OR PAGE_WRITEABLE) s))"

text \<open>
  \<^verbatim>\<open>AddPageToPageDirectory\<close> takes the page allocator as an argument: it is the page pool,
  which itself calls \<^verbatim>\<open>AddPageToKernelPageDirectory\<close>. A \<open>Page\<close> is its physical and its
  virtual address.
\<close>

record Page =
  pAddr :: addr
  vAddr :: addr

definition AddPageToPageDirectory ::
  "('z machine_scheme \<Rightarrow> (Page \<times> 'z machine_scheme) exec) \<Rightarrow> addr \<Rightarrow> addr \<Rightarrow> u32 \<Rightarrow>
   'z machine_scheme \<Rightarrow> 'z machine_scheme exec" where
  "AddPageToPageDirectory PageAlloc v p flags s =
     andThen (vread32 s (pde_ptr v)) (\<lambda>pde.
     andThen
       (if \<not> FlagOn pde PAGE_PRESENT then
          andThen (PageAlloc s) (\<lambda>(new_page, s1).
          andThen (SetPageDirectoryEntry (pde_ptr v) (pAddr new_page)
              (PAGE_PRESENT OR PAGE_WRITEABLE OR flags) s1)
            (CleanPageTable (vAddr new_page)))
        else ret s)
       (SetPageTableEntry (pte_ptr v) p flags))"

definition GetPageTableFromVirtualAddress :: "addr \<Rightarrow> 'z machine_scheme \<Rightarrow> u32 exec" where
  "GetPageTableFromVirtualAddress v s =
     andThen (vread32 s (pde_ptr v)) (\<lambda>pde.
       if \<not> FlagOn pde PAGE_PRESENT then halt Panicked else vread32 s (pte_ptr v))"

definition SetPageTableFromVirtualAddress ::
  "addr \<Rightarrow> u32 \<Rightarrow> 'z machine_scheme \<Rightarrow> 'z machine_scheme exec" where
  "SetPageTableFromVirtualAddress v pageTableEntry s =
     andThen (vread32 s (pde_ptr v)) (\<lambda>pde.
       if \<not> FlagOn pde PAGE_PRESENT then halt Panicked else vwrite32 (pte_ptr v) pageTableEntry s)"

definition IsVirtualAddressAvailable :: "addr \<Rightarrow> 'z machine_scheme \<Rightarrow> bool exec" where
  "IsVirtualAddressAvailable v s =
     andThen (vread32 s (pde_ptr v)) (\<lambda>pde.
       if \<not> FlagOn pde PAGE_PRESENT then ret False
       else andThen (vread32 s (pte_ptr v)) (\<lambda>pte. ret (FlagOn pte PAGE_PRESENT)))"

definition CheckUserVirtualAddressValidity :: "addr \<Rightarrow> bool" where
  "CheckUserVirtualAddressValidity v \<longleftrightarrow> v \<noteq> 0 \<and> v \<ge> V_USER_BASE_ADDR"

definition SaveCurrentMemoryMapping :: "'z machine_scheme \<Rightarrow> 'z machine_scheme" where
  "SaveCurrentMemoryMapping s = s\<lparr>s_SavedPageDirectoryEntry := cr3 s\<rparr>"

definition SetCurrentPageDirectory :: "addr \<Rightarrow> 'z machine_scheme \<Rightarrow> 'z machine_scheme" where
  "SetCurrentPageDirectory pd s = s\<lparr>cr3 := pd\<rparr>"

definition RestoreMemoryMapping :: "'z machine_scheme \<Rightarrow> 'z machine_scheme" where
  "RestoreMemoryMapping s =
     (if s_SavedPageDirectoryEntry s \<noteq> nullptr
      then SetCurrentPageDirectory (s_SavedPageDirectoryEntry s) s\<lparr>s_SavedPageDirectoryEntry := nullptr\<rparr>
      else s)"

definition GetCurrentPageDirectory :: "'z machine_scheme \<Rightarrow> addr" where
  "GetCurrentPageDirectory s = cr3 s"

subsection \<open>Addresses as frame, entry and offset\<close>

text \<open>
  Addresses split into page directory index, page table index and page offset; table entries
  are named by their frame number and index.
\<close>

definition dir :: "addr \<Rightarrow> nat" where "dir v = unat v div 4194304"
definition tab :: "addr \<Rightarrow> nat" where "tab v = unat v div 4096 mod 1024"
definition off :: "addr \<Rightarrow> nat" where "off v = unat v mod 4096"
definition frame_of :: "u32 \<Rightarrow> nat" where "frame_of w = unat w div 4096"

definition phys :: "nat \<Rightarrow> nat \<Rightarrow> addr" where
  "phys f i = of_nat (4096 * f + i)"

definition entry :: "'z machine_scheme \<Rightarrow> nat \<Rightarrow> nat \<Rightarrow> u32" where
  "entry s f i = read32 (pmem s) (phys f (4 * i))"

lemma dir_lt [simp]: "dir v < 1024"
  using unat_lt_2p32 [of v] by (simp add: dir_def less_mult_imp_div_less)

lemma tab_lt [simp]: "tab v < 1024"
  by (simp add: tab_def)

lemma off_lt [simp]: "off v < 4096"
  by (simp add: off_def)

lemma frame_lt [simp]: "frame_of w < 1048576"
  using unat_lt_2p32 [of w] by (simp add: frame_of_def less_mult_imp_div_less)

lemma page_number: "unat v div 4096 = 1024 * dir v + tab v"
proof -
  have "dir v = unat v div 4096 div 1024"
    using div_mult2_eq [of "unat v" 4096 1024] by (simp add: dir_def)
  then show ?thesis by (simp add: tab_def)
qed

lemma unat_phys: "f < 1048576 \<Longrightarrow> i < 4096 \<Longrightarrow> unat (phys f i) = 4096 * f + i"
  unfolding phys_def by (rule unat_of_nat_u32) simp

lemma u32_eqI: "unat (a :: u32) = unat b \<Longrightarrow> a = b"
  by (simp add: word_unat_eq_iff)

lemma phys_eq_iff:
  assumes "f < 1048576" "i < 4096" "f' < 1048576" "i' < 4096"
  shows "phys f i = phys f' i' \<longleftrightarrow> f = f' \<and> i = i'"
proof
  assume "phys f i = phys f' i'"
  then have eq: "4096 * f + i = 4096 * f' + i'" using assms unat_phys by metis
  have "(4096 * f + i) div 4096 = f" "(4096 * f' + i') div 4096 = f'" using assms by simp_all
  with eq show "f = f' \<and> i = i'" by simp
qed simp

lemma phys_add: "phys f i + of_nat j = phys f (i + j)"
  by (simp add: phys_def)

lemma phys_add_123: "phys f i + 1 = phys f (i + 1)" "phys f i + 2 = phys f (i + 2)" "phys f i + 3 = phys f (i + 3)"
  using phys_add [of f i 1] phys_add [of f i 2] phys_add [of f i 3] by simp_all

lemma addr_split: "v = phys (frame_of v) (off v)"
  by (rule u32_eqI) (simp add: unat_phys, simp add: frame_of_def off_def)

lemma u32_and_page: "(w :: u32) AND 0xFFFFF000 = phys (frame_of w) 0"
proof (rule u32_eqI)
  have "(0xFFFFF000 :: u32) = push_bit 12 (mask 20)" by (simp add: mask_eq_exp_minus_1)
  moreover have "w AND push_bit 12 (mask 20) = push_bit 12 (drop_bit 12 w)"
    by (rule bit_word_eqI) (auto simp: bit_simps)
  moreover have "push_bit 12 (drop_bit 12 w) = (w div 4096) * 4096"
    by (simp add: push_bit_eq_mult drop_bit_eq_div)
  ultimately have "w AND 0xFFFFF000 = (w div 4096) * 4096" by metis
  moreover have "unat ((w div 4096) * 4096) = unat w div 4096 * 4096"
    using unat_lt_2p32 [of w] by (subst unat_mult_nowrap) (simp_all add: unat_div)
  ultimately show "unat (w AND 0xFFFFF000) = unat (phys (frame_of w) 0)"
    by (simp add: unat_phys) (simp add: frame_of_def)
qed

lemma unat_offset: "unat ((v :: u32) AND 0xFFF) = off v"
proof -
  have "(0xFFF :: u32) = mask 12" by (simp add: mask_eq_exp_minus_1)
  then have "v AND 0xFFF = take_bit 12 v" by (simp add: take_bit_eq_mask)
  then show ?thesis by (simp add: off_def take_bit_eq_mod unat_mod)
qed

lemma unat_dir: "unat (drop_bit 22 (v :: u32)) = dir v"
  by (simp add: drop_bit_eq_div unat_div dir_def)

lemma unat_tab: "unat (drop_bit 12 (v :: u32) AND 0x3FF) = tab v"
proof -
  have "(0x3FF :: u32) = mask 10" by (simp add: mask_eq_exp_minus_1)
  then have "drop_bit 12 v AND 0x3FF = take_bit 10 (drop_bit 12 v)" by (simp add: take_bit_eq_mask)
  moreover have "unat (take_bit 10 (drop_bit 12 v)) = take_bit 10 (unat (drop_bit 12 v))"
    by (rule unsigned_take_bit_eq)
  moreover have "unat (drop_bit 12 v) = unat v div 4096" by (simp add: drop_bit_eq_div unat_div)
  ultimately show ?thesis by (simp add: tab_def take_bit_eq_mod)
qed

lemma phys_plus: "f < 1048576 \<Longrightarrow> i + unat x < 4096 \<Longrightarrow> phys f i + x = phys f (i + unat x)"
  by (rule u32_eqI) (subst unat_add_nowrap; simp add: unat_phys)

lemma unat_times_4: "unat (x :: u32) < 1024 \<Longrightarrow> unat (4 * x) = 4 * unat x"
  by (subst unat_mult_nowrap) simp_all

text \<open>The processor's translation, in these terms.\<close>

lemma mmu_eq:
  "mmu s v = (if \<not> paging s then Some v
     else let pde = entry s (frame_of (cr3 s)) (dir v) in
       if \<not> FlagOn pde PAGE_PRESENT then None
       else let pte = entry s (frame_of pde) (tab v) in
         if \<not> FlagOn pte PAGE_PRESENT then None else Some (phys (frame_of pte) (off v)))"
proof -
  have d: "unat (4 * drop_bit 22 v) = 4 * dir v" by (simp add: unat_times_4 unat_dir)
  have t: "unat (4 * (drop_bit 12 v AND 0x3FF)) = 4 * tab v" by (simp only: unat_times_4 unat_tab tab_lt)
  have pde: "(w AND 0xFFFFF000) + 4 * drop_bit 22 v = phys (frame_of w) (4 * dir v)" for w
    unfolding u32_and_page by (subst phys_plus) (use dir_lt [of v] in \<open>simp_all add: d\<close>)
  have pte: "(w AND 0xFFFFF000) + 4 * (drop_bit 12 v AND 0x3FF) = phys (frame_of w) (4 * tab v)" for w
    unfolding u32_and_page by (subst phys_plus) (use tab_lt [of v] in \<open>simp_all only: t frame_lt, simp_all\<close>)
  have res: "(w AND 0xFFFFF000) + (v AND 0xFFF) = phys (frame_of w) (off v)" for w
    unfolding u32_and_page by (subst phys_plus) (simp_all only: unat_offset frame_lt off_lt add_0)
  show ?thesis unfolding mmu_def pde pte res entry_def ..
qed

lemma dir_phys [simp]: "f < 1048576 \<Longrightarrow> i < 4096 \<Longrightarrow> dir (phys f i) = f div 1024"
proof -
  assume f: "f < 1048576" and i: "i < 4096"
  have "(4096 * f + i) div 4194304 = (4096 * f + i) div 4096 div 1024"
    using div_mult2_eq [of "4096 * f + i" 4096 1024] by simp
  then show ?thesis using f i by (simp add: dir_def unat_phys)
qed

lemma tab_phys [simp]: "f < 1048576 \<Longrightarrow> i < 4096 \<Longrightarrow> tab (phys f i) = f mod 1024"
  by (simp add: tab_def unat_phys)

lemma off_phys [simp]: "f < 1048576 \<Longrightarrow> i < 4096 \<Longrightarrow> off (phys f i) = i"
  by (simp add: off_def unat_phys)

lemma frame_phys [simp]: "f < 1048576 \<Longrightarrow> i < 4096 \<Longrightarrow> frame_of (phys f i) = f"
  by (simp add: frame_of_def unat_phys)

text \<open>Accesses that stay inside a page.\<close>

lemma mmu_in_page:
  assumes "f < 1048576" and "i + j < 4096"
  shows "mmu s (phys f (i + j)) = map_option (\<lambda>p. p + of_nat j) (mmu s (phys f i))"
  using assms by (auto simp: mmu_eq Let_def phys_add)

lemma mmu_in_page_123:
  assumes "f < 1048576" and "i + 3 < 4096"
  shows "mmu s (phys f i + 1) = map_option (\<lambda>p. p + 1) (mmu s (phys f i))"
    "mmu s (phys f i + 2) = map_option (\<lambda>p. p + 2) (mmu s (phys f i))"
    "mmu s (phys f i + 3) = map_option (\<lambda>p. p + 3) (mmu s (phys f i))"
  using mmu_in_page [of f i 1 s] mmu_in_page [of f i 2 s] mmu_in_page [of f i 3 s] assms
  by (simp_all add: phys_add_123)

lemma vread32_in_page:
  assumes "f < 1048576" and "i + 3 < 4096"
  shows "vread32 s (phys f i) =
    (case mmu s (phys f i) of None \<Rightarrow> halt BadAccess | Some p \<Rightarrow> ret (read32 (pmem s) p))"
  by (cases "mmu s (phys f i)") (simp_all add: vread32_def mmu_in_page_123 [OF assms] read32_def)

lemma vwrite32_in_page:
  assumes "f < 1048576" and "i + 3 < 4096"
  shows "vwrite32 (phys f i) w s =
    (case mmu s (phys f i) of None \<Rightarrow> halt BadAccess
     | Some p \<Rightarrow> ret (s\<lparr>pmem := write32 (pmem s) p w\<rparr>))"
  by (cases "mmu s (phys f i)") (simp_all add: vwrite32_def mmu_in_page_123 [OF assms] write32_def)

text \<open>Table entries are words that do not overlap.\<close>

lemma phys_word_disjoint:
  assumes "f < 1048576" "i < 1024" "g < 1048576" "j < 1024" "a < 4" "b < 4"
    and "phys f (4 * i + a) = phys g (4 * j + b)"
  shows "f = g \<and> i = j"
proof -
  have "4 * i + a = 4 * j + b" "f = g" using assms by (auto simp: phys_eq_iff)
  then have "(4 * i + a) div 4 = (4 * j + b) div 4" by simp
  then show ?thesis using assms \<open>f = g\<close> by simp
qed

lemma entry_write:
  assumes "f < 1048576" "i < 1024" "g < 1048576" "j < 1024"
  shows "entry (s\<lparr>pmem := write32 m (phys f (4 * i)) w\<rparr>) g j =
    (if f = g \<and> i = j then w else entry (s\<lparr>pmem := m\<rparr>) g j)"
proof (cases "f = g \<and> i = j")
  case False
  have ne: "phys g (4 * j + b) \<noteq> phys f (4 * i + a)" if "a < 4" "b < 4" for a b
    using phys_word_disjoint assms that False by metis
  have same: "write32 m (phys f (4 * i)) w (phys g (4 * j + b)) = m (phys g (4 * j + b))" if "b < 4" for b
    using ne [of 0 b] ne [of 1 b] ne [of 2 b] ne [of 3 b] that
    by (intro write32_other) (simp_all add: phys_add_123)
  have "read32 (write32 m (phys f (4 * i)) w) (phys g (4 * j)) = read32 m (phys g (4 * j))"
    using same [of 0] same [of 1] same [of 2] same [of 3]
    by (intro read32_cong) (simp_all add: phys_add_123)
  with False show ?thesis by (auto simp: entry_def)
qed (simp add: entry_def)

lemma FlagOn_present: "FlagOn w PAGE_PRESENT \<longleftrightarrow> bit w 0"
  by (simp add: FlagOn_def and_one_eq bit_0 odd_iff_mod_2_eq_one)

subsection \<open>The self-mapped page directory\<close>

abbreviation pd_frame :: "'z machine_scheme \<Rightarrow> nat" where
  "pd_frame s \<equiv> frame_of (cr3 s)"

text \<open>The last entry of the current page directory maps the directory itself.\<close>

definition self_map :: "'z machine_scheme \<Rightarrow> bool" where
  "self_map s \<longleftrightarrow> paging s \<and> FlagOn (entry s (pd_frame s) 1023) PAGE_PRESENT \<and>
     frame_of (entry s (pd_frame s) 1023) = pd_frame s"

lemma unat_of_4dir: "unat (of_nat (4 * dir v) :: u32) = 4 * dir v"
  by (rule unat_of_nat_u32) (use dir_lt [of v] in linarith)

lemma PD_OFFSET_eq: "PD_OFFSET v = of_nat (4 * dir v)"
proof -
  have "(0xFFC00000 :: u32) = push_bit 22 (mask 10)" by (simp add: mask_eq_exp_minus_1)
  moreover have "drop_bit 20 (v AND push_bit 22 (mask 10)) = push_bit 2 (drop_bit 22 v)"
    by (rule bit_word_eqI) (auto simp: bit_simps dest: bit_imp_le_length)
  ultimately have "PD_OFFSET v = 4 * drop_bit 22 v" by (simp add: PD_OFFSET_def push_bit_eq_mult)
  then show ?thesis using unat_times_4 [of "drop_bit 22 v"] dir_lt [of v]
    by (intro u32_eqI) (simp add: unat_dir unat_of_4dir del: of_nat_mult)
qed

lemma pde_ptr_eq: "pde_ptr v = phys 1048575 (4 * dir v)"
proof -
  have "(0xFFFFF000 :: u32) AND of_nat (4 * dir v) = 0"
  proof -
    have "of_nat (4 * dir v) AND (0xFFFFF000 :: u32) = phys (frame_of (of_nat (4 * dir v))) 0"
      by (rule u32_and_page)
    moreover have "frame_of (of_nat (4 * dir v)) = 0"
      using dir_lt [of v] unfolding frame_of_def unat_of_4dir by linarith
    ultimately show ?thesis by (simp add: and.commute phys_def)
  qed
  then have "pde_ptr v = 0xFFFFF000 + of_nat (4 * dir v)"
    unfolding pde_ptr_def PD_OFFSET_eq by (rule disjunctive_add_eq_or [symmetric])
  then show ?thesis by (simp add: phys_def)
qed

lemma pte_ptr_eq: "pte_ptr v = phys (1047552 + dir v) (4 * tab v)"
proof -
  let ?x = "drop_bit 10 (v AND 0xFFFFF000)"
  have "(0xFFFFF000 :: u32) = push_bit 12 (mask 20)" by (simp add: mask_eq_exp_minus_1)
  moreover have "drop_bit 10 (v AND push_bit 12 (mask 20)) = push_bit 2 (drop_bit 12 v)"
    by (rule bit_word_eqI) (auto simp: bit_simps dest: bit_imp_le_length)
  ultimately have x: "?x = 4 * drop_bit 12 v" by (simp add: push_bit_eq_mult)
  have d12: "unat (drop_bit 12 v) = 1024 * dir v + tab v"
    unfolding page_number [symmetric] by (simp add: drop_bit_eq_div unat_div)
  have "4 * unat (drop_bit 12 v) < 4294967296"
    using d12 dir_lt [of v] tab_lt [of v] by linarith
  then have "unat (4 * drop_bit 12 v) = 4 * unat (drop_bit 12 v)"
    using unat_mult_nowrap [of 4 "drop_bit 12 v"] by simp
  then have ux: "unat ?x = 4096 * dir v + 4 * tab v" unfolding x d12 by simp
  have bx: "4096 * dir v + 4 * tab v < 4194304" using dir_lt [of v] tab_lt [of v] by linarith
  have hi: "(0xFFC00000 :: u32) = push_bit 22 (mask 10)" by (simp add: mask_eq_exp_minus_1)
  have lo: "?x = drop_bit 10 (v AND NOT 0xFFF)" 
  proof -
    have "(0xFFFFF000 :: u32) = NOT 0xFFF" by simp
    then show ?thesis by metis
  qed
  have "push_bit 22 (mask 10) AND ?x = 0"
    unfolding lo by (rule bit_word_eqI) (auto simp: bit_simps dest: bit_imp_le_length)
  then have "pte_ptr v = 0xFFC00000 + ?x"
    unfolding pte_ptr_def hi by (rule disjunctive_add_eq_or [symmetric])
  moreover have "unat ((0xFFC00000 :: u32) + ?x) = 4096 * (1047552 + dir v) + 4 * tab v"
    using ux bx by (subst unat_add_nowrap) simp_all
  ultimately show ?thesis
    using dir_lt [of v] tab_lt [of v] by (intro u32_eqI) (simp add: unat_phys)
qed

text \<open>Through the window the kernel sees exactly the entries the processor uses.\<close>

lemma read_pde:
  assumes "self_map s"
  shows "vread32 s (pde_ptr v) = ret (entry s (pd_frame s) (dir v))"
proof -
  have i: "4 * dir v + 3 < 4096" using dir_lt [of v] by linarith
  then have "mmu s (pde_ptr v) = Some (phys (pd_frame s) (4 * dir v))"
    using assms by (simp add: pde_ptr_eq mmu_eq self_map_def Let_def)
  then show ?thesis
    unfolding pde_ptr_eq using i by (subst vread32_in_page) (simp_all add: entry_def)
qed

lemma mmu_pte_ptr:
  assumes "self_map s"
  shows "mmu s (pte_ptr v) = (let pde = entry s (pd_frame s) (dir v) in
    if FlagOn pde PAGE_PRESENT then Some (phys (frame_of pde) (4 * tab v)) else None)"
proof -
  have "1047552 + dir v < 1048576" "4 * tab v + 3 < 4096" using dir_lt [of v] tab_lt [of v] by linarith+
  moreover have "(1047552 + dir v) div 1024 = 1023" "(1047552 + dir v) mod 1024 = dir v"
    using dir_lt [of v] by (simp_all add: div_if mod_if)
  ultimately show ?thesis
    using assms by (simp add: pte_ptr_eq mmu_eq self_map_def Let_def)
qed

lemma read_pte:
  assumes "self_map s"
  shows "vread32 s (pte_ptr v) = (let pde = entry s (pd_frame s) (dir v) in
    if FlagOn pde PAGE_PRESENT then ret (entry s (frame_of pde) (tab v)) else halt BadAccess)"
  and "vwrite32 (pte_ptr v) w s = (let pde = entry s (pd_frame s) (dir v) in
    if FlagOn pde PAGE_PRESENT then ret (s\<lparr>pmem := write32 (pmem s) (phys (frame_of pde) (4 * tab v)) w\<rparr>)
    else halt BadAccess)"
proof -
  have b: "1047552 + dir v < 1048576" "4 * tab v + 3 < 4096" using dir_lt [of v] tab_lt [of v] by linarith+
  note m = mmu_pte_ptr [OF assms, of v, unfolded pte_ptr_eq]
  show "vread32 s (pte_ptr v) = (let pde = entry s (pd_frame s) (dir v) in
      if FlagOn pde PAGE_PRESENT then ret (entry s (frame_of pde) (tab v)) else halt BadAccess)"
    unfolding pte_ptr_eq vread32_in_page [OF b] m by (simp add: Let_def entry_def)
  show "vwrite32 (pte_ptr v) w s = (let pde = entry s (pd_frame s) (dir v) in
      if FlagOn pde PAGE_PRESENT then ret (s\<lparr>pmem := write32 (pmem s) (phys (frame_of pde) (4 * tab v)) w\<rparr>)
      else halt BadAccess)"
    unfolding pte_ptr_eq vwrite32_in_page [OF b] m by (simp add: Let_def)
qed

lemma GetPhysicalAddressOf_mmu:
  assumes "self_map s"
  shows "GetPhysicalAddressOf v s = ret (case mmu s v of None \<Rightarrow> 0 | Some p \<Rightarrow> p)"
proof -
  have pg: "paging s" using assms by (simp add: self_map_def)
  have res: "(w AND 0xFFFFF000) + (v AND 0xFFF) = phys (frame_of w) (off v)" for w
    unfolding u32_and_page by (subst phys_plus) (simp_all only: unat_offset frame_lt off_lt add_0)
  show ?thesis
    unfolding GetPhysicalAddressOf_def read_pde [OF assms] read_pte [OF assms] res mmu_eq
    using pg by (auto simp: Let_def FlagOn_def)
qed

text \<open>What the setters store.\<close>

lemma bit_set_field:
  "bit (set_field lo width v w) n \<longleftrightarrow>
     (if lo \<le> n \<and> n < lo + width \<and> n < 32 then bit v (n - lo) else bit w n)"
  by (cases "n < 32") (auto simp: set_field_def bit_simps dest: bit_imp_le_length)

lemma frame_of_drop: "frame_of w = unat (drop_bit 12 w)"
  by (simp add: frame_of_def drop_bit_eq_div unat_div)

lemma frame_set_field [simp]: "lo + width \<le> 12 \<Longrightarrow> frame_of (set_field lo width v w) = frame_of w"
  unfolding frame_of_drop
  by (intro arg_cong [where f = unat] bit_word_eqI) (auto simp: bit_drop_bit_eq bit_set_field)

lemma frame_encode [simp]:
  "frame_of (encode_pde p flags) = frame_of p" "frame_of (encode_pte p flags) = frame_of p"
  by (simp_all add: encode_pde_def encode_pte_def)

lemma present_encode [simp]:
  "FlagOn (encode_pde p flags) PAGE_PRESENT \<longleftrightarrow> FlagOn flags PAGE_PRESENT"
  "FlagOn (encode_pte p flags) PAGE_PRESENT \<longleftrightarrow> FlagOn flags PAGE_PRESENT"
  by (simp_all add: FlagOn_present encode_pde_def encode_pte_def bit_set_field)

lemma FlagOn_or [simp]: "FlagOn (a OR b) c \<longleftrightarrow> FlagOn a c \<or> FlagOn b c"
proof -
  have "(a OR b) AND c = (a AND c) OR (b AND c)" by (simp add: bit.conj_disj_distrib2)
  then show ?thesis by (simp add: FlagOn_def or_eq_0_iff)
qed

lemma FlagOn_self [simp]: "FlagOn PAGE_PRESENT PAGE_PRESENT" "FlagOn 3 PAGE_PRESENT"
  by (simp_all add: FlagOn_def)

lemma SetPageTableEntry_nonempty [simp]:
  "flags \<noteq> PAGE_EMPTY \<Longrightarrow> SetPageTableEntry p a flags s = vwrite32 p (encode_pte a flags) s"
  by (simp add: SetPageTableEntry_def)

lemma SetPageDirectoryEntry_nonempty [simp]:
  "flags \<noteq> PAGE_EMPTY \<Longrightarrow> SetPageDirectoryEntry p a flags s = vwrite32 p (encode_pde a flags) s"
  by (simp add: SetPageDirectoryEntry_def)

subsection \<open>Mapping a page\<close>

text \<open>
  A set \<open>D\<close> of directory entries whose tables lie in different frames, the directory itself
  included: then writing one table changes no other.
\<close>

definition tables_ok :: "nat set \<Rightarrow> 'z machine_scheme \<Rightarrow> bool" where
  "tables_ok D s \<longleftrightarrow> self_map s \<and> 1023 \<in> D \<and> D \<subseteq> {..<1024} \<and>
     inj_on (\<lambda>d. frame_of (entry s (pd_frame s) d)) D \<and>
     (\<forall>d \<in> D. FlagOn (entry s (pd_frame s) d) PAGE_PRESENT)"

lemma tables_okD:
  assumes "tables_ok D s"
  shows "self_map s" "paging s" "\<And>d. d \<in> D \<Longrightarrow> FlagOn (entry s (pd_frame s) d) PAGE_PRESENT"
    "\<And>d. d \<in> D \<Longrightarrow> d < 1024"
    "\<And>d. d \<in> D \<Longrightarrow> d \<noteq> 1023 \<Longrightarrow> frame_of (entry s (pd_frame s) d) \<noteq> pd_frame s"
    "\<And>d e. d \<in> D \<Longrightarrow> e \<in> D \<Longrightarrow>
      frame_of (entry s (pd_frame s) d) = frame_of (entry s (pd_frame s) e) \<longleftrightarrow> d = e"
proof -
  note a = assms [unfolded tables_ok_def]
  show "self_map s" "paging s" "\<And>d. d \<in> D \<Longrightarrow> FlagOn (entry s (pd_frame s) d) PAGE_PRESENT"
    "\<And>d. d \<in> D \<Longrightarrow> d < 1024" using a by (auto simp: self_map_def)
  show inj: "\<And>d e. d \<in> D \<Longrightarrow> e \<in> D \<Longrightarrow>
      frame_of (entry s (pd_frame s) d) = frame_of (entry s (pd_frame s) e) \<longleftrightarrow> d = e"
    using a by (meson inj_on_eq_iff)
  show "frame_of (entry s (pd_frame s) d) \<noteq> pd_frame s" if "d \<in> D" "d \<noteq> 1023" for d
    using a inj [of d 1023] that by (metis self_map_def)
qed

lemma write_pte:
  assumes ok: "tables_ok D s" and v: "dir v \<in> D" "dir v \<noteq> 1023"
    and s': "s' = s\<lparr>pmem := write32 (pmem s) (phys (frame_of (entry s (pd_frame s) (dir v))) (4 * tab v)) w\<rparr>"
  shows "vwrite32 (pte_ptr v) w s = ret s'"
    and "tables_ok D s'"
    and "\<And>u. dir u \<in> D \<Longrightarrow> mmu s' u =
      (if frame_of u = frame_of v
       then if FlagOn w PAGE_PRESENT then Some (phys (frame_of w) (off u)) else None
       else mmu s u)"
proof -
  note t = tables_okD [OF ok]
  let ?f = "frame_of (entry s (pd_frame s) (dir v))"
  have e: "entry s' g j = (if ?f = g \<and> tab v = j then w else entry s g j)"
    if "g < 1048576" "j < 1024" for g j
    unfolding s' using that by (subst entry_write) auto
  have pd: "entry s' (pd_frame s) d = entry s (pd_frame s) d" if "d < 1024" for d
    using e [of "pd_frame s" d] that t(5) [OF v] by auto
  have c: "cr3 s' = cr3 s" "paging s' = paging s" by (simp_all add: s')
  show "vwrite32 (pte_ptr v) w s = ret s'" using t(3) [OF v(1)] by (simp add: read_pte [OF t(1)] s' Let_def)
  show "tables_ok D s'"
    using ok pd c unfolding tables_ok_def self_map_def
    by (auto simp: inj_on_def subset_iff)
  have pg: "frame_of u = frame_of v \<longleftrightarrow> dir u = dir v \<and> tab u = tab v" for u
    unfolding frame_of_def page_number using tab_lt [of u] tab_lt [of v]
    by (metis mod_less mod_mult_self4 nat_mult_eq_cancel_disj add_right_cancel zero_neq_numeral)
  show "mmu s' u = (if frame_of u = frame_of v
       then if FlagOn w PAGE_PRESENT then Some (phys (frame_of w) (off u)) else None
       else mmu s u)" if u: "dir u \<in> D" for u
    unfolding mmu_eq pg using c pd [of "dir u"] e [of "frame_of (entry s (pd_frame s) (dir u))" "tab u"]
      t(2) t(3) [OF u] t(6) [OF u v(1)]
    by (auto simp: Let_def)
qed

lemma AddPageToKernelPageDirectory_maps:
  assumes ok: "tables_ok D s" and v: "dir v \<in> D" "v < V_USER_BASE_ADDR"
  obtains s' m where "AddPageToKernelPageDirectory v p flags s = ret s'" "s' = s\<lparr>pmem := m\<rparr>" "tables_ok D s'"
    "\<And>u. dir u \<in> D \<Longrightarrow> mmu s' u = (if frame_of u = frame_of v then Some (phys (frame_of p) (off u)) else mmu s u)"
    "\<And>f i. f \<noteq> frame_of (entry s (pd_frame s) (dir v)) \<Longrightarrow> f < 1048576 \<Longrightarrow> i < 4096 \<Longrightarrow>
       m (phys f i) = pmem s (phys f i)"
proof -
  note t = tables_okD [OF ok]
  have "unat v < 1073741824" using v(2) by (simp add: word_less_nat_alt)
  then have d: "dir v < 256" by (simp add: dir_def)
  let ?f = "frame_of (entry s (pd_frame s) (dir v))"
  define w where "w = encode_pte p (PAGE_PRESENT OR PAGE_WRITEABLE)"
  define m where "m = write32 (pmem s) (phys ?f (4 * tab v)) w"
  have w: "vwrite32 (pte_ptr v) w s = ret (s\<lparr>pmem := m\<rparr>)" "tables_ok D (s\<lparr>pmem := m\<rparr>)"
    "\<And>u. dir u \<in> D \<Longrightarrow> mmu (s\<lparr>pmem := m\<rparr>) u =
      (if frame_of u = frame_of v
       then if FlagOn w PAGE_PRESENT then Some (phys (frame_of w) (off u)) else None
       else mmu s u)"
    using write_pte [OF ok v(1) _ refl, where w = w] d unfolding m_def by simp_all
  have add: "AddPageToKernelPageDirectory v p flags s = ret (s\<lparr>pmem := m\<rparr>)"
    using v(2) t(3) [OF v(1)] w(1)
    by (simp add: AddPageToKernelPageDirectory_def read_pde [OF t(1)] w_def)
  have other: "m (phys f i) = pmem s (phys f i)" if "f \<noteq> ?f" "f < 1048576" "i < 4096" for f i
  proof -
    have "4 * tab v + 3 < 4096" using tab_lt [of v] by linarith
    then show ?thesis
      unfolding m_def using that by (intro write32_other) (simp_all add: phys_add_123 phys_eq_iff)
  qed
  show ?thesis
    by (rule that [OF add refl w(2) _ other]) (use w(3) in \<open>simp_all add: w_def\<close>)
qed

subsection \<open>The address space the kernel starts with\<close>

text \<open>Only the contents of the frames in \<open>F\<close> may differ.\<close>

definition only_frames :: "nat set \<Rightarrow> 'z machine_scheme \<Rightarrow> 'z machine_scheme \<Rightarrow> bool" where
  "only_frames F s s' \<longleftrightarrow> (\<exists>m. s' = s\<lparr>pmem := m\<rparr> \<and>
     (\<forall>g i. g \<notin> F \<longrightarrow> g < 1048576 \<longrightarrow> i < 4096 \<longrightarrow> m (phys g i) = pmem s (phys g i)))"

lemma only_framesI:
  "s' = s\<lparr>pmem := m\<rparr> \<Longrightarrow>
   (\<And>g i. g \<notin> F \<Longrightarrow> g < 1048576 \<Longrightarrow> i < 4096 \<Longrightarrow> m (phys g i) = pmem s (phys g i)) \<Longrightarrow> only_frames F s s'"
  by (auto simp: only_frames_def)

lemma only_frames_refl [simp]: "only_frames F s s"
  by (rule only_framesI [where m = "pmem s"]) simp_all

lemma only_frames_trans:
  assumes "only_frames F s s1" "only_frames G s1 s2" "F \<subseteq> H" "G \<subseteq> H"
  shows "only_frames H s s2"
proof -
  obtain m1 where m1: "s1 = s\<lparr>pmem := m1\<rparr>"
    "\<And>g i. g \<notin> F \<Longrightarrow> g < 1048576 \<Longrightarrow> i < 4096 \<Longrightarrow> m1 (phys g i) = pmem s (phys g i)"
    using assms(1) by (auto simp: only_frames_def)
  obtain m2 where m2: "s2 = s1\<lparr>pmem := m2\<rparr>"
    "\<And>g i. g \<notin> G \<Longrightarrow> g < 1048576 \<Longrightarrow> i < 4096 \<Longrightarrow> m2 (phys g i) = pmem s1 (phys g i)"
    using assms(2) by (auto simp: only_frames_def)
  show ?thesis
  proof (rule only_framesI [where m = m2])
    show "m2 (phys g i) = pmem s (phys g i)" if "g \<notin> H" "g < 1048576" "i < 4096" for g i
    proof -
      have "g \<notin> F" "g \<notin> G" using that assms(3,4) by auto
      then show ?thesis using m1(2) [of g i] m2(2) [of g i] that by (simp add: m1(1))
    qed
  qed (simp add: m1 m2)
qed

lemma only_frames_regs: "only_frames F s s' \<Longrightarrow> paging s' = paging s \<and> cr3 s' = cr3 s"
  by (auto simp: only_frames_def)

lemma write32_only_frame:
  assumes "f < 1048576" "i < 1024"
  shows "only_frames {f} s (s\<lparr>pmem := write32 (pmem s) (phys f (4 * i)) w\<rparr>)"
proof -
  have "4 * i + 3 < 4096" using assms by linarith
  then have "write32 (pmem s) (phys f (4 * i)) w (phys g k) = pmem s (phys g k)"
    if "g \<noteq> f" "g < 1048576" "k < 4096" for g k
    using that assms by (intro write32_other) (simp_all add: phys_add_123 phys_eq_iff)
  then show ?thesis by (intro only_framesI [OF refl]) auto
qed

text \<open>Without paging an entry is written in place.\<close>

lemma physical_write:
  assumes "\<not> paging s" "f < 1048576" "i < 1024"
  obtains s' where "vwrite32 (phys f (4 * i)) w s = ret s'" "only_frames {f} s s'" "\<not> paging s'"
    "\<And>g j. g < 1048576 \<Longrightarrow> j < 1024 \<Longrightarrow> entry s' g j = (if f = g \<and> i = j then w else entry s g j)"
proof -
  have i: "4 * i + 3 < 4096" using assms by linarith
  show ?thesis
    by (rule that [of "s\<lparr>pmem := write32 (pmem s) (phys f (4 * i)) w\<rparr>"])
      (use assms i in \<open>simp_all add: vwrite32_in_page mmu_def write32_only_frame entry_write\<close>)
qed

lemma init_entries_result:
  assumes "\<not> paging s" "f < 1048576" "j \<le> 1024"
  shows "\<exists>s'. init_entries (phys f 0) j s = ret s' \<and> only_frames {f} s s' \<and> \<not> paging s' \<and>
    (\<forall>g i. g < 1048576 \<longrightarrow> i < 1024 \<longrightarrow>
      entry s' g i = (if g = f \<and> j \<le> i then encode_pte 0 3 else entry s g i))"
  using assms
proof (induction "phys f 0" j s rule: init_entries.induct)
  case (1 j s)
  show ?case
  proof (cases "j < 1024")
    case True
    obtain s1 where s1: "vwrite32 (phys f (4 * j)) (encode_pte 0 3) s = ret s1" "only_frames {f} s s1"
        "\<not> paging s1" "\<And>g i. g < 1048576 \<Longrightarrow> i < 1024 \<Longrightarrow>
          entry s1 g i = (if f = g \<and> j = i then encode_pte 0 3 else entry s g i)"
      using physical_write [OF "1.prems"(1,2) True] by blast
    have step: "SetPageTableEntry (phys f 0 + of_nat (4 * j)) 0 (PAGE_PRESENT OR PAGE_WRITEABLE) s = ret s1"
      using s1(1) by (simp add: phys_add del: of_nat_mult of_nat_add)
    obtain s2 where s2: "init_entries (phys f 0) (j + 1) s1 = ret s2" "only_frames {f} s1 s2" "\<not> paging s2"
        "\<And>g i. g < 1048576 \<Longrightarrow> i < 1024 \<Longrightarrow>
          entry s2 g i = (if g = f \<and> j + 1 \<le> i then encode_pte 0 3 else entry s1 g i)"
      using "1.hyps" [OF True _ s1(3) "1.prems"(2)] True step by auto
    have "init_entries (phys f 0) j s = ret s2"
      using True s2(1) by (subst init_entries.simps) (simp only: step andThen_ret if_True)
    moreover have "only_frames {f} s s2" by (rule only_frames_trans [OF s1(2) s2(2)]) simp_all
    moreover have "entry s2 g i = (if g = f \<and> j \<le> i then encode_pte 0 3 else entry s g i)"
      if "g < 1048576" "i < 1024" for g i
      using s1(4) [OF that] s2(4) [OF that] by (auto simp: not_less_eq_eq le_antisym)
    ultimately show ?thesis using s2(3) by blast
  next
    case False
    with "1.prems" show ?thesis by (subst init_entries.simps) (auto intro!: exI [of _ s])
  qed
qed

lemma physical_word: "phys f 0 + of_nat (4 * j) = phys f (4 * j)" "phys f 0 + 4 * 1023 = phys f (4 * 1023)"
  "phys f 0 + PAGE_SIZE = phys (f + 1) 0" "phys f 0 + 4092 = phys f 4092"
  by (simp_all add: phys_def)

lemma init_tables_result:
  assumes "\<not> paging s" "k \<le> 256"
  shows "\<exists>s'. init_tables (phys 1 0) (phys (1024 + k) 0) k s = ret s' \<and> \<not> paging s' \<and>
    only_frames ({1} \<union> {1024 + k..<1280}) s s' \<and>
    (\<forall>g i. g < 1048576 \<longrightarrow> i < 1024 \<longrightarrow> entry s' g i =
      (if g = 1 \<and> k \<le> i \<and> i < 256 then encode_pde (phys (1024 + i) 0) 3
       else if 1024 + k \<le> g \<and> g < 1280
       then if i = 1023 then encode_pte (phys g 0) 3 else encode_pte 0 3
       else entry s g i))"
  using assms
proof (induction "256 - k" arbitrary: k s)
  case 0
  then show ?case by (subst init_tables.simps) (auto intro!: exI [of _ s])
next
  case (Suc n)
  then have k: "k < 256" by simp
  then have f: "1024 + k < 1048576" by simp
  obtain s1 where s1: "vwrite32 (phys 1 (4 * k)) (encode_pde (phys (1024 + k) 0) 3) s = ret s1"
      "only_frames {1} s s1" "\<not> paging s1" "\<And>g j. g < 1048576 \<Longrightarrow> j < 1024 \<Longrightarrow>
        entry s1 g j = (if 1 = g \<and> k = j then encode_pde (phys (1024 + k) 0) 3 else entry s g j)"
    using physical_write [OF Suc.prems(1), of 1 k] k by auto
  obtain s2 where s2: "init_entries (phys (1024 + k) 0) 0 s1 = ret s2" "only_frames {1024 + k} s1 s2"
      "\<not> paging s2" "\<And>g i. g < 1048576 \<Longrightarrow> i < 1024 \<Longrightarrow>
        entry s2 g i = (if g = 1024 + k then encode_pte 0 3 else entry s1 g i)"
    using init_entries_result [OF s1(3) f, of 0] by auto
  obtain s3 where s3: "vwrite32 (phys (1024 + k) (4 * 1023)) (encode_pte (phys (1024 + k) 0) 3) s2 = ret s3"
      "only_frames {1024 + k} s2 s3" "\<not> paging s3" "\<And>g j. g < 1048576 \<Longrightarrow> j < 1024 \<Longrightarrow>
        entry s3 g j = (if 1024 + k = g \<and> 1023 = j then encode_pte (phys (1024 + k) 0) 3 else entry s2 g j)"
    using physical_write [OF s2(3) f, of 1023] by auto
  have n: "n = 256 - (k + 1)" "k + 1 \<le> 256" using Suc.hyps(2) by auto
  have next_k: "1024 + k + 1 = 1024 + (k + 1)" by simp
  obtain s4 where s4: "init_tables (phys 1 0) (phys (1024 + (k + 1)) 0) (k + 1) s3 = ret s4" "\<not> paging s4"
      "only_frames ({1} \<union> {1024 + (k + 1)..<1280}) s3 s4"
      "\<And>g i. g < 1048576 \<Longrightarrow> i < 1024 \<Longrightarrow> entry s4 g i =
        (if g = 1 \<and> k + 1 \<le> i \<and> i < 256 then encode_pde (phys (1024 + i) 0) 3
         else if 1024 + (k + 1) \<le> g \<and> g < 1280
         then if i = 1023 then encode_pte (phys g 0) 3 else encode_pte 0 3
         else entry s3 g i)"
    using Suc.hyps(1) [OF n(1) s3(3) n(2)] by blast
  have "init_tables (phys 1 0) (phys (1024 + k) 0) k s = ret s4"
    using k s1(1) s2(1) s3(1) s4(1)
    by (subst init_tables.simps)
      (simp add: physical_word next_k del: of_nat_mult of_nat_add mult_numeral_1 add_Suc_right)
  moreover have "only_frames ({1} \<union> {1024 + k..<1280}) s s4"
  proof -
    have "only_frames ({1} \<union> {1024 + k..<1280}) s s2"
      by (rule only_frames_trans [OF s1(2) s2(2)]) (use k in auto)
    then have "only_frames ({1} \<union> {1024 + k..<1280}) s s3"
      by (rule only_frames_trans [OF _ s3(2)]) (use k in auto)
    then show ?thesis by (rule only_frames_trans [OF _ s4(3)]) (use k in auto)
  qed
  moreover have "entry s4 g i =
      (if g = 1 \<and> k \<le> i \<and> i < 256 then encode_pde (phys (1024 + i) 0) 3
       else if 1024 + k \<le> g \<and> g < 1280
       then if i = 1023 then encode_pte (phys g 0) 3 else encode_pte 0 3
       else entry s g i)" if "g < 1048576" "i < 1024" for g i
    using s1(4) [OF that] s2(4) [OF that] s3(4) [OF that] s4(4) [OF that] k
    by (cases "i = k"; cases "g = 1024 + k") auto
  ultimately show ?case using s4(2) by blast
qed

lemma phys_spill: "phys f (4 * p) = phys (f + p div 1024) (4 * (p mod 1024))"
proof -
  define q r where "q = p div 1024" and "r = p mod 1024"
  have "p = q * 1024 + r" unfolding q_def r_def by simp
  then have "4096 * f + 4 * p = 4096 * (f + p div 1024) + 4 * (p mod 1024)"
    unfolding q_def [symmetric] r_def [symmetric] by simp
  then show ?thesis unfolding phys_def by metis
qed

lemma identity_entries_result:
  assumes "\<not> paging s" "p \<le> n" "n \<le> 2048"
  shows "\<exists>s'. identity_entries (phys 1024 0) p n s = ret s' \<and> \<not> paging s' \<and>
    only_frames {1024, 1025} s s' \<and>
    (\<forall>g i. g < 1048576 \<longrightarrow> i < 1024 \<longrightarrow> entry s' g i =
      (let q = (g - 1024) * 1024 + i in
       if 1024 \<le> g \<and> p \<le> q \<and> q < n then encode_pte (phys q 0) 3 else entry s g i))"
  using assms
proof (induction "n - p" arbitrary: p s)
  case 0
  then show ?case by (subst identity_entries.simps) (auto simp: Let_def intro!: exI [of _ s])
next
  case (Suc k)
  then have p: "p < n" by simp
  then have f: "1024 + p div 1024 < 1048576" "1024 + p div 1024 \<in> {1024, 1025}" "p mod 1024 < 1024"
    using Suc.prems(3) by auto
  obtain s1 where s1: "vwrite32 (phys (1024 + p div 1024) (4 * (p mod 1024))) (encode_pte (phys p 0) 3) s = ret s1"
      "only_frames {1024 + p div 1024} s s1" "\<not> paging s1" "\<And>g j. g < 1048576 \<Longrightarrow> j < 1024 \<Longrightarrow>
        entry s1 g j = (if 1024 + p div 1024 = g \<and> p mod 1024 = j then encode_pte (phys p 0) 3 else entry s g j)"
    using physical_write [OF Suc.prems(1) f(1,3)] by blast
  have n: "k = n - (p + 1)" "p + 1 \<le> n" using Suc.hyps(2) by auto
  obtain s2 where s2: "identity_entries (phys 1024 0) (p + 1) n s1 = ret s2" "\<not> paging s2"
      "only_frames {1024, 1025} s1 s2"
      "\<And>g i. g < 1048576 \<Longrightarrow> i < 1024 \<Longrightarrow> entry s2 g i =
        (let q = (g - 1024) * 1024 + i in
         if 1024 \<le> g \<and> p + 1 \<le> q \<and> q < n then encode_pte (phys q 0) 3 else entry s1 g i)"
    using Suc.hyps(1) [OF n(1) s1(3) n(2) Suc.prems(3)] by blast
  have page: "of_nat p * PAGE_SIZE = phys p 0" by (simp add: phys_def mult.commute)
  have "vwrite32 (phys 1024 (4 * p)) (encode_pte (phys p 0) 3) s = ret s1"
    unfolding phys_spill [of 1024 p] by (rule s1(1))
  then have "identity_entries (phys 1024 0) p n s = ret s2"
    using p s2(1)
    by (subst identity_entries.simps) (simp add: physical_word page del: of_nat_mult of_nat_add)
  moreover have "only_frames {1024, 1025} s s2"
    by (rule only_frames_trans [OF s1(2) s2(3)]) (use f(2) in auto)
  moreover have "entry s2 g i = (let q = (g - 1024) * 1024 + i in
      if 1024 \<le> g \<and> p \<le> q \<and> q < n then encode_pte (phys q 0) 3 else entry s g i)"
    if gi: "g < 1048576" "i < 1024" for g i
  proof -
    have "1024 + p div 1024 = g \<and> p mod 1024 = i \<longleftrightarrow> 1024 \<le> g \<and> (g - 1024) * 1024 + i = p"
    proof
      assume "1024 \<le> g \<and> (g - 1024) * 1024 + i = p"
      moreover from this have "p div 1024 = g - 1024" "p mod 1024 = i" using gi(2) by auto
      ultimately show "1024 + p div 1024 = g \<and> p mod 1024 = i" by simp
    qed auto
    then show ?thesis using s1(4) [OF gi] s2(4) [OF gi] p by (auto simp: Let_def)
  qed
  ultimately show ?case using s2(2) by blast
qed

lemma Vmm_Init_entries:
  assumes "\<not> paging s"
  obtains s' where "Vmm_Init s = ret s'" "cr3 s' = KERNEL_PAGE_DIR_P_ADDR" "paging s'"
    "memBitmap s' = memBitmap s" "s' = s\<lparr>pmem := pmem s', cr3 := KERNEL_PAGE_DIR_P_ADDR, paging := True\<rparr>"
    "\<And>d. d < 256 \<Longrightarrow> entry s' 1 d = encode_pde (phys (1024 + d) 0) 3"
    "entry s' 1 1023 = encode_pde (phys 1 0) 3"
    "\<And>d i. d < 256 \<Longrightarrow> i < 1024 \<Longrightarrow> entry s' (1024 + d) i =
       (if i = 1023 then encode_pte (phys (1024 + d) 0) 3
        else if d < 2 then encode_pte (phys (1024 * d + i) 0) 3 else encode_pte 0 3)"
    "\<And>g i. g \<noteq> 1 \<Longrightarrow> \<not> (1024 \<le> g \<and> g < 1280) \<Longrightarrow> g < 1048576 \<Longrightarrow> i < 4096 \<Longrightarrow>
       pmem s' (phys g i) = pmem s (phys g i)"
proof -
  let ?K = "{1} \<union> {1024..<1280}"
  have num: "KERNEL_PAGE_DIR_P_ADDR = phys 1 0" "KERNEL_PAGES_TABLE_P_ADDR = phys 1024 0"
    "phys 1 0 + 4 = phys 1 (4 * 1)" "unat (PAGE 0) = 0" "unat (PAGE KERNEL_LIMIT_P_ADDR) = 2048"
    by (simp_all add: phys_def PAGE_def drop_bit_eq_div)
  have flags: "PAGE_PRESENT OR PAGE_WRITEABLE = 3" by simp
  have b: "(1 :: nat) < 1048576" "(1024 :: nat) < 1048576" "(1025 :: nat) < 1048576"
    and c: "(0 :: nat) < 1024" "(1 :: nat) < 1024" "(1023 :: nat) < 1024" by simp_all
  obtain s1 where s1: "init_tables (phys 1 0) (phys 1024 0) 0 s = ret s1" "\<not> paging s1" "only_frames ?K s s1"
      "\<And>g i. g < 1048576 \<Longrightarrow> i < 1024 \<Longrightarrow> entry s1 g i =
        (if g = 1 \<and> i < 256 then encode_pde (phys (1024 + i) 0) 3
         else if 1024 \<le> g \<and> g < 1280
         then if i = 1023 then encode_pte (phys g 0) 3 else encode_pte 0 3
         else entry s g i)"
    using init_tables_result [OF assms, of 0] by auto
  obtain s2 where s2: "vwrite32 (phys 1 (4 * 1023)) (encode_pde (phys 1 0) 3) s1 = ret s2" "only_frames {1} s1 s2"
      "\<not> paging s2" "\<And>g j. g < 1048576 \<Longrightarrow> j < 1024 \<Longrightarrow>
        entry s2 g j = (if 1 = g \<and> 1023 = j then encode_pde (phys 1 0) 3 else entry s1 g j)"
    using physical_write [OF s1(2) b(1) c(3)] by blast
  obtain s3 where s3: "vwrite32 (phys 1 (4 * 0)) (encode_pde (phys 1024 0) 3) s2 = ret s3" "only_frames {1} s2 s3"
      "\<not> paging s3" "\<And>g j. g < 1048576 \<Longrightarrow> j < 1024 \<Longrightarrow>
        entry s3 g j = (if 1 = g \<and> 0 = j then encode_pde (phys 1024 0) 3 else entry s2 g j)"
    using physical_write [OF s2(3) b(1) c(1)] by blast
  obtain s4 where s4: "vwrite32 (phys 1 (4 * 1)) (encode_pde (phys 1025 0) 3) s3 = ret s4" "only_frames {1} s3 s4"
      "\<not> paging s4" "\<And>g j. g < 1048576 \<Longrightarrow> j < 1024 \<Longrightarrow>
        entry s4 g j = (if 1 = g \<and> 1 = j then encode_pde (phys 1025 0) 3 else entry s3 g j)"
    using physical_write [OF s3(3) b(1) c(2)] by blast
  obtain s5 where s5: "identity_entries (phys 1024 0) 0 2048 s4 = ret s5" "\<not> paging s5"
      "only_frames {1024, 1025} s4 s5"
      "\<And>g i. g < 1048576 \<Longrightarrow> i < 1024 \<Longrightarrow> entry s5 g i =
        (if 1024 \<le> g \<and> (g - 1024) * 1024 + i < 2048
         then encode_pte (phys ((g - 1024) * 1024 + i) 0) 3 else entry s4 g i)"
    using identity_entries_result [OF s4(3), of 0 2048] by (auto simp: Let_def)
  obtain s6 where s6: "vwrite32 (phys 1024 (4 * 1023)) (encode_pte (phys 1024 0) 3) s5 = ret s6"
      "only_frames {1024} s5 s6" "\<not> paging s6" "\<And>g j. g < 1048576 \<Longrightarrow> j < 1024 \<Longrightarrow>
        entry s6 g j = (if 1024 = g \<and> 1023 = j then encode_pte (phys 1024 0) 3 else entry s5 g j)"
    using physical_write [OF s5(2) b(2) c(3)] by blast
  obtain s7 where s7: "vwrite32 (phys 1025 (4 * 1023)) (encode_pte (phys 1025 0) 3) s6 = ret s7"
      "only_frames {1025} s6 s7" "\<not> paging s7" "\<And>g j. g < 1048576 \<Longrightarrow> j < 1024 \<Longrightarrow>
        entry s7 g j = (if 1025 = g \<and> 1023 = j then encode_pte (phys 1025 0) 3 else entry s6 g j)"
    using physical_write [OF s6(3) b(3) c(3)] by blast
  have "only_frames ?K s s2" by (rule only_frames_trans [OF s1(3) s2(2)]) auto
  then have "only_frames ?K s s3" by (rule only_frames_trans [OF _ s3(2)]) auto
  then have "only_frames ?K s s4" by (rule only_frames_trans [OF _ s4(2)]) auto
  then have "only_frames ?K s s5" by (rule only_frames_trans [OF _ s5(3)]) auto
  then have "only_frames ?K s s6" by (rule only_frames_trans [OF _ s6(2)]) auto
  then have frames: "only_frames ?K s s7" by (rule only_frames_trans [OF _ s7(2)]) auto
  define s' where "s' = s7\<lparr>cr3 := phys 1 0, paging := True\<rparr>"
  have second: "phys 1024 0 + phys 1 0 = phys 1025 0" by (simp add: phys_def)
  have init: "Vmm_Init s = ret s'"
    unfolding Vmm_Init_def InitKernelPageDirectoryAndPageTables_def SetIdentityMapping_def Let_def num flags
      second s1(1) andThen_ret physical_word
    using s2(1) s3(1) s4(1) s5(1) s6(1) s7(1) by (simp add: s'_def)
  have e: "entry s' g i = entry s7 g i" for g i by (simp add: entry_def s'_def)
  note steps = s1(4) s2(4) s3(4) s4(4) s5(4) s6(4) s7(4)
  show ?thesis
  proof (rule that [OF init])
    show "entry s' 1 d = encode_pde (phys (1024 + d) 0) 3" if "d < 256" for d
      using that by (auto simp: e steps)
    show "entry s' 1 1023 = encode_pde (phys 1 0) 3" by (simp add: e steps)
    show "entry s' (1024 + d) i =
       (if i = 1023 then encode_pte (phys (1024 + d) 0) 3
        else if d < 2 then encode_pte (phys (1024 * d + i) 0) 3 else encode_pte 0 3)"
      if "d < 256" "i < 1024" for d i
    proof (cases "d < 2")
      case True
      then have "d = 0 \<or> d = 1" by auto
      then show ?thesis using that by (auto simp: e steps)
    next
      case False
      then show ?thesis using that by (auto simp: e steps)
    qed
    show "pmem s' (phys g i) = pmem s (phys g i)"
      if "g \<noteq> 1" "\<not> (1024 \<le> g \<and> g < 1280)" "g < 1048576" "i < 4096" for g i
      using frames that by (auto simp: only_frames_def s'_def)
  qed (use frames in \<open>auto simp: s'_def num only_frames_def\<close>)
qed

subsection \<open>The kernel's part of an address space\<close>

text \<open>
  Every address space has the kernel's 256 page tables, at fixed frames, in the first quarter of
  its directory, and maps its directory in the last entry.
\<close>

definition kernel_dirs :: "nat set" where
  "kernel_dirs = {..<256} \<union> {1023}"

definition kernel_space :: "'z machine_scheme \<Rightarrow> bool" where
  "kernel_space s \<longleftrightarrow> self_map s \<and> pd_frame s \<notin> {1024..<1280} \<and>
     (\<forall>d<256. FlagOn (entry s (pd_frame s) d) PAGE_PRESENT \<and>
       frame_of (entry s (pd_frame s) d) = 1024 + d)"

lemma kernel_dirs_iff: "d \<in> kernel_dirs \<longleftrightarrow> d < 256 \<or> d = 1023"
  by (auto simp: kernel_dirs_def)

lemma kernel_addr_dir: "v < V_USER_BASE_ADDR \<longleftrightarrow> dir v < 256"
  by (simp add: word_less_nat_alt dir_def less_mult_imp_div_less div_less_iff_less_mult)

lemma kernel_space_tables_ok: "kernel_space s \<Longrightarrow> tables_ok kernel_dirs s"
proof -
  assume k: "kernel_space s"
  have f: "frame_of (entry s (pd_frame s) d) = (if d = 1023 then pd_frame s else 1024 + d)"
    if "d \<in> kernel_dirs" for d
    using that k by (auto simp: kernel_dirs_iff kernel_space_def self_map_def)
  have "inj_on (\<lambda>d. frame_of (entry s (pd_frame s) d)) kernel_dirs"
  proof (rule inj_onI)
    fix d e
    assume "d \<in> kernel_dirs" "e \<in> kernel_dirs"
      "frame_of (entry s (pd_frame s) d) = frame_of (entry s (pd_frame s) e)"
    then show "d = e" using k f [of d] f [of e]
      by (auto simp: kernel_space_def kernel_dirs_iff split: if_splits)
  qed
  then show ?thesis using k
    by (auto simp: tables_ok_def kernel_space_def self_map_def kernel_dirs_iff)
qed

lemma entry_cong:
  assumes "f < 1048576" "i < 1024" "\<And>k. k < 4096 \<Longrightarrow> pmem s' (phys f k) = pmem s (phys f k)"
  shows "entry s' f i = entry s f i"
proof -
  have "4 * i < 4096" "4 * i + 1 < 4096" "4 * i + 2 < 4096" "4 * i + 3 < 4096" using assms(2) by linarith+
  then show ?thesis unfolding entry_def
    by (intro read32_cong) (simp_all only: phys_add_123 assms(3))
qed

text \<open>Writing to other frames changes neither the tables nor the translation.\<close>

lemma kernel_space_cong:
  assumes k: "kernel_space s" and s': "cr3 s' = cr3 s" "paging s' = paging s"
    and same: "\<And>i. i < 4096 \<Longrightarrow> pmem s' (phys (pd_frame s) i) = pmem s (phys (pd_frame s) i)"
  shows "kernel_space s'"
proof -
  have "entry s' (pd_frame s) d = entry s (pd_frame s) d" if "d < 1024" for d
    using that same by (intro entry_cong) auto
  then show ?thesis using k s' by (simp add: kernel_space_def self_map_def)
qed

lemma kernel_mmu:
  assumes "kernel_space s" "dir v < 256"
  shows "mmu s v = (let pte = entry s (1024 + dir v) (tab v) in
    if FlagOn pte PAGE_PRESENT then Some (phys (frame_of pte) (off v)) else None)"
  using assms by (simp add: mmu_eq kernel_space_def self_map_def Let_def)

lemma kernel_mmu_cong:
  assumes k: "kernel_space s" "kernel_space s'" "dir v < 256"
    and same: "\<And>i. i < 4096 \<Longrightarrow> pmem s' (phys (1024 + dir v) i) = pmem s (phys (1024 + dir v) i)"
  shows "mmu s' v = mmu s v"
proof -
  have "entry s' (1024 + dir v) (tab v) = entry s (1024 + dir v) (tab v)"
    using k(3) same by (intro entry_cong) auto
  then show ?thesis using k by (simp add: kernel_mmu)
qed

lemma Vmm_Init_ok:
  assumes "\<not> paging s"
  obtains s' where "Vmm_Init s = ret s'" "kernel_space s'" "pd_frame s' = 1" "memBitmap s' = memBitmap s"
    "s' = s\<lparr>pmem := pmem s', cr3 := KERNEL_PAGE_DIR_P_ADDR, paging := True\<rparr>"
    "\<And>v. v < V_USER_BASE_ADDR \<Longrightarrow> mmu s' v = Some
       (if tab v = 1023 then phys (1024 + dir v) (off v) else if dir v < 2 then v else phys 0 (off v))"
    "\<And>g i. g \<noteq> 1 \<Longrightarrow> \<not> (1024 \<le> g \<and> g < 1280) \<Longrightarrow> g < 1048576 \<Longrightarrow> i < 4096 \<Longrightarrow>
       pmem s' (phys g i) = pmem s (phys g i)"
proof -
  obtain s' where s': "Vmm_Init s = ret s'" "cr3 s' = KERNEL_PAGE_DIR_P_ADDR" "paging s'"
    "memBitmap s' = memBitmap s" "s' = s\<lparr>pmem := pmem s', cr3 := KERNEL_PAGE_DIR_P_ADDR, paging := True\<rparr>"
    "\<And>d. d < 256 \<Longrightarrow> entry s' 1 d = encode_pde (phys (1024 + d) 0) 3"
    "entry s' 1 1023 = encode_pde (phys 1 0) 3"
    "\<And>d i. d < 256 \<Longrightarrow> i < 1024 \<Longrightarrow> entry s' (1024 + d) i =
       (if i = 1023 then encode_pte (phys (1024 + d) 0) 3
        else if d < 2 then encode_pte (phys (1024 * d + i) 0) 3 else encode_pte 0 3)"
    "\<And>g i. g \<noteq> 1 \<Longrightarrow> \<not> (1024 \<le> g \<and> g < 1280) \<Longrightarrow> g < 1048576 \<Longrightarrow> i < 4096 \<Longrightarrow>
       pmem s' (phys g i) = pmem s (phys g i)"
    using Vmm_Init_entries [OF assms] by blast
  have pd: "pd_frame s' = 1" using s'(2) by (simp add: frame_of_def)
  have ks: "kernel_space s'"
    using s'(3,6,7) pd by (simp add: kernel_space_def self_map_def)
  have "mmu s' v = Some (if tab v = 1023 then phys (1024 + dir v) (off v)
       else if dir v < 2 then v else phys 0 (off v))" if "v < V_USER_BASE_ADDR" for v
  proof -
    have d: "dir v < 256" using that by (simp add: kernel_addr_dir)
    have t: "tab v < 1024" by simp
    have v: "phys (1024 * dir v + tab v) (off v) = v"
      using addr_split [of v] by (simp add: frame_of_def page_number)
    have z: "frame_of (0 :: u32) = 0" by (simp add: frame_of_def)
    have b: "1024 * dir v + tab v < 1048576" using d t by linarith
    show ?thesis
      unfolding kernel_mmu [OF ks d] s'(8) [OF d t] using d b by (simp add: Let_def v z)
  qed
  from that [OF s'(1) ks pd s'(4,5) this s'(9)] show ?thesis by blast
qed

lemma dir_frame: "dir v = frame_of v div 1024"
  using div_mult2_eq [of "unat v" 4096 1024] by (simp add: dir_def frame_of_def)

text \<open>Mapping a kernel page changes this page's translation and nothing else.\<close>

lemma kernel_map_page:
  assumes ks: "kernel_space s" and q: "q < 262144"
  obtains m where "AddPageToKernelPageDirectory (phys q 0) p flags s = ret (s\<lparr>pmem := m\<rparr>)"
    "kernel_space (s\<lparr>pmem := m\<rparr>)"
    "\<And>u. frame_of u < 262144 \<Longrightarrow> mmu (s\<lparr>pmem := m\<rparr>) u =
       (if frame_of u = q then Some (phys (frame_of p) (off u)) else mmu s u)"
    "\<And>f i. \<not> (1024 \<le> f \<and> f < 1280) \<Longrightarrow> f < 1048576 \<Longrightarrow> i < 4096 \<Longrightarrow> m (phys f i) = pmem s (phys f i)"
proof -
  have d: "dir (phys q 0) < 256" using q by (simp add: dir_frame)
  then have v: "phys q 0 < V_USER_BASE_ADDR" "dir (phys q 0) \<in> kernel_dirs"
    by (simp_all add: kernel_addr_dir kernel_dirs_iff)
  have tf: "frame_of (entry s (pd_frame s) (dir (phys q 0))) = 1024 + dir (phys q 0)"
    using ks d unfolding kernel_space_def by blast
  obtain s' m where a: "AddPageToKernelPageDirectory (phys q 0) p flags s = ret s'" "s' = s\<lparr>pmem := m\<rparr>"
      "tables_ok kernel_dirs s'"
      "\<And>u. dir u \<in> kernel_dirs \<Longrightarrow> mmu s' u =
         (if frame_of u = frame_of (phys q 0) then Some (phys (frame_of p) (off u)) else mmu s u)"
      "\<And>f i. f \<noteq> 1024 + dir (phys q 0) \<Longrightarrow> f < 1048576 \<Longrightarrow> i < 4096 \<Longrightarrow> m (phys f i) = pmem s (phys f i)"
    using AddPageToKernelPageDirectory_maps [OF kernel_space_tables_ok [OF ks] v(2,1), unfolded tf] by blast
  have mm: "mmu s' u = (if frame_of u = q then Some (phys (frame_of p) (off u)) else mmu s u)"
    if "frame_of u < 262144" for u
    using a(4) [of u] that q less_mult_imp_div_less [of "frame_of u" 256 1024]
    by (simp add: dir_frame kernel_dirs_iff)
  have ks': "kernel_space s'"
  proof (rule kernel_space_cong [OF ks])
    show "pmem s' (phys (pd_frame s) i) = pmem s (phys (pd_frame s) i)" if "i < 4096" for i
      using a(5) [of "pd_frame s" i] that ks d by (auto simp: a(2) kernel_space_def)
  qed (simp_all add: a(2))
  have other: "m (phys f i) = pmem s (phys f i)" if "\<not> (1024 \<le> f \<and> f < 1280)" "f < 1048576" "i < 4096" for f i
    using a(5) [of f i] that d by auto
  from that [OF a(1) [unfolded a(2)] ks' [unfolded a(2)] mm [unfolded a(2)] other] show ?thesis .
qed

end
