(* ===== verification/Kernel_Heap.thy ===== *)
theory Kernel_Heap
  imports Vmm
begin

section \<open>The kernel heap: operations\<close>

text \<open>
  \<^verbatim>\<open>kernel/mem/Heap.cpp\<close>: a first-fit allocator whose blocks tile the heap's
  virtual addresses. Each block starts with a 32-bit header (31 bits of size, 1 bit of state)
  at whatever address the previous block ends, so every access goes through the memory
  management unit byte by byte. \<open>Heap_Blocks\<close> has the abstraction to a list of blocks. The
  members \<^verbatim>\<open>allocCount\<close> and \<^verbatim>\<open>freeCount\<close> are never used by the code and are left out.
\<close>

record kheap = machine +
  baseBlock :: addr
  limitBlock :: addr
  lastBlock :: addr

abbreviation KERNEL_HEAP_V_BASE_ADDR :: addr where
  "KERNEL_HEAP_V_BASE_ADDR \<equiv> 0x1000000"

abbreviation KERNEL_HEAP_V_LIMIT_ADDR :: addr where
  "KERNEL_HEAP_V_LIMIT_ADDR \<equiv> 0x40000000"

abbreviation BLOCK_HEADER_SIZE :: u32 where "BLOCK_HEADER_SIZE \<equiv> 4"
abbreviation DEFAULT_BLOCK_SIZE :: u32 where "DEFAULT_BLOCK_SIZE \<equiv> 4092"
abbreviation MINIMAL_BLOCK_SIZE :: u32 where "MINIMAL_BLOCK_SIZE \<equiv> 4"

subsection \<open>Block headers\<close>

text \<open>The two bit fields of \<^verbatim>\<open>MemBlock\<close>; \<^verbatim>\<open>BLOCK_USED\<close> is \<open>True\<close>.\<close>

definition hdr_size :: "u32 \<Rightarrow> u32" where
  "hdr_size w = take_bit 31 w"

definition hdr_used :: "u32 \<Rightarrow> bool" where
  "hdr_used w = bit w 31"

definition write_size :: "addr \<Rightarrow> u32 \<Rightarrow> 'z kheap_scheme \<Rightarrow> 'z kheap_scheme exec" where
  "write_size block sz s = andThen (vread32 s block) (\<lambda>w. vwrite32 block (set_field 0 31 sz w) s)"

definition write_state :: "addr \<Rightarrow> bool \<Rightarrow> 'z kheap_scheme \<Rightarrow> 'z kheap_scheme exec" where
  "write_state block u s = andThen (vread32 s block) (\<lambda>w. vwrite32 block (set_flag 31 u w) s)"

subsection \<open>Arithmetic helpers\<close>

text \<open>\<^verbatim>\<open>_local_mod\<close>; with a zero divisor the loop never ends.\<close>

partial_function (option) local_mod :: "u32 \<Rightarrow> u32 \<Rightarrow> u32 exec" where
  "local_mod a b = (if a > b then local_mod (a - b) b else ret (if a < b then 1 else 0))"

partial_function (option) ClosestPow_loop :: "u32 \<Rightarrow> u32 \<Rightarrow> u32 exec" where
  "ClosestPow_loop val y = andThen (local_mod val y) (\<lambda>r.
     if r \<noteq> 0 then ClosestPow_loop (val + 1) y else ret val)"

definition ClosestPow :: "u32 \<Rightarrow> u32 \<Rightarrow> u32 exec" where
  "ClosestPow x y = ClosestPow_loop x y"

subsection \<open>Growing the heap\<close>

text \<open>
  The loop of \<^verbatim>\<open>Sbrk\<close>. The check for a null page is the code's; the physical memory
  manager reports failure by -1.
\<close>

fun sbrk_pages :: "nat \<Rightarrow> addr \<Rightarrow> 'z kheap_scheme \<Rightarrow> (addr \<times> 'z kheap_scheme) exec" where
  "sbrk_pages 0 heap s = ret (heap, s)"
| "sbrk_pages (Suc n) heap s = (let (new_page, s1) = GetFreePage s in
     if new_page = nullptr then halt Panicked
     else andThen (AddPageToKernelPageDirectory heap new_page (PAGE_PRESENT OR PAGE_WRITEABLE) s1)
       (sbrk_pages n (heap + PAGE_SIZE)))"

definition Sbrk :: "int \<Rightarrow> 'z kheap_scheme \<Rightarrow> (addr \<times> 'z kheap_scheme) exec" where
  "Sbrk n s =
     (if n \<le> 0 then ret (nullptr, s)
      else if lastBlock s + of_int n * PAGE_SIZE > KERNEL_HEAP_V_LIMIT_ADDR then halt Panicked
      else let newBlock = lastBlock s in
        andThen (sbrk_pages (nat n) newBlock s) (\<lambda>(heap, s1).
        andThen (write_size newBlock (of_int n * PAGE_SIZE) (s1\<lparr>lastBlock := heap\<rparr>)) (\<lambda>s2.
        andThen (write_state newBlock False s2) (\<lambda>s3.
        andThen (vread32 s3 newBlock) (\<lambda>w.
        andThen (vMemSet (newBlock + 4) 0 (unat (hdr_size w - BLOCK_HEADER_SIZE)) s3) (\<lambda>s4.
          ret (newBlock, s4)))))))"

definition Heap_Init :: "'z kheap_scheme \<Rightarrow> 'z kheap_scheme exec" where
  "Heap_Init s =
     andThen (Sbrk 1 (s\<lparr>baseBlock := KERNEL_HEAP_V_BASE_ADDR, limitBlock := KERNEL_HEAP_V_LIMIT_ADDR,
         lastBlock := KERNEL_HEAP_V_BASE_ADDR\<rparr>))
       (\<lambda>(_, s1). ret s1)"

subsection \<open>Allocating\<close>

definition SplitBlock :: "addr \<Rightarrow> u32 \<Rightarrow> 'z kheap_scheme \<Rightarrow> 'z kheap_scheme exec" where
  "SplitBlock block sz s =
     (if block = nullptr then ret s
      else if sz = 0 then ret s
      else let second_block = block + sz in
        andThen (vread32 s block) (\<lambda>w.
        andThen (write_size second_block (hdr_size w - sz) s) (\<lambda>s1.
        andThen (write_state second_block False s1) (\<lambda>s2.
          write_size block sz s2))))"

text \<open>The search loop of \<^verbatim>\<open>_Allocate\<close>: the result pointer and the last block looked at.\<close>

partial_function (option) find_block ::
  "addr \<Rightarrow> u32 \<Rightarrow> 'z kheap_scheme \<Rightarrow> (addr \<times> addr \<times> 'z kheap_scheme) exec" where
  "find_block block sz s =
     (if block < lastBlock s then
        andThen (vread32 s block) (\<lambda>w.
          if hdr_used w \<or> sz > hdr_size w then find_block (block + hdr_size w) sz s
          else andThen
            (if hdr_size w - sz \<ge> BLOCK_HEADER_SIZE + MINIMAL_BLOCK_SIZE then SplitBlock block sz s else ret s)
            (\<lambda>s1. let res_ptr = block + 4 in
               if res_ptr \<noteq> nullptr then ret (res_ptr, block, s1) else find_block block sz s1))
      else ret (nullptr, block, s))"

text \<open>\<^verbatim>\<open>_Allocate\<close>: grow the heap and search the new block when nothing fits.\<close>

partial_function (option) Allocate_from ::
  "addr \<Rightarrow> u32 \<Rightarrow> 'z kheap_scheme \<Rightarrow> (addr \<times> 'z kheap_scheme) exec" where
  "Allocate_from block sz s =
     (if block = nullptr then ret (nullptr, s)
      else if sz = 0 then ret (nullptr, s)
      else andThen (find_block block sz s) (\<lambda>(res_ptr, b, s1).
        andThen
          (if res_ptr = nullptr then
             andThen
               (if sz > DEFAULT_BLOCK_SIZE then
                  andThen (local_mod sz DEFAULT_BLOCK_SIZE) (\<lambda>r.
                    Sbrk (sint (sz div DEFAULT_BLOCK_SIZE + (if r > 0 then 1 else 0))) s1)
                else Sbrk 1 s1)
               (\<lambda>(b', s2). andThen (Allocate_from b' sz s2) (\<lambda>(res_ptr', s3). ret (res_ptr', b', s3)))
           else ret (res_ptr, b, s1))
          (\<lambda>(res_ptr, b, s2). andThen (write_state b True s2) (\<lambda>s3. ret (res_ptr, s3)))))"

text \<open>
  \<^verbatim>\<open>Heap::Allocate\<close>, that is \<^verbatim>\<open>HeapAlloc\<close>. The rounded block size is computed and
  not used.
\<close>

definition HeapAlloc :: "int \<Rightarrow> 'z kheap_scheme \<Rightarrow> (addr \<times> 'z kheap_scheme) exec" where
  "HeapAlloc sz s =
     (if sz \<le> 0 then ret (nullptr, s)
      else andThen (ClosestPow (of_int sz + BLOCK_HEADER_SIZE) 4) (\<lambda>blockSize.
        Allocate_from (baseBlock s) (of_int sz + BLOCK_HEADER_SIZE) s))"

subsection \<open>Freeing\<close>

text \<open>
  The loop of \<^verbatim>\<open>_MergeBlocksFrom\<close>. The call \<^verbatim>\<open>MemSet(nextBlock, BLOCK_HEADER_SIZE, 0)\<close>
  has its byte and size arguments exchanged and sets no byte.
\<close>

partial_function (option) merge_loop :: "addr \<Rightarrow> 'z kheap_scheme \<Rightarrow> 'z kheap_scheme exec" where
  "merge_loop block s =
     (if block < lastBlock s then
        andThen (vread32 s block) (\<lambda>w. let nextBlock = block + hdr_size w in
        andThen (vread32 s nextBlock) (\<lambda>v.
          if hdr_size v = 0 then ret s
          else if hdr_used v then ret s
          else andThen (write_size block (hdr_size w + hdr_size v) s) (\<lambda>s1.
            andThen (vMemSet nextBlock 4 0 s1) (\<lambda>s2.
              merge_loop block (if nextBlock = lastBlock s2 then s2\<lparr>lastBlock := block\<rparr> else s2)))))
      else ret s)"

definition MergeBlocksFrom :: "addr \<Rightarrow> 'z kheap_scheme \<Rightarrow> 'z kheap_scheme exec" where
  "MergeBlocksFrom block s = (if block = nullptr then ret s else merge_loop block s)"

definition HeapFree :: "addr \<Rightarrow> 'z kheap_scheme \<Rightarrow> 'z kheap_scheme exec" where
  "HeapFree ptr s =
     (if ptr = nullptr then ret s
      else let block = ptr - BLOCK_HEADER_SIZE in
        andThen (vread32 s block) (\<lambda>w.
          if \<not> hdr_used w then ret s
          else andThen (write_state block False s) (\<lambda>s1.
            andThen (vMemSet (block + 4) 0 (unat (hdr_size w - BLOCK_HEADER_SIZE)) s1) (\<lambda>s2.
              MergeBlocksFrom block s2))))"

text \<open>\<^verbatim>\<open>Heap::Dump\<close>: the lines it prints, one per block.\<close>

partial_function (option) Dump_loop :: "addr \<Rightarrow> 'z kheap_scheme \<Rightarrow> (addr \<times> u32 \<times> bool) list exec" where
  "Dump_loop currentBlock s =
     (if currentBlock < lastBlock s then
        andThen (vread32 s currentBlock) (\<lambda>w.
        andThen (Dump_loop (currentBlock + hdr_size w) s) (\<lambda>rest.
          ret ((currentBlock, hdr_size w, hdr_used w) # rest)))
      else ret [])"

definition Heap_Dump :: "'z kheap_scheme \<Rightarrow> (addr \<times> u32 \<times> bool) list exec" where
  "Heap_Dump s = Dump_loop (baseBlock s) s"


subsection \<open>The heap's window on physical memory\<close>

text \<open>The byte the processor reads at a virtual address.\<close>

definition view :: "'z machine_scheme \<Rightarrow> memory" where
  "view s v = (case mmu s v of None \<Rightarrow> 0 | Some p \<Rightarrow> pmem s p)"

definition page_frame :: "'z machine_scheme \<Rightarrow> nat \<Rightarrow> nat" where
  "page_frame s q = frame_of (the (mmu s (phys q 0)))"

text \<open>
  The pages \<open>4096 \<le> q < L\<close> are the heap's: each has its own frame, taken from the physical
  memory manager. The pages behind still have the mapping of \<^verbatim>\<open>Vmm::Init\<close>: to the
  physical page 0, whose first word is the null descriptor of the GDT, except for the last page
  of each table.
\<close>

definition heap_map :: "nat \<Rightarrow> 'z machine_scheme \<Rightarrow> bool" where
  "heap_map L s \<longleftrightarrow> kernel_space s \<and> 4096 \<le> L \<and> L \<le> 262144 \<and>
     {..<2048} \<subseteq> used_pages s \<and> pd_frame s \<in> used_pages s \<and> pd_frame s \<noteq> 0 \<and>
     (\<forall>q. 4096 \<le> q \<and> q < L \<longrightarrow> mmu s (phys q 0) = Some (phys (page_frame s q) 0) \<and>
        page_frame s q \<in> used_pages s \<and> 2048 \<le> page_frame s q \<and> page_frame s q \<noteq> pd_frame s) \<and>
     inj_on (page_frame s) {4096..<L} \<and>
     (\<forall>q. L \<le> q \<and> q < 262144 \<and> q mod 1024 \<noteq> 1023 \<longrightarrow> mmu s (phys q 0) = Some (phys 0 0)) \<and>
     read32 (pmem s) 0 = 0"

definition in_heap :: "nat \<Rightarrow> addr \<Rightarrow> bool" where
  "in_heap L v \<longleftrightarrow> 4096 \<le> frame_of v \<and> frame_of v < L"

lemma mmu_page: "mmu s v = map_option (\<lambda>p. p + of_nat (off v)) (mmu s (phys (frame_of v) 0))"
proof -
  have "mmu s v = mmu s (phys (frame_of v) (0 + off v))" using addr_split [of v] by simp
  also have "\<dots> = map_option (\<lambda>p. p + of_nat (off v)) (mmu s (phys (frame_of v) 0))"
    by (rule mmu_in_page) simp_all
  finally show ?thesis .
qed

lemma heap_mmu:
  assumes "heap_map L s" "in_heap L v"
  shows "mmu s v = Some (phys (page_frame s (frame_of v)) (off v))"
proof -
  have "mmu s (phys (frame_of v) 0) = Some (phys (page_frame s (frame_of v)) 0)"
    using assms by (auto simp: heap_map_def in_heap_def)
  then show ?thesis using phys_add [of "page_frame s (frame_of v)" 0 "off v"] by (subst mmu_page) simp
qed

lemma page_frame_lt [simp]: "page_frame s q < 1048576"
  by (simp add: page_frame_def)

lemma heap_dir: "heap_map L s \<Longrightarrow> frame_of v < 262144 \<Longrightarrow> dir v < 256"
  by (simp add: dir_frame)

lemma view_heap:
  "heap_map L s \<Longrightarrow> in_heap L v \<Longrightarrow> view s v = pmem s (phys (page_frame s (frame_of v)) (off v))"
  by (simp add: view_def heap_mmu)

text \<open>A heap address has its byte in one place.\<close>

lemma heap_mmu_eq_iff:
  assumes "heap_map L s" "in_heap L u" "in_heap L v"
  shows "mmu s u = mmu s v \<longleftrightarrow> u = v"
proof
  assume "mmu s u = mmu s v"
  then have "page_frame s (frame_of u) = page_frame s (frame_of v)" "off u = off v"
    using assms by (auto simp: heap_mmu phys_eq_iff)
  moreover have "frame_of u = frame_of v"
    using assms calculation(1) by (auto simp: heap_map_def in_heap_def inj_on_def)
  ultimately show "u = v" using addr_split by metis
qed simp

text \<open>Stores to heap addresses.\<close>

lemma heap_store:
  assumes h: "heap_map L s" and v: "in_heap L v" and p: "mmu s v = Some p"
    and s': "s' = s\<lparr>pmem := (pmem s)(p := b)\<rparr>"
  shows "heap_map L s'" and "\<And>u. frame_of u < 262144 \<Longrightarrow> mmu s' u = mmu s u"
    and "\<And>u. in_heap L u \<Longrightarrow> view s' u = (if u = v then b else view s u)"
    and "\<And>f i. f < 2048 \<Longrightarrow> i < 4096 \<Longrightarrow> pmem s' (phys f i) = pmem s (phys f i)"
proof -
  let ?f = "page_frame s (frame_of v)"
  have f: "2048 \<le> ?f" "?f \<noteq> pd_frame s" using h v by (auto simp: heap_map_def in_heap_def)
  have p': "p = phys ?f (off v)" using p heap_mmu [OF h v] by simp
  have other: "pmem s' (phys g i) = pmem s (phys g i)" if "g < 1048576" "g \<noteq> ?f" "i < 4096" for g i
    using that unfolding s' p' by (simp add: phys_eq_iff)
  show low: "pmem s' (phys g i) = pmem s (phys g i)" if "g < 2048" "i < 4096" for g i
    using that f by (intro other) auto
  have regs: "cr3 s' = cr3 s" "paging s' = paging s" "used_pages s' = used_pages s"
    by (simp_all add: s' used_pages_def)
  have ks: "kernel_space s'"
    by (rule kernel_space_cong [of s]) (use h f other regs in \<open>auto simp: heap_map_def\<close>)
  show mm: "mmu s' u = mmu s u" if "frame_of u < 262144" for u
  proof (rule kernel_mmu_cong [OF _ ks])
    show "kernel_space s" using h by (simp add: heap_map_def)
    show "dir u < 256" using that by (simp add: dir_frame)
    then show "pmem s' (phys (1024 + dir u) i) = pmem s (phys (1024 + dir u) i)" if "i < 4096" for i
      using that f by (intro other) auto
  qed
  have pf: "page_frame s' q = page_frame s q" if "q < 262144" for q
    using mm [of "phys q 0"] that by (simp add: page_frame_def)
  have "read32 (pmem s') 0 = read32 (pmem s) 0"
    using low [of 0 0] low [of 0 1] low [of 0 2] low [of 0 3]
    by (intro read32_cong) (simp_all add: phys_def)
  then show "heap_map L s'"
    using h ks mm pf regs unfolding heap_map_def by (auto simp: inj_on_def)
  show "view s' u = (if u = v then b else view s u)" if u: "in_heap L u" for u
  proof -
    have "frame_of u < 262144" using h u by (auto simp: heap_map_def in_heap_def)
    then have "mmu s' u = mmu s u" by (rule mm)
    then show ?thesis
      using heap_mmu_eq_iff [OF h u v] p heap_mmu [OF h u] by (auto simp: view_def s')
  qed
qed

subsection \<open>Reading and writing heap memory\<close>

text \<open>What a store to the heap leaves alone: everything but the bytes of heap pages.\<close>

definition heap_upd :: "nat \<Rightarrow> 'z machine_scheme \<Rightarrow> 'z machine_scheme \<Rightarrow> bool" where
  "heap_upd L s s' \<longleftrightarrow> heap_map L s' \<and> (\<exists>m. s' = s\<lparr>pmem := m\<rparr>) \<and>
     (\<forall>u. frame_of u < 262144 \<longrightarrow> mmu s' u = mmu s u) \<and>
     (\<forall>f i. f < 2048 \<longrightarrow> i < 4096 \<longrightarrow> pmem s' (phys f i) = pmem s (phys f i))"

definition agree :: "nat \<Rightarrow> memory \<Rightarrow> memory \<Rightarrow> bool" where
  "agree L M M' \<longleftrightarrow> (\<forall>u. in_heap L u \<longrightarrow> M u = M' u)"

definition heap_range :: "nat \<Rightarrow> nat \<Rightarrow> nat \<Rightarrow> bool" where
  "heap_range L a n \<longleftrightarrow> 16777216 \<le> a \<and> a + n \<le> 4096 * L \<and> L \<le> 262144"

lemma heap_upd_refl: "heap_map L s \<Longrightarrow> heap_upd L s s"
  by (auto simp: heap_upd_def intro: exI [of _ "pmem s"])

lemma heap_upd_trans: "heap_upd L s s1 \<Longrightarrow> heap_upd L s1 s2 \<Longrightarrow> heap_upd L s s2"
  unfolding heap_upd_def by auto

lemma heap_upd_map: "heap_upd L s s' \<Longrightarrow> heap_map L s'"
  by (simp add: heap_upd_def)

lemma agree_trans: "agree L M M1 \<Longrightarrow> agree L M1 M2 \<Longrightarrow> agree L M M2"
  by (simp add: agree_def)

lemma in_heap_iff: "in_heap L v \<longleftrightarrow> 16777216 \<le> unat v \<and> unat v < 4096 * L"
  by (auto simp: in_heap_def frame_of_def less_mult_imp_div_less div_le_mono)

lemma heap_range_addr:
  assumes "heap_range L a n" "i < n"
  shows "unat (of_nat a + of_nat i :: addr) = a + i" "in_heap L (of_nat a + of_nat i)"
proof -
  have "a + i < 4294967296" using assms by (auto simp: heap_range_def)
  then show "unat (of_nat a + of_nat i :: addr) = a + i"
    using unat_of_nat_u32 [of "a + i"] by simp
  then show "in_heap L (of_nat a + of_nat i)" using assms by (auto simp: in_heap_iff heap_range_def)
qed

lemma heap_range_addr_0:
  assumes "heap_range L a n" "0 < n"
  shows "unat (of_nat a :: addr) = a" "in_heap L (of_nat a)"
  using heap_range_addr [OF assms] by simp_all

lemma heap_range_word:
  assumes "heap_range L a n" "4 \<le> n"
  shows "in_heap L (of_nat a)" "in_heap L (of_nat a + 1)" "in_heap L (of_nat a + 2)" "in_heap L (of_nat a + 3)"
  using heap_range_addr(2) [OF assms(1), of 0] heap_range_addr(2) [OF assms(1), of 1]
    heap_range_addr(2) [OF assms(1), of 2] heap_range_addr(2) [OF assms(1), of 3] assms(2) by simp_all

lemma vread32_heap:
  assumes "heap_map L s" "heap_range L a n" "4 \<le> n"
  shows "vread32 s (of_nat a) = ret (read32 (view s) (of_nat a))"
  using heap_range_word [OF assms(2,3)]
  by (simp add: vread32_def read32_def heap_mmu [OF assms(1)] view_heap [OF assms(1)])

lemma vwrite8_heap:
  assumes h: "heap_map L s" and v: "in_heap L v"
  shows "\<exists>s'. vwrite8 v b s = ret s' \<and> heap_upd L s s' \<and> agree L (view s') ((view s)(v := b))"
proof -
  note p = heap_mmu [OF h v]
  note st = heap_store [OF h v p refl, where b = b]
  show ?thesis using p st by (auto simp: vwrite8_def heap_upd_def agree_def)
qed

lemma vwrite32_heap:
  assumes h: "heap_map L s" and r: "heap_range L a n" "4 \<le> n"
  shows "\<exists>s'. vwrite32 (of_nat a) w s = ret s' \<and> heap_upd L s s' \<and>
    agree L (view s') (write32 (view s) (of_nat a) w)"
proof -
  note v = heap_range_word [OF r]
  obtain p0 p1 p2 p3 where p: "mmu s (of_nat a) = Some p0" "mmu s (of_nat a + 1) = Some p1"
      "mmu s (of_nat a + 2) = Some p2" "mmu s (of_nat a + 3) = Some p3"
    using heap_mmu [OF h] v by blast
  have lt: "frame_of u < 262144" if "in_heap L u" for u using h that by (auto simp: heap_map_def in_heap_def)
  define s0 where "s0 = s\<lparr>pmem := (pmem s)(p0 := ucast w)\<rparr>"
  note a0 = heap_store [OF h v(1) p(1) s0_def]
  define s1 where "s1 = s0\<lparr>pmem := (pmem s0)(p1 := ucast (drop_bit 8 w))\<rparr>"
  have "mmu s0 (of_nat a + 1) = Some p1" using a0(2) lt v p by simp
  note a1 = heap_store [OF a0(1) v(2) this s1_def]
  define s2 where "s2 = s1\<lparr>pmem := (pmem s1)(p2 := ucast (drop_bit 16 w))\<rparr>"
  have "mmu s1 (of_nat a + 2) = Some p2" using a0(2) a1(2) lt v p by simp
  note a2 = heap_store [OF a1(1) v(3) this s2_def]
  define s3 where "s3 = s2\<lparr>pmem := (pmem s2)(p3 := ucast (drop_bit 24 w))\<rparr>"
  have "mmu s2 (of_nat a + 3) = Some p3" using a0(2) a1(2) a2(2) lt v p by simp
  note a3 = heap_store [OF a2(1) v(4) this s3_def]
  have "vwrite32 (of_nat a) w s = ret s3"
    using p by (simp add: vwrite32_def s3_def s2_def s1_def s0_def)
  moreover have "heap_upd L s s3"
    unfolding heap_upd_def using a3(1) a0(2,4) a1(2,4) a2(2,4) a3(2,4)
    by (auto simp: s3_def s2_def s1_def s0_def)
  moreover have "agree L (view s3) (write32 (view s) (of_nat a) w)"
    unfolding agree_def write32_def using a0(3) a1(3) a2(3) a3(3) by auto
  ultimately show ?thesis by blast
qed

lemma vMemSet_heap:
  assumes "heap_map L s" and "heap_range L a n"
  shows "\<exists>s'. vMemSet (of_nat a) b n s = ret s' \<and> heap_upd L s s' \<and>
    agree L (view s') (\<lambda>u. if a \<le> unat u \<and> unat u < a + n then b else view s u)"
  using assms
proof (induction n arbitrary: a s)
  case 0
  then show ?case by (auto simp: heap_upd_refl agree_def)
next
  case (Suc n)
  have v: "in_heap L (of_nat a)" "unat (of_nat a :: addr) = a"
    using heap_range_addr_0 [OF Suc.prems(2)] by auto
  obtain s1 where s1: "vwrite8 (of_nat a) b s = ret s1" "heap_upd L s s1"
      "agree L (view s1) ((view s)(of_nat a := b))"
    using vwrite8_heap [OF Suc.prems(1) v(1)] by blast
  have "heap_range L (a + 1) n" using Suc.prems(2) by (auto simp: heap_range_def)
  then obtain s2 where s2: "vMemSet (of_nat (a + 1)) b n s1 = ret s2" "heap_upd L s1 s2"
      "agree L (view s2) (\<lambda>u. if a + 1 \<le> unat u \<and> unat u < a + 1 + n then b else view s1 u)"
    using Suc.IH [OF heap_upd_map [OF s1(2)]] by blast
  have "view s2 u = (if a \<le> unat u \<and> unat u < a + Suc n then b else view s u)" if "in_heap L u" for u
  proof -
    have "u = of_nat a \<longleftrightarrow> unat u = a" using v(2) u32_eqI by metis
    then show ?thesis using s1(3) s2(3) that unfolding agree_def by auto
  qed
  then have "agree L (view s2) (\<lambda>u. if a \<le> unat u \<and> unat u < a + Suc n then b else view s u)"
    by (simp add: agree_def)
  moreover have "vMemSet (of_nat a) b (Suc n) s = ret s2" using s1(1) s2(1) by (simp add: add.commute)
  ultimately show ?case using heap_upd_trans [OF s1(2) s2(2)] by blast
qed

subsection \<open>Taking pages for the heap\<close>

definition free_frames :: "'z pmm_scheme \<Rightarrow> nat" where
  "free_frames s = card ({..<RAM_MAXPAGE} - used_pages s)"

lemma GetFreePage_frame:
  assumes "0 < free_frames s" "{..<2048} \<subseteq> used_pages s"
  obtains p m where "GetFreePage s = (phys p 0, s\<lparr>memBitmap := m\<rparr>)" "2048 \<le> p" "p < RAM_MAXPAGE"
    "p \<notin> used_pages s" "used_pages (s\<lparr>memBitmap := m\<rparr>) = insert p (used_pages s)"
    "free_frames (s\<lparr>memBitmap := m\<rparr>) = free_frames s - 1"
proof -
  have nf: "used_pages s \<noteq> {..<RAM_MAXPAGE}"
    using assms(1) unfolding free_frames_def by (metis Diff_cancel card.empty less_irrefl)
  obtain p where p: "GetFreePage s = (of_nat p * PAGE_SIZE, s\<lparr>memBitmap := SET_PAGE_USED (of_nat p) (memBitmap s)\<rparr>)"
      "p < RAM_MAXPAGE" "p \<notin> used_pages s" "used_pages (snd (GetFreePage s)) = insert p (used_pages s)"
    by (rule GetFreePage_Some [OF nf]) (rule that)
  have addr: "of_nat p * PAGE_SIZE = phys p 0" by (simp add: phys_def mult.commute)
  have lo: "2048 \<le> p" using p(3) assms(2) by (meson lessThan_iff linorder_not_less subsetD)
  have u: "used_pages (s\<lparr>memBitmap := SET_PAGE_USED (of_nat p) (memBitmap s)\<rparr>) = insert p (used_pages s)"
    using p(4) unfolding p(1) snd_conv .
  have "free_frames (s\<lparr>memBitmap := SET_PAGE_USED (of_nat p) (memBitmap s)\<rparr>) = free_frames s - 1"
    unfolding free_frames_def by (rule pmm.free_count [OF p(1)])
  from that [OF p(1) [unfolded addr] lo p(2,3) u this] show ?thesis .
qed

lemma mmu_bitmap [simp]: "mmu (s\<lparr>memBitmap := m\<rparr>) v = mmu s v"
  by (simp add: mmu_def Let_def)

lemma page_frame_bitmap [simp]: "page_frame (s\<lparr>memBitmap := m\<rparr>) = page_frame s"
  by (simp add: fun_eq_iff page_frame_def)

lemma view_bitmap [simp]: "view (s\<lparr>memBitmap := m\<rparr>) = view s"
  by (simp add: fun_eq_iff view_def cong: option.case_cong)

lemma heap_map_bitmap:
  assumes "heap_map L s" "used_pages s \<subseteq> used_pages (s\<lparr>memBitmap := m\<rparr>)"
  shows "heap_map L (s\<lparr>memBitmap := m\<rparr>)"
proof -
  have e: "entry (s\<lparr>memBitmap := m\<rparr>) f i = entry s f i" for f i by (simp add: entry_def)
  have "kernel_space (s\<lparr>memBitmap := m\<rparr>) = kernel_space s"
    by (simp add: kernel_space_def self_map_def e)
  then show ?thesis using assms by (auto simp: heap_map_def simp del: used_pages_upd)
qed

text \<open>Mapping a fresh frame behind the heap.\<close>

lemma heap_map_cong:
  assumes h: "heap_map L s" and L: "L \<le> L'" "L' \<le> 262144" and ks: "kernel_space s'"
    and regs: "cr3 s' = cr3 s" "used_pages s' = used_pages s"
    and mm: "\<And>q. 4096 \<le> q \<Longrightarrow> q < 262144 \<Longrightarrow> q < L \<or> L' \<le> q \<Longrightarrow> mmu s' (phys q 0) = mmu s (phys q 0)"
    and new: "\<And>q. L \<le> q \<Longrightarrow> q < L' \<Longrightarrow> mmu s' (phys q 0) = Some (phys (page_frame s' q) 0) \<and>
        page_frame s' q \<in> used_pages s \<and> 2048 \<le> page_frame s' q \<and> page_frame s' q \<noteq> pd_frame s"
    and inj: "inj_on (page_frame s') {4096..<L'}"
    and zero: "\<And>i. i < 4096 \<Longrightarrow> pmem s' (phys 0 i) = pmem s (phys 0 i)"
  shows "heap_map L' s'"
proof -
  have pf: "page_frame s' q = page_frame s q" if "4096 \<le> q" "q < L" for q
    using mm [of q] that L by (simp add: page_frame_def)
  have z: "read32 (pmem s') 0 = read32 (pmem s) 0"
    using zero [of 0] zero [of 1] zero [of 2] zero [of 3] by (intro read32_cong) (simp_all add: phys_def)
  show ?thesis
    unfolding heap_map_def
  proof (intro conjI allI impI)
    fix q assume q: "4096 \<le> q \<and> q < L'"
    show "mmu s' (phys q 0) = Some (phys (page_frame s' q) 0)" "page_frame s' q \<in> used_pages s'"
        "2048 \<le> page_frame s' q" "page_frame s' q \<noteq> pd_frame s'"
      using q h mm [of q] pf [of q] new [of q] regs L by (cases "q < L"; simp add: heap_map_def)+
  next
    fix q assume "L' \<le> q \<and> q < 262144 \<and> q mod 1024 \<noteq> 1023"
    then show "mmu s' (phys q 0) = Some (phys 0 0)" using h mm [of q] L by (simp add: heap_map_def)
  qed (use h L ks inj z regs in \<open>auto simp: heap_map_def\<close>)
qed

text \<open>Mapping a page that is not of the heap.\<close>

lemma heap_view_cong:
  assumes h: "heap_map L s" and q: "\<not> (4096 \<le> q \<and> q < L)"
    and mm: "\<And>u. frame_of u < 262144 \<Longrightarrow> mmu s' u = (if frame_of u = q then Some (f u) else mmu s u)"
    and mem: "\<And>g i. \<not> (1024 \<le> g \<and> g < 1280) \<Longrightarrow> g < 1048576 \<Longrightarrow> i < 4096 \<Longrightarrow> pmem s' (phys g i) = pmem s (phys g i)"
  shows "agree L (view s') (view s)"
proof -
  have "view s' u = view s u" if u: "in_heap L u" for u
  proof -
    have f: "2048 \<le> page_frame s (frame_of u)" "frame_of u < 262144" "frame_of u \<noteq> q"
      using h u q by (auto simp: heap_map_def in_heap_def)
    then have "pmem s' (phys (page_frame s (frame_of u)) (off u)) = pmem s (phys (page_frame s (frame_of u)) (off u))"
      by (intro mem) auto
    then show ?thesis using mm [OF f(2)] f(3) heap_mmu [OF h u] by (simp add: view_def)
  qed
  then show ?thesis by (simp add: agree_def)
qed

lemma heap_map_below:
  assumes h: "heap_map L s" and q: "q < 4096"
  obtains m where "AddPageToKernelPageDirectory (phys q 0) p flags s = ret (s\<lparr>pmem := m\<rparr>)"
    "heap_map L (s\<lparr>pmem := m\<rparr>)" "agree L (view (s\<lparr>pmem := m\<rparr>)) (view s)"
    "mmu (s\<lparr>pmem := m\<rparr>) (phys q 0) = Some (phys (frame_of p) 0)"
proof -
  have ks: "kernel_space s" and ql: "q < 262144" using h q by (auto simp: heap_map_def)
  obtain m where m: "AddPageToKernelPageDirectory (phys q 0) p flags s = ret (s\<lparr>pmem := m\<rparr>)"
    "kernel_space (s\<lparr>pmem := m\<rparr>)"
    "\<And>u. frame_of u < 262144 \<Longrightarrow> mmu (s\<lparr>pmem := m\<rparr>) u =
       (if frame_of u = q then Some (phys (frame_of p) (off u)) else mmu s u)"
    "\<And>f i. \<not> (1024 \<le> f \<and> f < 1280) \<Longrightarrow> f < 1048576 \<Longrightarrow> i < 4096 \<Longrightarrow> m (phys f i) = pmem s (phys f i)"
    using kernel_map_page [OF ks ql] by blast
  have mm: "mmu (s\<lparr>pmem := m\<rparr>) (phys r 0) = mmu s (phys r 0)" if "4096 \<le> r" "r < 262144" for r
    using m(3) [of "phys r 0"] that q by simp
  then have "page_frame (s\<lparr>pmem := m\<rparr>) r = page_frame s r" if "r \<in> {4096..<L}" for r
    using that h by (simp add: page_frame_def heap_map_def)
  moreover have "inj_on (page_frame s) {4096..<L}" using h by (simp add: heap_map_def)
  ultimately have inj: "inj_on (page_frame (s\<lparr>pmem := m\<rparr>)) {4096..<L}" by (metis inj_on_cong)
  have "heap_map L (s\<lparr>pmem := m\<rparr>)"
    by (rule heap_map_cong [OF h order_refl _ m(2)])
      (use h mm inj m(4) in \<open>auto simp: used_pages_def heap_map_def\<close>)
  moreover have "agree L (view (s\<lparr>pmem := m\<rparr>)) (view s)"
    by (rule heap_view_cong [OF h _ m(3)]) (use q m(4) in auto)
  moreover have "mmu (s\<lparr>pmem := m\<rparr>) (phys q 0) = Some (phys (frame_of p) 0)" using m(3) [of "phys q 0"] ql by simp
  ultimately show ?thesis using that m(1) by blast
qed

lemma heap_map_extend:
  assumes h: "heap_map L s" and L: "L < 262144"
    and p: "2048 \<le> p" "p < RAM_MAXPAGE" "p \<in> used_pages s" "p \<noteq> pd_frame s" "p \<notin> page_frame s ` {4096..<L}"
  obtains m where "AddPageToKernelPageDirectory (phys L 0) (phys p 0) flags s = ret (s\<lparr>pmem := m\<rparr>)"
    "heap_map (L + 1) (s\<lparr>pmem := m\<rparr>)" "agree L (view (s\<lparr>pmem := m\<rparr>)) (view s)"
proof -
  have ks: "kernel_space s" using h by (simp add: heap_map_def)
  obtain m where m: "AddPageToKernelPageDirectory (phys L 0) (phys p 0) flags s = ret (s\<lparr>pmem := m\<rparr>)"
    "kernel_space (s\<lparr>pmem := m\<rparr>)"
    "\<And>u. frame_of u < 262144 \<Longrightarrow> mmu (s\<lparr>pmem := m\<rparr>) u =
       (if frame_of u = L then Some (phys (frame_of (phys p 0)) (off u)) else mmu s u)"
    "\<And>f i. \<not> (1024 \<le> f \<and> f < 1280) \<Longrightarrow> f < 1048576 \<Longrightarrow> i < 4096 \<Longrightarrow> m (phys f i) = pmem s (phys f i)"
    using kernel_map_page [OF ks L] by blast
  let ?s = "s\<lparr>pmem := m\<rparr>"
  have mm: "mmu ?s (phys q 0) = (if q = L then Some (phys p 0) else mmu s (phys q 0))" if "q < 262144" for q
    using m(3) [of "phys q 0"] that p(2) by simp
  have pf: "page_frame ?s q = (if q = L then p else page_frame s q)" if "q < 262144" for q
    using mm [OF that] p(2) by (simp add: page_frame_def)
  have inj: "inj_on (page_frame ?s) {4096..<L + 1}"
  proof (rule inj_onI)
    fix q r assume qr: "q \<in> {4096..<L + 1}" "r \<in> {4096..<L + 1}" and eq: "page_frame ?s q = page_frame ?s r"
    have notp: "page_frame s x \<noteq> p" if "x \<in> {4096..<L}" for x using p(5) that by (metis imageI)
    have in_L: "x \<in> {4096..<L}" if "x \<in> {4096..<L + 1}" "x \<noteq> L" for x using that by simp
    have val: "page_frame ?s x = (if x = L then p else page_frame s x)" if "x \<in> {4096..<L + 1}" for x
      using that L by (intro pf) simp
    have inj: "inj_on (page_frame s) {4096..<L}" using h by (simp add: heap_map_def)
    show "q = r"
      using eq val [OF qr(1)] val [OF qr(2)] notp [OF in_L [OF qr(1)]] notp [OF in_L [OF qr(2)]]
        inj_onD [OF inj _ in_L [OF qr(1)] in_L [OF qr(2)]] by metis
  qed
  have "heap_map (L + 1) ?s"
  proof (rule heap_map_cong [OF h _ _ m(2)])
    show "mmu ?s (phys q 0) = Some (phys (page_frame ?s q) 0) \<and> page_frame ?s q \<in> used_pages s \<and>
        2048 \<le> page_frame ?s q \<and> page_frame ?s q \<noteq> pd_frame s" if "L \<le> q" "q < L + 1" for q
    proof -
      have "q = L" using that by simp
      then show ?thesis using L mm [of L] pf [of L] p by simp
    qed
  qed (use L mm inj m(4) in \<open>auto simp: used_pages_def\<close>)
  moreover have "agree L (view ?s) (view s)"
    by (rule heap_view_cong [OF h _ m(3)]) (use m(4) in auto)
  ultimately show ?thesis using that m(1) by blast
qed

lemma sbrk_pages_ok:
  assumes "heap_map L s" "L + n \<le> 262144" "n \<le> free_frames s"
  shows "\<exists>b m. sbrk_pages n (phys L 0) s = ret (phys (L + n) 0, s\<lparr>memBitmap := b, pmem := m\<rparr>) \<and>
    heap_map (L + n) (s\<lparr>memBitmap := b, pmem := m\<rparr>) \<and> agree L (view (s\<lparr>memBitmap := b, pmem := m\<rparr>)) (view s) \<and>
    used_pages s \<subseteq> used_pages (s\<lparr>memBitmap := b, pmem := m\<rparr>) \<and>
    free_frames (s\<lparr>memBitmap := b, pmem := m\<rparr>) = free_frames s - n"
  using assms
proof (induction n arbitrary: L s)
  case 0
  then show ?case by (intro exI [of _ "memBitmap s"] exI [of _ "pmem s"]) (simp add: agree_def)
next
  case (Suc n)
  have low: "{..<2048} \<subseteq> used_pages s" "pd_frame s \<in> used_pages s" "page_frame s ` {4096..<L} \<subseteq> used_pages s"
    using Suc.prems(1) by (auto simp: heap_map_def)
  obtain p b where p: "GetFreePage s = (phys p 0, s\<lparr>memBitmap := b\<rparr>)" "2048 \<le> p" "p < RAM_MAXPAGE"
      "p \<notin> used_pages s" "used_pages (s\<lparr>memBitmap := b\<rparr>) = insert p (used_pages s)"
      "free_frames (s\<lparr>memBitmap := b\<rparr>) = free_frames s - 1"
    using GetFreePage_frame [of s] Suc.prems(3) low(1) by auto
  have h1: "heap_map L (s\<lparr>memBitmap := b\<rparr>)" by (rule heap_map_bitmap [OF Suc.prems(1)]) (use p(5) in auto)
  obtain m where m: "AddPageToKernelPageDirectory (phys L 0) (phys p 0) 3 (s\<lparr>memBitmap := b\<rparr>) =
        ret (s\<lparr>memBitmap := b, pmem := m\<rparr>)" "heap_map (L + 1) (s\<lparr>memBitmap := b, pmem := m\<rparr>)"
      "agree L (view (s\<lparr>memBitmap := b, pmem := m\<rparr>)) (view (s\<lparr>memBitmap := b\<rparr>))"
    by (rule heap_map_extend [OF h1 _ p(2,3)]) (use Suc.prems(2) p(4,5) low in auto)
  define s1 where "s1 = s\<lparr>memBitmap := b, pmem := m\<rparr>"
  have s1: "free_frames s1 = free_frames s - 1" "used_pages s1 = insert p (used_pages s)"
    using p(5,6) by (simp_all add: s1_def free_frames_def used_pages_def)
  have pre: "heap_map (L + 1) s1" "L + 1 + n \<le> 262144" "n \<le> free_frames s1"
    using m(2) Suc.prems(2,3) s1(1) unfolding s1_def by auto
  obtain b2 m2 where ih: "sbrk_pages n (phys (L + 1) 0) s1 = ret (phys (L + 1 + n) 0, s1\<lparr>memBitmap := b2, pmem := m2\<rparr>)"
      "heap_map (L + 1 + n) (s1\<lparr>memBitmap := b2, pmem := m2\<rparr>)"
      "agree (L + 1) (view (s1\<lparr>memBitmap := b2, pmem := m2\<rparr>)) (view s1)"
      "used_pages s1 \<subseteq> used_pages (s1\<lparr>memBitmap := b2, pmem := m2\<rparr>)"
      "free_frames (s1\<lparr>memBitmap := b2, pmem := m2\<rparr>) = free_frames s1 - n"
    using Suc.IH [OF pre] by blast
  have eq: "s1\<lparr>memBitmap := b2, pmem := m2\<rparr> = s\<lparr>memBitmap := b2, pmem := m2\<rparr>" by (simp add: s1_def)
  have nz: "phys p 0 \<noteq> nullptr" using p(2,3) unat_phys [of p 0] by auto
  have nxt: "phys L 0 + PAGE_SIZE = phys (L + 1) 0" by (simp add: phys_def)
  have "sbrk_pages (Suc n) (phys L 0) s = ret (phys (L + Suc n) 0, s\<lparr>memBitmap := b2, pmem := m2\<rparr>)"
    using ih(1) m(1) nz by (simp add: p(1) nxt eq [symmetric] s1_def [symmetric])
  moreover have "agree L (view (s\<lparr>memBitmap := b2, pmem := m2\<rparr>)) (view s)"
  proof -
    have "in_heap (L + 1) u" if "in_heap L u" for u using that by (auto simp: in_heap_def)
    then show ?thesis using ih(3) m(3) unfolding agree_def eq s1_def by auto
  qed
  ultimately show ?case
    using ih(2,4,5) s1 unfolding eq by (intro exI [of _ b2] exI [of _ m2]) auto
qed

end
