(* ===== verification/Linked_List.thy ===== *)
theory Linked_List
  imports Kernel_Lib
begin

section \<open>The linked list library\<close>

text \<open>
  \<^verbatim>\<open>kernel/lib/List.cpp\<close>; \<^verbatim>\<open>userland/StdLib/src/list.cpp\<close> is the same code
  compiled against the user heap. The nodes live in a store indexed by their address; allocating
  and freeing a node goes through the heap of the program the library is linked into, so the
  operations take that heap's \<open>alloc\<close> and \<open>free\<close> as arguments. The locale \<open>heap_allocator\<close>
  states what the library needs of them. A freed node leaves the store: a later access to it
  is a \<open>BadAccess\<close>.
\<close>

subsection \<open>State and operations\<close>

record ListElem =
  elem_prev :: addr
  elem_next :: addr
  elem_data :: addr

record 'h list_heap =
  lheap :: 'h
  lnodes :: "addr \<rightharpoonup> ListElem"

type_synonym 'h alloc_op = "int \<Rightarrow> 'h \<Rightarrow> (addr \<times> 'h) exec"
type_synonym 'h free_op = "addr \<Rightarrow> 'h \<Rightarrow> 'h exec"

abbreviation sizeof_ListElem :: int where
  "sizeof_ListElem \<equiv> 12"

definition ListCreate ::
  "'h alloc_op \<Rightarrow> ('h, 'z) list_heap_scheme \<Rightarrow> (addr \<times> ('h, 'z) list_heap_scheme) exec" where
  "ListCreate alloc s = andThen (alloc sizeof_ListElem (lheap s)) (\<lambda>(list, h).
     if list = nullptr then ret (nullptr, s\<lparr>lheap := h\<rparr>)
     else ret (list, s\<lparr>lheap := h,
       lnodes := (lnodes s)(list \<mapsto> \<lparr>elem_prev = nullptr, elem_next = nullptr, elem_data = nullptr\<rparr>)\<rparr>))"

text \<open>\<^verbatim>\<open>HeapFree\<close> of a node.\<close>

definition free_node ::
  "'h free_op \<Rightarrow> addr \<Rightarrow> ('h, 'z) list_heap_scheme \<Rightarrow> ('h, 'z) list_heap_scheme exec" where
  "free_node free p s = andThen (free p (lheap s)) (\<lambda>h.
     ret (s\<lparr>lheap := h, lnodes := (lnodes s)(p := None)\<rparr>))"

partial_function (option) ListDestroyEx_loop ::
  "'h free_op \<Rightarrow> (addr \<Rightarrow> ('h, 'z) list_heap_scheme \<Rightarrow> ('h, 'z) list_heap_scheme exec) option \<Rightarrow>
   addr \<Rightarrow> addr \<Rightarrow> ('h, 'z) list_heap_scheme \<Rightarrow> ('h, 'z) list_heap_scheme exec" where
  "ListDestroyEx_loop free cleaner elem nxt s =
     (if elem = nullptr then ret s
      else andThen
        (case cleaner of None \<Rightarrow> ret s
         | Some clean \<Rightarrow> andThen (deref (lnodes s) elem) (\<lambda>e.
             if elem_data e \<noteq> nullptr then clean (elem_data e) s else ret s)) (\<lambda>s1.
        andThen (free_node free elem s1) (\<lambda>s2.
          if nxt \<noteq> nullptr then andThen (deref (lnodes s2) nxt) (\<lambda>e.
               ListDestroyEx_loop free cleaner nxt (elem_next e) s2)
          else ListDestroyEx_loop free cleaner nxt nxt s2)))"

definition ListDestroyEx ::
  "'h free_op \<Rightarrow> addr \<Rightarrow> (addr \<Rightarrow> ('h, 'z) list_heap_scheme \<Rightarrow> ('h, 'z) list_heap_scheme exec) option \<Rightarrow>
   ('h, 'z) list_heap_scheme \<Rightarrow> ('h, 'z) list_heap_scheme exec" where
  "ListDestroyEx free list cleaner s =
     (if list = nullptr then ret s
      else andThen (deref (lnodes s) list) (\<lambda>e.
        ListDestroyEx_loop free cleaner list (elem_next e) s))"

definition ListDestroy ::
  "'h free_op \<Rightarrow> addr \<Rightarrow> ('h, 'z) list_heap_scheme \<Rightarrow> ('h, 'z) list_heap_scheme exec" where
  "ListDestroy free list s = ListDestroyEx free list None s"

text \<open>The loop of \<^verbatim>\<open>ListPush\<close> that walks to the last node.\<close>

partial_function (option) last_elem :: "(addr \<rightharpoonup> ListElem) \<Rightarrow> addr \<Rightarrow> addr exec" where
  "last_elem m elem = andThen (deref m elem) (\<lambda>e.
     if elem_next e \<noteq> nullptr then last_elem m (elem_next e) else ret elem)"

definition ListPush ::
  "'h alloc_op \<Rightarrow> addr \<Rightarrow> addr \<Rightarrow> ('h, 'z) list_heap_scheme \<Rightarrow> ('h, 'z) list_heap_scheme exec" where
  "ListPush alloc list data s =
     (if list = nullptr then ret s
      else andThen (deref (lnodes s) list) (\<lambda>first.
        if elem_data first = nullptr
        then ret (s\<lparr>lnodes := (lnodes s)(list \<mapsto> first\<lparr>elem_data := data\<rparr>)\<rparr>)
        else andThen (last_elem (lnodes s) list) (\<lambda>elem.
          andThen (deref (lnodes s) elem) (\<lambda>e.
          andThen (alloc sizeof_ListElem (lheap s)) (\<lambda>(new, h).
            let m = (lnodes s)(elem \<mapsto> e\<lparr>elem_next := new\<rparr>) in
            if new = nullptr then ret (s\<lparr>lheap := h, lnodes := m\<rparr>)
            else ret (s\<lparr>lheap := h,
              lnodes := m(new \<mapsto> \<lparr>elem_prev = elem, elem_next = nullptr, elem_data = data\<rparr>)\<rparr>))))))"

fun ListGet_loop :: "(addr \<rightharpoonup> ListElem) \<Rightarrow> addr \<Rightarrow> nat \<Rightarrow> (addr \<times> nat) exec" where
  "ListGet_loop m list 0 = ret (list, 0)"
| "ListGet_loop m list (Suc index) =
     andThen (deref m list) (\<lambda>e.
     andThen (deref m (elem_next e)) (\<lambda>e'.
       if elem_next e' = nullptr then ret (elem_next e, index)
       else ListGet_loop m (elem_next e) index))"

definition ListGet :: "addr \<Rightarrow> nat \<Rightarrow> ('h, 'z) list_heap_scheme \<Rightarrow> addr exec" where
  "ListGet list index s =
     (if list = nullptr then ret nullptr
      else andThen (ListGet_loop (lnodes s) list index) (\<lambda>(elem, rest).
        if rest = 0 then andThen (deref (lnodes s) elem) (\<lambda>e. ret (elem_data e))
        else ret nullptr))"

definition ListTop :: "addr \<Rightarrow> ('h, 'z) list_heap_scheme \<Rightarrow> addr exec" where
  "ListTop list s =
     (if list = nullptr then ret nullptr
      else andThen (deref (lnodes s) list) (\<lambda>e. ret (elem_data e)))"

text \<open>
  \<^verbatim>\<open>ListPop\<close> takes the address of the caller's list variable (\<open>None\<close>: a null
  address) and returns the data, the new value of the variable and the state.
\<close>

definition ListPop ::
  "'h free_op \<Rightarrow> addr option \<Rightarrow> ('h, 'z) list_heap_scheme \<Rightarrow>
   (addr \<times> addr option \<times> ('h, 'z) list_heap_scheme) exec" where
  "ListPop free listp s = (case listp of
     None \<Rightarrow> ret (nullptr, None, s)
   | Some list \<Rightarrow>
       if list = nullptr then ret (nullptr, Some list, s)
       else andThen (deref (lnodes s) list) (\<lambda>e.
         if elem_data e = nullptr then ret (nullptr, Some list, s)
         else if elem_next e \<noteq> nullptr
         then andThen (free_node free list s) (\<lambda>s'. ret (elem_data e, Some (elem_next e), s'))
         else ret (elem_data e, Some list,
           s\<lparr>lnodes := (lnodes s)(list \<mapsto> e\<lparr>elem_data := nullptr\<rparr>)\<rparr>)))"

definition ListIsEmpty :: "addr \<Rightarrow> ('h, 'z) list_heap_scheme \<Rightarrow> bool exec" where
  "ListIsEmpty list s =
     (if list = nullptr then ret True
      else andThen (deref (lnodes s) list) (\<lambda>e.
        ret (elem_data e = nullptr \<and> elem_next e = nullptr)))"

text \<open>
  \<^verbatim>\<open>ListEnumerate\<close>: the callback gets the data of each node and the context, which it
  may change; it does not touch the nodes.
\<close>

partial_function (option) ListEnumerate_loop ::
  "(addr \<Rightarrow> 'c \<Rightarrow> (KeStatus \<times> 'c) exec) \<Rightarrow> (addr \<rightharpoonup> ListElem) \<Rightarrow> addr \<Rightarrow> addr \<Rightarrow> 'c \<Rightarrow>
   (KeStatus \<times> 'c) exec" where
  "ListEnumerate_loop callback m elem nxt ctx =
     (if elem = nullptr then ret (STATUS_SUCCESS, ctx)
      else andThen (deref m elem) (\<lambda>e.
        andThen (callback (elem_data e) ctx) (\<lambda>(status, ctx').
          if FAILED status
          then ret (if status = STATUS_LIST_STOP_ITERATING then STATUS_SUCCESS else status, ctx')
          else if nxt \<noteq> nullptr
          then andThen (deref m nxt) (\<lambda>e'. ListEnumerate_loop callback m nxt (elem_next e') ctx')
          else ListEnumerate_loop callback m nxt nxt ctx')))"

definition ListEnumerate ::
  "addr \<Rightarrow> (addr \<Rightarrow> 'c \<Rightarrow> (KeStatus \<times> 'c) exec) option \<Rightarrow> 'c \<Rightarrow>
   ('h, 'z) list_heap_scheme \<Rightarrow> (KeStatus \<times> 'c) exec" where
  "ListEnumerate list callback ctx s =
     (if list = nullptr then ret (STATUS_NULL_PARAMETER, ctx)
      else case callback of None \<Rightarrow> ret (STATUS_NULL_PARAMETER, ctx)
      | Some cb \<Rightarrow> andThen (ListIsEmpty list s) (\<lambda>empty.
          if empty then ret (STATUS_SUCCESS, ctx)
          else andThen (deref (lnodes s) list) (\<lambda>e.
            ListEnumerate_loop cb (lnodes s) list (elem_next e) ctx)))"

subsection \<open>Chains of nodes\<close>

lemma chain_snoc:
  assumes "chain elem_next m p (ps @ [a])" and "m a = Some e" and "q \<notin> set (ps @ [a])" and "q \<noteq> nullptr"
  shows "chain elem_next (m(a \<mapsto> e\<lparr>elem_next := q\<rparr>, q \<mapsto> \<lparr>elem_prev = b, elem_next = nullptr, elem_data = d\<rparr>)) p
           (ps @ [a, q])"
  using assms chain_distinct [OF assms(1)]
  by (induction ps arbitrary: p) (auto split: option.splits)


subsection \<open>The list a chain stands for\<close>

definition node_data :: "(addr \<rightharpoonup> ListElem) \<Rightarrow> addr \<Rightarrow> addr" where
  "node_data m a = elem_data (the (m a))"

lemma map_node_data_upd_other [simp]:
  "a \<notin> set ps \<Longrightarrow> map (node_data (m(a := v))) ps = map (node_data m) ps"
  by (intro map_cong) (auto simp: node_data_def)

lemma node_data_upd_same [simp]: "node_data (m(a \<mapsto> e)) a = elem_data e"
  by (simp add: node_data_def)

text \<open>
  An empty list is one node without data; otherwise every node holds one element. The data is a
  pointer and never null.
\<close>

definition list_rep :: "(addr \<rightharpoonup> ListElem) \<Rightarrow> addr \<Rightarrow> addr list \<Rightarrow> addr list \<Rightarrow> bool" where
  "list_rep m p ps xs \<longleftrightarrow> chain elem_next m p ps \<and> nullptr \<notin> set xs \<and>
     map (node_data m) ps = (if xs = [] then [nullptr] else xs)"

lemma list_repD:
  assumes "list_rep m p ps xs"
  shows "chain elem_next m p ps" "ps \<noteq> []" "p \<noteq> nullptr" "p = hd ps" "nullptr \<notin> set xs"
    "map (node_data m) ps = (if xs = [] then [nullptr] else xs)"
proof -
  show "chain elem_next m p ps" "nullptr \<notin> set xs" "map (node_data m) ps = (if xs = [] then [nullptr] else xs)"
    using assms by (auto simp: list_rep_def)
  then show "ps \<noteq> []" by (auto split: if_splits)
  with \<open>chain elem_next m p ps\<close> show "p \<noteq> nullptr" "p = hd ps" by (cases ps; auto)+
qed

lemma list_rep_unique:
  assumes "list_rep m p ps xs" and "list_rep m p qs ys"
  shows "ps = qs \<and> xs = ys"
proof -
  have "ps = qs" using assms by (meson chain_unique list_repD(1))
  with assms show ?thesis by (auto simp: list_rep_def split: if_splits)
qed

text \<open>The first node of a represented list.\<close>

lemma list_rep_head:
  assumes "list_rep m p ps xs"
  obtains e where "m p = Some e" "deref m p = ret e"
    "elem_data e = (if xs = [] then nullptr else hd xs)"
    "elem_next e = nullptr \<longleftrightarrow> length xs \<le> 1" "chain elem_next m (elem_next e) (tl ps)"
proof -
  note r = list_repD [OF assms]
  then obtain e where e: "m p = Some e" "chain elem_next m (elem_next e) (tl ps)"
    by (cases ps) (auto split: option.splits)
  have ne: "p \<noteq> nullptr" by (rule r(3))
  have len: "length ps = (if xs = [] then 1 else length xs)" using r(6) by (metis length_map length_Cons list.size(3) One_nat_def)
  have "hd (map (node_data m) ps) = elem_data e"
    using r(2,4) e(1) by (simp add: hd_map node_data_def)
  then have d: "elem_data e = (if xs = [] then nullptr else hd xs)" unfolding r(6) by auto
  have "elem_next e = nullptr \<longleftrightarrow> tl ps = []"
    using e(2) by (cases "elem_next e = nullptr") (auto simp: chain_nonnull)
  also have "\<dots> \<longleftrightarrow> length xs \<le> 1"
    using len r(2) by (cases ps; cases xs) auto
  finally show thesis using that e d ne by simp
qed

lemma ListTop_rep:
  "list_rep (lnodes s) p ps xs \<Longrightarrow> ListTop p s = ret (if xs = [] then nullptr else hd xs)"
  by (erule list_rep_head) (simp add: ListTop_def deref_eq_ret_iff)

lemma ListIsEmpty_rep: "list_rep (lnodes s) p ps xs \<Longrightarrow> ListIsEmpty p s = ret (xs = [])"
  using list_repD(5) [of "lnodes s" p ps xs]
  by (cases xs) (auto elim!: list_rep_head simp: ListIsEmpty_def deref_eq_ret_iff split: if_splits)

lemma last_elem_chain: "chain elem_next m p ps \<Longrightarrow> ps \<noteq> [] \<Longrightarrow> last_elem m p = ret (last ps)"
proof (induction ps arbitrary: p)
  case (Cons a ps)
  then obtain e where e: "m a = Some e" "chain elem_next m (elem_next e) ps" "p = a" "a \<noteq> nullptr"
    by (auto split: option.splits)
  show ?case
  proof (cases ps)
    case Nil
    with e show ?thesis by (subst last_elem.simps) simp
  next
    case (Cons b bs)
    with e have "elem_next e \<noteq> nullptr" by auto
    with e Cons.IH [of "elem_next e"] \<open>ps = b # bs\<close> show ?thesis
      by (subst last_elem.simps) simp
  qed
qed simp

text \<open>Going \<open>i\<close> nodes down a chain.\<close>

lemma ListGet_loop_chain:
  assumes "chain elem_next m p ps" and "2 \<le> length ps \<or> i < length ps" and "ps \<noteq> []"
  shows "ListGet_loop m p i =
    ret (if i < length ps then (ps ! i, 0) else (last ps, i - (length ps - 1)))"
  using assms
proof (induction i arbitrary: p ps)
  case 0
  then show ?case by (cases ps) auto
next
  case (Suc i)
  from Suc.prems obtain a b bs where ps: "ps = a # b # bs"
    by (cases ps; cases "tl ps") auto
  from Suc.prems(1) obtain e e' where e: "m a = Some e" "elem_next e = b" "m b = Some e'"
      "p = a" "a \<noteq> nullptr" "b \<noteq> nullptr" "chain elem_next m b (b # bs)" "chain elem_next m (elem_next e') bs"
    unfolding ps by (auto split: option.splits)
  show ?case
  proof (cases bs)
    case Nil
    with e ps show ?thesis by auto
  next
    case (Cons c cs)
    then have "elem_next e' \<noteq> nullptr" using e(8) by auto
    moreover have "ListGet_loop m b i =
        ret (if i < length (b # bs) then ((b # bs) ! i, 0) else (last (b # bs), i - (length (b # bs) - 1)))"
      using e(7) Cons by (intro Suc.IH) auto
    ultimately show ?thesis using e ps by auto
  qed
qed

lemma ListGet_rep:
  assumes "list_rep (lnodes s) p ps xs" and "i < length xs"
  shows "ListGet p i s = ret (xs ! i)"
proof -
  note r = list_repD [OF assms(1)]
  have len: "length ps = length xs" using r(6) assms(2) by (metis length_map list.size(3) not_less0)
  have "ps ! i \<noteq> nullptr" using chain_not_null [OF r(1)] len assms(2) by (metis nth_mem)
  moreover have "ps ! i \<in> dom (lnodes s)" using chain_dom [OF r(1)] len assms(2) by (metis nth_mem subsetD)
  moreover have "node_data (lnodes s) (ps ! i) = xs ! i"
    using r(6) assms(2) len by (metis list.size(3) not_less0 nth_map)
  ultimately show ?thesis
    using ListGet_loop_chain [OF r(1) _ r(2), of i] len assms(2) r(3)
    by (auto simp: ListGet_def node_data_def)
qed

lemma ListGet_past_end:
  assumes "list_rep (lnodes s) p ps xs" and "length xs \<le> i"
  shows "2 \<le> length xs \<Longrightarrow> ListGet p i s = ret nullptr"
    and "length xs \<le> 1 \<Longrightarrow> 1 \<le> i \<Longrightarrow> ListGet p i s = halt BadAccess"
proof -
  note r = list_repD [OF assms(1)]
  show "ListGet p i s = ret nullptr" if "2 \<le> length xs"
  proof -
    have "length ps = length xs" using r(6) that by (metis length_map list.size(3) not_numeral_le_zero)
    then show ?thesis using ListGet_loop_chain [OF r(1) _ r(2), of i] assms(2) r(3) that
      by (auto simp: ListGet_def)
  qed
  show "ListGet p i s = halt BadAccess" if "length xs \<le> 1" "1 \<le> i"
  proof -
    note short = that
    obtain e where "deref (lnodes s) p = ret e" "elem_next e = nullptr"
      using short(1) by (metis list_rep_head [OF assms(1)])
    then show ?thesis using r(3) short(2) by (cases i) (auto simp: ListGet_def)
  qed
qed

subsection \<open>Enumeration\<close>

text \<open>What an enumeration does with the elements: one call each, until a call fails.\<close>

fun enumerate_list ::
  "(addr \<Rightarrow> 'c \<Rightarrow> (KeStatus \<times> 'c) exec) \<Rightarrow> addr list \<Rightarrow> 'c \<Rightarrow> (KeStatus \<times> 'c) exec" where
  "enumerate_list cb [] ctx = ret (STATUS_SUCCESS, ctx)"
| "enumerate_list cb (x # xs) ctx = andThen (cb x ctx) (\<lambda>(status, ctx').
     if FAILED status
     then ret (if status = STATUS_LIST_STOP_ITERATING then STATUS_SUCCESS else status, ctx')
     else enumerate_list cb xs ctx')"

lemma ListEnumerate_loop_chain:
  assumes "chain elem_next m p ps" and "p \<noteq> nullptr \<Longrightarrow> nxt = elem_next (the (m p))"
    and "p = nullptr \<Longrightarrow> nxt = nullptr"
  shows "ListEnumerate_loop cb m p nxt ctx = enumerate_list cb (map (node_data m) ps) ctx"
  using assms
proof (induction ps arbitrary: p nxt ctx)
  case Nil
  then show ?case by (subst ListEnumerate_loop.simps) simp
next
  case (Cons a ps)
  from Cons.prems(1) obtain e where e: "m a = Some e" "chain elem_next m (elem_next e) ps" "p = a" "a \<noteq> nullptr"
    by (auto split: option.splits)
  have nxt: "nxt = elem_next e" using Cons.prems(2) e by simp
  have rec: "(if nxt \<noteq> nullptr
        then andThen (deref m nxt) (\<lambda>e'. ListEnumerate_loop cb m nxt (elem_next e') c)
        else ListEnumerate_loop cb m nxt nxt c) = enumerate_list cb (map (node_data m) ps) c" for c
  proof (cases "nxt = nullptr")
    case True
    with Cons.IH [of nullptr nullptr c] e(2) nxt show ?thesis by auto
  next
    case False
    then obtain e' where "m nxt = Some e'" using e(2) nxt by (auto simp: chain_nonnull)
    with False Cons.IH [of nxt "elem_next e'" c] e(2) nxt show ?thesis by auto
  qed
  show ?case
    by (subst ListEnumerate_loop.simps, unfold rec) (simp add: e node_data_def)
qed

lemma ListEnumerate_rep:
  assumes "list_rep (lnodes s) p ps xs"
  shows "ListEnumerate p (Some cb) ctx s = enumerate_list cb xs ctx"
proof -
  note r = list_repD [OF assms]
  obtain e where e: "lnodes s p = Some e" "deref (lnodes s) p = ret e"
    using list_rep_head [OF assms] by metis
  have "ListEnumerate_loop cb (lnodes s) p (elem_next e) ctx =
      enumerate_list cb (map (node_data (lnodes s)) ps) ctx"
    using r(3) e by (intro ListEnumerate_loop_chain [OF r(1)]) auto
  then show ?thesis
    using r(3,6) e by (simp add: ListEnumerate_def ListIsEmpty_rep [OF assms])
qed

text \<open>The common use: stop at the first element that satisfies a test and record it.\<close>

lemma enumerate_list_find:
  assumes "\<And>x. x \<in> set xs \<Longrightarrow>
    cb x c = ret (if P x then (STATUS_LIST_STOP_ITERATING, f x) else (STATUS_SUCCESS, c))"
  shows "enumerate_list cb xs c =
    ret (STATUS_SUCCESS, case List.find P xs of None \<Rightarrow> c | Some x \<Rightarrow> f x)"
  using assms by (induction xs) (auto simp: FAILED_def)

lemma ListEnumerate_null [simp]:
  "ListEnumerate nullptr cb ctx s = ret (STATUS_NULL_PARAMETER, ctx)"
  by (simp add: ListEnumerate_def)

subsection \<open>The interface to the heap\<close>

text \<open>
  What the list library relies on: the heap hands out non-null pointers that are not in use, and
  gives back what it handed out. \<open>live\<close> is the set of pointers in use. \<open>ready ns\<close> says that
  there are resources for allocations of the sizes \<open>ns\<close>, one after the other. Giving back needs the heap to be \<open>mergeable\<close>, which
  giving back keeps.
\<close>

locale heap_allocator =
  fixes alloc :: "'h alloc_op"
    and free :: "'h free_op"
    and live :: "'h \<Rightarrow> addr set"
    and invar :: "'h \<Rightarrow> bool"
    and ready :: "int list \<Rightarrow> 'h \<Rightarrow> bool"
    and mergeable :: "'h \<Rightarrow> bool"
  assumes alloc_safe:
      "invar h \<Longrightarrow> 0 < n \<Longrightarrow> n < 2147483648 \<Longrightarrow> ready (n # ns) h \<Longrightarrow> safe (alloc n h)"
    and alloc_fresh:
      "invar h \<Longrightarrow> 0 < n \<Longrightarrow> n < 2147483648 \<Longrightarrow> ready (n # ns) h \<Longrightarrow> alloc n h = ret (p, h') \<Longrightarrow>
        p \<noteq> nullptr \<and> p \<notin> live h \<and> live h' = insert p (live h) \<and> invar h' \<and> ready ns h'"
    and free_live:
      "invar h \<Longrightarrow> mergeable h \<Longrightarrow> p \<in> live h \<Longrightarrow>
        \<exists>h'. free p h = ret h' \<and> live h' = live h - {p} \<and> invar h' \<and> mergeable h' \<and>
          (\<forall>ns. ready ns h \<longrightarrow> ready ns h')"
    and ready_later: "ready (n # ns) h \<Longrightarrow> ready ns h"

text \<open>A list store is sound when its nodes are live heap objects.\<close>

definition list_heap_ok ::
  "('h \<Rightarrow> bool) \<Rightarrow> ('h \<Rightarrow> addr set) \<Rightarrow> ('h, 'z) list_heap_scheme \<Rightarrow> bool" where
  "list_heap_ok invar live s \<longleftrightarrow> invar (lheap s) \<and> dom (lnodes s) \<subseteq> live (lheap s) \<and> nullptr \<notin> dom (lnodes s)"

text \<open>Only the nodes in \<open>A\<close> may have changed; nothing outside the list store has.\<close>

definition nodes_change ::
  "addr set \<Rightarrow> ('h, 'z) list_heap_scheme \<Rightarrow> ('h, 'z) list_heap_scheme \<Rightarrow> bool" where
  "nodes_change A s s' \<longleftrightarrow> (\<forall>a. a \<notin> A \<longrightarrow> lnodes s' a = lnodes s a) \<and> list_heap.more s' = list_heap.more s"

lemma list_rep_frame:
  assumes "nodes_change A s s'" and "list_rep (lnodes s) p ps xs" and "set ps \<inter> A = {}"
  shows "list_rep (lnodes s') p ps xs"
proof -
  have same: "\<And>a. a \<in> set ps \<Longrightarrow> lnodes s' a = lnodes s a"
    using assms(1,3) by (auto simp: nodes_change_def)
  then have "chain elem_next (lnodes s') p ps = chain elem_next (lnodes s) p ps" by (intro chain_cong) auto
  moreover have "map (node_data (lnodes s')) ps = map (node_data (lnodes s)) ps"
    by (intro map_cong) (auto simp: same node_data_def)
  ultimately show ?thesis using assms(2) unfolding list_rep_def by metis
qed

context heap_allocator
begin

lemma node_alloc:
  assumes "list_heap_ok invar live s" and "ready (sizeof_ListElem # ns) (lheap s)"
    and "alloc sizeof_ListElem (lheap s) = ret (p, h)"
  shows "p \<noteq> nullptr" "lnodes s p = None" "p \<notin> live (lheap s)" "live h = insert p (live (lheap s))" "invar h"
    "ready ns h"
proof -
  have "p \<noteq> nullptr \<and> p \<notin> live (lheap s) \<and> live h = insert p (live (lheap s)) \<and> invar h \<and> ready ns h"
    using assms by (intro alloc_fresh) (auto simp: list_heap_ok_def)
  moreover then have "p \<notin> dom (lnodes s)" using assms(1) by (auto simp: list_heap_ok_def)
  ultimately show "p \<noteq> nullptr" "lnodes s p = None" "p \<notin> live (lheap s)"
      "live h = insert p (live (lheap s))" "invar h" "ready ns h" by auto
qed

lemma create_safe:
  "list_heap_ok invar live s \<Longrightarrow> ready (sizeof_ListElem # ns) (lheap s) \<Longrightarrow> safe (ListCreate alloc s)"
  unfolding ListCreate_def
  by (intro safe_andThen alloc_safe) (auto simp: list_heap_ok_def split: prod.splits)

lemma create_rep:
  assumes "list_heap_ok invar live s" and "ready (sizeof_ListElem # ns) (lheap s)" and "ListCreate alloc s = ret (p, s')"
  shows "list_rep (lnodes s') p [p] [] \<and> list_heap_ok invar live s' \<and> nodes_change {p} s s' \<and>
    p \<notin> live (lheap s) \<and> live (lheap s') = insert p (live (lheap s)) \<and> ready ns (lheap s')"
proof -
  obtain q h where a: "alloc sizeof_ListElem (lheap s) = ret (q, h)"
    using assms(3) by (auto simp: ListCreate_def andThen_eq_ret_iff)
  note n = node_alloc [OF assms(1,2) a]
  have "p = q" "s' = s\<lparr>lheap := h,
      lnodes := (lnodes s)(q \<mapsto> \<lparr>elem_prev = nullptr, elem_next = nullptr, elem_data = nullptr\<rparr>)\<rparr>"
    using assms(3) a n(1) by (auto simp: ListCreate_def)
  then show ?thesis
    using n assms(1)
    by (auto simp: list_rep_def node_data_def list_heap_ok_def nodes_change_def)
qed

lemma push_safe:
  assumes "list_heap_ok invar live s" and "list_rep (lnodes s) p ps xs" and "ready (sizeof_ListElem # ns) (lheap s)"
  shows "safe (ListPush alloc p d s)"
proof -
  note r = list_repD [OF assms(2)]
  obtain e where e: "deref (lnodes s) p = ret e" using list_rep_head [OF assms(2)] by metis
  have "last ps \<in> dom (lnodes s)" using chain_dom [OF r(1)] r(2) by (metis last_in_set subsetD)
  moreover have "last ps \<noteq> nullptr" using chain_not_null [OF r(1)] r(2) by (metis last_in_set)
  ultimately obtain l where l: "deref (lnodes s) (last ps) = ret l" by auto
  show ?thesis
    unfolding ListPush_def
    using r(3) e l last_elem_chain [OF r(1,2)] assms(1,3)
    by (auto intro!: safe_andThen alloc_safe simp: Let_def list_heap_ok_def)
qed

lemma push_rep:
  assumes ok: "list_heap_ok invar live s" and rep: "list_rep (lnodes s) p ps xs" and "d \<noteq> nullptr"
    and ready: "ready (sizeof_ListElem # ns) (lheap s)"
    and push: "ListPush alloc p d s = ret s'"
  shows "\<exists>new. set new \<inter> live (lheap s) = {} \<and> live (lheap s') = set new \<union> live (lheap s) \<and>
    list_rep (lnodes s') p (ps @ new) (xs @ [d]) \<and> list_heap_ok invar live s' \<and>
    nodes_change (set ps \<union> set new) s s' \<and> ready ns (lheap s')"
proof (cases "xs = []")
  case True
  note r = list_repD [OF rep]
  obtain e where e: "lnodes s p = Some e" "deref (lnodes s) p = ret e" "elem_data e = nullptr"
    using list_rep_head [OF rep] True by metis
  have ps: "ps = [p]" using r(4,6) True by (cases ps) auto
  have s': "s' = s\<lparr>lnodes := (lnodes s)(p \<mapsto> e\<lparr>elem_data := d\<rparr>)\<rparr>"
    using push r(3) e by (simp add: ListPush_def)
  have "chain elem_next (lnodes s') p ps" using r(1) e(1) unfolding ps s' by simp
  then have "list_rep (lnodes s') p ps (xs @ [d])"
    using True \<open>d \<noteq> nullptr\<close> unfolding ps s' by (simp add: list_rep_def node_data_def)
  moreover have "list_heap_ok invar live s'" "nodes_change (set ps) s s'"
    using ok e(1) ps unfolding s' by (auto simp: list_heap_ok_def nodes_change_def)
  ultimately show ?thesis using ready_later [OF ready] by (intro exI [of _ "[]"]) (auto simp: s')
next
  case False
  note r = list_repD [OF rep]
  obtain e where e: "deref (lnodes s) p = ret e" "elem_data e \<noteq> nullptr"
    using list_rep_head [OF rep] r(5) False by (metis hd_in_set)
  obtain qs l where ps: "ps = qs @ [l]" using r(2) by (metis append_butlast_last_id)
  then obtain le where le: "lnodes s l = Some le" "l \<noteq> nullptr"
    using chain_dom [OF r(1)] chain_not_null [OF r(1)] by auto
  obtain q h where a: "alloc sizeof_ListElem (lheap s) = ret (q, h)"
    using push r(3) e le ps last_elem_chain [OF r(1,2)]
    by (auto simp: ListPush_def andThen_eq_ret_iff)
  note n = node_alloc [OF ok ready a]
  let ?new = "\<lparr>elem_prev = l, elem_next = nullptr, elem_data = d\<rparr>"
  have s': "s' = s\<lparr>lheap := h, lnodes := (lnodes s)(l \<mapsto> le\<lparr>elem_next := q\<rparr>, q \<mapsto> ?new)\<rparr>"
    using push r(3) e le ps a n(1) last_elem_chain [OF r(1,2)] by (simp add: ListPush_def Let_def)
  have qn: "q \<notin> set ps" using n(2) chain_dom [OF r(1)] by auto
  have ch: "chain elem_next (lnodes s') p (ps @ [q])"
    using chain_snoc [of "lnodes s" p qs l le q] r(1) le(1) qn n(1) unfolding s' ps by simp
  have lq: "l \<notin> set qs" "q \<noteq> l" "q \<notin> set qs" using chain_distinct [OF r(1)] qn ps by auto
  have "map (node_data (lnodes s')) ps = map (node_data (lnodes s)) ps"
    using lq le(1) by (simp add: s' ps) (simp add: node_data_def)
  then have data: "map (node_data (lnodes s')) (ps @ [q]) = xs @ [d]"
    using r(6) False by (simp add: s')
  have "list_rep (lnodes s') p (ps @ [q]) (xs @ [d])"
    using ch data r(5) \<open>d \<noteq> nullptr\<close> by (simp add: list_rep_def)
  moreover have "list_heap_ok invar live s'" "nodes_change (set ps \<union> {q}) s s'"
    using ok n le(1) ps unfolding s' by (auto simp: list_heap_ok_def nodes_change_def)
  ultimately show ?thesis using n by (intro exI [of _ "[q]"]) (auto simp: s')
qed

lemma free_node_ok:
  assumes "list_heap_ok invar live s" and "p \<in> dom (lnodes s)" and "mergeable (lheap s)"
  shows "\<exists>s'. free_node free p s = ret s' \<and> list_heap_ok invar live s' \<and>
    lnodes s' = (lnodes s)(p := None) \<and> live (lheap s') = live (lheap s) - {p} \<and>
    list_heap.more s' = list_heap.more s \<and> mergeable (lheap s') \<and>
    (\<forall>ns. ready ns (lheap s) \<longrightarrow> ready ns (lheap s'))"
proof -
  obtain h where "free p (lheap s) = ret h" "live h = live (lheap s) - {p}" "invar h" "mergeable h"
      "\<forall>ns. ready ns (lheap s) \<longrightarrow> ready ns h"
    using assms free_live [of "lheap s" p] by (auto simp: list_heap_ok_def)
  with assms show ?thesis by (auto simp: free_node_def list_heap_ok_def)
qed

lemma pop_rep:
  assumes ok: "list_heap_ok invar live s" and rep: "list_rep (lnodes s) p ps (x # xs)"
    and mg: "mergeable (lheap s)"
  shows "\<exists>p' s'. ListPop free (Some p) s = ret (x, Some p', s') \<and>
    list_rep (lnodes s') p' (if xs = [] then ps else tl ps) xs \<and>
    list_heap_ok invar live s' \<and> nodes_change {p} s s'"
proof -
  note r = list_repD [OF rep]
  obtain e where e: "lnodes s p = Some e" "deref (lnodes s) p = ret e" "elem_data e = x"
      "elem_next e = nullptr \<longleftrightarrow> xs = []" "chain elem_next (lnodes s) (elem_next e) (tl ps)"
    using list_rep_head [OF rep] by (metis One_nat_def length_0_conv length_Cons list.sel(1) list.distinct(1) not_less_eq_eq le_zero_eq)
  have x: "x \<noteq> nullptr" using r(5) by auto
  obtain qs where ps: "ps = p # qs" using r(2,4) by (cases ps) auto
  have pq: "p \<notin> set qs" using chain_distinct [OF r(1)] ps by simp
  show ?thesis
  proof (cases "xs = []")
    case True
    let ?s' = "s\<lparr>lnodes := (lnodes s)(p \<mapsto> e\<lparr>elem_data := nullptr\<rparr>)\<rparr>"
    have "ListPop free (Some p) s = ret (x, Some p, ?s')"
      using e r(3) x True by (simp add: ListPop_def)
    moreover have "list_rep (lnodes ?s') p ps []"
      using True r(1,6) e(1) ps pq by (auto simp: list_rep_def node_data_def split: if_splits)
    moreover have "list_heap_ok invar live ?s'" "nodes_change {p} s ?s'"
      using ok e(1) by (auto simp: list_heap_ok_def nodes_change_def)
    ultimately show ?thesis using True by (intro exI [of _ p] exI [of _ ?s']) auto
  next
    case False
    obtain s' where s': "free_node free p s = ret s'" "list_heap_ok invar live s'"
        "lnodes s' = (lnodes s)(p := None)" "list_heap.more s' = list_heap.more s"
      using free_node_ok [OF ok _ mg, of p] e(1) by blast
    have "ListPop free (Some p) s = ret (x, Some (elem_next e), s')"
      using e r(3) x False s'(1) by (simp add: ListPop_def)
    moreover have "map (node_data (lnodes s')) qs = xs"
      using r(6) pq ps s'(3) by simp
    then have "list_rep (lnodes s') (elem_next e) qs xs"
      using False r(5) e(5) ps pq s'(3) by (simp add: list_rep_def)
    moreover have "nodes_change {p} s s'" using s'(3,4) by (simp add: nodes_change_def)
    ultimately show ?thesis using False s'(2) ps by auto
  qed
qed

lemma pop_empty:
  assumes "list_rep (lnodes s) p ps []"
  shows "ListPop free (Some p) s = ret (nullptr, Some p, s)"
proof -
  obtain e where "deref (lnodes s) p = ret e" "elem_data e = nullptr"
    using list_rep_head [OF assms] by metis
  then show ?thesis using list_repD(3) [OF assms] by (simp add: ListPop_def)
qed

lemma destroy_loop_ok:
  assumes "list_heap_ok invar live s" and "chain elem_next (lnodes s) p ps"
    and "p \<noteq> nullptr \<Longrightarrow> nxt = elem_next (the (lnodes s p))" and "p = nullptr \<Longrightarrow> nxt = nullptr"
    and "mergeable (lheap s)"
  shows "\<exists>s'. ListDestroyEx_loop free None p nxt s = ret s' \<and> list_heap_ok invar live s' \<and>
    lnodes s' = lnodes s |` (- set ps) \<and> live (lheap s') = live (lheap s) - set ps"
  using assms
proof (induction ps arbitrary: p nxt s)
  case Nil
  then show ?case by (subst ListDestroyEx_loop.simps) (simp add: restrict_map_def)
next
  case (Cons a ps)
  from Cons.prems(2) obtain e where e: "lnodes s a = Some e" "chain elem_next (lnodes s) (elem_next e) ps"
      "p = a" "a \<noteq> nullptr"
    by (auto split: option.splits)
  have nxt: "nxt = elem_next e" using Cons.prems(3) e by simp
  have fresh: "a \<notin> set ps" using chain_distinct [OF Cons.prems(2)] by simp
  obtain s1 where s1: "free_node free a s = ret s1" "list_heap_ok invar live s1"
      "lnodes s1 = (lnodes s)(a := None)" "live (lheap s1) = live (lheap s) - {a}"
      "mergeable (lheap s1)"
    using free_node_ok [OF Cons.prems(1) _ Cons.prems(5), of a] e(1) by blast
  have ch: "chain elem_next (lnodes s1) nxt ps" using e(2) nxt fresh s1(3) by simp
  define n2 where "n2 = (if nxt = nullptr then nullptr else elem_next (the (lnodes s1 nxt)))"
  obtain s' where s': "ListDestroyEx_loop free None nxt n2 s1 = ret s'" "list_heap_ok invar live s'"
      "lnodes s' = lnodes s1 |` (- set ps)" "live (lheap s') = live (lheap s1) - set ps"
    using Cons.IH [OF s1(2) ch, of n2] s1(5) by (auto simp: n2_def)
  have "nxt \<noteq> nullptr \<Longrightarrow> \<exists>e'. lnodes s1 nxt = Some e'" using ch by (auto simp: chain_nonnull)
  then have "ListDestroyEx_loop free None p nxt s = ret s'"
    using s1(1) s'(1) e(3,4) by (subst ListDestroyEx_loop.simps) (auto simp: n2_def)
  moreover have "lnodes s' = lnodes s |` (- set (a # ps))"
    using s'(3) s1(3) by (auto simp: restrict_map_def)
  ultimately show ?case using s' s1 by auto
qed

lemma destroy_ok:
  assumes "list_heap_ok invar live s" and "list_rep (lnodes s) p ps xs" and "mergeable (lheap s)"
  shows "\<exists>s'. ListDestroy free p s = ret s' \<and> list_heap_ok invar live s' \<and>
    lnodes s' = lnodes s |` (- set ps) \<and> live (lheap s') = live (lheap s) - set ps"
proof -
  obtain e where e: "lnodes s p = Some e" "deref (lnodes s) p = ret e"
    using list_rep_head [OF assms(2)] by metis
  note r = list_repD [OF assms(2)]
  show ?thesis
    using destroy_loop_ok [OF assms(1) r(1), of "elem_next e"] r(3) e assms(3)
    by (auto simp: ListDestroy_def ListDestroyEx_def)
qed

end

end
