(* ===== verification/Heap_Blocks.thy ===== *)
theory Heap_Blocks
  imports Kernel_Heap Linked_List
begin

section \<open>The kernel heap: blocks\<close>

text \<open>
  The heap as a list of blocks, each a size and a state. Allocating is first fit on that list,
  freeing merges the block with the free blocks behind it; the operations of
  \<open>Kernel_Heap\<close> refine these list functions, whatever physical pages the heap lies on. The
  heap is an instance of the allocator the list library relies on.
\<close>


subsection \<open>Headers\<close>

lemma hdr_set_field [simp]:
  "hdr_size (set_field 0 31 n w) = take_bit 31 n" "hdr_used (set_field 0 31 n w) = hdr_used w"
  "hdr_size (set_flag 31 u w) = hdr_size w" "hdr_used (set_flag 31 u w) = u"
  by (auto simp: hdr_size_def hdr_used_def bit_set_field bit_take_bit_iff intro!: bit_word_eqI)

lemma hdr_size_lt: "unat (hdr_size w) < 2147483648"
proof -
  have "unat (take_bit 31 w) = take_bit 31 (unat w)" by (rule unsigned_take_bit_eq)
  also have "\<dots> < 2 ^ 31" by (rule take_bit_nat_less_exp)
  finally show ?thesis by (simp add: hdr_size_def)
qed

lemma take_bit_31_of_nat: "n < 2147483648 \<Longrightarrow> take_bit 31 (of_nat n :: u32) = of_nat n"
  by (rule u32_eqI) (simp add: unsigned_take_bit_eq unat_of_nat_u32 take_bit_nat_eq_self)

text \<open>The header at an address of a memory: size and state.\<close>

definition hdr_at :: "memory \<Rightarrow> nat \<Rightarrow> nat \<times> bool" where
  "hdr_at M a = (let w = read32 M (of_nat a) in (unat (hdr_size w), hdr_used w))"

text \<open>Two memories agree on the heap outside of \<open>n\<close> bytes from \<open>a\<close> on.\<close>

definition same_but :: "nat \<Rightarrow> nat \<Rightarrow> nat \<Rightarrow> memory \<Rightarrow> memory \<Rightarrow> bool" where
  "same_but L a n M M' \<longleftrightarrow> (\<forall>u. in_heap L u \<longrightarrow> \<not> (a \<le> unat u \<and> unat u < a + n) \<longrightarrow> M' u = M u)"

lemma same_butD: "same_but L a n M M' \<Longrightarrow> in_heap L u \<Longrightarrow> \<not> (a \<le> unat u \<and> unat u < a + n) \<Longrightarrow> M' u = M u"
  by (simp add: same_but_def)

lemma same_but_trans: "same_but L a n M M1 \<Longrightarrow> same_but L a n M1 M2 \<Longrightarrow> same_but L a n M M2"
  by (simp add: same_but_def)

lemma same_but_mono: "same_but L a n M M' \<Longrightarrow> b \<le> a \<Longrightarrow> a + n \<le> b + k \<Longrightarrow> same_but L b k M M'"
  by (auto simp: same_but_def)

lemma same_but_refl [simp]: "same_but L a n M M"
  by (simp add: same_but_def)

lemma hdr_at_cong:
  assumes "heap_range L a n" "4 \<le> n" "\<And>u. in_heap L u \<Longrightarrow> a \<le> unat u \<Longrightarrow> unat u < a + 4 \<Longrightarrow> M' u = M u"
  shows "hdr_at M' a = hdr_at M a"
proof -
  have "M' (of_nat a + of_nat i) = M (of_nat a + of_nat i)" if "i < 4" for i
    using heap_range_addr [OF assms(1), of i] that assms(2) by (intro assms(3)) auto
  from this [of 0] this [of 1] this [of 2] this [of 3]
  have "read32 M' (of_nat a) = read32 M (of_nat a)" by (intro read32_cong) auto
  then show ?thesis by (simp add: hdr_at_def)
qed

lemma hdr_at_same_but:
  assumes "same_but L b k M M'" "heap_range L a n" "4 \<le> n" "a + 4 \<le> b \<or> b + k \<le> a"
  shows "hdr_at M' a = hdr_at M a"
  by (rule hdr_at_cong [OF assms(2,3)]) (use assms(1,4) in \<open>auto intro: same_butD\<close>)

lemma read_hdr:
  assumes "heap_map L s" "heap_range L a n" "4 \<le> n" "hdr_at (view s) a = (k, u)"
  shows "\<exists>w. vread32 s (of_nat a) = ret w \<and> hdr_size w = of_nat k \<and> hdr_used w = u \<and> k < 2147483648"
proof -
  let ?w = "read32 (view s) (of_nat a)"
  have "k = unat (hdr_size ?w)" "u = hdr_used ?w" using assms(4) by (auto simp: hdr_at_def Let_def)
  then show ?thesis using vread32_heap [OF assms(1-3)] hdr_size_lt [of ?w] by auto
qed

lemma write_hdr:
  assumes "heap_map L s" "heap_range L a n" "4 \<le> n"
  shows "\<exists>s'. vwrite32 (of_nat a) w s = ret s' \<and> heap_upd L s s' \<and> same_but L a 4 (view s) (view s') \<and>
    hdr_at (view s') a = (unat (hdr_size w), hdr_used w)"
proof -
  obtain s' where s': "vwrite32 (of_nat a) w s = ret s'" "heap_upd L s s'"
      "agree L (view s') (write32 (view s) (of_nat a) w)"
    using vwrite32_heap [OF assms] by blast
  note v = heap_range_word [OF assms(2,3)]
  have ua: "unat (of_nat a + of_nat i :: addr) = a + i" if "i < 4" for i
    using heap_range_addr(1) [OF assms(2), of i] assms(3) that by simp
  have "view s' u = view s u" if u: "in_heap L u" "\<not> (a \<le> unat u \<and> unat u < a + 4)" for u
  proof -
    have "u \<noteq> of_nat a + of_nat i" if "i < 4" for i using ua [OF that] u(2) that by auto
    from this [of 0] this [of 1] this [of 2] this [of 3]
    have "write32 (view s) (of_nat a) w u = view s u" by (intro write32_other) auto
    then show ?thesis using s'(3) u(1) by (simp add: agree_def)
  qed
  then have "same_but L a 4 (view s) (view s')" by (simp add: same_but_def)
  moreover have "read32 (view s') (of_nat a) = read32 (write32 (view s) (of_nat a) w) (of_nat a)"
    using s'(3) v by (intro read32_cong) (simp_all add: agree_def)
  then have "hdr_at (view s') a = (unat (hdr_size w), hdr_used w)" by (simp add: hdr_at_def)
  ultimately show ?thesis using s'(1,2) by blast
qed

lemma write_size_ok:
  assumes "heap_map L s" "heap_range L a n" "4 \<le> n" "hdr_at (view s) a = (k, u)" "sz < 2147483648"
  shows "\<exists>s'. write_size (of_nat a) (of_nat sz) s = ret s' \<and> heap_upd L s s' \<and>
    same_but L a 4 (view s) (view s') \<and> hdr_at (view s') a = (sz, u)"
proof -
  obtain w where w: "vread32 s (of_nat a) = ret w" "hdr_used w = u" using read_hdr [OF assms(1-4)] by blast
  obtain s' where "vwrite32 (of_nat a) (set_field 0 31 (of_nat sz) w) s = ret s'" "heap_upd L s s'"
      "same_but L a 4 (view s) (view s')"
      "hdr_at (view s') a = (unat (hdr_size (set_field 0 31 (of_nat sz) w)), hdr_used (set_field 0 31 (of_nat sz) w))"
    using write_hdr [OF assms(1-3)] by blast
  then show ?thesis using w assms(5)
    by (auto simp: write_size_def take_bit_31_of_nat unat_of_nat_u32)
qed

lemma write_state_ok:
  assumes "heap_map L s" "heap_range L a n" "4 \<le> n" "hdr_at (view s) a = (k, u)"
  shows "\<exists>s'. write_state (of_nat a) v s = ret s' \<and> heap_upd L s s' \<and>
    same_but L a 4 (view s) (view s') \<and> hdr_at (view s') a = (k, v)"
proof -
  obtain w where w: "vread32 s (of_nat a) = ret w" "hdr_size w = of_nat k" "k < 2147483648"
    using read_hdr [OF assms] by blast
  obtain s' where "vwrite32 (of_nat a) (set_flag 31 v w) s = ret s'" "heap_upd L s s'"
      "same_but L a 4 (view s) (view s')"
      "hdr_at (view s') a = (unat (hdr_size w), v)"
    using write_hdr [OF assms(1-3), of "set_flag 31 v w"] unfolding hdr_set_field by blast
  moreover have "unat (hdr_size w) = k" using w(2,3) by (simp add: unat_of_nat_u32)
  ultimately show ?thesis using w(1) unfolding write_state_def by (metis andThen_ret)
qed

subsection \<open>Lists of blocks\<close>

type_synonym blocks = "(nat \<times> bool) list"

definition total :: "blocks \<Rightarrow> nat" where
  "total bs = sum_list (map fst bs)"

text \<open>From \<open>a\<close> on, memory holds the headers of the blocks \<open>bs\<close>, one behind the other.\<close>

fun tiles :: "memory \<Rightarrow> nat \<Rightarrow> blocks \<Rightarrow> bool" where
  "tiles M a [] \<longleftrightarrow> True"
| "tiles M a ((n, u) # bs) \<longleftrightarrow> 5 \<le> n \<and> hdr_at M a = (n, u) \<and> tiles M (a + n) bs"

lemma total_simps [simp]:
  "total [] = 0" "total ((n, u) # bs) = n + total bs" "total (xs @ ys) = total xs + total ys"
  by (simp_all add: total_def)

lemma tiles_append [simp]: "tiles M a (xs @ ys) \<longleftrightarrow> tiles M a xs \<and> tiles M (a + total xs) ys"
  by (induction xs arbitrary: a) (auto simp: add.assoc)

lemma tiles_cong:
  assumes "tiles M a bs" "heap_range L a (total bs)"
    and "\<And>u. in_heap L u \<Longrightarrow> a \<le> unat u \<Longrightarrow> unat u < a + total bs \<Longrightarrow> M' u = M u"
  shows "tiles M' a bs"
  using assms
proof (induction bs arbitrary: a)
  case (Cons b bs)
  obtain n u where b: "b = (n, u)" by (cases b)
  have "hdr_at M' a = hdr_at M a"
    by (rule hdr_at_cong [OF Cons.prems(2)]) (use Cons.prems b in auto)
  moreover have "tiles M' (a + n) bs"
    by (rule Cons.IH) (use Cons.prems b in \<open>auto simp: heap_range_def\<close>)
  ultimately show ?case using Cons.prems(1) b by simp
qed simp

lemma tiles_same_but:
  assumes "tiles M a bs" "heap_range L a (total bs)" "same_but L b k M M'" "a + total bs \<le> b \<or> b + k \<le> a"
  shows "tiles M' a bs"
  by (rule tiles_cong [OF assms(1,2)]) (use assms(3,4) in \<open>auto intro: same_butD\<close>)

subsection \<open>Arithmetic on heap addresses\<close>

lemma u32_of_nat_less: "a < 4294967296 \<Longrightarrow> b < 4294967296 \<Longrightarrow> (of_nat a :: u32) < of_nat b \<longleftrightarrow> a < b"
  by (simp add: word_less_nat_alt unat_of_nat_u32)

lemma u32_of_nat_le: "a < 4294967296 \<Longrightarrow> b < 4294967296 \<Longrightarrow> (of_nat a :: u32) \<le> of_nat b \<longleftrightarrow> a \<le> b"
  by (simp add: word_le_nat_alt unat_of_nat_u32)

lemma local_mod_eq:
  "0 < b \<Longrightarrow> b < 4294967296 \<Longrightarrow> a < 4294967296 \<Longrightarrow>
    local_mod (of_nat a) (of_nat b) = ret (if 0 < a \<and> b dvd a then 0 else 1)"
proof (induction a rule: less_induct)
  case (less a)
  show ?case
  proof (cases "b < a")
    case True
    have "local_mod (of_nat a) (of_nat b) = local_mod (of_nat (a - b)) (of_nat b)"
      using True less.prems by (subst local_mod.simps) (simp add: u32_of_nat_less)
    moreover have "b dvd a - b \<longleftrightarrow> b dvd a" using True by (simp add: dvd_minus_self)
    ultimately show ?thesis using less.IH [of "a - b"] less.prems True by simp
  next
    case False
    then have "(0 < a \<and> b dvd a) \<longleftrightarrow> a = b" using less.prems(1) by (auto dest: dvd_imp_le)
    then show ?thesis using False less.prems
      by (subst local_mod.simps) (auto simp: u32_of_nat_less)
  qed
qed

lemma ClosestPow_loop_returns:
  "0 < a \<Longrightarrow> a + k < 4294967296 \<Longrightarrow> 4 dvd a + k \<Longrightarrow> k < 4 \<Longrightarrow>
    ClosestPow_loop (of_nat a) 4 = ret (of_nat (a + k))"
proof (induction k arbitrary: a)
  case 0
  then show ?case using local_mod_eq [of 4 a] by (subst ClosestPow_loop.simps) simp
next
  case (Suc k)
  have "\<not> 4 dvd a"
  proof
    assume "4 dvd a"
    then have "4 dvd Suc k" using Suc.prems(3) by (metis dvd_add_right_iff)
    then show False using Suc.prems(4) by (auto dest: dvd_imp_le)
  qed
  then have "local_mod (of_nat a) 4 = ret 1" using local_mod_eq [of 4 a] Suc.prems by simp
  moreover have "ClosestPow_loop (of_nat (a + 1)) 4 = ret (of_nat (a + 1 + k))"
    using Suc.prems by (intro Suc.IH) auto
  ultimately show ?case by (subst ClosestPow_loop.simps) (simp add: add.commute)
qed

text \<open>The rounding terminates: it returns the next multiple of 4.\<close>

lemma ClosestPow_returns:
  assumes "0 < a" "a < 4294967290"
  shows "ClosestPow (of_nat a) 4 = ret (of_nat (4 * ((a + 3) div 4)))"
proof -
  define k where "k = 4 * ((a + 3) div 4) - a"
  have k: "a + k = 4 * ((a + 3) div 4)" "k < 4" unfolding k_def by linarith+
  then have "ClosestPow_loop (of_nat a) 4 = ret (of_nat (a + k))"
    using assms by (intro ClosestPow_loop_returns) auto
  then show ?thesis unfolding ClosestPow_def k(1) .
qed

subsection \<open>Splitting a block\<close>

lemma SplitBlock_ok:
  assumes h: "heap_map L s" and r: "heap_range L a n" and hd: "hdr_at (view s) a = (n, u)"
    and sz: "5 \<le> sz" "sz + 8 \<le> n"
  shows "\<exists>s'. SplitBlock (of_nat a) (of_nat sz) s = ret s' \<and> heap_upd L s s' \<and>
    same_but L a n (view s) (view s') \<and> tiles (view s') a [(sz, u), (n - sz, False)]"
proof -
  have lt: "a < 4294967296" "n < 4294967296" "sz < 2147483648" "n - sz < 2147483648" "0 < a" "0 < sz"
    using r sz by (auto simp: heap_range_def)
  have four: "4 \<le> n" "4 \<le> n - sz" using sz by auto
  have rs: "heap_range L (a + sz) (n - sz)" using r sz by (auto simp: heap_range_def)
  obtain w where w: "vread32 s (of_nat a) = ret w" "hdr_size w = of_nat n"
    using read_hdr [OF h r four(1) hd] by blast
  obtain k v where kv: "hdr_at (view s) (a + sz) = (k, v)" by (cases "hdr_at (view s) (a + sz)")
  obtain s1 where s1: "write_size (of_nat (a + sz)) (of_nat (n - sz)) s = ret s1" "heap_upd L s s1"
      "same_but L (a + sz) 4 (view s) (view s1)" "hdr_at (view s1) (a + sz) = (n - sz, v)"
    using write_size_ok [OF h rs four(2) kv lt(4)] by blast
  note h1 = heap_upd_map [OF s1(2)]
  obtain s2 where s2: "write_state (of_nat (a + sz)) False s1 = ret s2" "heap_upd L s1 s2"
      "same_but L (a + sz) 4 (view s1) (view s2)" "hdr_at (view s2) (a + sz) = (n - sz, False)"
    using write_state_ok [OF h1 rs four(2) s1(4)] by blast
  note h2 = heap_upd_map [OF s2(2)]
  have hd2: "hdr_at (view s2) a = (n, u)"
    using hdr_at_same_but [OF s1(3) r four(1)] hdr_at_same_but [OF s2(3) r four(1)] hd sz by simp
  obtain s3 where s3: "write_size (of_nat a) (of_nat sz) s2 = ret s3" "heap_upd L s2 s3"
      "same_but L a 4 (view s2) (view s3)" "hdr_at (view s3) a = (sz, u)"
    using write_size_ok [OF h2 r four(1) hd2 lt(3)] by blast
  have diff: "(of_nat n :: u32) - of_nat sz = of_nat (n - sz)" using sz by simp
  have "SplitBlock (of_nat a) (of_nat sz) s = ret s3"
  proof -
    have "(of_nat a :: u32) \<noteq> 0" "(of_nat sz :: u32) \<noteq> 0"
      using lt unat_of_nat_u32 [of a] unat_of_nat_u32 [of sz] by auto
    moreover have "(of_nat a :: u32) + of_nat sz = of_nat (a + sz)" by simp
    ultimately show ?thesis
      unfolding SplitBlock_def Let_def using w s1(1) s2(1) s3(1) by (simp add: diff del: of_nat_add of_nat_diff)
  qed
  moreover have "same_but L a n (view s) (view s3)"
    using same_but_mono [OF s1(3), of a n] same_but_mono [OF s2(3), of a n] same_but_mono [OF s3(3), of a n] sz
    by (auto intro: same_but_trans)
  moreover have "hdr_at (view s3) (a + sz) = (n - sz, False)"
    using hdr_at_same_but [OF s3(3) rs four(2)] s2(4) sz by simp
  ultimately show ?thesis
    using heap_upd_trans [OF heap_upd_trans [OF s1(2) s2(2)] s3(2)] s3(4) sz by auto
qed

subsection \<open>The search\<close>

definition fits :: "nat \<Rightarrow> nat \<times> bool \<Rightarrow> bool" where
  "fits sz b \<longleftrightarrow> \<not> snd b \<and> sz \<le> fst b"

text \<open>What becomes of the free block that was chosen.\<close>

definition place :: "nat \<Rightarrow> nat \<Rightarrow> blocks" where
  "place sz n = (if sz + 8 \<le> n then [(sz, True), (n - sz, False)] else [(n, True)])"

lemma total_place [simp]: "sz \<le> n \<Longrightarrow> total (place sz n) = n"
  by (simp add: place_def)

lemma find_block_ok:
  assumes "heap_map L s" "lastBlock s = of_nat (4096 * L)" "tiles (view s) a bs" "heap_range L a (total bs)"
    "a + total bs = 4096 * L" "sz < 4294967296"
  shows "find_block (of_nat a) (of_nat sz) s =
    (case dropWhile (\<lambda>b. \<not> fits sz b) bs of
       [] \<Rightarrow> ret (nullptr, lastBlock s, s)
     | (n, u) # rest \<Rightarrow> let b = a + total (takeWhile (\<lambda>b. \<not> fits sz b) bs) in
         andThen (if sz + 8 \<le> n then SplitBlock (of_nat b) (of_nat sz) s else ret s)
           (\<lambda>s1. ret (of_nat b + 4, of_nat b, s1)))"
  using assms(3-5)
proof (induction bs arbitrary: a)
  case Nil
  then show ?case using assms(2) by (subst find_block.simps) simp
next
  case (Cons b bs)
  obtain n u where b: "b = (n, u)" by (cases b)
  have r: "heap_range L a n" "heap_range L (a + n) (total bs)" using Cons.prems(2) b by (auto simp: heap_range_def)
  have n: "5 \<le> n" "hdr_at (view s) a = (n, u)" "tiles (view s) (a + n) bs" using Cons.prems(1) b by auto
  have lt: "a < 4294967296" "4096 * L < 4294967296" "a < 4096 * L" "n < 4294967296" "a + 4 < 4294967296"
    using r(1) n(1) by (auto simp: heap_range_def)
  obtain w where w: "vread32 s (of_nat a) = ret w" "hdr_size w = of_nat n" "hdr_used w = u"
    using read_hdr [OF assms(1) r(1) _ n(2)] n(1) by auto
  have less: "(of_nat a :: addr) < lastBlock s" unfolding assms(2) using lt by (simp only: u32_of_nat_less)
  have nofit: "hdr_used w \<or> of_nat sz > hdr_size w \<longleftrightarrow> \<not> fits sz b"
    using w lt assms(6) by (auto simp: fits_def b u32_of_nat_less)
  show ?case
  proof (cases "fits sz b")
    case False
    have tw: "a + total (takeWhile (\<lambda>b. \<not> fits sz b) (b # bs)) = a + n + total (takeWhile (\<lambda>b. \<not> fits sz b) bs)"
      and dw: "dropWhile (\<lambda>b. \<not> fits sz b) (b # bs) = dropWhile (\<lambda>b. \<not> fits sz b) bs"
      using False b by simp_all
    have "find_block (of_nat a) (of_nat sz) s = find_block (of_nat (a + n)) (of_nat sz) s"
      using False less nofit w by (subst find_block.simps) simp
    also have "\<dots> = (case dropWhile (\<lambda>b. \<not> fits sz b) bs of
       [] \<Rightarrow> ret (nullptr, lastBlock s, s)
     | (n', u) # rest \<Rightarrow> let b = a + n + total (takeWhile (\<lambda>b. \<not> fits sz b) bs) in
         andThen (if sz + 8 \<le> n' then SplitBlock (of_nat b) (of_nat sz) s else ret s)
           (\<lambda>s1. ret (of_nat b + 4, of_nat b, s1)))"
      by (rule Cons.IH) (use n r Cons.prems(3) b in auto)
    finally show ?thesis unfolding tw dw .
  next
    case True
    then have fit: "sz \<le> n" "\<not> u" by (auto simp: fits_def b)
    have nz: "(of_nat a :: addr) + 4 \<noteq> 0"
      using lt(5) unat_of_nat_u32 [of "a + 4"] by (metis add_is_0 of_nat_add of_nat_numeral unat_0 zero_neq_numeral)
    have "(of_nat n :: u32) - of_nat sz \<ge> BLOCK_HEADER_SIZE + MINIMAL_BLOCK_SIZE \<longleftrightarrow> sz + 8 \<le> n"
    proof -
      have "(of_nat 8 :: u32) \<le> of_nat (n - sz) \<longleftrightarrow> 8 \<le> n - sz"
        by (rule u32_of_nat_le) (use lt(4) in auto)
      then show ?thesis using fit by (simp add: le_diff_conv2 add.commute)
    qed
    then show ?thesis
      using True less nofit w nz b by (subst find_block.simps) (simp add: Let_def cong: if_cong)
  qed
qed

lemma place_ok:
  assumes h: "heap_map L s" and r: "heap_range L b n" and hd: "hdr_at (view s) b = (n, False)"
    and sz: "5 \<le> sz" "sz \<le> n"
  shows "\<exists>s1 s2. (if sz + 8 \<le> n then SplitBlock (of_nat b) (of_nat sz) s else ret s) = ret s1 \<and>
    write_state (of_nat b) True s1 = ret s2 \<and> heap_upd L s s2 \<and> same_but L b n (view s) (view s2) \<and>
    tiles (view s2) b (place sz n)"
proof (cases "sz + 8 \<le> n")
  case True
  obtain s1 where s1: "SplitBlock (of_nat b) (of_nat sz) s = ret s1" "heap_upd L s s1"
      "same_but L b n (view s) (view s1)" "tiles (view s1) b [(sz, False), (n - sz, False)]"
    using SplitBlock_ok [OF h r hd sz(1) True] by blast
  have hd1: "hdr_at (view s1) b = (sz, False)" "hdr_at (view s1) (b + sz) = (n - sz, False)" using s1(4) by auto
  have r1: "heap_range L b sz" "heap_range L (b + sz) (n - sz)" using r sz by (auto simp: heap_range_def)
  obtain s2 where s2: "write_state (of_nat b) True s1 = ret s2" "heap_upd L s1 s2"
      "same_but L b 4 (view s1) (view s2)" "hdr_at (view s2) b = (sz, True)"
    using write_state_ok [OF heap_upd_map [OF s1(2)] r1(1) _ hd1(1)] sz by auto
  have "hdr_at (view s2) (b + sz) = (n - sz, False)"
    using hdr_at_same_but [OF s2(3) r1(2)] hd1(2) sz True by simp
  moreover have "same_but L b n (view s) (view s2)"
    using same_but_trans [OF s1(3)] same_but_mono [OF s2(3), of b n] sz by auto
  ultimately show ?thesis
    using True s1(1) s2(1,4) heap_upd_trans [OF s1(2) s2(2)] sz by (auto simp: place_def)
next
  case False
  obtain s2 where s2: "write_state (of_nat b) True s = ret s2" "heap_upd L s s2"
      "same_but L b 4 (view s) (view s2)" "hdr_at (view s2) b = (n, True)"
    using write_state_ok [OF h r _ hd] sz by auto
  then show ?thesis using False sz same_but_mono [OF s2(3), of b n] by (auto simp: place_def)
qed

text \<open>\<^verbatim>\<open>_Allocate\<close> when a block fits.\<close>

lemma Allocate_from_fit:
  assumes h: "heap_map L s" "lastBlock s = of_nat (4096 * L)" and t: "tiles (view s) a bs"
    and r: "heap_range L a (total bs)" "a + total bs = 4096 * L"
    and sz: "5 \<le> sz" "sz < 4294967296"
    and fit: "dropWhile (\<lambda>b. \<not> fits sz b) bs = (n, u) # rest"
    and pre: "pre = takeWhile (\<lambda>b. \<not> fits sz b) bs"
  shows "\<exists>s'. Allocate_from (of_nat a) (of_nat sz) s = ret (of_nat (a + total pre) + 4, s') \<and> heap_upd L s s' \<and>
    same_but L (a + total pre) n (view s) (view s') \<and> tiles (view s') a (pre @ place sz n @ rest)"
proof -
  let ?b = "a + total pre"
  have bs: "bs = pre @ (n, u) # rest" using fit pre by (metis takeWhile_dropWhile_id)
  have f: "\<not> u" "sz \<le> n" using fit by (auto simp: dropWhile_eq_Cons_conv fits_def)
  have tt: "tiles (view s) a pre" "hdr_at (view s) ?b = (n, False)" "tiles (view s) (?b + n) rest" "5 \<le> n"
    using t f unfolding bs by auto
  have rr: "heap_range L a (total pre)" "heap_range L ?b n" "heap_range L (?b + n) (total rest)"
    using r(1) unfolding bs by (auto simp: heap_range_def)
  obtain s1 s2 where s: "(if sz + 8 \<le> n then SplitBlock (of_nat ?b) (of_nat sz) s else ret s) = ret s1"
      "write_state (of_nat ?b) True s1 = ret s2" "heap_upd L s s2" "same_but L ?b n (view s) (view s2)"
      "tiles (view s2) ?b (place sz n)"
    using place_ok [OF h(1) rr(2) tt(2) sz(1) f(2)] by blast
  have found: "find_block (of_nat a) (of_nat sz) s = ret (of_nat ?b + 4, of_nat ?b, s1)"
    unfolding find_block_ok [OF h t r sz(2)] fit pre [symmetric] using s(1) by (simp add: Let_def)
  have nz: "(of_nat ?b :: addr) + 4 \<noteq> 0" "(of_nat a :: addr) \<noteq> 0" "(of_nat sz :: u32) \<noteq> 0"
  proof -
    have "?b + 4 < 4294967296" "a < 4294967296" "0 < a" using rr tt(4) by (auto simp: heap_range_def)
    then show "(of_nat ?b :: addr) + 4 \<noteq> 0" "(of_nat a :: addr) \<noteq> 0" "(of_nat sz :: u32) \<noteq> 0"
      using unat_of_nat_u32 [of "?b + 4"] unat_of_nat_u32 [of a] unat_of_nat_u32 [of sz] sz
      by (metis add_is_0 of_nat_add of_nat_numeral unat_0 zero_neq_numeral, auto)
  qed
  have "Allocate_from (of_nat a) (of_nat sz) s = ret (of_nat ?b + 4, s2)"
    using nz found s(2) by (subst Allocate_from.simps) simp
  moreover have "tiles (view s2) a (pre @ place sz n @ rest)"
    using s(5) tiles_same_but [OF tt(1) rr(1) s(4)] tiles_same_but [OF tt(3) rr(3) s(4)] f(2) by simp
  ultimately show ?thesis using s(3,4) by blast
qed

subsection \<open>Growing\<close>

text \<open>The heap invariant: the blocks tile the pages of the heap exactly.\<close>

definition last_page :: "'z kheap_scheme \<Rightarrow> nat" where
  "last_page s = frame_of (lastBlock s)"

definition heap_inv :: "'z kheap_scheme \<Rightarrow> blocks \<Rightarrow> bool" where
  "heap_inv s bs \<longleftrightarrow> heap_map (last_page s) s \<and> lastBlock s = of_nat (4096 * last_page s) \<and>
     baseBlock s = KERNEL_HEAP_V_BASE_ADDR \<and> tiles (view s) 16777216 bs \<and>
     16777216 + total bs = 4096 * last_page s"

lemma heap_invD:
  assumes "heap_inv s bs"
  shows "heap_map (last_page s) s" "lastBlock s = of_nat (4096 * last_page s)" "tiles (view s) 16777216 bs"
    "16777216 + total bs = 4096 * last_page s" "heap_range (last_page s) 16777216 (total bs)"
    "last_page s \<le> 262144" "4096 \<le> last_page s" "baseBlock s = of_nat 16777216"
proof -
  show "heap_map (last_page s) s" "lastBlock s = of_nat (4096 * last_page s)" "tiles (view s) 16777216 bs"
    "16777216 + total bs = 4096 * last_page s" "baseBlock s = of_nat 16777216"
    using assms by (simp_all add: heap_inv_def)
  then show "heap_range (last_page s) 16777216 (total bs)" "last_page s \<le> 262144" "4096 \<le> last_page s"
    by (simp_all add: heap_range_def heap_map_def)
qed

lemma heap_upd_regs:
  "heap_upd L s s' \<Longrightarrow> lastBlock s' = lastBlock s \<and> baseBlock s' = baseBlock s \<and>
     used_pages s' = used_pages s \<and> free_frames s' = free_frames s \<and> cr3 s' = cr3 s"
  by (auto simp: heap_upd_def used_pages_def free_frames_def)

text \<open>The parts of the state an operation of the heap may change.\<close>

definition heap_frame :: "'z kheap_scheme \<Rightarrow> 'z kheap_scheme \<Rightarrow> bool" where
  "heap_frame s s' \<longleftrightarrow> (\<exists>b m l. s' = s\<lparr>memBitmap := b, pmem := m, lastBlock := l\<rparr>)"

lemma heap_frame_trans:
  assumes "heap_frame s s1" "heap_frame s1 s2"
  shows "heap_frame s s2"
proof -
  obtain b m l b' m' l' where "s1 = s\<lparr>memBitmap := b, pmem := m, lastBlock := l\<rparr>"
      "s2 = s1\<lparr>memBitmap := b', pmem := m', lastBlock := l'\<rparr>"
    using assms unfolding heap_frame_def by blast
  then have "s2 = s\<lparr>memBitmap := b', pmem := m', lastBlock := l'\<rparr>" by simp
  then show ?thesis unfolding heap_frame_def by blast
qed

lemma heap_upd_frame: "heap_upd L s s' \<Longrightarrow> heap_frame s s'"
proof -
  assume "heap_upd L s s'"
  then obtain m where "s' = s\<lparr>pmem := m\<rparr>" by (auto simp: heap_upd_def)
  then have "s' = s\<lparr>memBitmap := memBitmap s, pmem := m, lastBlock := lastBlock s\<rparr>" by simp
  then show ?thesis unfolding heap_frame_def by blast
qed

lemma heap_inv_upd:
  assumes "heap_inv s bs" "heap_upd (last_page s) s s'" "tiles (view s') 16777216 bs'" "total bs' = total bs"
  shows "heap_inv s' bs'"
  using assms heap_upd_regs [OF assms(2)] by (simp add: heap_inv_def heap_upd_map last_page_def)

lemma of_nat_page: "of_nat (4096 * L) = phys L 0"
  by (simp add: phys_def)

lemma Sbrk_ok:
  assumes inv: "heap_inv s bs" and k: "0 < k" "last_page s + k \<le> 262144" "k \<le> free_frames s"
  shows "\<exists>s'. Sbrk (int k) s = ret (lastBlock s, s') \<and> heap_inv s' (bs @ [(4096 * k, False)]) \<and>
    last_page s' = last_page s + k \<and> agree (last_page s) (view s') (view s) \<and>
    free_frames s' = free_frames s - k \<and> heap_frame s s'"
proof -
  let ?L = "last_page s" and ?L' = "last_page s + k"
  note i = heap_invD [OF inv]
  obtain b m where sb: "sbrk_pages k (phys ?L 0) s = ret (phys ?L' 0, s\<lparr>memBitmap := b, pmem := m\<rparr>)"
      "heap_map ?L' (s\<lparr>memBitmap := b, pmem := m\<rparr>)" "agree ?L (view (s\<lparr>memBitmap := b, pmem := m\<rparr>)) (view s)"
      "free_frames (s\<lparr>memBitmap := b, pmem := m\<rparr>) = free_frames s - k"
    using sbrk_pages_ok [OF i(1) k(2,3)] by blast
  define s1 where "s1 = s\<lparr>memBitmap := b, pmem := m, lastBlock := phys ?L' 0\<rparr>"
  have mm: "mmu s1 v = mmu (s\<lparr>memBitmap := b, pmem := m\<rparr>) v" for v by (simp add: s1_def mmu_def Let_def)
  have pm: "pmem s1 = pmem (s\<lparr>memBitmap := b, pmem := m\<rparr>)" by (simp add: s1_def)
  have vw: "view s1 = view (s\<lparr>memBitmap := b, pmem := m\<rparr>)"
    by (rule ext) (simp only: view_def mm pm)
  have h1: "heap_map ?L' s1"
  proof -
    have "page_frame s1 = page_frame (s\<lparr>memBitmap := b, pmem := m\<rparr>)" by (simp add: fun_eq_iff page_frame_def mm)
    moreover have "kernel_space s1 = kernel_space (s\<lparr>memBitmap := b, pmem := m\<rparr>)"
      by (simp add: kernel_space_def self_map_def entry_def s1_def)
    moreover have "used_pages s1 = used_pages (s\<lparr>memBitmap := b, pmem := m\<rparr>)"
      "pmem s1 = pmem (s\<lparr>memBitmap := b, pmem := m\<rparr>)" "cr3 s1 = cr3 (s\<lparr>memBitmap := b, pmem := m\<rparr>)"
      by (simp_all add: s1_def used_pages_def)
    ultimately show ?thesis using sb(2) unfolding heap_map_def mm by metis
  qed
  let ?a = "4096 * ?L"
  have r: "heap_range ?L' ?a (4096 * k)" "4 \<le> 4096 * k" using k i(7) by (auto simp: heap_range_def)
  have klt: "4096 * k < 2147483648" using k(2) i(7) by linarith
  obtain n0 u0 where hd0: "hdr_at (view s1) ?a = (n0, u0)" by (cases "hdr_at (view s1) ?a")
  obtain s2 where s2: "write_size (of_nat ?a) (of_nat (4096 * k)) s1 = ret s2" "heap_upd ?L' s1 s2"
      "same_but ?L' ?a 4 (view s1) (view s2)" "hdr_at (view s2) ?a = (4096 * k, u0)"
    using write_size_ok [OF h1 r hd0 klt] by blast
  obtain s3 where s3: "write_state (of_nat ?a) False s2 = ret s3" "heap_upd ?L' s2 s3"
      "same_but ?L' ?a 4 (view s2) (view s3)" "hdr_at (view s3) ?a = (4096 * k, False)"
    using write_state_ok [OF heap_upd_map [OF s2(2)] r s2(4)] by blast
  obtain w where w: "vread32 s3 (of_nat ?a) = ret w" "hdr_size w = of_nat (4096 * k)"
    using read_hdr [OF heap_upd_map [OF s3(2)] r s3(4)] by blast
  have rd: "heap_range ?L' (?a + 4) (4096 * k - 4)" using r by (auto simp: heap_range_def)
  obtain s4 where s4: "vMemSet (of_nat (?a + 4)) 0 (4096 * k - 4) s3 = ret s4" "heap_upd ?L' s3 s4"
      "agree ?L' (view s4) (\<lambda>u. if ?a + 4 \<le> unat u \<and> unat u < ?a + 4 + (4096 * k - 4) then 0 else view s3 u)"
    using vMemSet_heap [OF heap_upd_map [OF s3(2)] rd] by blast
  have len: "unat (hdr_size w - BLOCK_HEADER_SIZE) = 4096 * k - 4"
  proof -
    have "hdr_size w - BLOCK_HEADER_SIZE = of_nat (4096 * k - 4)" using w(2) k(1) by (simp add: of_nat_diff)
    then show ?thesis using klt unat_of_nat_u32 [of "4096 * k - 4"] by simp
  qed
  have last: "lastBlock s + of_int (int k) * PAGE_SIZE = of_nat (4096 * ?L')"
    unfolding i(2) by (simp add: algebra_simps)
  have sbrk: "Sbrk (int k) s = ret (lastBlock s, s4)"
  proof -
    have "\<not> (of_nat (4096 * ?L') :: addr) > KERNEL_HEAP_V_LIMIT_ADDR"
      using k(2) u32_of_nat_less [of 1073741824 "4096 * ?L'"] by simp
    moreover have "of_int (int k) * PAGE_SIZE = of_nat (4096 * k)" by simp
    moreover have "of_nat (4096 * ?L) + 4 = (of_nat (?a + 4) :: addr)" by simp
    ultimately show ?thesis
      unfolding Sbrk_def Let_def last
      using k(1) sb(1) s2(1) s3(1) s4(1) w(1) len
      by (simp add: i(2) of_nat_page s1_def del: of_nat_mult of_nat_add)
  qed
  have eq: "view s4 u = view s1 u" if "in_heap ?L u" for u
  proof -
    have "in_heap ?L' u" "unat u < ?a" using that by (auto simp: in_heap_iff)
    then show ?thesis using s2(3) s3(3) s4(3) by (simp add: same_but_def agree_def)
  qed
  then have ag: "agree ?L (view s4) (view s)" using sb(3) by (simp add: agree_def vw)
  have regs: "lastBlock s4 = phys ?L' 0" "baseBlock s4 = baseBlock s" "free_frames s4 = free_frames s - k"
    using heap_upd_regs [OF s2(2)] heap_upd_regs [OF s3(2)] heap_upd_regs [OF s4(2)] sb(4)
    by (simp_all add: s1_def free_frames_def used_pages_def)
  have lp: "last_page s4 = ?L'" using regs(1) k(2) by (simp add: last_page_def)
  have "tiles (view s4) 16777216 bs"
    by (rule tiles_cong [OF i(3,5)]) (use ag in \<open>auto simp: agree_def\<close>)
  moreover have "hdr_at (view s4) ?a = (4096 * k, False)"
    using hdr_at_cong [OF r, of "view s4" "view s3"] s4(3) s3(4) by (simp add: agree_def)
  ultimately have hi: "heap_inv s4 (bs @ [(4096 * k, False)])"
    unfolding heap_inv_def lp regs(2) regs(1) [folded of_nat_page]
    using heap_upd_map [OF s4(2)] i(4,8) k(1) by simp
  have "heap_frame s s1" unfolding heap_frame_def s1_def by blast
  then have "heap_frame s s4"
    by (meson heap_frame_trans heap_upd_frame s2(2) s3(2) s4(2))
  then show ?thesis using sbrk hi lp ag regs(3) by blast
qed

lemma Sbrk_limit:
  assumes "heap_inv s bs" "0 < k" "262144 < last_page s + k" "k \<le> 600000"
  shows "Sbrk (int k) s = halt Panicked"
proof -
  note i = heap_invD [OF assms(1)]
  have last: "lastBlock s + of_int (int k) * PAGE_SIZE = of_nat (4096 * (last_page s + k))"
    unfolding i(2) by (simp add: algebra_simps)
  have "(of_nat (4096 * (last_page s + k)) :: addr) > KERNEL_HEAP_V_LIMIT_ADDR"
    using assms i(6) u32_of_nat_less [of 1073741824 "4096 * (last_page s + k)"] by simp
  then have "lastBlock s + of_int (int k) * PAGE_SIZE > KERNEL_HEAP_V_LIMIT_ADDR" unfolding last .
  then show ?thesis using assms(2) by (simp add: Sbrk_def)
qed

subsection \<open>Allocation\<close>

text \<open>The pages \<^verbatim>\<open>_Allocate\<close> asks for when no block fits.\<close>

definition n_pages :: "nat \<Rightarrow> nat" where
  "n_pages sz = (if 4092 < sz then sz div 4092 + (if 4092 dvd sz then 0 else 1) else 1)"

definition alloc_addr :: "nat \<Rightarrow> blocks \<Rightarrow> nat" where
  "alloc_addr sz bs = 16777216 + total (takeWhile (\<lambda>b. \<not> fits sz b) bs)"

text \<open>First fit on the list of blocks, with growth at the end.\<close>

definition alloc_list :: "nat \<Rightarrow> blocks \<Rightarrow> blocks" where
  "alloc_list sz bs = takeWhile (\<lambda>b. \<not> fits sz b) bs @
     (case dropWhile (\<lambda>b. \<not> fits sz b) bs of
        [] \<Rightarrow> place sz (4096 * n_pages sz)
      | (n, u) # rest \<Rightarrow> place sz n @ rest)"

definition alloc_room :: "nat \<Rightarrow> blocks \<Rightarrow> nat" where
  "alloc_room sz bs = (case dropWhile (\<lambda>b. \<not> fits sz b) bs of [] \<Rightarrow> 0 | (n, u) # rest \<Rightarrow> n)"

definition some_fits :: "nat \<Rightarrow> blocks \<Rightarrow> bool" where
  "some_fits sz bs \<longleftrightarrow> (\<exists>b \<in> set bs. fits sz b)"

lemma n_pages_enough: "sz \<le> 4092 * n_pages sz"
proof (cases "4092 < sz \<and> \<not> 4092 dvd sz")
  case True
  then have "n_pages sz = sz div 4092 + 1" by (simp add: n_pages_def)
  moreover have "sz mod 4092 < 4092" by simp
  ultimately show ?thesis using div_mult_mod_eq [of sz 4092] by simp
qed (auto simp: n_pages_def)

lemma n_pages_pos: "0 < n_pages sz"
  by (auto simp: n_pages_def elim: dvdE)

lemma n_pages_le: "sz \<le> 2147483651 \<Longrightarrow> n_pages sz \<le> 600000"
  using div_le_mono [of sz 2147483651 4092] by (auto simp: n_pages_def)

lemma no_fit_iff: "dropWhile (\<lambda>b. \<not> fits sz b) bs = [] \<longleftrightarrow> \<not> some_fits sz bs"
  by (auto simp: some_fits_def)

lemma sint_of_nat_u32: "n < 2147483648 \<Longrightarrow> sint (of_nat n :: u32) = int n"
  by (simp add: signed_of_nat signed_take_bit_int_eq_self)

lemma grow_call:
  assumes "5 \<le> sz" "sz \<le> 2147483651"
  shows "(if of_nat sz > DEFAULT_BLOCK_SIZE then
      andThen (local_mod (of_nat sz) DEFAULT_BLOCK_SIZE) (\<lambda>r.
        Sbrk (sint (of_nat sz div DEFAULT_BLOCK_SIZE + (if r > 0 then 1 else 0))) s)
     else Sbrk 1 s) = Sbrk (int (n_pages sz)) s"
proof -
  have lt: "(of_nat 4092 :: u32) < of_nat sz \<longleftrightarrow> 4092 < sz" using assms by (intro u32_of_nat_less) auto
  have "of_nat sz div DEFAULT_BLOCK_SIZE = of_nat (sz div 4092)"
    using assms by (intro u32_eqI) (simp add: unat_div unat_of_nat_u32 less_mult_imp_div_less)
  moreover have "sint (of_nat (sz div 4092) + (if P then 1 else 0) :: u32) = int (sz div 4092 + (if P then 1 else 0))" for P
  proof -
    have "(of_nat (sz div 4092) + (if P then 1 else 0) :: u32) = of_nat (sz div 4092 + (if P then 1 else 0))" by simp
    moreover have "sz div 4092 + (if P then 1 else 0) < 2147483648"
      using div_le_mono [OF assms(2), of 4092] by simp
    ultimately show ?thesis using sint_of_nat_u32 by metis
  qed
  moreover have "local_mod (of_nat sz) DEFAULT_BLOCK_SIZE = ret (if 4092 dvd sz then 0 else 1)"
    using local_mod_eq [of 4092 sz] assms by simp
  ultimately show ?thesis using lt by (auto simp: n_pages_def)
qed

lemma Allocate_from_ok:
  assumes inv: "heap_inv s bs" and sz: "5 \<le> sz" "sz \<le> 2147483651"
    and mem: "some_fits sz bs \<or> (last_page s + n_pages sz \<le> 262144 \<and> n_pages sz \<le> free_frames s)"
  shows "\<exists>s'. Allocate_from (baseBlock s) (of_nat sz) s = ret (of_nat (alloc_addr sz bs) + 4, s') \<and>
    heap_inv s' (alloc_list sz bs) \<and>
    last_page s' = last_page s + (if some_fits sz bs then 0 else n_pages sz) \<and>
    same_but (last_page s) (alloc_addr sz bs) (alloc_room sz bs) (view s) (view s') \<and> heap_frame s s' \<and>
    free_frames s' = free_frames s - (if some_fits sz bs then 0 else n_pages sz)"
proof (cases "dropWhile (\<lambda>b. \<not> fits sz b) bs")
  case (Cons b rest)
  obtain n u where b: "b = (n, u)" by (cases b)
  note i = heap_invD [OF inv]
  let ?pre = "takeWhile (\<lambda>b. \<not> fits sz b) bs"
  have fit: "dropWhile (\<lambda>b. \<not> fits sz b) bs = (n, u) # rest" using Cons b by simp
  have f: "sz \<le> n" "bs = ?pre @ (n, u) # rest" using fit by (auto simp: dropWhile_eq_Cons_conv fits_def)
  have "sz < 4294967296" using sz by simp
  from Allocate_from_fit [OF i(1,2,3,5,4) sz(1) this fit refl]
  obtain s' where s': "Allocate_from (baseBlock s) (of_nat sz) s = ret (of_nat (alloc_addr sz bs) + 4, s')"
      "heap_upd (last_page s) s s'" "same_but (last_page s) (alloc_addr sz bs) n (view s) (view s')"
      "tiles (view s') 16777216 (?pre @ place sz n @ rest)"
    unfolding i(8) alloc_addr_def by blast
  have "total (?pre @ place sz n @ rest) = total bs"
    using f(1) by (subst (2) f(2)) simp
  from heap_inv_upd [OF inv s'(2,4) this] have "heap_inv s' (alloc_list sz bs)"
    by (simp add: alloc_list_def fit)
  moreover have "last_page s' = last_page s" "free_frames s' = free_frames s"
    using heap_upd_regs [OF s'(2)] by (simp_all add: last_page_def)
  moreover have "some_fits sz bs" using fit no_fit_iff [of sz bs] by auto
  ultimately show ?thesis using s'(1,3) fit heap_upd_frame [OF s'(2)] by (auto simp: alloc_room_def)
next
  case Nil
  note i = heap_invD [OF inv]
  have nofit: "\<not> some_fits sz bs" using Nil no_fit_iff by blast
  have pre: "takeWhile (\<lambda>b. \<not> fits sz b) bs = bs" using Nil by (metis append_Nil2 takeWhile_dropWhile_id)
  have addr: "alloc_addr sz bs = 4096 * last_page s" using i(4) by (simp add: alloc_addr_def pre)
  let ?k = "n_pages sz" and ?L' = "last_page s + n_pages sz"
  obtain s1 where s1: "Sbrk (int ?k) s = ret (lastBlock s, s1)" "heap_inv s1 (bs @ [(4096 * ?k, False)])"
      "last_page s1 = ?L'" "agree (last_page s) (view s1) (view s)" "heap_frame s s1"
      "free_frames s1 = free_frames s - ?k"
    using Sbrk_ok [OF inv n_pages_pos] mem nofit by blast
  note j = heap_invD [OF s1(2)]
  have szk: "sz \<le> 4096 * ?k" using n_pages_enough [of sz] by simp
  have lt: "sz < 4294967296" using sz by simp
  let ?a = "4096 * last_page s"
  have t1: "tiles (view s1) ?a [(4096 * ?k, False)]" using j(3) i(4) by simp
  have r1: "heap_range (last_page s1) ?a (total [(4096 * ?k, False)])" "?a + total [(4096 * ?k, False)] = 4096 * last_page s1"
    using j(4,6) i(4,7) by (auto simp: heap_range_def)
  have d: "dropWhile (\<lambda>b. \<not> fits sz b) [(4096 * ?k, False)] = [(4096 * ?k, False)]"
      "[] = takeWhile (\<lambda>b. \<not> fits sz b) [(4096 * ?k, False)]"
    using szk by (simp_all add: fits_def)
  obtain s2 where s2: "Allocate_from (of_nat ?a) (of_nat sz) s1 = ret (of_nat ?a + 4, s2)" "heap_upd (last_page s1) s1 s2"
      "same_but (last_page s1) ?a (4096 * ?k) (view s1) (view s2)" "tiles (view s2) ?a (place sz (4096 * ?k))"
    using Allocate_from_fit [OF j(1,2) t1 r1 sz(1) lt d] by auto
  obtain n' rest' where pl: "place sz (4096 * ?k) = (n', True) # rest'"
    by (cases "sz + 8 \<le> 4096 * ?k") (simp_all add: place_def)
  then have hd2: "hdr_at (view s2) ?a = (n', True)" and n': "5 \<le> n'" using s2(4) by auto
  have "total (place sz (4096 * ?k)) = 4096 * ?k" using szk by simp
  then have nk: "n' + total rest' = 4096 * ?k" unfolding pl by simp
  then have rr: "heap_range (last_page s1) ?a n'" "4 \<le> n'" "heap_range (last_page s1) (?a + n') (total rest')"
    using r1(1) n' by (auto simp: heap_range_def)
  obtain s3 where s3: "write_state (of_nat ?a) True s2 = ret s3" "heap_upd (last_page s1) s2 s3"
      "same_but (last_page s1) ?a 4 (view s2) (view s3)" "hdr_at (view s3) ?a = (n', True)"
    using write_state_ok [OF heap_upd_map [OF s2(2)] rr(1,2) hd2] by blast
  have t3: "tiles (view s3) ?a (place sz (4096 * ?k))"
    using s2(4) s3(4) tiles_same_but [OF _ rr(3) s3(3)] n' by (simp add: pl)
  have same: "view s3 u = view s u" if "in_heap (last_page s) u" for u
  proof -
    have "in_heap (last_page s1) u" "unat u < ?a" using that by (auto simp: in_heap_iff s1(3))
    then show ?thesis using s1(4) s2(3) s3(3) that by (simp add: same_but_def agree_def)
  qed
  have "Allocate_from (baseBlock s) (of_nat sz) s = ret (of_nat ?a + 4, s3)"
  proof -
    have nz: "baseBlock s \<noteq> 0" "(of_nat sz :: u32) \<noteq> 0"
      unfolding i(8) using unat_of_nat_u32 [of sz] sz lt by auto
    have "find_block (baseBlock s) (of_nat sz) s = ret (nullptr, lastBlock s, s)"
      unfolding i(8) using find_block_ok [OF i(1,2,3,5,4) lt] Nil by simp
    then show ?thesis
      using nz grow_call [OF sz, of s] s1(1) s2(1) s3(1)
      by (subst Allocate_from.simps) (simp add: i(2) del: of_nat_mult)
  qed
  moreover have "heap_inv s3 (bs @ place sz (4096 * ?k))"
  proof (rule heap_inv_upd [OF s1(2)])
    show "heap_upd (last_page s1) s1 s3" using heap_upd_trans [OF s2(2) s3(2)] .
    have "tiles (view s3) 16777216 bs" by (rule tiles_cong [OF i(3,5)]) (use same in auto)
    then show "tiles (view s3) 16777216 (bs @ place sz (4096 * ?k))" using t3 i(4) by simp
  qed (use szk in simp)
  moreover have "last_page s3 = ?L'" "free_frames s3 = free_frames s - ?k"
    using heap_upd_regs [OF s2(2)] heap_upd_regs [OF s3(2)] s1(3,6) by (simp_all add: last_page_def)
  moreover have "alloc_list sz bs = bs @ place sz (4096 * ?k)" "alloc_room sz bs = 0"
    unfolding alloc_list_def alloc_room_def pre Nil by simp_all
  moreover have "heap_frame s s3"
    using heap_frame_trans [OF s1(5) heap_upd_frame [OF heap_upd_trans [OF s2(2) s3(2)]]] .
  ultimately show ?thesis using nofit same unfolding addr by (auto simp: same_but_def)
qed

text \<open>\<^verbatim>\<open>Heap::Allocate\<close>.\<close>

lemma HeapAlloc_call:
  assumes "0 < n" "n < 2147483648"
  shows "HeapAlloc (int n) s = Allocate_from (baseBlock s) (of_nat (n + 4)) s"
proof -
  have "of_int (int n) + BLOCK_HEADER_SIZE = of_nat (n + 4)" by simp
  moreover have "ClosestPow (of_nat (n + 4)) 4 = ret (of_nat (4 * ((n + 4 + 3) div 4)))"
    using assms by (intro ClosestPow_returns) auto
  ultimately show ?thesis using assms by (simp add: HeapAlloc_def del: of_nat_add of_nat_mult of_int_of_nat_eq)
qed

lemma HeapAlloc_ok:
  assumes "heap_inv s bs" "0 < n" "n < 2147483648"
    and "some_fits (n + 4) bs \<or> (last_page s + n_pages (n + 4) \<le> 262144 \<and> n_pages (n + 4) \<le> free_frames s)"
  shows "\<exists>s'. HeapAlloc (int n) s = ret (of_nat (alloc_addr (n + 4) bs + 4), s') \<and>
    heap_inv s' (alloc_list (n + 4) bs) \<and>
    last_page s' = last_page s + (if some_fits (n + 4) bs then 0 else n_pages (n + 4)) \<and>
    same_but (last_page s) (alloc_addr (n + 4) bs) (alloc_room (n + 4) bs) (view s) (view s') \<and> heap_frame s s' \<and>
    free_frames s' = free_frames s - (if some_fits (n + 4) bs then 0 else n_pages (n + 4))"
  using Allocate_from_ok [OF assms(1), of "n + 4"] assms(2-4)
  by (simp add: HeapAlloc_call)

lemma HeapAlloc_limit:
  assumes inv: "heap_inv s bs" and n: "0 < n" "n < 2147483648"
    and no: "\<not> some_fits (n + 4) bs" "262144 < last_page s + n_pages (n + 4)"
  shows "HeapAlloc (int n) s = halt Panicked"
proof -
  note i = heap_invD [OF inv]
  let ?sz = "n + 4"
  have sz: "5 \<le> ?sz" "?sz \<le> 2147483651" using n by auto
  have nz: "baseBlock s \<noteq> 0" "(of_nat ?sz :: u32) \<noteq> 0"
    unfolding i(8) using unat_of_nat_u32 [of ?sz] n by auto
  have "find_block (baseBlock s) (of_nat ?sz) s = ret (nullptr, lastBlock s, s)"
    unfolding i(8) using find_block_ok [OF i(1,2,3,5,4), of ?sz] no(1) n
    by (simp only: no_fit_iff [THEN iffD2, OF no(1)]) simp
  moreover have "Sbrk (int (n_pages ?sz)) s = halt Panicked"
    using Sbrk_limit [OF inv n_pages_pos no(2) n_pages_le [OF sz(2)]] .
  ultimately show ?thesis
    unfolding HeapAlloc_call [OF n] using nz grow_call [OF sz, of s]
    by (subst Allocate_from.simps) (simp del: of_nat_add)
qed

subsection \<open>Freeing\<close>

text \<open>
  Merging looks at the header behind the last block. There it finds the null descriptor of the
  GDT, unless the heap ends at the last page of a page table or at the limit.
\<close>

definition mergeable :: "'z kheap_scheme \<Rightarrow> bool" where
  "mergeable s \<longleftrightarrow> last_page s < 262144 \<and> last_page s mod 1024 \<noteq> 1023"

definition free_list :: "nat \<Rightarrow> blocks \<Rightarrow> blocks" where
  "free_list n bs = (n + total (takeWhile (\<lambda>b. \<not> snd b) bs), False) # dropWhile (\<lambda>b. \<not> snd b) bs"

lemma total_free_list: "total (free_list n bs) = n + total bs"
proof -
  have "total bs = total (takeWhile (\<lambda>b. \<not> snd b) bs @ dropWhile (\<lambda>b. \<not> snd b) bs)" by simp
  also have "\<dots> = total (takeWhile (\<lambda>b. \<not> snd b) bs) + total (dropWhile (\<lambda>b. \<not> snd b) bs)"
    by (rule total_simps(3))
  finally show ?thesis by (simp add: free_list_def)
qed

lemma read_end:
  assumes "heap_map L s" "L < 262144" "L mod 1024 \<noteq> 1023"
  shows "vread32 s (of_nat (4096 * L)) = ret 0"
proof -
  have "mmu s (phys L 0) = Some (phys 0 0)" using assms by (auto simp: heap_map_def)
  moreover have "read32 (pmem s) (phys 0 0) = 0" using assms by (simp add: heap_map_def phys_def)
  ultimately show ?thesis unfolding of_nat_page using assms(2) by (subst vread32_in_page) simp_all
qed

lemma merge_loop_ok:
  assumes "heap_map L s" "lastBlock s = of_nat (4096 * L)" "L < 262144" "L mod 1024 \<noteq> 1023"
    "tiles (view s) a ((n, False) # bs)" "heap_range L a (n + total bs)" "a + n + total bs = 4096 * L"
  shows "\<exists>s'. merge_loop (of_nat a) s = ret s' \<and> heap_upd L s s' \<and> same_but L a 4 (view s) (view s') \<and>
    tiles (view s') a (free_list n bs)"
  using assms
proof (induction bs arbitrary: n s)
  case Nil
  have n: "5 \<le> n" "hdr_at (view s) a = (n, False)" using Nil.prems(5) by auto
  have r: "heap_range L a n" "4 \<le> n" using Nil.prems(6) n by auto
  obtain w where w: "vread32 s (of_nat a) = ret w" "hdr_size w = of_nat n"
    using read_hdr [OF Nil.prems(1) r n(2)] by blast
  have "of_nat a + of_nat n = (of_nat (4096 * L) :: addr)" using Nil.prems(7) by (metis add_0_right of_nat_add total_simps(1))
  then have "merge_loop (of_nat a) s = ret s"
    using w read_end [OF Nil.prems(1,3,4)]
    by (subst merge_loop.simps) (simp add: Let_def hdr_size_def del: of_nat_mult)
  then show ?case using Nil.prems by (auto simp: heap_upd_refl free_list_def)
next
  case (Cons b bs)
  obtain m u where b: "b = (m, u)" by (cases b)
  have n: "5 \<le> n" "hdr_at (view s) a = (n, False)" "5 \<le> m" "hdr_at (view s) (a + n) = (m, u)"
      "tiles (view s) (a + n + m) bs"
    using Cons.prems(5) b by auto
  have r: "heap_range L a n" "4 \<le> n" "heap_range L (a + n) m" "4 \<le> m" "heap_range L (a + n + m) (total bs)"
    using Cons.prems(6) n b by (auto simp: heap_range_def)
  have lt: "a < 4294967296" "a + n < 4294967296" "4096 * L < 4294967296" "a < 4096 * L" "a + n < 4096 * L"
      "n + m < 2147483648" "m < 4294967296"
    using Cons.prems(6,7) n b by (auto simp: heap_range_def)
  obtain w where w: "vread32 s (of_nat a) = ret w" "hdr_size w = of_nat n"
    using read_hdr [OF Cons.prems(1) r(1,2) n(2)] by blast
  obtain v where v: "vread32 s (of_nat (a + n)) = ret v" "hdr_size v = of_nat m" "hdr_used v = u"
    using read_hdr [OF Cons.prems(1) r(3,4) n(4)] by blast
  have nz: "(of_nat m :: u32) \<noteq> 0" using unat_of_nat_u32 [OF lt(7)] n(3) by auto
  have less: "(of_nat a :: addr) < lastBlock s" unfolding Cons.prems(2) using lt by (simp only: u32_of_nat_less)
  have next_a: "of_nat a + of_nat n = (of_nat (a + n) :: addr)" by simp
  show ?case
  proof (cases u)
    case True
    have "merge_loop (of_nat a) s = ret s"
      using w v nz True less by (subst merge_loop.simps) (simp add: next_a Let_def del: of_nat_add)
    then show ?thesis using Cons.prems True b by (auto simp: heap_upd_refl free_list_def)
  next
    case False
    obtain s1 where s1: "write_size (of_nat a) (of_nat (n + m)) s = ret s1" "heap_upd L s s1"
        "same_but L a 4 (view s) (view s1)" "hdr_at (view s1) a = (n + m, False)"
      using write_size_ok [OF Cons.prems(1) r(1,2) n(2) lt(6)] by blast
    have last1: "lastBlock s1 = of_nat (4096 * L)" using heap_upd_regs [OF s1(2)] Cons.prems(2) by simp
    have "tiles (view s1) (a + n + m) bs" using tiles_same_but [OF n(5) r(5) s1(3)] n(1) by simp
    then have t1: "tiles (view s1) a ((n + m, False) # bs)" using s1(4) n by (simp add: add.assoc)
    have r1: "heap_range L a (n + m + total bs)" "a + (n + m) + total bs = 4096 * L"
      using Cons.prems(6,7) b by (simp_all add: add.assoc)
    obtain s' where s': "merge_loop (of_nat a) s1 = ret s'" "heap_upd L s1 s'"
        "same_but L a 4 (view s1) (view s')" "tiles (view s') a (free_list (n + m) bs)"
      using Cons.IH [OF heap_upd_map [OF s1(2)] last1 Cons.prems(3,4) t1 r1] by blast
    have ne: "(of_nat (a + n) :: addr) \<noteq> lastBlock s1"
      unfolding last1 using lt of_nat_u32_eq_iff [of "a + n" "4096 * L"] by simp
    have sum: "(of_nat n :: u32) + of_nat m = of_nat (n + m)" by simp
    have "merge_loop (of_nat a) s = ret s'"
      using w v nz False less s1(1) s'(1) ne
      by (subst merge_loop.simps) (simp add: next_a sum Let_def del: of_nat_add)
    moreover have "free_list n (b # bs) = free_list (n + m) bs" using False b by (simp add: free_list_def)
    ultimately show ?thesis
      using heap_upd_trans [OF s1(2) s'(2)] same_but_trans [OF s1(3) s'(3)] s'(4) by auto
  qed
qed

lemma HeapFree_ok:
  assumes inv: "heap_inv s (pre @ (n, True) # post)" and m: "mergeable s"
  shows "\<exists>s'. HeapFree (of_nat (16777216 + total pre + 4)) s = ret s' \<and>
    heap_inv s' (pre @ free_list n post) \<and> last_page s' = last_page s \<and>
    same_but (last_page s) (16777216 + total pre) n (view s) (view s') \<and>
    free_frames s' = free_frames s \<and> heap_frame s s'"
proof -
  note i = heap_invD [OF inv]
  let ?L = "last_page s" and ?b = "16777216 + total pre"
  have t: "tiles (view s) 16777216 pre" "5 \<le> n" "hdr_at (view s) ?b = (n, True)" "tiles (view s) (?b + n) post"
    using i(3) by auto
  have r: "heap_range ?L 16777216 (total pre)" "heap_range ?L ?b n" "4 \<le> n" "heap_range ?L (?b + n) (total post)"
      "heap_range ?L ?b (n + total post)"
    using i(5) t(2) by (auto simp: heap_range_def)
  obtain w where w: "vread32 s (of_nat ?b) = ret w" "hdr_size w = of_nat n" "hdr_used w"
    using read_hdr [OF i(1) r(2,3) t(3)] by blast
  obtain s1 where s1: "write_state (of_nat ?b) False s = ret s1" "heap_upd ?L s s1"
      "same_but ?L ?b 4 (view s) (view s1)" "hdr_at (view s1) ?b = (n, False)"
    using write_state_ok [OF i(1) r(2,3) t(3)] by blast
  have rd: "heap_range ?L (?b + 4) (n - 4)" using r(2,3) by (auto simp: heap_range_def)
  obtain s2 where s2: "vMemSet (of_nat (?b + 4)) 0 (n - 4) s1 = ret s2" "heap_upd ?L s1 s2"
      "agree ?L (view s2) (\<lambda>u. if ?b + 4 \<le> unat u \<and> unat u < ?b + 4 + (n - 4) then 0 else view s1 u)"
    using vMemSet_heap [OF heap_upd_map [OF s1(2)] rd] by blast
  have sb2: "same_but ?L (?b + 4) (n - 4) (view s1) (view s2)" using s2(3) by (simp add: agree_def same_but_def)
  have hd2: "hdr_at (view s2) ?b = (n, False)"
    using hdr_at_same_but [OF sb2 r(2,3)] s1(4) by simp
  have sb: "same_but ?L ?b n (view s) (view s2)"
    using same_but_trans [OF same_but_mono [OF s1(3), of ?b n] same_but_mono [OF sb2, of ?b n]] r(3) by auto
  have t2: "tiles (view s2) ?b ((n, False) # post)"
    using hd2 t(2) tiles_same_but [OF t(4) r(4) sb] by simp
  have last2: "lastBlock s2 = of_nat (4096 * ?L)"
    using heap_upd_regs [OF s1(2)] heap_upd_regs [OF s2(2)] i(2) by simp
  have tot: "?b + n + total post = 4096 * ?L" using i(4) by (simp add: add.assoc)
  obtain s3 where s3: "merge_loop (of_nat ?b) s2 = ret s3" "heap_upd ?L s2 s3" "same_but ?L ?b 4 (view s2) (view s3)"
      "tiles (view s3) ?b (free_list n post)"
    using merge_loop_ok [OF heap_upd_map [OF s2(2)] last2 _ _ t2 r(5) tot] m unfolding mergeable_def by blast
  have upd: "heap_upd ?L s s3" using heap_upd_trans [OF heap_upd_trans [OF s1(2) s2(2)] s3(2)] .
  have sb3: "same_but ?L ?b n (view s) (view s3)"
    using same_but_trans [OF sb same_but_mono [OF s3(3), of ?b n]] r(3) by auto
  have bounds: "?b + 4 < 4294967296" using r(2,3) by (auto simp: heap_range_def)
  have "HeapFree (of_nat (?b + 4)) s = ret s3"
  proof -
    have "(of_nat (?b + 4) :: addr) \<noteq> 0" "(of_nat ?b :: addr) \<noteq> 0"
      using bounds unat_of_nat_u32 [of "?b + 4"] unat_of_nat_u32 [of ?b] by auto
    moreover have "of_nat (?b + 4) - BLOCK_HEADER_SIZE = (of_nat ?b :: addr)" by simp
    moreover have "of_nat ?b + 4 = (of_nat (?b + 4) :: addr)" by simp
    moreover have "unat (hdr_size w - BLOCK_HEADER_SIZE) = n - 4"
    proof -
      have "hdr_size w - BLOCK_HEADER_SIZE = of_nat (n - 4)" using w(2) r(3) by simp
      moreover have "n - 4 < 4294967296" using r(2) by (auto simp: heap_range_def)
      ultimately show ?thesis using unat_of_nat_u32 [of "n - 4"] by metis
    qed
    ultimately show ?thesis
      using w s1(1) s2(1) s3(1) by (simp add: HeapFree_def MergeBlocksFrom_def Let_def del: of_nat_add)
  qed
  moreover have "tiles (view s3) 16777216 (pre @ free_list n post)"
    using s3(4) tiles_same_but [OF t(1) r(1) sb3] by simp
  then have "heap_inv s3 (pre @ free_list n post)"
    by (rule heap_inv_upd [OF inv upd]) (simp add: total_free_list)
  ultimately show ?thesis
    using upd sb3 heap_upd_regs [OF upd] heap_upd_frame [OF upd] by (auto simp: last_page_def)
qed

lemma HeapFree_double:
  assumes inv: "heap_inv s (pre @ (n, False) # post)"
  shows "HeapFree (of_nat (16777216 + total pre + 4)) s = ret s"
proof -
  note i = heap_invD [OF inv]
  let ?b = "16777216 + total pre"
  have t: "5 \<le> n" "hdr_at (view s) ?b = (n, False)" using i(3) by auto
  have r: "heap_range (last_page s) ?b n" "4 \<le> n" using i(5) t(1) by (auto simp: heap_range_def)
  obtain w where w: "vread32 s (of_nat ?b) = ret w" "\<not> hdr_used w" using read_hdr [OF i(1) r t(2)] by blast
  have "of_nat (?b + 4) - BLOCK_HEADER_SIZE = (of_nat ?b :: addr)" by simp
  then show ?thesis using w by (simp add: HeapFree_def Let_def del: of_nat_add)
qed

subsection \<open>Listing the blocks\<close>

text \<open>The blocks with their addresses, as \<^verbatim>\<open>Heap::Dump\<close> prints them.\<close>

fun block_table :: "nat \<Rightarrow> blocks \<Rightarrow> (addr \<times> u32 \<times> bool) list" where
  "block_table a [] = []"
| "block_table a ((n, u) # bs) = (of_nat a, of_nat n, u) # block_table (a + n) bs"

lemma Dump_loop_ok:
  assumes "heap_map L s" "lastBlock s = of_nat (4096 * L)" "tiles (view s) a bs" "heap_range L a (total bs)"
    "a + total bs = 4096 * L"
  shows "Dump_loop (of_nat a) s = ret (block_table a bs)"
  using assms(3-5)
proof (induction bs arbitrary: a)
  case Nil
  then show ?case using assms(2) by (subst Dump_loop.simps) simp
next
  case (Cons b bs)
  obtain n u where b: "b = (n, u)" by (cases b)
  have n: "5 \<le> n" "hdr_at (view s) a = (n, u)" "tiles (view s) (a + n) bs" using Cons.prems(1) b by auto
  have r: "heap_range L a n" "4 \<le> n" "heap_range L (a + n) (total bs)"
    using Cons.prems(2) b n(1) by (auto simp: heap_range_def)
  have lt: "a < 4294967296" "4096 * L < 4294967296" "a < 4096 * L"
    using r(1) n(1) by (auto simp: heap_range_def)
  obtain w where w: "vread32 s (of_nat a) = ret w" "hdr_size w = of_nat n" "hdr_used w = u"
    using read_hdr [OF assms(1) r(1,2) n(2)] by blast
  have less: "(of_nat a :: addr) < lastBlock s" unfolding assms(2) using lt by (simp only: u32_of_nat_less)
  have "Dump_loop (of_nat (a + n)) s = ret (block_table (a + n) bs)"
    by (rule Cons.IH) (use n r Cons.prems(3) b in auto)
  then show ?case using less w b by (subst Dump_loop.simps) simp
qed

lemma Heap_Dump_ok: "heap_inv s bs \<Longrightarrow> Heap_Dump s = ret (block_table 16777216 bs)"
proof -
  assume "heap_inv s bs"
  note i = heap_invD [OF this]
  show ?thesis unfolding Heap_Dump_def i(8) by (rule Dump_loop_ok [OF i(1,2,3,5,4)])
qed

subsection \<open>The pointers in use\<close>

fun used_ptrs :: "nat \<Rightarrow> blocks \<Rightarrow> nat set" where
  "used_ptrs a [] = {}"
| "used_ptrs a ((n, u) # bs) = (if u then {a + 4} else {}) \<union> used_ptrs (a + n) bs"

lemma used_ptrs_append [simp]: "used_ptrs a (xs @ ys) = used_ptrs a xs \<union> used_ptrs (a + total xs) ys"
  by (induction a xs rule: used_ptrs.induct) (auto simp: add.assoc)

lemma used_ptrs_bounds: "tiles M a bs \<Longrightarrow> x \<in> used_ptrs a bs \<Longrightarrow> a + 4 \<le> x \<and> x < a + total bs"
  by (induction a bs rule: used_ptrs.induct) (fastforce split: if_splits)+

lemma used_ptrs_split:
  assumes "x \<in> used_ptrs a bs"
  obtains pre n post where "bs = pre @ (n, True) # post" "x = a + total pre + 4"
  using assms
proof (induction a bs arbitrary: thesis rule: used_ptrs.induct)
  case (2 a n u bs)
  show ?case
  proof (cases "u \<and> x = a + 4")
    case True
    then show ?thesis using "2.prems"(1) [of "[]" n bs] by simp
  next
    case False
    then have "x \<in> used_ptrs (a + n) bs" using "2.prems"(2) by (auto split: if_splits)
    then obtain pre m post where "bs = pre @ (m, True) # post" "x = a + n + total pre + 4"
      using "2.IH" by blast
    then show ?thesis using "2.prems"(1) [of "(n, u) # pre" m post] by (simp add: add.assoc)
  qed
qed simp

lemma used_ptrs_free: "(\<And>b. b \<in> set bs \<Longrightarrow> \<not> snd b) \<Longrightarrow> used_ptrs a bs = {}"
  by (induction a bs rule: used_ptrs.induct) force+

lemma tiles_unique: "tiles M a bs \<Longrightarrow> tiles M a bs' \<Longrightarrow> total bs = total bs' \<Longrightarrow> bs = bs'"
proof (induction bs arbitrary: a bs')
  case Nil
  then show ?case by (cases bs') (auto simp: neq_Nil_conv)
next
  case (Cons b bs)
  then obtain n u where b: "b = (n, u)" by (cases b)
  with Cons.prems obtain n' u' cs where c: "bs' = (n', u') # cs" by (cases bs') auto
  with Cons.prems b have "n = n'" "u = u'" by auto
  then show ?case using Cons.IH [of "a + n" cs] Cons.prems b c by auto
qed

definition heap_ok :: "'z kheap_scheme \<Rightarrow> bool" where
  "heap_ok s \<longleftrightarrow> (\<exists>bs. heap_inv s bs)"

definition live_ptrs :: "'z kheap_scheme \<Rightarrow> addr set" where
  "live_ptrs s = {p. \<exists>bs. heap_inv s bs \<and> p \<in> of_nat ` used_ptrs 16777216 bs}"

lemma heap_inv_unique: "heap_inv s bs \<Longrightarrow> heap_inv s bs' \<Longrightarrow> bs = bs'"
  unfolding heap_inv_def by (metis add_left_cancel tiles_unique)

lemma live_ptrs_eq: "heap_inv s bs \<Longrightarrow> live_ptrs s = of_nat ` used_ptrs 16777216 bs"
  unfolding live_ptrs_def using heap_inv_unique by blast

lemma used_ptrs_range:
  assumes "heap_inv s bs" "x \<in> used_ptrs 16777216 bs"
  shows "16777220 \<le> x" "x < 4096 * last_page s" "x < 4294967296"
  using used_ptrs_bounds [OF heap_invD(3) [OF assms(1)] assms(2)] heap_invD(4,6) [OF assms(1)] by auto

lemma used_ptrs_alloc:
  assumes inv: "heap_inv s bs" and sz: "5 \<le> sz"
  shows "used_ptrs 16777216 (alloc_list sz bs) = insert (alloc_addr sz bs + 4) (used_ptrs 16777216 bs)"
    and "alloc_addr sz bs + 4 \<notin> used_ptrs 16777216 bs" and "alloc_addr sz bs \<le> 4096 * last_page s"
proof -
  note i = heap_invD [OF inv]
  let ?pre = "takeWhile (\<lambda>b. \<not> fits sz b) bs"
  have pl: "used_ptrs a (place sz n) = {a + 4}" for a n by (simp add: place_def)
  have bs: "bs = ?pre @ dropWhile (\<lambda>b. \<not> fits sz b) bs" by simp
  have tp: "tiles (view s) 16777216 ?pre" "tiles (view s) (alloc_addr sz bs) (dropWhile (\<lambda>b. \<not> fits sz b) bs)"
    using i(3) bs tiles_append unfolding alloc_addr_def by metis+
  have tot: "total bs = total ?pre + total (dropWhile (\<lambda>b. \<not> fits sz b) bs)" using bs total_simps(3) by metis
  show "alloc_addr sz bs \<le> 4096 * last_page s" using tot i(4) by (simp add: alloc_addr_def)
  have split: "used_ptrs 16777216 bs =
      used_ptrs 16777216 ?pre \<union> used_ptrs (alloc_addr sz bs) (dropWhile (\<lambda>b. \<not> fits sz b) bs)"
    using bs used_ptrs_append unfolding alloc_addr_def by metis
  show "used_ptrs 16777216 (alloc_list sz bs) = insert (alloc_addr sz bs + 4) (used_ptrs 16777216 bs)"
  proof (cases "dropWhile (\<lambda>b. \<not> fits sz b) bs")
    case Nil
    then show ?thesis unfolding split alloc_list_def Nil by (simp add: pl alloc_addr_def)
  next
    case (Cons b rest)
    obtain n u where b: "b = (n, u)" by (cases b)
    then have "\<not> u" "sz \<le> n" using Cons by (auto simp: dropWhile_eq_Cons_conv fits_def)
    then show ?thesis unfolding split Cons b by (simp add: alloc_list_def pl Cons b alloc_addr_def)
  qed
  show "alloc_addr sz bs + 4 \<notin> used_ptrs 16777216 bs"
  proof
    assume "alloc_addr sz bs + 4 \<in> used_ptrs 16777216 bs"
    then consider "alloc_addr sz bs + 4 \<in> used_ptrs 16777216 ?pre"
      | "alloc_addr sz bs + 4 \<in> used_ptrs (alloc_addr sz bs) (dropWhile (\<lambda>b. \<not> fits sz b) bs)"
      unfolding split by blast
    then show False
    proof cases
      case 1
      then show False using used_ptrs_bounds [OF tp(1)] by (fastforce simp: alloc_addr_def)
    next
      case 2
      then obtain n u rest where d: "dropWhile (\<lambda>b. \<not> fits sz b) bs = (n, u) # rest"
        by (cases "dropWhile (\<lambda>b. \<not> fits sz b) bs") auto
      then have "\<not> u" by (auto simp: dropWhile_eq_Cons_conv fits_def)
      then have "alloc_addr sz bs + 4 \<in> used_ptrs (alloc_addr sz bs + n) rest" using 2 d by simp
      moreover have "tiles (view s) (alloc_addr sz bs + n) rest" "5 \<le> n" using tp(2) unfolding d by auto
      ultimately show False using used_ptrs_bounds by fastforce
    qed
  qed
qed

lemma used_ptrs_free_list:
  assumes "heap_inv s (pre @ (n, True) # post)"
  shows "used_ptrs 16777216 (pre @ free_list n post) =
    used_ptrs 16777216 (pre @ (n, True) # post) - {16777216 + total pre + 4}"
proof -
  note i = heap_invD [OF assms]
  let ?b = "16777216 + total pre"
  let ?t = "takeWhile (\<lambda>b. \<not> snd b) post" and ?d = "dropWhile (\<lambda>b. \<not> snd b) post"
  have t: "tiles (view s) 16777216 pre" "5 \<le> n" "tiles (view s) (?b + n) post" using i(3) by auto
  have "used_ptrs (?b + n) ?t = {}" by (rule used_ptrs_free) (metis set_takeWhileD)
  moreover have "used_ptrs (?b + n) (?t @ ?d) = used_ptrs (?b + n) ?t \<union> used_ptrs (?b + n + total ?t) ?d"
    by (rule used_ptrs_append)
  ultimately have post: "used_ptrs (?b + n) post = used_ptrs (?b + n + total ?t) ?d" by simp
  have notin: "?b + 4 \<notin> used_ptrs 16777216 pre" "?b + 4 \<notin> used_ptrs (?b + n) post"
    using used_ptrs_bounds [OF t(1), of "?b + 4"] used_ptrs_bounds [OF t(3), of "?b + 4"] t(2) by auto
  have "used_ptrs 16777216 (pre @ free_list n post) = used_ptrs 16777216 pre \<union> used_ptrs (?b + n) post"
    unfolding post by (simp add: free_list_def add.assoc)
  with notin show ?thesis by auto
qed

subsection \<open>The heap as an allocator\<close>

text \<open>Enough free page frames for the worst case of an allocation.\<close>

definition heap_ready :: "int list \<Rightarrow> 'z kheap_scheme \<Rightarrow> bool" where
  "heap_ready ns s \<longleftrightarrow> (\<Sum>n\<leftarrow>ns. n_pages (nat n + 4)) \<le> free_frames s"

lemma HeapAlloc_cases:
  assumes "heap_inv s bs" "0 < n" "n < 2147483648" "heap_ready (n # ns) s"
  shows "HeapAlloc n s = halt Panicked \<or>
    (\<exists>s'. HeapAlloc n s = ret (of_nat (alloc_addr (nat n + 4) bs + 4), s') \<and> heap_inv s' (alloc_list (nat n + 4) bs) \<and>
      heap_frame s s' \<and> heap_ready ns s')"
proof -
  have n: "0 < nat n" "nat n < 2147483648" "int (nat n) = n" using assms by auto
  have f: "n_pages (nat n + 4) \<le> free_frames s" using assms(4) by (simp add: heap_ready_def)
  show ?thesis
  proof (cases "some_fits (nat n + 4) bs \<or> last_page s + n_pages (nat n + 4) \<le> 262144")
    case True
    then obtain s' where s': "HeapAlloc n s = ret (of_nat (alloc_addr (nat n + 4) bs + 4), s')"
        "heap_inv s' (alloc_list (nat n + 4) bs)" "heap_frame s s'"
        "free_frames s' = free_frames s - (if some_fits (nat n + 4) bs then 0 else n_pages (nat n + 4))"
      using HeapAlloc_ok [OF assms(1) n(1,2)] f unfolding n(3) by blast
    moreover have "heap_ready ns s'" using assms(4) s'(4) by (cases "some_fits (nat n + 4) bs") (simp_all add: heap_ready_def)
    ultimately show ?thesis by blast
  next
    case False
    then show ?thesis using HeapAlloc_limit [OF assms(1) n(1,2)] unfolding n(3) by simp
  qed
qed

interpretation kheap: heap_allocator HeapAlloc HeapFree live_ptrs heap_ok heap_ready mergeable
proof
  fix s :: "'z kheap_scheme" and n :: int and ns
  assume "heap_ok s" "0 < n" "n < 2147483648" "heap_ready (n # ns) s"
  then show "safe (HeapAlloc n s)" using HeapAlloc_cases [of s _ n ns] unfolding heap_ok_def by (metis safe_panic safe_ret)
next
  fix s s' :: "'z kheap_scheme" and n :: int and p ns
  assume a: "heap_ok s" "0 < n" "n < 2147483648" "heap_ready (n # ns) s" "HeapAlloc n s = ret (p, s')"
  obtain bs where bs: "heap_inv s bs" using a(1) by (auto simp: heap_ok_def)
  let ?sz = "nat n + 4" let ?q = "alloc_addr ?sz bs + 4"
  have s': "p = of_nat ?q" "heap_inv s' (alloc_list ?sz bs)" "heap_ready ns s'"
    using HeapAlloc_cases [OF bs a(2-4)] a(5) by auto
  have sz: "5 \<le> ?sz" using a(2) by simp
  note u = used_ptrs_alloc [OF bs sz]
  have q: "?q \<in> used_ptrs 16777216 (alloc_list ?sz bs)" using u(1) by simp
  have qlt: "?q < 4294967296" "0 < ?q" using used_ptrs_range [OF s'(2) q] by auto
  have "p \<noteq> nullptr" using qlt unat_of_nat_u32 [OF qlt(1)] unfolding s'(1) by auto
  moreover have "p \<notin> live_ptrs s"
    unfolding live_ptrs_eq [OF bs] s'(1) using u(2) used_ptrs_range(3) [OF bs] qlt(1) of_nat_u32_eq_iff by fastforce
  moreover have "live_ptrs s' = insert p (live_ptrs s)"
    unfolding live_ptrs_eq [OF bs] live_ptrs_eq [OF s'(2)] u(1) s'(1) by simp
  moreover have "heap_ok s'" using s'(2) by (auto simp: heap_ok_def)
  ultimately show "p \<noteq> nullptr \<and> p \<notin> live_ptrs s \<and> live_ptrs s' = insert p (live_ptrs s) \<and> heap_ok s' \<and> heap_ready ns s'"
    using s'(3) by blast
next
  fix s :: "'z kheap_scheme" and p
  assume a: "heap_ok s" "mergeable s" "p \<in> live_ptrs s"
  obtain bs where bs: "heap_inv s bs" using a(1) by (auto simp: heap_ok_def)
  then obtain x where x: "x \<in> used_ptrs 16777216 bs" "p = of_nat x" using a(3) by (auto simp: live_ptrs_eq)
  obtain pre n post where d: "bs = pre @ (n, True) # post" "x = 16777216 + total pre + 4"
    using used_ptrs_split [OF x(1)] by blast
  obtain s' where s': "HeapFree p s = ret s'" "heap_inv s' (pre @ free_list n post)" "last_page s' = last_page s"
      "free_frames s' = free_frames s"
    using HeapFree_ok [OF bs [unfolded d(1)] a(2)] unfolding x(2) d(2) by blast
  have "inj_on (of_nat :: nat \<Rightarrow> addr) (used_ptrs 16777216 bs)"
    using used_ptrs_range(3) [OF bs] of_nat_u32_eq_iff by (auto simp: inj_on_def)
  then have "live_ptrs s' = live_ptrs s - {p}"
    unfolding live_ptrs_eq [OF bs] live_ptrs_eq [OF s'(2)] x(2)
      used_ptrs_free_list [OF bs [unfolded d(1)], folded d(1) d(2)]
    using x(1) by (auto simp: inj_on_def)
  then show "\<exists>s'. HeapFree p s = ret s' \<and> live_ptrs s' = live_ptrs s - {p} \<and> heap_ok s' \<and> mergeable s' \<and>
      (\<forall>ns. heap_ready ns s \<longrightarrow> heap_ready ns s')"
    using s' a(2) by (auto simp: heap_ok_def mergeable_def heap_ready_def)
qed (simp add: heap_ready_def)

subsection \<open>Initialisation\<close>

lemma Heap_Init_ok:
  assumes h: "heap_map 4096 s" and f: "0 < free_frames s"
  shows "\<exists>s'. Heap_Init s = ret s' \<and> heap_inv s' [(4096, False)] \<and> last_page s' = 4097 \<and>
    free_frames s' = free_frames s - 1 \<and> kheap.more s' = kheap.more s"
proof -
  define s0 where "s0 = s\<lparr>baseBlock := KERNEL_HEAP_V_BASE_ADDR, limitBlock := KERNEL_HEAP_V_LIMIT_ADDR,
      lastBlock := KERNEL_HEAP_V_BASE_ADDR\<rparr>"
  have lp: "last_page s0 = 4096" by (simp add: last_page_def s0_def frame_of_def)
  have mm: "mmu s0 v = mmu s v" for v by (simp add: s0_def mmu_def Let_def)
  have "page_frame s0 = page_frame s" by (simp add: fun_eq_iff page_frame_def mm)
  moreover have "kernel_space s0 = kernel_space s" by (simp add: kernel_space_def self_map_def entry_def s0_def)
  moreover have "used_pages s0 = used_pages s" "pmem s0 = pmem s" "cr3 s0 = cr3 s"
    by (simp_all add: s0_def used_pages_def)
  ultimately have "heap_map 4096 s0" using h unfolding heap_map_def mm by metis
  then have inv: "heap_inv s0 []" using lp by (simp add: heap_inv_def s0_def)
  have f0: "free_frames s0 = free_frames s" by (simp add: s0_def free_frames_def used_pages_def)
  obtain s' where s': "Sbrk 1 s0 = ret (lastBlock s0, s')" "heap_inv s' ([] @ [(4096, False)])" "last_page s' = 4097"
      "free_frames s' = free_frames s - 1" "heap_frame s0 s'"
    using Sbrk_ok [OF inv, of 1] f by (auto simp: lp f0)
  then have "kheap.more s' = kheap.more s" by (auto simp: heap_frame_def s0_def)
  then show ?thesis using s' by (auto simp: Heap_Init_def s0_def)
qed

end
