(* ===== verification/Page_Pool.thy ===== *)
theory Page_Pool
  imports Heap_Blocks
begin

section \<open>The page pool\<close>

text \<open>
  \<^verbatim>\<open>kernel/mem/PagePool.cpp\<close>: the virtual pages between 0x800000 and 0x1000000, handed out
  one at a time and backed by a fresh physical page. The \<^verbatim>\<open>PageBlock\<close> descriptors are one
  heap allocation; the store \<open>pblocks\<close> holds them by address. \<^verbatim>\<open>PageAlloc\<close> and
  \<^verbatim>\<open>PageFree\<close> are its two operations.
\<close>

subsection \<open>State and operations\<close>

record PageBlock =
  pb_available :: bool
  pb_addr :: addr
  pb_next :: addr
  pb_prev :: addr

record pool = kheap +
  pblocks :: "addr \<rightharpoonup> PageBlock"
  availPageList :: addr
  usedPageList :: addr
  pool_base :: addr
  pool_limit :: addr

abbreviation KERNEL_PAGE_POOL_V_BASE_ADDR :: addr where
  "KERNEL_PAGE_POOL_V_BASE_ADDR \<equiv> 0x800000"

abbreviation KERNEL_PAGE_POOL_V_LIMIT_ADDR :: addr where
  "KERNEL_PAGE_POOL_V_LIMIT_ADDR \<equiv> 0x1000000"

text \<open>Assigning members of the block at an address.\<close>

definition upd_block :: "addr \<Rightarrow> (PageBlock \<Rightarrow> PageBlock) \<Rightarrow> 'z pool_scheme \<Rightarrow> 'z pool_scheme exec" where
  "upd_block p f s = andThen (deref (pblocks s) p) (\<lambda>b. ret (s\<lparr>pblocks := (pblocks s)(p \<mapsto> f b)\<rparr>))"

text \<open>The loop of \<^verbatim>\<open>_InitPagesList\<close>: \<open>&blocks[index]\<close> is 16 bytes per element.\<close>

function init_blocks :: "addr \<Rightarrow> nat \<Rightarrow> nat \<Rightarrow> addr \<Rightarrow> 'z pool_scheme \<Rightarrow> 'z pool_scheme exec" where
  "init_blocks blocks index nbPages prev s =
     (if index < nbPages then
        let p = blocks + of_nat (16 * index);
            s1 = s\<lparr>pblocks := (pblocks s)(p \<mapsto> \<lparr>pb_available = True,
              pb_addr = pool_base s + of_nat index * PAGE_SIZE, pb_next = nullptr, pb_prev = prev\<rparr>)\<rparr>
        in andThen (if prev \<noteq> nullptr then upd_block prev (\<lambda>b. b\<lparr>pb_next := p\<rparr>) s1 else ret s1)
             (init_blocks blocks (index + 1) nbPages p)
      else ret s)"
  by pat_completeness auto
termination
  by (relation "measure (\<lambda>(_, i, n, _, _). n - i)") auto

declare init_blocks.simps [simp del]

definition InitPagesList :: "'z pool_scheme \<Rightarrow> 'z pool_scheme exec" where
  "InitPagesList s =
     (let areaSize = pool_limit s - pool_base s; nbPages = areaSize div PAGE_SIZE in
      andThen (HeapAlloc (sint (nbPages * 16)) s) (\<lambda>(blocks, s1).
        if blocks = nullptr then halt Panicked
        else andThen (init_blocks blocks 0 (unat nbPages) nullptr s1) (\<lambda>s2.
          ret (s2\<lparr>availPageList := blocks\<rparr>))))"

definition PagePool_Init :: "'z pool_scheme \<Rightarrow> 'z pool_scheme exec" where
  "PagePool_Init s =
     InitPagesList (s\<lparr>pool_base := KERNEL_PAGE_POOL_V_BASE_ADDR, pool_limit := KERNEL_PAGE_POOL_V_LIMIT_ADDR\<rparr>)"

definition PageAlloc :: "'z pool_scheme \<Rightarrow> (Page \<times> 'z pool_scheme) exec" where
  "PageAlloc s =
     (if availPageList s = nullptr then ret (\<lparr>pAddr = 0, vAddr = 0\<rparr>, s)
      else let newPage = availPageList s in
        andThen (deref (pblocks s) newPage) (\<lambda>nb. let s1 = s\<lparr>availPageList := pb_next nb\<rparr> in
        andThen (if availPageList s1 \<noteq> nullptr
                 then upd_block (availPageList s1) (\<lambda>b. b\<lparr>pb_prev := nullptr\<rparr>) s1 else ret s1) (\<lambda>s2.
        let headUsedPage = usedPageList s2 in
        andThen (upd_block newPage (\<lambda>b. b\<lparr>pb_available := False, pb_next := headUsedPage\<rparr>)
            (s2\<lparr>usedPageList := newPage\<rparr>)) (\<lambda>s3.
        andThen (if headUsedPage \<noteq> nullptr
                 then upd_block headUsedPage (\<lambda>b. b\<lparr>pb_prev := newPage\<rparr>) s3 else ret s3) (\<lambda>s4.
        let (p, s5) = GetFreePage s4 in
        andThen (deref (pblocks s5) newPage) (\<lambda>nb'.
        andThen (AddPageToKernelPageDirectory (pb_addr nb') p (PAGE_PRESENT OR PAGE_WRITEABLE) s5) (\<lambda>s6.
          ret (\<lparr>pAddr = p, vAddr = pb_addr nb'\<rparr>, s6))))))))"

text \<open>
  The loop of \<^verbatim>\<open>PagePool::Free\<close>. Taken from the middle of the used list, a block is not
  unlinked from its predecessor.
\<close>

partial_function (option) free_page_loop :: "Page \<Rightarrow> addr \<Rightarrow> 'z pool_scheme \<Rightarrow> 'z pool_scheme exec" where
  "free_page_loop page usedPage s =
     (if usedPage = nullptr then ret s
      else andThen (deref (pblocks s) usedPage) (\<lambda>ub.
        if pb_addr ub = vAddr page then
          andThen
            (if usedPage = usedPageList s then ret (s\<lparr>usedPageList := pb_next ub\<rparr>)
             else andThen (upd_block usedPage (\<lambda>b. b\<lparr>pb_prev := pb_next b\<rparr>) s) (\<lambda>s1.
               if pb_next ub \<noteq> nullptr then
                 andThen (deref (pblocks s1) usedPage) (\<lambda>ub1.
                   upd_block (pb_next ub) (\<lambda>b. b\<lparr>pb_prev := pb_prev ub1\<rparr>) s1)
               else ret s1)) (\<lambda>s2.
          andThen (upd_block (availPageList s2) (\<lambda>b. b\<lparr>pb_prev := usedPage\<rparr>) s2) (\<lambda>s3.
          andThen (upd_block usedPage (\<lambda>b. b\<lparr>pb_next := availPageList s3, pb_available := True\<rparr>) s3) (\<lambda>s4.
            ret (ReleasePage (pAddr page) (s4\<lparr>availPageList := usedPage\<rparr>)))))
        else free_page_loop page (pb_next ub) s))"

definition PageFree :: "Page \<Rightarrow> 'z pool_scheme \<Rightarrow> 'z pool_scheme exec" where
  "PageFree page s = free_page_loop page (usedPageList s) s"


subsection \<open>The two lists\<close>

abbreviation block_of :: "'z pool_scheme \<Rightarrow> addr \<Rightarrow> PageBlock" where
  "block_of s a \<equiv> the (pblocks s a)"

text \<open>
  The available and the used blocks are two separate chains; every block stands for its own
  page of the pool.
\<close>

definition pool_inv :: "'z pool_scheme \<Rightarrow> addr list \<Rightarrow> addr list \<Rightarrow> bool" where
  "pool_inv s as us \<longleftrightarrow>
     chain pb_next (pblocks s) (availPageList s) as \<and> chain pb_next (pblocks s) (usedPageList s) us \<and>
     set as \<inter> set us = {} \<and>
     (\<forall>a \<in> set as. pb_available (block_of s a)) \<and> (\<forall>a \<in> set us. \<not> pb_available (block_of s a)) \<and>
     inj_on (\<lambda>a. pb_addr (block_of s a)) (set as \<union> set us) \<and>
     (\<forall>a \<in> set as \<union> set us. \<exists>q. 2048 \<le> q \<and> q < 4096 \<and> pb_addr (block_of s a) = phys q 0)"

lemma upd_block_Some:
  "p \<noteq> nullptr \<Longrightarrow> pblocks s p = Some b \<Longrightarrow> upd_block p f s = ret (s\<lparr>pblocks := (pblocks s)(p \<mapsto> f b)\<rparr>)"
  by (simp add: upd_block_def)

text \<open>Changing only the back pointers of a store.\<close>

definition same_blocks :: "addr set \<Rightarrow> (addr \<rightharpoonup> PageBlock) \<Rightarrow> (addr \<rightharpoonup> PageBlock) \<Rightarrow> bool" where
  "same_blocks A m m' \<longleftrightarrow> (\<forall>a. a \<notin> A \<longrightarrow>
     map_option (\<lambda>b. b\<lparr>pb_prev := nullptr\<rparr>) (m' a) = map_option (\<lambda>b. b\<lparr>pb_prev := nullptr\<rparr>) (m a))"

lemma same_blocks_refl [simp]: "same_blocks A m m"
  by (simp add: same_blocks_def)

lemma same_blocks_trans: "same_blocks A m m1 \<Longrightarrow> same_blocks A m1 m2 \<Longrightarrow> same_blocks A m m2"
  by (simp add: same_blocks_def)

lemma same_blocks_prev: "m a = Some b \<Longrightarrow> same_blocks A m (m(a \<mapsto> b\<lparr>pb_prev := p\<rparr>))"
  by (simp add: same_blocks_def)

lemma same_blocksD:
  assumes "same_blocks A m m'" "a \<notin> A"
  shows "map_option pb_next (m' a) = map_option pb_next (m a)"
    "m a \<noteq> None \<Longrightarrow> pb_available (the (m' a)) = pb_available (the (m a)) \<and>
      pb_addr (the (m' a)) = pb_addr (the (m a)) \<and> m' a \<noteq> None"
proof -
  have eq: "map_option (\<lambda>b. b\<lparr>pb_prev := nullptr\<rparr>) (m' a) = map_option (\<lambda>b. b\<lparr>pb_prev := nullptr\<rparr>) (m a)"
    using assms by (simp add: same_blocks_def)
  have ext: "pb_next b = pb_next c \<and> pb_available b = pb_available c \<and> pb_addr b = pb_addr c"
    if "b\<lparr>pb_prev := nullptr\<rparr> = c\<lparr>pb_prev := nullptr\<rparr>" for b c :: PageBlock
    using that by (cases b; cases c) simp
  have both: "(m a = None \<and> m' a = None) \<or> (\<exists>b c. m' a = Some b \<and> m a = Some c \<and>
      pb_next b = pb_next c \<and> pb_available b = pb_available c \<and> pb_addr b = pb_addr c)"
  proof (cases "m a")
    case (Some c)
    then obtain b where "m' a = Some b" "b\<lparr>pb_prev := nullptr\<rparr> = c\<lparr>pb_prev := nullptr\<rparr>"
      using eq by (cases "m' a") simp_all
    then show ?thesis using ext Some by blast
  qed (use eq in simp)
  then show "map_option pb_next (m' a) = map_option pb_next (m a)" by auto
  show "pb_available (the (m' a)) = pb_available (the (m a)) \<and>
      pb_addr (the (m' a)) = pb_addr (the (m a)) \<and> m' a \<noteq> None" if "m a \<noteq> None"
    using both that by auto
qed

text \<open>The list part of an allocation: the head of the available list becomes the head of the used list.\<close>

lemma pool_take:
  assumes inv: "pool_inv s (a # as) us"
  obtains m where "PageAlloc s =
      (let (p, s5) = GetFreePage (s\<lparr>pblocks := m, availPageList := pb_next (block_of s a), usedPageList := a\<rparr>) in
       andThen (AddPageToKernelPageDirectory (pb_addr (block_of s a)) p (PAGE_PRESENT OR PAGE_WRITEABLE) s5)
         (\<lambda>s6. ret (\<lparr>pAddr = p, vAddr = pb_addr (block_of s a)\<rparr>, s6)))"
    "same_blocks {a} (pblocks s) m" "m a = Some ((block_of s a)\<lparr>pb_available := False, pb_next := usedPageList s\<rparr>)"
proof -
  let ?m = "pblocks s" let ?h = "usedPageList s"
  have ch: "chain pb_next ?m (availPageList s) (a # as)" "chain pb_next ?m ?h us" "a \<notin> set us"
    using inv by (auto simp: pool_inv_def)
  have dist: "a \<notin> set as" using chain_distinct [OF ch(1)] by simp
  obtain nb where nb: "?m a = Some nb" "a \<noteq> nullptr" "availPageList s = a" "chain pb_next ?m (pb_next nb) as"
    using ch(1) by (auto split: option.splits)
  define s1 where "s1 = s\<lparr>availPageList := pb_next nb\<rparr>"
  obtain m1 where m1: "(if availPageList s1 \<noteq> nullptr then upd_block (availPageList s1) (\<lambda>b. b\<lparr>pb_prev := nullptr\<rparr>) s1
      else ret s1) = ret (s1\<lparr>pblocks := m1\<rparr>)" "same_blocks {a} ?m m1" "m1 a = ?m a"
  proof (cases "pb_next nb = nullptr")
    case True
    then show ?thesis by (intro that [of ?m]) (simp_all add: s1_def)
  next
    case False
    then obtain e es where e: "as = pb_next nb # es" "?m (pb_next nb) = Some e"
      using nb(4) by (auto simp: chain_nonnull)
    show ?thesis
      by (rule that [of "?m(pb_next nb \<mapsto> e\<lparr>pb_prev := nullptr\<rparr>)"])
        (use e False dist in \<open>auto simp: s1_def upd_block_Some same_blocks_prev\<close>)
  qed
  define m2 where "m2 = m1(a \<mapsto> nb\<lparr>pb_available := False, pb_next := ?h\<rparr>)"
  have sb2: "same_blocks {a} ?m m2" using m1(2) by (simp add: same_blocks_def m2_def)
  define s3 where "s3 = s1\<lparr>pblocks := m2, usedPageList := a\<rparr>"
  have u3: "upd_block a (\<lambda>b. b\<lparr>pb_available := False, pb_next := ?h\<rparr>) (s1\<lparr>pblocks := m1, usedPageList := a\<rparr>) = ret s3"
    using nb(1,2) m1(3) by (simp add: upd_block_Some s3_def m2_def)
  obtain m3 where m3: "(if ?h \<noteq> nullptr then upd_block ?h (\<lambda>b. b\<lparr>pb_prev := a\<rparr>) s3 else ret s3) = ret (s3\<lparr>pblocks := m3\<rparr>)"
      "same_blocks {a} ?m m3" "m3 a = m2 a"
  proof (cases "?h = nullptr")
    case True
    then show ?thesis by (intro that [of m2]) (simp_all add: s3_def sb2)
  next
    case False
    then obtain e es where e: "us = ?h # es" "?m ?h = Some e" using ch(2) by (auto simp: chain_nonnull)
    then have ne: "?h \<noteq> a" using ch(3) by auto
    obtain e' where e': "m2 ?h = Some e'" using same_blocksD(2) [OF sb2, of ?h] ne e by auto
    show ?thesis
      by (rule that [of "m2(?h \<mapsto> e'\<lparr>pb_prev := a\<rparr>)"])
        (use e' False ne same_blocks_trans [OF sb2 same_blocks_prev] in \<open>auto simp: s3_def upd_block_Some\<close>)
  qed
  have a3: "m3 a = Some (nb\<lparr>pb_available := False, pb_next := ?h\<rparr>)" using m3(3) by (simp add: m2_def)
  have "PageAlloc s =
      (let (p, s5) = GetFreePage (s\<lparr>pblocks := m3, availPageList := pb_next nb, usedPageList := a\<rparr>) in
       andThen (AddPageToKernelPageDirectory (pb_addr nb) p (PAGE_PRESENT OR PAGE_WRITEABLE) s5)
         (\<lambda>s6. ret (\<lparr>pAddr = p, vAddr = pb_addr nb\<rparr>, s6)))"
  proof -
    have bm: "pblocks (snd (GetFreePage t)) = pblocks t" for t :: "'a pool_scheme"
      by (simp add: GetFreePage_def split: option.splits)
    have s4: "s3\<lparr>pblocks := m3\<rparr> = s\<lparr>pblocks := m3, availPageList := pb_next nb, usedPageList := a\<rparr>"
      by (simp add: s3_def s1_def)
    have d: "deref (pblocks (snd (GetFreePage (s3\<lparr>pblocks := m3\<rparr>)))) a = ret (nb\<lparr>pb_available := False, pb_next := ?h\<rparr>)"
      using a3 nb(2) by (simp add: bm)
    have h: "usedPageList (s1\<lparr>pblocks := m1\<rparr>) = ?h" by (simp add: s1_def)
    have d0: "deref ?m a = ret nb" using nb by simp
    have f: "pb_addr (nb\<lparr>pb_available := False, pb_next := ?h\<rparr>) = pb_addr nb" by simp
    show ?thesis
      unfolding PageAlloc_def nb(3) Let_def s4 [symmetric]
      by (simp only: d0 andThen_ret nb(2) if_False s1_def [symmetric] m1(1) h u3 m3(1) case_prod_unfold d f)
  qed
  then show ?thesis using that [of m3] m3(2) a3 nb(1) by simp
qed

text \<open>What only touches the block store and the list heads does not change memory.\<close>

lemma machine_same:
  assumes "pmem s' = pmem s" "cr3 s' = cr3 s" "paging s' = paging s" "memBitmap s' = memBitmap s"
  shows "mmu s' v = mmu s v" "view s' = view s" "heap_map L s' = heap_map L s"
    "used_pages s' = used_pages s" "free_frames s' = free_frames s"
proof -
  show mm: "mmu s' v = mmu s v" for v using assms by (simp add: mmu_def Let_def)
  show "view s' = view s" by (rule ext) (simp only: view_def mm assms(1))
  show up: "used_pages s' = used_pages s" using assms(4) by (simp add: used_pages_def)
  then show "free_frames s' = free_frames s" by (simp add: free_frames_def)
  have "kernel_space s' = kernel_space s" using assms by (simp add: kernel_space_def self_map_def entry_def)
  moreover have "page_frame s' = page_frame s" by (rule ext) (simp add: page_frame_def mm)
  ultimately show "heap_map L s' = heap_map L s" unfolding heap_map_def mm assms(1,2) up by simp
qed

lemma inj_on_same: "inj_on f A \<Longrightarrow> (\<And>x. x \<in> A \<Longrightarrow> g x = f x) \<Longrightarrow> inj_on g A"
  by (simp add: inj_on_def)

lemma pool_inv_take:
  assumes inv: "pool_inv s (a # as) us" and m: "same_blocks {a} (pblocks s) m"
    "m a = Some ((block_of s a)\<lparr>pb_available := False, pb_next := usedPageList s\<rparr>)"
    and s': "pblocks s' = m" "availPageList s' = pb_next (block_of s a)" "usedPageList s' = a"
  shows "pool_inv s' as (a # us)"
proof -
  have ch: "chain pb_next (pblocks s) (availPageList s) (a # as)" "chain pb_next (pblocks s) (usedPageList s) us"
    using inv by (auto simp: pool_inv_def)
  have d: "a \<notin> set as" "a \<notin> set us" "a \<noteq> nullptr" "pblocks s a \<noteq> None"
      "chain pb_next (pblocks s) (pb_next (block_of s a)) as"
    using chain_distinct [OF ch(1)] inv ch(1) by (auto simp: pool_inv_def split: option.splits)
  have nxt: "map_option pb_next (m x) = map_option pb_next (pblocks s x)" if "x \<noteq> a" for x
    using same_blocksD(1) [OF m(1)] that by simp
  have c: "chain pb_next m p ps = chain pb_next (pblocks s) p ps" if "a \<notin> set ps" for p ps
    by (rule chain_cong) (use nxt that in metis)
  have dom: "pblocks s x \<noteq> None" if "x \<in> set as \<union> set us" for x
    using chain_dom [OF d(5)] chain_dom [OF ch(2)] that by auto
  have blk: "pb_available (the (m x)) = pb_available (block_of s x) \<and> pb_addr (the (m x)) = pb_addr (block_of s x)"
    if "x \<in> set as \<union> set us" for x
  proof -
    have "x \<notin> {a}" using that d(1,2) by auto
    then show ?thesis using same_blocksD(2) [OF m(1) _ dom [OF that]] by blast
  qed
  have addr: "pb_addr (the (m x)) = pb_addr (block_of s x)" if "x \<in> set (a # as) \<union> set us" for x
    using blk m(2) that by (cases "x = a") auto
  have sets: "set as \<union> set (a # us) = set (a # as) \<union> set us" by auto
  have inj: "inj_on (\<lambda>a. pb_addr (the (m a))) (set as \<union> set (a # us))"
  proof -
    have "inj_on (\<lambda>a. pb_addr (block_of s a)) (set (a # as) \<union> set us)" using inv unfolding pool_inv_def by blast
    then show ?thesis unfolding sets by (rule inj_on_same) (rule addr)
  qed
  show ?thesis
    unfolding pool_inv_def s'
  proof (intro conjI ballI)
    show "chain pb_next m (pb_next (block_of s a)) as" using c [OF d(1)] d(5) by simp
    show "chain pb_next m a (a # us)" using c [OF d(2)] ch(2) d(3) m(2) by simp
    show "set as \<inter> set (a # us) = {}" using inv d(1) by (auto simp: pool_inv_def)
    show "pb_available (the (m x))" if "x \<in> set as" for x using inv blk that by (simp add: pool_inv_def)
    show "\<not> pb_available (the (m x))" if "x \<in> set (a # us)" for x
      using inv blk [of x] that m(2) by (cases "x = a") (simp_all add: pool_inv_def)
    show "\<exists>q\<ge>2048. q < 4096 \<and> pb_addr (the (m x)) = phys q 0" if "x \<in> set as \<union> set (a # us)" for x
      using inv addr [of x] that unfolding sets by (auto simp: pool_inv_def)
  qed (rule inj)
qed

lemma PageAlloc_ok:
  assumes inv: "pool_inv s (a # as) us" and h: "heap_map L s" and f: "0 < free_frames s"
  obtains p s' where "PageAlloc s = ret (\<lparr>pAddr = phys p 0, vAddr = pb_addr (block_of s a)\<rparr>, s')"
    "pool_inv s' as (a # us)" "heap_map L s'" "agree L (view s') (view s)"
    "p \<notin> used_pages s" "p < RAM_MAXPAGE" "used_pages s' = insert p (used_pages s)"
    "mmu s' (pb_addr (block_of s a)) = Some (phys p 0)"
    "lastBlock s' = lastBlock s" "baseBlock s' = baseBlock s" "pb_addr (block_of s' a) = pb_addr (block_of s a)"
proof -
  obtain m where m: "PageAlloc s =
      (let (p, s5) = GetFreePage (s\<lparr>pblocks := m, availPageList := pb_next (block_of s a), usedPageList := a\<rparr>) in
       andThen (AddPageToKernelPageDirectory (pb_addr (block_of s a)) p (PAGE_PRESENT OR PAGE_WRITEABLE) s5)
         (\<lambda>s6. ret (\<lparr>pAddr = p, vAddr = pb_addr (block_of s a)\<rparr>, s6)))"
    "same_blocks {a} (pblocks s) m" "m a = Some ((block_of s a)\<lparr>pb_available := False, pb_next := usedPageList s\<rparr>)"
    using pool_take [OF inv] by blast
  define s4 where "s4 = s\<lparr>pblocks := m, availPageList := pb_next (block_of s a), usedPageList := a\<rparr>"
  have eq4: "pmem s4 = pmem s" "cr3 s4 = cr3 s" "paging s4 = paging s" "memBitmap s4 = memBitmap s"
    by (simp_all add: s4_def)
  note m4 = machine_same [OF eq4]
  have h4: "heap_map L s4" using h m4(3) by simp
  have low: "{..<2048} \<subseteq> used_pages s4" using h4 by (simp add: heap_map_def)
  obtain p b where p: "GetFreePage s4 = (phys p 0, s4\<lparr>memBitmap := b\<rparr>)" "p < RAM_MAXPAGE" "p \<notin> used_pages s4"
      "used_pages (s4\<lparr>memBitmap := b\<rparr>) = insert p (used_pages s4)"
    using GetFreePage_frame [of s4, OF _ low] f m4(5) by metis
  have h5: "heap_map L (s4\<lparr>memBitmap := b\<rparr>)" by (rule heap_map_bitmap [OF h4]) (use p(4) in auto)
  obtain q where q: "q < 4096" "pb_addr (block_of s a) = phys q 0" using inv by (auto simp: pool_inv_def)
  obtain m6 where m6: "AddPageToKernelPageDirectory (phys q 0) (phys p 0) 3 (s4\<lparr>memBitmap := b\<rparr>) =
        ret (s4\<lparr>memBitmap := b, pmem := m6\<rparr>)" "heap_map L (s4\<lparr>memBitmap := b, pmem := m6\<rparr>)"
      "agree L (view (s4\<lparr>memBitmap := b, pmem := m6\<rparr>)) (view (s4\<lparr>memBitmap := b\<rparr>))"
      "mmu (s4\<lparr>memBitmap := b, pmem := m6\<rparr>) (phys q 0) = Some (phys (frame_of (phys p 0)) 0)"
    using heap_map_below [OF h5 q(1)] by blast
  let ?s' = "s4\<lparr>memBitmap := b, pmem := m6\<rparr>"
  have "pool_inv ?s' as (a # us)"
    by (rule pool_inv_take [OF inv m(2,3)]) (simp_all add: s4_def)
  moreover have "PageAlloc s = ret (\<lparr>pAddr = phys p 0, vAddr = pb_addr (block_of s a)\<rparr>, ?s')"
    using m6(1) unfolding m(1) s4_def [symmetric] p(1) q(2) by simp
  moreover have "agree L (view ?s') (view s)" using m6(3) m4(2) by simp
  moreover have "used_pages ?s' = insert p (used_pages s)" using p(4) m4(4) by (simp add: used_pages_def)
  moreover have "mmu ?s' (pb_addr (block_of s a)) = Some (phys p 0)" using m6(4) p(2) unfolding q(2) by simp
  ultimately show ?thesis
    using that m6(2) p(2,3) m4(4) m(3) by (simp add: s4_def)
qed

lemma heap_inv_same_view:
  assumes "heap_inv s bs" "heap_map (last_page s) s'" "agree (last_page s) (view s') (view s)"
    "lastBlock s' = lastBlock s" "baseBlock s' = baseBlock s"
  shows "heap_inv s' bs"
proof -
  note i = heap_invD [OF assms(1)]
  have lp: "last_page s' = last_page s" using assms(4) by (simp add: last_page_def)
  have "tiles (view s') 16777216 bs"
    by (rule tiles_cong [OF i(3,5)]) (use assms(3) in \<open>simp add: agree_def\<close>)
  then show ?thesis using assms i unfolding heap_inv_def lp by simp
qed

text \<open>Without a block left the caller gets the zero page.\<close>

lemma PageAlloc_empty: "pool_inv s [] us \<Longrightarrow> PageAlloc s = ret (\<lparr>pAddr = 0, vAddr = 0\<rparr>, s)"
  by (simp add: PageAlloc_def pool_inv_def)

subsection \<open>Freeing\<close>

text \<open>The page most recently handed out goes back to the head of the available list.\<close>

lemma PageFree_head:
  assumes inv: "pool_inv s (a # as) (u # us)" and pg: "vAddr pg = pb_addr (block_of s u)"
  shows "\<exists>s'. PageFree pg s = ret s' \<and> pool_inv s' (u # a # as) us \<and>
    used_pages s' = used_pages s - {unat (pAddr pg) div 4096}"
proof -
  let ?m = "pblocks s"
  have ch: "chain pb_next ?m (availPageList s) (a # as)" "chain pb_next ?m (usedPageList s) (u # us)"
      "u \<notin> set (a # as)" "a \<notin> set (u # us)"
    using inv by (auto simp: pool_inv_def)
  obtain ab where ab: "availPageList s = a" "a \<noteq> nullptr" "?m a = Some ab" "chain pb_next ?m (pb_next ab) as"
    using ch(1) by (auto split: option.splits)
  obtain ub where ub: "usedPageList s = u" "u \<noteq> nullptr" "?m u = Some ub" "chain pb_next ?m (pb_next ub) us"
    using ch(2) by (auto split: option.splits)
  have ne: "u \<noteq> a" "u \<notin> set us" "a \<notin> set as" "u \<notin> set as" "a \<notin> set us"
    using ch chain_distinct [OF ch(1)] chain_distinct [OF ch(2)] by auto
  define m' where "m' = ?m(a \<mapsto> ab\<lparr>pb_prev := u\<rparr>, u \<mapsto> ub\<lparr>pb_next := a, pb_available := True\<rparr>)"
  define s' where "s' = ReleasePage (pAddr pg) (s\<lparr>usedPageList := pb_next ub, pblocks := m', availPageList := u\<rparr>)"
  have "PageFree pg s = ret s'"
    unfolding PageFree_def using ab ub pg ne(1)
    by (subst free_page_loop.simps) (simp add: upd_block_Some s'_def m'_def)
  moreover have c: "chain pb_next m' (pb_next ab) as" "chain pb_next m' (pb_next ub) us"
    using ab(4) ub(4) ne by (simp_all add: m'_def)
  have "pool_inv s' (u # a # as) us"
  proof -
    have fields: "pblocks s' = m'" "availPageList s' = u" "usedPageList s' = pb_next ub"
      by (simp_all add: s'_def ReleasePage_def)
    have same: "m' x = ?m x" if "x \<in> set as \<union> set us" for x using that ne by (auto simp: m'_def)
    have addr: "pb_addr (the (m' x)) = pb_addr (block_of s x)" if "x \<in> set (a # as) \<union> set (u # us)" for x
      using that same [of x] ab(3) ub(3) by (auto simp: m'_def)
    have sets: "set (u # a # as) \<union> set us = set (a # as) \<union> set (u # us)" by auto
    show ?thesis
      unfolding pool_inv_def fields
    proof (intro conjI ballI)
      show "chain pb_next m' u (u # a # as)" using c(1) ab(2) ub(2) ne(1) by (simp add: m'_def)
      show "chain pb_next m' (pb_next ub) us" by (rule c(2))
      show "set (u # a # as) \<inter> set us = {}" using inv ne(2) by (auto simp: pool_inv_def)
      show "pb_available (the (m' x))" if "x \<in> set (u # a # as)" for x
      proof -
        have "pb_available (block_of s x)" if "x \<in> set (a # as)" using inv that by (auto simp: pool_inv_def)
        then show ?thesis using that same [of x] ab(3) by (auto simp: m'_def)
      qed
      show "\<not> pb_available (the (m' x))" if "x \<in> set us" for x
        using inv same [of x] that by (simp add: pool_inv_def)
      show "inj_on (\<lambda>x. pb_addr (the (m' x))) (set (u # a # as) \<union> set us)"
      proof -
        have "inj_on (\<lambda>a. pb_addr (block_of s a)) (set (a # as) \<union> set (u # us))"
          using inv unfolding pool_inv_def by blast
        then show ?thesis unfolding sets by (rule inj_on_same) (rule addr)
      qed
      show "\<exists>q\<ge>2048. q < 4096 \<and> pb_addr (the (m' x)) = phys q 0" if "x \<in> set (u # a # as) \<union> set us" for x
        using inv addr [of x] that unfolding sets by (auto simp: pool_inv_def)
    qed
  qed
  moreover have "used_pages s' = used_pages s - {unat (pAddr pg) div 4096}"
    unfolding s'_def used_pages_release by (simp add: used_pages_def)
  ultimately show ?thesis by blast
qed

text \<open>
  Freed from the second place, a page stays reachable from the used list: the list runs on
  through the freed block into the available pages.
\<close>

lemma PageFree_second:
  assumes inv: "pool_inv s (a # as) (v # u # us)" and pg: "vAddr pg = pb_addr (block_of s u)"
  shows "\<exists>s'. PageFree pg s = ret s' \<and>
    chain pb_next (pblocks s') (availPageList s') (u # a # as) \<and>
    chain pb_next (pblocks s') (usedPageList s') (v # u # a # as) \<and>
    (\<forall>x \<in> set (u # a # as). pb_available (block_of s' x))"
proof -
  let ?m = "pblocks s"
  have ch: "chain pb_next ?m (availPageList s) (a # as)" "chain pb_next ?m (usedPageList s) (v # u # us)"
      "set (a # as) \<inter> set (v # u # us) = {}"
    using inv by (auto simp: pool_inv_def)
  obtain ab where ab: "availPageList s = a" "a \<noteq> nullptr" "?m a = Some ab" "chain pb_next ?m (pb_next ab) as"
    using ch(1) by (auto split: option.splits)
  obtain vb ub where vb: "usedPageList s = v" "v \<noteq> nullptr" "?m v = Some vb" "pb_next vb = u" "u \<noteq> nullptr"
      "?m u = Some ub" "chain pb_next ?m (pb_next ub) us"
    using ch(2) by (auto split: option.splits)
  have ne: "u \<noteq> a" "u \<noteq> v" "a \<noteq> v" "u \<notin> set as" "v \<notin> set as" "a \<notin> set as" "u \<notin> set us" "a \<notin> set us" "v \<notin> set us"
    using ch(3) chain_distinct [OF ch(1)] chain_distinct [OF ch(2)] by auto
  have va: "pb_addr vb \<noteq> pb_addr ub"
  proof
    assume "pb_addr vb = pb_addr ub"
    moreover have "inj_on (\<lambda>a. pb_addr (block_of s a)) (set (a # as) \<union> set (v # u # us))"
      using inv by (simp add: pool_inv_def)
    ultimately show False using vb(3,6) ne(2) by (auto simp: inj_on_def)
  qed
  define m1 where "m1 = ?m(u \<mapsto> ub\<lparr>pb_prev := pb_next ub\<rparr>)"
  have "\<exists>m2. (if pb_next ub \<noteq> nullptr then
      andThen (deref m1 u) (\<lambda>ub1. upd_block (pb_next ub) (\<lambda>b. b\<lparr>pb_prev := pb_prev ub1\<rparr>) (s\<lparr>pblocks := m1\<rparr>))
      else ret (s\<lparr>pblocks := m1\<rparr>)) = ret (s\<lparr>pblocks := m2\<rparr>) \<and>
      (\<forall>x. x \<notin> set us \<longrightarrow> m2 x = m1 x)"
  proof (cases "pb_next ub = nullptr")
    case False
    then obtain e es where e: "us = pb_next ub # es" "?m (pb_next ub) = Some e"
      using vb(7) by (auto simp: chain_nonnull)
    then have "pb_next ub \<noteq> u" using ne(7) by auto
    with e False vb(5) show ?thesis
      by (intro exI [of _ "m1(pb_next ub \<mapsto> e\<lparr>pb_prev := pb_next ub\<rparr>)"])
        (auto simp: upd_block_def m1_def)
  qed auto
  then obtain m2 where m2: "(if pb_next ub \<noteq> nullptr then
      andThen (deref m1 u) (\<lambda>ub1. upd_block (pb_next ub) (\<lambda>b. b\<lparr>pb_prev := pb_prev ub1\<rparr>) (s\<lparr>pblocks := m1\<rparr>))
      else ret (s\<lparr>pblocks := m1\<rparr>)) = ret (s\<lparr>pblocks := m2\<rparr>)" "\<And>x. x \<notin> set us \<Longrightarrow> m2 x = m1 x" by blast
  have ua: "m2 u = Some (ub\<lparr>pb_prev := pb_next ub\<rparr>)" "m2 a = Some ab" "m2 v = Some vb"
    using m2(2) ne ab(3) vb(3) by (auto simp: m1_def)
  define m3 where "m3 = m2(a \<mapsto> ab\<lparr>pb_prev := u\<rparr>, u \<mapsto> ub\<lparr>pb_prev := pb_next ub, pb_next := a, pb_available := True\<rparr>)"
  define s' where "s' = ReleasePage (pAddr pg) (s\<lparr>pblocks := m3, availPageList := u\<rparr>)"
  have fields: "pblocks s' = m3" "availPageList s' = u" "usedPageList s' = v"
    using vb(1) by (simp_all add: s'_def ReleasePage_def)
  have step: "free_page_loop pg v s = free_page_loop pg u s"
    using vb(2,3,4,6) va pg by (subst free_page_loop.simps) simp
  have u1: "upd_block u (\<lambda>b. b\<lparr>pb_prev := pb_next b\<rparr>) s = ret (s\<lparr>pblocks := m1\<rparr>)"
    using vb(5,6) by (simp add: upd_block_Some m1_def)
  have rest: "andThen (upd_block a (\<lambda>b. b\<lparr>pb_prev := u\<rparr>) (s\<lparr>pblocks := m2\<rparr>)) (\<lambda>s3.
          andThen (upd_block u (\<lambda>b. b\<lparr>pb_next := availPageList s3, pb_available := True\<rparr>) s3) (\<lambda>s4.
            ret (ReleasePage (pAddr pg) (s4\<lparr>availPageList := u\<rparr>)))) = ret s'"
    using ab(1,2) vb(5) ua ne(1) by (simp add: upd_block_def s'_def m3_def)
  have av2: "availPageList (s\<lparr>pblocks := m2\<rparr>) = a" using ab(1) by simp
  have pb1: "pblocks (s\<lparr>pblocks := m1\<rparr>) = m1" by simp
  have fr: "free_page_loop pg u s = ret s'"
  proof -
    have d: "deref ?m u = ret ub" using vb(5,6) by simp
    have p: "pb_addr ub = vAddr pg" using pg vb(6) by simp
    have nu: "u \<noteq> usedPageList s" using ne(2) vb(1) by simp
    show ?thesis
      by (subst free_page_loop.simps)
        (simp only: vb(5) if_False d andThen_ret p if_True nu u1 m2(1) pb1 av2 rest simp_thms)
  qed
  have "chain pb_next m3 (pb_next ab) as"
  proof -
    have "m3 x = ?m x" if "x \<in> set as" for x
    proof -
      have "x \<notin> set us" using ch(3) that by auto
      then show ?thesis using that ne m2(2) by (auto simp: m3_def m1_def)
    qed
    then show ?thesis using ab(4) chain_cong [where ps = as and m' = m3 and m = ?m and nxt = pb_next] by simp
  qed
  then have cu: "chain pb_next m3 u (u # a # as)" using ab(2) vb(5) ne(1) by (simp add: m3_def)
  moreover have "chain pb_next m3 v (v # u # a # as)" using cu vb(2,4) ua(3) ne by (simp add: m3_def)
  moreover have "pb_available (the (m3 x))" if "x \<in> set (u # a # as)" for x
  proof -
    have "pb_available (block_of s x)" if "x \<in> set (a # as)" using inv that by (auto simp: pool_inv_def)
    moreover have "x \<notin> set us" using ch(3) ne(7) that by auto
    ultimately show ?thesis using that ab(3) m2(2) [of x] by (auto simp: m3_def m1_def)
  qed
  ultimately show ?thesis
    using fr step vb(1) unfolding PageFree_def by (intro exI [of _ s']) (auto simp: fields)
qed

subsection \<open>Initialisation\<close>

text \<open>The descriptor of page \<open>k\<close> once \<open>i\<close> descriptors are linked; they lie 16 bytes apart.\<close>

definition pb_ptr :: "nat \<Rightarrow> nat \<Rightarrow> addr" where
  "pb_ptr B k = of_nat (B + 16 * k)"

definition pb_node :: "nat \<Rightarrow> addr \<Rightarrow> nat \<Rightarrow> nat \<Rightarrow> PageBlock" where
  "pb_node B base i k = \<lparr>pb_available = True, pb_addr = base + of_nat k * PAGE_SIZE,
     pb_next = (if k + 1 < i then pb_ptr B (k + 1) else nullptr),
     pb_prev = (if k = 0 then nullptr else pb_ptr B (k - 1))\<rparr>"

lemma pb_ptr_eq_iff: "B + 16 * n < 4294967296 \<Longrightarrow> j < n \<Longrightarrow> k < n \<Longrightarrow> pb_ptr B j = pb_ptr B k \<longleftrightarrow> j = k"
  using of_nat_u32_eq_iff [of "B + 16 * j" "B + 16 * k"] by (simp add: pb_ptr_def del: of_nat_add of_nat_mult)

lemma pb_ptr_nonnull: "0 < B \<Longrightarrow> B + 16 * n < 4294967296 \<Longrightarrow> k < n \<Longrightarrow> pb_ptr B k \<noteq> nullptr"
  using of_nat_u32_eq_iff [of "B + 16 * k" 0] by (simp add: pb_ptr_def del: of_nat_add of_nat_mult)

lemma init_blocks_ok:
  assumes B: "0 < B" "B + 16 * n < 4294967296"
    and "i \<le> n" and "prev = (if i = 0 then nullptr else pb_ptr B (i - 1))"
    and "\<And>k. k < i \<Longrightarrow> pblocks s (pb_ptr B k) = Some (pb_node B (pool_base s) i k)"
  shows "\<exists>m. init_blocks (of_nat B) i n prev s = ret (s\<lparr>pblocks := m\<rparr>) \<and>
    (\<forall>k<n. m (pb_ptr B k) = Some (pb_node B (pool_base s) n k))"
  using assms(3-5)
proof (induction "n - i" arbitrary: i prev s)
  case 0
  then show ?case by (subst init_blocks.simps) (auto intro!: exI [of _ "pblocks s"])
next
  case (Suc d)
  then have i: "i < n" by simp
  let ?p = "pb_ptr B i"
  have ptr: "of_nat B + of_nat (16 * i) = ?p" by (simp add: pb_ptr_def)
  define s1 where "s1 = s\<lparr>pblocks := (pblocks s)(?p \<mapsto> \<lparr>pb_available = True,
      pb_addr = pool_base s + of_nat i * PAGE_SIZE, pb_next = nullptr, pb_prev = prev\<rparr>)\<rparr>"
  have inj: "pb_ptr B j = pb_ptr B k \<longleftrightarrow> j = k" if "j < n" "k < n" for j k using pb_ptr_eq_iff [OF B(2) that] .
  obtain m1 where m1: "(if prev \<noteq> nullptr then upd_block prev (\<lambda>b. b\<lparr>pb_next := ?p\<rparr>) s1 else ret s1) =
      ret (s\<lparr>pblocks := m1\<rparr>)" "\<And>k. k < i + 1 \<Longrightarrow> m1 (pb_ptr B k) = Some (pb_node B (pool_base s) (i + 1) k)"
  proof (cases "i = 0")
    case True
    then show ?thesis using Suc.prems(2)
      by (intro that [of "pblocks s1"]) (auto simp: s1_def pb_node_def)
  next
    case False
    have prev: "prev = pb_ptr B (i - 1)" "prev \<noteq> nullptr" "prev \<noteq> ?p" "i - 1 < i"
      using Suc.prems(2) False pb_ptr_nonnull [OF B, of "i - 1"] inj [of "i - 1" i] i by auto
    have pn: "pblocks s1 prev = Some (pb_node B (pool_base s) i (i - 1))"
      using prev Suc.prems(3) [of "i - 1"] by (simp add: s1_def)
    show ?thesis
    proof (rule that [of "(pblocks s1)(prev \<mapsto> (pb_node B (pool_base s) i (i - 1))\<lparr>pb_next := ?p\<rparr>)"])
      show "(if prev \<noteq> nullptr then upd_block prev (\<lambda>b. b\<lparr>pb_next := ?p\<rparr>) s1 else ret s1) =
          ret (s\<lparr>pblocks := (pblocks s1)(prev \<mapsto> (pb_node B (pool_base s) i (i - 1))\<lparr>pb_next := ?p\<rparr>)\<rparr>)"
        using prev(2) pn by (simp add: upd_block_Some) (simp add: s1_def)
      fix k assume k: "k < i + 1"
      consider "k = i" | "k = i - 1" "k < i" | "k < i - 1" using k by linarith
      then show "((pblocks s1)(prev \<mapsto> (pb_node B (pool_base s) i (i - 1))\<lparr>pb_next := ?p\<rparr>)) (pb_ptr B k) =
          Some (pb_node B (pool_base s) (i + 1) k)"
      proof cases
        case 1
        then show ?thesis using prev False Suc.prems(2) by (simp add: s1_def pb_node_def)
      next
        case 2
        then show ?thesis using prev(1) False by (simp add: pb_node_def)
      next
        case 3
        then have "Suc k < i" "k < i" by auto
        moreover have "pb_ptr B k \<noteq> prev" "pb_ptr B k \<noteq> ?p" using inj [of k "i - 1"] inj [of k i] i prev(1) 3 by auto
        ultimately show ?thesis using Suc.prems(3) [of k] by (simp add: s1_def pb_node_def)
      qed
    qed
  qed
  have d: "d = n - (i + 1)" "i + 1 \<le> n" using Suc.hyps(2) by auto
  have "\<exists>m. init_blocks (of_nat B) (i + 1) n ?p (s\<lparr>pblocks := m1\<rparr>) = ret (s\<lparr>pblocks := m1\<rparr>\<lparr>pblocks := m\<rparr>) \<and>
      (\<forall>k<n. m (pb_ptr B k) = Some (pb_node B (pool_base (s\<lparr>pblocks := m1\<rparr>)) n k))"
    by (rule Suc.hyps(1) [OF d]) (use m1(2) in simp_all)
  then obtain m where m: "init_blocks (of_nat B) (i + 1) n ?p (s\<lparr>pblocks := m1\<rparr>) = ret (s\<lparr>pblocks := m\<rparr>)"
      "\<And>k. k < n \<Longrightarrow> m (pb_ptr B k) = Some (pb_node B (pool_base s) n k)" by auto
  have "init_blocks (of_nat B) i n prev s = ret (s\<lparr>pblocks := m\<rparr>)"
    by (subst init_blocks.simps) (simp only: i if_True Let_def ptr s1_def [symmetric] m1(1) andThen_ret m(1))
  then show ?case using m(2) by blast
qed

lemma pb_chain:
  assumes "0 < B" "B + 16 * n < 4294967296" "\<And>k. k < n \<Longrightarrow> m (pb_ptr B k) = Some (pb_node B base n k)"
  shows "k \<le> n \<Longrightarrow> chain pb_next m (if k < n then pb_ptr B k else nullptr) (map (pb_ptr B) [k..<n])"
proof (induction "n - k" arbitrary: k)
  case (Suc d)
  then have k: "k < n" by simp
  then have "chain pb_next m (if k + 1 < n then pb_ptr B (k + 1) else nullptr) (map (pb_ptr B) [k + 1..<n])"
    by (intro Suc.hyps(1)) (use Suc.hyps(2) in auto)
  moreover have "pb_next (pb_node B base n k) = (if k + 1 < n then pb_ptr B (k + 1) else nullptr)"
    by (simp add: pb_node_def)
  ultimately show ?case using k assms(3) [OF k] pb_ptr_nonnull [OF assms(1,2) k]
    by (simp add: upt_conv_Cons)
qed simp

text \<open>After initialisation the 2048 pages of the pool are available.\<close>

lemma PagePool_Init_ok:
  assumes inv: "heap_inv s bs" and u: "usedPageList s = nullptr"
    and room: "some_fits 32772 bs \<or> last_page s + n_pages 32772 \<le> 262144 \<and> n_pages 32772 \<le> free_frames s"
  shows "\<exists>s' as. PagePool_Init s = ret s' \<and> pool_inv s' as [] \<and> length as = 2048 \<and> heap_inv s' (alloc_list 32772 bs) \<and>
    last_page s' = last_page s + (if some_fits 32772 bs then 0 else n_pages 32772) \<and>
    free_frames s' = free_frames s - (if some_fits 32772 bs then 0 else n_pages 32772)"
proof -
  define s0 where "s0 = s\<lparr>pool_base := KERNEL_PAGE_POOL_V_BASE_ADDR, pool_limit := KERNEL_PAGE_POOL_V_LIMIT_ADDR\<rparr>"
  have same0: "pmem s0 = pmem s" "cr3 s0 = cr3 s" "paging s0 = paging s" "memBitmap s0 = memBitmap s"
    by (simp_all add: s0_def)
  note m0 = machine_same [OF same0]
  have lp: "last_page s0 = last_page s" by (simp add: last_page_def s0_def)
  have inv0: "heap_inv s0 bs" using inv m0 by (simp add: heap_inv_def last_page_def s0_def)
  have num: "(pool_limit s0 - pool_base s0) div PAGE_SIZE = 2048" "sint ((2048 :: u32) * 16) = 32768"
    by (simp_all add: s0_def)
  let ?B = "alloc_addr 32772 bs + 4"
  obtain s1 where s1: "HeapAlloc 32768 s0 = ret (of_nat ?B, s1)" "heap_inv s1 (alloc_list 32772 bs)" "heap_frame s0 s1"
      "last_page s1 = last_page s + (if some_fits 32772 bs then 0 else n_pages 32772)"
      "free_frames s1 = free_frames s - (if some_fits 32772 bs then 0 else n_pages 32772)"
    using HeapAlloc_ok [OF inv0, of 32768] room by (auto simp: lp m0)
  have q: "?B \<in> used_ptrs 16777216 (alloc_list 32772 bs)" using used_ptrs_alloc(1) [OF inv0, of 32772] by simp
  have B: "0 < ?B" "?B + 16 * 2048 < 4294967296"
    using used_ptrs_range [OF s1(2) q] heap_invD(6) [OF s1(2)] by auto
  have f1: "pool_base s1 = KERNEL_PAGE_POOL_V_BASE_ADDR" "usedPageList s1 = nullptr"
    using s1(3) u by (auto simp: heap_frame_def s0_def)
  obtain m where m: "init_blocks (of_nat ?B) 0 2048 nullptr s1 = ret (s1\<lparr>pblocks := m\<rparr>)"
      "\<And>k. k < 2048 \<Longrightarrow> m (pb_ptr ?B k) = Some (pb_node ?B (pool_base s1) 2048 k)"
    using init_blocks_ok [OF B, of 0 nullptr s1] by auto
  define s' where s': "s' = s1\<lparr>pblocks := m, availPageList := of_nat ?B\<rparr>"
  have res: "PagePool_Init s = ret s'"
  proof -
    have "(of_nat ?B :: addr) \<noteq> nullptr" using pb_ptr_nonnull [OF B, of 0] by (simp add: pb_ptr_def)
    then show ?thesis
      using s1(1) m(1) num
      by (simp add: PagePool_Init_def InitPagesList_def s0_def [symmetric] Let_def s' del: of_nat_add)
  qed
  let ?as = "map (pb_ptr ?B) [0..<2048]"
  have ch: "chain pb_next m (of_nat ?B) ?as"
    using pb_chain [OF B m(2), of 0] by (simp add: pb_ptr_def)
  have addr: "pb_addr (the (m (pb_ptr ?B k))) = phys (2048 + k) 0" if "k < 2048" for k
    using m(2) [OF that] f1(1) by (simp add: pb_node_def phys_def mult.commute)
  have "pool_inv s' ?as []"
    unfolding pool_inv_def
  proof (intro conjI ballI)
    show "inj_on (\<lambda>a. pb_addr (block_of s' a)) (set ?as \<union> set [])"
      by (rule inj_onI) (auto simp: s' addr phys_eq_iff)
    show "\<exists>q\<ge>2048. q < 4096 \<and> pb_addr (block_of s' a) = phys q 0" if "a \<in> set ?as \<union> set []" for a
    proof -
      note mem = that
      obtain k where "k < 2048" "a = pb_ptr ?B k" using mem by auto
      then show ?thesis by (intro exI [of _ "2048 + k"]) (simp add: s' addr)
    qed
    show "pb_available (block_of s' a)" if "a \<in> set ?as" for a
      using that m(2) by (auto simp: s' pb_node_def)
  qed (use ch f1(2) in \<open>simp_all add: s'\<close>)
  moreover have "heap_inv s' (alloc_list 32772 bs)"
  proof -
    have same: "pmem s' = pmem s1" "cr3 s' = cr3 s1" "paging s' = paging s1" "memBitmap s' = memBitmap s1"
      by (simp_all add: s')
    show ?thesis using s1(2) machine_same [OF same] by (simp add: heap_inv_def last_page_def s')
  qed
  moreover have "last_page s' = last_page s1" "free_frames s' = free_frames s1"
    by (simp_all add: s' last_page_def free_frames_def used_pages_def)
  ultimately show ?thesis using res s1(4,5) by (intro exI [of _ s'] exI [of _ ?as]) simp
qed

end
