(* ===== verification/Address_Regions.thy ===== *)
theory Address_Regions
  imports Page_Pool
begin

section \<open>Virtual address descriptors\<close>

text \<open>
  \<^verbatim>\<open>kernel/mem/Vad.cpp\<close>: the list of regions of a process's address space. A \<^verbatim>\<open>Vad\<close> is a
  heap object; the store \<open>vads\<close> holds them by address. The operations are methods: \<open>this\<close> is
  their first argument. An out parameter is the content of the caller's variable, or \<open>None\<close> for a
  null pointer; a page directory pointer is its \<^verbatim>\<open>pdEntry\<close>, or \<open>None\<close> for null.
\<close>

subsection \<open>State and operations\<close>

record Vad =
  vad_base :: addr
  vad_limit :: addr
  vad_size :: u32
  vad_free :: bool
  vad_prev :: addr
  vad_next :: addr

record vad_space = pool +
  vads :: "addr \<rightharpoonup> Vad"

abbreviation sizeof_Vad :: int where "sizeof_Vad \<equiv> 24"
abbreviation VAD_MINIMUM_DELTA :: u32 where "VAD_MINIMUM_DELTA \<equiv> PAGE_SIZE"

definition upd_vad :: "addr \<Rightarrow> (Vad \<Rightarrow> Vad) \<Rightarrow> 'z vad_space_scheme \<Rightarrow> 'z vad_space_scheme exec" where
  "upd_vad p f s = andThen (deref (vads s) p) (\<lambda>v. ret (s\<lparr>vads := (vads s)(p \<mapsto> f v)\<rparr>))"

definition Vad_Create ::
  "addr \<Rightarrow> u32 \<Rightarrow> bool \<Rightarrow> addr option \<Rightarrow> 'z vad_space_scheme \<Rightarrow> (KeStatus \<times> addr option \<times> 'z vad_space_scheme) exec" where
  "Vad_Create baseAddress sz fr outVad s =
     (if baseAddress = nullptr then ret (STATUS_NULL_PARAMETER, outVad, s)
      else if sz = 0 then ret (STATUS_INVALID_PARAMETER, outVad, s)
      else if outVad = None then ret (STATUS_NULL_PARAMETER, outVad, s)
      else andThen (HeapAlloc sizeof_Vad s) (\<lambda>(localVad, s1).
        if localVad = nullptr then ret (STATUS_ALLOC_FAILED, outVad, s1)
        else ret (STATUS_SUCCESS, Some localVad, s1\<lparr>vads := (vads s1)(localVad \<mapsto>
          \<lparr>vad_base = baseAddress, vad_limit = baseAddress + sz, vad_size = sz, vad_free = fr,
           vad_prev = nullptr, vad_next = nullptr\<rparr>)\<rparr>)))"

text \<open>The three searches. Each loop follows the \<^verbatim>\<open>next\<close> pointers; \<open>nullptr\<close> is its end.\<close>

partial_function (option) vad_of_address :: "addr \<Rightarrow> (addr \<rightharpoonup> Vad) \<Rightarrow> addr \<Rightarrow> addr exec" where
  "vad_of_address address m vad = andThen (deref m vad) (\<lambda>v.
     if address \<ge> vad_base v \<and> address < vad_limit v then ret vad
     else if vad_next v \<noteq> nullptr then vad_of_address address m (vad_next v)
     else ret nullptr)"

definition LookForVadFromAddress ::
  "addr \<Rightarrow> addr \<Rightarrow> addr option \<Rightarrow> 'z vad_space_scheme \<Rightarrow> (KeStatus \<times> addr option) exec" where
  "LookForVadFromAddress this address outVad s =
     (if address = nullptr then ret (STATUS_NULL_PARAMETER, outVad)
      else if outVad = None then ret (STATUS_NULL_PARAMETER, outVad)
      else andThen (vad_of_address address (vads s) this) (\<lambda>vad.
        if vad = nullptr then ret (STATUS_NOT_FOUND, outVad) else ret (STATUS_SUCCESS, Some vad)))"

partial_function (option) free_vad_of_size :: "u32 \<Rightarrow> (addr \<rightharpoonup> Vad) \<Rightarrow> addr \<Rightarrow> addr exec" where
  "free_vad_of_size sz m currentVad = andThen (deref m currentVad) (\<lambda>v.
     if vad_size v < sz \<or> \<not> vad_free v then
       if vad_next v = nullptr then ret nullptr else free_vad_of_size sz m (vad_next v)
     else ret currentVad)"

definition LookForFreeVadOfMinimumSize ::
  "addr \<Rightarrow> u32 \<Rightarrow> addr option \<Rightarrow> 'z vad_space_scheme \<Rightarrow> (KeStatus \<times> addr option) exec" where
  "LookForFreeVadOfMinimumSize this sz outVad s =
     (if sz = 0 then ret (STATUS_INVALID_PARAMETER, outVad)
      else if outVad = None then ret (STATUS_NULL_PARAMETER, outVad)
      else andThen (free_vad_of_size sz (vads s) this) (\<lambda>vad.
        if vad = nullptr then ret (STATUS_NOT_FOUND, outVad) else ret (STATUS_SUCCESS, Some vad)))"

text \<open>
  The search at an address. Its loop also ends at the first later descriptor that is free and
  large enough, whether or not it contains the address.
\<close>

partial_function (option) free_vad_at_address ::
  "addr \<Rightarrow> u32 \<Rightarrow> (addr \<rightharpoonup> Vad) \<Rightarrow> addr \<Rightarrow> (KeStatus \<times> addr) exec" where
  "free_vad_at_address address sz m currentVad = andThen (deref m currentVad) (\<lambda>v.
     if address \<ge> vad_base v \<and> address < vad_limit v then
       if \<not> vad_free v \<or> vad_limit v - address < sz then ret (STATUS_NOT_FOUND, nullptr)
       else ret (STATUS_SUCCESS, currentVad)
     else if vad_next v = nullptr then ret (STATUS_NOT_FOUND, nullptr)
     else andThen (deref m (vad_next v)) (\<lambda>w.
       if vad_size w < sz \<or> \<not> vad_free w then free_vad_at_address address sz m (vad_next v)
       else ret (STATUS_SUCCESS, vad_next v)))"

definition LookForFreeVadAtAddressOfMinimumSize ::
  "addr \<Rightarrow> addr \<Rightarrow> u32 \<Rightarrow> addr option \<Rightarrow> 'z vad_space_scheme \<Rightarrow> (KeStatus \<times> addr option) exec" where
  "LookForFreeVadAtAddressOfMinimumSize this address sz outVad s =
     (if address = nullptr then ret (STATUS_NULL_PARAMETER, outVad)
      else if sz = 0 then ret (STATUS_INVALID_PARAMETER, outVad)
      else if outVad = None then ret (STATUS_NULL_PARAMETER, outVad)
      else andThen (free_vad_at_address address sz (vads s) this) (\<lambda>(status, vad).
        if FAILED status then ret (status, outVad) else ret (STATUS_SUCCESS, Some vad)))"

text \<open>The file's own \<^verbatim>\<open>_local_mod\<close>: 1 for every positive argument.\<close>

partial_function (option) vad_local_mod :: "u32 \<Rightarrow> u32 \<Rightarrow> u32 exec" where
  "vad_local_mod a b = (if a > b then vad_local_mod (a - b) b else ret (if a > 0 then 1 else 0))"

definition Vad_Split ::
  "addr \<Rightarrow> u32 \<Rightarrow> 'z vad_space_scheme \<Rightarrow> (KeStatus \<times> 'z vad_space_scheme) exec" where
  "Vad_Split this sz s = andThen (deref (vads s) this) (\<lambda>v.
     if sz = 0 then ret (STATUS_INVALID_PARAMETER, s)
     else if sz > vad_size v then ret (STATUS_INVALID_PARAMETER, s)
     else if vad_size v - sz < VAD_MINIMUM_DELTA then ret (STATUS_INVALID_PARAMETER, s)
     else andThen (vad_local_mod sz PAGE_SIZE) (\<lambda>r.
       let nbPages = sz div PAGE_SIZE + (if r > 0 then 1 else 0) in
       andThen (Vad_Create (vad_base v + nbPages * PAGE_SIZE) (vad_size v - nbPages * PAGE_SIZE) True (Some nullptr) s)
         (\<lambda>(status, newVad, s1).
           if FAILED status then ret (status, s1)
           else let new = the newVad in
             andThen (upd_vad new (\<lambda>w. w\<lparr>vad_prev := this\<rparr>) s1) (\<lambda>s2.
             andThen (deref (vads s2) new) (\<lambda>w.
             andThen (if vad_next w \<noteq> nullptr then upd_vad (vad_next w) (\<lambda>x. x\<lparr>vad_prev := new\<rparr>) s2 else ret s2) (\<lambda>s3.
             andThen (upd_vad this (\<lambda>x. x\<lparr>vad_limit := vad_base x + nbPages * PAGE_SIZE,
                 vad_size := nbPages * PAGE_SIZE, vad_next := new\<rparr>) s3) (\<lambda>s4.
               ret (STATUS_SUCCESS, s4))))))))"

definition SplitAtAddress ::
  "addr \<Rightarrow> addr \<Rightarrow> u32 \<Rightarrow> 'z vad_space_scheme \<Rightarrow> (KeStatus \<times> 'z vad_space_scheme) exec" where
  "SplitAtAddress this address sz s = andThen (deref (vads s) this) (\<lambda>v.
     if address = nullptr then ret (STATUS_NULL_PARAMETER, s)
     else if sz = 0 then ret (STATUS_INVALID_PARAMETER, s)
     else if sz > vad_size v then ret (STATUS_INVALID_PARAMETER, s)
     else if vad_size v - sz < VAD_MINIMUM_DELTA then ret (STATUS_INVALID_PARAMETER, s)
     else andThen (vad_local_mod sz PAGE_SIZE) (\<lambda>r.
       if vad_base v \<noteq> address then
         let secondBlockSize = vad_limit v - address in
         if secondBlockSize < sz then ret (STATUS_FAILURE, s)
         else andThen (Vad_Create address secondBlockSize True (Some nullptr) s) (\<lambda>(status, newVad, s1).
           if FAILED status then ret (status, s1)
           else let new = the newVad in
             andThen (upd_vad new (\<lambda>w. w\<lparr>vad_prev := this, vad_next := vad_next v\<rparr>) s1) (\<lambda>s2.
             andThen (if vad_next v \<noteq> nullptr then upd_vad (vad_next v) (\<lambda>x. x\<lparr>vad_prev := new\<rparr>) s2 else ret s2) (\<lambda>s3.
             andThen (upd_vad this (\<lambda>x. x\<lparr>vad_limit := vad_limit x - secondBlockSize,
                 vad_size := vad_size x - secondBlockSize, vad_next := new\<rparr>) s3) (\<lambda>s4.
             andThen (deref (vads s4) new) (\<lambda>w.
             if vad_size w - sz > VAD_MINIMUM_DELTA then
               andThen (Vad_Split new sz s4) (\<lambda>(status, s5).
                 if FAILED status then ret (status, s5) else ret (STATUS_SUCCESS, s5))
             else ret (STATUS_SUCCESS, s4))))))
       else andThen (Vad_Split this sz s) (\<lambda>(status, s1).
         if FAILED status then ret (status, s1) else ret (STATUS_SUCCESS, s1))))"

text \<open>The loop of \<^verbatim>\<open>ReservePages\<close>, with the processor on the process's page directory.\<close>

partial_function (option) reserve_loop ::
  "bool \<Rightarrow> addr \<Rightarrow> addr \<Rightarrow> 'z vad_space_scheme \<Rightarrow> (KeStatus \<times> 'z vad_space_scheme) exec" where
  "reserve_loop reservePhysicalPages limit v s =
     (if v < limit then
        if reservePhysicalPages then
          let (p, s1) = GetFreePage s in
          if p = nullptr then ret (STATUS_PHYSICAL_MEMORY_FULL, s1)
          else andThen (AddPageToPageDirectory PageAlloc v p
              (PAGE_PRESENT OR PAGE_WRITEABLE OR PAGE_NON_PRIVILEGED_ACCESS) s1)
            (reserve_loop reservePhysicalPages limit (v + PAGE_SIZE))
        else andThen (AddPageToPageDirectory PageAlloc v 0 (PAGE_WRITEABLE OR PAGE_NON_PRIVILEGED_ACCESS) s)
            (reserve_loop reservePhysicalPages limit (v + PAGE_SIZE))
      else ret (STATUS_SUCCESS, s))"

definition ReservePages ::
  "addr \<Rightarrow> addr \<Rightarrow> bool \<Rightarrow> 'z vad_space_scheme \<Rightarrow> (KeStatus \<times> 'z vad_space_scheme) exec" where
  "ReservePages this pdEntry reservePhysicalPages s = andThen (deref (vads s) this) (\<lambda>v.
     let currentPd = GetCurrentPageDirectory s in
     andThen (reserve_loop reservePhysicalPages (vad_limit v) (vad_base v) (SetCurrentPageDirectory pdEntry s))
       (\<lambda>(status, s1).
         if FAILED status then ret (status, s1)
         else andThen (upd_vad this (\<lambda>x. x\<lparr>vad_free := False\<rparr>) (SetCurrentPageDirectory currentPd s1)) (\<lambda>s2.
           ret (STATUS_SUCCESS, s2))))"

definition Vad_Allocate ::
  "addr \<Rightarrow> u32 \<Rightarrow> addr option \<Rightarrow> bool \<Rightarrow> addr option \<Rightarrow> 'z vad_space_scheme \<Rightarrow>
   (KeStatus \<times> addr option \<times> 'z vad_space_scheme) exec" where
  "Vad_Allocate this sz pageDirectory reservePhysicalPages outVad s =
     (if sz = 0 then ret (STATUS_INVALID_PARAMETER, outVad, s)
      else if pageDirectory = None then ret (STATUS_NULL_PARAMETER, outVad, s)
      else if outVad = None then ret (STATUS_NULL_PARAMETER, outVad, s)
      else andThen (LookForFreeVadOfMinimumSize this sz (Some nullptr) s) (\<lambda>(status, found).
        if FAILED status then ret (status, outVad, s)
        else let freeVad = the found in
          andThen (deref (vads s) freeVad) (\<lambda>v.
          andThen (if vad_size v - sz > VAD_MINIMUM_DELTA then Vad_Split freeVad sz s else ret (STATUS_SUCCESS, s))
            (\<lambda>(status, s1).
              if FAILED status then ret (status, outVad, s1)
              else andThen (ReservePages freeVad (the pageDirectory) reservePhysicalPages s1) (\<lambda>(status, s2).
                if FAILED status then ret (status, outVad, s2)
                else ret (STATUS_SUCCESS, Some freeVad, s2))))))"

definition AllocateAtAddress ::
  "addr \<Rightarrow> addr \<Rightarrow> u32 \<Rightarrow> addr option \<Rightarrow> bool \<Rightarrow> addr option \<Rightarrow> 'z vad_space_scheme \<Rightarrow>
   (KeStatus \<times> addr option \<times> 'z vad_space_scheme) exec" where
  "AllocateAtAddress this address sz pageDirectory reservePhysicalPages outVad s =
     (if address = nullptr then ret (STATUS_NULL_PARAMETER, outVad, s)
      else if sz = 0 then ret (STATUS_INVALID_PARAMETER, outVad, s)
      else if pageDirectory = None then ret (STATUS_NULL_PARAMETER, outVad, s)
      else if outVad = None then ret (STATUS_NULL_PARAMETER, outVad, s)
      else andThen (LookForFreeVadAtAddressOfMinimumSize this address sz (Some nullptr) s) (\<lambda>(status, found).
        if FAILED status then ret (status, outVad, s)
        else let freeVad = the found in
          andThen (deref (vads s) freeVad) (\<lambda>v.
          andThen
            (if vad_base v \<noteq> address \<or> vad_size v - sz > VAD_MINIMUM_DELTA then
               andThen (SplitAtAddress freeVad address sz s) (\<lambda>(status, s1).
                 if FAILED status then ret (status, freeVad, s1)
                 else andThen (deref (vads s1) freeVad) (\<lambda>v1.
                   ret (STATUS_SUCCESS, if vad_base v1 \<noteq> address then vad_next v1 else freeVad, s1)))
             else ret (STATUS_SUCCESS, freeVad, s))
            (\<lambda>(status, freeVad, s1).
              if FAILED status then ret (status, outVad, s1)
              else andThen (ReservePages freeVad (the pageDirectory) reservePhysicalPages s1) (\<lambda>(status, s2).
                if FAILED status then ret (status, outVad, s2)
                else ret (STATUS_SUCCESS, Some freeVad, s2))))))"

text \<open>\<^verbatim>\<open>PrintVad\<close>: the regions it logs.\<close>

partial_function (option) PrintVad :: "(addr \<rightharpoonup> Vad) \<Rightarrow> addr \<Rightarrow> (addr \<times> addr \<times> u32) list exec" where
  "PrintVad m current =
     (if current = nullptr then ret []
      else andThen (deref m current) (\<lambda>v. andThen (PrintVad m (vad_next v)) (\<lambda>rest.
        ret ((vad_base v, vad_limit v, vad_size v) # rest))))"

subsection \<open>Lists of regions\<close>

text \<open>
  A list of descriptors stands for the regions that tile the addresses from \<open>a\<close> on: their sizes
  and whether they are free.
\<close>

fun regions_at :: "(addr \<rightharpoonup> Vad) \<Rightarrow> nat \<Rightarrow> addr list \<Rightarrow> (nat \<times> bool) list \<Rightarrow> bool" where
  "regions_at m a [] [] \<longleftrightarrow> True"
| "regions_at m a (p # ps) ((n, f) # xs) \<longleftrightarrow> 0 < n \<and>
     (\<exists>v. m p = Some v \<and> vad_base v = of_nat a \<and> vad_limit v = of_nat (a + n) \<and> vad_size v = of_nat n \<and> vad_free v = f) \<and>
     regions_at m (a + n) ps xs"
| "regions_at m a _ _ \<longleftrightarrow> False"

definition vad_list :: "(addr \<rightharpoonup> Vad) \<Rightarrow> addr \<Rightarrow> addr list \<Rightarrow> nat \<Rightarrow> (nat \<times> bool) list \<Rightarrow> bool" where
  "vad_list m p ps a xs \<longleftrightarrow> chain vad_next m p ps \<and> ps \<noteq> [] \<and> regions_at m a ps xs \<and> 0 < a \<and> a + total xs < 4294967296"

lemma regions_at_length: "regions_at m a ps xs \<Longrightarrow> length ps = length xs"
  by (induction m a ps xs rule: regions_at.induct) auto

lemma regions_at_append:
  "length qs = length us \<Longrightarrow>
   regions_at m a (qs @ ps) (us @ xs) \<longleftrightarrow> regions_at m a qs us \<and> regions_at m (a + total us) ps xs"
  by (induction m a qs us rule: regions_at.induct) (auto simp: add.assoc)

lemma regions_at_cong:
  "(\<And>q. q \<in> set ps \<Longrightarrow> map_option (\<lambda>v. v\<lparr>vad_prev := 0, vad_next := 0\<rparr>) (m' q) = map_option (\<lambda>v. v\<lparr>vad_prev := 0, vad_next := 0\<rparr>) (m q)) \<Longrightarrow>
   regions_at m a ps xs \<Longrightarrow> regions_at m' a ps xs"
proof (induction m a ps xs rule: regions_at.induct)
  case (2 m a p ps n f xs)
  obtain v where v: "m p = Some v" "vad_base v = of_nat a" "vad_limit v = of_nat (a + n)" "vad_size v = of_nat n" "vad_free v = f"
    using 2(3) by auto
  have "map_option (\<lambda>v. v\<lparr>vad_prev := 0, vad_next := 0\<rparr>) (m' p) = Some (v\<lparr>vad_prev := 0, vad_next := 0\<rparr>)"
    using 2(2) [of p] v(1) by simp
  then obtain w where w: "m' p = Some w" "w\<lparr>vad_prev := 0, vad_next := 0\<rparr> = v\<lparr>vad_prev := 0, vad_next := 0\<rparr>" by auto
  then have "vad_base w = vad_base v \<and> vad_limit w = vad_limit v \<and> vad_size w = vad_size v \<and> vad_free w = vad_free v"
    by (cases v, cases w) simp
  then show ?case using 2 v w(1) by auto
qed auto

lemma regions_dom: "regions_at m a ps xs \<Longrightarrow> set ps \<subseteq> dom m"
  by (induction m a ps xs rule: regions_at.induct) auto

text \<open>A split of the list at one of its regions.\<close>

lemma vad_list_split:
  assumes "vad_list m p ps a (us @ (n, f) # vs)"
  obtains qs q rs v where "ps = qs @ q # rs" "length qs = length us" "m q = Some v" "q \<noteq> nullptr"
    "vad_base v = of_nat (a + total us)" "vad_limit v = of_nat (a + total us + n)" "vad_size v = of_nat n" "vad_free v = f"
    "0 < n" "regions_at m a qs us" "regions_at m (a + total us + n) rs vs"
    "chain vad_next m q (q # rs)" "distinct ps" "0 < a" "a + total us + n + total vs < 4294967296"
proof -
  have c: "chain vad_next m p ps" "regions_at m a ps (us @ (n, f) # vs)" "0 < a" "a + total (us @ (n, f) # vs) < 4294967296"
    using assms by (auto simp: vad_list_def)
  have len: "length ps = length us + 1 + length vs" using regions_at_length [OF c(2)] by simp
  let ?qs = "take (length us) ps"
  obtain q rs where ps: "ps = ?qs @ q # rs"
    using len by (metis add.commute append_take_drop_id drop_eq_Nil le_add1 list.exhaust not_less_eq_eq plus_1_eq_Suc add_leD1 linorder_not_le add_Suc_right)
  have lq: "length ?qs = length us" using len by simp
  have "regions_at m a ?qs us \<and> regions_at m (a + total us) (q # rs) ((n, f) # vs)"
    using c(2) regions_at_append [OF lq, of m a "q # rs" "(n, f) # vs"] ps by metis
  moreover have "chain vad_next m q (q # rs)" using c(1) ps chain_suffix by metis
  moreover have "q \<noteq> nullptr" using chain_not_null [OF c(1)] ps by (metis in_set_conv_decomp)
  ultimately show ?thesis
    using that [OF ps lq] chain_distinct [OF c(1)] c(3,4) by auto
qed

lemma free_vad_of_size_find:
  assumes "chain vad_next m p ps" "ps \<noteq> []" "regions_at m a ps xs" "a + total xs < 4294967296" "sz < 4294967296"
  shows "free_vad_of_size (of_nat sz) m p =
    ret (case List.find (\<lambda>(q, n, f). f \<and> sz \<le> n) (zip ps xs) of None \<Rightarrow> nullptr | Some (q, _) \<Rightarrow> q)"
  using assms
proof (induction ps arbitrary: p a xs)
  case (Cons q ps)
  obtain n f xs' where xs: "xs = (n, f) # xs'" using Cons.prems(3) by (cases xs) auto
  obtain v where v: "m q = Some v" "vad_size v = of_nat n" "vad_free v = f" "p = q" "q \<noteq> nullptr"
      "chain vad_next m (vad_next v) ps" "regions_at m (a + n) ps xs'"
    using Cons.prems(1,3) xs by (auto split: option.splits)
  have lt: "n < 4294967296" using Cons.prems(4) xs by simp
  have c: "vad_size v < of_nat sz \<longleftrightarrow> n < sz"
    using lt Cons.prems(5) by (simp add: v(2) word_less_nat_alt unat_of_nat_u32)
  show ?case
  proof (cases "f \<and> sz \<le> n")
    case True
    then show ?thesis using v c by (subst free_vad_of_size.simps) (simp add: xs)
  next
    case False
    then have skip: "vad_size v < of_nat sz \<or> \<not> vad_free v" using c v(3) by auto
    show ?thesis
    proof (cases "ps = []")
      case True
      then have "vad_next v = nullptr" using v(6) by simp
      then show ?thesis using v skip False True by (subst free_vad_of_size.simps) (auto simp: xs)
    next
      case nz: False
      then have "vad_next v \<noteq> nullptr" using v(6) by auto
      moreover have "free_vad_of_size (of_nat sz) m (vad_next v) =
          ret (case List.find (\<lambda>(q, n, f). f \<and> sz \<le> n) (zip ps xs') of None \<Rightarrow> nullptr | Some (q, _) \<Rightarrow> q)"
        using Cons.IH [OF v(6) nz v(7) _ Cons.prems(5)] Cons.prems(4) xs by simp
      ultimately show ?thesis using v skip False by (subst free_vad_of_size.simps) (auto simp: xs)
    qed
  qed
qed simp

lemma vad_local_mod_one: "0 < a \<Longrightarrow> vad_local_mod a PAGE_SIZE = ret 1"
proof (induction "unat a" arbitrary: a rule: less_induct)
  case less
  show ?case
  proof (cases "a > PAGE_SIZE")
    case True
    then have u: "unat (a - PAGE_SIZE) = unat a - 4096" using unat_sub_nowrap [of PAGE_SIZE a] by simp
    moreover have "4096 < unat a" using True by (simp add: word_less_nat_alt)
    ultimately have "vad_local_mod (a - PAGE_SIZE) PAGE_SIZE = ret 1"
      by (intro less.hyps) (simp_all add: word_less_nat_alt u)
    then show ?thesis using True by (subst vad_local_mod.simps) simp
  next
    case False
    then show ?thesis using less.prems by (subst vad_local_mod.simps) simp
  qed
qed

subsection \<open>Cutting a region\<close>

lemma chain_redirect:
  assumes "chain nxt m p (qs @ q # rs)" and "\<And>x. x \<in> set qs \<Longrightarrow> m' x = m x" and "m' q = Some e" "chain nxt m' (nxt e) rs'"
  shows "chain nxt m' p (qs @ q # rs')"
  using assms by (induction qs arbitrary: p) (auto split: option.splits)

lemma alloc_vad:
  assumes inv: "heap_inv s bs" and dom: "dom (vads s) \<subseteq> live_ptrs s"
    and room: "some_fits 28 bs \<or> last_page s < 262144 \<and> 0 < free_frames s"
  obtains q s' where "HeapAlloc sizeof_Vad s = ret (q, s')" "q \<noteq> nullptr" "q \<notin> dom (vads s)" "vads s' = vads s"
    "heap_inv s' (alloc_list 28 bs)" "live_ptrs s' = insert q (live_ptrs s)" "heap_frame s s'"
proof -
  have "n_pages 28 = 1" by (simp add: n_pages_def)
  then obtain s' where s': "HeapAlloc (int 24) s = ret (of_nat (alloc_addr (24 + 4) bs + 4), s')"
      "heap_inv s' (alloc_list (24 + 4) bs)" "heap_frame s s'"
    using HeapAlloc_ok [OF inv, of 24] room by auto
  let ?q = "alloc_addr 28 bs + 4"
  have q: "?q \<in> used_ptrs 16777216 (alloc_list 28 bs)" using used_ptrs_alloc(1) [OF inv, of 28] by simp
  have "(of_nat ?q :: addr) \<noteq> nullptr"
    using used_ptrs_range [OF s'(2) [simplified] q] unat_of_nat_u32 [of ?q] by auto
  moreover have live: "live_ptrs s' = insert (of_nat ?q) (live_ptrs s)"
    using used_ptrs_alloc(1) [OF inv, of 28] live_ptrs_eq [OF inv] live_ptrs_eq [OF s'(2)] by simp
  moreover have "of_nat ?q \<notin> live_ptrs s"
    using used_ptrs_alloc(2) [OF inv, of 28] used_ptrs_range(3) [OF inv] used_ptrs_range(3) [OF s'(2) [simplified] q] of_nat_u32_eq_iff
    unfolding live_ptrs_eq [OF inv] by fastforce
  moreover have "vads s' = vads s" using s'(3) by (auto simp: heap_frame_def)
  ultimately show ?thesis using that [of "of_nat ?q" s'] s' dom by auto
qed

text \<open>
  \<^verbatim>\<open>Vad::Split\<close> cuts a region behind the pages that hold \<open>sz\<close> bytes, always one page more
  than \<open>sz div 4096\<close>. The new descriptor does not take over the \<^verbatim>\<open>next\<close> pointer: all the
  regions behind are lost.
\<close>

abbreviation cut :: "nat \<Rightarrow> nat" where
  "cut sz \<equiv> 4096 * (sz div 4096 + 1)"

lemma Vad_Split_ok:
  assumes l: "vad_list (vads s) p (qs @ q # rs) a (us @ (n, f) # vs)" "length qs = length us"
    and sz: "0 < sz" "sz + 4096 < n"
    and heap: "heap_inv s bs" "dom (vads s) \<subseteq> live_ptrs s" "some_fits 28 bs \<or> last_page s < 262144 \<and> 0 < free_frames s"
  shows "\<exists>new s'. Vad_Split q (of_nat sz) s = ret (STATUS_SUCCESS, s') \<and> new \<notin> dom (vads s) \<and>
    vad_list (vads s') p (qs @ [q, new]) a (us @ [(cut sz, f), (n - cut sz, True)]) \<and>
    heap_inv s' (alloc_list 28 bs) \<and> dom (vads s') \<subseteq> live_ptrs s' \<and> cr3 s' = cr3 s \<and> paging s' = paging s"
proof -
  obtain qs' q' rs' v where v': "qs @ q # rs = qs' @ q' # rs'" "length qs' = length us" "vads s q' = Some v" "q' \<noteq> nullptr"
    "vad_base v = of_nat (a + total us)" "vad_limit v = of_nat (a + total us + n)" "vad_size v = of_nat n" "vad_free v = f"
    "regions_at (vads s) a qs' us" "distinct (qs @ q # rs)" "0 < a" "a + total us + n + total vs < 4294967296"
    by (rule vad_list_split [OF l(1)])
  have eq: "qs' = qs" "q' = q" "rs' = rs" using v'(1,2) l(2) by (auto simp: append_eq_append_conv)
  note v = v'(3-9,11,12) [unfolded eq]
  define k where "k = cut sz"
  define bb where "bb = a + total us + k"
  define mm where "mm = n - k"
  let ?nb = "of_nat sz div PAGE_SIZE + 1 :: u32"
  have k: "sz < k" "k \<le> sz + 4096" unfolding k_def by simp_all
  have lt: "sz < 4294967296" "n < 4294967296" "k < n" "bb < 4294967296" "mm < 4294967296" "0 < bb" "0 < mm"
    using sz v(8,9) k by (auto simp: bb_def mm_def)
  have u: "unat (of_nat sz :: u32) = sz" "unat (of_nat n :: u32) = n" using lt by (simp_all add: unat_of_nat_u32)
  have nb: "?nb * PAGE_SIZE = of_nat k"
  proof -
    have d: "sz div 4096 < 4294967296" using lt(1) by (rule order.strict_trans1 [OF div_le_dividend])
    have "of_nat sz div PAGE_SIZE = (of_nat (sz div 4096) :: u32)"
      using lt by (intro u32_eqI) (simp only: unat_of_nat_u32 [OF d] unat_div u, simp)
    then show ?thesis by (simp add: k_def mult.commute distrib_left)
  qed
  have nb': "of_nat sz div PAGE_SIZE * PAGE_SIZE + PAGE_SIZE = (of_nat k :: u32)" using nb by (simp add: distrib_right)
  have chk: "(of_nat sz :: u32) \<noteq> 0" "\<not> of_nat sz > (of_nat n :: u32)" "\<not> (of_nat n - of_nat sz :: u32) < VAD_MINIMUM_DELTA"
  proof -
    show "(of_nat sz :: u32) \<noteq> 0" using sz(1) u(1) by auto
    show "\<not> of_nat sz > (of_nat n :: u32)" using sz u by (simp add: word_less_nat_alt)
    have "(of_nat n - of_nat sz :: u32) = of_nat (n - sz)" using sz by simp
    then show "\<not> (of_nat n - of_nat sz :: u32) < VAD_MINIMUM_DELTA"
      using sz lt(2) by (simp add: word_less_nat_alt unat_of_nat_u32 del: of_nat_diff)
  qed
  obtain new s1 where al: "HeapAlloc sizeof_Vad s = ret (new, s1)" "new \<noteq> nullptr" "new \<notin> dom (vads s)" "vads s1 = vads s"
      "heap_inv s1 (alloc_list 28 bs)" "live_ptrs s1 = insert new (live_ptrs s)" "heap_frame s s1"
    by (rule alloc_vad [OF heap])
  define w where "w = \<lparr>vad_base = of_nat bb, vad_limit = of_nat bb + of_nat mm, vad_size = of_nat mm, vad_free = True,
      vad_prev = q, vad_next = nullptr\<rparr>"
  define v1 where "v1 = v\<lparr>vad_limit := of_nat bb, vad_size := of_nat k, vad_next := new\<rparr>"
  define s' where "s' = s1\<lparr>vads := (vads s)(new \<mapsto> w, q \<mapsto> v1)\<rparr>"
  have qn: "q \<noteq> new" using v(1) al(3) by auto
  have b: "vad_base v + of_nat k = of_nat bb" "of_nat n - of_nat k = (of_nat mm :: u32)"
      "(of_nat bb :: addr) \<noteq> 0" "(of_nat mm :: u32) \<noteq> 0"
  proof -
    show "vad_base v + of_nat k = of_nat bb" unfolding bb_def v(3) by simp
    show "of_nat n - of_nat k = (of_nat mm :: u32)" unfolding mm_def using lt(3) by (simp add: of_nat_diff)
    show "(of_nat bb :: addr) \<noteq> 0" "(of_nat mm :: u32) \<noteq> 0"
      using unat_of_nat_u32 [OF lt(4)] unat_of_nat_u32 [OF lt(5)] lt(6,7) by auto
  qed
  have split: "Vad_Split q (of_nat sz) s = ret (STATUS_SUCCESS, s')"
  proof -
    have "vad_local_mod (of_nat sz) PAGE_SIZE = ret 1" using chk(1) by (intro vad_local_mod_one) (simp add: word_neq_0_conv)
    moreover have "(0 :: u32) < 1" by simp
    ultimately show ?thesis
      using v(1,2) chk al(1,2,4) qn b(3,4)
      by (simp add: Vad_Split_def v(5) nb' b(1,2) Vad_Create_def upd_vad_def Let_def FAILED_def s'_def w_def v1_def fun_upd_twist)
  qed
  have regs: "regions_at (vads s') a qs us"
    by (rule regions_at_cong [OF _ v(7)]) (use v'(10) al(3) regions_dom [OF v(7)] in \<open>auto simp: s'_def\<close>)
  have wl: "vad_limit w = of_nat (bb + mm)" by (simp add: w_def)
  have tot: "bb + mm = a + total us + n" using lt(3) by (simp add: bb_def mm_def)
  have "vad_list (vads s') p (qs @ [q, new]) a (us @ [(k, f), (mm, True)])"
  proof -
    have "chain vad_next (vads s) p (qs @ q # rs)" using l(1) by (simp add: vad_list_def)
    then have "chain vad_next (vads s') p (qs @ q # [new])"
    proof (rule chain_redirect)
      show "vads s' q = Some v1" by (simp add: s'_def)
      show "chain vad_next (vads s') (vad_next v1) [new]" using al(2) qn by (simp add: s'_def v1_def w_def)
      show "vads s' x = vads s x" if "x \<in> set qs" for x
        using that v'(10) al(3) regions_dom [OF v(7)] by (auto simp: s'_def)
    qed
    moreover have "regions_at (vads s') (a + total us) [q, new] [(k, f), (mm, True)]"
      using v(3,6) wl lt(7) qn k(1) by (simp add: s'_def v1_def w_def bb_def add.assoc)
    ultimately show ?thesis
      using regs v(8,9) tot l(2) by (simp add: vad_list_def regions_at_append bb_def)
  qed
  moreover have "heap_inv s' (alloc_list 28 bs)" "live_ptrs s' = live_ptrs s1"
  proof -
    show h: "heap_inv s' (alloc_list 28 bs)"
    proof -
      have same: "pmem s' = pmem s1" "cr3 s' = cr3 s1" "paging s' = paging s1" "memBitmap s' = memBitmap s1"
        by (simp_all add: s'_def)
      show ?thesis using al(5) machine_same [OF same] by (simp add: heap_inv_def last_page_def s'_def)
    qed
    show "live_ptrs s' = live_ptrs s1" by (simp only: live_ptrs_eq [OF h] live_ptrs_eq [OF al(5)])
  qed
  moreover have "dom (vads s') \<subseteq> insert new (live_ptrs s)" using heap(2) v(1) by (auto simp: s'_def)
  moreover have "cr3 s' = cr3 s" "paging s' = paging s" using al(7) by (auto simp: s'_def heap_frame_def)
  ultimately show ?thesis using split al(3,6) unfolding k_def mm_def by blast
qed

subsection \<open>Reserving the pages of a region\<close>

text \<open>With the page table in place, \<^verbatim>\<open>AddPageToPageDirectory\<close> sets one entry.\<close>

lemma AddPage_present:
  assumes ok: "tables_ok D s" and v: "dir v \<in> D" "dir v \<noteq> 1023" and f: "flgs \<noteq> PAGE_EMPTY"
  obtains m where "AddPageToPageDirectory PA v p flgs s = ret (s\<lparr>pmem := m\<rparr>)" "tables_ok D (s\<lparr>pmem := m\<rparr>)"
    "\<And>u. dir u \<in> D \<Longrightarrow> mmu (s\<lparr>pmem := m\<rparr>) u = (if frame_of u = frame_of v
       then if FlagOn flgs PAGE_PRESENT then Some (phys (frame_of p) (off u)) else None else mmu s u)"
proof -
  note t = tables_okD [OF ok]
  let ?m = "write32 (pmem s) (phys (frame_of (entry s (pd_frame s) (dir v))) (4 * tab v)) (encode_pte p flgs)"
  note w = write_pte [OF ok v refl, where w = "encode_pte p flgs"]
  have "AddPageToPageDirectory PA v p flgs s = ret (s\<lparr>pmem := ?m\<rparr>)"
    using t(3) [OF v(1)] f w(1) by (simp add: AddPageToPageDirectory_def read_pde [OF t(1)])
  from that [OF this w(2)] w(3) show ?thesis by simp
qed

lemma next_page: "phys q 0 + PAGE_SIZE = phys (q + 1) 0"
  by (simp add: phys_def distrib_left)

lemma page_less: "q + Suc n < 1048576 \<Longrightarrow> phys q 0 < phys (q + Suc n) 0"
  by (simp add: word_less_nat_alt unat_phys)

lemma tables_ok_bitmap [simp]: "tables_ok D (s\<lparr>memBitmap := b\<rparr>) = tables_ok D s"
  by (simp add: tables_ok_def self_map_def entry_def)

lemma used_pages_pmem [simp]: "used_pages (s\<lparr>memBitmap := b, pmem := m\<rparr>) = used_pages (s\<lparr>memBitmap := b\<rparr>)"
  "free_frames (s\<lparr>memBitmap := b, pmem := m\<rparr>) = free_frames (s\<lparr>memBitmap := b\<rparr>)"
  by (simp_all add: used_pages_def free_frames_def)

lemma reserve_physical:
  assumes "tables_ok D s" "\<forall>k<n. (q + k) div 1024 \<in> D \<and> (q + k) div 1024 \<noteq> 1023" "q + n < 1048576"
    "n \<le> free_frames s" "{..<2048} \<subseteq> used_pages s"
  shows "\<exists>b m fr. reserve_loop True (phys (q + n) 0) (phys q 0) s = ret (STATUS_SUCCESS, s\<lparr>memBitmap := b, pmem := m\<rparr>) \<and>
    tables_ok D (s\<lparr>memBitmap := b, pmem := m\<rparr>) \<and> inj_on fr {q..<q + n} \<and> fr ` {q..<q + n} \<inter> used_pages s = {} \<and>
    used_pages (s\<lparr>memBitmap := b\<rparr>) = used_pages s \<union> fr ` {q..<q + n} \<and>
    (\<forall>u. dir u \<in> D \<longrightarrow> mmu (s\<lparr>memBitmap := b, pmem := m\<rparr>) u =
      (if q \<le> frame_of u \<and> frame_of u < q + n then Some (phys (fr (frame_of u)) (off u)) else mmu s u))"
  using assms
proof (induction n arbitrary: q s)
  case 0
  have "s\<lparr>memBitmap := memBitmap s, pmem := pmem s\<rparr> = s" "s\<lparr>memBitmap := memBitmap s\<rparr> = s" by simp_all
  then show ?case using 0(1) by (intro exI [of _ "memBitmap s"] exI [of _ "pmem s"]) (subst reserve_loop.simps, auto)
next
  case (Suc n)
  have q: "q < 1048576" "q div 1024 \<in> D" "q div 1024 \<noteq> 1023" using Suc.prems(2) [rule_format, of 0] Suc.prems(3) by auto
  obtain p b1 where p: "GetFreePage s = (phys p 0, s\<lparr>memBitmap := b1\<rparr>)" "2048 \<le> p" "p < RAM_MAXPAGE" "p \<notin> used_pages s"
      "used_pages (s\<lparr>memBitmap := b1\<rparr>) = insert p (used_pages s)" "free_frames (s\<lparr>memBitmap := b1\<rparr>) = free_frames s - 1"
    using GetFreePage_frame [of s] Suc.prems(4,5) by auto
  let ?s1 = "s\<lparr>memBitmap := b1\<rparr>" and ?fl = "PAGE_PRESENT OR PAGE_WRITEABLE OR PAGE_NON_PRIVILEGED_ACCESS"
  have ok1: "tables_ok D ?s1" using Suc.prems(1) by simp
  have dv: "dir (phys q 0) \<in> D" "dir (phys q 0) \<noteq> 1023" using q by simp_all
  have fl: "?fl \<noteq> PAGE_EMPTY" "FlagOn ?fl PAGE_PRESENT" by (simp_all add: FlagOn_def)
  obtain m1 where a: "AddPageToPageDirectory PageAlloc (phys q 0) (phys p 0) ?fl ?s1 = ret (?s1\<lparr>pmem := m1\<rparr>)"
      "tables_ok D (?s1\<lparr>pmem := m1\<rparr>)"
      "\<And>u. dir u \<in> D \<Longrightarrow> mmu (?s1\<lparr>pmem := m1\<rparr>) u = (if frame_of u = frame_of (phys q 0)
        then if FlagOn ?fl PAGE_PRESENT then Some (phys (frame_of (phys p 0)) (off u)) else None else mmu ?s1 u)"
    by (rule AddPage_present [OF ok1 dv fl(1), where PA = PageAlloc and p = "phys p 0"]) (rule that)
  have fr: "frame_of (phys q 0) = q" "frame_of (phys p 0) = p" using q(1) p(3) by simp_all
  have a3: "mmu (?s1\<lparr>pmem := m1\<rparr>) u = (if frame_of u = q then Some (phys p (off u)) else mmu s u)" if "dir u \<in> D" for u
    using a(3) [OF that] unfolding fr if_P [OF fl(2)] mmu_bitmap .
  note m1 = a(1,2) a3
  let ?s2 = "?s1\<lparr>pmem := m1\<rparr>"
  have IH: "\<exists>b m fr. reserve_loop True (phys (q + 1 + n) 0) (phys (q + 1) 0) ?s2 = ret (STATUS_SUCCESS, ?s2\<lparr>memBitmap := b, pmem := m\<rparr>) \<and>
    tables_ok D (?s2\<lparr>memBitmap := b, pmem := m\<rparr>) \<and> inj_on fr {q + 1..<q + 1 + n} \<and> fr ` {q + 1..<q + 1 + n} \<inter> used_pages ?s2 = {} \<and>
    used_pages (?s2\<lparr>memBitmap := b\<rparr>) = used_pages ?s2 \<union> fr ` {q + 1..<q + 1 + n} \<and>
    (\<forall>u. dir u \<in> D \<longrightarrow> mmu (?s2\<lparr>memBitmap := b, pmem := m\<rparr>) u =
      (if q + 1 \<le> frame_of u \<and> frame_of u < q + 1 + n then Some (phys (fr (frame_of u)) (off u)) else mmu ?s2 u))"
  proof (rule Suc.IH [OF m1(2)])
    show "\<forall>k<n. (q + 1 + k) div 1024 \<in> D \<and> (q + 1 + k) div 1024 \<noteq> 1023"
      using Suc.prems(2) by (metis Suc_mono add.assoc plus_1_eq_Suc)
    show "q + 1 + n < 1048576" using Suc.prems(3) by simp
    show "n \<le> free_frames ?s2" using Suc.prems(4) p(6) by simp
    show "{..<2048} \<subseteq> used_pages ?s2" using Suc.prems(5) p(5) by auto
  qed
  obtain b m fr where r: "reserve_loop True (phys (q + 1 + n) 0) (phys (q + 1) 0) ?s2 = ret (STATUS_SUCCESS, ?s2\<lparr>memBitmap := b, pmem := m\<rparr>)"
    "tables_ok D (?s2\<lparr>memBitmap := b, pmem := m\<rparr>)" "inj_on fr {q + 1..<q + 1 + n}" "fr ` {q + 1..<q + 1 + n} \<inter> used_pages ?s2 = {}"
    "used_pages (?s2\<lparr>memBitmap := b\<rparr>) = used_pages ?s2 \<union> fr ` {q + 1..<q + 1 + n}"
    "\<forall>u. dir u \<in> D \<longrightarrow> mmu (?s2\<lparr>memBitmap := b, pmem := m\<rparr>) u =
      (if q + 1 \<le> frame_of u \<and> frame_of u < q + 1 + n then Some (phys (fr (frame_of u)) (off u)) else mmu ?s2 u)" using IH by (elim exE conjE) (rule that)
  have s': "?s2\<lparr>memBitmap := b, pmem := m\<rparr> = s\<lparr>memBitmap := b, pmem := m\<rparr>" by simp
  have up: "used_pages ?s2 = insert p (used_pages s)" using p(5) by simp
  have ub: "used_pages (?s2\<lparr>memBitmap := b\<rparr>) = used_pages (s\<lparr>memBitmap := b\<rparr>)" by (simp add: used_pages_def)
  let ?fr = "fr(q := p)"
  have rg: "{q..<q + Suc n} = insert q {q + 1..<q + 1 + n}" by auto
  have "reserve_loop True (phys (q + Suc n) 0) (phys q 0) s = ret (STATUS_SUCCESS, s\<lparr>memBitmap := b, pmem := m\<rparr>)"
  proof -
    have nz: "phys p 0 \<noteq> nullptr" using p(2,3) phys_eq_iff [of p 0 0 0] by (simp add: phys_def)
    have lim: "phys (q + Suc n) 0 = phys (q + 1 + n) 0" by simp
    show ?thesis
      using page_less [of q n] Suc.prems(3) p(1) m1(1) r(1) nz
      by (subst reserve_loop.simps) (simp only: if_True Let_def prod.case if_False andThen_ret next_page lim s')
  qed
  moreover have img: "?fr ` {q..<q + Suc n} = insert p (fr ` {q + 1..<q + 1 + n})"
  proof -
    have "?fr ` {q + 1..<q + 1 + n} = fr ` {q + 1..<q + 1 + n}" by (rule image_cong) auto
    then show ?thesis unfolding rg image_insert by (simp only: fun_upd_same)
  qed
  moreover have "inj_on ?fr {q..<q + Suc n}"
  proof -
    have "p \<notin> fr ` {q + 1..<q + 1 + n}" using r(4) up by blast
    then show ?thesis using r(3) inj_on_fun_updI [of fr "{q + 1..<q + 1 + n}" p q] unfolding rg inj_on_insert by simp
  qed
  moreover have "?fr ` {q..<q + Suc n} \<inter> used_pages s = {}" unfolding img using r(4) p(4) up by blast
  moreover have "used_pages (s\<lparr>memBitmap := b\<rparr>) = used_pages s \<union> ?fr ` {q..<q + Suc n}"
    unfolding img using r(5) up unfolding ub by blast
  moreover have "mmu (s\<lparr>memBitmap := b, pmem := m\<rparr>) u =
      (if q \<le> frame_of u \<and> frame_of u < q + Suc n then Some (phys (?fr (frame_of u)) (off u)) else mmu s u)" if "dir u \<in> D" for u
    using r(6) [rule_format, OF that] m1(3) [OF that] unfolding s' by (cases "frame_of u = q") auto
  ultimately show ?case using r(2) unfolding s' by blast
qed

lemma reserve_later:
  assumes "tables_ok D s" "\<forall>k<n. (q + k) div 1024 \<in> D \<and> (q + k) div 1024 \<noteq> 1023" "q + n < 1048576"
  shows "\<exists>m. reserve_loop False (phys (q + n) 0) (phys q 0) s = ret (STATUS_SUCCESS, s\<lparr>pmem := m\<rparr>) \<and>
    tables_ok D (s\<lparr>pmem := m\<rparr>) \<and>
    (\<forall>u. dir u \<in> D \<longrightarrow> mmu (s\<lparr>pmem := m\<rparr>) u = (if q \<le> frame_of u \<and> frame_of u < q + n then None else mmu s u))"
  using assms
proof (induction n arbitrary: q s)
  case 0
  have "s\<lparr>pmem := pmem s\<rparr> = s" by simp
  then show ?case using 0(1) by (intro exI [of _ "pmem s"]) (subst reserve_loop.simps, auto)
next
  case (Suc n)
  have q: "q < 1048576" "q div 1024 \<in> D" "q div 1024 \<noteq> 1023" using Suc.prems(2) [rule_format, of 0] Suc.prems(3) by auto
  let ?fl = "PAGE_WRITEABLE OR PAGE_NON_PRIVILEGED_ACCESS"
  have dv: "dir (phys q 0) \<in> D" "dir (phys q 0) \<noteq> 1023" using q by simp_all
  have fl: "?fl \<noteq> PAGE_EMPTY" "\<not> FlagOn ?fl PAGE_PRESENT" by (simp_all add: FlagOn_def)
  obtain m1 where a: "AddPageToPageDirectory PageAlloc (phys q 0) 0 ?fl s = ret (s\<lparr>pmem := m1\<rparr>)" "tables_ok D (s\<lparr>pmem := m1\<rparr>)"
      "\<And>u. dir u \<in> D \<Longrightarrow> mmu (s\<lparr>pmem := m1\<rparr>) u = (if frame_of u = frame_of (phys q 0)
        then if FlagOn ?fl PAGE_PRESENT then Some (phys (frame_of 0) (off u)) else None else mmu s u)"
    by (rule AddPage_present [OF Suc.prems(1) dv fl(1), where PA = PageAlloc and p = 0]) (rule that)
  have fr: "frame_of (phys q 0) = q" using q(1) by simp
  have a3: "mmu (s\<lparr>pmem := m1\<rparr>) u = (if frame_of u = q then None else mmu s u)" if "dir u \<in> D" for u
    using a(3) [OF that] unfolding fr if_not_P [OF fl(2)] .
  note m1 = a(1,2) a3
  have "\<forall>k<n. (q + 1 + k) div 1024 \<in> D \<and> (q + 1 + k) div 1024 \<noteq> 1023"
    using Suc.prems(2) by (metis Suc_mono add.assoc plus_1_eq_Suc)
  moreover have "q + 1 + n < 1048576" using Suc.prems(3) by simp
  ultimately obtain m where r: "reserve_loop False (phys (q + 1 + n) 0) (phys (q + 1) 0) (s\<lparr>pmem := m1\<rparr>) = ret (STATUS_SUCCESS, s\<lparr>pmem := m\<rparr>)"
    "tables_ok D (s\<lparr>pmem := m\<rparr>)" "\<And>u. dir u \<in> D \<Longrightarrow> mmu (s\<lparr>pmem := m\<rparr>) u =
      (if q + 1 \<le> frame_of u \<and> frame_of u < q + 1 + n then None else mmu (s\<lparr>pmem := m1\<rparr>) u)"
    using Suc.IH [OF m1(2), of "q + 1"] by auto
  have lim: "phys (q + Suc n) 0 = phys (q + 1 + n) 0" by simp
  have "reserve_loop False (phys (q + Suc n) 0) (phys q 0) s = ret (STATUS_SUCCESS, s\<lparr>pmem := m\<rparr>)"
    using page_less [of q n] Suc.prems(3) m1(1) r(1)
    by (subst reserve_loop.simps) (simp only: if_True if_False andThen_ret next_page lim)
  moreover have "mmu (s\<lparr>pmem := m\<rparr>) u = (if q \<le> frame_of u \<and> frame_of u < q + Suc n then None else mmu s u)" if "dir u \<in> D" for u
    using r(3) [OF that] m1(3) [OF that] by (cases "frame_of u = q") auto
  ultimately show ?case using r(2) by blast
qed

text \<open>The region \<open>v\<close> covers \<open>n\<close> whole pages from page \<open>q\<close> on, whose page tables exist in the directory.\<close>

definition region_pages :: "Vad \<Rightarrow> nat \<Rightarrow> nat \<Rightarrow> nat set \<Rightarrow> bool" where
  "region_pages v q n D \<longleftrightarrow> vad_base v = phys q 0 \<and> vad_limit v = phys (q + n) 0 \<and> q + n < 1048576 \<and>
     (\<forall>k<n. (q + k) div 1024 \<in> D \<and> (q + k) div 1024 \<noteq> 1023)"

lemma ReservePages_ok:
  assumes v: "vads s this = Some v" "this \<noteq> nullptr" "region_pages v q n D" and ok: "tables_ok D (s\<lparr>cr3 := pd\<rparr>)"
    and mem: "r \<Longrightarrow> n \<le> free_frames s" "{..<2048} \<subseteq> used_pages s"
  shows "\<exists>s' fr. ReservePages this pd r s = ret (STATUS_SUCCESS, s') \<and> cr3 s' = cr3 s \<and>
    vads s' = (vads s)(this \<mapsto> v\<lparr>vad_free := False\<rparr>) \<and>
    (if r then inj_on fr {q..<q + n} \<and> fr ` {q..<q + n} \<inter> used_pages s = {} \<and> used_pages s' = used_pages s \<union> fr ` {q..<q + n}
     else used_pages s' = used_pages s) \<and>
    (\<forall>u. dir u \<in> D \<longrightarrow> mmu (s'\<lparr>cr3 := pd\<rparr>) u = (if q \<le> frame_of u \<and> frame_of u < q + n
       then if r then Some (phys (fr (frame_of u)) (off u)) else None else mmu (s\<lparr>cr3 := pd\<rparr>) u))"
proof -
  note rp = v(3) [unfolded region_pages_def]
  let ?s = "s\<lparr>cr3 := pd\<rparr>"
  have up: "used_pages ?s = used_pages s" "free_frames ?s = free_frames s" by (simp_all add: used_pages_def free_frames_def)
  have fin: "ReservePages this pd r s = ret (STATUS_SUCCESS, s1\<lparr>cr3 := cr3 s, vads := (vads s)(this \<mapsto> v\<lparr>vad_free := False\<rparr>)\<rparr>)"
    if "reserve_loop r (phys (q + n) 0) (phys q 0) ?s = ret (STATUS_SUCCESS, s1)" "vads s1 = vads s" for s1
    using that v(1,2) rp
    by (simp add: ReservePages_def SetCurrentPageDirectory_def GetCurrentPageDirectory_def FAILED_def upd_vad_def)
  have mv: "mmu (s1\<lparr>cr3 := c, vads := vs, cr3 := pd\<rparr>) u = mmu s1 u" if "cr3 s1 = pd" for s1 :: "'a vad_space_scheme" and c vs u
    using that by (simp add: mmu_def Let_def)
  have uv: "used_pages (s1\<lparr>cr3 := c, vads := vs\<rparr>) = used_pages s1" for s1 :: "'a vad_space_scheme" and c vs
    by (simp add: used_pages_def)
  have pre: "\<forall>k<n. (q + k) div 1024 \<in> D \<and> (q + k) div 1024 \<noteq> 1023" "q + n < 1048576" using rp by simp_all
  show ?thesis
  proof (cases r)
    case True
    have pf: "n \<le> free_frames ?s" "{..<2048} \<subseteq> used_pages ?s" using mem True unfolding up by simp_all
    obtain b m fr where l: "reserve_loop True (phys (q + n) 0) (phys q 0) ?s = ret (STATUS_SUCCESS, ?s\<lparr>memBitmap := b, pmem := m\<rparr>)"
      "inj_on fr {q..<q + n}" "fr ` {q..<q + n} \<inter> used_pages ?s = {}"
      "used_pages (?s\<lparr>memBitmap := b\<rparr>) = used_pages ?s \<union> fr ` {q..<q + n}"
      "\<forall>u. dir u \<in> D \<longrightarrow> mmu (?s\<lparr>memBitmap := b, pmem := m\<rparr>) u =
        (if q \<le> frame_of u \<and> frame_of u < q + n then Some (phys (fr (frame_of u)) (off u)) else mmu ?s u)"
      using reserve_physical [OF ok pre pf] by (elim exE conjE) (rule that)
    have ub: "used_pages (?s\<lparr>memBitmap := b, pmem := m\<rparr>) = used_pages s \<union> fr ` {q..<q + n}" using l(4) up by simp
    let ?s' = "?s\<lparr>memBitmap := b, pmem := m\<rparr>\<lparr>cr3 := cr3 s, vads := (vads s)(this \<mapsto> v\<lparr>vad_free := False\<rparr>)\<rparr>"
    have "ReservePages this pd r s = ret (STATUS_SUCCESS, ?s')" using l(1) True by (intro fin) simp_all
    moreover have "cr3 ?s' = cr3 s" "vads ?s' = (vads s)(this \<mapsto> v\<lparr>vad_free := False\<rparr>)" by simp_all
    moreover have "used_pages ?s' = used_pages s \<union> fr ` {q..<q + n}" unfolding uv ub ..
    moreover have "mmu (?s'\<lparr>cr3 := pd\<rparr>) u = (if q \<le> frame_of u \<and> frame_of u < q + n
        then Some (phys (fr (frame_of u)) (off u)) else mmu ?s u)" if "dir u \<in> D" for u
      using l(5) that by (subst mv) simp_all
    ultimately show ?thesis using l(2,3) up True by (intro exI [of _ ?s'] exI [of _ fr] conjI allI impI) (simp_all only: if_True simp_thms split: if_split)
  next
    case False
    obtain m where l: "reserve_loop False (phys (q + n) 0) (phys q 0) ?s = ret (STATUS_SUCCESS, ?s\<lparr>pmem := m\<rparr>)"
      "\<forall>u. dir u \<in> D \<longrightarrow> mmu (?s\<lparr>pmem := m\<rparr>) u = (if q \<le> frame_of u \<and> frame_of u < q + n then None else mmu ?s u)"
      using reserve_later [OF ok pre] by (elim exE conjE) (rule that)
    let ?s' = "?s\<lparr>pmem := m\<rparr>\<lparr>cr3 := cr3 s, vads := (vads s)(this \<mapsto> v\<lparr>vad_free := False\<rparr>)\<rparr>"
    have "ReservePages this pd r s = ret (STATUS_SUCCESS, ?s')" using l(1) False by (intro fin) simp_all
    moreover have "cr3 ?s' = cr3 s" "vads ?s' = (vads s)(this \<mapsto> v\<lparr>vad_free := False\<rparr>)" by simp_all
    moreover have "used_pages ?s' = used_pages s" by (simp add: used_pages_def)
    moreover have "mmu (?s'\<lparr>cr3 := pd\<rparr>) u = (if q \<le> frame_of u \<and> frame_of u < q + n then None else mmu ?s u)" if "dir u \<in> D" for u
      using l(2) that by (subst mv) simp_all
    ultimately show ?thesis using False by (intro exI [of _ ?s'] exI [of _ id] conjI allI impI) (simp_all only: if_False simp_thms)
  qed
qed

end
