(* ===== verification/Descriptors.thy ===== *)
theory Descriptors
  imports Kernel_Lib
begin

section \<open>Segment and interrupt descriptors\<close>

text \<open>
  \<^verbatim>\<open>kernel/arch/x86/Gdt.cpp\<close> and \<^verbatim>\<open>kernel/arch/x86/Idt.cpp\<close>: the tables the processor
  reads, at the physical addresses 0 and 0x800, written byte by byte into memory. They are built
  before paging is switched on. The interrupt routines are assembly: their addresses are the
  parameter \<open>isr\<close>; the address of the global \<^verbatim>\<open>gTss\<close> is the parameter \<open>gTss\<close>.
\<close>

subsection \<open>Half words in memory\<close>

definition read16 :: "memory \<Rightarrow> addr \<Rightarrow> u16" where
  "read16 m p = ucast (m p) OR push_bit 8 (ucast (m (p + 1)))"

definition write16 :: "memory \<Rightarrow> addr \<Rightarrow> u16 \<Rightarrow> memory" where
  "write16 m p v = m(p := ucast v, p + 1 := ucast (drop_bit 8 v))"

subsection \<open>The global descriptor table\<close>

record GdtDescriptor =
  limit0_15 :: u16
  base0_15 :: u16
  base16_23 :: u8
  access :: u8
  limit16_19 :: u8
  flags :: u8
  base24_31 :: u8

record GdtInfo =
  gdt_limit :: u16
  gdt_base :: u32

abbreviation GDT_ADDR :: addr where "GDT_ADDR \<equiv> 0"
abbreviation GDT_SIZE :: u32 where "GDT_SIZE \<equiv> 6"
abbreviation sizeof_GdtDescriptor :: u32 where "sizeof_GdtDescriptor \<equiv> 8"
abbreviation sizeof_Tss :: u32 where "sizeof_Tss \<equiv> 104"

datatype GdtSelector = KERNEL_CODE_SELECTOR | KERNEL_DATA_SELECTOR | USER_CODE_SELECTOR | USER_DATA_SELECTOR
  | USER_CODE_SELECTOR_WITH_RPL | USER_DATA_SELECTOR_WITH_RPL | TSS_SELECTOR

fun selector_value :: "GdtSelector \<Rightarrow> u32" where
  "selector_value KERNEL_CODE_SELECTOR = 0x08"
| "selector_value KERNEL_DATA_SELECTOR = 0x10"
| "selector_value USER_CODE_SELECTOR = 0x18"
| "selector_value USER_DATA_SELECTOR = 0x20"
| "selector_value USER_CODE_SELECTOR_WITH_RPL = 0x1B"
| "selector_value USER_DATA_SELECTOR_WITH_RPL = 0x23"
| "selector_value TSS_SELECTOR = 0x28"

text \<open>The packed layout of a descriptor: two bit fields of four bits share the byte 6.\<close>

definition load_GdtDescriptor :: "memory \<Rightarrow> addr \<Rightarrow> GdtDescriptor" where
  "load_GdtDescriptor m p = \<lparr>limit0_15 = read16 m p, base0_15 = read16 m (p + 2), base16_23 = m (p + 4),
     access = m (p + 5), limit16_19 = m (p + 6) AND 0xF, flags = drop_bit 4 (m (p + 6)), base24_31 = m (p + 7)\<rparr>"

definition Gdt_InitDescriptor :: "u32 \<Rightarrow> u32 \<Rightarrow> u8 \<Rightarrow> u8 \<Rightarrow> addr \<Rightarrow> memory \<Rightarrow> memory" where
  "Gdt_InitDescriptor base limit acc flgs desc m =
     (let m1 = write16 m desc (ucast (limit AND 0xFFFF));
          m2 = write16 m1 (desc + 2) (ucast (base AND 0xFFFF));
          m3 = m2(desc + 4 := ucast (drop_bit 16 base AND 0xFF));
          m4 = m3(desc + 5 := acc);
          m5 = m4(desc + 6 := (m4 (desc + 6) AND 0xF0) OR ucast (drop_bit 16 limit AND 0xF));
          m6 = m5(desc + 6 := (m5 (desc + 6) AND 0x0F) OR push_bit 4 (flgs AND 0xF))
      in m6(desc + 7 := ucast (drop_bit 24 base AND 0xFF)))"

definition TssInit :: "addr \<Rightarrow> memory \<Rightarrow> memory" where
  "TssInit gTss m = write16 (write16 (write16 m (gTss + 100) 0) (gTss + 102) 0) (gTss + 8)
     (ucast (selector_value KERNEL_DATA_SELECTOR))"

text \<open>\<^verbatim>\<open>&descriptors[index]\<close>.\<close>

abbreviation gdt_desc :: "nat \<Rightarrow> addr" where
  "gdt_desc i \<equiv> GDT_ADDR + sizeof_GdtDescriptor * of_nat i"

definition Gdt_Init :: "addr \<Rightarrow> memory \<Rightarrow> GdtInfo \<times> memory" where
  "Gdt_Init gTss m =
     (let m0 = MemSet m GDT_ADDR 0 (GDT_SIZE * sizeof_GdtDescriptor);
          m1 = MemSet m0 gTss 0 sizeof_Tss;
          m2 = TssInit gTss m1;
          m3 = Gdt_InitDescriptor 0 0 0 0 (gdt_desc 0) m2;
          m4 = Gdt_InitDescriptor 0 0xFFFFF 0x9B 0x0D (gdt_desc 1) m3;
          m5 = Gdt_InitDescriptor 0 0xFFFFF 0x93 0x0D (gdt_desc 2) m4;
          m6 = Gdt_InitDescriptor 0 0xFFFFF 0xFF 0x0F (gdt_desc 3) m5;
          m7 = Gdt_InitDescriptor 0 0xFFFFF 0xF3 0x0F (gdt_desc 4) m6;
          m8 = Gdt_InitDescriptor gTss sizeof_Tss 0xE9 0 (gdt_desc 5) m7
      in (\<lparr>gdt_limit = ucast (GDT_SIZE * sizeof_GdtDescriptor), gdt_base = GDT_ADDR\<rparr>, m8))"

definition GetDescriptor :: "u32 \<Rightarrow> addr" where
  "GetDescriptor selector =
     (if selector \<le> (GDT_SIZE - 1) * sizeof_GdtDescriptor then selector else 0)"

definition GetBaseAddrFromDescriptor :: "GdtDescriptor \<Rightarrow> u32" where
  "GetBaseAddrFromDescriptor desc =
     ucast (base0_15 desc) OR push_bit 16 (ucast (base16_23 desc)) OR push_bit 24 (ucast (base24_31 desc))"

text \<open>What \<^verbatim>\<open>Gdt::PrintDescriptor\<close> prints: the base and the end of the segment.\<close>

definition PrintDescriptor :: "GdtDescriptor \<Rightarrow> u32 \<times> u32" where
  "PrintDescriptor desc =
     (let base = push_bit 24 (ucast (base24_31 desc)) OR push_bit 16 (ucast (base16_23 desc)) OR ucast (base0_15 desc);
          limit = push_bit 16 (ucast (limit16_19 desc)) OR ucast (limit0_15 desc)
      in (base, base + limit))"

subsection \<open>The interrupt descriptor table\<close>

record IdtDescriptor =
  offset0_15 :: u16
  selector :: u16
  gate_type :: u16
  offset16_31 :: u16

record IdtInfo =
  idt_limit :: u16
  idt_base :: u32

abbreviation IDT_ADDR :: addr where "IDT_ADDR \<equiv> 0x800"
abbreviation IDT_SIZE :: nat where "IDT_SIZE \<equiv> 255"

abbreviation INT_GATE :: u16 where "INT_GATE \<equiv> 0xE"
abbreviation TRAP_GATE :: u16 where "TRAP_GATE \<equiv> 0xF"
abbreviation USER_DPL :: u16 where "USER_DPL \<equiv> push_bit 5 3"
abbreviation KERNEL_DPL :: u16 where "KERNEL_DPL \<equiv> 0"
abbreviation GATE_PRESENT :: u16 where "GATE_PRESENT \<equiv> push_bit 7 1"

definition CPU_GATE :: u16 where "CPU_GATE = INT_GATE OR GATE_PRESENT OR KERNEL_DPL"
definition DEBUG_GATE :: u16 where "DEBUG_GATE = INT_GATE OR GATE_PRESENT OR USER_DPL"
definition SYSCALL_GATE :: u16 where "SYSCALL_GATE = TRAP_GATE OR GATE_PRESENT OR USER_DPL"

datatype isr_name = default_isr | divided_by_zero_isr | non_maskable_int_isr | overflow_isr
  | bound_range_exceeded_isr | invalid_opcode_isr | device_not_available_isr | double_fault_isr
  | invalid_tss_isr | segment_not_present_isr | stack_segment_fault_isr | general_protection_fault_isr
  | page_fault_isr | x87_floating_point_isr | alignment_check_isr | machine_check_isr
  | simd_floating_point_isr | virtualization_isr | security_isr | TmpKeyboardIsr

definition load_IdtDescriptor :: "memory \<Rightarrow> addr \<Rightarrow> IdtDescriptor" where
  "load_IdtDescriptor m p = \<lparr>offset0_15 = read16 m p, selector = read16 m (p + 2),
     gate_type = read16 m (p + 4), offset16_31 = read16 m (p + 6)\<rparr>"

text \<open>\<^verbatim>\<open>Idt::_InitDescriptor\<close> and the public \<^verbatim>\<open>Idt::InitDescriptor\<close>.\<close>

definition Idt_InitDescriptor_at :: "u32 \<Rightarrow> u16 \<Rightarrow> u16 \<Rightarrow> addr \<Rightarrow> memory \<Rightarrow> memory" where
  "Idt_InitDescriptor_at isrAddr sel type desc m =
     (let m1 = write16 m desc (ucast (isrAddr AND 0xFFFF));
          m2 = write16 m1 (desc + 2) sel;
          m3 = write16 m2 (desc + 4) (push_bit 8 type)
      in write16 m3 (desc + 6) (ucast (drop_bit 16 (isrAddr AND 0xFFFF0000))))"

definition Idt_InitDescriptor :: "u32 \<Rightarrow> u16 \<Rightarrow> nat \<Rightarrow> memory \<Rightarrow> memory" where
  "Idt_InitDescriptor isrAddr type index m =
     Idt_InitDescriptor_at isrAddr (ucast (selector_value KERNEL_CODE_SELECTOR)) type (IDT_ADDR + 8 * of_nat index) m"

function idt_defaults :: "u32 \<Rightarrow> nat \<Rightarrow> memory \<Rightarrow> memory" where
  "idt_defaults isrAddr i m =
     (if i < IDT_SIZE then idt_defaults isrAddr (i + 1) (Idt_InitDescriptor isrAddr CPU_GATE i m) else m)"
  by pat_completeness auto
termination
  by (relation "measure (\<lambda>(a, i, m). IDT_SIZE - i)") auto

declare idt_defaults.simps [simp del]

text \<open>The routines that \<^verbatim>\<open>Idt::Init\<close> installs after the default one, in its order.\<close>

definition exception_isrs :: "(isr_name \<times> nat) list" where
  "exception_isrs = [(divided_by_zero_isr, 0), (non_maskable_int_isr, 2), (overflow_isr, 4),
     (bound_range_exceeded_isr, 5), (invalid_opcode_isr, 6), (device_not_available_isr, 7),
     (double_fault_isr, 8), (invalid_tss_isr, 10), (segment_not_present_isr, 11),
     (stack_segment_fault_isr, 12), (general_protection_fault_isr, 13), (page_fault_isr, 14),
     (x87_floating_point_isr, 16), (alignment_check_isr, 17), (machine_check_isr, 18),
     (simd_floating_point_isr, 19), (virtualization_isr, 20), (security_isr, 30), (TmpKeyboardIsr, 33)]"

definition Idt_Init :: "(isr_name \<Rightarrow> u32) \<Rightarrow> memory \<Rightarrow> IdtInfo \<times> memory" where
  "Idt_Init isr m =
     (\<lparr>idt_limit = of_nat (IDT_SIZE * 8), idt_base = IDT_ADDR\<rparr>,
      fold (\<lambda>(f, i). Idt_InitDescriptor (isr f) CPU_GATE i) exception_isrs (idt_defaults (isr default_isr) 0 m))"

text \<open>The address the processor jumps to through a gate.\<close>

definition gate_target :: "IdtDescriptor \<Rightarrow> u32" where
  "gate_target d = ucast (offset0_15 d) OR push_bit 16 (ucast (offset16_31 d))"

subsection \<open>Descriptors keep what they were given\<close>

lemma read_write16 [simp]: "read16 (write16 m p v) p = v"
  by (rule bit_word_eqI) (auto simp: read16_def write16_def bit_simps)

lemma load_InitDescriptor:
  "load_GdtDescriptor (Gdt_InitDescriptor base limit acc flgs p m) p =
    \<lparr>limit0_15 = ucast limit, base0_15 = ucast base, base16_23 = ucast (drop_bit 16 base), access = acc,
     limit16_19 = ucast (drop_bit 16 limit) AND 0xF, flags = flgs AND 0xF, base24_31 = ucast (drop_bit 24 base)\<rparr>"
proof -
  have mk: "(0xFFFF :: u32) = mask 16" "(0xFF :: u32) = mask 8" "(0xF :: u32) = mask 4" "(0xF :: u8) = mask 4"
      "(0xF0 :: u8) = push_bit 4 (mask 4)"
    by (simp_all add: mask_eq_exp_minus_1)
  have lo: "(((b AND 0xF0) OR ucast (x AND 0xF)) AND 0x0F OR push_bit 4 (f AND 0xF)) AND 0xF = (ucast x AND 0xF :: u8)"
    for b f :: u8 and x :: u32
    unfolding mk by (rule bit_word_eqI) (auto simp: bit_simps)
  have hi: "drop_bit 4 (((b AND 0xF0) OR ucast (x AND 0xF)) AND 0x0F OR push_bit 4 (f AND 0xF)) = (f AND 0xF :: u8)"
    for b f :: u8 and x :: u32
    unfolding mk by (rule bit_word_eqI) (auto simp: bit_simps)
  have u: "(ucast (x AND 0xFFFF) :: u16) = ucast x" "(ucast (x AND 0xFF) :: u8) = ucast x" for x :: u32
    unfolding mk by (rule bit_word_eqI, auto simp: bit_simps)+
  have r: "ucast (ucast v :: u8) OR push_bit 8 (ucast (ucast (drop_bit 8 v) :: u8)) = (v :: u16)" for v
    by (rule bit_word_eqI) (auto simp: bit_simps)
  show ?thesis
    by (simp add: load_GdtDescriptor_def Gdt_InitDescriptor_def Let_def read16_def write16_def u r lo [simplified] hi [simplified])
qed

lemma join_base:
  "ucast (ucast base :: u16) OR push_bit 16 (ucast (ucast (drop_bit 16 base) :: u8)) OR
    push_bit 24 (ucast (ucast (drop_bit 24 base) :: u8)) = (base :: u32)"
proof (rule bit_word_eqI)
  fix n :: nat assume "n < LENGTH(32)"
  then consider "n < 16" | "16 \<le> n" "n < 24" | "24 \<le> n" "n < 32" by fastforce
  then show "bit (ucast (ucast base :: u16) OR push_bit 16 (ucast (ucast (drop_bit 16 base) :: u8)) OR
    push_bit 24 (ucast (ucast (drop_bit 24 base) :: u8)) :: u32) n = bit base n" by cases (auto simp: bit_simps)
qed

lemma base_round_trip: "GetBaseAddrFromDescriptor (load_GdtDescriptor (Gdt_InitDescriptor base limit acc flgs p m) p) = base"
  by (simp add: load_InitDescriptor GetBaseAddrFromDescriptor_def join_base)

lemma printed_limit:
  "PrintDescriptor (load_GdtDescriptor (Gdt_InitDescriptor base limit acc flgs p m) p) = (base, base + (limit AND 0xFFFFF))"
proof -
  have "push_bit 16 (ucast (ucast (drop_bit 16 limit) AND 0xF :: u8)) OR ucast (ucast limit :: u16) = limit AND 0xFFFFF"
  proof -
    have mk: "(0xFFFFF :: u32) = mask 20" "(0xF :: u8) = mask 4" by (simp_all add: mask_eq_exp_minus_1)
    show ?thesis unfolding mk by (rule bit_word_eqI) (auto simp: bit_simps)
  qed
  moreover have "push_bit 24 (ucast (ucast (drop_bit 24 base) :: u8)) OR push_bit 16 (ucast (ucast (drop_bit 16 base) :: u8))
      OR ucast (ucast base :: u16) = base"
    using join_base [of base] by (simp only: ac_simps)
  ultimately show ?thesis by (simp add: load_InitDescriptor PrintDescriptor_def Let_def)
qed

subsection \<open>The tables after initialisation\<close>

text \<open>Eight-byte slots at multiples of eight do not overlap.\<close>

lemma slot_eq_iff:
  assumes "i < 1024" "j < 1024" "a < 8" "b < 8"
  shows "(8 * of_nat i + of_nat a :: addr) = 8 * of_nat j + of_nat b \<longleftrightarrow> i = j \<and> a = b"
proof -
  have s: "(8 * of_nat i + of_nat a :: addr) = of_nat (8 * i + a)" "(8 * of_nat j + of_nat b :: addr) = of_nat (8 * j + b)" by simp_all
  have lt: "8 * i + a < 4294967296" "8 * j + b < 4294967296" using assms by linarith+
  have "8 * i + a = 8 * j + b \<longleftrightarrow> i = j \<and> a = b" using assms(3,4) by presburger
  then show ?thesis unfolding s of_nat_u32_eq_iff [OF lt] .
qed

lemma slot_frame:
  assumes "i < 1024" "j < 1024" "i \<noteq> j" "b < 8"
  shows "8 \<le> unat (8 * of_nat j + of_nat b - 8 * of_nat i :: addr)"
proof (rule ccontr)
  let ?d = "8 * of_nat j + of_nat b - 8 * of_nat i :: addr"
  assume "\<not> ?thesis"
  then have "unat ?d < 8" by simp
  moreover have "(8 * of_nat j + of_nat b :: addr) = 8 * of_nat i + of_nat (unat ?d)" by simp
  ultimately show False using slot_eq_iff [OF assms(2,1,4), of "unat ?d"] assms(3) by simp
qed

lemma slot_frame_numeral:
  assumes "i < 1024" "j < 1024" "i \<noteq> j" and m: "\<And>x. 8 \<le> unat (x - 8 * of_nat i) \<Longrightarrow> m' x = m x"
  shows "m' (8 * of_nat j :: addr) = m (8 * of_nat j)" "m' (8 * of_nat j + 1 :: addr) = m (8 * of_nat j + 1)"
    "b < 8 \<Longrightarrow> m' (8 * of_nat j + of_nat b :: addr) = m (8 * of_nat j + of_nat b)"
    "numeral k < (8 :: nat) \<Longrightarrow> m' (8 * of_nat j + numeral k :: addr) = m (8 * of_nat j + numeral k)"
  using m [OF slot_frame [OF assms(1-3), of 0]] m [OF slot_frame [OF assms(1-3), of 1]]
    m [OF slot_frame [OF assms(1-3), of b]] m [OF slot_frame [OF assms(1-3), of "numeral k"]]
  by simp_all

lemma Gdt_InitDescriptor_frame: "8 \<le> unat (x - p) \<Longrightarrow> Gdt_InitDescriptor base limit acc flgs p m x = m x"
  by (auto simp: Gdt_InitDescriptor_def Let_def write16_def)

lemma Idt_InitDescriptor_frame: "8 \<le> unat (x - p) \<Longrightarrow> Idt_InitDescriptor_at a sel type p m x = m x"
  by (auto simp: Idt_InitDescriptor_at_def Let_def write16_def)

text \<open>The table of segments: initialising one descriptor leaves the others alone.\<close>

lemma Gdt_InitDescriptor_table:
  assumes "i < 1024" "j < 1024"
  shows "load_GdtDescriptor (Gdt_InitDescriptor base limit acc flgs (gdt_desc i) m) (gdt_desc j) =
    (if i = j then load_GdtDescriptor (Gdt_InitDescriptor base limit acc flgs (gdt_desc i) m) (gdt_desc i)
     else load_GdtDescriptor m (gdt_desc j))"
proof (cases "i = j")
  case False
  have f: "\<And>x. 8 \<le> unat (x - 8 * of_nat i) \<Longrightarrow> Gdt_InitDescriptor base limit acc flgs (8 * of_nat i) m x = m x"
    by (rule Gdt_InitDescriptor_frame)
  show ?thesis using False slot_frame_numeral [where m' = "Gdt_InitDescriptor base limit acc flgs (8 * of_nat i) m", OF assms False f]
    by (simp add: load_GdtDescriptor_def read16_def add.assoc)
qed simp

text \<open>
  After \<^verbatim>\<open>Gdt::Init\<close> each of the six descriptors decodes to the segment it stands for; the
  first is null. \<open>segment base limit acc flgs\<close> is the descriptor of a segment.
\<close>

definition segment :: "u32 \<Rightarrow> u32 \<Rightarrow> u8 \<Rightarrow> u8 \<Rightarrow> GdtDescriptor" where
  "segment base limit acc flgs = \<lparr>limit0_15 = ucast limit, base0_15 = ucast base, base16_23 = ucast (drop_bit 16 base),
     access = acc, limit16_19 = ucast (drop_bit 16 limit) AND 0xF, flags = flgs AND 0xF, base24_31 = ucast (drop_bit 24 base)\<rparr>"

definition gdt_segments :: "addr \<Rightarrow> GdtDescriptor list" where
  "gdt_segments gTss = [segment 0 0 0 0, segment 0 0xFFFFF 0x9B 0x0D, segment 0 0xFFFFF 0x93 0x0D,
     segment 0 0xFFFFF 0xFF 0x0F, segment 0 0xFFFFF 0xF3 0x0F, segment gTss sizeof_Tss 0xE9 0]"

lemma gdt_step:
  assumes "i < 6" "j < 6"
  shows "load_GdtDescriptor (Gdt_InitDescriptor base limit acc flgs (gdt_desc i) m) (gdt_desc j) =
    (if i = j then segment base limit acc flgs else load_GdtDescriptor m (gdt_desc j))"
  using Gdt_InitDescriptor_table [of i j] load_InitDescriptor assms by (simp add: segment_def)

lemma Gdt_Init_table:
  assumes "i < 6"
  shows "load_GdtDescriptor (snd (Gdt_Init gTss m)) (gdt_desc i) = gdt_segments gTss ! i"
proof -
  have lt: "0 < (6 :: nat)" "1 < (6 :: nat)" "2 < (6 :: nat)" "3 < (6 :: nat)" "4 < (6 :: nat)" "5 < (6 :: nat)" by simp_all
  note st = lt [THEN gdt_step, OF assms]
  consider "i = 0" | "i = 1" | "i = 2" | "i = 3" | "i = 4" | "i = 5" using assms by fastforce
  then show ?thesis
    unfolding Gdt_Init_def Let_def snd_conv st by cases (simp_all add: gdt_segments_def)
qed

text \<open>The table of gates.\<close>

lemma load_Idt_InitDescriptor:
  "load_IdtDescriptor (Idt_InitDescriptor_at a sel type p m) p =
    \<lparr>offset0_15 = ucast a, selector = sel, gate_type = push_bit 8 type, offset16_31 = ucast (drop_bit 16 a)\<rparr>"
proof -
  have mk: "(0xFFFF :: u32) = mask 16" "(0xFFFF0000 :: u32) = push_bit 16 (mask 16)" by (simp_all add: mask_eq_exp_minus_1)
  have u: "(ucast (a AND 0xFFFF) :: u16) = ucast a" "(ucast (drop_bit 16 (a AND 0xFFFF0000)) :: u16) = ucast (drop_bit 16 a)"
    unfolding mk by (rule bit_word_eqI, auto simp: bit_simps)+
  have r: "ucast (ucast v :: u8) OR push_bit 8 (ucast (ucast (drop_bit 8 v) :: u8)) = (v :: u16)" for v
    by (rule bit_word_eqI) (auto simp: bit_simps)
  show ?thesis unfolding Idt_InitDescriptor_at_def u
    by (simp add: load_IdtDescriptor_def Let_def read16_def write16_def r)
qed

abbreviation idt_desc :: "nat \<Rightarrow> addr" where
  "idt_desc i \<equiv> IDT_ADDR + 8 * of_nat i"

lemma idt_slot: "idt_desc i = 8 * of_nat (256 + i)"
  by simp

definition gate :: "u32 \<Rightarrow> u16 \<Rightarrow> IdtDescriptor" where
  "gate a type = \<lparr>offset0_15 = ucast a, selector = 8, gate_type = push_bit 8 type, offset16_31 = ucast (drop_bit 16 a)\<rparr>"

lemma Idt_InitDescriptor_table:
  assumes "i < 256" "j < 256"
  shows "load_IdtDescriptor (Idt_InitDescriptor a type i m) (idt_desc j) =
    (if i = j then gate a type else load_IdtDescriptor m (idt_desc j))"
proof (cases "i = j")
  case True
  then show ?thesis by (simp add: Idt_InitDescriptor_def load_Idt_InitDescriptor gate_def)
next
  case False
  let ?m' = "Idt_InitDescriptor a type i m"
  have f: "\<And>x. 8 \<le> unat (x - 8 * of_nat (256 + i)) \<Longrightarrow> ?m' x = m x"
    unfolding Idt_InitDescriptor_def idt_slot by (rule Idt_InitDescriptor_frame)
  have lt: "256 + i < 1024" "256 + j < 1024" "256 + i \<noteq> 256 + j" using assms False by auto
  show ?thesis using False slot_frame_numeral [where m' = ?m', OF lt f]
    unfolding idt_slot by (simp add: load_IdtDescriptor_def read16_def add.assoc del: of_nat_add)
qed

lemma gate_target_gate: "gate_target (gate a type) = a"
proof (unfold gate_target_def gate_def, rule bit_word_eqI)
  fix n :: nat assume "n < LENGTH(32)"
  then show "bit (ucast (offset0_15 \<lparr>offset0_15 = ucast a, selector = 8, gate_type = push_bit 8 type, offset16_31 = ucast (drop_bit 16 a)\<rparr>) OR
    push_bit 16 (ucast (offset16_31 \<lparr>offset0_15 = ucast a, selector = 8, gate_type = push_bit 8 type, offset16_31 = ucast (drop_bit 16 a)\<rparr>)) :: u32) n = bit a n"
    by (cases "n < 16") (auto simp: bit_simps)
qed

lemma idt_defaults_table:
  "j < 255 \<Longrightarrow> load_IdtDescriptor (idt_defaults a i m) (idt_desc j) =
    (if i \<le> j then gate a CPU_GATE else load_IdtDescriptor m (idt_desc j))"
proof (induction a i m rule: idt_defaults.induct)
  case (1 a i m)
  then show ?case
    by (subst idt_defaults.simps) (auto simp: Idt_InitDescriptor_table)
qed

lemma fold_gates:
  assumes "j < 256" "\<forall>(f, i) \<in> set xs. i < 256"
  shows "load_IdtDescriptor (fold (\<lambda>(f, i). Idt_InitDescriptor (isr f) CPU_GATE i) xs m) (idt_desc j) =
    (case map_of (rev (map prod.swap xs)) j of Some f \<Rightarrow> gate (isr f) CPU_GATE | None \<Rightarrow> load_IdtDescriptor m (idt_desc j))"
  using assms(2)
proof (induction xs arbitrary: m)
  case (Cons x xs)
  obtain f i where x: "x = (f, i)" by (cases x)
  show ?case
    using Cons assms(1) unfolding x
    by (auto simp: Idt_InitDescriptor_table map_add_def split: option.splits)
qed simp

definition installed_isr :: "nat \<Rightarrow> isr_name" where
  "installed_isr j = (case map_of (map prod.swap exception_isrs) j of Some f \<Rightarrow> f | None \<Rightarrow> default_isr)"

lemma Idt_Init_table:
  assumes "j < 255"
  shows "load_IdtDescriptor (snd (Idt_Init isr m)) (idt_desc j) = gate (isr (installed_isr j)) CPU_GATE"
proof -
  have d: "map_of (rev (map prod.swap exception_isrs)) j = map_of (map prod.swap exception_isrs) j"
  proof (rule fun_cong [OF map_of_inject_set [THEN iffD2]])
    show "set (rev (map prod.swap exception_isrs)) = set (map prod.swap exception_isrs)" by simp
  qed (simp_all add: exception_isrs_def)
  have "\<forall>(f, i) \<in> set exception_isrs. i < 256" by (simp add: exception_isrs_def)
  then show ?thesis
    using assms fold_gates [of j exception_isrs isr "idt_defaults (isr default_isr) 0 m"]
    by (simp add: Idt_Init_def d idt_defaults_table installed_isr_def split: option.split)
qed

text \<open>The interrupt table leaves everything outside its 2040 bytes alone.\<close>

lemma Idt_InitDescriptor_outside:
  assumes "i < 255" "unat x < 2048 \<or> 4088 \<le> unat x"
  shows "Idt_InitDescriptor a type i m x = m x"
proof -
  have lt: "2048 + 8 * i < 4294967296" using assms(1) by linarith
  have "idt_desc i = of_nat (2048 + 8 * i)" by simp
  then have p: "unat (idt_desc i) = 2048 + 8 * i" using unat_of_nat_u32 [OF lt] by (simp only:)
  have "\<not> unat (x - idt_desc i) < 8"
    using assms p by (subst unat_diff_lt_iff) linarith+
  then have "8 \<le> unat (x - idt_desc i)" by (rule leI)
  then show ?thesis unfolding Idt_InitDescriptor_def by (rule Idt_InitDescriptor_frame)
qed

lemma Idt_Init_outside:
  assumes "unat x < 2048 \<or> 4088 \<le> unat x"
  shows "snd (Idt_Init isr m) x = m x"
proof -
  have d: "idt_defaults a i m x = m x" for a i m
  proof (induction a i m rule: idt_defaults.induct)
    case (1 a i m)
    then show ?case using Idt_InitDescriptor_outside [OF _ assms]
      by (cases "i < 255") (simp_all add: idt_defaults.simps [of a i m])
  qed
  have "fold (\<lambda>(f, i). Idt_InitDescriptor (isr f) CPU_GATE i) xs m x = m x" if "\<forall>(f, i) \<in> set xs. i < 255" for xs m
    using that Idt_InitDescriptor_outside [OF _ assms] by (induction xs arbitrary: m) auto
  moreover have "\<forall>(f, i) \<in> set exception_isrs. i < 255" by (simp add: exception_isrs_def)
  ultimately show ?thesis by (simp add: Idt_Init_def d)
qed

text \<open>The word at address 0 is the null descriptor, also when the interrupt table is in place.\<close>

lemma read32_halves: "read32 m p = ucast (read16 m p) OR push_bit 16 (ucast (read16 m (p + 2)))"
proof (rule bit_word_eqI)
  fix n :: nat assume "n < LENGTH(32)"
  then consider "n < 8" | "8 \<le> n" "n < 16" | "16 \<le> n" "n < 24" | "24 \<le> n" "n < 32" by fastforce
  then show "bit (read32 m p) n = bit (ucast (read16 m p) OR push_bit 16 (ucast (read16 m (p + 2))) :: u32) n"
    by cases (auto simp: read32_def read16_def bit_simps add.assoc dest: bit_imp_le_length)
qed

lemma null_descriptor:
  "read32 (snd (Idt_Init isr (snd (Gdt_Init gTss m)))) 0 = 0"
proof -
  let ?m = "snd (Gdt_Init gTss m)"
  have "load_GdtDescriptor ?m (gdt_desc 0) = segment 0 0 0 0"
    using Gdt_Init_table [of 0 gTss m] by (simp add: gdt_segments_def)
  then have "read16 ?m 0 = 0" "read16 ?m 2 = 0" by (simp_all add: load_GdtDescriptor_def segment_def)
  then have "read32 ?m 0 = 0" by (simp add: read32_halves)
  moreover have "read32 (snd (Idt_Init isr ?m)) 0 = read32 ?m 0" by (simp add: read32_def Idt_Init_outside)
  ultimately show ?thesis by simp
qed

subsection \<open>Properties\<close>

text \<open>A segment descriptor decodes to what it was built from: the base address of
  \<^verbatim>\<open>GetBaseAddrFromDescriptor\<close> is the base given to \<^verbatim>\<open>InitDescriptor\<close>, and the printed
  range ends at base plus the low 20 bits of the limit.\<close>

theorem gdt_descriptor_round_trip:
  "GetBaseAddrFromDescriptor (load_GdtDescriptor (Gdt_InitDescriptor base limit acc flgs p m) p) = base \<and>
   PrintDescriptor (load_GdtDescriptor (Gdt_InitDescriptor base limit acc flgs p m) p) = (base, base + (limit AND 0xFFFFF)) \<and>
   access (load_GdtDescriptor (Gdt_InitDescriptor base limit acc flgs p m) p) = acc"
  by (simp add: base_round_trip printed_limit) (simp add: load_InitDescriptor)

text \<open>After \<^verbatim>\<open>Idt::Init\<close> every one of the 255 gates leads to the routine installed for its
  vector (the default routine where no other is), through the kernel code selector, as a present
  interrupt gate of privilege 0.\<close>

theorem idt_gates_installed:
  "\<forall>j<255. load_IdtDescriptor (snd (Idt_Init isr m)) (IDT_ADDR + 8 * of_nat j) = gate (isr (installed_isr j)) CPU_GATE \<and>
     gate_target (load_IdtDescriptor (snd (Idt_Init isr m)) (IDT_ADDR + 8 * of_nat j)) = isr (installed_isr j)"
  by (simp add: Idt_Init_table gate_target_gate)

theorem idt_gates_installed_witness:
  "gate_target (load_IdtDescriptor (snd (Idt_Init (\<lambda>f. if f = page_fault_isr then 0xDEADBEEF else 5) (\<lambda>_. 0))) (IDT_ADDR + 8 * of_nat 14))
     = 0xDEADBEEF"
proof -
  have i: "installed_isr 14 = page_fault_isr" by (simp add: installed_isr_def exception_isrs_def)
  have lt: "14 < (255 :: nat)" by simp
  note g = idt_gates_installed [of "\<lambda>f. if f = page_fault_isr then 0xDEADBEEF else 5" "\<lambda>_. 0", rule_format, OF lt]
  show ?thesis using g [THEN conjunct2] unfolding i by (simp only: if_True simp_thms)
qed

end
