(* ===== verification/Critical_Section.thy ===== *)
theory Critical_Section
  imports Lt_Prelude
begin

section \<open>Critical sections\<close>

text \<open>
  \<^verbatim>\<open>kernel/lib/CriticalSection.cpp\<close> on the spin lock of \<^verbatim>\<open>kernel/lib/asm_helper.asm\<close>. The
  lock is one word: 0 is free, 1 is taken. The first part has the calls as the rest of the kernel
  makes them, with no other thread running in between; the second part interleaves the
  instructions of several threads.
\<close>

subsection \<open>The operations\<close>

text \<open>The lock word after \<^verbatim>\<open>lock cmpxchg [value], new\<close> and the register \<^verbatim>\<open>eax\<close>.\<close>

definition cmpxchg :: "u32 \<Rightarrow> u32 \<Rightarrow> u32 \<Rightarrow> u32 \<times> u32" where
  "cmpxchg v eax new = (if eax = v then (new, eax) else (v, v))"

text \<open>\<^verbatim>\<open>_acquire_lock\<close>: the loop runs while \<^verbatim>\<open>eax\<close> is 1.\<close>

partial_function (option) spin_wait :: "u32 \<Rightarrow> u32 \<Rightarrow> u32 exec" where
  "spin_wait v eax = (let (v', eax') = cmpxchg v eax 1 in
     if eax' = 1 then spin_wait v' eax' else ret v')"

definition CriticalSection_Enter :: "u32 \<Rightarrow> u32 exec" where
  "CriticalSection_Enter v = spin_wait v 0"

definition CriticalSection_Leave :: "u32 \<Rightarrow> u32" where
  "CriticalSection_Leave v = 0"

lemma Enter_free [simp]: "CriticalSection_Enter 0 = ret 1"
  by (simp add: CriticalSection_Enter_def spin_wait.simps cmpxchg_def)

lemma Leave_free [simp]: "CriticalSection_Leave v = 0"
  by (simp add: CriticalSection_Leave_def)

lemma spin_wait_diverges: "eax = 0 \<or> eax = 1 \<Longrightarrow> spin_wait 1 eax = diverge"
proof -
  have "v = 1 \<longrightarrow> a \<noteq> 0 \<and> a \<noteq> 1" if "spin_wait v a = Some r" for v a r
  proof (rule spin_wait.raw_induct [OF _ that, of "\<lambda>v a r. v = 1 \<longrightarrow> a \<noteq> 0 \<and> a \<noteq> 1"])
    fix f v a r
    assume IH: "\<And>v a r. f v a = Some r \<Longrightarrow> v = 1 \<longrightarrow> a \<noteq> 0 \<and> a \<noteq> 1"
      and f: "(let (v', a') = cmpxchg v a 1 in if a' = 1 then f v' a' else ret v') = Some r"
    show "v = 1 \<longrightarrow> a \<noteq> 0 \<and> a \<noteq> 1" using f IH [of 1 1 r] by (auto simp: cmpxchg_def split: if_splits)
  qed
  then show "eax = 0 \<or> eax = 1 \<Longrightarrow> spin_wait 1 eax = diverge" by (cases "spin_wait 1 eax") auto
qed

text \<open>Entering a section that is taken waits for ever.\<close>

lemma Enter_taken [simp]: "CriticalSection_Enter 1 = diverge"
  by (simp add: CriticalSection_Enter_def spin_wait_diverges)

subsection \<open>Several threads\<close>

text \<open>A thread is outside the section, in the loop with a value in \<^verbatim>\<open>eax\<close>, or inside.\<close>

datatype lock_pc = Outside | Spinning u32 | Inside

record lock_state =
  lock_value :: u32
  lock_pcs :: "nat \<Rightarrow> lock_pc"

definition lock_init :: lock_state where
  "lock_init = \<lparr>lock_value = 0, lock_pcs = (\<lambda>_. Outside)\<rparr>"

text \<open>One instruction of one thread: entering the loop, a \<^verbatim>\<open>cmpxchg\<close> with its jump, the release.\<close>

inductive lock_step :: "lock_state \<Rightarrow> lock_state \<Rightarrow> bool" where
  begin_acquire: "lock_pcs s t = Outside \<Longrightarrow> lock_step s (s\<lparr>lock_pcs := (lock_pcs s)(t := Spinning 0)\<rparr>)"
| try_acquire: "lock_pcs s t = Spinning eax \<Longrightarrow> cmpxchg (lock_value s) eax 1 = (v', eax') \<Longrightarrow>
    lock_step s (s\<lparr>lock_value := v', lock_pcs := (lock_pcs s)(t := if eax' = 1 then Spinning eax' else Inside)\<rparr>)"
| release: "lock_pcs s t = Inside \<Longrightarrow>
    lock_step s (s\<lparr>lock_value := CriticalSection_Leave (lock_value s), lock_pcs := (lock_pcs s)(t := Outside)\<rparr>)"

inductive lock_reach :: "lock_state \<Rightarrow> bool" where
  lock_start: "lock_reach lock_init"
| lock_next: "lock_reach s \<Longrightarrow> lock_step s s' \<Longrightarrow> lock_reach s'"

text \<open>Runs in which no thread finds the lock taken.\<close>

inductive quiet_reach :: "lock_state \<Rightarrow> bool" where
  quiet_start: "quiet_reach lock_init"
| quiet_next: "quiet_reach s \<Longrightarrow> lock_step s s' \<Longrightarrow> \<forall>t. lock_pcs s' t \<noteq> Spinning 1 \<Longrightarrow> quiet_reach s'"

inductive_cases lock_stepE: "lock_step s s'"

definition quiet_inv :: "lock_state \<Rightarrow> bool" where
  "quiet_inv s \<longleftrightarrow> (\<forall>t a. lock_pcs s t = Spinning a \<longrightarrow> a = 0) \<and>
     (if \<exists>t. lock_pcs s t = Inside then lock_value s = 1 \<and> (\<exists>!t. lock_pcs s t = Inside) else lock_value s = 0)"

lemma quiet_step:
  assumes "quiet_inv s" "lock_step s s'" "\<forall>t. lock_pcs s' t \<noteq> Spinning 1"
  shows "quiet_inv s'"
  using assms(2)
proof (cases rule: lock_step.cases)
  case (begin_acquire t)
  then have "lock_pcs s' u = Inside \<longleftrightarrow> lock_pcs s u = Inside" for u by auto
  then show ?thesis using assms(1) begin_acquire unfolding quiet_inv_def by auto
next
  case (try_acquire t eax v' eax')
  then have a: "eax = 0" using assms(1) by (auto simp: quiet_inv_def)
  have "lock_value s = 0"
  proof (rule ccontr)
    assume "lock_value s \<noteq> 0"
    then have "lock_value s = 1" using assms(1) by (auto simp: quiet_inv_def split: if_splits)
    then have "eax' = 1" using try_acquire(3) a by (simp add: cmpxchg_def)
    then show False using try_acquire(1) assms(3) by (auto dest: spec [of _ t])
  qed
  then have "\<forall>u. lock_pcs s u \<noteq> Inside" "v' = 1" "eax' = 0"
    using assms(1) try_acquire(3) a by (auto simp: quiet_inv_def cmpxchg_def split: if_splits)
  then show ?thesis using assms(1) try_acquire(1) by (auto simp: quiet_inv_def)
next
  case (release t)
  then have "lock_pcs s u \<noteq> Inside" if "u \<noteq> t" for u
    using assms(1) that by (auto simp: quiet_inv_def split: if_splits)
  then show ?thesis using assms(1) release by (auto simp: quiet_inv_def)
qed

lemma quiet_reach_inv: "quiet_reach s \<Longrightarrow> quiet_inv s"
proof (induction rule: quiet_reach.induct)
  case quiet_start
  then show ?case by (simp add: quiet_inv_def lock_init_def)
qed (rule quiet_step)

text \<open>C16: As long as no thread has to wait for it, the lock keeps the others out: at most one thread
  is inside, and the lock word says whether one is.\<close>

theorem uncontended_lock_excludes:
  assumes "quiet_reach s" "lock_pcs s t = Inside"
  shows "lock_value s = 1 \<and> (\<forall>u. lock_pcs s u = Inside \<longrightarrow> u = t)"
  using quiet_reach_inv [OF assms(1)] assms(2) by (auto simp: quiet_inv_def split: if_splits)

lemma lock_first: "lock_step lock_init (lock_init\<lparr>lock_pcs := (lock_pcs lock_init)(0 := Spinning 0)\<rparr>)"
  "lock_step (lock_init\<lparr>lock_pcs := (lock_pcs lock_init)(0 := Spinning 0)\<rparr>) \<lparr>lock_value = 1, lock_pcs = (\<lambda>_. Outside)(0 := Inside)\<rparr>"
proof -
  show "lock_step lock_init (lock_init\<lparr>lock_pcs := (lock_pcs lock_init)(0 := Spinning 0)\<rparr>)"
    by (rule begin_acquire) (simp add: lock_init_def)
  show "lock_step (lock_init\<lparr>lock_pcs := (lock_pcs lock_init)(0 := Spinning 0)\<rparr>) \<lparr>lock_value = 1, lock_pcs = (\<lambda>_. Outside)(0 := Inside)\<rparr>"
    using try_acquire [of "lock_init\<lparr>lock_pcs := (lock_pcs lock_init)(0 := Spinning 0)\<rparr>" 0 0 1 0]
    by (simp add: lock_init_def cmpxchg_def)
qed

theorem uncontended_lock_excludes_witness:
  "\<exists>s. quiet_reach s \<and> lock_pcs s 0 = Inside \<and> lock_value s = 1"
proof -
  have q: "quiet_reach \<lparr>lock_value = 1, lock_pcs = (\<lambda>_. Outside)(0 := Inside)\<rparr>"
    by (intro quiet_next [OF quiet_next [OF quiet_start lock_first(1)] lock_first(2)]) (simp_all add: lock_init_def)
  have i: "lock_pcs \<lparr>lock_value = 1, lock_pcs = (\<lambda>_. Outside)(0 := Inside)\<rparr> 0 = Inside" by simp
  from uncontended_lock_excludes [OF q i] q i show ?thesis by blast
qed

text \<open>
  A thread that had to wait has 1 in \<^verbatim>\<open>eax\<close>; when the lock is then released, its next
  \<^verbatim>\<open>cmpxchg\<close> fails, loads the 0 of the free lock into \<^verbatim>\<open>eax\<close> and so leaves the loop without
  having taken the lock.
\<close>

lemma lock_run:
  "lock_reach s \<Longrightarrow> lock_pcs s t = Outside \<Longrightarrow> lock_reach (s\<lparr>lock_pcs := (lock_pcs s)(t := Spinning 0)\<rparr>)"
  "lock_reach s \<Longrightarrow> lock_pcs s t = Spinning eax \<Longrightarrow> cmpxchg (lock_value s) eax 1 = (v, eax') \<Longrightarrow>
     lock_reach (s\<lparr>lock_value := v, lock_pcs := (lock_pcs s)(t := if eax' = 1 then Spinning eax' else Inside)\<rparr>)"
  "lock_reach s \<Longrightarrow> lock_pcs s t = Inside \<Longrightarrow> lock_reach (s\<lparr>lock_value := 0, lock_pcs := (lock_pcs s)(t := Outside)\<rparr>)"
  using lock_next begin_acquire try_acquire release by (metis, metis, metis Leave_free)

text \<open>C17: With contention the lock does not exclude: two threads can be inside at the same time.\<close>

theorem contended_lock_admits_two:
  "\<exists>s t u. lock_reach s \<and> t \<noteq> u \<and> lock_pcs s t = Inside \<and> lock_pcs s u = Inside"
proof -
  define st where "st v (a :: lock_pc) b c = \<lparr>lock_value = v, lock_pcs = (\<lambda>_. Outside)(0 := a, 1 := b, 2 := c)\<rparr>" for v a b c
  have "lock_reach (st 0 Outside Outside Outside)"
  proof -
    have "st 0 Outside Outside Outside = lock_init" by (auto simp: st_def lock_init_def)
    then show ?thesis by (simp add: lock_start)
  qed
  then have "lock_reach (st 0 (Spinning 0) Outside Outside)" using lock_run(1) [of _ 0] by (fastforce simp: st_def fun_upd_twist)
  then have "lock_reach (st 1 Inside Outside Outside)"
    using lock_run(2) [of _ 0 0 1 0] by (fastforce simp: st_def cmpxchg_def fun_upd_twist)
  then have "lock_reach (st 1 Inside (Spinning 0) Outside)" using lock_run(1) [of _ 1] by (fastforce simp: st_def fun_upd_twist)
  then have "lock_reach (st 1 Inside (Spinning 1) Outside)"
    using lock_run(2) [of _ 1 0 1 1] by (fastforce simp: st_def cmpxchg_def fun_upd_twist)
  then have "lock_reach (st 0 Outside (Spinning 1) Outside)" using lock_run(3) [of _ 0] by (fastforce simp: st_def fun_upd_twist)
  then have "lock_reach (st 0 Outside Inside Outside)"
    using lock_run(2) [of _ 1 1 0 0] by (fastforce simp: st_def cmpxchg_def fun_upd_twist)
  then have "lock_reach (st 0 Outside Inside (Spinning 0))" using lock_run(1) [of _ 2] by (fastforce simp: st_def fun_upd_twist)
  then have "lock_reach (st 1 Outside Inside Inside)"
    using lock_run(2) [of _ 2 0 1 0] by (fastforce simp: st_def cmpxchg_def fun_upd_twist)
  then show ?thesis by (intro exI [of _ "st 1 Outside Inside Inside"] exI [of _ 1] exI [of _ 2]) (simp add: st_def)
qed

end
