(* ===== verification/Threads.thy ===== *)
theory Threads
  imports Address_Regions Descriptors Critical_Section
begin

section \<open>Threads\<close>

text \<open>
  \<^verbatim>\<open>kernel/arch/x86/Thread.cpp\<close>, \<^verbatim>\<open>kernel/task/ThreadManager.cpp\<close> and the state all the task
  components share. Threads, processes and the \<^verbatim>\<open>Page\<close> objects of the kernel heap are stores
  indexed by address, like the nodes of the lists. An object fresh from the heap has the content
  its memory happens to have: \<open>raw_threads\<close> and \<open>raw_processes\<close> are that content, and the
  operations overwrite the members the code sets.
\<close>

subsection \<open>State\<close>

datatype ThreadState =
  THREAD_STATE_INIT | THREAD_STATE_RUNNING | THREAD_STATE_PAUSED | THREAD_STATE_WAITING | THREAD_STATE_DEAD

datatype ThreadPriorityLevel = THREAD_PRIORITY_NORMAL | THREAD_PRIORITY_HIGH | THREAD_PRIORITY_MAX

datatype PrivilegeLevel = PVL_KERNEL | PVL_USER

datatype SecurityAttribute = SA_NONE | SA_IO

text \<open>Priorities are compared by the numbers of the enumeration.\<close>

fun priority_value :: "ThreadPriorityLevel \<Rightarrow> nat" where
  "priority_value THREAD_PRIORITY_NORMAL = 0"
| "priority_value THREAD_PRIORITY_HIGH = 1"
| "priority_value THREAD_PRIORITY_MAX = 2"

instantiation ThreadPriorityLevel :: linorder
begin

definition less_eq_ThreadPriorityLevel :: "ThreadPriorityLevel \<Rightarrow> ThreadPriorityLevel \<Rightarrow> bool" where
  "less_eq_ThreadPriorityLevel p q \<longleftrightarrow> priority_value p \<le> priority_value q"

definition less_ThreadPriorityLevel :: "ThreadPriorityLevel \<Rightarrow> ThreadPriorityLevel \<Rightarrow> bool" where
  "less_ThreadPriorityLevel p q \<longleftrightarrow> priority_value p < priority_value q"

instance
proof
  fix p q r :: ThreadPriorityLevel
  show "p < q \<longleftrightarrow> p \<le> q \<and> \<not> q \<le> p" by (auto simp: less_eq_ThreadPriorityLevel_def less_ThreadPriorityLevel_def)
  show "p \<le> p" by (simp add: less_eq_ThreadPriorityLevel_def)
  show "p \<le> q \<Longrightarrow> q \<le> r \<Longrightarrow> p \<le> r" by (simp add: less_eq_ThreadPriorityLevel_def)
  show "p \<le> q \<Longrightarrow> q \<le> p \<Longrightarrow> p = q" by (cases p; cases q) (simp_all add: less_eq_ThreadPriorityLevel_def)
  show "p \<le> q \<or> q \<le> p" by (auto simp: less_eq_ThreadPriorityLevel_def)
qed

end

text \<open>
  The registers an interrupt leaves on the stack. Only an interrupt of a user task pushes
  \<^verbatim>\<open>esp_i\<close> and \<^verbatim>\<open>ss\<close>; for a kernel task they are whatever words lie above.
\<close>

record InterruptContext =
  ic_gs :: u32
  ic_fs :: u32
  ic_es :: u32
  ic_ds :: u32
  ic_edi :: u32
  ic_esi :: u32
  ic_ebp :: u32
  ic_esp :: u32
  ic_ebx :: u32
  ic_edx :: u32
  ic_ecx :: u32
  ic_eax :: u32
  ic_eip :: u32
  ic_cs :: u32
  ic_eflags :: u32

record InterruptFromUserlandContext = InterruptContext +
  ic_esp_i :: u32
  ic_ss :: u32

record thread_regs =
  eax :: u32
  ebx :: u32
  ecx :: u32
  edx :: u32
  ebp :: u32
  esp :: u32
  esi :: u32
  edi :: u32
  eip :: u32
  eflags :: u32
  cs :: u16
  ss :: u16
  ds :: u16
  es :: u16
  fs :: u16
  gs :: u16

record Thread =
  tid :: u32
  th_state :: ThreadState
  th_process :: addr
  th_neighbor :: addr
  privilegeLevel :: PrivilegeLevel
  threadPriority :: ThreadPriorityLevel
  ticsOnResume :: u32
  kstack_esp0 :: u32
  kstack_ss0 :: u16
  regs :: thread_regs

record PageDirectory =
  pdEntry :: addr
  pagesList :: addr

record ProcessHeap =
  heap_base :: addr
  heap_limit :: addr
  heap_vad :: addr

record Process =
  pid :: u32
  pname :: cstr
  pageDirectory :: PageDirectory
  mainThread :: addr
  childrenList :: addr
  defaultHeap :: ProcessHeap
  baseVad :: addr

record tasks = "vad_space list_heap" +
  threads :: "addr \<rightharpoonup> Thread"
  processes :: "addr \<rightharpoonup> Process"
  page_objs :: "addr \<rightharpoonup> Page"
  raw_threads :: "addr \<Rightarrow> Thread"
  raw_processes :: "addr \<Rightarrow> Process"
  s_ThreadId :: u32
  s_ProcessId :: u32
  processList :: addr
  sched_running :: bool
  threadsList :: addr
  currentThread :: addr
  nbThreads :: u32
  tics :: u32
  secs :: u32
  tss_esp0 :: u32
  tss_ss0 :: u16

abbreviation sizeof_Thread :: int where "sizeof_Thread \<equiv> 92"

text \<open>A call into the kernel heap or the page pool.\<close>

definition in_kernel :: "(vad_space \<Rightarrow> ('a \<times> vad_space) exec) \<Rightarrow> 'z tasks_scheme \<Rightarrow> ('a \<times> 'z tasks_scheme) exec" where
  "in_kernel f s = andThen (f (lheap s)) (\<lambda>(x, h). ret (x, s\<lparr>lheap := h\<rparr>))"

definition free_obj :: "addr \<Rightarrow> 'z tasks_scheme \<Rightarrow> 'z tasks_scheme exec" where
  "free_obj p s = andThen (HeapFree p (lheap s)) (\<lambda>h. ret (s\<lparr>lheap := h\<rparr>))"

definition upd_thread :: "addr \<Rightarrow> (Thread \<Rightarrow> Thread) \<Rightarrow> 'z tasks_scheme \<Rightarrow> 'z tasks_scheme exec" where
  "upd_thread p f s = andThen (deref (threads s) p) (\<lambda>t. ret (s\<lparr>threads := (threads s)(p \<mapsto> f t)\<rparr>))"

subsection \<open>Operations\<close>

definition AddNeighbor :: "addr \<Rightarrow> addr \<Rightarrow> 'z tasks_scheme \<Rightarrow> 'z tasks_scheme exec" where
  "AddNeighbor this thread s =
     (if thread = nullptr then ret s
      else andThen (deref (threads s) this) (\<lambda>t.
        andThen (if th_neighbor t \<noteq> nullptr then upd_thread thread (\<lambda>u. u\<lparr>th_neighbor := th_neighbor t\<rparr>) s else ret s)
          (upd_thread this (\<lambda>u. u\<lparr>th_neighbor := thread\<rparr>))))"

text \<open>The registers \<^verbatim>\<open>SaveState\<close> takes from the stack; \<open>ss0\<close> is the stack segment of the TSS.\<close>

definition saved_regs :: "InterruptFromUserlandContext \<Rightarrow> u16 \<Rightarrow> thread_regs \<Rightarrow> thread_regs" where
  "saved_regs c ss0 r =
     (let r1 = r\<lparr>eflags := ic_eflags c, cs := ucast (ic_cs c), eip := ic_eip c, eax := ic_eax c, ebx := ic_ebx c,
        ecx := ic_ecx c, edx := ic_edx c, ebp := ic_ebp c, esi := ic_esi c, edi := ic_edi c,
        gs := ucast (ic_gs c), fs := ucast (ic_fs c), es := ucast (ic_es c), ds := ucast (ic_ds c)\<rparr>
      in if cs r1 \<noteq> ucast (selector_value KERNEL_CODE_SELECTOR) then r1\<lparr>ss := ucast (ic_ss c), esp := ic_esp_i c\<rparr>
         else r1\<lparr>ss := ss0, esp := ic_esp c + 12\<rparr>)"

definition SaveState :: "addr \<Rightarrow> InterruptFromUserlandContext option \<Rightarrow> 'z tasks_scheme \<Rightarrow> 'z tasks_scheme exec" where
  "SaveState this context s = (case context of None \<Rightarrow> halt Panicked
   | Some c \<Rightarrow> upd_thread this (\<lambda>t. t\<lparr>regs := saved_regs c (tss_ss0 s) (regs t),
       kstack_esp0 := tss_esp0 s, kstack_ss0 := tss_ss0 s\<rparr>) s)"

text \<open>
  \<^verbatim>\<open>_startOrResumeThread\<close> does not return: the processor goes on with the registers it is
  given. \<open>resumed\<close> is these arguments.
\<close>

record resumed =
  res_pd :: addr
  res_regs :: thread_regs
  res_privLevel :: PrivilegeLevel
  res_kss :: u16
  res_kesp :: u32

definition resume_args :: "addr \<Rightarrow> Thread \<Rightarrow> resumed" where
  "resume_args pd t =
     (let user = (cs (regs t) = ucast (selector_value USER_CODE_SELECTOR_WITH_RPL)) in
      \<lparr>res_pd = pd, res_regs = regs t,
       res_privLevel = (if cs (regs t) = ucast (selector_value KERNEL_CODE_SELECTOR) then PVL_KERNEL else PVL_USER),
       res_kss = (if user then kstack_ss0 t else ss (regs t)), res_kesp = (if user then kstack_esp0 t else esp (regs t))\<rparr>)"

definition StartOrResume :: "addr \<Rightarrow> 'z tasks_scheme \<Rightarrow> (resumed \<times> 'z tasks_scheme) exec" where
  "StartOrResume this s =
     andThen (upd_thread this (\<lambda>t. t\<lparr>th_state := THREAD_STATE_RUNNING, ticsOnResume := tics s\<rparr>) s) (\<lambda>s1.
     andThen (deref (threads s1) this) (\<lambda>t.
     andThen (deref (processes s1) (th_process t)) (\<lambda>p.
       let pd = pdEntry (pageDirectory p) in
         ret (resume_args pd t,
           s1\<lparr>tss_esp0 := kstack_esp0 t, tss_ss0 := kstack_ss0 t, lheap := SetCurrentPageDirectory pd (lheap s1)\<rparr>))))"

definition InitUserThread ::
  "addr \<Rightarrow> addr \<Rightarrow> SecurityAttribute \<Rightarrow> u32 \<Rightarrow> 'z tasks_scheme \<Rightarrow> (KeStatus \<times> 'z tasks_scheme) exec" where
  "InitUserThread thread process attribute entryAddr s =
     (if thread = nullptr then ret (STATUS_NULL_PARAMETER, s)
      else if process = nullptr then ret (STATUS_NULL_PARAMETER, s)
      else if entryAddr = 0 then ret (STATUS_INVALID_PARAMETER, s)
      else andThen (in_kernel PageAlloc s) (\<lambda>(kernelStackPage, s1).
        let data = ucast (selector_value USER_DATA_SELECTOR_WITH_RPL);
          flags = (if attribute = SA_IO then 0x200 OR (0x3000 OR drop_bit 1 0x3000) else 0x200)
        in andThen (upd_thread thread (\<lambda>t. t\<lparr>regs := (regs t)\<lparr>ss := data,
              cs := ucast (selector_value USER_CODE_SELECTOR_WITH_RPL), ds := data, es := data, fs := data, gs := data,
              eax := 0, ecx := 0, edx := 0, edi := 0, esi := 0, ebp := esp (regs t), eip := entryAddr, eflags := flags\<rparr>,
            kstack_esp0 := vAddr kernelStackPage + PAGE_SIZE - 4,
            kstack_ss0 := ucast (selector_value KERNEL_DATA_SELECTOR)\<rparr>) s1) (\<lambda>s2.
          ret (STATUS_SUCCESS, s2))))"

definition InitKernelThread :: "addr \<Rightarrow> u32 \<Rightarrow> 'z tasks_scheme \<Rightarrow> (KeStatus \<times> 'z tasks_scheme) exec" where
  "InitKernelThread thread entryAddr s =
     (if thread = nullptr then ret (STATUS_NULL_PARAMETER, s)
      else andThen (in_kernel PageAlloc s) (\<lambda>(kernelStackPage, s1).
        let data = ucast (selector_value KERNEL_DATA_SELECTOR);
          sp = vAddr kernelStackPage + PAGE_SIZE - 4
        in andThen (upd_thread thread (\<lambda>t. t\<lparr>regs := (regs t)\<lparr>ss := data,
              cs := ucast (selector_value KERNEL_CODE_SELECTOR), ds := data, es := data, fs := data, gs := data,
              eax := 0, ecx := 0, edx := 0, edi := 0, esi := 0, esp := sp, ebp := sp, eip := entryAddr,
              eflags := 0x200 AND 0xFFFFBFFF\<rparr>,
            kstack_esp0 := 0, kstack_ss0 := data\<rparr>) s1) (\<lambda>s2.
          ret (STATUS_SUCCESS, s2))))"

text \<open>An out parameter is the content of the caller's variable, or \<open>None\<close> for a null pointer.\<close>

definition CreateThread ::
  "u32 \<Rightarrow> addr \<Rightarrow> PrivilegeLevel \<Rightarrow> SecurityAttribute \<Rightarrow> addr option \<Rightarrow> 'z tasks_scheme \<Rightarrow>
   (KeStatus \<times> addr option \<times> 'z tasks_scheme) exec" where
  "CreateThread entryAddr process privLevel attribute thread s =
     (if process = nullptr then ret (STATUS_NULL_PARAMETER, thread, s)
      else if thread = None then ret (STATUS_NULL_PARAMETER, thread, s)
      else andThen (in_kernel (HeapAlloc sizeof_Thread) s) (\<lambda>(localThread, s1).
        if localThread = nullptr then ret (STATUS_ALLOC_FAILED, thread, s1)
        else let s2 = s1\<lparr>threads := (threads s1)(localThread \<mapsto> raw_threads s1 localThread)\<rparr> in
          andThen (if privLevel = PVL_KERNEL then InitKernelThread localThread entryAddr s2
              else InitUserThread localThread process attribute entryAddr s2) (\<lambda>(status, s3).
            if FAILED status
            then andThen (free_obj localThread (s3\<lparr>threads := (threads s3)(localThread := None)\<rparr>)) (\<lambda>s4. ret (status, thread, s4))
            else andThen (upd_thread localThread (\<lambda>t. t\<lparr>tid := s_ThreadId s3, th_state := THREAD_STATE_INIT,
                th_process := process, privilegeLevel := privLevel, th_neighbor := nullptr,
                threadPriority := THREAD_PRIORITY_NORMAL\<rparr>) (s3\<lparr>s_ThreadId := s_ThreadId s3 + 1\<rparr>)) (\<lambda>s4.
              ret (STATUS_SUCCESS, Some localThread, s4)))))"

definition CreateUserThread ::
  "u32 \<Rightarrow> addr \<Rightarrow> SecurityAttribute \<Rightarrow> addr option \<Rightarrow> 'z tasks_scheme \<Rightarrow> (KeStatus \<times> addr option \<times> 'z tasks_scheme) exec" where
  "CreateUserThread entryAddr process attribute thread s =
     (if entryAddr = 0 then ret (STATUS_INVALID_PARAMETER, thread, s)
      else if process = nullptr then ret (STATUS_NULL_PARAMETER, thread, s)
      else if thread = None then ret (STATUS_NULL_PARAMETER, thread, s)
      else andThen (CreateThread entryAddr process PVL_USER attribute (Some nullptr) s) (\<lambda>(status, localThread, s1).
        if FAILED status then ret (status, thread, s1) else ret (STATUS_SUCCESS, localThread, s1)))"

definition CreateKernelThread ::
  "u32 \<Rightarrow> addr \<Rightarrow> addr option \<Rightarrow> 'z tasks_scheme \<Rightarrow> (KeStatus \<times> addr option \<times> 'z tasks_scheme) exec" where
  "CreateKernelThread entryAddr process thread s =
     (if process = nullptr then ret (STATUS_NULL_PARAMETER, thread, s)
      else if thread = None then ret (STATUS_NULL_PARAMETER, thread, s)
      else andThen (CreateThread entryAddr process PVL_KERNEL SA_NONE (Some nullptr) s) (\<lambda>(status, localThread, s1).
        if FAILED status then ret (status, thread, s1) else ret (STATUS_SUCCESS, localThread, s1)))"

definition RaisePriorityLevel :: "addr \<Rightarrow> 'z tasks_scheme \<Rightarrow> 'z tasks_scheme exec" where
  "RaisePriorityLevel this s = upd_thread this (\<lambda>t.
     if threadPriority t < THREAD_PRIORITY_MAX
     then t\<lparr>threadPriority := (if threadPriority t = THREAD_PRIORITY_NORMAL then THREAD_PRIORITY_HIGH else THREAD_PRIORITY_MAX)\<rparr>
     else t) s"

definition LowerPriorityLevel :: "addr \<Rightarrow> 'z tasks_scheme \<Rightarrow> 'z tasks_scheme exec" where
  "LowerPriorityLevel this s = upd_thread this (\<lambda>t.
     if threadPriority t > THREAD_PRIORITY_NORMAL
     then t\<lparr>threadPriority := (if threadPriority t = THREAD_PRIORITY_MAX then THREAD_PRIORITY_HIGH else THREAD_PRIORITY_NORMAL)\<rparr>
     else t) s"

text \<open>\<^verbatim>\<open>Thread::PrintList\<close>: the threads it prints.\<close>

partial_function (option) PrintList :: "(addr \<rightharpoonup> Thread) \<Rightarrow> addr \<Rightarrow> (addr \<times> Thread) list exec" where
  "PrintList m current =
     (if current = nullptr then ret []
      else andThen (deref m current) (\<lambda>t. andThen (PrintList m (th_neighbor t)) (\<lambda>rest. ret ((current, t) # rest))))"

end
