(* ===== verification/Task_Scheduler.thy ===== *)
theory Task_Scheduler
  imports Threads
begin

section \<open>The scheduler and events\<close>

text \<open>
  \<^verbatim>\<open>kernel/task/Scheduler.cpp\<close>, \<^verbatim>\<open>kernel/task/Event.cpp\<close> and the clock interrupt of
  \<^verbatim>\<open>kernel/drivers/Clock.cpp\<close>. A scheduling decision either returns to the interrupted thread
  (\<open>None\<close>) or hands the processor to another one (the \<open>resumed\<close> of \<open>StartOrResume\<close>).
\<close>

subsection \<open>Operations\<close>

text \<open>The macro \<^verbatim>\<open>RunnableThread\<close>.\<close>

definition RunnableThread :: "ThreadState \<Rightarrow> bool" where
  "RunnableThread st \<longleftrightarrow> st = THREAD_STATE_RUNNING \<or> st = THREAD_STATE_INIT \<or> st = THREAD_STATE_PAUSED"

abbreviation DEFAULT_THREAD_LIMIT_WORKING_TIME :: u32 where
  "DEFAULT_THREAD_LIMIT_WORKING_TIME \<equiv> 100"

record LOOK_FOR_THREAD_CONTEXT =
  look_found :: bool
  look_foundThread :: addr
  look_thread :: addr

text \<open>
  \<^verbatim>\<open>Scheduler::Init\<close>; \<open>isr\<close> is the address of \<^verbatim>\<open>_asm_context_swtich_isr\<close>. The IDT lies in the
  first page, which is mapped to itself.
\<close>

definition Scheduler_Init :: "u32 \<Rightarrow> 'z tasks_scheme \<Rightarrow> 'z tasks_scheme exec" where
  "Scheduler_Init isr s = andThen (ListCreate HeapAlloc s) (\<lambda>(list, s1).
     if list = nullptr then halt Panicked
     else ret (s1\<lparr>threadsList := list,
       lheap := (lheap s1)\<lparr>pmem := Idt_InitDescriptor isr CPU_GATE 49 (pmem (lheap s1))\<rparr>,
       sched_running := False, currentThread := nullptr, nbThreads := 0\<rparr>))"

definition Scheduler_AddThread :: "addr \<Rightarrow> 'z tasks_scheme \<Rightarrow> 'z tasks_scheme exec" where
  "Scheduler_AddThread thread s =
     (if thread = nullptr then ret s
      else let s1 = (if currentThread s = nullptr then s\<lparr>currentThread := thread\<rparr> else s) in
        andThen (ListPush HeapAlloc (threadsList s1) thread s1) (\<lambda>s2.
          ret (s2\<lparr>nbThreads := nbThreads s2 + 1\<rparr>)))"

definition Scheduler_Start :: "'z tasks_scheme \<Rightarrow> 'z tasks_scheme" where
  "Scheduler_Start s = s\<lparr>sched_running := True\<rparr>"

definition Scheduler_Stop :: "'z tasks_scheme \<Rightarrow> 'z tasks_scheme" where
  "Scheduler_Stop s = s\<lparr>sched_running := False\<rparr>"

definition GetCurrentThread :: "'z tasks_scheme \<Rightarrow> addr" where
  "GetCurrentThread s = (if currentThread s = nullptr then nullptr else currentThread s)"

definition GetCurrentProcess :: "'z tasks_scheme \<Rightarrow> addr exec" where
  "GetCurrentProcess s =
     (if currentThread s = nullptr then ret nullptr
      else andThen (deref (threads s) (currentThread s)) (\<lambda>t. ret (th_process t)))"

text \<open>The loop of \<^verbatim>\<open>_PickNextThread\<close> over the nodes of the list.\<close>

partial_function (option) next_thread :: "(addr \<rightharpoonup> ListElem) \<Rightarrow> addr exec \<Rightarrow> addr \<Rightarrow> addr \<Rightarrow> addr exec" where
  "next_thread m first current elem =
     (if elem = nullptr then ret nullptr
      else andThen (deref m elem) (\<lambda>e.
        if elem_data e = current then
          if elem_next e \<noteq> nullptr then andThen (deref m (elem_next e)) (\<lambda>e'. ret (elem_data e')) else first
        else next_thread m first current (elem_next e)))"

definition PickNextThread :: "addr \<Rightarrow> 'z tasks_scheme \<Rightarrow> addr exec" where
  "PickNextThread current s =
     (if current = nullptr then ListTop (threadsList s) s
      else next_thread (lnodes s) (ListTop (threadsList s) s) current (threadsList s))"

definition SwitchToThread ::
  "InterruptFromUserlandContext option \<Rightarrow> addr \<Rightarrow> 'z tasks_scheme \<Rightarrow> (resumed \<times> 'z tasks_scheme) exec" where
  "SwitchToThread context thread s =
     (if context = None then halt Panicked
      else if thread = nullptr then halt Panicked
      else andThen (SaveState (currentThread s) context s) (\<lambda>s1.
        andThen (upd_thread (currentThread s1) (\<lambda>t. t\<lparr>th_state := THREAD_STATE_PAUSED\<rparr>) s1) (\<lambda>s2.
        StartOrResume thread (s2\<lparr>currentThread := thread\<rparr>))))"

definition LookForThreadWithHigherPriorityCallback ::
  "(addr \<rightharpoonup> Thread) \<Rightarrow> addr \<Rightarrow> LOOK_FOR_THREAD_CONTEXT \<Rightarrow> (KeStatus \<times> LOOK_FOR_THREAD_CONTEXT) exec" where
  "LookForThreadWithHigherPriorityCallback m data ctx =
     (if data = nullptr then ret (STATUS_NULL_PARAMETER, ctx)
      else andThen (deref m data) (\<lambda>t. andThen (deref m (look_thread ctx)) (\<lambda>c.
        if threadPriority t > threadPriority c \<and> RunnableThread (th_state t)
        then ret (STATUS_LIST_STOP_ITERATING, ctx\<lparr>look_found := True, look_foundThread := data\<rparr>)
        else ret (STATUS_SUCCESS, ctx))))"

definition HasHigherThreadPriority :: "addr \<Rightarrow> 'z tasks_scheme \<Rightarrow> bool exec" where
  "HasHigherThreadPriority thread s =
     (if thread = nullptr then ret False
      else andThen (ListEnumerate (threadsList s) (Some (LookForThreadWithHigherPriorityCallback (threads s)))
          \<lparr>look_found = False, look_foundThread = nullptr, look_thread = thread\<rparr> s)
        (\<lambda>(_, ctx). ret (look_found ctx)))"

text \<open>The search loop of \<^verbatim>\<open>Schedules\<close>. Every round asks for the successor of the current thread.\<close>

partial_function (option) search_thread :: "'z tasks_scheme \<Rightarrow> addr \<Rightarrow> addr exec" where
  "search_thread s foundThread = andThen (PickNextThread (currentThread s) s) (\<lambda>nextThread.
     if nextThread = nullptr \<and> nextThread = currentThread s then ret foundThread
     else andThen (deref (threads s) nextThread) (\<lambda>n.
       andThen (deref (threads s) (currentThread s)) (\<lambda>c.
         if threadPriority n \<ge> threadPriority c \<and> RunnableThread (th_state n) then ret nextThread
         else search_thread s nextThread)))"

text \<open>The condition under which \<^verbatim>\<open>Schedules\<close> looks for another thread.\<close>

definition wants_switch :: "'z tasks_scheme \<Rightarrow> bool exec" where
  "wants_switch s =
     (if currentThread s = nullptr then ret True
      else andThen (deref (threads s) (currentThread s)) (\<lambda>c.
        if tics s - ticsOnResume c > DEFAULT_THREAD_LIMIT_WORKING_TIME then ret True
        else andThen (HasHigherThreadPriority (currentThread s) s) (\<lambda>higher.
          ret (higher \<or> \<not> RunnableThread (th_state c)))))"

definition Schedules ::
  "InterruptFromUserlandContext option \<Rightarrow> 'z tasks_scheme \<Rightarrow> (resumed option \<times> 'z tasks_scheme) exec" where
  "Schedules context s =
     (if context = None then halt Panicked
      else if sched_running s \<and> nbThreads s > 1 then
        andThen (wants_switch s) (\<lambda>wanted.
          if wanted then
            andThen (search_thread s nullptr) (\<lambda>foundThread.
              if currentThread s \<noteq> foundThread
              then andThen (SwitchToThread context foundThread s) (\<lambda>(r, s1). ret (Some r, s1))
              else ret (None, s))
          else ret (None, s))
      else ret (None, s))"

abbreviation TICKS_PER_SECOND :: u32 where
  "TICKS_PER_SECOND \<equiv> 1000"

definition clock_isr ::
  "InterruptFromUserlandContext option \<Rightarrow> 'z tasks_scheme \<Rightarrow> (resumed option \<times> 'z tasks_scheme) exec" where
  "clock_isr context s =
     (let s1 = s\<lparr>tics := tics s + 1\<rparr>;
          s2 = (if tics s1 \<ge> TICKS_PER_SECOND then s1\<lparr>secs := secs s1 + 1, tics := 0\<rparr> else s1)
      in Schedules context s2)"

subsection \<open>Events\<close>

record Event =
  ev_signaled :: bool
  ev_thread :: addr
  ev_lock :: u32

definition EventCreate :: Event where
  "EventCreate = \<lparr>ev_signaled = False, ev_thread = nullptr, ev_lock = 0\<rparr>"

text \<open>
  \<^verbatim>\<open>EventWait\<close> on an event that is not signaled gives the processor away in the middle
  (\<^verbatim>\<open>ContextSwitchInterrupt\<close>). \<open>EventWait\<close> is its run up to there, \<open>True\<close> if it stops there;
  \<open>EventWait_resume\<close> is the rest, run when the thread has the processor again.
\<close>

definition EventWait_resume :: "Event \<Rightarrow> Event" where
  "EventWait_resume e = e\<lparr>ev_signaled := False, ev_lock := CriticalSection_Leave (ev_lock e)\<rparr>"

definition EventWait :: "Event option \<Rightarrow> 'z tasks_scheme \<Rightarrow> (Event option \<times> bool \<times> 'z tasks_scheme) exec" where
  "EventWait evt s = (case evt of None \<Rightarrow> ret (None, False, s)
   | Some e \<Rightarrow> andThen (CriticalSection_Enter (ev_lock e)) (\<lambda>l.
       if \<not> ev_signaled e then
         andThen (upd_thread (GetCurrentThread s) (\<lambda>t. t\<lparr>th_state := THREAD_STATE_WAITING\<rparr>) s) (\<lambda>s1.
           ret (Some (e\<lparr>ev_thread := GetCurrentThread s, ev_lock := CriticalSection_Leave l\<rparr>), True, s1))
       else ret (Some (EventWait_resume (e\<lparr>ev_lock := l\<rparr>)), False, s)))"

definition EventSignal :: "Event option \<Rightarrow> 'z tasks_scheme \<Rightarrow> (Event option \<times> 'z tasks_scheme) exec" where
  "EventSignal evt s = (case evt of None \<Rightarrow> ret (None, s)
   | Some e \<Rightarrow> andThen (CriticalSection_Enter (ev_lock e)) (\<lambda>l.
       andThen (if ev_thread e \<noteq> nullptr then upd_thread (ev_thread e) (\<lambda>t. t\<lparr>th_state := THREAD_STATE_RUNNING\<rparr>) s else ret s)
         (\<lambda>s1. ret (Some (e\<lparr>ev_signaled := True, ev_lock := CriticalSection_Leave l\<rparr>), s1))))"

subsection \<open>Scheduling decisions\<close>

text \<open>The thread behind \<open>c\<close> on the list, the first one if there is none.\<close>

definition next_of :: "addr list \<Rightarrow> addr \<Rightarrow> addr" where
  "next_of xs c = (case dropWhile (\<lambda>x. x \<noteq> c) xs of _ # n # _ \<Rightarrow> n | _ \<Rightarrow> hd xs)"

abbreviation thread_of :: "'z tasks_scheme \<Rightarrow> addr \<Rightarrow> Thread" where
  "thread_of s x \<equiv> the (threads s x)"

text \<open>The scheduler is running with the threads \<open>xs\<close>, in the order of their list.\<close>

definition sched_inv :: "'z tasks_scheme \<Rightarrow> addr list \<Rightarrow> bool" where
  "sched_inv s xs \<longleftrightarrow> (\<exists>ps. list_rep (lnodes s) (threadsList s) ps xs) \<and> distinct xs \<and>
     (\<forall>x\<in>set xs. x \<in> dom (threads s) \<and> th_process (thread_of s x) \<noteq> nullptr \<and>
        th_process (thread_of s x) \<in> dom (processes s)) \<and>
     currentThread s \<in> set xs \<and> sched_running s \<and> nbThreads s = of_nat (length xs) \<and> 1 < nbThreads s"

lemma sched_invD:
  assumes "sched_inv s xs"
  shows "distinct xs" "currentThread s \<in> set xs" "sched_running s" "1 < nbThreads s" "xs \<noteq> []"
    "currentThread s \<noteq> nullptr" "nullptr \<notin> set xs" "2 \<le> length xs"
proof -
  obtain ps where r: "list_rep (lnodes s) (threadsList s) ps xs" using assms by (auto simp: sched_inv_def)
  show nn: "nullptr \<notin> set xs" using list_repD(5) [OF r] .
  show "distinct xs" "currentThread s \<in> set xs" "sched_running s" "1 < nbThreads s" using assms by (auto simp: sched_inv_def)
  then show "xs \<noteq> []" "currentThread s \<noteq> nullptr" using nn by auto
  show "2 \<le> length xs"
  proof (rule ccontr)
    assume "\<not> 2 \<le> length xs"
    then have "length xs = 0 \<or> length xs = 1" by linarith
    then show False using assms by (auto simp: sched_inv_def)
  qed
qed

lemma next_of_index:
  assumes "distinct xs" "i < length xs"
  shows "next_of xs (xs ! i) = xs ! (Suc i mod length xs)"
proof -
  have e: "drop i xs = xs ! i # drop (Suc i) xs" using assms(2) by (rule Cons_nth_drop_Suc [symmetric])
  have "dropWhile (\<lambda>x. x \<noteq> xs ! i) (take i xs @ drop i xs) = dropWhile (\<lambda>x. x \<noteq> xs ! i) (drop i xs)"
    using assms by (intro dropWhile_append2) (auto simp: in_set_conv_nth nth_eq_iff_index_eq)
  then have d: "dropWhile (\<lambda>x. x \<noteq> xs ! i) xs = xs ! i # drop (Suc i) xs"
    unfolding append_take_drop_id unfolding e by simp
  show ?thesis
  proof (cases "Suc i < length xs")
    case True
    then have "drop (Suc i) xs = xs ! Suc i # drop (Suc (Suc i)) xs" by (rule Cons_nth_drop_Suc [symmetric])
    then show ?thesis using True by (simp add: next_of_def d)
  next
    case False
    then have "Suc i = length xs" using assms(2) by simp
    moreover have "xs \<noteq> []" using assms(2) by auto
    ultimately show ?thesis by (simp add: next_of_def d hd_conv_nth)
  qed
qed

lemma next_of_set: "distinct xs \<Longrightarrow> c \<in> set xs \<Longrightarrow> next_of xs c \<in> set xs"
  by (metis in_set_conv_nth next_of_index mod_less_divisor length_pos_if_in_set nth_mem)

lemma next_of_neq: "distinct xs \<Longrightarrow> c \<in> set xs \<Longrightarrow> 2 \<le> length xs \<Longrightarrow> next_of xs c \<noteq> c"
proof -
  assume d: "distinct xs" "c \<in> set xs" "2 \<le> length xs"
  then obtain i where i: "i < length xs" "xs ! i = c" by (auto simp: in_set_conv_nth)
  have "Suc i mod length xs \<noteq> i"
    using i(1) d(3) by (cases "Suc i = length xs") auto
  moreover have "Suc i mod length xs < length xs" using d(3) by (intro mod_less_divisor) linarith
  ultimately show ?thesis using next_of_index [OF d(1) i(1)] d(1) i by (metis nth_eq_iff_index_eq)
qed

lemma next_thread_chain:
  assumes "chain elem_next m p ps" "map (node_data m) ps = ys"
  shows "next_thread m first c p = (case dropWhile (\<lambda>x. x \<noteq> c) ys of [] \<Rightarrow> ret nullptr | [_] \<Rightarrow> first | _ # n # _ \<Rightarrow> ret n)"
  using assms
proof (induction ps arbitrary: p ys)
  case Nil
  then show ?case by (subst next_thread.simps) simp
next
  case (Cons a ps)
  obtain e where e: "m a = Some e" "p = a" "a \<noteq> nullptr" "chain elem_next m (elem_next e) ps"
    using Cons.prems(1) by (auto split: option.splits)
  have d: "node_data m a = elem_data e" using e(1) by (simp add: node_data_def)
  show ?case
  proof (cases ps)
    case Nil
    then show ?thesis using Cons.IH [OF e(4) refl] e d Cons.prems(2) by (subst next_thread.simps) auto
  next
    case (Cons b bs)
    then obtain e' where "m b = Some e'" "elem_next e = b" "b \<noteq> nullptr" using e(4) by (auto split: option.splits)
    then show ?thesis
      using Cons.IH [OF e(4) refl] e d Cons.prems(2) Cons by (subst next_thread.simps) (auto simp: node_data_def)
  qed
qed

lemma PickNextThread_ok:
  assumes "sched_inv s xs"
  shows "PickNextThread (currentThread s) s = ret (next_of xs (currentThread s))"
proof -
  note i = sched_invD [OF assms]
  obtain ps where r: "list_rep (lnodes s) (threadsList s) ps xs" using assms by (auto simp: sched_inv_def)
  have "map (node_data (lnodes s)) ps = xs" using list_repD(6) [OF r] i(5) by simp
  note n = next_thread_chain [OF list_repD(1) [OF r] this, of "ListTop (threadsList s) s" "currentThread s"]
  have "dropWhile (\<lambda>x. x \<noteq> currentThread s) xs \<noteq> []" using i(2) by (simp add: dropWhile_eq_Nil_conv)
  then show ?thesis
    using n i(5,6) ListTop_rep [OF r] by (auto simp: PickNextThread_def next_of_def split: list.splits)
qed

lemma sched_thread:
  assumes "sched_inv s xs" "x \<in> set xs"
  shows "deref (threads s) x = ret (thread_of s x)" "threads s x = Some (thread_of s x)"
proof -
  have "x \<in> dom (threads s)" "x \<noteq> nullptr" using assms sched_invD(7) [OF assms(1)] by (auto simp: sched_inv_def)
  then show "deref (threads s) x = ret (thread_of s x)" "threads s x = Some (thread_of s x)" by auto
qed

text \<open>A thread the current one may hand over to.\<close>

definition eligible :: "'z tasks_scheme \<Rightarrow> addr \<Rightarrow> bool" where
  "eligible s n \<longleftrightarrow> threadPriority (thread_of s n) \<ge> threadPriority (thread_of s (currentThread s)) \<and>
     RunnableThread (th_state (thread_of s n))"

lemma search_thread_ok:
  assumes "sched_inv s xs"
  shows "search_thread s f = (if eligible s (next_of xs (currentThread s)) then ret (next_of xs (currentThread s)) else diverge)"
proof -
  note i = sched_invD [OF assms]
  let ?n = "next_of xs (currentThread s)"
  have n: "?n \<in> set xs" by (rule next_of_set [OF i(1,2)])
  have pick: "PickNextThread (currentThread s) s = ret ?n" by (rule PickNextThread_ok [OF assms])
  note th = sched_thread [OF assms n] sched_thread [OF assms i(2)]
  have "eligible s ?n" if "search_thread s f = Some r" for f r
  proof -
    have "s' = s \<longrightarrow> eligible s ?n" if "search_thread s' f = Some r" for s' f r
    proof (rule search_thread.raw_induct [OF _ that, of "\<lambda>s' _ _. s' = s \<longrightarrow> eligible s ?n"], rule impI)
      fix g s' f r
      assume IH: "\<And>s' f r. g s' f = Some r \<Longrightarrow> s' = s \<longrightarrow> eligible s ?n" and s': "s' = s"
        and g: "andThen (PickNextThread (currentThread s') s') (\<lambda>nextThread.
          if nextThread = nullptr \<and> nextThread = currentThread s' then ret f
          else andThen (deref (threads s') nextThread) (\<lambda>n. andThen (deref (threads s') (currentThread s')) (\<lambda>c.
            if threadPriority n \<ge> threadPriority c \<and> RunnableThread (th_state n) then ret nextThread else g s' nextThread))) = Some r"
      show "eligible s ?n"
        using g IH [of s ?n r] pick th i(6) unfolding s' eligible_def by (auto split: if_splits)
    qed
    then show ?thesis using that by blast
  qed
  then have "\<not> eligible s ?n \<Longrightarrow> search_thread s f = diverge" by (cases "search_thread s f") auto
  moreover have "eligible s ?n \<Longrightarrow> search_thread s f = ret ?n"
    using pick th i(6) by (subst search_thread.simps) (auto simp: eligible_def)
  ultimately show ?thesis by simp
qed

lemma HasHigherThreadPriority_ok:
  assumes "sched_inv s xs" "c \<in> set xs"
  shows "HasHigherThreadPriority c s =
    ret (\<exists>x\<in>set xs. threadPriority (thread_of s x) > threadPriority (thread_of s c) \<and> RunnableThread (th_state (thread_of s x)))"
proof -
  obtain ps where r: "list_rep (lnodes s) (threadsList s) ps xs" using assms by (auto simp: sched_inv_def)
  let ?P = "\<lambda>x. threadPriority (thread_of s x) > threadPriority (thread_of s c) \<and> RunnableThread (th_state (thread_of s x))"
  let ?ctx = "\<lparr>look_found = False, look_foundThread = nullptr, look_thread = c\<rparr>"
  have c: "c \<noteq> nullptr" using sched_invD(7) [OF assms(1)] assms(2) by auto
  have "LookForThreadWithHigherPriorityCallback (threads s) x ?ctx =
      ret (if ?P x then (STATUS_LIST_STOP_ITERATING, ?ctx\<lparr>look_found := True, look_foundThread := x\<rparr>) else (STATUS_SUCCESS, ?ctx))"
    if x: "x \<in> set xs" for x
    using sched_thread [OF assms(1) x] sched_thread [OF assms] sched_invD(7) [OF assms(1)] x
    by (auto simp: LookForThreadWithHigherPriorityCallback_def)
  then have "ListEnumerate (threadsList s) (Some (LookForThreadWithHigherPriorityCallback (threads s))) ?ctx s =
      ret (STATUS_SUCCESS, case List.find ?P xs of None \<Rightarrow> ?ctx | Some x \<Rightarrow> ?ctx\<lparr>look_found := True, look_foundThread := x\<rparr>)"
    unfolding ListEnumerate_rep [OF r] by (rule enumerate_list_find)
  then show ?thesis using c find_None_iff [of ?P xs] find_Some_iff [of ?P xs]
    by (auto simp: HasHigherThreadPriority_def split: option.splits)
qed

text \<open>When a scheduling decision is due.\<close>

definition switch_due :: "'z tasks_scheme \<Rightarrow> addr list \<Rightarrow> bool" where
  "switch_due s xs \<longleftrightarrow> (let c = thread_of s (currentThread s) in
     100 < tics s - ticsOnResume c \<or> \<not> RunnableThread (th_state c) \<or>
     (\<exists>x\<in>set xs. threadPriority (thread_of s x) > threadPriority c \<and> RunnableThread (th_state (thread_of s x))))"

lemma wants_switch_ok:
  assumes "sched_inv s xs"
  shows "wants_switch s = ret (switch_due s xs)"
  using sched_invD [OF assms] sched_thread [OF assms] HasHigherThreadPriority_ok [OF assms]
  by (auto simp: wants_switch_def switch_due_def Let_def)

text \<open>The state after handing over from the current thread to \<open>n\<close>.\<close>

definition switched :: "InterruptFromUserlandContext \<Rightarrow> addr \<Rightarrow> 'z tasks_scheme \<Rightarrow> 'z tasks_scheme" where
  "switched ctx n s = (let c = thread_of s (currentThread s); t = thread_of s n in
     s\<lparr>threads := (threads s)
         (currentThread s \<mapsto> c\<lparr>regs := saved_regs ctx (tss_ss0 s) (regs c), kstack_esp0 := tss_esp0 s,
            kstack_ss0 := tss_ss0 s, th_state := THREAD_STATE_PAUSED\<rparr>,
          n \<mapsto> t\<lparr>th_state := THREAD_STATE_RUNNING, ticsOnResume := tics s\<rparr>),
       currentThread := n, tss_esp0 := kstack_esp0 t, tss_ss0 := kstack_ss0 t,
       lheap := SetCurrentPageDirectory (pdEntry (pageDirectory (the (processes s (th_process t))))) (lheap s)\<rparr>)"

abbreviation resumed_as :: "addr \<Rightarrow> 'z tasks_scheme \<Rightarrow> resumed" where
  "resumed_as n s \<equiv> resume_args (pdEntry (pageDirectory (the (processes s (th_process (thread_of s n)))))) (thread_of s n)"

lemma resume_args_state [simp]: "resume_args pd (t\<lparr>th_state := st, ticsOnResume := k\<rparr>) = resume_args pd t"
  by (simp add: resume_args_def Let_def)

lemma SwitchToThread_ok:
  assumes inv: "sched_inv s xs" and n: "n \<in> set xs" "n \<noteq> currentThread s"
  shows "SwitchToThread (Some ctx) n s = ret (resumed_as n s, switched ctx n s)"
proof -
  note i = sched_invD [OF inv]
  obtain p where p: "processes s (th_process (thread_of s n)) = Some p" "th_process (thread_of s n) \<noteq> nullptr"
    using inv n(1) by (auto simp: sched_inv_def)
  have nn: "n \<noteq> nullptr" using i(7) n(1) by auto
  show ?thesis
    using sched_thread [OF inv i(2)] sched_thread [OF inv n(1)] i(6) n nn p
    by (simp add: SwitchToThread_def SaveState_def StartOrResume_def upd_thread_def switched_def Let_def fun_upd_twist
        resume_args_state)
qed

lemma Schedules_cases:
  assumes inv: "sched_inv s xs"
  shows "Schedules (Some ctx) s =
    (let n = next_of xs (currentThread s) in
     if \<not> switch_due s xs then ret (None, s)
     else if eligible s n then ret (Some (resumed_as n s), switched ctx n s)
     else diverge)"
proof -
  note i = sched_invD [OF inv]
  let ?n = "next_of xs (currentThread s)"
  have n: "?n \<in> set xs" "?n \<noteq> currentThread s" using next_of_set [OF i(1,2)] next_of_neq [OF i(1,2,8)] by simp_all
  show ?thesis
    using i(3,4) n(2) wants_switch_ok [OF inv] search_thread_ok [OF inv] SwitchToThread_ok [OF inv n]
    by (auto simp: Schedules_def Let_def)
qed

text \<open>Handing over keeps the list of threads; only the two threads change.\<close>

lemma switched_simps [simp]:
  "lnodes (switched ctx n s) = lnodes s" "threadsList (switched ctx n s) = threadsList s" "processes (switched ctx n s) = processes s"
  "sched_running (switched ctx n s) = sched_running s" "nbThreads (switched ctx n s) = nbThreads s"
  "currentThread (switched ctx n s) = n" "tics (switched ctx n s) = tics s"
  by (simp_all add: switched_def Let_def)

lemma thread_of_switched:
  "n \<noteq> currentThread s \<Longrightarrow> thread_of (switched ctx n s) x =
    (if x = n then (thread_of s n)\<lparr>th_state := THREAD_STATE_RUNNING, ticsOnResume := tics s\<rparr>
     else if x = currentThread s then (thread_of s x)\<lparr>regs := saved_regs ctx (tss_ss0 s) (regs (thread_of s x)), kstack_esp0 := tss_esp0 s,
       kstack_ss0 := tss_ss0 s, th_state := THREAD_STATE_PAUSED\<rparr>
     else thread_of s x)"
  by (simp add: switched_def Let_def)

lemma dom_switched: "dom (threads (switched ctx n s)) = insert n (insert (currentThread s) (dom (threads s)))"
  by (auto simp: switched_def Let_def)

lemma switched_inv:
  assumes inv: "sched_inv s xs" and n: "n \<in> set xs" "n \<noteq> currentThread s"
  shows "sched_inv (switched ctx n s) xs"
  using inv n unfolding sched_inv_def by (auto simp: thread_of_switched dom_switched)

text \<open>Threads of one priority that are all runnable.\<close>

definition peers :: "'z tasks_scheme \<Rightarrow> addr list \<Rightarrow> bool" where
  "peers s xs \<longleftrightarrow> (\<exists>p. \<forall>x\<in>set xs. threadPriority (thread_of s x) = p \<and> RunnableThread (th_state (thread_of s x)))"

text \<open>Time slices: the interrupts at which the scheduler is called and the clock tics in between.\<close>

fun slices :: "(InterruptFromUserlandContext \<times> u32) list \<Rightarrow> 'z tasks_scheme \<Rightarrow> 'z tasks_scheme exec" where
  "slices [] s = ret s"
| "slices ((ctx, d) # rest) s = andThen (Schedules (Some ctx) (s\<lparr>tics := tics s + d\<rparr>)) (\<lambda>(_, s'). slices rest s')"

lemma sched_inv_tics [simp]: "sched_inv (s\<lparr>tics := k\<rparr>) xs = sched_inv s xs"
  by (simp add: sched_inv_def)

lemma slice_ok:
  assumes inv: "sched_inv s xs" and p: "peers s xs" and now: "ticsOnResume (thread_of s (currentThread s)) = tics s" and d: "100 < d"
  obtains r s' where "Schedules (Some ctx) (s\<lparr>tics := tics s + d\<rparr>) = ret (r, s')" "sched_inv s' xs" "peers s' xs"
    "ticsOnResume (thread_of s' (currentThread s')) = tics s'" "currentThread s' = next_of xs (currentThread s)"
proof -
  let ?s = "s\<lparr>tics := tics s + d\<rparr>" and ?n = "next_of xs (currentThread s)"
  note i = sched_invD [OF inv]
  have n: "?n \<in> set xs" "?n \<noteq> currentThread ?s" using next_of_set [OF i(1,2)] next_of_neq [OF i(1,2,8)] by simp_all
  have inv': "sched_inv ?s xs" using inv by simp
  have "switch_due ?s xs" using d now by (simp add: switch_due_def Let_def)
  moreover have "eligible ?s ?n" using p n(1) i(2) by (auto simp: peers_def eligible_def)
  ultimately have "Schedules (Some ctx) ?s = ret (Some (resumed_as ?n ?s), switched ctx ?n ?s)"
    using Schedules_cases [OF inv', of ctx] by (simp add: Let_def)
  moreover have "sched_inv (switched ctx ?n ?s) xs" by (rule switched_inv [OF inv' n])
  moreover have "peers (switched ctx ?n ?s) xs"
    using p n unfolding peers_def by (auto simp: thread_of_switched [OF n(2)] RunnableThread_def)
  moreover have "ticsOnResume (thread_of (switched ctx ?n ?s) ?n) = tics (switched ctx ?n ?s)"
    using n(2) by (simp add: thread_of_switched)
  ultimately show ?thesis using that by (metis switched_simps(6))
qed

lemma slices_ok:
  assumes "sched_inv s xs" "peers s xs" "ticsOnResume (thread_of s (currentThread s)) = tics s"
    and "i < length xs" "xs ! i = currentThread s" "\<And>ctx d. (ctx, d) \<in> set steps \<Longrightarrow> 100 < d"
  shows "\<exists>s'. slices steps s = ret s' \<and> currentThread s' = xs ! ((i + length steps) mod length xs) \<and> sched_inv s' xs"
  using assms
proof (induction steps arbitrary: s i)
  case (Cons st steps)
  obtain ctx d where st: "st = (ctx, d)" by (cases st)
  obtain r s' where s': "Schedules (Some ctx) (s\<lparr>tics := tics s + d\<rparr>) = ret (r, s')" "sched_inv s' xs" "peers s' xs"
    "ticsOnResume (thread_of s' (currentThread s')) = tics s'" "currentThread s' = next_of xs (currentThread s)"
    by (rule slice_ok [OF Cons.prems(1-3), of d ctx]) (use Cons.prems(6) st in auto)
  have j: "Suc i mod length xs < length xs" using Cons.prems(4) by (intro mod_less_divisor) linarith
  have c: "xs ! (Suc i mod length xs) = currentThread s'"
    using s'(5) next_of_index [OF _ Cons.prems(4)] sched_invD(1) [OF s'(2)] Cons.prems(5) by simp
  obtain s2 where s2: "slices steps s' = ret s2" "currentThread s2 = xs ! ((Suc i mod length xs + length steps) mod length xs)" "sched_inv s2 xs"
    using Cons.IH [OF s'(2-4) j c] Cons.prems(6) by auto
  then show ?case using s'(1) st by (simp add: mod_add_left_eq)
qed simp

end
