(* ===== verification/Ipc_Buffers.thy ===== *)
theory Ipc_Buffers
  imports Task_Scheduler
begin

section \<open>Message buffers\<close>

text \<open>
  \<^verbatim>\<open>kernel/task/Ipc/IpcBuffer.cpp\<close>: the bytes sent to a server, kept in pages of the page pool.
  The \<^verbatim>\<open>Page\<close> objects on the list are in \<open>page_objs\<close>; the bytes are in the machine's memory
  and are read and written through the MMU, on both sides of a copy.
\<close>

subsection \<open>State and operations\<close>

record IpcBuffer =
  ReadyToReadEvent :: Event
  currentPageWrite :: addr
  currentPageRead :: addr
  currentPageWritePtr :: addr
  currentPageReadPtr :: addr
  currentWriteLimit :: addr
  currentReadLimit :: addr
  buf_pagesList :: addr

abbreviation sizeof_Page :: int where "sizeof_Page \<equiv> 8"

definition IpcBuffer_Init :: "'z tasks_scheme \<Rightarrow> (IpcBuffer \<times> 'z tasks_scheme) exec" where
  "IpcBuffer_Init s = andThen (ListCreate HeapAlloc s) (\<lambda>(list, s1).
     ret (\<lparr>ReadyToReadEvent = EventCreate, currentPageWrite = nullptr, currentPageRead = nullptr,
       currentPageWritePtr = nullptr, currentPageReadPtr = nullptr, currentWriteLimit = nullptr, currentReadLimit = nullptr,
       buf_pagesList = list\<rparr>, s1))"

definition AllocatePage :: "'z tasks_scheme \<Rightarrow> (addr \<times> 'z tasks_scheme) exec" where
  "AllocatePage s = andThen (in_kernel PageAlloc s) (\<lambda>(p, s1).
     if vAddr p = 0 then ret (nullptr, s1)
     else andThen (in_kernel (HeapAlloc sizeof_Page) s1) (\<lambda>(newPage, s2).
       if newPage = nullptr then ret (nullptr, s2)
       else ret (newPage, s2\<lparr>page_objs := (page_objs s2)(newPage \<mapsto> p)\<rparr>)))"

definition AllocateWritePage :: "IpcBuffer \<Rightarrow> 'z tasks_scheme \<Rightarrow> (KeStatus \<times> IpcBuffer \<times> 'z tasks_scheme) exec" where
  "AllocateWritePage b s = andThen (AllocatePage s) (\<lambda>(newPage, s1).
     if newPage = nullptr then ret (STATUS_ALLOC_FAILED, b, s1)
     else andThen (deref (page_objs s1) newPage) (\<lambda>p.
       andThen (ListPush HeapAlloc (buf_pagesList b) newPage s1) (\<lambda>s2.
         ret (STATUS_SUCCESS, b\<lparr>currentPageWrite := newPage, currentPageWritePtr := vAddr p,
           currentWriteLimit := vAddr p + PAGE_SIZE\<rparr>, s2))))"

text \<open>The inner loop of \<^verbatim>\<open>AddBytes\<close>: what is left to copy and from where, buffer and state after it.\<close>

fun fill_page :: "nat \<Rightarrow> addr \<Rightarrow> IpcBuffer \<Rightarrow> 'z tasks_scheme \<Rightarrow> (nat \<times> addr \<times> IpcBuffer \<times> 'z tasks_scheme) exec" where
  "fill_page 0 message b s = ret (0, message, b, s)"
| "fill_page (Suc remaining) message b s =
     (if currentPageWritePtr b < currentWriteLimit b then
        andThen (vread8 (lheap s) message) (\<lambda>c. andThen (vwrite8 (currentPageWritePtr b) c (lheap s)) (\<lambda>h.
          let b1 = b\<lparr>currentPageWritePtr := currentPageWritePtr b + 1\<rparr>;
            b2 = (if currentPageWrite b1 = currentPageRead b1 then b1\<lparr>currentReadLimit := currentReadLimit b1 + 1\<rparr> else b1)
          in fill_page remaining (message + 1) b2 (s\<lparr>lheap := h\<rparr>)))
      else ret (Suc remaining, message, b, s))"

partial_function (option) add_bytes ::
  "nat \<Rightarrow> addr \<Rightarrow> IpcBuffer \<Rightarrow> 'z tasks_scheme \<Rightarrow> (KeStatus \<times> IpcBuffer \<times> 'z tasks_scheme) exec" where
  "add_bytes remaining message b s = andThen (fill_page remaining message b s) (\<lambda>(remaining', message', b1, s1).
     if remaining' > 0 then andThen (AllocateWritePage b1 s1) (\<lambda>(status, b2, s2).
       if FAILED status then ret (status, b2, s2) else add_bytes remaining' message' b2 s2)
     else ret (STATUS_SUCCESS, b1, s1))"

definition AddBytes :: "addr \<Rightarrow> u32 \<Rightarrow> IpcBuffer \<Rightarrow> 'z tasks_scheme \<Rightarrow> (KeStatus \<times> IpcBuffer \<times> 'z tasks_scheme) exec" where
  "AddBytes message sz b s =
     (if message = nullptr then ret (STATUS_NULL_PARAMETER, b, s)
      else if sz = 0 then ret (STATUS_INVALID_PARAMETER, b, s)
      else andThen (if currentPageWritePtr b = nullptr then AllocateWritePage b s else ret (STATUS_SUCCESS, b, s))
        (\<lambda>(status, b1, s1).
          if FAILED status then ret (status, b1, s1)
          else andThen (add_bytes (unat sz) message b1 s1) (\<lambda>(status, b2, s2).
            if FAILED status then ret (status, b2, s2)
            else andThen (EventSignal (Some (ReadyToReadEvent b2)) s2) (\<lambda>(e, s3).
              ret (STATUS_SUCCESS, b2\<lparr>ReadyToReadEvent := the e\<rparr>, s3)))))"

text \<open>\<^verbatim>\<open>ReadBytes\<close>: the start of a page list, the inner loop, and the step to the next page.\<close>

definition start_reading :: "IpcBuffer \<Rightarrow> 'z tasks_scheme \<Rightarrow> IpcBuffer exec" where
  "start_reading b s =
     (if currentPageReadPtr b = nullptr then
        andThen (ListTop (buf_pagesList b) s) (\<lambda>nextPage. andThen (deref (page_objs s) nextPage) (\<lambda>p.
          let b1 = b\<lparr>currentPageRead := nextPage, currentPageReadPtr := vAddr p\<rparr> in
          ret (if currentPageRead b1 = currentPageWrite b1 then b1\<lparr>currentReadLimit := currentPageWritePtr b1\<rparr>
            else b1\<lparr>currentReadLimit := vAddr p + PAGE_SIZE\<rparr>)))
      else ret b)"

fun drain_page :: "nat \<Rightarrow> addr \<Rightarrow> IpcBuffer \<Rightarrow> 'z tasks_scheme \<Rightarrow> (nat \<times> addr \<times> IpcBuffer \<times> 'z tasks_scheme) exec" where
  "drain_page 0 buffer b s = ret (0, buffer, b, s)"
| "drain_page (Suc n) buffer b s =
     (if currentPageReadPtr b < currentReadLimit b then
        andThen (vread8 (lheap s) (currentPageReadPtr b)) (\<lambda>c. andThen (vwrite8 buffer c (lheap s)) (\<lambda>h.
          drain_page n (buffer + 1) (b\<lparr>currentPageReadPtr := currentPageReadPtr b + 1\<rparr>) (s\<lparr>lheap := h\<rparr>)))
      else ret (Suc n, buffer, b, s))"

definition next_read_page :: "IpcBuffer \<Rightarrow> 'z tasks_scheme \<Rightarrow> (IpcBuffer \<times> 'z tasks_scheme) exec" where
  "next_read_page b s = andThen (ListPop HeapFree (Some (buf_pagesList b)) s) (\<lambda>(page, list, s1).
     andThen (deref (page_objs s1) page) (\<lambda>p.
     andThen (PageFree p (lheap s1)) (\<lambda>h.
       let s2 = s1\<lparr>lheap := h\<rparr>; b1 = b\<lparr>buf_pagesList := the list\<rparr> in
       andThen (ListTop (buf_pagesList b1) s2) (\<lambda>page'. andThen (deref (page_objs s2) page') (\<lambda>p'.
         ret (b1\<lparr>currentPageReadPtr := vAddr p', currentReadLimit := vAddr p' + PAGE_SIZE\<rparr>, s2))))))"

partial_function (option) read_bytes ::
  "nat \<Rightarrow> addr \<Rightarrow> IpcBuffer \<Rightarrow> 'z tasks_scheme \<Rightarrow> (nat \<times> IpcBuffer \<times> 'z tasks_scheme) exec" where
  "read_bytes n buffer b s = andThen (drain_page n buffer b s) (\<lambda>(n', buffer', b1, s1).
     if n' > 0 then
       if currentPageWrite b1 \<noteq> currentPageRead b1 then
         andThen (next_read_page b1 s1) (\<lambda>(b2, s2). read_bytes n' buffer' b2 s2)
       else ret (n', b1, s1)
     else ret (0, b1, s1))"

definition ReadBytes ::
  "addr \<Rightarrow> u32 \<Rightarrow> u32 option \<Rightarrow> IpcBuffer \<Rightarrow> 'z tasks_scheme \<Rightarrow> (KeStatus \<times> u32 option \<times> IpcBuffer \<times> 'z tasks_scheme) exec" where
  "ReadBytes buffer sz bytesRead b s =
     (if buffer = nullptr then ret (STATUS_NULL_PARAMETER, bytesRead, b, s)
      else if sz = 0 then ret (STATUS_INVALID_PARAMETER, bytesRead, b, s)
      else if bytesRead = None then ret (STATUS_NULL_PARAMETER, bytesRead, b, s)
      else andThen (start_reading b s) (\<lambda>b1. andThen (read_bytes (unat sz) buffer b1 s) (\<lambda>(left, b2, s2).
        ret (STATUS_SUCCESS, Some (if left = 0 then sz else sz - of_nat left), b2, s2))))"

subsection \<open>Frames that hold data\<close>

text \<open>The frames the MMU reads: the page directory and the page tables it points to.\<close>

definition table_frames :: "'z machine_scheme \<Rightarrow> nat set" where
  "table_frames h = insert (pd_frame h)
     {frame_of (entry h (pd_frame h) d) | d. d < 1024 \<and> FlagOn (entry h (pd_frame h) d) PAGE_PRESENT}"

lemma data_write:
  assumes f: "frame_of p \<notin> table_frames h"
  shows "mmu (h\<lparr>pmem := (pmem h)(p := c)\<rparr>) u = mmu h u"
    and "table_frames (h\<lparr>pmem := (pmem h)(p := c)\<rparr>) = table_frames h"
proof -
  let ?h = "h\<lparr>pmem := (pmem h)(p := c)\<rparr>"
  have other: "entry ?h g j = entry h g j" if "g \<noteq> frame_of p" "g < 1048576" "j < 1024" for g j
    by (rule entry_cong [OF that(2,3)]) (use that in auto)
  have pd: "entry ?h (pd_frame h) d = entry h (pd_frame h) d" if "d < 1024" for d
    by (rule other) (use f that in \<open>auto simp: table_frames_def\<close>)
  have pt: "entry ?h (frame_of (entry h (pd_frame h) d)) j = entry h (frame_of (entry h (pd_frame h) d)) j"
    if "d < 1024" "FlagOn (entry h (pd_frame h) d) PAGE_PRESENT" "j < 1024" for d j
    by (rule other) (use f that in \<open>auto simp: table_frames_def\<close>)
  show "mmu ?h u = mmu h u"
    using pd [OF dir_lt] pt [OF dir_lt] by (simp add: mmu_eq Let_def)
  show "table_frames ?h = table_frames h"
    unfolding table_frames_def
    by (intro arg_cong2 [where f = insert] Collect_cong arg_cong [where f = Ex] ext) (simp, use pd in auto)
qed

text \<open>A range of \<open>n\<close> virtual bytes that is mapped to bytes outside the frames \<open>F\<close>.\<close>

definition mapped_bytes :: "'z machine_scheme \<Rightarrow> nat set \<Rightarrow> addr \<Rightarrow> nat \<Rightarrow> (nat \<Rightarrow> addr) \<Rightarrow> bool" where
  "mapped_bytes h F a n loc \<longleftrightarrow> (\<forall>i<n. mmu h (a + of_nat i) = Some (loc i) \<and> frame_of (loc i) \<notin> F)"

lemma mapped_bytes_Suc:
  "mapped_bytes h F a (Suc n) loc \<longleftrightarrow>
     mmu h a = Some (loc 0) \<and> frame_of (loc 0) \<notin> F \<and> mapped_bytes h F (a + 1) n (\<lambda>i. loc (Suc i))"
  by (auto simp: mapped_bytes_def less_Suc_eq_0_disj add.assoc)

text \<open>Only bytes of the machine's memory change, and none of the tables.\<close>

definition data_change :: "addr set \<Rightarrow> 'z tasks_scheme \<Rightarrow> 'z tasks_scheme \<Rightarrow> bool" where
  "data_change A s s' \<longleftrightarrow> (\<exists>m. s' = s\<lparr>lheap := (lheap s)\<lparr>pmem := m\<rparr>\<rparr> \<and> (\<forall>p. p \<notin> A \<longrightarrow> m p = pmem (lheap s) p)) \<and>
     mmu (lheap s') = mmu (lheap s) \<and> table_frames (lheap s') = table_frames (lheap s)"

lemma data_change_refl [simp]: "data_change A s s"
  by (auto simp: data_change_def intro: exI [of _ "pmem (lheap s)"])

lemma data_change_trans:
  assumes "data_change A s s1" "data_change B s1 s2"
  shows "data_change (A \<union> B) s s2"
proof -
  obtain m m' where m: "s1 = s\<lparr>lheap := (lheap s)\<lparr>pmem := m\<rparr>\<rparr>" "\<forall>p. p \<notin> A \<longrightarrow> m p = pmem (lheap s) p"
    "s2 = s1\<lparr>lheap := (lheap s1)\<lparr>pmem := m'\<rparr>\<rparr>" "\<forall>p. p \<notin> B \<longrightarrow> m' p = pmem (lheap s1) p"
    using assms unfolding data_change_def by blast
  have "s2 = s\<lparr>lheap := (lheap s)\<lparr>pmem := m'\<rparr>\<rparr>" using m(1,3) by simp
  moreover have "\<forall>p. p \<notin> A \<union> B \<longrightarrow> m' p = pmem (lheap s) p" using m(1,2,4) by simp
  ultimately show ?thesis using assms unfolding data_change_def by auto
qed

lemma data_changeD:
  assumes "data_change A s s'"
  shows "mmu (lheap s') = mmu (lheap s)" "table_frames (lheap s') = table_frames (lheap s)"
    "p \<notin> A \<Longrightarrow> pmem (lheap s') p = pmem (lheap s) p" "lnodes s' = lnodes s" "page_objs s' = page_objs s"
    "threads s' = threads s"
  using assms by (auto simp: data_change_def)

lemma vwrite8_data:
  assumes "mmu (lheap s) v = Some p" "frame_of p \<notin> table_frames (lheap s)"
  shows "\<exists>h. vwrite8 v c (lheap s) = ret h \<and> data_change {p} s (s\<lparr>lheap := h\<rparr>) \<and> pmem h p = c"
  using assms data_write [OF assms(2), of c]
  by (auto simp: vwrite8_def data_change_def intro!: exI [of _ "(pmem (lheap s))(p := c)"])

lemma mapped_bytes_change:
  "data_change A s s' \<Longrightarrow> mapped_bytes (lheap s') F a n loc = mapped_bytes (lheap s) F a n loc"
  by (simp add: mapped_bytes_def data_changeD)

subsection \<open>A buffer of one page\<close>

text \<open>
  All bytes are on the virtual page \<open>v\<close>, which is in the frame \<open>f\<close>: the bytes before \<open>r\<close> are
  read, those before \<open>w\<close> are written. Before the first read the reader's pointers are null and
  the page is the only one on the list.
\<close>

definition one_page :: "'z tasks_scheme \<Rightarrow> IpcBuffer \<Rightarrow> nat \<Rightarrow> nat \<Rightarrow> nat \<Rightarrow> nat \<Rightarrow> bool" where
  "one_page s b v f r w \<longleftrightarrow> 0 < v \<and> v < 1048575 \<and> f < 1048576 \<and> r \<le> w \<and> w \<le> 4096 \<and>
     mmu (lheap s) (phys v 0) = Some (phys f 0) \<and> f \<notin> table_frames (lheap s) \<and>
     currentPageWrite b \<noteq> nullptr \<and> currentPageWritePtr b = phys v w \<and> currentWriteLimit b = phys v 4096 \<and>
     (currentPageRead b = currentPageWrite b \<and> currentPageReadPtr b = phys v r \<and> currentReadLimit b = phys v w \<or>
      currentPageRead b = nullptr \<and> currentPageReadPtr b = nullptr \<and> r = 0 \<and>
      (\<exists>ps. list_rep (lnodes s) (buf_pagesList b) ps [currentPageWrite b]) \<and>
      (\<exists>p. page_objs s (currentPageWrite b) = Some p \<and> vAddr p = phys v 0))"

text \<open>The bytes it holds, oldest first.\<close>

definition page_content :: "'z tasks_scheme \<Rightarrow> nat \<Rightarrow> nat \<Rightarrow> nat \<Rightarrow> u8 list" where
  "page_content s f r w = map (\<lambda>i. pmem (lheap s) (phys f i)) [r..<w]"

lemma buf_less: "v < 1048575 \<Longrightarrow> i \<le> 4096 \<Longrightarrow> j \<le> 4096 \<Longrightarrow> phys v i < phys v j \<longleftrightarrow> i < j"
  unfolding phys_def by (subst u32_of_nat_less) auto

lemma page_nonnull: "0 < v \<Longrightarrow> v < 1048575 \<Longrightarrow> i \<le> 4096 \<Longrightarrow> phys v i \<noteq> nullptr"
  using of_nat_u32_eq_iff [of "4096 * v + i" 0] by (simp add: phys_def)

lemma one_page_mmu:
  "one_page s b v f r w \<Longrightarrow> i < 4096 \<Longrightarrow> mmu (lheap s) (phys v i) = Some (phys f i)"
  using mmu_in_page [of v 0 i "lheap s"] phys_add [of f 0 i] by (simp add: one_page_def)

lemma one_page_change: "data_change A s s' \<Longrightarrow> one_page s' b v f r w = one_page s b v f r w"
  by (simp add: one_page_def data_changeD)

lemma frame_phys_iff: "frame_of p = f \<Longrightarrow> f < 1048576 \<Longrightarrow> \<exists>i<4096. p = phys f i"
  using addr_split [of p] off_lt by metis

lemma fill_page_ok:
  assumes "one_page s b v f r w" "w + n \<le> 4096" "mapped_bytes (lheap s) {f} src n loc"
  shows "\<exists>b' s'. fill_page n src b s = ret (0, src + of_nat n, b', s') \<and> one_page s' b' v f r (w + n) \<and>
    data_change (phys f ` {w..<w + n}) s s' \<and> (\<forall>i<n. pmem (lheap s') (phys f (w + i)) = pmem (lheap s) (loc i)) \<and>
    ReadyToReadEvent b' = ReadyToReadEvent b"
  using assms
proof (induction n arbitrary: src loc b s w)
  case 0
  then show ?case by (intro exI [of _ b] exI [of _ s]) simp
next
  case (Suc n)
  note rep = Suc.prems(1) [unfolded one_page_def]
  have w: "w < 4096" using Suc.prems(2) by simp
  have src: "mmu (lheap s) src = Some (loc 0)" "frame_of (loc 0) \<noteq> f" "mapped_bytes (lheap s) {f} (src + 1) n (\<lambda>i. loc (Suc i))"
    using Suc.prems(3) by (simp_all add: mapped_bytes_Suc)
  have wm: "mmu (lheap s) (phys v w) = Some (phys f w)" by (rule one_page_mmu [OF Suc.prems(1) w])
  have ff: "frame_of (phys f w) = f" using rep w by simp
  let ?c = "pmem (lheap s) (loc 0)"
  obtain h where h: "vwrite8 (phys v w) ?c (lheap s) = ret h" "data_change {phys f w} s (s\<lparr>lheap := h\<rparr>)" "pmem h (phys f w) = ?c"
    using vwrite8_data [OF wm] rep ff by metis
  define b1 where "b1 = b\<lparr>currentPageWritePtr := currentPageWritePtr b + 1\<rparr>"
  define b2 where "b2 = (if currentPageWrite b1 = currentPageRead b1 then b1\<lparr>currentReadLimit := currentReadLimit b1 + 1\<rparr> else b1)"
  let ?s1 = "s\<lparr>lheap := h\<rparr>"
  have next1: "phys v w + 1 = phys v (Suc w)" by (simp add: phys_add_123)
  have "one_page s b2 v f r (Suc w)"
  proof (cases "currentPageRead b = currentPageWrite b")
    case True
    then show ?thesis using rep w next1 by (auto simp: one_page_def b2_def b1_def)
  next
    case False
    then have "currentPageWrite b \<noteq> currentPageRead b" by simp
    then show ?thesis using rep w next1 False by (simp add: one_page_def b2_def b1_def)
  qed
  then have rep1: "one_page ?s1 b2 v f r (Suc w)" using one_page_change [OF h(2)] by simp
  have src1: "mapped_bytes (lheap ?s1) {f} (src + 1) n (\<lambda>i. loc (Suc i))" using src(3) mapped_bytes_change [OF h(2)] by simp
  obtain b' s' where IH: "fill_page n (src + 1) b2 ?s1 = ret (0, src + 1 + of_nat n, b', s')" "one_page s' b' v f r (Suc w + n)"
    "data_change (phys f ` {Suc w..<Suc w + n}) ?s1 s'" "\<forall>i<n. pmem (lheap s') (phys f (Suc w + i)) = pmem (lheap ?s1) (loc (Suc i))"
    "ReadyToReadEvent b' = ReadyToReadEvent b2"
    using Suc.IH [OF rep1 _ src1] Suc.prems(2) by auto
  have "fill_page (Suc n) src b s = fill_page n (src + 1) b2 ?s1"
    using buf_less [of v w 4096] rep w src(1) h(1) by (simp add: vread8_def b1_def b2_def Let_def)
  then have "fill_page (Suc n) src b s = ret (0, src + 1 + of_nat n, b', s')" using IH(1) by simp
  moreover have "data_change (phys f ` {w..<w + Suc n}) s s'"
  proof -
    have "phys f ` {w..<w + Suc n} = {phys f w} \<union> phys f ` {Suc w..<Suc w + n}"
      by (simp add: image_insert [symmetric] del: image_insert) (rule arg_cong [where f = "image (phys f)"], auto)
    then show ?thesis using data_change_trans [OF h(2) IH(3)] by simp
  qed
  moreover have "pmem (lheap s') (phys f (w + i)) = pmem (lheap s) (loc i)" if "i < Suc n" for i
  proof (cases i)
    case 0
    have "phys f w \<notin> phys f ` {Suc w..<Suc w + n}" using Suc.prems(2) rep by (auto simp: phys_eq_iff)
    then show ?thesis using data_changeD(3) [OF IH(3)] h(3) 0 by simp
  next
    case (Suc k)
    have "loc (Suc k) \<noteq> phys f w" using Suc.prems(3) that ff by (auto simp: mapped_bytes_def Suc)
    then show ?thesis using IH(4) that Suc data_changeD(3) [OF h(2)] by simp
  qed
  moreover have "ReadyToReadEvent b' = ReadyToReadEvent b" using IH(5) by (simp add: b2_def b1_def)
  ultimately show ?case using IH(2) by (intro exI [of _ b'] exI [of _ s']) (auto simp: add.assoc)
qed

lemma page_content_fill:
  assumes "r \<le> w" "\<forall>i<n. pmem (lheap s') (phys f (w + i)) = pmem (lheap s) (loc i)"
    and "\<And>i. i < w \<Longrightarrow> pmem (lheap s') (phys f i) = pmem (lheap s) (phys f i)"
  shows "page_content s' f r (w + n) = page_content s f r w @ map (\<lambda>i. pmem (lheap s) (loc i)) [0..<n]"
proof -
  have "[r..<w + n] = [r..<w] @ [w..<w + n]" using assms(1) by (rule upt_add_eq_append)
  moreover have "map (\<lambda>i. pmem (lheap s') (phys f i)) [w..<w + n] = map (\<lambda>i. pmem (lheap s) (loc i)) [0..<n]"
    using assms(2) by (intro nth_equalityI) auto
  moreover have "map (\<lambda>i. pmem (lheap s') (phys f i)) [r..<w] = map (\<lambda>i. pmem (lheap s) (phys f i)) [r..<w]"
    using assms(3) by (intro map_cong) auto
  ultimately show ?thesis by (simp add: page_content_def)
qed

definition event_ok :: "Event \<Rightarrow> 'z tasks_scheme \<Rightarrow> bool" where
  "event_ok e s \<longleftrightarrow> ev_lock e = 0 \<and> (ev_thread e = nullptr \<or> ev_thread e \<in> dom (threads s))"

lemma EventSignal_ok:
  assumes "event_ok e s"
  shows "\<exists>th. EventSignal (Some e) s = ret (Some (e\<lparr>ev_signaled := True\<rparr>), s\<lparr>threads := th\<rparr>) \<and> dom th = dom (threads s)"
proof (cases "ev_thread e = nullptr")
  case True
  then show ?thesis using assms by (intro exI [of _ "threads s"]) (simp add: EventSignal_def event_ok_def)
next
  case False
  then obtain th where th: "threads s (ev_thread e) = Some th" "ev_lock e = 0" using assms by (auto simp: event_ok_def)
  let ?ths = "(threads s)(ev_thread e \<mapsto> th\<lparr>th_state := THREAD_STATE_RUNNING\<rparr>)"
  have "EventSignal (Some e) s = ret (Some (e\<lparr>ev_signaled := True\<rparr>), s\<lparr>threads := ?ths\<rparr>)"
    using th False by (simp add: EventSignal_def upd_thread_def)
  moreover have "dom ?ths = dom (threads s)" using th(1) by auto
  ultimately show ?thesis by blast
qed

lemma one_page_threads [simp]: "one_page (s\<lparr>threads := th\<rparr>) b v f r w = one_page s b v f r w"
  "page_content (s\<lparr>threads := th\<rparr>) f r w = page_content s f r w"
  by (simp_all add: one_page_def page_content_def)

lemma one_page_event [simp]: "one_page s (b\<lparr>ReadyToReadEvent := e\<rparr>) v f r w = one_page s b v f r w"
  by (simp add: one_page_def)

text \<open>Adding bytes that still fit the page.\<close>

lemma AddBytes_ok:
  assumes rep: "one_page s b v f r w" and n: "0 < n" "w + n \<le> 4096" and src: "message \<noteq> nullptr" "mapped_bytes (lheap s) {f} message n loc"
    and e: "event_ok (ReadyToReadEvent b) s"
  shows "\<exists>b' s'. AddBytes message (of_nat n) b s = ret (STATUS_SUCCESS, b', s') \<and> one_page s' b' v f r (w + n) \<and>
    page_content s' f r (w + n) = page_content s f r w @ map (\<lambda>i. pmem (lheap s) (loc i)) [0..<n] \<and>
    ReadyToReadEvent b' = (ReadyToReadEvent b)\<lparr>ev_signaled := True\<rparr> \<and>
    (\<exists>m th. s' = s\<lparr>lheap := (lheap s)\<lparr>pmem := m\<rparr>, threads := th\<rparr> \<and> dom th = dom (threads s) \<and>
       (\<forall>p. frame_of p \<noteq> f \<longrightarrow> m p = pmem (lheap s) p)) \<and>
    mmu (lheap s') = mmu (lheap s) \<and> table_frames (lheap s') = table_frames (lheap s)"
proof -
  note rp = rep [unfolded one_page_def]
  have nn: "(of_nat n :: u32) \<noteq> 0" "unat (of_nat n :: u32) = n"
    using n of_nat_u32_eq_iff [of n 0] unat_of_nat_u32 [of n] by auto
  have wp: "currentPageWritePtr b \<noteq> nullptr" using rp page_nonnull [of v w] by simp
  obtain b1 s1 where fp: "fill_page n message b s = ret (0, message + of_nat n, b1, s1)" "one_page s1 b1 v f r (w + n)"
    "data_change (phys f ` {w..<w + n}) s s1" "\<forall>i<n. pmem (lheap s1) (phys f (w + i)) = pmem (lheap s) (loc i)"
    "ReadyToReadEvent b1 = ReadyToReadEvent b"
    using fill_page_ok [OF rep n(2) src(2)] by blast
  have add: "add_bytes n message b s = ret (STATUS_SUCCESS, b1, s1)"
    by (subst add_bytes.simps) (simp add: fp(1))
  have "event_ok (ReadyToReadEvent b1) s1" using e fp(5) data_changeD(6) [OF fp(3)] by (simp add: event_ok_def)
  then obtain th where sig: "EventSignal (Some (ReadyToReadEvent b1)) s1 = ret (Some ((ReadyToReadEvent b1)\<lparr>ev_signaled := True\<rparr>), s1\<lparr>threads := th\<rparr>)"
    "dom th = dom (threads s1)" using EventSignal_ok by blast
  let ?b' = "b1\<lparr>ReadyToReadEvent := (ReadyToReadEvent b1)\<lparr>ev_signaled := True\<rparr>\<rparr>" and ?s' = "s1\<lparr>threads := th\<rparr>"
  have "AddBytes message (of_nat n) b s = ret (STATUS_SUCCESS, ?b', ?s')"
    using nn wp src(1) add sig(1) by (simp add: AddBytes_def FAILED_def)
  moreover have "page_content s1 f r (w + n) = page_content s f r w @ map (\<lambda>i. pmem (lheap s) (loc i)) [0..<n]"
  proof (rule page_content_fill [OF _ fp(4)])
    show "r \<le> w" using rp by simp
    show "pmem (lheap s1) (phys f i) = pmem (lheap s) (phys f i)" if "i < w" for i
      using that rp n(2) by (intro data_changeD(3) [OF fp(3)]) (auto simp: phys_eq_iff)
  qed
  moreover have "\<exists>m th. ?s' = s\<lparr>lheap := (lheap s)\<lparr>pmem := m\<rparr>, threads := th\<rparr> \<and> dom th = dom (threads s) \<and>
      (\<forall>p. frame_of p \<noteq> f \<longrightarrow> m p = pmem (lheap s) p)"
  proof -
    obtain m where m: "s1 = s\<lparr>lheap := (lheap s)\<lparr>pmem := m\<rparr>\<rparr>" "\<forall>p. p \<notin> phys f ` {w..<w + n} \<longrightarrow> m p = pmem (lheap s) p"
      using fp(3) by (auto simp: data_change_def)
    have "frame_of q = f" if "q \<in> phys f ` {w..<w + n}" for q using that rp n(2) by auto
    then have "m p = pmem (lheap s) p" if "frame_of p \<noteq> f" for p using m(2) that by blast
    moreover have "?s' = s\<lparr>lheap := (lheap s)\<lparr>pmem := m\<rparr>, threads := th\<rparr>" using m(1) by simp
    moreover have "dom th = dom (threads s)" using sig(2) data_changeD(6) [OF fp(3)] by simp
    ultimately show ?thesis by (intro exI [of _ m] exI [of _ th]) simp
  qed
  moreover have "mmu (lheap ?s') = mmu (lheap s)" "table_frames (lheap ?s') = table_frames (lheap s)"
    using data_changeD(1,2) [OF fp(3)] by simp_all
  moreover have "one_page ?s' ?b' v f r (w + n)" "ReadyToReadEvent ?b' = (ReadyToReadEvent b)\<lparr>ev_signaled := True\<rparr>"
    "page_content ?s' f r (w + n) = page_content s1 f r (w + n)"
    using fp(2,5) by simp_all
  ultimately show ?thesis by (intro exI [of _ ?b'] exI [of _ ?s'] conjI) (assumption | simp only:)+
qed

text \<open>Reading: the bytes go to places of their own, outside the page and the tables.\<close>

lemma drain_page_ok:
  assumes "one_page s b v f r w" "currentPageReadPtr b = phys v r" "currentPageRead b = currentPageWrite b" "currentReadLimit b = phys v w"
    and "mapped_bytes (lheap s) (insert f (table_frames (lheap s))) dst n loc" "inj_on loc {..<n}"
  shows "\<exists>b' s'. let k = min n (w - r) in drain_page n dst b s = ret (n - k, dst + of_nat k, b', s') \<and>
    one_page s' b' v f (r + k) w \<and> currentPageRead b' = currentPageWrite b' \<and> ReadyToReadEvent b' = ReadyToReadEvent b \<and>
    data_change (loc ` {..<k}) s s' \<and> (\<forall>i<k. pmem (lheap s') (loc i) = pmem (lheap s) (phys f (r + i)))"
  using assms
proof (induction n arbitrary: dst loc b s r)
  case 0
  then show ?case by (intro exI [of _ b] exI [of _ s]) (simp add: Let_def)
next
  case (Suc n)
  note rep = Suc.prems(1) [unfolded one_page_def]
  show ?case
  proof (cases "r < w")
    case False
    then have "r = w" using rep by simp
    then show ?thesis using Suc.prems buf_less [of v w w] rep by (intro exI [of _ b] exI [of _ s]) (simp add: Let_def)
  next
    case True
    then have r: "r < 4096" using rep by simp
    have dst: "mmu (lheap s) dst = Some (loc 0)" "frame_of (loc 0) \<noteq> f" "frame_of (loc 0) \<notin> table_frames (lheap s)"
      "mapped_bytes (lheap s) (insert f (table_frames (lheap s))) (dst + 1) n (\<lambda>i. loc (Suc i))"
      using Suc.prems(5) by (simp_all add: mapped_bytes_Suc)
    have rm: "mmu (lheap s) (phys v r) = Some (phys f r)" by (rule one_page_mmu [OF Suc.prems(1) r])
    let ?c = "pmem (lheap s) (phys f r)"
    obtain h where h: "vwrite8 dst ?c (lheap s) = ret h" "data_change {loc 0} s (s\<lparr>lheap := h\<rparr>)" "pmem h (loc 0) = ?c"
      using vwrite8_data [OF dst(1,3)] by metis
    let ?s1 = "s\<lparr>lheap := h\<rparr>" and ?b1 = "b\<lparr>currentPageReadPtr := currentPageReadPtr b + 1\<rparr>"
    have p1: "currentPageReadPtr ?b1 = phys v (Suc r)" using Suc.prems(2) by (simp add: phys_add_123)
    have "one_page s ?b1 v f (Suc r) w" using rep True Suc.prems(2-4) p1 by (simp add: one_page_def)
    then have rep1: "one_page ?s1 ?b1 v f (Suc r) w" using one_page_change [OF h(2)] by simp
    have m1: "mapped_bytes (lheap ?s1) (insert f (table_frames (lheap ?s1))) (dst + 1) n (\<lambda>i. loc (Suc i))"
      using dst(4) mapped_bytes_change [OF h(2)] data_changeD(2) [OF h(2)] by simp
    have inj1: "inj_on (\<lambda>i. loc (Suc i)) {..<n}" using Suc.prems(6) by (auto simp: inj_on_def)
    let ?k = "min n (w - Suc r)"
    obtain b' s' where IH: "drain_page n (dst + 1) ?b1 ?s1 = ret (n - ?k, dst + 1 + of_nat ?k, b', s')"
      "one_page s' b' v f (Suc r + ?k) w" "currentPageRead b' = currentPageWrite b'" "ReadyToReadEvent b' = ReadyToReadEvent ?b1"
      "data_change ((\<lambda>i. loc (Suc i)) ` {..<?k}) ?s1 s'" "\<forall>i<?k. pmem (lheap s') (loc (Suc i)) = pmem (lheap ?s1) (phys f (Suc r + i))"
      using Suc.IH [OF rep1 p1 _ _ m1 inj1] Suc.prems(3,4) unfolding Let_def by auto
    have k: "min (Suc n) (w - r) = Suc ?k" using True by simp
    have "drain_page (Suc n) dst b s = drain_page n (dst + 1) ?b1 ?s1"
      using buf_less [of v r w] rep True Suc.prems(2,4) rm h(1) by (simp add: vread8_def)
    then have "drain_page (Suc n) dst b s = ret (Suc n - Suc ?k, dst + of_nat (Suc ?k), b', s')" using IH(1) by (simp add: add.assoc)
    moreover have "data_change (loc ` {..<Suc ?k}) s s'"
    proof -
      have "loc ` {..<Suc ?k} = {loc 0} \<union> (\<lambda>i. loc (Suc i)) ` {..<?k}" by (auto simp: lessThan_Suc_eq_insert_0)
      then show ?thesis using data_change_trans [OF h(2) IH(5)] by simp
    qed
    moreover have "pmem (lheap s') (loc i) = pmem (lheap s) (phys f (r + i))" if "i < Suc ?k" for i
    proof (cases i)
      case 0
      have "loc 0 \<noteq> loc (Suc j)" if "j < ?k" for j using inj_onD [OF Suc.prems(6), of 0 "Suc j"] that by auto
      then have "loc 0 \<notin> (\<lambda>i. loc (Suc i)) ` {..<?k}" by blast
      then show ?thesis using data_changeD(3) [OF IH(5)] h(3) 0 by simp
    next
      case (Suc j)
      have "Suc r + j < w" "w \<le> 4096" "f < 1048576" using that Suc rep by linarith+
      then have "frame_of (phys f (Suc r + j)) = f" by simp
      then have "phys f (Suc r + j) \<noteq> loc 0" using dst(2) by metis
      then show ?thesis using IH(6) that Suc data_changeD(3) [OF h(2)] by simp
    qed
    ultimately show ?thesis using IH(2-4) unfolding Let_def k by (intro exI [of _ b'] exI [of _ s']) auto
  qed
qed

lemma start_reading_ok:
  assumes "one_page s b v f r w"
  shows "\<exists>b'. start_reading b s = ret b' \<and> one_page s b' v f r w \<and> currentPageReadPtr b' = phys v r \<and>
    currentPageRead b' = currentPageWrite b' \<and> currentReadLimit b' = phys v w \<and> ReadyToReadEvent b' = ReadyToReadEvent b"
proof (cases "currentPageReadPtr b = nullptr")
  case True
  note rep = assms [unfolded one_page_def]
  have "\<not> currentPageReadPtr b = phys v r" using True page_nonnull [of v r] rep by auto
  then obtain ps p where r: "list_rep (lnodes s) (buf_pagesList b) ps [currentPageWrite b]"
    "page_objs s (currentPageWrite b) = Some p" "vAddr p = phys v 0" "r = 0" using rep by auto
  let ?b' = "b\<lparr>currentPageRead := currentPageWrite b, currentPageReadPtr := phys v 0, currentReadLimit := phys v w\<rparr>"
  have "start_reading b s = ret ?b'"
    using True ListTop_rep [OF r(1)] r(2,3) rep by (simp add: start_reading_def Let_def)
  then show ?thesis using rep r(4) by (intro exI [of _ ?b']) (simp add: one_page_def)
next
  case False
  then show ?thesis using assms by (intro exI [of _ b]) (auto simp: start_reading_def one_page_def)
qed

lemma ReadBytes_ok:
  assumes rep: "one_page s b v f r w" and n: "0 < n" "n < 4294967296" and dst: "buffer \<noteq> nullptr"
    "mapped_bytes (lheap s) (insert f (table_frames (lheap s))) buffer n loc" "inj_on loc {..<n}"
  shows "\<exists>b' s'. let k = min n (w - r) in
    ReadBytes buffer (of_nat n) (Some out) b s = ret (STATUS_SUCCESS, Some (of_nat k), b', s') \<and>
    one_page s' b' v f (r + k) w \<and> map (\<lambda>i. pmem (lheap s') (loc i)) [0..<k] = take k (page_content s f r w) \<and>
    page_content s' f (r + k) w = drop k (page_content s f r w) \<and> ReadyToReadEvent b' = ReadyToReadEvent b \<and>
    data_change (loc ` {..<k}) s s'"
proof -
  obtain b1 where b1: "start_reading b s = ret b1" "one_page s b1 v f r w" "currentPageReadPtr b1 = phys v r"
    "currentPageRead b1 = currentPageWrite b1" "currentReadLimit b1 = phys v w" "ReadyToReadEvent b1 = ReadyToReadEvent b"
    using start_reading_ok [OF rep] by blast
  let ?k = "min n (w - r)"
  have rw: "r \<le> w" "w \<le> 4096" "f < 1048576" using rep by (simp_all add: one_page_def)
  obtain b' s' where d: "drain_page n buffer b1 s = ret (n - ?k, buffer + of_nat ?k, b', s')"
    "one_page s' b' v f (r + ?k) w" "currentPageRead b' = currentPageWrite b'" "ReadyToReadEvent b' = ReadyToReadEvent b1"
    "data_change (loc ` {..<?k}) s s'" "\<forall>i<?k. pmem (lheap s') (loc i) = pmem (lheap s) (phys f (r + i))"
    using drain_page_ok [OF b1(2,3,4,5) dst(2,3)] unfolding Let_def by blast
  have rd: "read_bytes n buffer b1 s = ret (n - ?k, b', s')"
    by (subst read_bytes.simps) (use d(1,3) in simp)
  have nn: "(of_nat n :: u32) \<noteq> 0" "unat (of_nat n :: u32) = n"
    using n of_nat_u32_eq_iff [of n 0] unat_of_nat_u32 [of n] by auto
  have cnt: "(if n - ?k = 0 then of_nat n else of_nat n - of_nat (n - ?k)) = (of_nat ?k :: u32)"
    by (simp add: of_nat_diff)
  have "ReadBytes buffer (of_nat n) (Some out) b s = ret (STATUS_SUCCESS, Some (of_nat ?k), b', s')"
    unfolding ReadBytes_def using nn dst(1) b1(1) rd cnt by simp
  moreover have "map (\<lambda>i. pmem (lheap s') (loc i)) [0..<?k] = take ?k (page_content s f r w)"
    using d(6) by (intro nth_equalityI) (auto simp: page_content_def)
  moreover have "page_content s' f (r + ?k) w = drop ?k (page_content s f r w)"
  proof -
    have "pmem (lheap s') (phys f i) = pmem (lheap s) (phys f i)" if "i < w" for i
    proof (rule data_changeD(3) [OF d(5)])
      have "frame_of (phys f i) = f" using that rw by simp
      then show "phys f i \<notin> loc ` {..<?k}" using dst(2) by (auto simp: mapped_bytes_def)
    qed
    then show ?thesis by (simp add: page_content_def drop_map)
  qed
  ultimately show ?thesis using d(2,4,5) b1(6) unfolding Let_def by (intro exI [of _ b'] exI [of _ s']) simp
qed

text \<open>A 32-bit store to a data frame.\<close>

lemma write32_data:
  assumes g: "g \<notin> table_frames (lheap s)" "g < 1048576" "i + 3 < 4096"
  shows "data_change (phys g ` {i..<i + 4}) s (s\<lparr>lheap := (lheap s)\<lparr>pmem := write32 (pmem (lheap s)) (phys g i) x\<rparr>\<rparr>)"
proof -
  have step: "data_change {phys g j} s1 (s1\<lparr>lheap := (lheap s1)\<lparr>pmem := (pmem (lheap s1))(phys g j := c)\<rparr>\<rparr>)"
    if "g \<notin> table_frames (lheap s1)" "j < 4096" for s1 :: "'a tasks_scheme" and j c
    using data_write [of "phys g j" "lheap s1" c] that g(2) unfolding data_change_def
    by (auto intro!: exI [of _ "(pmem (lheap s1))(phys g j := c)"])
  define w where "w j c s1 = s1\<lparr>lheap := (lheap s1)\<lparr>pmem := (pmem (lheap s1))(phys g j := c)\<rparr>\<rparr>" for j c and s1 :: "'a tasks_scheme"
  have w1: "data_change {phys g j} s1 (w j c s1)" "g \<notin> table_frames (lheap (w j c s1))"
    if "g \<notin> table_frames (lheap s1)" "j < 4096" for s1 j c
  proof -
    show d: "data_change {phys g j} s1 (w j c s1)" unfolding w_def by (rule step [OF that])
    show "g \<notin> table_frames (lheap (w j c s1))" using data_changeD(2) [OF d] that(1) by simp
  qed
  let ?a = "w i (ucast x) s" let ?b = "w (i + 1) (ucast (drop_bit 8 x)) ?a"
  let ?c = "w (i + 2) (ucast (drop_bit 16 x)) ?b" let ?d = "w (i + 3) (ucast (drop_bit 24 x)) ?c"
  note a = w1 [OF g(1), of i "ucast x"] note b = w1 [OF a(2), of "i + 1" "ucast (drop_bit 8 x)"]
  note c = w1 [OF b(2), of "i + 2" "ucast (drop_bit 16 x)"] note d = w1 [OF c(2), of "i + 3" "ucast (drop_bit 24 x)"]
  have "data_change ({phys g i} \<union> {phys g (i + 1)} \<union> {phys g (i + 2)} \<union> {phys g (i + 3)}) s ?d"
    by (intro data_change_trans [OF data_change_trans [OF data_change_trans]]) (rule a b c d; use g(3) in simp)+
  moreover have "?d = s\<lparr>lheap := (lheap s)\<lparr>pmem := write32 (pmem (lheap s)) (phys g i) x\<rparr>\<rparr>"
    by (simp add: w_def write32_def phys_add_123)
  moreover have "{phys g i} \<union> {phys g (i + 1)} \<union> {phys g (i + 2)} \<union> {phys g (i + 3)} = phys g ` {i..<i + 4}"
    by (auto simp: image_iff numeral_eq_Suc less_Suc_eq)
  ultimately show ?thesis by simp
qed

end
