(* ===== verification/Ipc_Handler.thy ===== *)
theory Ipc_Handler
  imports Ipc_Buffers
begin

section \<open>The IPC handler\<close>

text \<open>
  \<^verbatim>\<open>kernel/task/Ipc/Ipc.cpp\<close>: servers with their names and buffers, and the operations of the
  IPC system calls. The \<^verbatim>\<open>IpcObject\<close>s are heap objects in \<open>ipc_objs\<close>; their constructor
  does not run, so what \<^verbatim>\<open>Create\<close> does not set (the lock) is what the memory holds, \<open>raw_ipc\<close>.
  Strings are read from and written to the machine's memory.
\<close>

subsection \<open>State and operations\<close>

record IpcObject =
  io_id :: addr
  io_handle :: u32
  io_serverProcess :: addr
  io_buffer :: IpcBuffer
  io_criticalSection :: u32

record FIND_IPC_OBJECTS_CONTEXT =
  ctx_serverId :: addr
  ctx_ipcObject :: addr
  ctx_ipcHandle :: u32
  ctx_found :: bool

record ipc = tasks +
  ipc_objs :: "addr \<rightharpoonup> IpcObject"
  raw_ipc :: "addr \<Rightarrow> IpcObject"
  ipcObjects :: addr
  s_IpcObjectHandleCount :: u32

abbreviation sizeof_IpcObject :: int where "sizeof_IpcObject \<equiv> 56"
abbreviation INVALID_IPC_HANDLE :: u32 where "INVALID_IPC_HANDLE \<equiv> 0"

text \<open>The C string at an address, read up to its NUL, and a copy of it to another address.\<close>

partial_function (option) read_cstr :: "'z machine_scheme \<Rightarrow> addr \<Rightarrow> cstr exec" where
  "read_cstr h p = andThen (vread8 h p) (\<lambda>c. if c = 0 then ret [] else andThen (read_cstr h (p + 1)) (\<lambda>cs. ret (c # cs)))"

definition string_at :: "'z machine_scheme \<Rightarrow> addr \<Rightarrow> cstr option exec" where
  "string_at h p = (if p = nullptr then ret None else andThen (read_cstr h p) (\<lambda>cs. ret (Some cs)))"

partial_function (option) copy_cstr :: "addr \<Rightarrow> addr \<Rightarrow> 'z machine_scheme \<Rightarrow> 'z machine_scheme exec" where
  "copy_cstr src dst h = andThen (vread8 h src) (\<lambda>c.
     if c \<noteq> 0 then andThen (vwrite8 dst c h) (copy_cstr (src + 1) (dst + 1)) else vwrite8 dst 0 h)"

definition IpcHandler_Init :: "'z ipc_scheme \<Rightarrow> 'z ipc_scheme exec" where
  "IpcHandler_Init s = andThen (ListCreate HeapAlloc s) (\<lambda>(list, s1). ret (s1\<lparr>ipcObjects := list\<rparr>))"

definition FindIpcObjectByHandleCallback ::
  "'z ipc_scheme \<Rightarrow> addr \<Rightarrow> FIND_IPC_OBJECTS_CONTEXT \<Rightarrow> (KeStatus \<times> FIND_IPC_OBJECTS_CONTEXT) exec" where
  "FindIpcObjectByHandleCallback s ptr ctx =
     (if ptr = nullptr then ret (STATUS_NULL_PARAMETER, ctx)
      else andThen (deref (ipc_objs s) ptr) (\<lambda>obj.
        if io_handle obj = ctx_ipcHandle ctx
        then ret (STATUS_LIST_STOP_ITERATING, ctx\<lparr>ctx_found := True, ctx_ipcObject := ptr\<rparr>)
        else ret (STATUS_SUCCESS, ctx)))"

definition FindIpcObjectByServerIdCallback ::
  "'z ipc_scheme \<Rightarrow> addr \<Rightarrow> FIND_IPC_OBJECTS_CONTEXT \<Rightarrow> (KeStatus \<times> FIND_IPC_OBJECTS_CONTEXT) exec" where
  "FindIpcObjectByServerIdCallback s ptr ctx =
     (if ptr = nullptr then ret (STATUS_NULL_PARAMETER, ctx)
      else andThen (deref (ipc_objs s) ptr) (\<lambda>obj.
        andThen (string_at (lheap s) (io_id obj)) (\<lambda>id. andThen (string_at (lheap s) (ctx_serverId ctx)) (\<lambda>name.
          if StrCmp id name = 0
          then ret (STATUS_LIST_STOP_ITERATING, ctx\<lparr>ctx_found := True, ctx_ipcObject := ptr\<rparr>)
          else ret (STATUS_SUCCESS, ctx)))))"

definition FindIpcObjectByHandle :: "u32 \<Rightarrow> 'z ipc_scheme \<Rightarrow> addr exec" where
  "FindIpcObjectByHandle handle s =
     (if handle = INVALID_IPC_HANDLE then ret nullptr
      else andThen (ListEnumerate (ipcObjects s) (Some (FindIpcObjectByHandleCallback s))
          \<lparr>ctx_serverId = nullptr, ctx_ipcObject = nullptr, ctx_ipcHandle = handle, ctx_found = False\<rparr> s)
        (\<lambda>(_, ctx). ret (ctx_ipcObject ctx)))"

definition FindIpcObjectByServerId :: "addr \<Rightarrow> 'z ipc_scheme \<Rightarrow> addr exec" where
  "FindIpcObjectByServerId serverId s =
     (if serverId = nullptr then ret nullptr
      else andThen (ListEnumerate (ipcObjects s) (Some (FindIpcObjectByServerIdCallback s))
          \<lparr>ctx_serverId = serverId, ctx_ipcObject = nullptr, ctx_ipcHandle = INVALID_IPC_HANDLE, ctx_found = False\<rparr> s)
        (\<lambda>(_, ctx). ret (ctx_ipcObject ctx)))"

definition IsServerIdStrAlreadyUsed :: "addr \<Rightarrow> 'z ipc_scheme \<Rightarrow> bool exec" where
  "IsServerIdStrAlreadyUsed serverIdStr s =
     (if serverIdStr = nullptr then ret True
      else andThen (ListEnumerate (ipcObjects s) (Some (FindIpcObjectByServerIdCallback s))
          \<lparr>ctx_serverId = serverIdStr, ctx_ipcObject = nullptr, ctx_ipcHandle = INVALID_IPC_HANDLE, ctx_found = False\<rparr> s)
        (\<lambda>(_, ctx). ret (ctx_found ctx)))"

text \<open>
  \<^verbatim>\<open>IpcObject::Create\<close>. The second allocation is not checked (the code tests the object
  again); with a null copy \<^verbatim>\<open>StrCpy\<close> does nothing.
\<close>

definition IpcObject_Create ::
  "addr \<Rightarrow> addr \<Rightarrow> u32 \<Rightarrow> addr option \<Rightarrow> 'z ipc_scheme \<Rightarrow> (KeStatus \<times> addr option \<times> 'z ipc_scheme) exec" where
  "IpcObject_Create serverIdStr serverProcess handle ipcObject s =
     (if serverIdStr = nullptr then ret (STATUS_NULL_PARAMETER, ipcObject, s)
      else if serverProcess = nullptr then ret (STATUS_NULL_PARAMETER, ipcObject, s)
      else if ipcObject = None then ret (STATUS_NULL_PARAMETER, ipcObject, s)
      else andThen (in_kernel (HeapAlloc sizeof_IpcObject) s) (\<lambda>(object, s1).
        if object = nullptr then ret (STATUS_ALLOC_FAILED, ipcObject, s1)
        else andThen (string_at (lheap s1) serverIdStr) (\<lambda>name.
          andThen (in_kernel (HeapAlloc (int (StrLen name) + 1)) s1) (\<lambda>(copy, s2).
          andThen (if copy = nullptr then ret (lheap s2) else copy_cstr serverIdStr copy (lheap s2)) (\<lambda>h.
          andThen (IpcBuffer_Init (s2\<lparr>lheap := h\<rparr>)) (\<lambda>(buf, s3).
            ret (STATUS_SUCCESS, Some object, s3\<lparr>ipc_objs := (ipc_objs s3)(object \<mapsto>
              (raw_ipc s3 object)\<lparr>io_handle := handle, io_id := copy, io_serverProcess := serverProcess,
                io_buffer := buf\<rparr>)\<rparr>)))))))"

definition AddNewServer ::
  "addr \<Rightarrow> addr \<Rightarrow> u32 option \<Rightarrow> 'z ipc_scheme \<Rightarrow> (KeStatus \<times> u32 option \<times> 'z ipc_scheme) exec" where
  "AddNewServer serverIdStr serverProcess handle s =
     (if serverIdStr = nullptr then ret (STATUS_NULL_PARAMETER, handle, s)
      else if serverProcess = nullptr then ret (STATUS_NULL_PARAMETER, handle, s)
      else if handle = None then ret (STATUS_NULL_PARAMETER, handle, s)
      else andThen (IsServerIdStrAlreadyUsed serverIdStr s) (\<lambda>used.
        if used then ret (IPC_STATUS_ID_STRING_ALREADY_USED, handle, s)
        else let ipcObjectHandle = s_IpcObjectHandleCount s + 1; s1 = s\<lparr>s_IpcObjectHandleCount := ipcObjectHandle\<rparr> in
          andThen (IpcObject_Create serverIdStr serverProcess ipcObjectHandle (Some nullptr) s1) (\<lambda>(status, ipcObject, s2).
            if FAILED status then ret (status, handle, s2)
            else andThen (ListPush HeapAlloc (ipcObjects s2) (the ipcObject) s2) (\<lambda>s3.
              ret (STATUS_SUCCESS, Some ipcObjectHandle, s3)))))"

definition ConnectToServer :: "addr \<Rightarrow> addr \<Rightarrow> u32 option \<Rightarrow> 'z ipc_scheme \<Rightarrow> (KeStatus \<times> u32 option) exec" where
  "ConnectToServer serverIdStr clientProcess ipcHandle s =
     (if serverIdStr = nullptr then ret (STATUS_NULL_PARAMETER, ipcHandle)
      else if clientProcess = nullptr then ret (STATUS_NULL_PARAMETER, ipcHandle)
      else if ipcHandle = None then ret (STATUS_NULL_PARAMETER, ipcHandle)
      else andThen (FindIpcObjectByServerId serverIdStr s) (\<lambda>ipcObject.
        if ipcObject = nullptr then ret (IPC_STATUS_SERVER_NOT_FOUND, ipcHandle)
        else andThen (deref (ipc_objs s) ipcObject) (\<lambda>obj. ret (STATUS_SUCCESS, Some (io_handle obj)))))"

definition upd_ipc :: "addr \<Rightarrow> (IpcObject \<Rightarrow> IpcObject) \<Rightarrow> 'z ipc_scheme \<Rightarrow> 'z ipc_scheme exec" where
  "upd_ipc p f s = andThen (deref (ipc_objs s) p) (\<lambda>obj. ret (s\<lparr>ipc_objs := (ipc_objs s)(p \<mapsto> f obj)\<rparr>))"

text \<open>
  \<^verbatim>\<open>Send\<close> enters the critical section of its \<^verbatim>\<open>ipcObject\<close> variable before it has looked the
  object up, when it is still null: the lock word is then the one at the member's offset from
  address 0, 52. The first page of the address space is mapped and writable in the kernel.
\<close>

abbreviation null_lock :: addr where "null_lock \<equiv> 52"

definition enter_section :: "addr \<Rightarrow> 'z ipc_scheme \<Rightarrow> 'z ipc_scheme exec" where
  "enter_section p s =
     (if p = nullptr then
        andThen (vread32 (lheap s) null_lock) (\<lambda>l. andThen (CriticalSection_Enter l) (\<lambda>l'.
          andThen (vwrite32 null_lock l' (lheap s)) (\<lambda>h. ret (s\<lparr>lheap := h\<rparr>))))
      else andThen (deref (ipc_objs s) p) (\<lambda>obj. andThen (CriticalSection_Enter (io_criticalSection obj)) (\<lambda>l.
        upd_ipc p (\<lambda>obj. obj\<lparr>io_criticalSection := l\<rparr>) s)))"

definition leave_section :: "addr \<Rightarrow> 'z ipc_scheme \<Rightarrow> 'z ipc_scheme exec" where
  "leave_section p s =
     (if p = nullptr then
        andThen (vread32 (lheap s) null_lock) (\<lambda>l. andThen (vwrite32 null_lock (CriticalSection_Leave l) (lheap s)) (\<lambda>h.
          ret (s\<lparr>lheap := h\<rparr>)))
      else upd_ipc p (\<lambda>obj. obj\<lparr>io_criticalSection := CriticalSection_Leave (io_criticalSection obj)\<rparr>) s)"

definition IpcSend :: "u32 \<Rightarrow> addr \<Rightarrow> addr \<Rightarrow> u32 \<Rightarrow> 'z ipc_scheme \<Rightarrow> (KeStatus \<times> 'z ipc_scheme) exec" where
  "IpcSend handle clientProcess message sz s =
     (if handle = 0 then ret (STATUS_INVALID_PARAMETER, s)
      else if clientProcess = nullptr then ret (STATUS_NULL_PARAMETER, s)
      else if message = nullptr then ret (STATUS_NULL_PARAMETER, s)
      else if sz = 0 then ret (STATUS_INVALID_PARAMETER, s)
      else andThen (enter_section nullptr s) (\<lambda>s1.
        andThen (FindIpcObjectByHandle handle s1) (\<lambda>ipcObject.
        andThen
          (if ipcObject = nullptr then ret (IPC_STATUS_SERVER_NOT_FOUND, s1)
           else andThen (deref (ipc_objs s1) ipcObject) (\<lambda>obj.
             if clientProcess = io_serverProcess obj then ret (IPC_STATUS_ACCESS_DENIED, s1)
             else andThen (AddBytes message sz (io_buffer obj) s1) (\<lambda>(status, buf, s2).
               andThen (upd_ipc ipcObject (\<lambda>obj. obj\<lparr>io_buffer := buf\<rparr>) s2) (\<lambda>s3. ret (status, s3)))))
          (\<lambda>(status, s4). andThen (leave_section ipcObject s4) (\<lambda>s5. ret (status, s5))))))"

text \<open>
  \<^verbatim>\<open>Receive\<close>. When the wait for the event gives the processor away, the call stops with \<open>None\<close>
  as its status; \<open>IpcReceive_resume\<close> is the rest of it. A client that tries to receive is only
  noted: the status is overwritten later.
\<close>

definition receive_rest ::
  "addr \<Rightarrow> addr \<Rightarrow> u32 \<Rightarrow> u32 option \<Rightarrow> 'z ipc_scheme \<Rightarrow> (KeStatus option \<times> u32 option \<times> 'z ipc_scheme) exec" where
  "receive_rest ipcObject buffer sz bytesRead s = andThen (enter_section ipcObject s) (\<lambda>s1.
     andThen (deref (ipc_objs s1) ipcObject) (\<lambda>obj.
     andThen (ReadBytes buffer sz (Some 0) (io_buffer obj) s1) (\<lambda>(status, localBytesRead, buf, s2).
     andThen (upd_ipc ipcObject (\<lambda>obj. obj\<lparr>io_buffer := buf\<rparr>) s2) (\<lambda>s3.
       if FAILED status then ret (Some status, bytesRead, s3)
       else andThen (leave_section ipcObject s3) (\<lambda>s4. ret (Some STATUS_SUCCESS, localBytesRead, s4))))))"

definition IpcReceive ::
  "u32 \<Rightarrow> addr \<Rightarrow> addr \<Rightarrow> u32 \<Rightarrow> u32 option \<Rightarrow> 'z ipc_scheme \<Rightarrow> (KeStatus option \<times> u32 option \<times> 'z ipc_scheme) exec" where
  "IpcReceive handle serverProcess buffer sz bytesRead s =
     (if handle = 0 then ret (Some STATUS_INVALID_PARAMETER, bytesRead, s)
      else if serverProcess = nullptr then ret (Some STATUS_NULL_PARAMETER, bytesRead, s)
      else if buffer = nullptr then ret (Some STATUS_NULL_PARAMETER, bytesRead, s)
      else if sz = 0 then ret (Some STATUS_NULL_PARAMETER, bytesRead, s)
      else if bytesRead = None then ret (Some STATUS_NULL_PARAMETER, bytesRead, s)
      else andThen (FindIpcObjectByHandle handle s) (\<lambda>ipcObject.
        if ipcObject = nullptr then ret (Some IPC_STATUS_SERVER_NOT_FOUND, bytesRead, s)
        else andThen (deref (ipc_objs s) ipcObject) (\<lambda>obj.
          let status = (if serverProcess \<noteq> io_serverProcess obj then IPC_STATUS_ACCESS_DENIED else STATUS_FAILURE) in
          andThen (EventWait (Some (ReadyToReadEvent (io_buffer obj))) s) (\<lambda>(e, blocked, s1).
          andThen (upd_ipc ipcObject (\<lambda>obj. obj\<lparr>io_buffer := (io_buffer obj)\<lparr>ReadyToReadEvent := the e\<rparr>\<rparr>) s1) (\<lambda>s2.
            if blocked then ret (None, bytesRead, s2)
            else receive_rest ipcObject buffer sz bytesRead s2)))))"

definition IpcReceive_resume ::
  "addr \<Rightarrow> addr \<Rightarrow> u32 \<Rightarrow> u32 option \<Rightarrow> 'z ipc_scheme \<Rightarrow> (KeStatus option \<times> u32 option \<times> 'z ipc_scheme) exec" where
  "IpcReceive_resume ipcObject buffer sz bytesRead s =
     andThen (upd_ipc ipcObject (\<lambda>obj. obj\<lparr>io_buffer := (io_buffer obj)\<lparr>ReadyToReadEvent :=
         EventWait_resume (ReadyToReadEvent (io_buffer obj))\<rparr>\<rparr>) s)
       (receive_rest ipcObject buffer sz bytesRead)"

text \<open>\<^verbatim>\<open>ReleaseMemory\<close> and \<^verbatim>\<open>_AllocateMemory\<close> only return success.\<close>

definition IpcReleaseMemory :: "addr \<Rightarrow> addr \<Rightarrow> KeStatus" where
  "IpcReleaseMemory process ptr = STATUS_SUCCESS"

definition IpcAllocateMemory :: "addr \<Rightarrow> u32 \<Rightarrow> addr option \<Rightarrow> KeStatus \<times> addr option" where
  "IpcAllocateMemory process sz buffer = (STATUS_SUCCESS, buffer)"

subsection \<open>Finding a server\<close>

text \<open>The server objects \<open>xs\<close>, in the order of the list.\<close>

definition servers :: "'z ipc_scheme \<Rightarrow> addr list \<Rightarrow> bool" where
  "servers s xs \<longleftrightarrow> (\<exists>ps. list_rep (lnodes s) (ipcObjects s) ps xs) \<and> set xs \<subseteq> dom (ipc_objs s)"

abbreviation server_of :: "'z ipc_scheme \<Rightarrow> addr \<Rightarrow> IpcObject" where
  "server_of s p \<equiv> the (ipc_objs s p)"

lemma server_deref:
  assumes "servers s xs" "p \<in> set xs"
  shows "deref (ipc_objs s) p = ret (server_of s p)" "ipc_objs s p = Some (server_of s p)" "p \<noteq> nullptr"
proof -
  obtain ps where "list_rep (lnodes s) (ipcObjects s) ps xs" using assms(1) by (auto simp: servers_def)
  then show "p \<noteq> nullptr" using list_repD(5) assms(2) by metis
  moreover show "ipc_objs s p = Some (server_of s p)" using assms by (auto simp: servers_def)
  ultimately show "deref (ipc_objs s) p = ret (server_of s p)" by simp
qed

lemma FindIpcObjectByHandle_ok:
  assumes "servers s xs" "handle \<noteq> INVALID_IPC_HANDLE"
  shows "FindIpcObjectByHandle handle s =
    ret (case List.find (\<lambda>x. io_handle (server_of s x) = handle) xs of None \<Rightarrow> nullptr | Some p \<Rightarrow> p)"
proof -
  obtain ps where r: "list_rep (lnodes s) (ipcObjects s) ps xs" using assms(1) by (auto simp: servers_def)
  let ?ctx = "\<lparr>ctx_serverId = nullptr, ctx_ipcObject = nullptr, ctx_ipcHandle = handle, ctx_found = False\<rparr>"
  have "ListEnumerate (ipcObjects s) (Some (FindIpcObjectByHandleCallback s)) ?ctx s =
      ret (STATUS_SUCCESS, case List.find (\<lambda>x. io_handle (server_of s x) = handle) xs of None \<Rightarrow> ?ctx
        | Some x \<Rightarrow> ?ctx\<lparr>ctx_found := True, ctx_ipcObject := x\<rparr>)"
    unfolding ListEnumerate_rep [OF r]
    by (rule enumerate_list_find) (simp add: FindIpcObjectByHandleCallback_def server_deref(1,3) [OF assms(1)])
  then show ?thesis using assms(2) by (auto simp: FindIpcObjectByHandle_def split: option.splits)
qed

subsection \<open>The lock word of the null object\<close>

text \<open>The first page of the address space is in the frame \<open>g\<close>, which holds no table.\<close>

definition low_page :: "'z tasks_scheme \<Rightarrow> nat \<Rightarrow> bool" where
  "low_page s g \<longleftrightarrow> mmu (lheap s) 0 = Some (phys g 0) \<and> g < 1048576 \<and> g \<notin> table_frames (lheap s)"

abbreviation lock_word :: "'z tasks_scheme \<Rightarrow> nat \<Rightarrow> u32" where
  "lock_word s g \<equiv> read32 (pmem (lheap s)) (phys g 52)"

lemma low_page_access:
  assumes "low_page s g"
  shows "vread32 (lheap s) null_lock = ret (lock_word s g)"
    and "vwrite32 null_lock x (lheap s) = ret ((lheap s)\<lparr>pmem := write32 (pmem (lheap s)) (phys g 52) x\<rparr>)"
proof -
  have p: "(null_lock :: addr) = phys 0 52" by (simp add: phys_def)
  have z: "phys 0 0 = (0 :: addr)" by (simp add: phys_def)
  have "mmu (lheap s) (phys 0 (0 + 52)) = map_option (\<lambda>p. p + of_nat 52) (mmu (lheap s) (phys 0 0))"
    by (rule mmu_in_page) simp_all
  also have "\<dots> = Some (phys g 0 + of_nat 52)" using assms by (simp only: z low_page_def option.map)
  also have "\<dots> = Some (phys g 52)" by (simp only: phys_add add_0)
  finally have m: "mmu (lheap s) (phys 0 52) = Some (phys g 52)" by (simp only: add_0)
  have "vread32 (lheap s) (phys 0 52) = ret (lock_word s g)" by (subst vread32_in_page) (simp_all add: m)
  then show "vread32 (lheap s) null_lock = ret (lock_word s g)" by (simp only: p)
  have "vwrite32 (phys 0 52) x (lheap s) = ret ((lheap s)\<lparr>pmem := write32 (pmem (lheap s)) (phys g 52) x\<rparr>)"
    by (subst vwrite32_in_page) (simp_all add: m)
  then show "vwrite32 null_lock x (lheap s) = ret ((lheap s)\<lparr>pmem := write32 (pmem (lheap s)) (phys g 52) x\<rparr>)"
    by (simp only: p)
qed

lemma enter_null_ok:
  assumes "low_page s g" "lock_word s g = 0"
  shows "\<exists>s'. enter_section nullptr s = ret s' \<and> data_change (phys g ` {52..<56}) s s' \<and> lock_word s' g = 1 \<and>
    ipc.more s' = ipc.more s \<and> ipc_objs s' = ipc_objs s \<and> ipcObjects s' = ipcObjects s"
proof -
  let ?s' = "s\<lparr>lheap := (lheap s)\<lparr>pmem := write32 (pmem (lheap s)) (phys g 52) 1\<rparr>\<rparr>"
  have "enter_section nullptr s = ret ?s'" using low_page_access [OF assms(1)] assms(2) by (simp add: enter_section_def)
  moreover have "data_change (phys g ` {52..<52 + 4}) s ?s'"
    using assms(1) by (intro write32_data) (simp_all add: low_page_def)
  ultimately show ?thesis by (intro exI [of _ ?s']) simp
qed

text \<open>Once the word is taken, no \<^verbatim>\<open>Send\<close> gets past its first step.\<close>

lemma Send_spins:
  assumes "low_page s g" "lock_word s g = 1" "handle \<noteq> 0" "client \<noteq> nullptr" "message \<noteq> nullptr" "sz \<noteq> 0"
  shows "IpcSend handle client message sz s = diverge"
  using assms low_page_access [OF assms(1)] by (simp add: IpcSend_def enter_section_def)

lemma servers_change:
  assumes "data_change A s s'" "ipc_objs s' = ipc_objs s" "ipcObjects s' = ipcObjects s"
  shows "servers s' xs = servers s xs"
  using assms by (simp add: servers_def data_changeD)

text \<open>A message that fits the page of the server's buffer.\<close>

lemma Send_ok:
  assumes srv: "servers s xs" "List.find (\<lambda>x. io_handle (server_of s x) = handle) xs = Some p"
    and call: "handle \<noteq> 0" "client \<noteq> nullptr" "client \<noteq> io_serverProcess (server_of s p)" "message \<noteq> nullptr" "0 < n"
    and buf: "one_page s (io_buffer (server_of s p)) v f r w" "w + n \<le> 4096"
      "mapped_bytes (lheap s) {f, g} message n loc" "event_ok (ReadyToReadEvent (io_buffer (server_of s p))) s"
    and low: "low_page s g" "lock_word s g = 0" "g \<noteq> f"
  shows "\<exists>s'. IpcSend handle client message (of_nat n) s = ret (STATUS_SUCCESS, s') \<and>
    one_page s' (io_buffer (server_of s' p)) v f r (w + n) \<and>
    page_content s' f r (w + n) = page_content s f r w @ map (\<lambda>i. pmem (lheap s) (loc i)) [0..<n] \<and>
    low_page s' g \<and> lock_word s' g = 1"
proof -
  let ?obj = "server_of s p"
  have p: "p \<in> set xs" using srv(2) by (metis find_Some_iff nth_mem)
  note d = server_deref [OF srv(1) p]
  have nn: "(of_nat n :: u32) \<noteq> 0" using call(5) buf(2) of_nat_u32_eq_iff [of n 0] by auto
  obtain s1 where s1: "enter_section nullptr s = ret s1" "data_change (phys g ` {52..<56}) s s1" "lock_word s1 g = 1"
    "ipc_objs s1 = ipc_objs s" "ipcObjects s1 = ipcObjects s"
    using enter_null_ok [OF low(1,2)] by blast
  note dc = data_changeD [OF s1(2)]
  have find: "FindIpcObjectByHandle handle s1 = ret p"
    using FindIpcObjectByHandle_ok [of s1 xs handle] servers_change [OF s1(2,4,5)] srv s1(4) call(1) by simp
  have g: "f < 1048576" "w \<le> 4096" "r \<le> w" using buf(1) by (simp_all add: one_page_def)
  have g2: "g < 1048576" using low(1) by (simp add: low_page_def)
  have same: "pmem (lheap s1) q = pmem (lheap s) q" if "frame_of q \<noteq> g" for q
    using that g2 by (intro dc(3)) auto
  have one1: "one_page s1 (io_buffer ?obj) v f r w" using one_page_change [OF s1(2)] buf(1) by simp
  have src1: "mapped_bytes (lheap s1) {f} message n loc"
    using buf(3) unfolding mapped_bytes_def dc(1) by blast
  have ev1: "event_ok (ReadyToReadEvent (io_buffer ?obj)) s1" using buf(4) dc(6) by (simp add: event_ok_def)
  obtain b2 s2 m th where a: "AddBytes message (of_nat n) (io_buffer ?obj) s1 = ret (STATUS_SUCCESS, b2, s2)"
    "one_page s2 b2 v f r (w + n)"
    "page_content s2 f r (w + n) = page_content s1 f r w @ map (\<lambda>i. pmem (lheap s1) (loc i)) [0..<n]"
    "s2 = s1\<lparr>lheap := (lheap s1)\<lparr>pmem := m\<rparr>, threads := th\<rparr>" "\<forall>p. frame_of p \<noteq> f \<longrightarrow> m p = pmem (lheap s1) p"
    "mmu (lheap s2) = mmu (lheap s1)" "table_frames (lheap s2) = table_frames (lheap s1)"
    using AddBytes_ok [OF one1 call(5) buf(2) call(4) src1 ev1] by blast
  have objs2: "ipc_objs s2 = ipc_objs s" using a(4) s1(4) by simp
  define s' where "s' = s2\<lparr>ipc_objs := (ipc_objs s2)(p \<mapsto> ?obj\<lparr>io_buffer := b2, io_criticalSection := 0\<rparr>)\<rparr>"
  have "IpcSend handle client message (of_nat n) s = ret (STATUS_SUCCESS, s')"
    using call nn s1(1,4) find d(1,3) a(1) objs2 by (simp add: IpcSend_def upd_ipc_def leave_section_def s'_def)
  moreover have "one_page s' (io_buffer (server_of s' p)) v f r (w + n)" using a(2) by (simp add: s'_def one_page_def)
  moreover have "page_content s' f r (w + n) = page_content s f r w @ map (\<lambda>i. pmem (lheap s) (loc i)) [0..<n]"
  proof -
    have "page_content s1 f r w = page_content s f r w"
      unfolding page_content_def by (intro map_cong refl same) (use g low(3) in auto)
    moreover have "map (\<lambda>i. pmem (lheap s1) (loc i)) [0..<n] = map (\<lambda>i. pmem (lheap s) (loc i)) [0..<n]"
      using buf(3) by (intro map_cong refl same) (auto simp: mapped_bytes_def)
    ultimately show ?thesis using a(3) by (simp add: s'_def page_content_def)
  qed
  moreover have "low_page s' g" using low(1) a(6,7) dc(1,2) by (simp add: s'_def low_page_def)
  moreover have "lock_word s' g = 1"
  proof -
    have "m (phys g (52 + k)) = pmem (lheap s1) (phys g (52 + k))" if "k < 4" for k using a(5) that g2 low(3) by simp
    from this [of 0] this [of 1] this [of 2] this [of 3]
    have "read32 m (phys g 52) = read32 (pmem (lheap s1)) (phys g 52)"
      by (intro read32_cong) (simp_all add: phys_add_123)
    then show ?thesis using s1(3) a(4) by (simp add: s'_def)
  qed
  ultimately show ?thesis by blast
qed

subsection \<open>Receiving\<close>

lemma Receive_ok:
  assumes srv: "servers s xs" "List.find (\<lambda>x. io_handle (server_of s x) = handle) xs = Some p"
    and call: "handle \<noteq> 0" "anyone \<noteq> nullptr" "0 < n" "n < 4294967296" "io_criticalSection (server_of s p) = 0"
    and buf: "one_page s (io_buffer (server_of s p)) v f r w"
      "ReadyToReadEvent (io_buffer (server_of s p)) = \<lparr>ev_signaled = True, ev_thread = t, ev_lock = 0\<rparr>"
    and dst: "buffer \<noteq> nullptr" "mapped_bytes (lheap s) (insert f (table_frames (lheap s))) buffer n loc" "inj_on loc {..<n}"
  shows "\<exists>s'. let k = min n (w - r) in
    IpcReceive handle anyone buffer (of_nat n) (Some out) s = ret (Some STATUS_SUCCESS, Some (of_nat k), s') \<and>
    map (\<lambda>i. pmem (lheap s') (loc i)) [0..<k] = take k (page_content s f r w) \<and>
    one_page s' (io_buffer (server_of s' p)) v f (r + k) w \<and>
    page_content s' f (r + k) w = drop k (page_content s f r w) \<and> io_criticalSection (server_of s' p) = 0"
proof -
  let ?k = "min n (w - r)"
  let ?obj = "server_of s p"
  let ?b = "(io_buffer ?obj)\<lparr>ReadyToReadEvent := \<lparr>ev_signaled = False, ev_thread = t, ev_lock = 0\<rparr>\<rparr>"
  let ?s1 = "s\<lparr>ipc_objs := (ipc_objs s)(p \<mapsto> ?obj\<lparr>io_buffer := ?b, io_criticalSection := 1\<rparr>)\<rparr>"
  have p: "p \<in> set xs" using srv(2) by (metis find_Some_iff nth_mem)
  note d = server_deref [OF srv(1) p]
  have nn: "(of_nat n :: u32) \<noteq> 0" using call(3,4) of_nat_u32_eq_iff [of n 0] by auto
  have find: "FindIpcObjectByHandle handle s = ret p"
    using FindIpcObjectByHandle_ok [OF srv(1)] srv(2) call(1) by simp
  have one: "one_page ?s1 ?b v f r w" using buf(1) by (simp add: one_page_def)
  have dst1: "mapped_bytes (lheap ?s1) (insert f (table_frames (lheap ?s1))) buffer n loc" using dst(2) by simp
  obtain b' s2 where rd: "ReadBytes buffer (of_nat n) (Some 0) ?b ?s1 = ret (STATUS_SUCCESS, Some (of_nat ?k), b', s2)"
    "one_page s2 b' v f (r + ?k) w" "map (\<lambda>i. pmem (lheap s2) (loc i)) [0..<?k] = take ?k (page_content ?s1 f r w)"
    "page_content s2 f (r + ?k) w = drop ?k (page_content ?s1 f r w)" "data_change (loc ` {..<?k}) ?s1 s2"
    using ReadBytes_ok [OF one call(3,4) dst(1) dst1 dst(3), of 0] by (auto simp: Let_def)
  have objs: "ipc_objs s2 = ipc_objs ?s1" using rd(5) by (auto simp: data_change_def)
  define s' where "s' = s2\<lparr>ipc_objs := (ipc_objs s2)(p \<mapsto> ?obj\<lparr>io_buffer := b', io_criticalSection := 0\<rparr>)\<rparr>"
  have "IpcReceive handle anyone buffer (of_nat n) (Some out) s = ret (Some STATUS_SUCCESS, Some (of_nat ?k), s')"
    using call dst(1) nn find d(1,3) buf(2) rd(1) objs
    by (simp add: IpcReceive_def receive_rest_def EventWait_def EventWait_resume_def upd_ipc_def enter_section_def
        leave_section_def s'_def Let_def FAILED_def)
  moreover have "one_page s' (io_buffer (server_of s' p)) v f (r + ?k) w" using rd(2) by (simp add: s'_def one_page_def)
  moreover have "page_content s' f (r + ?k) w = drop ?k (page_content s f r w)"
    "map (\<lambda>i. pmem (lheap s') (loc i)) [0..<?k] = take ?k (page_content s f r w)" "io_criticalSection (server_of s' p) = 0"
    using rd(3,4) by (simp_all add: s'_def page_content_def)
  ultimately show ?thesis by (auto simp: Let_def)
qed

end
