(* ===== verification/Task_Properties.thy ===== *)
theory Task_Properties
  imports Task_Scheduler
begin

section \<open>Properties of the scheduler and of events\<close>

text \<open>
  The theorems on scheduling decisions, time slices and waiting. The witnesses use two threads
  of one process; the first one has the processor.
\<close>

subsection \<open>Two threads\<close>

definition idle_regs :: thread_regs where
  "idle_regs = \<lparr>eax = 0, ebx = 0, ecx = 0, edx = 0, ebp = 0, esp = 0x1000000, esi = 0, edi = 0, eip = 0x40000000,
     eflags = 0x200, cs = 0x1B, ss = 0x23, ds = 0x23, es = 0x23, fs = 0x23, gs = 0x23\<rparr>"

definition a_thread :: "u32 \<Rightarrow> ThreadState \<Rightarrow> ThreadPriorityLevel \<Rightarrow> Thread" where
  "a_thread n st p = \<lparr>tid = n, th_state = st, th_process = 0x5000, th_neighbor = nullptr, privilegeLevel = PVL_USER,
     threadPriority = p, ticsOnResume = 7, kstack_esp0 = 0x900FFC, kstack_ss0 = 0x10, regs = idle_regs\<rparr>"

definition a_process :: Process where
  "a_process = \<lparr>pid = 1, pname = [], pageDirectory = \<lparr>pdEntry = 0x800000, pagesList = nullptr\<rparr>, mainThread = 0x3000,
     childrenList = nullptr, defaultHeap = \<lparr>heap_base = 0, heap_limit = 0, heap_vad = nullptr\<rparr>, baseVad = nullptr\<rparr>"

definition empty_space :: vad_space where
  "empty_space = \<lparr>memBitmap = (\<lambda>_. 0), pmem = (\<lambda>_. 0), cr3 = 0x1000, paging = True, s_SavedPageDirectoryEntry = 0,
     baseBlock = 0, limitBlock = 0, lastBlock = 0, pblocks = Map.empty, availPageList = nullptr,
     usedPageList = nullptr, pool_base = 0, pool_limit = 0, vads = Map.empty\<rparr>"

definition two_tasks :: "ThreadPriorityLevel \<Rightarrow> tasks" where
  "two_tasks p = \<lparr>lheap = empty_space,
     lnodes = [0x100 \<mapsto> \<lparr>elem_prev = nullptr, elem_next = 0x200, elem_data = 0x3000\<rparr>,
       0x200 \<mapsto> \<lparr>elem_prev = 0x100, elem_next = nullptr, elem_data = 0x4000\<rparr>],
     threads = [0x3000 \<mapsto> a_thread 0 THREAD_STATE_RUNNING p, 0x4000 \<mapsto> a_thread 1 THREAD_STATE_PAUSED THREAD_PRIORITY_NORMAL],
     processes = [0x5000 \<mapsto> a_process], page_objs = Map.empty,
     raw_threads = (\<lambda>_. a_thread 0 THREAD_STATE_INIT THREAD_PRIORITY_NORMAL), raw_processes = (\<lambda>_. a_process),
     s_ThreadId = 2, s_ProcessId = 2, processList = nullptr, sched_running = True, threadsList = 0x100,
     currentThread = 0x3000, nbThreads = 2, tics = 7, secs = 0, tss_esp0 = 0x900FFC, tss_ss0 = 0x10\<rparr>"

definition an_interrupt :: InterruptFromUserlandContext where
  "an_interrupt = \<lparr>ic_gs = 0x23, ic_fs = 0x23, ic_es = 0x23, ic_ds = 0x23, ic_edi = 0, ic_esi = 0, ic_ebp = 0, ic_esp = 0,
     ic_ebx = 0, ic_edx = 0, ic_ecx = 0, ic_eax = 42, ic_eip = 0x40001000, ic_cs = 0x1B, ic_eflags = 0x202,
     ic_esp_i = 0x50000000, ic_ss = 0x23\<rparr>"

lemma two_tasks_inv: "sched_inv (two_tasks p) [0x3000, 0x4000]"
proof -
  have "list_rep (lnodes (two_tasks p)) (threadsList (two_tasks p)) [0x100, 0x200] [0x3000, 0x4000]"
    by (simp add: two_tasks_def list_rep_def node_data_def)
  then show ?thesis by (auto simp: sched_inv_def two_tasks_def a_thread_def)
qed

lemma two_tasks_next: "next_of [0x3000, 0x4000] (currentThread (two_tasks p)) = 0x4000"
  by (simp add: two_tasks_def next_of_def)

lemma two_tasks_eligible: "eligible (two_tasks p) 0x4000 \<longleftrightarrow> p = THREAD_PRIORITY_NORMAL"
  by (cases p) (simp_all add: eligible_def two_tasks_def a_thread_def RunnableThread_def less_eq_ThreadPriorityLevel_def)

lemma two_tasks_due: "switch_due ((two_tasks p)\<lparr>tics := 200\<rparr>) [0x3000, 0x4000]"
  by (simp add: switch_due_def Let_def two_tasks_def a_thread_def)

subsection \<open>Scheduling\<close>

text \<open>C12: \<^verbatim>\<open>Scheduler::Schedules\<close> returns to the interrupted thread exactly when its time is not up, it
  can go on, and no runnable thread has a higher priority. Otherwise it hands over to the next
  thread of the list, if this one may run: the registers of the interrupted thread are saved, and
  the processor goes on with the registers, the kernel stack and the page directory of the next.\<close>

theorem Schedules_round_robin:
  assumes "sched_inv s xs" and "switch_due s xs \<Longrightarrow> eligible s (next_of xs (currentThread s))"
  shows "Schedules (Some ctx) s =
    (if switch_due s xs
     then ret (Some (resumed_as (next_of xs (currentThread s)) s), switched ctx (next_of xs (currentThread s)) s)
     else ret (None, s))"
  using Schedules_cases [OF assms(1)] assms(2) by (simp add: Let_def)

theorem Schedules_round_robin_witness:
  "\<exists>r s'. Schedules (Some an_interrupt) ((two_tasks THREAD_PRIORITY_NORMAL)\<lparr>tics := 200\<rparr>) = ret (Some r, s') \<and>
     currentThread s' = 0x4000 \<and> eax (regs (thread_of s' 0x3000)) = 42 \<and> eip (res_regs r) = 0x40000000"
proof -
  let ?s = "(two_tasks THREAD_PRIORITY_NORMAL)\<lparr>tics := 200\<rparr>"
  have inv: "sched_inv ?s [0x3000, 0x4000]" using two_tasks_inv by simp
  have n: "next_of [0x3000, 0x4000] (currentThread ?s) = 0x4000" using two_tasks_next by simp
  have e: "eligible ?s 0x4000" using two_tasks_eligible by (simp add: eligible_def)
  have "Schedules (Some an_interrupt) ?s = ret (Some (resumed_as 0x4000 ?s), switched an_interrupt 0x4000 ?s)"
    using Schedules_round_robin [OF inv, of an_interrupt] n e two_tasks_due by simp
  moreover have "eax (regs (thread_of (switched an_interrupt 0x4000 ?s) 0x3000)) = 42"
    by (simp add: thread_of_switched two_tasks_def saved_regs_def an_interrupt_def Let_def)
  moreover have "eip (res_regs (resumed_as 0x4000 ?s)) = 0x40000000"
    by (simp add: resume_args_def Let_def two_tasks_def a_thread_def idle_regs_def)
  ultimately show ?thesis by simp
qed

text \<open>C14: When a switch is due and the next thread of the list must not run (it waits, is dead or
  has a lower priority), \<^verbatim>\<open>Scheduler::Schedules\<close> never returns: its loop asks for the successor of the
  current thread again and again, which is always the same thread. Other runnable threads further
  down the list do not help.\<close>

theorem Schedules_hangs:
  assumes "sched_inv s xs" "switch_due s xs" "\<not> eligible s (next_of xs (currentThread s))"
  shows "Schedules (Some ctx) s = diverge"
  using Schedules_cases [OF assms(1)] assms(2,3) by (simp add: Let_def)

theorem Schedules_hangs_witness:
  "Schedules (Some an_interrupt) ((two_tasks THREAD_PRIORITY_HIGH)\<lparr>tics := 200\<rparr>) = diverge"
proof (rule Schedules_hangs)
  show "sched_inv ((two_tasks THREAD_PRIORITY_HIGH)\<lparr>tics := 200\<rparr>) [0x3000, 0x4000]" using two_tasks_inv by simp
  show "switch_due ((two_tasks THREAD_PRIORITY_HIGH)\<lparr>tics := 200\<rparr>) [0x3000, 0x4000]" by (rule two_tasks_due)
  show "\<not> eligible ((two_tasks THREAD_PRIORITY_HIGH)\<lparr>tics := 200\<rparr>)
      (next_of [0x3000, 0x4000] (currentThread ((two_tasks THREAD_PRIORITY_HIGH)\<lparr>tics := 200\<rparr>)))"
    using two_tasks_eligible [of THREAD_PRIORITY_HIGH] two_tasks_next by (simp add: eligible_def)
qed



subsection \<open>Waiting\<close>

lemma sched_inv_waiting:
  assumes "sched_inv s xs"
  shows "sched_inv (s\<lparr>threads := (threads s)(currentThread s \<mapsto> (thread_of s (currentThread s))\<lparr>th_state := THREAD_STATE_WAITING\<rparr>)\<rparr>) xs"
  using assms unfolding sched_inv_def by auto

text \<open>C15: A thread that waits for an event is put to sleep by the switch away from it as if it were only
  paused: it is runnable again although the event has not been signaled, so the scheduler gives it
  the processor back and the wait ends without a signal.\<close>

theorem EventWait_is_not_waited_for:
  assumes inv: "sched_inv s xs" and e: "\<not> ev_signaled e" "ev_lock e = 0"
    and n: "eligible s (next_of xs (currentThread s))"
  shows "\<exists>e' s1 r s2. EventWait (Some e) s = ret (Some e', True, s1) \<and>
     th_state (thread_of s1 (currentThread s)) = THREAD_STATE_WAITING \<and> Schedules (Some ctx) s1 = ret (Some r, s2) \<and>
     RunnableThread (th_state (thread_of s2 (currentThread s))) \<and> \<not> ev_signaled e'"
proof -
  note i = sched_invD [OF inv]
  let ?c = "currentThread s" and ?n = "next_of xs (currentThread s)"
  let ?s1 = "s\<lparr>threads := (threads s)(?c \<mapsto> (thread_of s ?c)\<lparr>th_state := THREAD_STATE_WAITING\<rparr>)\<rparr>"
  have w: "EventWait (Some e) s = ret (Some (e\<lparr>ev_thread := ?c, ev_lock := 0\<rparr>), True, ?s1)"
    using e i(6) sched_thread [OF inv i(2)] by (simp add: EventWait_def GetCurrentThread_def upd_thread_def)
  have nc: "?n \<noteq> ?c" by (rule next_of_neq [OF i(1,2,8)])
  have due: "switch_due ?s1 xs" by (simp add: switch_due_def Let_def RunnableThread_def)
  have "eligible ?s1 (next_of xs (currentThread ?s1))" using n nc by (simp add: eligible_def)
  with due have sw: "Schedules (Some ctx) ?s1 = ret (Some (resumed_as ?n ?s1), switched ctx ?n ?s1)"
    using Schedules_cases [OF sched_inv_waiting [OF inv], of ctx] by (simp add: Let_def)
  have st: "th_state (thread_of (switched ctx ?n ?s1) ?c) = THREAD_STATE_PAUSED"
    using nc by (simp add: thread_of_switched)
  have "RunnableThread (th_state (thread_of (switched ctx ?n ?s1) ?c))" unfolding st by (simp add: RunnableThread_def)
  moreover have "th_state (thread_of ?s1 ?c) = THREAD_STATE_WAITING" by simp
  ultimately show ?thesis using w sw e(1) by (intro exI conjI) (assumption | simp)+
qed

theorem EventWait_is_not_waited_for_witness:
  "\<exists>e' s1 r s2. EventWait (Some EventCreate) (two_tasks THREAD_PRIORITY_NORMAL) = ret (Some e', True, s1) \<and>
     Schedules (Some an_interrupt) s1 = ret (Some r, s2) \<and> RunnableThread (th_state (thread_of s2 0x3000)) \<and> \<not> ev_signaled e'"
proof -
  have "\<not> ev_signaled EventCreate" "ev_lock EventCreate = 0" by (simp_all add: EventCreate_def)
  moreover have "eligible (two_tasks THREAD_PRIORITY_NORMAL) (next_of [0x3000, 0x4000] (currentThread (two_tasks THREAD_PRIORITY_NORMAL)))"
    using two_tasks_eligible two_tasks_next by simp
  moreover have "currentThread (two_tasks THREAD_PRIORITY_NORMAL) = 0x3000" by (simp add: two_tasks_def)
  ultimately show ?thesis
    using EventWait_is_not_waited_for [OF two_tasks_inv, of EventCreate THREAD_PRIORITY_NORMAL an_interrupt] by metis
qed

text \<open>\<^verbatim>\<open>EventSignal\<close> makes the waiting thread runnable and is remembered until it is consumed: the
  next \<^verbatim>\<open>EventWait\<close> on the event returns at once, and the one after it waits.\<close>

theorem EventSignal_then_EventWait:
  assumes "ev_lock e = 0" and "ev_thread e = nullptr \<or> ev_thread e \<in> dom (threads s)"
  shows "\<exists>e1 e2 s1. EventSignal (Some e) s = ret (Some e1, s1) \<and> EventWait (Some e1) s1 = ret (Some e2, False, s1) \<and>
    \<not> ev_signaled e2 \<and> ev_lock e2 = 0 \<and>
    threads s1 = (if ev_thread e = nullptr then threads s
      else (threads s)(ev_thread e \<mapsto> (thread_of s (ev_thread e))\<lparr>th_state := THREAD_STATE_RUNNING\<rparr>))"
  using assms by (auto simp: EventSignal_def EventWait_def EventWait_resume_def upd_thread_def)

theorem EventSignal_then_EventWait_witness:
  "\<exists>e1 e2 s1. EventSignal (Some \<lparr>ev_signaled = False, ev_thread = 0x4000, ev_lock = 0\<rparr>) (two_tasks THREAD_PRIORITY_NORMAL) =
     ret (Some e1, s1) \<and> EventWait (Some e1) s1 = ret (Some e2, False, s1) \<and> th_state (thread_of s1 0x4000) = THREAD_STATE_RUNNING"
proof -
  let ?e = "\<lparr>ev_signaled = False, ev_thread = 0x4000, ev_lock = 0\<rparr>"
  have "ev_lock ?e = 0" "ev_thread ?e = nullptr \<or> ev_thread ?e \<in> dom (threads (two_tasks THREAD_PRIORITY_NORMAL))"
    by (simp_all add: two_tasks_def)
  from EventSignal_then_EventWait [OF this] show ?thesis by fastforce
qed

end
