(* ===== verification/Ipc_Properties.thy ===== *)
theory Ipc_Properties
  imports Ipc_Handler Task_Properties
begin

section \<open>Properties of the message buffers and the IPC handler\<close>

text \<open>
  The theorems on what a message buffer delivers and on the two IPC calls that move bytes, for a
  buffer of one page. The witnesses use a machine with a page directory and one page table that
  map five pages: the first one, the buffer's, the sender's and the receiver's.
\<close>

subsection \<open>A machine with one server\<close>

definition ipc_memory :: "addr \<Rightarrow> u8" where
  "ipc_memory = (\<lambda>_. 0)(0x1000 := 3, 0x1001 := 0x20, 0x2000 := 3, 0x2001 := 0x30, 0x2010 := 3, 0x2011 := 0x40,
     0x2014 := 3, 0x2015 := 0x50, 0x2018 := 3, 0x2019 := 0x60, 0x5000 := 104, 0x5001 := 105)"

definition a_buffer :: IpcBuffer where
  "a_buffer = \<lparr>ReadyToReadEvent = \<lparr>ev_signaled = False, ev_thread = 0x4000, ev_lock = 0\<rparr>, currentPageWrite = 0x700,
     currentPageRead = nullptr, currentPageWritePtr = 0x4000, currentPageReadPtr = nullptr, currentWriteLimit = 0x5000,
     currentReadLimit = nullptr, buf_pagesList = 0x300\<rparr>"

definition a_server :: IpcObject where
  "a_server = \<lparr>io_id = 0x600, io_handle = 1, io_serverProcess = 0x5000, io_buffer = a_buffer, io_criticalSection = 0\<rparr>"

definition one_server :: ipc where
  "one_server = tasks.extend
     ((two_tasks THREAD_PRIORITY_NORMAL)\<lparr>lheap := empty_space\<lparr>pmem := ipc_memory\<rparr>,
        lnodes := [0x300 \<mapsto> \<lparr>elem_prev = nullptr, elem_next = nullptr, elem_data = 0x700\<rparr>,
          0x400 \<mapsto> \<lparr>elem_prev = nullptr, elem_next = nullptr, elem_data = 0x500\<rparr>],
        page_objs := [0x700 \<mapsto> \<lparr>pAddr = 0x4000, vAddr = 0x4000\<rparr>]\<rparr>)
     \<lparr>ipc_objs = [0x500 \<mapsto> a_server], raw_ipc = (\<lambda>_. a_server), ipcObjects = 0x400, s_IpcObjectHandleCount = 1\<rparr>"

lemma one_server_sel:
  "pmem (lheap one_server) = ipc_memory" "paging (lheap one_server)" "cr3 (lheap one_server) = 0x1000"
  "ipc_objs one_server = [0x500 \<mapsto> a_server]" "ipcObjects one_server = 0x400"
  "lnodes one_server = [0x300 \<mapsto> \<lparr>elem_prev = nullptr, elem_next = nullptr, elem_data = 0x700\<rparr>,
     0x400 \<mapsto> \<lparr>elem_prev = nullptr, elem_next = nullptr, elem_data = 0x500\<rparr>]"
  "page_objs one_server = [0x700 \<mapsto> \<lparr>pAddr = 0x4000, vAddr = 0x4000\<rparr>]"
  "threads one_server 0x4000 = Some (a_thread 1 THREAD_STATE_PAUSED THREAD_PRIORITY_NORMAL)"
  by (simp_all add: one_server_def tasks.defs two_tasks_def empty_space_def)

lemma ipc_memory_zero: "ipc_memory p = 0" if "4098 \<le> unat p" "unat p < 8192" for p
proof -
  have "p \<notin> {0x1000, 0x1001, 0x2000, 0x2001, 0x2010, 0x2011, 0x2014, 0x2015, 0x2018, 0x2019, 0x5000, 0x5001}"
    using that by auto
  then show ?thesis by (simp add: ipc_memory_def)
qed

lemma one_server_entry: "entry (lheap one_server) 1 d = (if d = 0 then 0x2003 else 0)" if "d < 1024" for d
proof (cases "d = 0")
  case True
  then show ?thesis by (simp add: entry_def phys_def one_server_sel read32_def ipc_memory_def)
next
  case False
  have z: "ipc_memory (phys 1 (4 * d + k)) = 0" if "k < 4" for k
    using that False \<open>d < 1024\<close> by (intro ipc_memory_zero) (simp_all add: unat_phys)
  show ?thesis using False z [of 0] z [of 1] z [of 2] z [of 3]
    by (simp add: entry_def one_server_sel read32_def phys_add_123)
qed

lemma one_server_tables: "table_frames (lheap one_server) = {1, 2}"
proof -
  have pd: "pd_frame (lheap one_server) = 1" by (simp add: one_server_sel frame_of_def)
  have "{frame_of (entry (lheap one_server) 1 d) | d. d < 1024 \<and> FlagOn (entry (lheap one_server) 1 d) PAGE_PRESENT} = {2}"
    using one_server_entry by (auto simp: FlagOn_def frame_of_def split: if_splits intro!: exI [of _ 0])
  then show ?thesis by (simp add: table_frames_def pd)
qed

lemma one_server_mmu:
  "mmu (lheap one_server) 0 = Some 0x3000" "mmu (lheap one_server) 0x4000 = Some 0x4000"
  "mmu (lheap one_server) 0x5000 = Some 0x5000" "mmu (lheap one_server) 0x5001 = Some 0x5001"
  "mmu (lheap one_server) 0x6000 = Some 0x6000" "mmu (lheap one_server) 0x6001 = Some 0x6001"
  by (simp_all add: mmu_def one_server_sel Let_def read32_def ipc_memory_def FlagOn_def)



lemma one_server_servers: "servers one_server [0x500]"
  by (auto simp: servers_def one_server_sel list_rep_def node_data_def intro!: exI [of _ "[0x400]"])

text \<open>The same machine when two bytes are in the buffer and the event is signaled.\<close>

definition filled_buffer :: IpcBuffer where
  "filled_buffer = a_buffer\<lparr>ReadyToReadEvent := \<lparr>ev_signaled = True, ev_thread = 0x4000, ev_lock = 0\<rparr>, currentPageWritePtr := 0x4002\<rparr>"

definition two_bytes_sent :: ipc where
  "two_bytes_sent = one_server\<lparr>lheap := (lheap one_server)\<lparr>pmem := ipc_memory(0x4000 := 104, 0x4001 := 105)\<rparr>,
     ipc_objs := [0x500 \<mapsto> a_server\<lparr>io_buffer := filled_buffer\<rparr>]\<rparr>"

lemma two_bytes_sent_heap:
  "lheap two_bytes_sent = (lheap one_server)\<lparr>pmem := (pmem (lheap one_server))(0x4000 := 104)\<rparr>
     \<lparr>pmem := (pmem ((lheap one_server)\<lparr>pmem := (pmem (lheap one_server))(0x4000 := 104)\<rparr>))(0x4001 := 105)\<rparr>"
  by (simp add: two_bytes_sent_def one_server_sel)

lemma two_bytes_sent_mmu: "mmu (lheap two_bytes_sent) = mmu (lheap one_server)"
  and two_bytes_sent_tables: "table_frames (lheap two_bytes_sent) = {1, 2}"
proof -
  let ?h = "(lheap one_server)\<lparr>pmem := (pmem (lheap one_server))(0x4000 := 104)\<rparr>"
  have 1: "table_frames ?h = {1, 2}" "mmu ?h = mmu (lheap one_server)"
    using data_write [of "0x4000" "lheap one_server"] by (auto simp: one_server_tables frame_of_def)
  show "mmu (lheap two_bytes_sent) = mmu (lheap one_server)" "table_frames (lheap two_bytes_sent) = {1, 2}"
    unfolding two_bytes_sent_heap using data_write [of "0x4001" ?h] 1 by (auto simp: frame_of_def)
qed

lemma two_bytes_sent_servers: "servers two_bytes_sent [0x500]"
  using one_server_servers by (auto simp: servers_def two_bytes_sent_def one_server_sel)

lemma two_bytes_sent_buffer: "one_page two_bytes_sent filled_buffer 4 4 0 2"
proof -
  have "lnodes two_bytes_sent = lnodes one_server" "page_objs two_bytes_sent = page_objs one_server"
    by (simp_all add: two_bytes_sent_def)
  then show ?thesis using one_server_mmu(2)
    by (auto simp: one_page_def two_bytes_sent_mmu two_bytes_sent_tables filled_buffer_def a_buffer_def phys_def
        list_rep_def node_data_def one_server_sel intro!: exI [of _ "[0x300]"])
qed

lemma two_bytes_sent_bytes: "pmem (lheap two_bytes_sent) (phys 4 0) = 104" "pmem (lheap two_bytes_sent) (phys 4 (Suc 0)) = 105"
  by (simp_all add: two_bytes_sent_def phys_def)

lemma upto_two: "[0..<2] = [0, Suc 0]" "[0..<Suc (Suc 0)] = [0, Suc 0]" "[Suc 0..<2] = [Suc 0]"
  by (simp_all add: upt_rec)

subsection \<open>What a buffer delivers\<close>




subsection \<open>The IPC calls\<close>



text \<open>C20: \<^verbatim>\<open>Receive\<close> hands the oldest bytes of a server's buffer to any process that knows the handle: that
  the caller is not the server is noted and forgotten, the call succeeds and the bytes are gone for
  the server.\<close>

theorem Receive_by_anyone:
  assumes "servers s xs" "List.find (\<lambda>x. io_handle (server_of s x) = handle) xs = Some p"
    and "handle \<noteq> 0" "anyone \<noteq> nullptr" "0 < n" "n < 4294967296" "io_criticalSection (server_of s p) = 0"
    and "one_page s (io_buffer (server_of s p)) v f r w" "ReadyToReadEvent (io_buffer (server_of s p)) = \<lparr>ev_signaled = True, ev_thread = t, ev_lock = 0\<rparr>"
    and "buffer \<noteq> nullptr" "mapped_bytes (lheap s) (insert f (table_frames (lheap s))) buffer n loc" "inj_on loc {..<n}"
  shows "\<exists>s'. let k = min n (w - r) in
    IpcReceive handle anyone buffer (of_nat n) (Some out) s = ret (Some STATUS_SUCCESS, Some (of_nat k), s') \<and>
    map (\<lambda>i. pmem (lheap s') (loc i)) [0..<k] = take k (page_content s f r w) \<and>
    one_page s' (io_buffer (server_of s' p)) v f (r + k) w \<and>
    page_content s' f (r + k) w = drop k (page_content s f r w) \<and> io_criticalSection (server_of s' p) = 0"
  by (rule Receive_ok [OF assms])

theorem Receive_by_anyone_witness:
  "\<exists>s'. IpcReceive 1 0x8000 0x6000 2 (Some 0) two_bytes_sent = ret (Some STATUS_SUCCESS, Some 2, s') \<and>
     pmem (lheap s') 0x6000 = 104 \<and> pmem (lheap s') 0x6001 = 105 \<and> page_content s' 4 2 2 = []"
proof -
  have srv: "List.find (\<lambda>x. io_handle (server_of two_bytes_sent x) = 1) [0x500] = Some (0x500 :: addr)"
    "io_serverProcess (server_of two_bytes_sent 0x500) = 0x5000" "io_buffer (server_of two_bytes_sent 0x500) = filled_buffer"
    "io_criticalSection (server_of two_bytes_sent 0x500) = 0"
    by (simp_all add: two_bytes_sent_def one_server_sel a_server_def)
  have i: "inj_on (\<lambda>i. 0x6000 + of_nat i :: addr) {..<2}" by (auto simp: inj_on_def less_2_cases_iff)
  have dst: "mapped_bytes (lheap two_bytes_sent) (insert 4 (table_frames (lheap two_bytes_sent))) 0x6000 2 (\<lambda>i. 0x6000 + of_nat i)"
    using two_bytes_sent_mmu one_server_mmu two_bytes_sent_tables by (auto simp: mapped_bytes_def frame_of_def less_2_cases_iff)
  show ?thesis
    using Receive_by_anyone [OF two_bytes_sent_servers srv(1) _ _ _ _ srv(4) _ _ _ dst i, where anyone = "0x8000" and v = 4 and r = 0 and w = 2 and t = "0x4000" and out = 0]
      srv(3) two_bytes_sent_buffer
    by (auto simp: page_content_def upto_two two_bytes_sent_bytes Let_def filled_buffer_def)
qed

end
