(* ===== verification/Kernel_Boot.thy ===== *)
theory Kernel_Boot
  imports Page_Pool Descriptors
begin

section \<open>Bringing the memory managers up\<close>

text \<open>
  The boot sequence of \<^verbatim>\<open>kmain.cpp\<close> and \<^verbatim>\<open>Kernel.cpp\<close> as far as memory goes: the
  descriptor tables, the multiboot check, then physical memory, paging, heap and page pool, in
  that order. The drivers initialised in between only talk to their ports.
\<close>

abbreviation MULTIBOOT_HEADER_MAGIC :: u32 where
  "MULTIBOOT_HEADER_MAGIC \<equiv> 0x2BADB002"

abbreviation MEM_INFO :: u32 where "MEM_INFO \<equiv> 1"
abbreviation MODS_INFO :: u32 where "MODS_INFO \<equiv> 8"

record MultibootPartialInfo =
  mbi_flags :: u32
  low_mem :: u32
  high_mem :: u32
  mods_count :: u32
  mods_addr :: addr

definition CheckMultibootPartialInfo :: "MultibootPartialInfo \<Rightarrow> u32 \<Rightarrow> unit exec" where
  "CheckMultibootPartialInfo mbi magic =
     (if magic \<noteq> MULTIBOOT_HEADER_MAGIC then halt Panicked
      else if FlagOn (mbi_flags mbi) MEM_INFO then ret ()
      else halt Panicked)"

definition boot_memory ::
  "addr \<Rightarrow> (isr_name \<Rightarrow> u32) \<Rightarrow> MultibootPartialInfo \<Rightarrow> u32 \<Rightarrow> 'z pool_scheme \<Rightarrow> 'z pool_scheme exec" where
  "boot_memory gTss isr mbi magic s =
     (let s1 = s\<lparr>pmem := snd (Gdt_Init gTss (pmem s))\<rparr> in
      andThen (CheckMultibootPartialInfo mbi magic) (\<lambda>_.
      let s2 = s1\<lparr>pmem := snd (Idt_Init isr (pmem s1))\<rparr>;
          s3 = Pmm_Init (high_mem mbi) KERNEL_LIMIT_P_ADDR s2 in
      andThen (Vmm_Init s3) (\<lambda>s4.
      andThen (Heap_Init s4) (\<lambda>s5.
        PagePool_Init s5))))"

text \<open>The pages of RAM the multiboot information announces, in whole bytes of the bitmap.\<close>

definition ram_pages :: "u32 \<Rightarrow> nat" where
  "ram_pages hm = unat ((hm * 1024) div PAGE_SIZE) div 8 * 8"

lemma free_frames_Init:
  "free_frames (Pmm_Init hm KERNEL_LIMIT_P_ADDR s) = ram_pages hm - 2048"
proof -
  have lim: "unat KERNEL_LIMIT_P_ADDR div 4096 = 2048" by simp
  have le: "ram_pages hm \<le> RAM_MAXPAGE"
  proof -
    have "unat ((hm * 1024) div PAGE_SIZE) < RAM_MAXPAGE"
      using unat_lt_2p32 [of "hm * 1024"] by (simp only: unat_div) (simp add: less_mult_imp_div_less)
    moreover have "n div 8 * 8 \<le> n" for n :: nat by simp
    ultimately show ?thesis unfolding ram_pages_def by (meson less_imp_le order.trans)
  qed
  have "{..<RAM_MAXPAGE} - used_pages (Pmm_Init hm KERNEL_LIMIT_P_ADDR s) = {2048..<ram_pages hm}"
    unfolding used_pages_Init lim ram_pages_def [symmetric] using le by auto
  then show ?thesis unfolding free_frames_def by simp
qed

text \<open>The address space \<^verbatim>\<open>Vmm::Init\<close> leaves behind is the one the heap starts from.\<close>

lemma Vmm_Init_heap_map:
  assumes "\<not> paging s" "{..<2048} \<subseteq> used_pages s" "read32 (pmem s) 0 = 0"
  obtains s' where "Vmm_Init s = ret s'" "heap_map 4096 s'" "memBitmap s' = memBitmap s"
    "s' = s\<lparr>pmem := pmem s', cr3 := KERNEL_PAGE_DIR_P_ADDR, paging := True\<rparr>"
proof -
  obtain s' where s': "Vmm_Init s = ret s'" "kernel_space s'" "pd_frame s' = 1" "memBitmap s' = memBitmap s"
    "s' = s\<lparr>pmem := pmem s', cr3 := KERNEL_PAGE_DIR_P_ADDR, paging := True\<rparr>"
    "\<And>v. v < V_USER_BASE_ADDR \<Longrightarrow> mmu s' v = Some
       (if tab v = 1023 then phys (1024 + dir v) (off v) else if dir v < 2 then v else phys 0 (off v))"
    "\<And>g i. g \<noteq> 1 \<Longrightarrow> \<not> (1024 \<le> g \<and> g < 1280) \<Longrightarrow> g < 1048576 \<Longrightarrow> i < 4096 \<Longrightarrow>
       pmem s' (phys g i) = pmem s (phys g i)"
    using Vmm_Init_ok [OF assms(1)] by blast
  have u: "used_pages s' = used_pages s" using s'(4) by (simp add: used_pages_def)
  have z: "read32 (pmem s') 0 = 0"
  proof -
    have "pmem s' (of_nat i) = pmem s (of_nat i)" if "i < 4096" for i
      using s'(7) [of 0 i] that by (simp add: phys_def)
    from this [of 0] this [of 1] this [of 2] this [of 3] show ?thesis using assms(3) by (simp add: read32_def)
  qed
  have free: "mmu s' (phys q 0) = Some (phys 0 0)" if "4096 \<le> q" "q < 262144" "q mod 1024 \<noteq> 1023" for q
  proof -
    have q: "q < 1048576" using that by simp
    have "phys q 0 < V_USER_BASE_ADDR" using that by (simp add: kernel_addr_dir less_mult_imp_div_less)
    moreover have "\<not> q div 1024 < 2" using that(1) by linarith
    ultimately show ?thesis using s'(6) [of "phys q 0"] that(3) q by simp
  qed
  have "heap_map 4096 s'"
    unfolding heap_map_def using s'(2,3) assms(2) u z free by auto
  from that [OF s'(1) this s'(4,5)] show ?thesis .
qed

lemma n_pages_pool: "n_pages 32772 = 9"
  by (simp add: n_pages_def)

text \<open>
  With at least eleven frames of RAM above the kernel, the boot sequence returns: the heap
  holds one free block besides the page descriptors, and all 2048 pages of the pool are available.
\<close>

lemma boot_memory_ok:
  assumes s: "\<not> paging s" "usedPageList s = nullptr"
    and mbi: "FlagOn (mbi_flags mbi) MEM_INFO" "2058 \<le> ram_pages (high_mem mbi)"
  shows "\<exists>s' as. boot_memory gTss isr mbi MULTIBOOT_HEADER_MAGIC s = ret s' \<and>
    heap_inv s' [(4096, False), (32772, True), (4092, False)] \<and> last_page s' = 4106 \<and>
    pool_inv s' as [] \<and> length as = 2048 \<and> free_frames s' = ram_pages (high_mem mbi) - 2058"
proof -
  define m2 where "m2 = snd (Idt_Init isr (snd (Gdt_Init gTss (pmem s))))"
  define s3 where "s3 = Pmm_Init (high_mem mbi) KERNEL_LIMIT_P_ADDR (s\<lparr>pmem := m2\<rparr>)"
  have s3: "\<not> paging s3" "pmem s3 = m2" "usedPageList s3 = nullptr" using s by (simp_all add: s3_def Pmm_Init_def Let_def)
  have "{..<2048} \<subseteq> used_pages s3" by (auto simp: s3_def used_pages_Init)
  moreover have "read32 (pmem s3) 0 = 0" using null_descriptor s3(2) by (simp add: m2_def)
  ultimately obtain s4 where s4: "Vmm_Init s3 = ret s4" "heap_map 4096 s4" "memBitmap s4 = memBitmap s3"
      "s4 = s3\<lparr>pmem := pmem s4, cr3 := KERNEL_PAGE_DIR_P_ADDR, paging := True\<rparr>"
    using Vmm_Init_heap_map [OF s3(1)] by blast
  have f4: "free_frames s4 = ram_pages (high_mem mbi) - 2048"
    using s4(3) by (simp add: free_frames_Init [symmetric, of _ "s\<lparr>pmem := m2\<rparr>"] s3_def [symmetric] free_frames_def used_pages_def)
  obtain s5 where s5: "Heap_Init s4 = ret s5" "heap_inv s5 [(4096, False)]" "last_page s5 = 4097"
      "free_frames s5 = free_frames s4 - 1" "kheap.more s5 = kheap.more s4"
    using Heap_Init_ok [OF s4(2)] f4 mbi(2) by auto
  have "usedPageList s4 = nullptr" using s3(3) by (subst s4(4)) simp
  then have u5: "usedPageList s5 = nullptr" using s5(5) by (cases s5, cases s4) simp
  have nf: "\<not> some_fits 32772 [(4096, False)]" by (simp add: some_fits_def fits_def)
  have room: "n_pages 32772 \<le> free_frames s5" using s5(4) f4 mbi(2) by (simp add: n_pages_pool)
  obtain s' as where s': "PagePool_Init s5 = ret s'" "pool_inv s' as []" "length as = 2048"
      "heap_inv s' (alloc_list 32772 [(4096, False)])" "last_page s' = last_page s5 + 9" "free_frames s' = free_frames s5 - 9"
    using PagePool_Init_ok [OF s5(2) u5] nf s5(3) room by (auto simp: n_pages_pool)
  have "alloc_list 32772 [(4096, False)] = [(4096, False), (32772, True), (4092, False)]"
    by (simp add: alloc_list_def fits_def place_def n_pages_pool)
  moreover have "boot_memory gTss isr mbi MULTIBOOT_HEADER_MAGIC s = ret s'"
    using mbi(1) s4(1) s5(1) s'(1)
    by (simp add: boot_memory_def CheckMultibootPartialInfo_def Let_def m2_def [symmetric] s3_def [symmetric])
  ultimately show ?thesis using s' s5(3,4) f4 by auto
qed

text \<open>Without the loader's magic number or the memory information the kernel stops.\<close>

lemma boot_memory_panics:
  "magic \<noteq> MULTIBOOT_HEADER_MAGIC \<or> \<not> FlagOn (mbi_flags mbi) MEM_INFO \<Longrightarrow>
   boot_memory gTss isr mbi magic s = halt Panicked"
  by (auto simp: boot_memory_def CheckMultibootPartialInfo_def Let_def)

end
