(* ===== verification/Processes.thy ===== *)
theory Processes
  imports Ipc_Buffers Kernel_Boot
begin

section \<open>Processes and modules\<close>

text \<open>
  \<^verbatim>\<open>kernel/arch/x86/Process.cpp\<close>, \<^verbatim>\<open>kernel/task/ProcessManager.cpp\<close>, the default stack of
  \<^verbatim>\<open>Thread.cpp\<close>, the modules of \<^verbatim>\<open>kernel/module\<close> and the end of \<^verbatim>\<open>Kernel.cpp\<close>, on the stores
  of \<open>tasks\<close>. A copy between address spaces switches the page directory and goes through the MMU
  byte by byte, as the code does.
\<close>

subsection \<open>Memory of a process\<close>

abbreviation V_PROCESS_BASE_ADDR :: u32 where "V_PROCESS_BASE_ADDR \<equiv> 0x40000000"
abbreviation V_PROCESS_LIMIT_ADDR :: u32 where "V_PROCESS_LIMIT_ADDR \<equiv> 0xFFFFFFFF"
abbreviation DEFAULT_HEAP_SIZE :: u32 where "DEFAULT_HEAP_SIZE \<equiv> 0x1000 * 0x4"
abbreviation USER_STACK_DEFAULT_SIZE :: u32 where "USER_STACK_DEFAULT_SIZE \<equiv> PAGE_SIZE"
abbreviation sizeof_Process :: int where "sizeof_Process \<equiv> 548"

definition upd_process :: "addr \<Rightarrow> (Process \<Rightarrow> Process) \<Rightarrow> 'z tasks_scheme \<Rightarrow> 'z tasks_scheme exec" where
  "upd_process p f s = andThen (deref (processes s) p) (\<lambda>x. ret (s\<lparr>processes := (processes s)(p \<mapsto> f x)\<rparr>))"

text \<open>\<^verbatim>\<open>MemCopy\<close> on virtual addresses, and its result when the destination is a kernel object.\<close>

fun vMemCopy :: "addr \<Rightarrow> addr \<Rightarrow> nat \<Rightarrow> 'z machine_scheme \<Rightarrow> 'z machine_scheme exec" where
  "vMemCopy src dst 0 h = ret h"
| "vMemCopy src dst (Suc n) h = andThen (vread8 h src) (\<lambda>c. andThen (vwrite8 dst c h) (vMemCopy (src + 1) (dst + 1) n))"

fun vread_bytes :: "addr \<Rightarrow> nat \<Rightarrow> 'z machine_scheme \<Rightarrow> u8 list exec" where
  "vread_bytes src 0 h = ret []"
| "vread_bytes src (Suc n) h = andThen (vread8 h src) (\<lambda>c. andThen (vread_bytes (src + 1) n h) (\<lambda>rest. ret (c # rest)))"

definition MemoryCopy :: "addr \<Rightarrow> addr \<Rightarrow> addr \<Rightarrow> u32 \<Rightarrow> 'z tasks_scheme \<Rightarrow> 'z tasks_scheme exec" where
  "MemoryCopy this sourceAddress destAddress sz s =
     (let currentPd = GetCurrentPageDirectory (lheap s) in
      if sourceAddress = nullptr then ret s
      else if destAddress = nullptr then ret s
      else andThen (deref (processes s) this) (\<lambda>p.
        andThen (vMemCopy sourceAddress destAddress (unat sz)
            (SetCurrentPageDirectory (pdEntry (pageDirectory p)) (lheap s))) (\<lambda>h.
          ret (s\<lparr>lheap := SetCurrentPageDirectory currentPd h\<rparr>))))"

definition MemorySetAndCopy :: "addr \<Rightarrow> addr \<Rightarrow> addr \<Rightarrow> u32 \<Rightarrow> u8 \<Rightarrow> 'z tasks_scheme \<Rightarrow> 'z tasks_scheme exec" where
  "MemorySetAndCopy this sourceAddress destAddress sz byte s =
     (let currentPd = GetCurrentPageDirectory (lheap s) in
      if sourceAddress = nullptr then ret s
      else if destAddress = nullptr then ret s
      else andThen (deref (processes s) this) (\<lambda>p.
        andThen (vMemSet destAddress byte (unat sz)
            (SetCurrentPageDirectory (pdEntry (pageDirectory p)) (lheap s))) (\<lambda>h1.
        andThen (vMemCopy sourceAddress destAddress (unat sz) h1) (\<lambda>h2.
          ret (s\<lparr>lheap := SetCurrentPageDirectory currentPd h2\<rparr>)))))"

definition Process_AllocateMemory ::
  "addr \<Rightarrow> u32 \<Rightarrow> bool \<Rightarrow> addr option \<Rightarrow> 'z tasks_scheme \<Rightarrow> (KeStatus \<times> addr option \<times> 'z tasks_scheme) exec" where
  "Process_AllocateMemory this sz reservePhysicalPages outAddress s =
     (if sz = 0 then ret (STATUS_INVALID_PARAMETER, outAddress, s)
      else if outAddress = None then ret (STATUS_NULL_PARAMETER, outAddress, s)
      else andThen (deref (processes s) this) (\<lambda>p.
        andThen (Vad_Allocate (baseVad p) sz (Some (pdEntry (pageDirectory p))) reservePhysicalPages (Some nullptr) (lheap s))
          (\<lambda>(status, newVad, h).
            if FAILED status then ret (status, outAddress, s\<lparr>lheap := h\<rparr>)
            else andThen (deref (vads h) (the newVad)) (\<lambda>v.
              ret (STATUS_SUCCESS, Some (vad_base v), s\<lparr>lheap := h\<rparr>)))))"

definition AllocateMemoryAtAddress ::
  "addr \<Rightarrow> addr \<Rightarrow> bool \<Rightarrow> u32 \<Rightarrow> 'z tasks_scheme \<Rightarrow> (KeStatus \<times> 'z tasks_scheme) exec" where
  "AllocateMemoryAtAddress this address reservePhysicalPages sz s =
     (if address = nullptr then ret (STATUS_NULL_PARAMETER, s)
      else if sz = 0 then ret (STATUS_INVALID_PARAMETER, s)
      else andThen (deref (processes s) this) (\<lambda>p.
        andThen (AllocateAtAddress (baseVad p) address sz (Some (pdEntry (pageDirectory p))) reservePhysicalPages
            (Some nullptr) (lheap s)) (\<lambda>(status, newVad, h).
          if FAILED status then ret (status, s\<lparr>lheap := h\<rparr>) else ret (STATUS_SUCCESS, s\<lparr>lheap := h\<rparr>))))"

text \<open>The addition and the product of \<^verbatim>\<open>IncreaseHeap\<close> wrap around at 32 bits.\<close>

definition IncreaseHeap ::
  "addr \<Rightarrow> u32 \<Rightarrow> addr option \<Rightarrow> 'z tasks_scheme \<Rightarrow> (KeStatus \<times> addr option \<times> 'z tasks_scheme) exec" where
  "IncreaseHeap this nbPages allocatedBlockAddr s = andThen (deref (processes s) this) (\<lambda>p.
     let newBlockAddress = heap_limit (defaultHeap p) in
     if nbPages = 0 then ret (STATUS_INVALID_PARAMETER, allocatedBlockAddr, s)
     else if allocatedBlockAddr = None then ret (STATUS_NULL_PARAMETER, allocatedBlockAddr, s)
     else andThen (deref (vads (lheap s)) (heap_vad (defaultHeap p))) (\<lambda>v.
       if heap_limit (defaultHeap p) + nbPages * PAGE_SIZE > vad_limit v
       then ret (STATUS_PROCESS_HEAP_LIMIT_REACHED, allocatedBlockAddr, s)
       else andThen (upd_process this (\<lambda>q. q\<lparr>defaultHeap := (defaultHeap q)\<lparr>heap_limit :=
           heap_limit (defaultHeap q) + nbPages * PAGE_SIZE\<rparr>\<rparr>) s) (\<lambda>s1.
         ret (STATUS_SUCCESS, Some newBlockAddress, s1))))"

definition CreateDefaultStack :: "addr \<Rightarrow> 'z tasks_scheme \<Rightarrow> (KeStatus \<times> 'z tasks_scheme) exec" where
  "CreateDefaultStack this s = andThen (deref (threads s) this) (\<lambda>t.
     andThen (Process_AllocateMemory (th_process t) USER_STACK_DEFAULT_SIZE True (Some 0) s) (\<lambda>(status, vUserStack, s1).
       if FAILED status then ret (status, s1)
       else andThen (upd_thread this (\<lambda>t. t\<lparr>regs := (regs t)\<lparr>esp := (the vUserStack + USER_STACK_DEFAULT_SIZE) - 4\<rparr>\<rparr>) s1)
         (\<lambda>s2. ret (STATUS_SUCCESS, s2))))"

text \<open>The status of \<^verbatim>\<open>CreateDefaultStack\<close> is not used: the code tests the earlier one again.\<close>

definition CreateDefaultHeapAndStack :: "addr \<Rightarrow> 'z tasks_scheme \<Rightarrow> (KeStatus \<times> 'z tasks_scheme) exec" where
  "CreateDefaultHeapAndStack this s = andThen (deref (processes s) this) (\<lambda>p.
     andThen (Vad_Allocate (baseVad p) DEFAULT_HEAP_SIZE (Some (pdEntry (pageDirectory p))) False (Some nullptr) (lheap s))
       (\<lambda>(status, heapVad, h).
         if FAILED status then ret (status, s\<lparr>lheap := h\<rparr>)
         else andThen (deref (vads h) (the heapVad)) (\<lambda>v.
           andThen (upd_process this (\<lambda>q. q\<lparr>defaultHeap :=
               \<lparr>heap_base = vad_base v, heap_limit = vad_base v, heap_vad = the heapVad\<rparr>\<rparr>) (s\<lparr>lheap := h\<rparr>)) (\<lambda>s1.
           andThen (CreateDefaultStack (mainThread p) s1) (\<lambda>(_, s2).
             if FAILED status then ret (status, s2) else ret (STATUS_SUCCESS, s2))))))"

text \<open>
  \<^verbatim>\<open>ResolvePageFault\<close>. When no physical page is left \<^verbatim>\<open>GetFreePage\<close> returns -1, so the test for
  null does not see it.
\<close>

definition ResolvePageFault :: "addr \<Rightarrow> addr \<Rightarrow> 'z tasks_scheme \<Rightarrow> (KeStatus \<times> 'z tasks_scheme) exec" where
  "ResolvePageFault this address s =
     (if address = nullptr then ret (STATUS_NULL_PARAMETER, s)
      else andThen (deref (processes s) this) (\<lambda>p.
        andThen (LookForVadFromAddress (baseVad p) address (Some nullptr) (lheap s)) (\<lambda>(status, vad).
          if status = STATUS_NOT_FOUND then ret (status, s)
          else andThen (deref (vads (lheap s)) (the vad)) (\<lambda>v.
            if vad_free v then ret (STATUS_UNEXPECTED, s)
            else if FAILED status then ret (status, s)
            else let (pNewPage, h) = GetFreePage (lheap s) in
              if pNewPage = nullptr then ret (status, s\<lparr>lheap := h\<rparr>)
              else let currentPd = GetCurrentPageDirectory h in
                andThen (AddPageToPageDirectory PageAlloc address pNewPage
                    (PAGE_PRESENT OR PAGE_WRITEABLE OR PAGE_NON_PRIVILEGED_ACCESS)
                    (SetCurrentPageDirectory (pdEntry (pageDirectory p)) h)) (\<lambda>h1.
                  ret (STATUS_SUCCESS, s\<lparr>lheap := SetCurrentPageDirectory currentPd h1\<rparr>))))))"

subsection \<open>Creation and deletion\<close>

text \<open>The two loops of \<^verbatim>\<open>CreateProcessPageDirectory\<close>, from entry \<open>i\<close> for \<open>n\<close> entries.\<close>

fun copy_entries :: "addr \<Rightarrow> addr \<Rightarrow> nat \<Rightarrow> nat \<Rightarrow> 'z machine_scheme \<Rightarrow> 'z machine_scheme exec" where
  "copy_entries src dst i 0 h = ret h"
| "copy_entries src dst i (Suc n) h = andThen (vread32 h (src + 4 * of_nat i)) (\<lambda>w.
     andThen (vwrite32 (dst + 4 * of_nat i) w h) (copy_entries src dst (Suc i) n))"

fun empty_entries :: "addr \<Rightarrow> nat \<Rightarrow> nat \<Rightarrow> 'z machine_scheme \<Rightarrow> 'z machine_scheme exec" where
  "empty_entries dst i 0 h = ret h"
| "empty_entries dst i (Suc n) h =
     andThen (SetPageDirectoryEntry (dst + 4 * of_nat i) 0 (PAGE_WRITEABLE OR PAGE_NON_PRIVILEGED_ACCESS) h)
       (empty_entries dst (Suc i) n)"

definition CreateProcessPageDirectory :: "'z tasks_scheme \<Rightarrow> (PageDirectory \<times> 'z tasks_scheme) exec" where
  "CreateProcessPageDirectory s = andThen (in_kernel PageAlloc s) (\<lambda>(pd_page, s1).
     andThen (copy_entries KERNEL_PAGE_DIR_P_ADDR (vAddr pd_page) 0 256 (lheap s1)) (\<lambda>h1.
     andThen (empty_entries (vAddr pd_page) 256 768 h1) (\<lambda>h2.
     andThen (SetPageDirectoryEntry (vAddr pd_page + 4 * 1023) (pAddr pd_page) (PAGE_PRESENT OR PAGE_WRITEABLE) h2) (\<lambda>h3.
     andThen (ListCreate HeapAlloc (s1\<lparr>lheap := h3\<rparr>)) (\<lambda>(list, s2).
     andThen (in_kernel (HeapAlloc sizeof_Page) s2) (\<lambda>(savedPage, s3).
       if savedPage = nullptr then halt Panicked
       else andThen (ListPush HeapAlloc list savedPage (s3\<lparr>page_objs := (page_objs s3)(savedPage \<mapsto> pd_page)\<rparr>)) (\<lambda>s4.
         ret (\<lparr>pdEntry = pAddr pd_page, pagesList = list\<rparr>, s4))))))))"

definition CleanPageListEntry :: "addr \<Rightarrow> 'z tasks_scheme \<Rightarrow> 'z tasks_scheme exec" where
  "CleanPageListEntry page s =
     (if page = nullptr then ret s
      else andThen (deref (page_objs s) page) (\<lambda>p. andThen (PageFree p (lheap s)) (\<lambda>h. ret (s\<lparr>lheap := h\<rparr>))))"

definition ReleaseProcessPageDirectoryEntry :: "PageDirectory \<Rightarrow> 'z tasks_scheme \<Rightarrow> 'z tasks_scheme exec" where
  "ReleaseProcessPageDirectoryEntry pd s =
     (if pagesList pd \<noteq> nullptr then ListDestroyEx HeapFree (pagesList pd) (Some CleanPageListEntry) s else ret s)"

text \<open>What the label \<^verbatim>\<open>clean\<close> of the two functions below releases on failure.\<close>

definition clean_process :: "addr \<Rightarrow> addr \<Rightarrow> 'z tasks_scheme \<Rightarrow> 'z tasks_scheme exec" where
  "clean_process process children s =
     andThen (if process \<noteq> nullptr then free_obj process s else ret s) (\<lambda>s1.
       if children \<noteq> nullptr then ListDestroy HeapFree children s1 else ret s1)"

definition Process_Create ::
  "addr \<Rightarrow> addr option \<Rightarrow> 'z tasks_scheme \<Rightarrow> (KeStatus \<times> addr option \<times> 'z tasks_scheme) exec" where
  "Process_Create name newProcess s =
     (if name = nullptr then ret (STATUS_NULL_PARAMETER, newProcess, s)
      else if newProcess = None then ret (STATUS_NULL_PARAMETER, newProcess, s)
      else andThen (in_kernel (HeapAlloc sizeof_Process) s) (\<lambda>(process, s1).
        if process = nullptr then ret (STATUS_ALLOC_FAILED, newProcess, s1)
        else andThen (CreateProcessPageDirectory s1) (\<lambda>(processPd, s2).
          andThen (ListCreate HeapAlloc s2) (\<lambda>(children, s3).
            if children = nullptr
            then andThen (clean_process process nullptr s3) (\<lambda>s4. ret (STATUS_FAILURE, newProcess, s4))
            else andThen (in_kernel (\<lambda>h. andThen (Vad_Create V_PROCESS_BASE_ADDR (V_PROCESS_LIMIT_ADDR - V_PROCESS_BASE_ADDR)
                True (Some nullptr) h) (\<lambda>(st, v, h'). ret ((st, v), h'))) s3) (\<lambda>((status, vad), s4).
              if FAILED status
              then andThen (clean_process process children s4) (\<lambda>s5. ret (status, newProcess, s5))
              else andThen (vread_bytes name 512 (lheap s4)) (\<lambda>nm.
                ret (STATUS_SUCCESS, Some process, s4\<lparr>s_ProcessId := s_ProcessId s4 + 1,
                  processes := (processes s4)(process \<mapsto> (raw_processes s4 process)\<lparr>pageDirectory := processPd,
                    pid := s_ProcessId s4, childrenList := children, mainThread := nullptr,
                    baseVad := the vad, pname := nm\<rparr>)\<rparr>)))))))"

text \<open>\<^verbatim>\<open>gKernel.info.imageName\<close>: the name \<^verbatim>\<open>ltkernel.img\<close> in 512 bytes of zeroed memory.\<close>

definition kernel_image_name :: "u8 list" where
  "kernel_image_name = [108, 116, 107, 101, 114, 110, 101, 108, 46, 105, 109, 103] @ replicate 500 0"

definition CreateSystem :: "addr option \<Rightarrow> 'z tasks_scheme \<Rightarrow> (KeStatus \<times> addr option \<times> 'z tasks_scheme) exec" where
  "CreateSystem newProcess s =
     (if newProcess = None then ret (STATUS_NULL_PARAMETER, newProcess, s)
      else andThen (in_kernel (HeapAlloc sizeof_Process) s) (\<lambda>(process, s1).
        if process = nullptr then ret (STATUS_ALLOC_FAILED, newProcess, s1)
        else andThen (ListCreate HeapAlloc s1) (\<lambda>(children, s2).
          if children = nullptr
          then andThen (clean_process process nullptr s2) (\<lambda>s3. ret (STATUS_FAILURE, newProcess, s3))
          else ret (STATUS_SUCCESS, Some process, s2\<lparr>processes := (processes s2)(process \<mapsto>
            (raw_processes s2 process)\<lparr>pageDirectory := \<lparr>pdEntry = KERNEL_PAGE_DIR_P_ADDR, pagesList = nullptr\<rparr>,
              pid := 0, childrenList := children, pname := kernel_image_name\<rparr>)\<rparr>))))"

definition Process_Delete :: "addr \<Rightarrow> 'z tasks_scheme \<Rightarrow> 'z tasks_scheme exec" where
  "Process_Delete process s =
     (if process = nullptr then ret s
      else andThen (deref (processes s) process) (\<lambda>p.
        andThen
          (if childrenList p \<noteq> nullptr
           then andThen (ListDestroy HeapFree (childrenList p) s) (upd_process process (\<lambda>q. q\<lparr>childrenList := nullptr\<rparr>))
           else ret s) (\<lambda>s1.
        andThen (ReleaseProcessPageDirectoryEntry (pageDirectory p) s1) (\<lambda>s2.
          free_obj process (s2\<lparr>processes := (processes s2)(process := None)\<rparr>)))))"

definition Process_AddThread :: "addr \<Rightarrow> addr \<Rightarrow> 'z tasks_scheme \<Rightarrow> 'z tasks_scheme exec" where
  "Process_AddThread this thread s =
     (if thread = nullptr then ret s
      else andThen (deref (processes s) this) (\<lambda>p.
        if mainThread p = nullptr then upd_process this (\<lambda>q. q\<lparr>mainThread := thread\<rparr>) s
        else AddNeighbor thread (mainThread p) s))"

text \<open>\<^verbatim>\<open>PrintState\<close>: the values it prints, and the threads.\<close>

definition PrintState :: "addr \<Rightarrow> 'z tasks_scheme \<Rightarrow> (u32 list \<times> (addr \<times> Thread) list) exec" where
  "PrintState this s = andThen (deref (processes s) this) (\<lambda>p.
     andThen (deref (vads (lheap s)) (heap_vad (defaultHeap p))) (\<lambda>hv.
     andThen (deref (vads (lheap s)) (baseVad p)) (\<lambda>bv.
     andThen (PrintList (threads s) (mainThread p)) (\<lambda>ths.
       ret ([pid p, this, pdEntry (pageDirectory p), heap_base (defaultHeap p), heap_limit (defaultHeap p), vad_size hv,
         vad_base bv, vad_limit bv, vad_size bv], ths)))))"

subsection \<open>The process manager\<close>

definition ProcessManager_Init :: "'z tasks_scheme \<Rightarrow> 'z tasks_scheme exec" where
  "ProcessManager_Init s = andThen (ListCreate HeapAlloc s) (\<lambda>(list, s1).
     if list = nullptr then halt Panicked else ret (s1\<lparr>processList := list\<rparr>))"

definition CreateProcess ::
  "addr \<Rightarrow> u32 \<Rightarrow> addr option \<Rightarrow> SecurityAttribute \<Rightarrow> 'z tasks_scheme \<Rightarrow> (KeStatus \<times> addr option \<times> 'z tasks_scheme) exec" where
  "CreateProcess name entryAddr newProcess attribute s =
     (if name = nullptr then ret (STATUS_NULL_PARAMETER, newProcess, s)
      else if entryAddr = 0 then ret (STATUS_INVALID_PARAMETER, newProcess, s)
      else if newProcess = None then ret (STATUS_NULL_PARAMETER, newProcess, s)
      else andThen (Process_Create name (Some nullptr) s) (\<lambda>(status, process, s1).
        if FAILED status then ret (status, newProcess, s1)
        else andThen (CreateUserThread entryAddr (the process) attribute (Some nullptr) s1) (\<lambda>(status, thread, s2).
          if FAILED status then ret (status, newProcess, s2)
          else andThen (Process_AddThread (the process) (the thread) s2) (\<lambda>s3.
            andThen (ListPush HeapAlloc (processList s3) (the process) s3) (\<lambda>s4.
              ret (STATUS_SUCCESS, process, s4))))))"

definition CreateSystemProcess :: "addr option \<Rightarrow> 'z tasks_scheme \<Rightarrow> (KeStatus \<times> addr option \<times> 'z tasks_scheme) exec" where
  "CreateSystemProcess newProcess s =
     (if newProcess = None then ret (STATUS_NULL_PARAMETER, newProcess, s)
      else andThen (CreateSystem (Some nullptr) s) (\<lambda>(status, process, s1).
        if FAILED status then ret (status, newProcess, s1)
        else andThen (CreateKernelThread 0 (the process) (Some nullptr) s1) (\<lambda>(status, thread, s2).
          if FAILED status then ret (status, newProcess, s2)
          else andThen (Process_AddThread (the process) (the thread) s2) (\<lambda>s3.
            andThen (ListPush HeapAlloc (processList s3) (the process) s3) (\<lambda>s4.
              ret (STATUS_SUCCESS, process, s4))))))"

definition DeleteProcess :: "addr \<Rightarrow> 'z tasks_scheme \<Rightarrow> 'z tasks_scheme exec" where
  "DeleteProcess process s = (if process = nullptr then ret s else Process_Delete process s)"

subsection \<open>Modules\<close>

definition vread16 :: "'z machine_scheme \<Rightarrow> addr \<Rightarrow> u16 exec" where
  "vread16 h p = andThen (vread8 h p) (\<lambda>a. andThen (vread8 h (p + 1)) (\<lambda>b. ret (ucast a OR push_bit 8 (ucast b))))"

text \<open>The members of the ELF header and of a program header that the code reads, at their offsets.\<close>

record ElfHeader =
  elf_entry :: u32
  elf_phoff :: u32
  elf_phnum :: u16

record ElfProgramHeaderTable =
  ph_offset :: u32
  ph_vaddr :: u32
  ph_memSize :: u32

record ElfFile =
  elf_header :: addr
  elf_prgHeaderTable :: addr

definition load_ElfHeader :: "'z machine_scheme \<Rightarrow> addr \<Rightarrow> ElfHeader exec" where
  "load_ElfHeader h p = andThen (vread32 h (p + 24)) (\<lambda>e. andThen (vread32 h (p + 28)) (\<lambda>po.
     andThen (vread16 h (p + 44)) (\<lambda>n. ret \<lparr>elf_entry = e, elf_phoff = po, elf_phnum = n\<rparr>)))"

definition load_ph :: "'z machine_scheme \<Rightarrow> addr \<Rightarrow> ElfProgramHeaderTable exec" where
  "load_ph h p = andThen (vread32 h (p + 4)) (\<lambda>po. andThen (vread32 h (p + 8)) (\<lambda>va.
     andThen (vread32 h (p + 20)) (\<lambda>ms. ret \<lparr>ph_offset = po, ph_vaddr = va, ph_memSize = ms\<rparr>)))"

fun check_ident :: "u8 list \<Rightarrow> addr \<Rightarrow> 'z machine_scheme \<Rightarrow> bool exec" where
  "check_ident [] p h = ret True"
| "check_ident (c # rest) p h = andThen (vread8 h p) (\<lambda>b. if b \<noteq> c then ret False else check_ident rest (p + 1) h)"

definition ElfCheckIdent :: "addr \<Rightarrow> 'z machine_scheme \<Rightarrow> bool exec" where
  "ElfCheckIdent header h = check_ident [0x7F, 69, 76, 70] header h"

text \<open>A missing program header table is logged; the status it sets is overwritten.\<close>

definition ElfInit :: "addr \<Rightarrow> ElfFile option \<Rightarrow> 'z machine_scheme \<Rightarrow> (KeStatus \<times> ElfFile option) exec" where
  "ElfInit file elf h =
     (if file = nullptr then ret (STATUS_NULL_PARAMETER, elf)
      else if elf = None then ret (STATUS_NULL_PARAMETER, elf)
      else andThen (vread32 h (file + 28)) (\<lambda>phoff.
        ret (STATUS_SUCCESS, Some \<lparr>elf_header = file, elf_prgHeaderTable = file + phoff\<rparr>)))"

text \<open>The loop of \<^verbatim>\<open>_MapElfInProcess\<close>; the program headers are read from the memory as it goes.\<close>

fun map_sections :: "ElfFile \<Rightarrow> addr \<Rightarrow> nat \<Rightarrow> nat \<Rightarrow> 'z tasks_scheme \<Rightarrow> (KeStatus \<times> 'z tasks_scheme) exec" where
  "map_sections elf process i 0 s = ret (STATUS_SUCCESS, s)"
| "map_sections elf process i (Suc n) s =
     andThen (load_ph (lheap s) (elf_prgHeaderTable elf + 32 * of_nat i)) (\<lambda>ph.
       if ph_vaddr ph = nullptr then ret (STATUS_SUCCESS, s)
       else andThen (AllocateMemoryAtAddress process (ph_vaddr ph) True (ph_memSize ph) s) (\<lambda>(status, s1).
         if FAILED status then ret (status, s1)
         else andThen (MemorySetAndCopy process (elf_header elf + ph_offset ph) (ph_vaddr ph) (ph_memSize ph) 0 s1)
           (map_sections elf process (Suc i) n)))"

definition MapElfInProcess :: "ElfFile \<Rightarrow> addr \<Rightarrow> 'z tasks_scheme \<Rightarrow> (KeStatus \<times> 'z tasks_scheme) exec" where
  "MapElfInProcess elf process s = andThen (load_ElfHeader (lheap s) (elf_header elf)) (\<lambda>hd.
     map_sections elf process 0 (unat (elf_phnum hd)) s)"

text \<open>A \<^verbatim>\<open>MultiBootModule\<close>: its start and the address of its name.\<close>

definition Module_Load :: "addr \<Rightarrow> 'z tasks_scheme \<Rightarrow> 'z tasks_scheme exec" where
  "Module_Load module s =
     andThen (vread32 (lheap s) module) (\<lambda>mod_start. andThen (vread32 (lheap s) (module + 8)) (\<lambda>name.
     andThen (ElfCheckIdent mod_start (lheap s)) (\<lambda>ok.
       if \<not> ok then halt Panicked
       else andThen (ElfInit mod_start (Some \<lparr>elf_header = nullptr, elf_prgHeaderTable = nullptr\<rparr>) (lheap s)) (\<lambda>(status, elf).
         if status \<noteq> STATUS_SUCCESS then halt Panicked
         else andThen (load_ElfHeader (lheap s) mod_start) (\<lambda>eh.
           andThen (CreateProcess name (elf_entry eh) (Some nullptr) SA_IO s) (\<lambda>(status, process, s1).
             if FAILED status then halt Panicked
             else andThen (MapElfInProcess (the elf) (the process) s1) (\<lambda>(status, s2).
               if FAILED status then halt Panicked
               else andThen (CreateDefaultHeapAndStack (the process) s2) (\<lambda>(status, s3).
                 if FAILED status then halt Panicked
                 else andThen (deref (processes s3) (the process)) (\<lambda>p. Scheduler_AddThread (mainThread p) s3)))))))))"

fun load_modules :: "addr \<Rightarrow> nat \<Rightarrow> 'z tasks_scheme \<Rightarrow> 'z tasks_scheme exec" where
  "load_modules module 0 s = ret s"
| "load_modules module (Suc n) s = andThen (Module_Load module s) (load_modules (module + 16) n)"

text \<open>The counter of the loop is a signed integer, compared with an unsigned number.\<close>

definition LoadModules :: "MultibootPartialInfo \<Rightarrow> 'z tasks_scheme \<Rightarrow> 'z tasks_scheme exec" where
  "LoadModules mbi s =
     (if \<not> FlagOn (mbi_flags mbi) MODS_INFO then ret s
      else if mods_count mbi = 0 \<or> mods_addr mbi = nullptr then ret s
      else load_modules (mods_addr mbi) (unat (mods_count mbi)) s)"

text \<open>\<^verbatim>\<open>Kernel::Start\<close> up to its final loop; the new state and the system process.\<close>

definition Kernel_Start :: "MultibootPartialInfo \<Rightarrow> 'z tasks_scheme \<Rightarrow> (addr \<times> 'z tasks_scheme) exec" where
  "Kernel_Start mbi s = andThen (CreateSystemProcess (Some nullptr) s) (\<lambda>(status, systemProcess, s1).
     if FAILED status then halt Panicked
     else andThen (deref (processes s1) (the systemProcess)) (\<lambda>p.
       andThen (Scheduler_AddThread (mainThread p) s1) (\<lambda>s2.
       andThen (LoadModules mbi s2) (\<lambda>s3. ret (the systemProcess, Scheduler_Start s3)))))"

end
