(* ===== verification/Kernel_Print.thy ===== *)
theory Kernel_Print
  imports Kernel_Lib
begin

section \<open>Formatted output\<close>

text \<open>
  \<^verbatim>\<open>kernel/lib/StdIo.cpp\<close> (\<^verbatim>\<open>userland/StdLib/src/stdio.cpp\<close> is a near copy). What a function
  prints is the list of the bytes it gives to \<^verbatim>\<open>printChar\<close>. The variable arguments are a list of
  words; reading past its end is an invalid access. Strings are read through the parameter \<open>str\<close>.
\<close>

subsection \<open>Integers\<close>

definition HEX :: "u8 list" where
  "HEX = [48, 49, 50, 51, 52, 53, 54, 55, 56, 57, 65, 66, 67, 68, 69, 70]"

text \<open>The loop that collects the digits, the last one first.\<close>

function digits_loop :: "u32 \<Rightarrow> u32 \<Rightarrow> u8 list" where
  "digits_loop q b = (if q = 0 \<or> b \<le> 1 then [] else HEX ! unat (q mod b) # digits_loop (q div b) b)"
  by pat_completeness auto
termination
proof (relation "measure (\<lambda>(q, b). unat q)")
  fix q b :: u32
  assume "\<not> (q = 0 \<or> b \<le> 1)"
  then have "0 < unat q" "1 < unat b" by (auto simp: word_le_nat_alt unat_gt_0)
  then show "((q div b, b), (q, b)) \<in> measure (\<lambda>(q, b). unat q)" by (simp add: unat_div)
qed simp

declare digits_loop.simps [simp del]

lemma digits_loop_0 [simp]: "digits_loop 0 b = []"
  by (simp add: digits_loop.simps)

text \<open>
  \<^verbatim>\<open>printInt\<close>. The quotient is unsigned, so the test for a negative one never holds: negative
  numbers are printed as numbers above 2147483647.
\<close>

definition printInt :: "u32 \<Rightarrow> u16 \<Rightarrow> u8 list" where
  "printInt x b = (if x = 0 then [48] else []) @
     (if b < 2 \<or> 16 < b then [] else rev (digits_loop x (ucast b)))"

text \<open>
  The version of the user library prints a sign. It negates a negative number as a 32-bit
  integer; the remainder of one that is still negative would index before the table.
\<close>

function user_digits_loop :: "int \<Rightarrow> int \<Rightarrow> u8 list exec" where
  "user_digits_loop q b =
     (if q = 0 \<or> b \<le> 1 then ret []
      else if q < 0 then halt BadAccess
      else andThen (user_digits_loop (q div b) b) (\<lambda>rest. ret (HEX ! nat (q mod b) # rest)))"
  by pat_completeness auto
termination
proof (relation "measure (\<lambda>(q, b). nat q)")
  fix q b :: int
  assume "\<not> (q = 0 \<or> b \<le> 1)" "\<not> q < 0"
  then have "q div b < q" "0 < q" by (auto intro: int_div_less_self)
  then show "((q div b, b), (q, b)) \<in> measure (\<lambda>(q, b). nat q)" by simp
qed simp

declare user_digits_loop.simps [simp del]

lemma user_digits_loop_0 [simp]: "user_digits_loop 0 b = ret []"
  by (simp add: user_digits_loop.simps)

definition user_printInt :: "u32 \<Rightarrow> u16 \<Rightarrow> u8 list exec" where
  "user_printInt x b =
     (let zero = (if x = 0 then [48] else []); q = (if sint x < 0 then - x else x) in
      if b < 2 \<or> 16 < b then ret zero
      else andThen (user_digits_loop (sint q) (uint b)) (\<lambda>ds.
        ret (zero @ rev (ds @ (if sint x < 0 then [45] else [])))))"

text \<open>\<^verbatim>\<open>printBin\<close>: the bits from \<open>offset\<close> down, with a dot between groups of eight.\<close>

fun bits_loop :: "u32 \<Rightarrow> bool \<Rightarrow> nat \<Rightarrow> nat \<Rightarrow> u8 list" where
  "bits_loop v dots i 0 = []"
| "bits_loop v dots i (Suc offset) =
     (if dots \<and> i mod 8 = 0 \<and> i \<noteq> 0 then [46] else []) @ (if bit v offset then 49 else 48) # bits_loop v dots (i + 1) offset"

definition printBin :: "u32 \<Rightarrow> u32 \<Rightarrow> u8 list" where
  "printBin v nbBits = (let n = (if sint nbBits > 32 then 32 else sint nbBits) in
     bits_loop v (n > 8) 0 (nat n) @ [98])"

subsection \<open>Format strings\<close>

definition checkType :: "u8 \<Rightarrow> bool" where
  "checkType type \<longleftrightarrow> type \<in> {100, 99, 115, 120, 98, 116}"

text \<open>\<^verbatim>\<open>StatusGetStringFromInt\<close> on a number: the statuses in the order of the enumeration.\<close>

definition statuses :: "KeStatus list" where
  "statuses = [STATUS_SUCCESS, STATUS_FAILURE, STATUS_NOT_FOUND, STATUS_INVALID_PARAMETER, STATUS_NULL_PARAMETER,
     STATUS_INAVLID_HANDLE, STATUS_ALLOC_FAILED, STATUS_INVALID_VIRTUAL_USER_ADDRESS, STATUS_PHYSICAL_MEMORY_FULL,
     STATUS_PROCESS_HEAP_LIMIT_REACHED, IPC_STATUS_ID_STRING_ALREADY_USED, IPC_STATUS_SERVER_NOT_FOUND,
     IPC_STATUS_ACCESS_DENIED, STATUS_HANDLE_ALREADY_EXIST, STATUS_LIST_STOP_ITERATING, STATUS_UNEXPECTED]"

definition status_string :: "string \<Rightarrow> u8 list" where
  "status_string cs = map of_char cs"

definition printStatus :: "u32 \<Rightarrow> u8 list" where
  "printStatus x = (if unat x < length statuses then status_string (StatusGetStringFromInt (statuses ! unat x))
     else status_string ''UNKOWN_STATUS'')"

text \<open>
  \<^verbatim>\<open>kprintEx\<close>. The width of \<^verbatim>\<open>%b\<close> is 8 until a \<^verbatim>\<open>%b*\<close> takes one from the arguments; it
  stays for later ones. A percent sign before an unknown letter is printed.
\<close>

fun kprint_loop :: "(addr \<Rightarrow> cstr exec) \<Rightarrow> u32 \<Rightarrow> cstr \<Rightarrow> u32 list \<Rightarrow> u8 list exec" where
  "kprint_loop str nbBits [] args = ret []"
| "kprint_loop str nbBits [c] args = ret [c]"
| "kprint_loop str nbBits (c # type # rest) args =
     (if c = 37 \<and> checkType type then
        (case args of [] \<Rightarrow> halt BadAccess
         | a # args' \<Rightarrow>
             if type = 100 then andThen (kprint_loop str nbBits rest args') (\<lambda>out. ret (printInt a 10 @ out))
             else if type = 120 then andThen (kprint_loop str nbBits rest args') (\<lambda>out. ret ([48, 120] @ printInt a 16 @ out))
             else if type = 98 then
               (case rest of [] \<Rightarrow> ret (printBin a nbBits)
                | d # rest' \<Rightarrow>
                    if d = 42 then
                      (case args' of [] \<Rightarrow> halt BadAccess
                       | n # args'' \<Rightarrow> andThen (kprint_loop str n rest' args'') (\<lambda>out. ret (printBin a n @ out)))
                    else andThen (kprint_loop str nbBits rest args') (\<lambda>out. ret (printBin a nbBits @ out)))
             else if type = 115 then
               andThen (str a) (\<lambda>cs. andThen (kprint_loop str nbBits rest args') (\<lambda>out. ret (cs @ out)))
             else if type = 116 then andThen (kprint_loop str nbBits rest args') (\<lambda>out. ret (printStatus a @ out))
             else andThen (kprint_loop str nbBits rest args') (\<lambda>out. ret (ucast a # out)))
      else andThen (kprint_loop str nbBits (type # rest) args) (\<lambda>out. ret (c # out)))"

definition kprintEx :: "(addr \<Rightarrow> cstr exec) \<Rightarrow> cstr \<Rightarrow> u32 list \<Rightarrow> u8 list exec" where
  "kprintEx str format args = kprint_loop str 8 format args"

subsection \<open>Reading numbers back\<close>

text \<open>The value of a digit, of a list of digits to a base, and of a text with an optional sign.\<close>

definition digit_value :: "u8 \<Rightarrow> nat" where
  "digit_value c = (if c < 58 then unat c - 48 else unat c - 55)"

definition parse_digits :: "nat \<Rightarrow> u8 list \<Rightarrow> nat" where
  "parse_digits b cs = foldl (\<lambda>n c. n * b + digit_value c) 0 cs"

fun parse_int :: "nat \<Rightarrow> u8 list \<Rightarrow> int" where
  "parse_int b [] = 0"
| "parse_int b (c # rest) = (if c = 45 then - int (parse_digits b rest) else int (parse_digits b (c # rest)))"

lemma HEX_digit:
  assumes "i < 16"
  shows "digit_value (HEX ! i) = i" "HEX ! i \<in> set HEX" "HEX ! i \<noteq> 45"
proof -
  have "i \<in> set [0..<16]" using assms by simp
  moreover have "\<forall>i \<in> set [0..<16]. digit_value (HEX ! i) = i \<and> HEX ! i \<in> set HEX \<and> HEX ! i \<noteq> 45" by code_simp
  ultimately show "digit_value (HEX ! i) = i" "HEX ! i \<in> set HEX" "HEX ! i \<noteq> 45" by blast+
qed

lemma parse_digits_snoc: "parse_digits b (cs @ [c]) = parse_digits b cs * b + digit_value c"
  by (simp add: parse_digits_def)

lemma digits_loop_value:
  assumes "2 \<le> b" "b \<le> 16"
  shows "parse_digits (unat b) (rev (digits_loop q b)) = unat q \<and> set (digits_loop q b) \<subseteq> set HEX \<and>
    45 \<notin> set (digits_loop q b) \<and> (digits_loop q b = [] \<longleftrightarrow> q = 0)"
  using assms
proof (induction q b rule: digits_loop.induct)
  case (1 q b)
  have b: "2 \<le> unat b" "unat b \<le> 16" using "1.prems" by (simp_all add: word_le_nat_alt)
  have m: "unat (q mod b) < 16"
    using b mod_less_divisor [of "unat b" "unat q"] by (simp only: unat_mod) linarith
  show ?case
  proof (cases "q = 0")
    case True
    then show ?thesis by (simp add: parse_digits_def)
  next
    case False
    have c: "\<not> (q = 0 \<or> b \<le> 1)" using False b by (simp add: word_le_nat_alt)
    then have "digits_loop q b = HEX ! unat (q mod b) # digits_loop (q div b) b" by (subst digits_loop.simps) simp
    moreover have "unat (q div b) * unat b + unat (q mod b) = unat q" by (simp add: unat_div unat_mod)
    ultimately show ?thesis using "1.IH" [OF c "1.prems"] HEX_digit [OF m] False by (simp add: parse_digits_snoc)
  qed
qed

text \<open>Both versions agree on numbers that are not negative.\<close>

lemma user_digits_loop_eq:
  assumes "2 \<le> b"
  shows "user_digits_loop (uint (q :: u32)) (uint b) = ret (digits_loop q b)"
  using assms
proof (induction q b rule: digits_loop.induct)
  case (1 q b)
  have b: "\<not> b \<le> 1" "\<not> uint b \<le> 1" using "1.prems" by (auto simp: word_le_def)
  show ?case
  proof (cases "q = 0")
    case True
    then show ?thesis by simp
  next
    case False
    with b have c: "\<not> (q = 0 \<or> b \<le> 1)" "uint q \<noteq> 0" "\<not> uint q < 0" by (auto simp: unsigned_eq_0_iff)
    have "user_digits_loop (uint q div uint b) (uint b) = ret (digits_loop (q div b) b)"
      using "1.IH" [OF c(1) "1.prems"] by (simp add: uint_div)
    moreover have "nat (uint q mod uint b) = unat (q mod b)" by (simp add: uint_mod [symmetric])
    ultimately show ?thesis
      using b c by (simp add: digits_loop.simps [of q b] user_digits_loop.simps [of "uint q"])
  qed
qed

lemma parse_int_digits: "cs = [] \<or> hd cs \<noteq> 45 \<Longrightarrow> parse_int b cs = int (parse_digits b cs)"
  by (cases cs) (auto simp: parse_digits_def)

lemma widened_base:
  assumes "2 \<le> (b :: u16)" "b \<le> 16"
  shows "2 \<le> (ucast b :: u32)" "(ucast b :: u32) \<le> 16" "unat (ucast b :: u32) = unat b" "uint (ucast b :: u32) = uint b"
proof -
  show u: "uint (ucast b :: u32) = uint b" by (simp add: uint_up_ucast is_up)
  then show "unat (ucast b :: u32) = unat b" by (metis nat_uint_eq)
  then show "2 \<le> (ucast b :: u32)" "(ucast b :: u32) \<le> 16" using assms by (simp_all add: word_le_nat_alt)
qed

lemma printInt_ok:
  assumes "2 \<le> b" "b \<le> 16"
  shows "parse_digits (unat b) (printInt x b) = unat x" "set (printInt x b) \<subseteq> set HEX" "printInt x b \<noteq> []"
proof -
  note b = widened_base [OF assms]
  note d = digits_loop_value [OF b(1,2), of x]
  have nb: "\<not> b < 2" "\<not> 16 < b" using assms by auto
  show "parse_digits (unat b) (printInt x b) = unat x" "set (printInt x b) \<subseteq> set HEX" "printInt x b \<noteq> []"
    using d nb b(3) by (auto simp: printInt_def digits_loop.simps [of 0] parse_digits_def digit_value_def HEX_def)
qed

lemma sint_cases: "sint (x :: u32) = (if uint x < 2147483648 then uint x else uint x - 4294967296)"
proof -
  have "uint x < 4294967296" using uint_lt2p [of x] by simp
  then have "uint x div 2147483648 = (if uint x < 2147483648 then 0 else 1)"
    by (auto simp: div_eq_0_iff intro!: int_div_pos_eq [where r = "uint x - 2147483648"])
  then have "bit (uint x) 31 \<longleftrightarrow> \<not> uint x < 2147483648" by (simp add: bit_iff_odd)
  moreover have "take_bit 32 (uint x) = uint x" using \<open>uint x < 4294967296\<close> by (simp add: take_bit_eq_mod)
  ultimately show ?thesis by (simp add: sint_uint signed_take_bit_eq_take_bit_minus)
qed

lemma uint_0x80000000: "uint (0x80000000 :: u32) = 2147483648"
  by simp

lemma user_printInt_ok:
  assumes "2 \<le> b" "b \<le> 16"
  shows "if x = 0x80000000 then user_printInt x b = halt BadAccess
    else \<exists>cs. user_printInt x b = ret cs \<and> parse_int (unat b) cs = sint x"
proof -
  note b = widened_base [OF assms]
  have nb: "\<not> b < 2" "\<not> 16 < b" using assms by auto
  show ?thesis
  proof (cases "x = 0x80000000")
    case True
    then show ?thesis using nb b(4) assms
      by (simp add: user_printInt_def user_digits_loop.simps [of "-2147483648"] word_le_def)
  next
    case False
    let ?q = "if sint x < 0 then - x else x"
    have q: "sint ?q = uint ?q" "int (unat ?q) = \<bar>sint x\<bar>"
    proof -
      have x: "uint x < 4294967296" "uint x \<noteq> 2147483648"
        using uint_lt2p [of x] False by (simp, metis uint_0x80000000 word_uint_eq_iff)
      have n: "uint (- x) = 4294967296 - uint x" if "\<not> uint x < 2147483648"
        using x(1) that by (simp add: uint_word_ariths zmod_zminus1_eq_if)
      show "sint ?q = uint ?q" using x n by (simp add: sint_cases)
      show "int (unat ?q) = \<bar>sint x\<bar>" using x n by (simp add: sint_cases)
    qed
    note d = digits_loop_value [OF b(1,2), of ?q]
    have "user_digits_loop (sint ?q) (uint b) = ret (digits_loop ?q (ucast b))"
      using user_digits_loop_eq [OF b(1), of ?q] q(1) b(4) by simp
    then have r: "user_printInt x b =
        ret ((if x = 0 then [48] else []) @ rev (digits_loop ?q (ucast b) @ (if sint x < 0 then [45] else [])))"
      using nb by (simp add: user_printInt_def Let_def)
    show ?thesis
    proof (cases "sint x < 0")
      case True
      then show ?thesis using r d q(2) b(3) False by (auto simp: parse_digits_def)
    next
      case pos: False
      have "rev (digits_loop ?q (ucast b)) = [] \<or> hd (rev (digits_loop ?q (ucast b))) \<noteq> 45"
        using d by (metis hd_in_set set_rev)
      then show ?thesis using r d q(2) b(3) False pos
        by (cases "x = 0") (auto simp: parse_int_digits, simp add: parse_digits_def digit_value_def)
    qed
  qed
qed

end
