(* ===== verification/Syscalls.thy ===== *)
theory Syscalls
  imports Ipc_Handler Processes Kernel_Print
begin

section \<open>System calls and page faults\<close>

text \<open>
  \<^verbatim>\<open>kernel/syscalls/SyscallsHandler.cpp\<close>, its entry point \<^verbatim>\<open>kernel/arch/x86/Syscalls.cpp\<close> and
  the page fault handler of \<^verbatim>\<open>kernel/arch/x86/Exceptions\<close>. A handler gets the registers of the
  caller and returns them changed. What is printed is appended to \<open>screen\<close>.
\<close>

subsection \<open>State\<close>

record sys = ipc +
  screen :: "u8 list"
  s_CriticalSection :: u32

datatype SyscallId =
  SYS_PRINT_CHAR | SYS_PRINT_STR | SYS_SBRK | SYS_IPC_SERVER_CREATE | SYS_IPC_SERVER_CONNECT | SYS_IPC_SEND | SYS_IPC_RECV
  | SYS_ENTER_SCREEN_CRITICAL_SECTION | SYS_LEAVE_SCREEN_CRITICAL_SECTION | SYS_RAISE_THREAD_PRIORITY
  | SYS_LOWER_THREAD_PRIORITY | SYS_INVALID

text \<open>The system calls by the number a user task passes in \<^verbatim>\<open>eax\<close>.\<close>

definition SYSCALLS_LIST :: "SyscallId list" where
  "SYSCALLS_LIST = [SYS_PRINT_CHAR, SYS_PRINT_STR, SYS_SBRK, SYS_IPC_SERVER_CREATE, SYS_IPC_SERVER_CONNECT, SYS_IPC_SEND,
     SYS_IPC_RECV, SYS_ENTER_SCREEN_CRITICAL_SECTION, SYS_LEAVE_SCREEN_CRITICAL_SECTION, SYS_RAISE_THREAD_PRIORITY,
     SYS_LOWER_THREAD_PRIORITY, SYS_INVALID]"

text \<open>A status as a number: its place in the enumeration.\<close>

definition status_value :: "KeStatus \<Rightarrow> u32" where
  "status_value st = of_nat (length (takeWhile (\<lambda>x. x \<noteq> st) statuses))"

text \<open>
  A call returns to the caller with its registers, or waits in \<^verbatim>\<open>Receive\<close>: then it has given the
  processor away, and the server object it waits at and its parameters are what is left of it.
\<close>

datatype sys_result = Returned InterruptFromUserlandContext | Waiting addr addr u32 addr InterruptFromUserlandContext

subsection \<open>System calls\<close>

definition kprint :: "cstr \<Rightarrow> u32 list \<Rightarrow> 'z sys_scheme \<Rightarrow> 'z sys_scheme exec" where
  "kprint format args s = andThen (kprintEx (read_cstr (lheap s)) format args) (\<lambda>out. ret (s\<lparr>screen := screen s @ out\<rparr>))"

definition SysPrintChar ::
  "InterruptFromUserlandContext \<Rightarrow> 'z sys_scheme \<Rightarrow> (InterruptFromUserlandContext \<times> 'z sys_scheme) exec" where
  "SysPrintChar c s = andThen (kprint [37, 99] [ic_ebx c] s) (\<lambda>s1. ret (c, s1))"

definition SysPrintStr ::
  "InterruptFromUserlandContext \<Rightarrow> 'z sys_scheme \<Rightarrow> (InterruptFromUserlandContext \<times> 'z sys_scheme) exec" where
  "SysPrintStr c s = andThen (kprint [37, 115] [ic_ebx c] s) (\<lambda>s1. ret (c, s1))"

definition SysSbrk ::
  "InterruptFromUserlandContext \<Rightarrow> 'z sys_scheme \<Rightarrow> (InterruptFromUserlandContext \<times> 'z sys_scheme) exec" where
  "SysSbrk c s = andThen (GetCurrentProcess s) (\<lambda>currentProcess.
     if currentProcess = nullptr then ret (c\<lparr>ic_eax := 0\<rparr>, s)
     else andThen (IncreaseHeap currentProcess (ic_ebx c) (Some 0) s) (\<lambda>(status, res, s1).
       ret (c\<lparr>ic_eax := the res\<rparr>, s1)))"

definition SysIpcServerCreate ::
  "InterruptFromUserlandContext \<Rightarrow> 'z sys_scheme \<Rightarrow> (InterruptFromUserlandContext \<times> 'z sys_scheme) exec" where
  "SysIpcServerCreate c s = andThen (GetCurrentProcess s) (\<lambda>process.
     if process = nullptr then ret (c\<lparr>ic_eax := status_value STATUS_FAILURE, ic_ebx := INVALID_IPC_HANDLE\<rparr>, s)
     else andThen (AddNewServer (ic_ebx c) process (Some INVALID_IPC_HANDLE) s) (\<lambda>(status, handle, s1).
       ret (c\<lparr>ic_eax := status_value status, ic_ebx := the handle\<rparr>, s1)))"

definition SysIpcServerConnect ::
  "InterruptFromUserlandContext \<Rightarrow> 'z sys_scheme \<Rightarrow> (InterruptFromUserlandContext \<times> 'z sys_scheme) exec" where
  "SysIpcServerConnect c s = andThen (GetCurrentProcess s) (\<lambda>process.
     if process = nullptr then ret (c\<lparr>ic_eax := status_value STATUS_FAILURE, ic_ebx := INVALID_IPC_HANDLE\<rparr>, s)
     else andThen (ConnectToServer (ic_ebx c) process (Some INVALID_IPC_HANDLE) s) (\<lambda>(status, handle).
       ret (c\<lparr>ic_eax := status_value status, ic_ebx := the handle\<rparr>, s)))"

definition SysIpcSend ::
  "InterruptFromUserlandContext \<Rightarrow> 'z sys_scheme \<Rightarrow> (InterruptFromUserlandContext \<times> 'z sys_scheme) exec" where
  "SysIpcSend c s = andThen (GetCurrentProcess s) (\<lambda>process.
     if process = nullptr then ret (c\<lparr>ic_eax := status_value STATUS_FAILURE\<rparr>, s)
     else andThen (IpcSend (ic_ebx c) process (ic_ecx c) (ic_edx c) s) (\<lambda>(status, s1).
       ret (c\<lparr>ic_eax := status_value status\<rparr>, s1)))"

text \<open>
  The parameters of a receive call are four words in the caller's memory: handle, buffer, size and
  the address the number of bytes goes to. That address is only written when the call succeeds.
\<close>

definition receive_done ::
  "addr \<Rightarrow> KeStatus \<Rightarrow> u32 option \<Rightarrow> InterruptFromUserlandContext \<Rightarrow> 'z sys_scheme \<Rightarrow> (sys_result \<times> 'z sys_scheme) exec" where
  "receive_done readBytesPtr status n c s =
     andThen (if FAILED status then ret s
         else andThen (vwrite32 readBytesPtr (the n) (lheap s)) (\<lambda>h. ret (s\<lparr>lheap := h\<rparr>))) (\<lambda>s1.
       ret (Returned (c\<lparr>ic_eax := status_value status\<rparr>), s1))"

definition SysIpcReceive ::
  "InterruptFromUserlandContext \<Rightarrow> 'z sys_scheme \<Rightarrow> (sys_result \<times> 'z sys_scheme) exec" where
  "SysIpcReceive c s = andThen (GetCurrentProcess s) (\<lambda>process.
     if process = nullptr then ret (Returned (c\<lparr>ic_eax := status_value STATUS_FAILURE\<rparr>), s)
     else andThen (vread32 (lheap s) (ic_ebx c)) (\<lambda>handle. andThen (vread32 (lheap s) (ic_ebx c + 4)) (\<lambda>buffer.
       andThen (vread32 (lheap s) (ic_ebx c + 8)) (\<lambda>sz. andThen (vread32 (lheap s) (ic_ebx c + 12)) (\<lambda>ptr.
       andThen (IpcReceive handle process buffer sz (if ptr = nullptr then None else Some 0) s) (\<lambda>(status, n, s1).
         case status of
           Some st \<Rightarrow> receive_done ptr st n c s1
         | None \<Rightarrow> andThen (FindIpcObjectByHandle handle s1) (\<lambda>obj. ret (Waiting obj buffer sz ptr c, s1))))))))"

definition SysIpcReceive_resume :: "sys_result \<Rightarrow> 'z sys_scheme \<Rightarrow> (sys_result \<times> 'z sys_scheme) exec" where
  "SysIpcReceive_resume r s = (case r of
     Returned c \<Rightarrow> ret (r, s)
   | Waiting obj buffer sz ptr c \<Rightarrow> andThen (IpcReceive_resume obj buffer sz (Some 0) s) (\<lambda>(status, n, s1).
       receive_done ptr (the status) n c s1))"

definition SysEnterScreenCriticalSection :: "'z sys_scheme \<Rightarrow> 'z sys_scheme exec" where
  "SysEnterScreenCriticalSection s =
     andThen (CriticalSection_Enter (s_CriticalSection s)) (\<lambda>l. ret (s\<lparr>s_CriticalSection := l\<rparr>))"

definition SysLeaveScreenCriticalSection :: "'z sys_scheme \<Rightarrow> 'z sys_scheme" where
  "SysLeaveScreenCriticalSection s = s\<lparr>s_CriticalSection := CriticalSection_Leave (s_CriticalSection s)\<rparr>"

definition SysRaiseThreadPriority :: "'z sys_scheme \<Rightarrow> 'z sys_scheme exec" where
  "SysRaiseThreadPriority s =
     (if GetCurrentThread s = nullptr then ret s else RaisePriorityLevel (GetCurrentThread s) s)"

definition SysLowerThreadPriority :: "'z sys_scheme \<Rightarrow> 'z sys_scheme exec" where
  "SysLowerThreadPriority s =
     (if GetCurrentThread s = nullptr then ret s else LowerPriorityLevel (GetCurrentThread s) s)"

abbreviation returned ::
  "(InterruptFromUserlandContext \<times> 'z sys_scheme) exec \<Rightarrow> (sys_result \<times> 'z sys_scheme) exec" where
  "returned m \<equiv> andThen m (\<lambda>(c, s). ret (Returned c, s))"

definition ExecuteSyscall ::
  "u32 \<Rightarrow> InterruptFromUserlandContext \<Rightarrow> 'z sys_scheme \<Rightarrow> (sys_result \<times> 'z sys_scheme) exec" where
  "ExecuteSyscall sysId c s =
     (if unat sysId \<ge> length SYSCALLS_LIST - 1 then ret (Returned c, s)
      else case SYSCALLS_LIST ! unat sysId of
        SYS_PRINT_CHAR \<Rightarrow> returned (SysPrintChar c s)
      | SYS_PRINT_STR \<Rightarrow> returned (SysPrintStr c s)
      | SYS_SBRK \<Rightarrow> returned (SysSbrk c s)
      | SYS_IPC_SERVER_CREATE \<Rightarrow> returned (SysIpcServerCreate c s)
      | SYS_IPC_SERVER_CONNECT \<Rightarrow> returned (SysIpcServerConnect c s)
      | SYS_IPC_SEND \<Rightarrow> returned (SysIpcSend c s)
      | SYS_IPC_RECV \<Rightarrow> SysIpcReceive c s
      | SYS_ENTER_SCREEN_CRITICAL_SECTION \<Rightarrow> andThen (SysEnterScreenCriticalSection s) (\<lambda>s1. ret (Returned c, s1))
      | SYS_LEAVE_SCREEN_CRITICAL_SECTION \<Rightarrow> ret (Returned c, SysLeaveScreenCriticalSection s)
      | SYS_RAISE_THREAD_PRIORITY \<Rightarrow> andThen (SysRaiseThreadPriority s) (\<lambda>s1. ret (Returned c, s1))
      | SYS_LOWER_THREAD_PRIORITY \<Rightarrow> andThen (SysLowerThreadPriority s) (\<lambda>s1. ret (Returned c, s1))
      | SYS_INVALID \<Rightarrow> ret (Returned c, s))"

definition syscall_isr :: "InterruptFromUserlandContext option \<Rightarrow> 'z sys_scheme \<Rightarrow> (sys_result option \<times> 'z sys_scheme) exec" where
  "syscall_isr context s = (case context of
     None \<Rightarrow> ret (None, s)
   | Some c \<Rightarrow> andThen (ExecuteSyscall (ic_eax c) c s) (\<lambda>(r, s1). ret (Some r, s1)))"

text \<open>\<open>isr\<close> is the address of \<^verbatim>\<open>_asm_syscall_isr\<close>; the IDT lies in the first page, mapped to itself.\<close>

definition SyscallsX86_Init :: "u32 \<Rightarrow> 'z tasks_scheme \<Rightarrow> 'z tasks_scheme" where
  "SyscallsX86_Init isr s =
     s\<lparr>lheap := (lheap s)\<lparr>pmem := Idt_InitDescriptor isr SYSCALL_GATE 48 (pmem (lheap s))\<rparr>\<rparr>"

subsection \<open>Page faults\<close>

text \<open>
  \<^verbatim>\<open>PageFaultExceptionHandler\<close> for an error code and the faulting address; \<open>connected\<close> tells
  whether a debugger is attached. The report it shows before it stops the processor is not kept.
\<close>

definition PageFaultExceptionHandler :: "bool \<Rightarrow> u32 \<Rightarrow> addr \<Rightarrow> 'z tasks_scheme \<Rightarrow> 'z tasks_scheme exec" where
  "PageFaultExceptionHandler connected code cr2 s = andThen (GetCurrentProcess s) (\<lambda>process.
     if code AND 1 = 0 then
       andThen (ResolvePageFault process cr2 s) (\<lambda>(status, s1).
         if FAILED status then if connected then ret s1 else halt Panicked
         else ret s1)
     else halt Panicked)"

end
