(* ===== verification/Handle_Manager.thy ===== *)
theory Handle_Manager
  imports Heap_Blocks
begin

section \<open>The handle manager\<close>

text \<open>
  \<^verbatim>\<open>kernel/handle/HandleManager.cpp\<close>: a list of \<^verbatim>\<open>HandleObject\<close>s that gives each
  kernel object a number. The operations take the heap's \<open>alloc\<close> like the list library they
  use. An out parameter is the content of the caller's variable, or \<open>None\<close> for a null pointer.
\<close>

subsection \<open>State and operations\<close>

datatype HandleType = PROCESS_HANDLE | HANDLE_TYPE_MAX

abbreviation INVALID_HANDLE_VALUE :: u32 where
  "INVALID_HANDLE_VALUE \<equiv> 0"

record HandleObject =
  ho_handle :: u32
  ho_object :: addr

record FIND_HANDLE_CONTEXT =
  found :: bool
  foundHandle :: u32
  find_object :: addr

record 'h handles = "'h list_heap" +
  handle_objs :: "addr \<rightharpoonup> HandleObject"
  processHandleList :: addr
  s_NextHandleValue :: u32

abbreviation sizeof_HandleObject :: int where
  "sizeof_HandleObject \<equiv> 8"

definition HandleManager_Init ::
  "'h alloc_op \<Rightarrow> ('h, 'z) handles_scheme \<Rightarrow> ('h, 'z) handles_scheme exec" where
  "HandleManager_Init alloc s = andThen (ListCreate alloc s) (\<lambda>(list, s1).
     ret (s1\<lparr>processHandleList := list\<rparr>))"

definition FindHandleCallback ::
  "(addr \<rightharpoonup> HandleObject) \<Rightarrow> addr \<Rightarrow> FIND_HANDLE_CONTEXT \<Rightarrow> (KeStatus \<times> FIND_HANDLE_CONTEXT) exec" where
  "FindHandleCallback objs data ctx =
     (if data = nullptr then ret (STATUS_NULL_PARAMETER, ctx)
      else andThen (deref objs data) (\<lambda>ho.
        if ho_object ho = find_object ctx
        then ret (STATUS_LIST_STOP_ITERATING, ctx\<lparr>found := True, foundHandle := ho_handle ho\<rparr>)
        else ret (STATUS_SUCCESS, ctx)))"

definition FindFromObjectPtr ::
  "HandleType \<Rightarrow> addr \<Rightarrow> u32 option \<Rightarrow> ('h, 'z) handles_scheme \<Rightarrow> (KeStatus \<times> u32 option) exec" where
  "FindFromObjectPtr type object outHandle s =
     (if type = HANDLE_TYPE_MAX then ret (STATUS_INVALID_PARAMETER, outHandle)
      else if object = nullptr then ret (STATUS_NULL_PARAMETER, outHandle)
      else if outHandle = None then ret (STATUS_NULL_PARAMETER, outHandle)
      else let context = \<lparr>found = False, foundHandle = INVALID_HANDLE_VALUE, find_object = object\<rparr> in
        andThen (ListEnumerate (processHandleList s) (Some (FindHandleCallback (handle_objs s))) context s)
          (\<lambda>(status, context').
            if FAILED status then ret (status, outHandle)
            else if \<not> found context' then ret (STATUS_NOT_FOUND, outHandle)
            else ret (STATUS_SUCCESS, Some (foundHandle context'))))"

text \<open>\<^verbatim>\<open>_CreateHandle\<close>: no check that the object has no handle yet.\<close>

definition CreateHandle_unchecked ::
  "'h alloc_op \<Rightarrow> HandleType \<Rightarrow> addr \<Rightarrow> u32 option \<Rightarrow> ('h, 'z) handles_scheme \<Rightarrow>
   (KeStatus \<times> u32 option \<times> ('h, 'z) handles_scheme) exec" where
  "CreateHandle_unchecked alloc type object outHandle s =
     (if type = HANDLE_TYPE_MAX then ret (STATUS_INVALID_PARAMETER, outHandle, s)
      else if object = nullptr then ret (STATUS_NULL_PARAMETER, outHandle, s)
      else if outHandle = None then ret (STATUS_NULL_PARAMETER, outHandle, s)
      else andThen (alloc sizeof_HandleObject (lheap s)) (\<lambda>(newObject, h).
        if newObject = nullptr then ret (STATUS_ALLOC_FAILED, outHandle, s\<lparr>lheap := h\<rparr>)
        else let handle = s_NextHandleValue s;
            s1 = s\<lparr>lheap := h, handle_objs := (handle_objs s)(newObject \<mapsto> \<lparr>ho_handle = handle, ho_object = object\<rparr>),
              s_NextHandleValue := handle + 1\<rparr>
          in andThen (ListPush alloc (processHandleList s1) newObject s1) (\<lambda>s2.
            ret (STATUS_SUCCESS, Some handle, s2))))"

definition CreateHandle ::
  "'h alloc_op \<Rightarrow> HandleType \<Rightarrow> addr \<Rightarrow> u32 option \<Rightarrow> ('h, 'z) handles_scheme \<Rightarrow>
   (KeStatus \<times> u32 option \<times> ('h, 'z) handles_scheme) exec" where
  "CreateHandle alloc type object outHandle s =
     (if type = HANDLE_TYPE_MAX then ret (STATUS_INVALID_PARAMETER, outHandle, s)
      else if object = nullptr then ret (STATUS_NULL_PARAMETER, outHandle, s)
      else if outHandle = None then ret (STATUS_NULL_PARAMETER, outHandle, s)
      else andThen (FindFromObjectPtr type object (Some INVALID_HANDLE_VALUE) s) (\<lambda>(status, localHandle).
        if FAILED status \<and> status \<noteq> STATUS_NOT_FOUND then ret (status, outHandle, s)
        else if status \<noteq> STATUS_NOT_FOUND then ret (STATUS_HANDLE_ALREADY_EXIST, outHandle, s)
        else andThen (CreateHandle_unchecked alloc type object localHandle s) (\<lambda>(status, localHandle, s1).
          if FAILED status then ret (status, outHandle, s1)
          else ret (STATUS_SUCCESS, localHandle, s1))))"

definition FindOrCreate ::
  "'h alloc_op \<Rightarrow> HandleType \<Rightarrow> addr \<Rightarrow> u32 option \<Rightarrow> ('h, 'z) handles_scheme \<Rightarrow>
   (KeStatus \<times> u32 option \<times> ('h, 'z) handles_scheme) exec" where
  "FindOrCreate alloc type object outHandle s =
     (if type = HANDLE_TYPE_MAX then ret (STATUS_INVALID_PARAMETER, outHandle, s)
      else if object = nullptr then ret (STATUS_NULL_PARAMETER, outHandle, s)
      else if outHandle = None then ret (STATUS_NULL_PARAMETER, outHandle, s)
      else andThen (FindFromObjectPtr type object (Some INVALID_HANDLE_VALUE) s) (\<lambda>(status, localHandle).
        if FAILED status \<and> status \<noteq> STATUS_NOT_FOUND then ret (status, outHandle, s)
        else if status = STATUS_NOT_FOUND then
          andThen (CreateHandle alloc type object localHandle s) (\<lambda>(status, localHandle, s1).
            if status \<noteq> STATUS_SUCCESS then ret (status, outHandle, s1)
            else ret (STATUS_SUCCESS, localHandle, s1))
        else ret (STATUS_SUCCESS, localHandle, s)))"

subsection \<open>The table of handles\<close>

text \<open>The table the list stands for: object and handle, oldest first.\<close>

definition entries :: "('h, 'z) handles_scheme \<Rightarrow> addr list \<Rightarrow> (addr \<times> u32) list" where
  "entries s xs = map (\<lambda>x. let ho = the (handle_objs s x) in (ho_object ho, ho_handle ho)) xs"

text \<open>
  The objects of a table are all different and the handles are numbered from 1 in the order of
  their creation.
\<close>

definition table_ok :: "(addr \<times> u32) list \<Rightarrow> u32 \<Rightarrow> bool" where
  "table_ok tbl nextv \<longleftrightarrow> distinct (map fst tbl) \<and> nullptr \<notin> fst ` set tbl \<and>
     map snd tbl = map of_nat [1..<length tbl + 1] \<and> nextv = of_nat (length tbl + 1)"

definition handles_inv ::
  "('h \<Rightarrow> bool) \<Rightarrow> ('h \<Rightarrow> addr set) \<Rightarrow> ('h, 'z) handles_scheme \<Rightarrow> (addr \<times> u32) list \<Rightarrow> bool" where
  "handles_inv invar live s tbl \<longleftrightarrow> list_heap_ok invar live s \<and> dom (handle_objs s) \<subseteq> live (lheap s) \<and>
     nullptr \<notin> dom (handle_objs s) \<and> table_ok tbl (s_NextHandleValue s) \<and>
     (\<exists>ps xs. list_rep (lnodes s) (processHandleList s) ps xs \<and> set xs \<subseteq> dom (handle_objs s) \<and> tbl = entries s xs)"

lemma find_map_of:
  "List.find (\<lambda>x. f x = k) xs = None \<longleftrightarrow> map_of (map (\<lambda>x. (f x, g x)) xs) k = None"
  "List.find (\<lambda>x. f x = k) xs = Some y \<Longrightarrow> map_of (map (\<lambda>x. (f x, g x)) xs) k = Some (g y)"
  by (induction xs) (auto split: if_splits)

lemma FindFromObjectPtr_spec:
  assumes inv: "handles_inv invar live s tbl" and "object \<noteq> nullptr"
  shows "FindFromObjectPtr PROCESS_HANDLE object (Some out) s =
    ret (case map_of tbl object of None \<Rightarrow> (STATUS_NOT_FOUND, Some out) | Some h \<Rightarrow> (STATUS_SUCCESS, Some h))"
proof -
  obtain ps xs where r: "list_rep (lnodes s) (processHandleList s) ps xs" "set xs \<subseteq> dom (handle_objs s)"
      "tbl = entries s xs" "nullptr \<notin> dom (handle_objs s)"
    using inv by (auto simp: handles_inv_def)
  let ?ctx = "\<lparr>found = False, foundHandle = INVALID_HANDLE_VALUE, find_object = object\<rparr>"
  let ?ho = "\<lambda>x. the (handle_objs s x)"
  let ?P = "\<lambda>x. ho_object (?ho x) = object"
  have cb: "FindHandleCallback (handle_objs s) x c =
      ret (if ho_object (?ho x) = find_object c
           then (STATUS_LIST_STOP_ITERATING, c\<lparr>found := True, foundHandle := ho_handle (?ho x)\<rparr>)
           else (STATUS_SUCCESS, c))" if "x \<in> set xs" for x c
  proof -
    have "x \<in> dom (handle_objs s)" using r(2) that by (rule subsetD)
    then obtain ho where "handle_objs s x = Some ho" by blast
    moreover have "x \<noteq> nullptr" using \<open>x \<in> dom (handle_objs s)\<close> r(4) by metis
    ultimately have "handle_objs s x = Some ho \<and> x \<noteq> nullptr" by simp
    then show ?thesis by (simp add: FindHandleCallback_def)
  qed
  have find: "ListEnumerate (processHandleList s) (Some (FindHandleCallback (handle_objs s))) ?ctx s =
      ret (STATUS_SUCCESS, case List.find ?P xs of None \<Rightarrow> ?ctx
        | Some x \<Rightarrow> ?ctx\<lparr>found := True, foundHandle := ho_handle (?ho x)\<rparr>)"
    unfolding ListEnumerate_rep [OF r(1)] by (rule enumerate_list_find) (simp add: cb)
  have tbl: "tbl = map (\<lambda>x. (ho_object (?ho x), ho_handle (?ho x))) xs" by (simp add: r(3) entries_def Let_def)
  show ?thesis
  proof (cases "List.find ?P xs")
    case None
    then have "map_of tbl object = None" unfolding tbl by (rule find_map_of(1) [THEN iffD1])
    then show ?thesis using None assms(2) find by (simp add: FindFromObjectPtr_def FAILED_def)
  next
    case (Some x)
    then have "map_of tbl object = Some (ho_handle (?ho x))" unfolding tbl by (rule find_map_of(2))
    then show ?thesis using Some assms(2) find by (simp add: FindFromObjectPtr_def FAILED_def)
  qed
qed

text \<open>A new entry gets the next number.\<close>

abbreviation next_handle :: "(addr \<times> u32) list \<Rightarrow> u32" where
  "next_handle tbl \<equiv> of_nat (length tbl + 1)"

lemma table_ok_snoc:
  assumes "table_ok tbl v" "object \<noteq> nullptr" "map_of tbl object = None"
  shows "table_ok (tbl @ [(object, v)]) (v + 1)"
  using assms by (auto simp: table_ok_def map_of_eq_None_iff)

lemma handles_distinct:
  assumes "table_ok tbl v" "length tbl < 4294967295"
  shows "distinct (map snd tbl)" "INVALID_HANDLE_VALUE \<notin> snd ` set tbl"
proof -
  have s: "map snd tbl = map of_nat [1..<length tbl + 1]" using assms(1) by (simp add: table_ok_def)
  have "inj_on (of_nat :: nat \<Rightarrow> u32) {1..<length tbl + 1}"
    using assms(2) of_nat_u32_eq_iff by (auto simp: inj_on_def)
  then show "distinct (map snd tbl)" unfolding s distinct_map set_upt by (intro conjI distinct_upt)
  have "(of_nat k :: u32) \<noteq> 0" if "k \<in> {1..<length tbl + 1}" for k
    using that assms(2) unat_of_nat_u32 [of k] by auto
  then have "0 \<notin> set (map snd tbl)" unfolding s by force
  then show "INVALID_HANDLE_VALUE \<notin> snd ` set tbl" by simp
qed

context heap_allocator
begin

lemma handles_init:
  assumes "list_heap_ok invar live s" and "ready (sizeof_ListElem # ns) (lheap s)"
    and "dom (handle_objs s) \<subseteq> live (lheap s)" "nullptr \<notin> dom (handle_objs s)" and "s_NextHandleValue s = 1"
    and "HandleManager_Init alloc s = ret s'"
  shows "handles_inv invar live s' [] \<and> ready ns (lheap s')"
proof -
  obtain p s1 where c: "ListCreate alloc s = ret (p, s1)" and s': "s' = s1\<lparr>processHandleList := p\<rparr>"
    using assms(6) by (auto simp: HandleManager_Init_def andThen_eq_ret_iff)
  note r = create_rep [OF assms(1,2) c]
  have "list_heap.more s1 = list_heap.more s" using r by (auto simp: nodes_change_def)
  then have m: "handle_objs s1 = handle_objs s" "s_NextHandleValue s1 = s_NextHandleValue s"
    by (cases s, cases s1, simp)+
  have "list_heap_ok invar live s1" using r by blast
  then have "list_heap_ok invar live s'" by (simp add: list_heap_ok_def s')
  then show ?thesis
    using r assms(3-5) m unfolding handles_inv_def
    by (auto simp: s' table_ok_def entries_def intro!: exI [of _ "[p]"])
qed

lemma unchecked_ok:
  assumes inv: "handles_inv invar live s tbl" and obj: "object \<noteq> nullptr" "map_of tbl object = None"
    and rdy: "ready (sizeof_HandleObject # sizeof_ListElem # ns) (lheap s)"
    and res: "CreateHandle_unchecked alloc PROCESS_HANDLE object (Some out) s = ret (st, hv, s')"
  shows "st = STATUS_SUCCESS \<and> hv = Some (next_handle tbl) \<and>
    handles_inv invar live s' (tbl @ [(object, next_handle tbl)]) \<and> ready ns (lheap s')"
proof -
  obtain ps xs where r: "list_rep (lnodes s) (processHandleList s) ps xs" "set xs \<subseteq> dom (handle_objs s)"
      "tbl = entries s xs"
    using inv by (auto simp: handles_inv_def)
  have i: "list_heap_ok invar live s" "dom (handle_objs s) \<subseteq> live (lheap s)" "nullptr \<notin> dom (handle_objs s)"
      "table_ok tbl (s_NextHandleValue s)" using inv by (auto simp: handles_inv_def)
  have nh: "s_NextHandleValue s = next_handle tbl" using i(4) by (simp add: table_ok_def)
  obtain q h where a: "alloc sizeof_HandleObject (lheap s) = ret (q, h)"
    using res obj(1) by (auto simp: CreateHandle_unchecked_def andThen_eq_ret_iff)
  have q: "q \<noteq> nullptr" "q \<notin> live (lheap s)" "live h = insert q (live (lheap s))" "invar h" "ready (sizeof_ListElem # ns) h"
    using alloc_fresh [OF _ _ _ rdy a] i(1) by (auto simp: list_heap_ok_def)
  define s1 where "s1 = s\<lparr>lheap := h, handle_objs := (handle_objs s)(q \<mapsto> \<lparr>ho_handle = next_handle tbl, ho_object = object\<rparr>),
      s_NextHandleValue := next_handle tbl + 1\<rparr>"
  have psh: "ListPush alloc (processHandleList s) q s1 = ret s'" "st = STATUS_SUCCESS" "hv = Some (next_handle tbl)"
    using res obj(1) q(1) by (auto simp: CreateHandle_unchecked_def a nh s1_def andThen_eq_ret_iff Let_def)
  have ok1: "list_heap_ok invar live s1" using i(1) q by (auto simp: list_heap_ok_def s1_def)
  have rep1: "list_rep (lnodes s1) (processHandleList s) ps xs" using r(1) by (simp add: s1_def)
  have rd1: "ready (sizeof_ListElem # ns) (lheap s1)" using q(5) by (simp add: s1_def)
  obtain new where n: "live (lheap s') = set new \<union> live (lheap s1)"
      "list_rep (lnodes s') (processHandleList s) (ps @ new) (xs @ [q])" "list_heap_ok invar live s'"
      "list_heap.more s' = list_heap.more s1" "ready ns (lheap s')"
    using push_rep [OF ok1 rep1 q(1) rd1 psh(1)] by (auto simp: nodes_change_def)
  have m: "handle_objs s' = handle_objs s1" "s_NextHandleValue s' = s_NextHandleValue s1" "processHandleList s' = processHandleList s1"
    using n(4) by (cases s', cases s1, simp)+
  have qx: "q \<notin> set xs" using q(2) r(2) i(2) by blast
  have "entries s' xs = tbl" unfolding r(3) entries_def using qx by (intro map_cong) (auto simp: m s1_def)
  then have "entries s' (xs @ [q]) = tbl @ [(object, next_handle tbl)]" by (simp add: entries_def m s1_def)
  moreover have "table_ok (tbl @ [(object, next_handle tbl)]) (s_NextHandleValue s')"
    using table_ok_snoc [OF i(4) obj] by (simp add: nh m s1_def)
  moreover have "dom (handle_objs s') \<subseteq> live (lheap s')" "nullptr \<notin> dom (handle_objs s')" "set (xs @ [q]) \<subseteq> dom (handle_objs s')"
    using i(2,3) q(1,3) n(1) r(2) by (auto simp: m s1_def)
  ultimately have "handles_inv invar live s' (tbl @ [(object, next_handle tbl)])"
    unfolding handles_inv_def using n(2,3) m(3) by (intro conjI exI [of _ "ps @ new"] exI [of _ "xs @ [q]"]) (simp_all add: s1_def)
  then show ?thesis using psh n(5) by simp
qed

lemma unchecked_safe:
  assumes inv: "handles_inv invar live s tbl" and obj: "object \<noteq> nullptr"
    and rdy: "ready (sizeof_HandleObject # sizeof_ListElem # ns) (lheap s)"
  shows "safe (CreateHandle_unchecked alloc PROCESS_HANDLE object (Some out) s)"
proof -
  have i: "list_heap_ok invar live s" using inv by (auto simp: handles_inv_def)
  obtain ps xs where r: "list_rep (lnodes s) (processHandleList s) ps xs" using inv by (auto simp: handles_inv_def)
  have "safe (ListPush alloc (processHandleList s) q (s\<lparr>lheap := h, handle_objs := ho, s_NextHandleValue := v\<rparr>))"
    if a: "alloc sizeof_HandleObject (lheap s) = ret (q, h)" for q h ho v
  proof -
    have q: "q \<noteq> nullptr" "live h = insert q (live (lheap s))" "invar h" "ready (sizeof_ListElem # ns) h"
      using alloc_fresh [OF _ _ _ rdy a] i by (auto simp: list_heap_ok_def)
    show ?thesis by (rule push_safe) (use q i r in \<open>auto simp: list_heap_ok_def\<close>)
  qed
  then show ?thesis
    unfolding CreateHandle_unchecked_def using obj i rdy
    by (auto intro!: safe_andThen alloc_safe simp: Let_def list_heap_ok_def)
qed

text \<open>\<^verbatim>\<open>HandleManager::CreateHandle\<close> refuses an object that has a handle.\<close>

lemma create_handle_ok:
  assumes inv: "handles_inv invar live s tbl" and obj: "object \<noteq> nullptr"
    and rdy: "ready (sizeof_HandleObject # sizeof_ListElem # ns) (lheap s)"
  shows "safe (CreateHandle alloc PROCESS_HANDLE object (Some out) s)"
    and "CreateHandle alloc PROCESS_HANDLE object (Some out) s = ret (st, hv, s') \<Longrightarrow>
      (case map_of tbl object of
        Some v \<Rightarrow> st = STATUS_HANDLE_ALREADY_EXIST \<and> hv = Some out \<and> s' = s
      | None \<Rightarrow> st = STATUS_SUCCESS \<and> hv = Some (next_handle tbl) \<and>
          handles_inv invar live s' (tbl @ [(object, next_handle tbl)]) \<and> ready ns (lheap s'))"
proof -
  note find = FindFromObjectPtr_spec [OF inv obj]
  show "safe (CreateHandle alloc PROCESS_HANDLE object (Some out) s)"
    using unchecked_safe [OF inv obj rdy] obj
    by (auto intro!: safe_andThen simp: CreateHandle_def find FAILED_def split: option.splits prod.splits)
  assume res: "CreateHandle alloc PROCESS_HANDLE object (Some out) s = ret (st, hv, s')"
  show "case map_of tbl object of
        Some v \<Rightarrow> st = STATUS_HANDLE_ALREADY_EXIST \<and> hv = Some out \<and> s' = s
      | None \<Rightarrow> st = STATUS_SUCCESS \<and> hv = Some (next_handle tbl) \<and>
          handles_inv invar live s' (tbl @ [(object, next_handle tbl)]) \<and> ready ns (lheap s')"
  proof (cases "map_of tbl object")
    case None
    obtain st1 hv1 s1 where u: "CreateHandle_unchecked alloc PROCESS_HANDLE object (Some INVALID_HANDLE_VALUE) s = ret (st1, hv1, s1)"
        "(if FAILED st1 then (st1, Some out, s1) else (STATUS_SUCCESS, hv1, s1)) = (st, hv, s')"
      using res obj None by (auto simp: CreateHandle_def find FAILED_def andThen_eq_ret_iff split: if_splits)
    then show ?thesis using unchecked_ok [OF inv obj None rdy u(1)] None by (auto simp: FAILED_def)
  next
    case (Some v)
    then show ?thesis using res obj by (simp add: CreateHandle_def find FAILED_def)
  qed
qed

text \<open>\<^verbatim>\<open>HandleManager::FindOrCreate\<close> gives an object the handle it has, or the next one.\<close>

lemma find_or_create_ok:
  assumes inv: "handles_inv invar live s tbl" and obj: "object \<noteq> nullptr"
    and rdy: "ready (sizeof_HandleObject # sizeof_ListElem # ns) (lheap s)"
  shows "safe (FindOrCreate alloc PROCESS_HANDLE object (Some out) s)"
    and "FindOrCreate alloc PROCESS_HANDLE object (Some out) s = ret (st, hv, s') \<Longrightarrow>
      (\<exists>tbl'. st = STATUS_SUCCESS \<and> hv = map_of tbl' object \<and> handles_inv invar live s' tbl' \<and> ready ns (lheap s') \<and>
        tbl' = (if map_of tbl object = None then tbl @ [(object, next_handle tbl)] else tbl) \<and>
        (map_of tbl object \<noteq> None \<longrightarrow> s' = s))"
proof -
  note find = FindFromObjectPtr_spec [OF inv obj]
  note cr = create_handle_ok [OF inv obj rdy]
  show "safe (FindOrCreate alloc PROCESS_HANDLE object (Some out) s)"
    using cr(1) obj
    by (auto intro!: safe_andThen simp: FindOrCreate_def find FAILED_def split: option.splits prod.splits)
  assume res: "FindOrCreate alloc PROCESS_HANDLE object (Some out) s = ret (st, hv, s')"
  show "\<exists>tbl'. st = STATUS_SUCCESS \<and> hv = map_of tbl' object \<and> handles_inv invar live s' tbl' \<and> ready ns (lheap s') \<and>
        tbl' = (if map_of tbl object = None then tbl @ [(object, next_handle tbl)] else tbl) \<and>
        (map_of tbl object \<noteq> None \<longrightarrow> s' = s)"
  proof (cases "map_of tbl object")
    case None
    obtain st1 hv1 s1 where u: "CreateHandle alloc PROCESS_HANDLE object (Some INVALID_HANDLE_VALUE) s = ret (st1, hv1, s1)"
        "(if st1 \<noteq> STATUS_SUCCESS then (st1, Some out, s1) else (STATUS_SUCCESS, hv1, s1)) = (st, hv, s')"
      using res obj None by (auto simp: FindOrCreate_def find FAILED_def andThen_eq_ret_iff split: if_splits)
    have "map_of (tbl @ [(object, next_handle tbl)]) object = Some (next_handle tbl)" using None by (simp add: map_add_def)
    then show ?thesis using cr(2) [OF u(1)] u(2) None by auto
  next
    case (Some v)
    then have "st = STATUS_SUCCESS" "hv = Some v" "s' = s"
      using res obj by (auto simp: FindOrCreate_def find FAILED_def)
    then show ?thesis using Some inv ready_later [OF ready_later [OF rdy]] by simp
  qed
qed

end

end
