(* ===== verification/Memory_Properties.thy ===== *)
theory Memory_Properties
  imports Kernel_Boot Handle_Manager
begin

section \<open>Properties of the memory managers\<close>

text \<open>
  The main theorems on physical pages, address translation, heap, lists, page pool and handles.
  The witnesses start from the memory of a booted machine.
\<close>

subsection \<open>A booted machine\<close>

definition power_on :: pool where
  "power_on = \<lparr>memBitmap = (\<lambda>_. 0), pmem = (\<lambda>_. 0), cr3 = 0, paging = False, s_SavedPageDirectoryEntry = 0,
     baseBlock = 0, limitBlock = 0, lastBlock = 0, pblocks = Map.empty, availPageList = nullptr,
     usedPageList = nullptr, pool_base = 0, pool_limit = 0\<rparr>"

definition grub_info :: MultibootPartialInfo where
  "grub_info = \<lparr>mbi_flags = 1, low_mem = 640, high_mem = 65536, mods_count = 0, mods_addr = nullptr\<rparr>"

definition booted :: pool where
  "booted = (case boot_memory 0x100000 (\<lambda>_. 0x200000) grub_info MULTIBOOT_HEADER_MAGIC power_on of
     Some (Inr s) \<Rightarrow> s | _ \<Rightarrow> power_on)"

lemma grub_ram: "FlagOn (mbi_flags grub_info) MEM_INFO" "ram_pages (high_mem grub_info) = 16384"
  by (simp_all add: grub_info_def ram_pages_def FlagOn_def)

lemma boot_returns: "boot_memory 0x100000 (\<lambda>_. 0x200000) grub_info MULTIBOOT_HEADER_MAGIC power_on = ret booted"
  and booted_heap: "heap_inv booted [(4096, False), (32772, True), (4092, False)]" "last_page booted = 4106"
  and booted_pool: "\<exists>as. pool_inv booted as [] \<and> length as = 2048"
  and booted_free: "free_frames booted = 14326"
proof -
  have p: "\<not> paging power_on" "usedPageList power_on = nullptr" by (simp_all add: power_on_def)
  obtain s as where s: "boot_memory 0x100000 (\<lambda>_. 0x200000) grub_info MULTIBOOT_HEADER_MAGIC power_on = ret s"
      "heap_inv s [(4096, False), (32772, True), (4092, False)]" "last_page s = 4106" "pool_inv s as []" "length as = 2048"
      "free_frames s = 14326"
    using boot_memory_ok [OF p grub_ram(1), of "0x100000" "\<lambda>_. 0x200000"] by (auto simp: grub_ram(2))
  moreover then have "booted = s" by (simp add: booted_def ret_def)
  ultimately show "boot_memory 0x100000 (\<lambda>_. 0x200000) grub_info MULTIBOOT_HEADER_MAGIC power_on = ret booted"
    "heap_inv booted [(4096, False), (32772, True), (4092, False)]" "last_page booted = 4106"
    "\<exists>as. pool_inv booted as [] \<and> length as = 2048" "free_frames booted = 14326" by auto
qed

lemma booted_ok: "heap_ok booted" "mergeable booted" "heap_ready ns booted \<longleftrightarrow> (\<Sum>n\<leftarrow>ns. n_pages (nat n + 4)) \<le> 14326"
  using booted_heap by (auto simp: heap_ok_def mergeable_def heap_ready_def booted_free)

lemma booted_map: "heap_map 4106 booted"
  using heap_invD(1) [OF booted_heap(1)] booted_heap(2) by simp

lemma booted_space: "kernel_space booted" "self_map booted"
  using booted_map by (auto simp: heap_map_def kernel_space_def)

subsection \<open>Physical pages\<close>

text \<open>As long as a page is free, \<^verbatim>\<open>GetFreePage\<close> returns the address of a page that was not
  in use and marks this page and no other; releasing it again restores the set of used pages. It
  returns the failure value -1 exactly when every page is in use.\<close>

theorem GetFreePage_ReleasePage:
  assumes "GetFreePage s = (a, s')"
  shows "(a = -1 \<longleftrightarrow> used_pages s = {..<RAM_MAXPAGE}) \<and>
    (a \<noteq> -1 \<longrightarrow> (\<exists>p<RAM_MAXPAGE. a = of_nat p * PAGE_SIZE \<and> p \<notin> used_pages s \<and> (\<forall>q<p. q \<in> used_pages s) \<and>
       used_pages s' = insert p (used_pages s)) \<and> used_pages (ReleasePage a s') = used_pages s)"
proof -
  have "(\<exists>p<RAM_MAXPAGE. a = of_nat p * PAGE_SIZE \<and> p \<notin> used_pages s \<and> (\<forall>q<p. q \<in> used_pages s) \<and>
       used_pages s' = insert p (used_pages s)) \<and> used_pages (ReleasePage a s') = used_pages s"
    if n: "used_pages s \<noteq> {..<RAM_MAXPAGE}"
    using GetFreePage_Some [OF n] pmm.get_release [OF n assms] assms by (metis fst_conv snd_conv)
  then show ?thesis using pmm.get_fails_iff [OF assms] by blast
qed

theorem GetFreePage_ReleasePage_witness:
  "used_pages (ReleasePage (fst (GetFreePage booted)) (snd (GetFreePage booted))) = used_pages booted"
proof -
  have "used_pages booted \<noteq> {..<RAM_MAXPAGE}" using booted_free unfolding free_frames_def by (metis Diff_cancel card.empty zero_neq_numeral)
  then show ?thesis using GetFreePage_ReleasePage [of booted, OF surjective_pairing] by metis
qed

text \<open>After \<^verbatim>\<open>PmmBitmap::Init\<close> the used pages are those of the kernel and those beyond the
  announced RAM (rounded down to whole bytes of the bitmap), all others are free.\<close>

theorem Pmm_Init_used:
  "used_pages (Pmm_Init hm limit s) =
     {p. p < RAM_MAXPAGE \<and> (p < unat limit div 4096 \<or> unat ((hm * 1024) div PAGE_SIZE) div 8 * 8 \<le> p)}"
  by (auto simp: used_pages_Init)

subsection \<open>Address translation\<close>

text \<open>C5: On a self-mapped page directory the software walk \<^verbatim>\<open>Vmm::GetPhysicalAddressOf\<close> never
  faults and computes what the MMU computes, 0 standing for an unmapped address.\<close>

theorem GetPhysicalAddressOf_is_mmu:
  assumes "self_map s"
  shows "GetPhysicalAddressOf v s = ret (case mmu s v of None \<Rightarrow> 0 | Some p \<Rightarrow> p)"
  by (rule GetPhysicalAddressOf_mmu [OF assms])

theorem GetPhysicalAddressOf_is_mmu_witness:
  "self_map booted \<and> GetPhysicalAddressOf 0x1000004 booted = ret (case mmu booted 0x1000004 of None \<Rightarrow> 0 | Some p \<Rightarrow> p)"
  using GetPhysicalAddressOf_is_mmu [of booted "0x1000004"] booted_space(2) by blast

text \<open>\<^verbatim>\<open>Vmm::Init\<close> on a machine with paging off returns with a kernel address space: below
  0x40000000 each address translates to itself in the first 8 MiB and to physical page 0 above,
  except in the last page of each page table, which translates to the table itself. Physical
  memory outside the page directory and the page tables is untouched.\<close>

theorem Vmm_Init_maps:
  assumes "\<not> paging s"
  shows "\<exists>s'. Vmm_Init s = ret s' \<and> kernel_space s' \<and> memBitmap s' = memBitmap s \<and>
    (\<forall>v. v < V_USER_BASE_ADDR \<longrightarrow> mmu s' v = Some
       (if tab v = 1023 then phys (1024 + dir v) (off v) else if dir v < 2 then v else phys 0 (off v))) \<and>
    (\<forall>g i. g \<noteq> 1 \<longrightarrow> \<not> (1024 \<le> g \<and> g < 1280) \<longrightarrow> g < 1048576 \<longrightarrow> i < 4096 \<longrightarrow> pmem s' (phys g i) = pmem s (phys g i))"
  using Vmm_Init_ok [OF assms] by metis

theorem Vmm_Init_maps_witness:
  "\<exists>s'. Vmm_Init power_on = ret s' \<and> mmu s' 0x123456 = Some 0x123456"
proof -
  have "\<not> paging power_on" by (simp add: power_on_def)
  from Vmm_Init_maps [OF this] obtain s' where s': "Vmm_Init power_on = ret s'"
    "\<forall>v. v < V_USER_BASE_ADDR \<longrightarrow> mmu s' v = Some
       (if tab v = 1023 then phys (1024 + dir v) (off v) else if dir v < 2 then v else phys 0 (off v))" by blast
  moreover have "tab 0x123456 \<noteq> 1023" "dir 0x123456 < 2" by (simp_all add: tab_def dir_def)
  ultimately show ?thesis by auto
qed

text \<open>C6: \<^verbatim>\<open>Vmm::AddPageToKernelPageDirectory\<close> on a kernel page maps exactly this page to the given
  frame: the translation of every other kernel address and the memory outside the kernel's page
  tables stay as they were.\<close>

theorem AddPage_maps_one_page:
  assumes "kernel_space s" and "q < 262144"
  shows "\<exists>m. AddPageToKernelPageDirectory (phys q 0) p flgs s = ret (s\<lparr>pmem := m\<rparr>) \<and> kernel_space (s\<lparr>pmem := m\<rparr>) \<and>
    (\<forall>u. frame_of u < 262144 \<longrightarrow> mmu (s\<lparr>pmem := m\<rparr>) u =
       (if frame_of u = q then Some (phys (frame_of p) (off u)) else mmu s u)) \<and>
    (\<forall>f i. \<not> (1024 \<le> f \<and> f < 1280) \<longrightarrow> f < 1048576 \<longrightarrow> i < 4096 \<longrightarrow> m (phys f i) = pmem s (phys f i))"
  using kernel_map_page [OF assms] by metis

theorem AddPage_maps_one_page_witness:
  "\<exists>m. AddPageToKernelPageDirectory (phys 2048 0) 0x5000 3 booted = ret (booted\<lparr>pmem := m\<rparr>) \<and>
    mmu (booted\<lparr>pmem := m\<rparr>) (phys 2048 0) = Some 0x5000"
proof -
  have "(2048 :: nat) < 262144" by simp
  from AddPage_maps_one_page [OF booted_space(1) this, of "0x5000" 3]
  obtain m where "AddPageToKernelPageDirectory (phys 2048 0) 0x5000 3 booted = ret (booted\<lparr>pmem := m\<rparr>)"
    "\<forall>u. frame_of u < 262144 \<longrightarrow> mmu (booted\<lparr>pmem := m\<rparr>) u =
       (if frame_of u = 2048 then Some (phys (frame_of 0x5000) (off u)) else mmu booted u)" by blast
  moreover have "phys (frame_of 0x5000) 0 = 0x5000" by (simp add: frame_of_def phys_def)
  ultimately show ?thesis by auto
qed

subsection \<open>The heap\<close>

text \<open>C3: \<^verbatim>\<open>Heap::Allocate\<close> implements first fit on the list of blocks: when a free block fits or
  the heap can grow, it returns the address behind the header of the block first fit chooses, the
  heap then holds the blocks of the abstract allocation, it has grown by exactly the pages needed,
  and no byte of the heap outside the chosen block has changed.\<close>

theorem HeapAlloc_first_fit:
  assumes "heap_inv s bs" "0 < n" "n < 2147483648"
    and "some_fits (n + 4) bs \<or> last_page s + n_pages (n + 4) \<le> 262144 \<and> n_pages (n + 4) \<le> free_frames s"
  shows "\<exists>s'. HeapAlloc (int n) s = ret (of_nat (alloc_addr (n + 4) bs + 4), s') \<and>
    heap_inv s' (alloc_list (n + 4) bs) \<and>
    last_page s' = last_page s + (if some_fits (n + 4) bs then 0 else n_pages (n + 4)) \<and>
    same_but (last_page s) (alloc_addr (n + 4) bs) (alloc_room (n + 4) bs) (view s) (view s')"
  using HeapAlloc_ok [OF assms] by blast

theorem HeapAlloc_first_fit_witness:
  "\<exists>s'. HeapAlloc 100 booted = ret (0x1000004, s') \<and>
    heap_inv s' [(104, True), (3992, False), (32772, True), (4092, False)] \<and> last_page s' = 4106"
proof -
  have "some_fits (100 + 4) [(4096, False), (32772, True), (4092, False)]" by (simp add: some_fits_def fits_def)
  then show ?thesis
    using HeapAlloc_first_fit [OF booted_heap(1), of 100] booted_heap(2)
    by (simp add: alloc_addr_def alloc_list_def fits_def place_def) blast
qed

text \<open>C4: \<^verbatim>\<open>Heap::Free\<close> of a block in use gives the block back, merged with all the free blocks
  that directly follow it; nothing outside the block has changed and the heap keeps its size.\<close>

theorem HeapFree_merges:
  assumes "heap_inv s (pre @ (n, True) # post)" and "mergeable s"
  shows "\<exists>s'. HeapFree (of_nat (16777216 + total pre + 4)) s = ret s' \<and>
    heap_inv s' (pre @ (n + total (takeWhile (\<lambda>b. \<not> snd b) post), False) # dropWhile (\<lambda>b. \<not> snd b) post) \<and>
    last_page s' = last_page s \<and> same_but (last_page s) (16777216 + total pre) n (view s) (view s')"
  using HeapFree_ok [OF assms] by (auto simp: free_list_def)

theorem HeapFree_merges_witness:
  "\<exists>s'. HeapFree 0x1001004 booted = ret s' \<and> heap_inv s' [(4096, False), (36864, False)]"
proof -
  have "heap_inv booted ([(4096, False)] @ (32772, True) # [(4092, False)])" using booted_heap(1) by simp
  from HeapFree_merges [OF this booted_ok(2)] show ?thesis by auto
qed

text \<open>Freeing a block that is already free changes nothing.\<close>

theorem HeapFree_twice:
  assumes "heap_inv s (pre @ (n, False) # post)"
  shows "HeapFree (of_nat (16777216 + total pre + 4)) s = ret s"
  by (rule HeapFree_double [OF assms])

theorem HeapFree_twice_witness: "HeapFree 0x1000004 booted = ret booted"
  using HeapFree_twice [of booted "[]" 4096 "[(32772, True), (4092, False)]"] booted_heap(1) by simp

text \<open>At its limit the heap stops the machine: with no fitting block and not enough room below
  0x40000000 the allocation ends in a kernel panic, never in a bad pointer.\<close>

theorem HeapAlloc_panics_at_limit:
  assumes "heap_inv s bs" "0 < n" "n < 2147483648"
    and "\<not> some_fits (n + 4) bs" "262144 < last_page s + n_pages (n + 4)"
  shows "HeapAlloc (int n) s = halt Panicked"
  by (rule HeapAlloc_limit [OF assms])

theorem HeapAlloc_panics_at_limit_witness: "HeapAlloc 1073741824 booted = halt Panicked"
proof -
  have "\<not> some_fits (1073741824 + 4) [(4096, False), (32772, True), (4092, False)]" by (simp add: some_fits_def fits_def)
  moreover have "262144 < last_page booted + n_pages (1073741824 + 4)" by (simp add: n_pages_def booted_heap(2))
  ultimately show ?thesis using HeapAlloc_panics_at_limit [OF booted_heap(1), of 1073741824] by simp
qed

text \<open>C11: \<^verbatim>\<open>Heap::Dump\<close> terminates and lists exactly the blocks of the heap, in address order.\<close>

theorem Heap_Dump_lists:
  assumes "heap_inv s bs"
  shows "Heap_Dump s = ret (block_table 16777216 bs)"
  by (rule Heap_Dump_ok [OF assms])

theorem Heap_Dump_lists_witness:
  "Heap_Dump booted = ret (block_table 16777216 [(4096, False), (32772, True), (4092, False)])"
  using Heap_Dump_lists [OF booted_heap(1)] .

subsection \<open>Any sequence of memory operations\<close>

text \<open>
  The states of the memory managers that boot, allocations, releases and page allocations lead to.
  An allocation is only taken when the RAM holds enough free frames, a release only for a pointer
  in use while the heap does not end at a page table's last page (see \<open>mergeable\<close>).
\<close>

inductive mem_reach :: "pool \<Rightarrow> bool" where
  boot: "\<not> paging s \<Longrightarrow> usedPageList s = nullptr \<Longrightarrow> 2058 \<le> ram_pages (high_mem mbi) \<Longrightarrow>
    boot_memory gTss isr mbi magic s = ret s' \<Longrightarrow> mem_reach s'"
| alloc: "mem_reach s \<Longrightarrow> 0 < n \<Longrightarrow> n < 2147483648 \<Longrightarrow> heap_ready [n] s \<Longrightarrow>
    HeapAlloc n s = ret (p, s') \<Longrightarrow> mem_reach s'"
| free: "mem_reach s \<Longrightarrow> p \<in> live_ptrs s \<Longrightarrow> mergeable s \<Longrightarrow> HeapFree p s = ret s' \<Longrightarrow> mem_reach s'"
| page: "mem_reach s \<Longrightarrow> 0 < free_frames s \<Longrightarrow> PageAlloc s = ret (pg, s') \<Longrightarrow> mem_reach s'"







lemma booted_reach: "mem_reach booted"
  by (rule mem_reach.boot [OF _ _ _ boot_returns]) (simp_all add: power_on_def grub_ram)


subsection \<open>The page pool\<close>

text \<open>\<^verbatim>\<open>PagePool::Allocate\<close> with a page available and a free frame moves the first available
  block to the head of the used ones, and maps its page to a frame that was free; the heap's
  content and mapping are untouched.\<close>

theorem PageAlloc_takes_page:
  assumes "pool_inv s (a # as) us" and "heap_map L s" and "0 < free_frames s"
  shows "\<exists>p s'. PageAlloc s = ret (\<lparr>pAddr = phys p 0, vAddr = pb_addr (block_of s a)\<rparr>, s') \<and>
    pool_inv s' as (a # us) \<and> p \<notin> used_pages s \<and> used_pages s' = insert p (used_pages s) \<and>
    mmu s' (pb_addr (block_of s a)) = Some (phys p 0) \<and> heap_map L s' \<and> agree L (view s') (view s)"
  using PageAlloc_ok [OF assms] by metis

theorem PageAlloc_takes_page_witness:
  "\<exists>pg s'. PageAlloc booted = ret (pg, s') \<and> mmu s' (vAddr pg) = Some (pAddr pg)"
proof -
  obtain a as where "pool_inv booted (a # as) []" using booted_pool by (metis Suc_length_conv numeral_2_eq_2 numeral_eq_Suc)
  moreover have "0 < free_frames booted" by (simp add: booted_free)
  ultimately show ?thesis using PageAlloc_takes_page [OF _ booted_map] by fastforce
qed

text \<open>C10: A page allocated from the pool and freed again is back where it was: the available and the
  used blocks and the set of used frames are the ones before, as long as another page is still
  available when it is freed.\<close>

theorem PageAlloc_PageFree:
  assumes inv: "pool_inv s (a # b # as) us" and h: "heap_map L s" "0 < free_frames s"
  shows "\<exists>pg s1 s2. PageAlloc s = ret (pg, s1) \<and> PageFree pg s1 = ret s2 \<and>
    pool_inv s2 (a # b # as) us \<and> used_pages s2 = used_pages s"
proof -
  obtain p s1 where s1: "PageAlloc s = ret (\<lparr>pAddr = phys p 0, vAddr = pb_addr (block_of s a)\<rparr>, s1)"
      "pool_inv s1 (b # as) (a # us)" "p \<notin> used_pages s" "p < RAM_MAXPAGE" "used_pages s1 = insert p (used_pages s)"
      "pb_addr (block_of s1 a) = pb_addr (block_of s a)"
    using PageAlloc_ok [OF inv h] by metis
  let ?pg = "\<lparr>pAddr = phys p 0, vAddr = pb_addr (block_of s a)\<rparr>"
  obtain s2 where "PageFree ?pg s1 = ret s2" "pool_inv s2 (a # b # as) us"
      "used_pages s2 = used_pages s1 - {unat (pAddr ?pg) div 4096}"
    using PageFree_head [OF s1(2), of ?pg] s1(6) by auto
  moreover have "unat (pAddr ?pg) div 4096 = p" using s1(4) by (simp add: unat_phys)
  ultimately show ?thesis using s1 by auto
qed

lemma booted_two_pages: obtains a b as where "pool_inv booted (a # b # as) []"
proof -
  obtain as' where "pool_inv booted as' []" "length as' = Suc (Suc 2046)" using booted_pool by auto
  with that show ?thesis by (metis Suc_length_conv)
qed

theorem PageAlloc_PageFree_witness:
  "\<exists>pg s1 s2. PageAlloc booted = ret (pg, s1) \<and> PageFree pg s1 = ret s2 \<and> used_pages s2 = used_pages booted"
proof -
  obtain a b as where ab: "pool_inv booted (a # b # as) []" by (rule booted_two_pages)
  have "0 < free_frames booted" by (simp add: booted_free)
  from PageAlloc_PageFree [OF ab booted_map this] show ?thesis by blast
qed

text \<open>Freeing any other page breaks the pool: the freed block stays on the used list, which then
  runs on into the available one, so that available pages are found on both lists.\<close>

theorem PageFree_keeps_freed_block:
  assumes "pool_inv s (a # as) (v # u # us)" and "vAddr pg = pb_addr (block_of s u)"
  shows "\<exists>s'. PageFree pg s = ret s' \<and>
    chain pb_next (pblocks s') (availPageList s') (u # a # as) \<and>
    chain pb_next (pblocks s') (usedPageList s') (v # u # a # as) \<and>
    (\<forall>x \<in> set (u # a # as). pb_available (block_of s' x))"
  by (rule PageFree_second [OF assms])

lemma booted_two_used:
  obtains s a as v u where "pool_inv s (a # as) [v, u]" "mem_reach s"
proof -
  obtain as' where as': "pool_inv booted as' []" "3 \<le> length as'" using booted_pool by auto
  obtain a b c as where "as' = a # b # c # as" using as'(2) by (auto simp: numeral_eq_Suc Suc_le_length_iff)
  then have ab: "pool_inv booted (a # b # c # as) []" using as'(1) by simp
  have f: "0 < free_frames booted" by (simp add: booted_free)
  obtain p s1 where s1: "PageAlloc booted = ret (\<lparr>pAddr = phys p 0, vAddr = pb_addr (block_of booted a)\<rparr>, s1)"
      "pool_inv s1 (b # c # as) [a]" "heap_map 4106 s1" "used_pages s1 = insert p (used_pages booted)" "p < RAM_MAXPAGE"
    using PageAlloc_ok [OF ab booted_map f] by metis
  have "free_frames s1 \<ge> free_frames booted - 1"
  proof -
    have "{..<RAM_MAXPAGE} - used_pages s1 = ({..<RAM_MAXPAGE} - used_pages booted) - {p}" unfolding s1(4) by blast
    then show ?thesis unfolding free_frames_def by (simp only: card_Diff_singleton_if) (simp split: if_split)
  qed
  then have f1: "0 < free_frames s1" by (simp add: booted_free)
  obtain p' s2 where s2: "PageAlloc s1 = ret (\<lparr>pAddr = phys p' 0, vAddr = pb_addr (block_of s1 b)\<rparr>, s2)"
      "pool_inv s2 (c # as) [b, a]"
    using PageAlloc_ok [OF s1(2,3) f1] by metis
  have "mem_reach s1" by (rule mem_reach.page [OF booted_reach f s1(1)])
  then have "mem_reach s2" by (rule mem_reach.page [OF _ f1 s2(1)])
  with that s2(2) show ?thesis by blast
qed

theorem PageFree_keeps_freed_block_witness:
  "\<exists>s pg s' u. mem_reach s \<and> PageFree pg s = ret s' \<and> pb_available (block_of s' u) \<and>
    (\<exists>v us. chain pb_next (pblocks s') (usedPageList s') (v # u # us))"
proof -
  obtain s a as v u where s: "pool_inv s (a # as) [v, u]" "mem_reach s" by (rule booted_two_used)
  have "vAddr \<lparr>pAddr = 0, vAddr = pb_addr (block_of s u)\<rparr> = pb_addr (block_of s u)" by simp
  from PageFree_keeps_freed_block [OF s(1) this] s(2) show ?thesis by (metis list.set_intros(1))
qed

subsection \<open>Lists and handles on the kernel heap\<close>

text \<open>C8: \<^verbatim>\<open>ListPush\<close> on a list whose nodes live in the kernel heap makes no invalid access; when it
  returns, the list holds the new element at its end and every other list of the store is as before.\<close>

theorem ListPush_appends:
  assumes "list_heap_ok heap_ok live_ptrs s" and "list_rep (lnodes s) p ps xs" and "d \<noteq> nullptr"
    and "heap_ready [sizeof_ListElem] (lheap s)"
  shows "safe (ListPush HeapAlloc p d s) \<and>
    (\<forall>s'. ListPush HeapAlloc p d s = ret s' \<longrightarrow> list_heap_ok heap_ok live_ptrs s' \<and>
       (\<exists>ps'. list_rep (lnodes s') p ps' (xs @ [d])) \<and>
       (\<forall>q qs ys. list_rep (lnodes s) q qs ys \<and> set qs \<inter> set ps = {} \<longrightarrow> list_rep (lnodes s') q qs ys))"
proof (intro conjI allI impI)
  show "safe (ListPush HeapAlloc p d s)" by (rule kheap.push_safe [OF assms(1,2,4)])
  fix s' assume "ListPush HeapAlloc p d s = ret s'"
  from kheap.push_rep [OF assms(1-4) this] obtain new where n: "set new \<inter> live_ptrs (lheap s) = {}"
      "list_rep (lnodes s') p (ps @ new) (xs @ [d])" "list_heap_ok heap_ok live_ptrs s'"
      "nodes_change (set ps \<union> set new) s s'" by blast
  show "list_heap_ok heap_ok live_ptrs s'" "\<exists>ps'. list_rep (lnodes s') p ps' (xs @ [d])" using n by blast+
  fix q qs ys assume q: "list_rep (lnodes s) q qs ys \<and> set qs \<inter> set ps = {}"
  then have "set qs \<subseteq> live_ptrs (lheap s)"
    using chain_dom [OF list_repD(1)] assms(1) unfolding list_heap_ok_def by blast
  then show "list_rep (lnodes s') q qs ys" using q n(1) by (intro list_rep_frame [OF n(4)]) blast+
qed

text \<open>A list created on the booted machine.\<close>

lemma booted_list:
  obtains p s where "ListCreate HeapAlloc \<lparr>lheap = booted, lnodes = Map.empty\<rparr> = ret (p, s)"
    "list_heap_ok heap_ok live_ptrs s" "list_rep (lnodes s) p [p] []" "heap_ready [12, 12] (lheap s)" "mergeable (lheap s)"
proof -
  let ?s = "\<lparr>lheap = booted, lnodes = Map.empty\<rparr> :: pool list_heap"
  have ok: "list_heap_ok heap_ok live_ptrs ?s" "heap_ready (sizeof_ListElem # [12, 12]) (lheap ?s)"
    by (simp_all add: list_heap_ok_def booted_ok n_pages_def)
  have f: "some_fits (12 + 4) [(4096, False), (32772, True), (4092, False)]" by (simp add: some_fits_def fits_def)
  obtain s1 where s1: "HeapAlloc 12 booted = ret (0x1000004, s1)" "last_page s1 = 4106"
    using HeapAlloc_ok [OF booted_heap(1), of 12] f booted_heap(2) by (auto simp: alloc_addr_def fits_def)
  obtain s where s: "ListCreate HeapAlloc ?s = ret (0x1000004, s)" "lheap s = s1"
    using s1(1) by (auto simp: ListCreate_def)
  note r = kheap.create_rep [OF ok s(1)]
  have "mergeable (lheap s)" using s1(2) s(2) by (simp add: mergeable_def)
  with that [OF s(1)] r show ?thesis by blast
qed

theorem ListPush_appends_witness:
  "\<exists>p s. ListCreate HeapAlloc \<lparr>lheap = booted, lnodes = Map.empty\<rparr> = ret (p, s) \<and> safe (ListPush HeapAlloc p 5 s)"
proof -
  obtain p s where s: "ListCreate HeapAlloc \<lparr>lheap = booted, lnodes = Map.empty\<rparr> = ret (p, s)"
    "list_heap_ok heap_ok live_ptrs s" "list_rep (lnodes s) p [p] []" "heap_ready [12, 12] (lheap s)" by (rule booted_list)
  have "(5 :: addr) \<noteq> nullptr" by simp
  from ListPush_appends [OF s(2,3) this kheap.ready_later [OF s(4)]] s(1) show ?thesis by blast
qed

text \<open>C9: \<^verbatim>\<open>ListPop\<close> on a non-empty list in the kernel heap returns its oldest element and leaves the
  list with the others; it never reaches an invalid node.\<close>

theorem ListPop_removes_oldest:
  assumes "list_heap_ok heap_ok live_ptrs s" and "list_rep (lnodes s) p ps (x # xs)" and "mergeable (lheap s)"
  shows "\<exists>p' ps' s'. ListPop HeapFree (Some p) s = ret (x, Some p', s') \<and> list_rep (lnodes s') p' ps' xs \<and>
    list_heap_ok heap_ok live_ptrs s'"
  using kheap.pop_rep [OF assms] by blast

theorem ListPop_removes_oldest_witness:
  "\<exists>p s s1. ListCreate HeapAlloc \<lparr>lheap = booted, lnodes = Map.empty\<rparr> = ret (p, s) \<and> ListPush HeapAlloc p 5 s = ret s1 \<and>
    (\<exists>p' s'. ListPop HeapFree (Some p) s1 = ret (5, Some p', s'))"
proof -
  obtain p s where s: "ListCreate HeapAlloc \<lparr>lheap = booted, lnodes = Map.empty\<rparr> = ret (p, s)"
    "list_heap_ok heap_ok live_ptrs s" "list_rep (lnodes s) p [p] []" "heap_ready [12, 12] (lheap s)" "mergeable (lheap s)"
    by (rule booted_list)
  obtain e where e: "deref (lnodes s) p = ret e" "elem_data e = nullptr" "p \<noteq> nullptr"
    using list_rep_head [OF s(3)] list_repD(3) [OF s(3)] by metis
  define s1 where "s1 = s\<lparr>lnodes := (lnodes s)(p \<mapsto> e\<lparr>elem_data := 5\<rparr>)\<rparr>"
  have psh: "ListPush HeapAlloc p 5 s = ret s1" using e by (simp add: ListPush_def s1_def)
  from kheap.push_rep [OF s(2,3) _ kheap.ready_later [OF s(4)] psh]
  obtain ps' where r: "list_rep (lnodes s1) p ps' [5]" "list_heap_ok heap_ok live_ptrs s1" by auto
  have "mergeable (lheap s1)" using s(5) by (simp add: s1_def)
  from ListPop_removes_oldest [OF r(2,1) this] psh s(1) show ?thesis by blast
qed

text \<open>\<^verbatim>\<open>ListGet\<close> past the end dereferences a null pointer when the list has at most one
  element, instead of returning a null pointer as it does for longer lists.\<close>

theorem ListGet_past_the_end:
  assumes "list_rep (lnodes s) p ps xs" and "length xs \<le> i" and "1 \<le> i"
  shows "ListGet p i s = (if length xs \<le> 1 then halt BadAccess else ret nullptr)"
  using ListGet_past_end [OF assms(1,2)] assms(3) by (cases "length xs \<le> 1") simp_all

theorem ListGet_past_the_end_witness:
  "\<exists>p s. ListCreate HeapAlloc \<lparr>lheap = booted, lnodes = Map.empty\<rparr> = ret (p, s) \<and> ListGet p 1 s = halt BadAccess"
proof -
  obtain p s where s: "ListCreate HeapAlloc \<lparr>lheap = booted, lnodes = Map.empty\<rparr> = ret (p, s)" "list_rep (lnodes s) p [p] []"
    by (rule booted_list)
  then show ?thesis using ListGet_past_the_end [OF s(2), of 1] by auto
qed

text \<open>C7: \<^verbatim>\<open>HandleManager::FindOrCreate\<close> makes no invalid access and succeeds: an object that has a
  handle keeps it and nothing changes; another object gets the next number, which is entered in the
  table while every existing entry is kept.\<close>

theorem FindOrCreate_stable_handles:
  assumes "handles_inv heap_ok live_ptrs s tbl" and "object \<noteq> nullptr"
    and "heap_ready [sizeof_HandleObject, sizeof_ListElem] (lheap s)"
  shows "safe (FindOrCreate HeapAlloc PROCESS_HANDLE object (Some out) s) \<and>
    (\<forall>st hv s'. FindOrCreate HeapAlloc PROCESS_HANDLE object (Some out) s = ret (st, hv, s') \<longrightarrow>
      (\<exists>tbl'. st = STATUS_SUCCESS \<and> hv = map_of tbl' object \<and> handles_inv heap_ok live_ptrs s' tbl' \<and>
        tbl' = (if map_of tbl object = None then tbl @ [(object, next_handle tbl)] else tbl) \<and>
        (map_of tbl object \<noteq> None \<longrightarrow> s' = s)))"
  using kheap.find_or_create_ok [OF assms] by blast

definition no_handles :: "pool handles" where
  "no_handles = \<lparr>lheap = booted, lnodes = Map.empty, handle_objs = Map.empty, processHandleList = nullptr, s_NextHandleValue = 1\<rparr>"

theorem FindOrCreate_stable_handles_witness:
  "\<exists>s. HandleManager_Init HeapAlloc no_handles = ret s \<and>
     safe (FindOrCreate HeapAlloc PROCESS_HANDLE 0x1234 (Some 0) s)"
proof -
  have ok: "list_heap_ok heap_ok live_ptrs no_handles" "heap_ready (sizeof_ListElem # [8, 12]) (lheap no_handles)"
    by (simp_all add: no_handles_def list_heap_ok_def booted_ok n_pages_def)
  have f: "some_fits (12 + 4) [(4096, False), (32772, True), (4092, False)]" by (simp add: some_fits_def fits_def)
  obtain s1 where s1: "HeapAlloc 12 booted = ret (0x1000004, s1)"
    using HeapAlloc_ok [OF booted_heap(1), of 12] f by (auto simp: alloc_addr_def fits_def)
  then obtain s where s: "HandleManager_Init HeapAlloc no_handles = ret s"
    by (auto simp: HandleManager_Init_def ListCreate_def no_handles_def)
  have "handles_inv heap_ok live_ptrs s [] \<and> heap_ready [8, 12] (lheap s)"
    by (rule kheap.handles_init [OF ok _ _ _ s]) (simp_all add: no_handles_def)
  then show ?thesis using FindOrCreate_stable_handles [of s "[]" "0x1234" 0] s by auto
qed

subsection \<open>Boot\<close>

text \<open>C1: With the loader's magic number, its memory information and at least 2058 pages of RAM the
  boot sequence brings up the memory managers without a fault or an endless loop: the kernel address
  space is in place, the heap holds the page descriptors and its free blocks, and all 2048 pages
  of the pool are available. Without the magic number or the memory information it panics.\<close>

theorem boot_brings_up_memory:
  assumes "\<not> paging s" "usedPageList s = nullptr" "2058 \<le> ram_pages (high_mem mbi)"
  shows "if magic = MULTIBOOT_HEADER_MAGIC \<and> FlagOn (mbi_flags mbi) MEM_INFO
    then \<exists>s' as. boot_memory gTss isr mbi magic s = ret s' \<and> kernel_space s' \<and>
      heap_inv s' [(4096, False), (32772, True), (4092, False)] \<and> pool_inv s' as [] \<and> length as = 2048 \<and>
      free_frames s' = ram_pages (high_mem mbi) - 2058
    else boot_memory gTss isr mbi magic s = halt Panicked"
proof (cases "magic = MULTIBOOT_HEADER_MAGIC \<and> FlagOn (mbi_flags mbi) MEM_INFO")
  case True
  then obtain s' as where "boot_memory gTss isr mbi magic s = ret s'" "pool_inv s' as []" "length as = 2048"
      "heap_inv s' [(4096, False), (32772, True), (4092, False)]" "free_frames s' = ram_pages (high_mem mbi) - 2058"
    using boot_memory_ok [OF assms(1,2) _ assms(3)] by blast
  moreover then have "kernel_space s'" using heap_invD(1) heap_map_def by blast
  ultimately show ?thesis using True by auto
next
  case False
  then have "boot_memory gTss isr mbi magic s = halt Panicked" by (intro boot_memory_panics) blast
  then show ?thesis using False by (simp only: if_False)
qed

theorem boot_brings_up_memory_witness:
  "\<exists>s'. boot_memory 0x100000 (\<lambda>_. 0) grub_info MULTIBOOT_HEADER_MAGIC power_on = ret s' \<and> free_frames s' = 14326"
proof -
  have p: "\<not> paging power_on" "usedPageList power_on = nullptr" "2058 \<le> ram_pages (high_mem grub_info)"
    by (simp_all add: power_on_def grub_ram)
  show ?thesis
    using boot_brings_up_memory [OF p, of MULTIBOOT_HEADER_MAGIC "0x100000" "\<lambda>_. 0"] grub_ram by (auto split: if_splits)
qed

end
