(* ===== verification/Region_Properties.thy ===== *)
theory Region_Properties
  imports Memory_Properties Address_Regions
begin

section \<open>Properties of the address regions\<close>

text \<open>
  The theorems on the region lists of \<^verbatim>\<open>kernel/mem/Vad.cpp\<close>. The witnesses use a list of three
  regions in the memory of the booted machine.
\<close>

subsection \<open>Three regions on the booted machine\<close>

definition three_vads :: "addr \<rightharpoonup> Vad" where
  "three_vads = [
     0x1001004 \<mapsto> \<lparr>vad_base = 0x20000000, vad_limit = 0x20001000, vad_size = 0x1000, vad_free = False,
       vad_prev = nullptr, vad_next = 0x1001020\<rparr>,
     0x1001020 \<mapsto> \<lparr>vad_base = 0x20001000, vad_limit = 0x20009000, vad_size = 0x8000, vad_free = True,
       vad_prev = 0x1001004, vad_next = 0x1001040\<rparr>,
     0x1001040 \<mapsto> \<lparr>vad_base = 0x20009000, vad_limit = 0x2000B000, vad_size = 0x2000, vad_free = True,
       vad_prev = 0x1001020, vad_next = nullptr\<rparr>]"

definition three_regions :: vad_space where
  "three_regions = pool.extend booted (vad_space.fields three_vads)"

lemma three_regions_simps [simp]:
  "vads three_regions = three_vads" "pmem three_regions = pmem booted" "cr3 three_regions = cr3 booted"
  "paging three_regions = paging booted" "memBitmap three_regions = memBitmap booted"
  "baseBlock three_regions = baseBlock booted" "limitBlock three_regions = limitBlock booted" "lastBlock three_regions = lastBlock booted"
  by (simp_all add: three_regions_def pool.defs vad_space.defs)

lemma three_list:
  "vad_list (vads three_regions) 0x1001004 [0x1001004, 0x1001020, 0x1001040] 0x20000000
     [(0x1000, False), (0x8000, True), (0x2000, True)]"
  by (simp add: vad_list_def three_vads_def)

subsection \<open>Search\<close>

text \<open>C25: \<^verbatim>\<open>Vad::LookForFreeVadOfMinimumSize\<close> ends on every well-formed list and returns the first
  region that is free and large enough; without one it reports that and leaves the caller's
  variable alone.\<close>

theorem LookForFreeVad_first_fit:
  assumes "vad_list (vads s) p ps a xs" and "0 < sz" and "sz < 4294967296"
  shows "LookForFreeVadOfMinimumSize p (of_nat sz) (Some out) s =
    ret (case List.find (\<lambda>(q, n, f). f \<and> sz \<le> n) (zip ps xs) of
      None \<Rightarrow> (STATUS_NOT_FOUND, Some out) | Some (q, _) \<Rightarrow> (STATUS_SUCCESS, Some q))"
proof -
  have l: "chain vad_next (vads s) p ps" "ps \<noteq> []" "regions_at (vads s) a ps xs" "a + total xs < 4294967296"
    using assms(1) by (simp_all add: vad_list_def)
  have nz: "(of_nat sz :: u32) \<noteq> 0" using assms(2) unat_of_nat_u32 [OF assms(3)] by auto
  have "q \<noteq> nullptr" if "List.find (\<lambda>(q, n, f). f \<and> sz \<le> n) (zip ps xs) = Some (q, x)" for q x
    using that chain_not_null [OF l(1)] by (auto simp: find_Some_iff) (metis nth_mem)
  then show ?thesis
    using nz free_vad_of_size_find [OF l assms(3)]
    by (auto simp: LookForFreeVadOfMinimumSize_def split: option.splits)
qed

theorem LookForFreeVad_first_fit_witness:
  "LookForFreeVadOfMinimumSize 0x1001004 0x1800 (Some 0) three_regions = ret (STATUS_SUCCESS, Some 0x1001020)"
  using LookForFreeVad_first_fit [OF three_list, of "0x1800" 0] by simp

text \<open>\<^verbatim>\<open>Vad::LookForFreeVadAtAddressOfMinimumSize\<close> also accepts a region that does not contain
  the requested address: a free and large enough successor is returned wherever it lies.\<close>

theorem LookForFreeVadAt_ignores_address:
  assumes "vads s p = Some v" "p \<noteq> nullptr" "vads s (vad_next v) = Some w" "vad_next v \<noteq> nullptr"
    and "\<not> (vad_base v \<le> address \<and> address < vad_limit v)" "vad_free w" "sz \<le> vad_size w" "sz \<noteq> 0" "address \<noteq> nullptr"
  shows "LookForFreeVadAtAddressOfMinimumSize p address sz (Some out) s = ret (STATUS_SUCCESS, Some (vad_next v))"
proof -
  have "free_vad_at_address address sz (vads s) p = ret (STATUS_SUCCESS, vad_next v)"
    using assms(1-7) by (subst free_vad_at_address.simps) (simp only: deref_Some andThen_ret if_False simp_thms not_less [THEN iffD2])
  then show ?thesis using assms(8,9) by (simp add: LookForFreeVadAtAddressOfMinimumSize_def FAILED_def)
qed

theorem LookForFreeVadAt_ignores_address_witness:
  "LookForFreeVadAtAddressOfMinimumSize 0x1001004 0x2000A000 0x1000 (Some 0) three_regions = ret (STATUS_SUCCESS, Some 0x1001020) \<and>
   \<not> 0x2000A000 < vad_limit (the (vads three_regions 0x1001020))"
  using LookForFreeVadAt_ignores_address [of three_regions "0x1001004"
    "\<lparr>vad_base = 0x20000000, vad_limit = 0x20001000, vad_size = 0x1000, vad_free = False, vad_prev = nullptr, vad_next = 0x1001020\<rparr>"
    "\<lparr>vad_base = 0x20001000, vad_limit = 0x20009000, vad_size = 0x8000, vad_free = True, vad_prev = 0x1001004, vad_next = 0x1001040\<rparr>"
    "0x2000A000" "0x1000" 0]
  by (simp add: three_vads_def)

subsection \<open>Cutting and reserving\<close>

text \<open>C26: \<^verbatim>\<open>Vad::Split\<close> cuts a region in two at a page boundary behind the requested bytes, always
  with one page to spare; the new region is free. The regions behind the cut one are no longer on
  the list.\<close>

theorem Split_cuts_region:
  assumes "vad_list (vads s) p (qs @ q # rs) a (us @ (n, f) # vs)" "length qs = length us"
    and "0 < sz" "sz + 4096 < n"
    and "heap_inv s bs" "dom (vads s) \<subseteq> live_ptrs s" "some_fits 28 bs \<or> last_page s < 262144 \<and> 0 < free_frames s"
  shows "\<exists>new s'. Vad_Split q (of_nat sz) s = ret (STATUS_SUCCESS, s') \<and> new \<notin> dom (vads s) \<and>
    vad_list (vads s') p (qs @ [q, new]) a (us @ [(cut sz, f), (n - cut sz, True)])"
  using Vad_Split_ok [OF assms] by blast

text \<open>A single free region; its descriptor is at an address the heap has handed out.\<close>

definition one_region :: vad_space where
  "one_region = pool.extend booted (vad_space.fields [0x1001004 \<mapsto>
     \<lparr>vad_base = 0x20000000, vad_limit = 0x20008000, vad_size = 0x8000, vad_free = True, vad_prev = nullptr, vad_next = nullptr\<rparr>])"

lemma one_region_simps [simp]:
  "vads one_region = [0x1001004 \<mapsto> \<lparr>vad_base = 0x20000000, vad_limit = 0x20008000, vad_size = 0x8000, vad_free = True,
     vad_prev = nullptr, vad_next = nullptr\<rparr>]"
  "pmem one_region = pmem booted" "cr3 one_region = cr3 booted"
  "paging one_region = paging booted" "memBitmap one_region = memBitmap booted"
  "baseBlock one_region = baseBlock booted" "limitBlock one_region = limitBlock booted" "lastBlock one_region = lastBlock booted"
  by (simp_all add: one_region_def pool.defs vad_space.defs)

lemmas one_same = machine_same [OF one_region_simps(2-5)]

lemma one_heap: "heap_inv one_region [(4096, False), (32772, True), (4092, False)]"
  using booted_heap(1) unfolding heap_inv_def last_page_def one_same one_region_simps .

theorem Split_cuts_region_witness:
  "\<exists>new s'. Vad_Split 0x1001004 0x1800 one_region = ret (STATUS_SUCCESS, s') \<and>
    vad_list (vads s') 0x1001004 [0x1001004, new] 0x20000000 [(0x2000, True), (0x6000, True)]"
proof -
  have "vad_list (vads one_region) 0x1001004 ([] @ 0x1001004 # []) 0x20000000 ([] @ (0x8000, True) # [])"
    by (simp add: vad_list_def)
  moreover have "dom (vads one_region) \<subseteq> live_ptrs one_region" by (simp add: live_ptrs_eq [OF one_heap])
  moreover have "some_fits 28 [(4096, False), (32772, True), (4092, False)]" by (simp add: some_fits_def fits_def)
  ultimately show ?thesis
    using Split_cuts_region [of one_region "0x1001004" "[]" "0x1001004" "[]" "0x20000000" "[]" "0x8000" True "[]" "0x1800", OF _ _ _ _ one_heap]
    by simp blast
qed



end
