(* ===== verification/Process_Properties.thy ===== *)
theory Process_Properties
  imports Syscalls Task_Properties Region_Properties
begin

section \<open>Properties of processes and printed numbers\<close>

text \<open>
  The theorems on page faults, the heap of a process and formatted output. The witness for page
  faults is a process whose only region lies in the memory of the booted machine.
\<close>

subsection \<open>Page faults\<close>

text \<open>The place in the list of the region that contains an address.\<close>

fun region_of :: "nat \<Rightarrow> (nat \<times> bool) list \<Rightarrow> nat \<Rightarrow> nat option" where
  "region_of a [] x = None"
| "region_of a ((n, f) # xs) x = (if a \<le> x \<and> x < a + n then Some 0 else map_option Suc (region_of (a + n) xs x))"

lemma vad_of_address_region:
  assumes "chain vad_next m p ps" "regions_at m a ps xs" "ps \<noteq> []" "a + total xs < 4294967296"
  shows "vad_of_address address m p = ret (case region_of a xs (unat address) of None \<Rightarrow> nullptr | Some i \<Rightarrow> ps ! i)"
  using assms
proof (induction ps arbitrary: p a xs)
  case (Cons q ps)
  from Cons.prems(2) obtain n f ys where xs: "xs = (n, f) # ys" by (cases xs) auto
  obtain v where v: "m q = Some v" "vad_base v = of_nat a" "vad_limit v = of_nat (a + n)" "regions_at m (a + n) ps ys"
    using Cons.prems(2) xs by auto
  have p: "p = q" "p \<noteq> nullptr" "chain vad_next m (vad_next v) ps" using Cons.prems(1) v(1) by auto
  have lt: "a + n < 4294967296" using Cons.prems(4) xs by simp
  have c: "address \<ge> vad_base v \<and> address < vad_limit v \<longleftrightarrow> a \<le> unat address \<and> unat address < a + n"
    using lt by (simp add: v word_le_nat_alt word_less_nat_alt unat_of_nat_u32 del: of_nat_add)
  have d: "deref m p = ret v" using v(1) p by simp
  show ?case
  proof (cases "a \<le> unat address \<and> unat address < a + n")
    case True
    then show ?thesis unfolding xs using c d p by (subst vad_of_address.simps) simp
  next
    case False
    show ?thesis
    proof (cases ps)
      case Nil
      then have "ys = []" "vad_next v = nullptr" using v(4) p(3) by (cases ys; simp)+
      then show ?thesis unfolding xs using False c d by (subst vad_of_address.simps) (simp, blast)
    next
      case (Cons r rs)
      then have nn: "vad_next v \<noteq> nullptr" using p(3) by auto
      have "vad_of_address address m (vad_next v) =
          ret (case region_of (a + n) ys (unat address) of None \<Rightarrow> nullptr | Some i \<Rightarrow> ps ! i)"
        using Cons.prems(4) xs Cons by (intro Cons.IH [OF p(3) v(4)]) simp_all
      then show ?thesis unfolding xs using False c d nn
        by (subst vad_of_address.simps) (auto split: option.splits)
    qed
  qed
qed simp

lemma region_of_Some:
  "region_of a xs x = Some i \<Longrightarrow> i < length xs \<and> a \<le> x \<and> x < a + total xs"
  by (induction a xs x arbitrary: i rule: region_of.induct) (auto split: if_splits)

lemma regions_at_nth:
  "regions_at m a ps xs \<Longrightarrow> i < length xs \<Longrightarrow> \<exists>v. m (ps ! i) = Some v \<and> vad_free v = snd (xs ! i)"
  by (induction m a ps xs arbitrary: i rule: regions_at.induct) (auto simp: nth_Cons split: nat.splits)

lemma LookForVad_region:
  assumes "vad_list (vads h) p ps a xs" "address \<noteq> nullptr"
  shows "LookForVadFromAddress p address (Some nullptr) h = ret (case region_of a xs (unat address) of
      None \<Rightarrow> (STATUS_NOT_FOUND, Some nullptr) | Some i \<Rightarrow> (STATUS_SUCCESS, Some (ps ! i)))"
    and "region_of a xs (unat address) = Some i \<Longrightarrow> \<exists>v. deref (vads h) (ps ! i) = ret v \<and> vad_free v = snd (xs ! i)"
proof -
  have l: "chain vad_next (vads h) p ps" "ps \<noteq> []" "regions_at (vads h) a ps xs" "a + total xs < 4294967296"
    using assms(1) by (simp_all add: vad_list_def)
  have nn: "ps ! i \<noteq> nullptr" if "region_of a xs (unat address) = Some i" for i
    using region_of_Some [OF that] regions_at_length [OF l(3)] chain_not_null [OF l(1)] nth_mem by metis
  show "LookForVadFromAddress p address (Some nullptr) h = ret (case region_of a xs (unat address) of
      None \<Rightarrow> (STATUS_NOT_FOUND, Some nullptr) | Some i \<Rightarrow> (STATUS_SUCCESS, Some (ps ! i)))"
    using vad_of_address_region [OF l(1,3,2,4), of address] nn assms(2)
    by (auto simp: LookForVadFromAddress_def split: option.splits)
  show "\<exists>v. deref (vads h) (ps ! i) = ret v \<and> vad_free v = snd (xs ! i)" if "region_of a xs (unat address) = Some i"
    using regions_at_nth [OF l(3), of i] region_of_Some [OF that] nn [OF that] by auto
qed

text \<open>C21: \<^verbatim>\<open>Process::ResolvePageFault\<close> gives a page to exactly the accesses the process may make: an
  address outside its regions or in a free one is refused and nothing changes; an address of a
  region in use gets a frame that was free, mapped at the faulting page of the process's page
  directory and nowhere else, and the processor is back on the page directory it used before.\<close>

theorem ResolvePageFault_maps:
  assumes "processes s p = Some pr" "p \<noteq> nullptr" "vad_list (vads (lheap s)) (baseVad pr) ps a xs" "address \<noteq> nullptr"
    and "tables_ok D ((lheap s)\<lparr>cr3 := pdEntry (pageDirectory pr)\<rparr>)" "dir address \<in> D" "dir address \<noteq> 1023"
    and "0 < free_frames (lheap s)" "{..<2048} \<subseteq> used_pages (lheap s)"
  shows "case region_of a xs (unat address) of
      None \<Rightarrow> ResolvePageFault p address s = ret (STATUS_NOT_FOUND, s)
    | Some i \<Rightarrow> if snd (xs ! i) then ResolvePageFault p address s = ret (STATUS_UNEXPECTED, s)
        else \<exists>s' f. ResolvePageFault p address s = ret (STATUS_SUCCESS, s') \<and> f \<notin> used_pages (lheap s) \<and>
          used_pages (lheap s') = insert f (used_pages (lheap s)) \<and> cr3 (lheap s') = cr3 (lheap s) \<and>
          (\<forall>u. dir u \<in> D \<longrightarrow> mmu ((lheap s')\<lparr>cr3 := pdEntry (pageDirectory pr)\<rparr>) u =
             (if frame_of u = frame_of address then Some (phys f (off u))
              else mmu ((lheap s)\<lparr>cr3 := pdEntry (pageDirectory pr)\<rparr>) u))"
proof (cases "region_of a xs (unat address)")
  case None
  then show ?thesis using LookForVad_region(1) [OF assms(3,4)] assms(1,2,4) by (simp add: ResolvePageFault_def)
next
  case (Some i)
  obtain v where v: "deref (vads (lheap s)) (ps ! i) = ret v" "vad_free v = snd (xs ! i)"
    using LookForVad_region(2) [OF assms(3,4) Some] by blast
  have look: "LookForVadFromAddress (baseVad pr) address (Some nullptr) (lheap s) = ret (STATUS_SUCCESS, Some (ps ! i))"
    using LookForVad_region(1) [OF assms(3,4)] Some by simp
  show ?thesis
  proof (cases "snd (xs ! i)")
    case True
    then show ?thesis using Some look v assms(1,2,4) by (simp add: ResolvePageFault_def)
  next
    case False
    let ?pd = "pdEntry (pageDirectory pr)"
    let ?fl = "PAGE_PRESENT OR PAGE_WRITEABLE OR PAGE_NON_PRIVILEGED_ACCESS"
    obtain f b where f: "GetFreePage (lheap s) = (phys f 0, (lheap s)\<lparr>memBitmap := b\<rparr>)" "2048 \<le> f" "f < RAM_MAXPAGE"
      "f \<notin> used_pages (lheap s)" "used_pages ((lheap s)\<lparr>memBitmap := b\<rparr>) = insert f (used_pages (lheap s))"
      by (rule GetFreePage_frame [OF assms(8,9)])
    let ?h = "(lheap s)\<lparr>memBitmap := b, cr3 := ?pd\<rparr>"
    have "?h = (lheap s)\<lparr>cr3 := ?pd, memBitmap := b\<rparr>" by simp
    then have t: "tables_ok D ?h" using assms(5) by (simp only: tables_ok_bitmap)
    have fl: "?fl \<noteq> PAGE_EMPTY" "FlagOn ?fl PAGE_PRESENT" by (simp_all add: FlagOn_def)
    obtain m where m: "AddPageToPageDirectory PageAlloc address (phys f 0) ?fl ?h = ret (?h\<lparr>pmem := m\<rparr>)"
      "\<And>u. dir u \<in> D \<Longrightarrow> mmu (?h\<lparr>pmem := m\<rparr>) u = (if frame_of u = frame_of address
        then if FlagOn ?fl PAGE_PRESENT then Some (phys (frame_of (phys f 0)) (off u)) else None else mmu ?h u)"
      by (rule AddPage_present [OF t assms(6,7) fl(1), where PA = PageAlloc and p = "phys f 0"]) (rule that)
    have nz: "phys f 0 \<noteq> nullptr" "frame_of (phys f 0) = f"
      using f(2,3) phys_eq_iff [of f 0 0 0] by (simp add: phys_def, simp)
    let ?s' = "s\<lparr>lheap := ?h\<lparr>pmem := m, cr3 := cr3 (lheap s)\<rparr>\<rparr>"
    have "ResolvePageFault p address s = ret (STATUS_SUCCESS, ?s')"
      using look v assms(1,2,4) f(1) m(1) nz(1) False
      by (simp add: ResolvePageFault_def FAILED_def SetCurrentPageDirectory_def GetCurrentPageDirectory_def)
    moreover have "mmu ((lheap ?s')\<lparr>cr3 := ?pd\<rparr>) u = (if frame_of u = frame_of address then Some (phys f (off u))
        else mmu ((lheap s)\<lparr>cr3 := ?pd\<rparr>) u)" if "dir u \<in> D" for u
    proof -
      have "(lheap ?s')\<lparr>cr3 := ?pd\<rparr> = ?h\<lparr>pmem := m\<rparr>" by simp
      moreover have "?h = (lheap s)\<lparr>cr3 := ?pd, memBitmap := b\<rparr>" by simp
      ultimately show ?thesis using m(2) [OF that] by (simp only: if_P [OF fl(2)] nz(2) mmu_bitmap)
    qed
    moreover have "used_pages (lheap ?s') = insert f (used_pages (lheap s))"
      using f(5) by (simp add: used_pages_def)
    ultimately show ?thesis using Some False f(4) by (auto intro!: exI [of _ ?s'] exI [of _ f])
  qed
qed

text \<open>A process with the region of the machine above, in use, and the kernel's page directory.\<close>

definition faulting_space :: vad_space where
  "faulting_space = pool.extend booted (vad_space.fields [0x1001004 \<mapsto>
     \<lparr>vad_base = 0x20000000, vad_limit = 0x20008000, vad_size = 0x8000, vad_free = False, vad_prev = nullptr, vad_next = nullptr\<rparr>])"

definition faulting_process :: Process where
  "faulting_process = a_process\<lparr>baseVad := 0x1001004, pageDirectory := \<lparr>pdEntry = cr3 booted, pagesList = nullptr\<rparr>,
     defaultHeap := \<lparr>heap_base = 0x20000000, heap_limit = 0x20001000, heap_vad = 0x1001004\<rparr>\<rparr>"

definition faulting :: tasks where
  "faulting = (two_tasks THREAD_PRIORITY_NORMAL)\<lparr>lheap := faulting_space, processes := [0x5000 \<mapsto> faulting_process]\<rparr>"

lemma faulting_simps [simp]:
  "vads (lheap faulting) = [0x1001004 \<mapsto> \<lparr>vad_base = 0x20000000, vad_limit = 0x20008000, vad_size = 0x8000,
     vad_free = False, vad_prev = nullptr, vad_next = nullptr\<rparr>]"
  "processes faulting = [0x5000 \<mapsto> faulting_process]" "baseVad faulting_process = 0x1001004"
  "pdEntry (pageDirectory faulting_process) = cr3 booted"
  "defaultHeap faulting_process = \<lparr>heap_base = 0x20000000, heap_limit = 0x20001000, heap_vad = 0x1001004\<rparr>"
  by (simp_all add: faulting_def faulting_space_def faulting_process_def pool.defs vad_space.defs)

lemma faulting_same:
  "pmem (lheap faulting) = pmem booted" "cr3 (lheap faulting) = cr3 booted"
  "paging (lheap faulting) = paging booted" "memBitmap (lheap faulting) = memBitmap booted"
  by (simp_all add: faulting_def faulting_space_def pool.defs)

theorem ResolvePageFault_maps_witness:
  "ResolvePageFault 0x5000 0x20009000 faulting = ret (STATUS_NOT_FOUND, faulting) \<and>
   (\<exists>s' f. ResolvePageFault 0x5000 0x20001234 faulting = ret (STATUS_SUCCESS, s') \<and> f \<notin> used_pages booted \<and>
     mmu (lheap s') 0x20001234 = Some (phys f 0x234))"
proof -
  note same = machine_same [OF faulting_same]
  have l: "vad_list (vads (lheap faulting)) (baseVad faulting_process) [0x1001004] 0x20000000 [(0x8000, False)]"
    by (simp add: vad_list_def)
  have "heap_map 4106 (lheap faulting)" using booted_map same by simp
  then have "kernel_space (lheap faulting)" by (simp add: heap_map_def)
  moreover have "(lheap faulting)\<lparr>cr3 := cr3 booted\<rparr> = lheap faulting" by (simp add: faulting_def faulting_space_def pool.defs)
  ultimately have t: "tables_ok kernel_dirs ((lheap faulting)\<lparr>cr3 := pdEntry (pageDirectory faulting_process)\<rparr>)"
    using kernel_space_tables_ok by simp
  have m: "0 < free_frames (lheap faulting)" "{..<2048} \<subseteq> used_pages (lheap faulting)"
    using booted_map by (simp_all add: same booted_free heap_map_def)
  have p: "processes faulting 0x5000 = Some faulting_process" "(0x5000 :: addr) \<noteq> nullptr" by simp_all
  have d: "dir 0x20009000 = 128" "dir 0x20001234 = 128" "frame_of 0x20001234 = 131073" "off 0x20001234 = 0x234"
    by (simp_all add: dir_def frame_of_def off_def)
  have "ResolvePageFault 0x5000 0x20009000 faulting = ret (STATUS_NOT_FOUND, faulting)"
    using ResolvePageFault_maps [OF p l _ t _ _ m, of "0x20009000"] d by (simp add: kernel_dirs_iff)
  moreover obtain s' f where s': "ResolvePageFault 0x5000 0x20001234 faulting = ret (STATUS_SUCCESS, s')" "f \<notin> used_pages booted"
      "cr3 (lheap s') = cr3 booted" "mmu ((lheap s')\<lparr>cr3 := cr3 booted\<rparr>) 0x20001234 = Some (phys f 0x234)"
  proof -
    have r: "region_of 0x20000000 [(0x8000, False)] (unat (0x20001234 :: addr)) = Some 0" by simp
    have k: "dir 0x20001234 \<in> kernel_dirs" "dir 0x20001234 \<noteq> 1023" unfolding d by (simp_all add: kernel_dirs_iff)
    from ResolvePageFault_maps [OF p l _ t k m] obtain s' f where
      "ResolvePageFault 0x5000 0x20001234 faulting = ret (STATUS_SUCCESS, s')" "f \<notin> used_pages booted" "cr3 (lheap s') = cr3 booted"
      "mmu ((lheap s')\<lparr>cr3 := pdEntry (pageDirectory faulting_process)\<rparr>) 0x20001234 = Some (phys f (off 0x20001234))"
      unfolding r same faulting_same by (auto simp: kernel_dirs_iff d(2))
    then show thesis using that d(4) by simp
  qed
  moreover have "(lheap s')\<lparr>cr3 := cr3 booted\<rparr> = lheap s'" using s'(3) by simp
  ultimately show ?thesis by metis
qed

subsection \<open>The heap of a process\<close>

text \<open>C22: \<^verbatim>\<open>Process::IncreaseHeap\<close> hands out the pages behind the old limit exactly when they fit the
  heap's region, and reports the limit otherwise, changing nothing. This holds as long as the
  computation does not wrap around: for a request of 4 GB the product is 0, and the call succeeds
  with a block the process does not get.\<close>

theorem IncreaseHeap_bounds:
  assumes "processes s p = Some pr" "p \<noteq> nullptr" "nb \<noteq> 0"
    and "vads (lheap s) (heap_vad (defaultHeap pr)) = Some v" "heap_vad (defaultHeap pr) \<noteq> nullptr"
    and "heap_limit (defaultHeap pr) \<le> vad_limit v"
  shows "let limit = unat (heap_limit (defaultHeap pr)) + unat nb * 4096 in
    (limit \<le> unat (vad_limit v) \<longrightarrow> (\<exists>s' pr'. IncreaseHeap p nb (Some out) s = ret (STATUS_SUCCESS, Some (heap_limit (defaultHeap pr)), s') \<and>
       processes s' = (processes s)(p \<mapsto> pr') \<and> unat (heap_limit (defaultHeap pr')) = limit \<and>
       heap_limit (defaultHeap pr') \<le> vad_limit v)) \<and>
    (unat (vad_limit v) < limit \<and> limit < 4294967296 \<longrightarrow>
       IncreaseHeap p nb (Some out) s = ret (STATUS_PROCESS_HEAP_LIMIT_REACHED, Some out, s)) \<and>
    (nb = 0x100000 \<longrightarrow> (\<exists>s'. IncreaseHeap p nb (Some out) s = ret (STATUS_SUCCESS, Some (heap_limit (defaultHeap pr)), s') \<and>
       processes s' = processes s))"
proof -
  let ?l = "heap_limit (defaultHeap pr)"
  have fits: "unat (?l + nb * PAGE_SIZE) = unat ?l + unat nb * 4096" if "unat ?l + unat nb * 4096 < 4294967296"
  proof -
    have "unat (nb * PAGE_SIZE) = unat nb * 4096" using that by (subst unat_mult_nowrap) simp_all
    then show ?thesis using that by (subst unat_add_nowrap) simp_all
  qed
  have 1: "IncreaseHeap p nb (Some out) s = (if ?l + nb * PAGE_SIZE > vad_limit v
      then ret (STATUS_PROCESS_HEAP_LIMIT_REACHED, Some out, s)
      else ret (STATUS_SUCCESS, Some ?l, s\<lparr>processes := (processes s)(p \<mapsto>
        pr\<lparr>defaultHeap := (defaultHeap pr)\<lparr>heap_limit := ?l + nb * PAGE_SIZE\<rparr>\<rparr>)\<rparr>))"
    using assms by (simp add: IncreaseHeap_def upd_process_def)
  have vl: "unat (vad_limit v) < 4294967296" by (rule unat_lt_2p32)
  show ?thesis unfolding Let_def
  proof (intro conjI impI)
    assume a: "unat ?l + unat nb * 4096 \<le> unat (vad_limit v)"
    then have f: "unat (?l + nb * PAGE_SIZE) = unat ?l + unat nb * 4096" using fits vl by linarith
    then have "\<not> ?l + nb * PAGE_SIZE > vad_limit v" "?l + nb * PAGE_SIZE \<le> vad_limit v"
      using a by (simp_all add: word_less_nat_alt word_le_nat_alt)
    then show "\<exists>s' pr'. IncreaseHeap p nb (Some out) s = ret (STATUS_SUCCESS, Some ?l, s') \<and>
       processes s' = (processes s)(p \<mapsto> pr') \<and> unat (heap_limit (defaultHeap pr')) = unat ?l + unat nb * 4096 \<and>
       heap_limit (defaultHeap pr') \<le> vad_limit v"
      unfolding 1 using f by (auto intro!: exI [of _ "pr\<lparr>defaultHeap := (defaultHeap pr)\<lparr>heap_limit := ?l + nb * PAGE_SIZE\<rparr>\<rparr>"])
  next
    assume "unat (vad_limit v) < unat ?l + unat nb * 4096 \<and> unat ?l + unat nb * 4096 < 4294967296"
    then show "IncreaseHeap p nb (Some out) s = ret (STATUS_PROCESS_HEAP_LIMIT_REACHED, Some out, s)"
      unfolding 1 using fits by (simp add: word_less_nat_alt)
  next
    assume nb: "nb = 0x100000"
    have wrap: "nb * PAGE_SIZE = 0" unfolding nb by (simp add: word_eq_iff_unsigned)
    show "\<exists>s'. IncreaseHeap p nb (Some out) s = ret (STATUS_SUCCESS, Some ?l, s') \<and> processes s' = processes s"
      unfolding 1 wrap using assms(1,6) by (simp add: not_less fun_upd_idem)
  qed
qed

theorem IncreaseHeap_bounds_witness:
  "(\<exists>s'. IncreaseHeap 0x5000 3 (Some 0) faulting = ret (STATUS_SUCCESS, Some 0x20001000, s')) \<and>
   IncreaseHeap 0x5000 8 (Some 0) faulting = ret (STATUS_PROCESS_HEAP_LIMIT_REACHED, Some 0, faulting) \<and>
   (\<exists>s'. IncreaseHeap 0x5000 0x100000 (Some 0) faulting = ret (STATUS_SUCCESS, Some 0x20001000, s'))"
proof -
  let ?v = "\<lparr>vad_base = 0x20000000, vad_limit = 0x20008000, vad_size = 0x8000, vad_free = False, vad_prev = nullptr, vad_next = nullptr\<rparr>"
  note b = IncreaseHeap_bounds [where s = faulting and p = "0x5000" and pr = faulting_process and v = ?v and out = 0, simplified]
  show ?thesis using b [of 3] b [of 8] b [of "0x100000"] by (auto simp: Let_def)
qed

subsection \<open>Printed numbers\<close>

text \<open>C23: The number the kernel's \<^verbatim>\<open>printInt\<close> prints reads back as the unsigned value of its argument,
  in every base from 2 to 16, so -1 comes out as 4294967295. The user library's version prints
  the sign and reads back as the signed value, except for the smallest integer, for which it
  looks up digits before the table.\<close>

theorem printInt_reads_back:
  assumes "2 \<le> b" "b \<le> 16"
  shows "parse_digits (unat b) (printInt x b) = unat x \<and> set (printInt x b) \<subseteq> set HEX \<and> printInt x b \<noteq> [] \<and>
    (if x = 0x80000000 then user_printInt x b = halt BadAccess
     else \<exists>text. user_printInt x b = ret text \<and> parse_int (unat b) text = sint x)"
  using printInt_ok [OF assms, of x] user_printInt_ok [OF assms, of x] by blast

theorem printInt_reads_back_witness:
  "parse_digits 10 (printInt (-1) 10) = 4294967295 \<and> user_printInt 0x80000000 10 = halt BadAccess \<and>
   (\<exists>text. user_printInt (-255) 16 = ret text \<and> parse_int 16 text = -255)"
  using printInt_reads_back [of 10 "-1"] printInt_reads_back [of 10 "0x80000000"] printInt_reads_back [of 16 "-255"] by simp

end
