(* ===== verification/User_Lib.thy ===== *)
theory User_Lib
  imports Linked_List
begin

section \<open>The user library: status codes, objects of the heap, lists\<close>

text \<open>
  What the programs of \<^verbatim>\<open>userland\<close> are written over: the status codes of
  \<^verbatim>\<open>userland/StdLib/src/status.h\<close> (the names hide those of the kernel's enumeration),
  the objects a program has on its heap, and the one function of
  \<^verbatim>\<open>userland/StdLib/src/list.cpp\<close> whose result is a status; the other list functions are
  those of \<open>Linked_List\<close>.
\<close>

subsection \<open>Status codes\<close>

text \<open>
  The enumerators in their order. A number cast to the enumeration need not be one of them
  (\<open>Status_value\<close>).
\<close>

datatype Status =
    STATUS_SUCCESS
  | STATUS_FAILURE
  | STATUS_NULL_PARAMETER
  | STATUS_INVALID_PARAMETER
  | STATUS_ALLOC_FAILED
  | STATUS_FILE_NOT_FOUND
  | STATUS_NOT_A_DIRECTORY
  | STATUS_UNEXPECTED
  | STATUS_PATH_TOO_LONG
  | STATUS_LIST_STOP_ITERATING
  | STATUS_ACCESS_DENIED
  | Status_value nat

definition STATUS_LIST :: "Status list" where
  "STATUS_LIST = [STATUS_SUCCESS, STATUS_FAILURE, STATUS_NULL_PARAMETER, STATUS_INVALID_PARAMETER,
     STATUS_ALLOC_FAILED, STATUS_FILE_NOT_FOUND, STATUS_NOT_A_DIRECTORY, STATUS_UNEXPECTED,
     STATUS_PATH_TOO_LONG, STATUS_LIST_STOP_ITERATING, STATUS_ACCESS_DENIED]"

text \<open>The cast of a number.\<close>

definition status_of :: "u32 \<Rightarrow> Status" where
  "status_of n = (if unat n < length STATUS_LIST then STATUS_LIST ! unat n else Status_value (unat n))"

text \<open>The macro \<^verbatim>\<open>FAILED\<close>.\<close>

abbreviation failed :: "Status \<Rightarrow> bool" where
  "failed status \<equiv> status \<noteq> STATUS_SUCCESS"

fun StatusName :: "Status \<Rightarrow> string" where
  "StatusName STATUS_SUCCESS = ''STATUS_SUCCESS''"
| "StatusName STATUS_FAILURE = ''STATUS_FAILURE''"
| "StatusName STATUS_NULL_PARAMETER = ''STATUS_NULL_PARAMETER''"
| "StatusName STATUS_INVALID_PARAMETER = ''STATUS_INVALID_PARAMETER''"
| "StatusName STATUS_ALLOC_FAILED = ''STATUS_ALLOC_FAILED''"
| "StatusName STATUS_FILE_NOT_FOUND = ''STATUS_FILE_NOT_FOUND''"
| "StatusName STATUS_NOT_A_DIRECTORY = ''STATUS_NOT_A_DIRECTORY''"
| "StatusName STATUS_UNEXPECTED = ''STATUS_UNEXPECTED''"
| "StatusName STATUS_PATH_TOO_LONG = ''STATUS_PATH_TOO_LONG''"
| "StatusName STATUS_LIST_STOP_ITERATING = ''STATUS_LIST_STOP_ITERATING''"
| "StatusName STATUS_ACCESS_DENIED = ''STATUS_ACCESS_DENIED''"
| "StatusName (Status_value n) = ''UNKOWN_STATUS''"

subsection \<open>Byte buffers on the heap\<close>

text \<open>
  A program gets its memory from \<^verbatim>\<open>HeapAlloc\<close>; like the list library, the model takes
  the two heap operations as arguments, here together with the port instructions.
\<close>

record ('d, 'h) platform = "'d ports" +
  heap_alloc :: "'h alloc_op"
  heap_free :: "'h free_op"

text \<open>
  \<open>bufs\<close> holds the bytes of each raw buffer by its address. What a block contains when
  \<^verbatim>\<open>HeapAlloc\<close> returns it is not known: \<open>fresh\<close> gives these bytes. An access outside
  the buffer is a \<open>BadAccess\<close>.
\<close>

record ('h, 'd) prog = "'h list_heap" +
  bufs :: "addr \<rightharpoonup> u8 list"
  fresh :: "addr \<Rightarrow> nat \<Rightarrow> u8"
  dev :: 'd
  irqs :: bool

definition buf_alloc ::
  "('d, 'h, 'm) platform_scheme \<Rightarrow> int \<Rightarrow> ('h, 'd, 'z) prog_scheme \<Rightarrow>
   (addr \<times> ('h, 'd, 'z) prog_scheme) exec" where
  "buf_alloc M n s = andThen (heap_alloc M n (lheap s)) (\<lambda>(p, h).
     if p = nullptr then ret (p, s\<lparr>lheap := h\<rparr>)
     else ret (p, s\<lparr>lheap := h, bufs := (bufs s)(p \<mapsto> map (fresh s p) [0..<nat n])\<rparr>))"

definition buf_free ::
  "('d, 'h, 'm) platform_scheme \<Rightarrow> addr \<Rightarrow> ('h, 'd, 'z) prog_scheme \<Rightarrow>
   ('h, 'd, 'z) prog_scheme exec" where
  "buf_free M p s =
     (if p = nullptr then ret s
      else andThen (heap_free M p (lheap s)) (\<lambda>h.
        ret (s\<lparr>lheap := h, bufs := (bufs s)(p := None)\<rparr>)))"

text \<open>The bytes \<open>off, \<dots>, off + n - 1\<close> of the buffer at \<open>p\<close>, and storing bytes there.\<close>

definition rd_bytes :: "addr \<Rightarrow> nat \<Rightarrow> nat \<Rightarrow> ('h, 'd, 'z) prog_scheme \<Rightarrow> u8 list exec" where
  "rd_bytes p off n s =
     (if n = 0 then ret []
      else andThen (deref (bufs s) p) (\<lambda>bs.
        if off + n \<le> length bs then ret (take n (drop off bs)) else halt BadAccess))"

definition patch :: "nat \<Rightarrow> 'a list \<Rightarrow> 'a list \<Rightarrow> 'a list" where
  "patch off new bs = take off bs @ new @ drop (off + length new) bs"

definition wr_bytes ::
  "addr \<Rightarrow> nat \<Rightarrow> u8 list \<Rightarrow> ('h, 'd, 'z) prog_scheme \<Rightarrow> ('h, 'd, 'z) prog_scheme exec" where
  "wr_bytes p off new s =
     (if new = [] then ret s
      else andThen (deref (bufs s) p) (\<lambda>bs.
        if off + length new \<le> length bs
        then ret (s\<lparr>bufs := (bufs s)(p \<mapsto> patch off new bs)\<rparr>) else halt BadAccess))"

text \<open>\<^verbatim>\<open>MemCopy\<close> between two buffers.\<close>

definition buf_copy ::
  "addr \<Rightarrow> nat \<Rightarrow> addr \<Rightarrow> nat \<Rightarrow> u32 \<Rightarrow> ('h, 'd, 'z) prog_scheme \<Rightarrow>
   ('h, 'd, 'z) prog_scheme exec" where
  "buf_copy src soff dst doff sz s =
     andThen (rd_bytes src soff (unat sz) s) (\<lambda>bs. wr_bytes dst doff bs s)"

text \<open>Members of a packed structure: little-endian numbers at an offset.\<close>

fun le_bytes :: "u8 list \<Rightarrow> nat" where
  "le_bytes [] = 0"
| "le_bytes (b # bs) = unat b + 256 * le_bytes bs"

definition rd8 :: "addr \<Rightarrow> nat \<Rightarrow> ('h, 'd, 'z) prog_scheme \<Rightarrow> u8 exec" where
  "rd8 p off s = andThen (rd_bytes p off 1 s) (\<lambda>bs. ret (hd bs))"

definition rd16 :: "addr \<Rightarrow> nat \<Rightarrow> ('h, 'd, 'z) prog_scheme \<Rightarrow> u16 exec" where
  "rd16 p off s = andThen (rd_bytes p off 2 s) (\<lambda>bs. ret (of_nat (le_bytes bs)))"

definition rd32 :: "addr \<Rightarrow> nat \<Rightarrow> ('h, 'd, 'z) prog_scheme \<Rightarrow> u32 exec" where
  "rd32 p off s = andThen (rd_bytes p off 4 s) (\<lambda>bs. ret (of_nat (le_bytes bs)))"

text \<open>A number as little-endian bytes, and storing a 32-bit member.\<close>

fun nat_bytes :: "nat \<Rightarrow> nat \<Rightarrow> u8 list" where
  "nat_bytes 0 n = []"
| "nat_bytes (Suc k) n = of_nat n # nat_bytes k (n div 256)"

definition wr32 :: "addr \<Rightarrow> nat \<Rightarrow> u32 \<Rightarrow> ('h, 'd, 'z) prog_scheme \<Rightarrow> ('h, 'd, 'z) prog_scheme exec" where
  "wr32 p off v s = wr_bytes p off (nat_bytes 4 (unat v)) s"

text \<open>The C string that starts at an offset of a buffer.\<close>

definition rd_str :: "addr \<Rightarrow> nat \<Rightarrow> ('h, 'd, 'z) prog_scheme \<Rightarrow> cstr exec" where
  "rd_str p off s = andThen (deref (bufs s) p) (\<lambda>bs.
     if 0 \<in> set (drop off bs) then ret (takeWhile (\<lambda>b. b \<noteq> 0) (drop off bs)) else halt BadAccess)"

subsection \<open>Enumerating a list\<close>

partial_function (option) UserListEnumerate_loop ::
  "(addr \<Rightarrow> 'c \<Rightarrow> (Status \<times> 'c) exec) \<Rightarrow> (addr \<rightharpoonup> ListElem) \<Rightarrow> addr \<Rightarrow> addr \<Rightarrow> 'c \<Rightarrow>
   (Status \<times> 'c) exec" where
  "UserListEnumerate_loop callback m elem nxt ctx =
     (if elem = nullptr then ret (STATUS_SUCCESS, ctx)
      else andThen (deref m elem) (\<lambda>e.
        andThen (callback (elem_data e) ctx) (\<lambda>(status, ctx').
          if failed status
          then ret (if status = STATUS_LIST_STOP_ITERATING then STATUS_SUCCESS else status, ctx')
          else if nxt \<noteq> nullptr
          then andThen (deref m nxt) (\<lambda>e'. UserListEnumerate_loop callback m nxt (elem_next e') ctx')
          else UserListEnumerate_loop callback m nxt nxt ctx')))"

definition UserListEnumerate ::
  "addr \<Rightarrow> (addr \<Rightarrow> 'c \<Rightarrow> (Status \<times> 'c) exec) option \<Rightarrow> 'c \<Rightarrow>
   ('h, 'z) list_heap_scheme \<Rightarrow> (Status \<times> 'c) exec" where
  "UserListEnumerate list callback ctx s =
     (if list = nullptr then ret (STATUS_NULL_PARAMETER, ctx)
      else case callback of None \<Rightarrow> ret (STATUS_NULL_PARAMETER, ctx)
      | Some cb \<Rightarrow> andThen (ListIsEmpty list s) (\<lambda>empty.
          if empty then ret (STATUS_SUCCESS, ctx)
          else andThen (deref (lnodes s) list) (\<lambda>e.
            UserListEnumerate_loop cb (lnodes s) list (elem_next e) ctx)))"

text \<open>Through the list a chain of nodes stands for: one call per element, until one fails.\<close>

fun user_enumerate ::
  "(addr \<Rightarrow> 'c \<Rightarrow> (Status \<times> 'c) exec) \<Rightarrow> addr list \<Rightarrow> 'c \<Rightarrow> (Status \<times> 'c) exec" where
  "user_enumerate cb [] ctx = ret (STATUS_SUCCESS, ctx)"
| "user_enumerate cb (x # xs) ctx = andThen (cb x ctx) (\<lambda>(status, ctx').
     if failed status
     then ret (if status = STATUS_LIST_STOP_ITERATING then STATUS_SUCCESS else status, ctx')
     else user_enumerate cb xs ctx')"

lemma UserListEnumerate_loop_chain:
  "chain elem_next m p ps \<Longrightarrow> nxt = (if p = nullptr then nullptr else elem_next (the (m p))) \<Longrightarrow>
    UserListEnumerate_loop cb m p nxt ctx = user_enumerate cb (map (node_data m) ps) ctx"
proof (induction ps arbitrary: p nxt ctx)
  case Nil
  then show ?case by (subst UserListEnumerate_loop.simps) simp
next
  case (Cons a ps)
  then obtain e where e: "m a = Some e" "chain elem_next m (elem_next e) ps" "p = a" "a \<noteq> nullptr" "nxt = elem_next e"
    by (auto split: option.splits)
  have rec: "(if nxt \<noteq> nullptr
        then andThen (deref m nxt) (\<lambda>e'. UserListEnumerate_loop cb m nxt (elem_next e') c)
        else UserListEnumerate_loop cb m nxt nxt c) = user_enumerate cb (map (node_data m) ps) c" for c
    using Cons.IH [OF e(2) refl, of c] e(2,5) by (auto simp: chain_nonnull)
  show ?case by (subst UserListEnumerate_loop.simps, unfold rec) (simp add: e node_data_def)
qed

lemma UserListEnumerate_rep:
  assumes "list_rep (lnodes s) p ps xs"
  shows "UserListEnumerate p (Some cb) ctx s = user_enumerate cb xs ctx"
proof -
  note r = list_repD [OF assms]
  obtain e where e: "lnodes s p = Some e" "deref (lnodes s) p = ret e"
    using list_rep_head [OF assms] by metis
  with r(3,6) UserListEnumerate_loop_chain [OF r(1), of "elem_next e" cb ctx] show ?thesis
    by (simp add: UserListEnumerate_def ListIsEmpty_rep [OF assms])
qed

lemma user_enumerate_find:
  assumes "\<And>x. x \<in> set xs \<Longrightarrow>
    cb x c = ret (if P x then (STATUS_LIST_STOP_ITERATING, f x) else (STATUS_SUCCESS, c))"
  shows "user_enumerate cb xs c =
    ret (STATUS_SUCCESS, case List.find P xs of None \<Rightarrow> c | Some x \<Rightarrow> f x)"
  using assms by (induction xs) auto

subsection \<open>Facts on buffers\<close>

lemma length_nat_bytes [simp]: "length (nat_bytes k n) = k"
  by (induction k arbitrary: n) simp_all

lemma nat_bytes_numeral: "nat_bytes (numeral k) n = of_nat n # nat_bytes (pred_numeral k) (n div 256)"
  by (subst numeral_eq_Suc) simp

lemma le_bytes_nat_bytes: "n < 256 ^ k \<Longrightarrow> le_bytes (nat_bytes k n) = n"
proof (induction k arbitrary: n)
  case (Suc k)
  have "n div 256 < 256 ^ k" using Suc.prems by (simp add: div_less_iff_less_mult mult.commute)
  moreover have "unat (of_nat n :: u8) = n mod 256" by (simp add: unat_of_nat)
  ultimately show ?case using Suc.IH by simp
qed simp

lemma length_patch [simp]: "off + length new \<le> length bs \<Longrightarrow> length (patch off new bs) = length bs"
  by (simp add: patch_def)

lemma patch_same: "off + n \<le> length bs \<Longrightarrow> length new = n \<Longrightarrow> take n (drop off (patch off new bs)) = new"
  by (simp add: patch_def)

lemma patch_whole: "length new = length bs \<Longrightarrow> patch 0 new bs = new"
  by (simp add: patch_def)

lemma patch_Nil [simp]: "patch off [] bs = bs"
  by (simp add: patch_def)

lemma patch_append:
  assumes "off + length xs + length ys \<le> length bs"
  shows "patch (off + length xs) ys (patch off xs bs) = patch off (xs @ ys) bs"
proof -
  have "take (off + length xs) (patch off xs bs) = take off bs @ xs"
    using assms by (cases xs) (simp_all add: patch_def min_def)
  moreover have "drop (off + length xs + length ys) (patch off xs bs) = drop (off + length (xs @ ys)) bs"
    using assms by (simp add: patch_def ac_simps)
  ultimately show ?thesis by (simp add: patch_def)
qed

lemma rd_bytes_ok [simp]:
  "p \<noteq> nullptr \<Longrightarrow> bufs s p = Some bs \<Longrightarrow> off + n \<le> length bs \<Longrightarrow> rd_bytes p off n s = ret (take n (drop off bs))"
  by (simp add: rd_bytes_def)

lemma wr_bytes_ok [simp]:
  "p \<noteq> nullptr \<Longrightarrow> bufs s p = Some bs \<Longrightarrow> off + length new \<le> length bs \<Longrightarrow>
    wr_bytes p off new s = ret (s\<lparr>bufs := (bufs s)(p \<mapsto> patch off new bs)\<rparr>)"
  by (cases s) (auto simp: wr_bytes_def fun_upd_idem)

lemma wr_bytes_outside:
  "p \<noteq> nullptr \<Longrightarrow> bufs s p = Some bs \<Longrightarrow> new \<noteq> [] \<Longrightarrow> length bs < off + length new \<Longrightarrow>
    wr_bytes p off new s = halt BadAccess"
  by (simp add: wr_bytes_def)

lemma buf_copy_ok:
  assumes "src \<noteq> nullptr" "dst \<noteq> nullptr" "bufs s src = Some xs" "bufs s dst = Some ys"
    "soff + unat sz \<le> length xs" "doff + unat sz \<le> length ys"
  shows "buf_copy src soff dst doff sz s =
    ret (s\<lparr>bufs := (bufs s)(dst \<mapsto> patch doff (take (unat sz) (drop soff xs)) ys)\<rparr>)"
  using assms by (simp add: buf_copy_def)

text \<open>
  Buffers are live objects of the heap. \<open>bufs_ok\<close> is kept by every access; a new buffer is at
  an address of its own.
\<close>

definition bufs_ok :: "('h \<Rightarrow> bool) \<Rightarrow> ('h \<Rightarrow> addr set) \<Rightarrow> ('h, 'd, 'z) prog_scheme \<Rightarrow> bool" where
  "bufs_ok invar live s \<longleftrightarrow> invar (lheap s) \<and> dom (bufs s) \<subseteq> live (lheap s) \<and> nullptr \<notin> dom (bufs s)"

text \<open>
  A program's heap is an allocator that returns: while there is room an allocation gives a
  block that lies in the address space (the heap of \<open>User_Malloc\<close> does not panic, other than the kernel's).
\<close>

locale prog_heap = heap_allocator "heap_alloc M" "heap_free M" live invar ready mergeable
  for M :: "('d, 'h, 'm) platform_scheme" and live and invar and ready and mergeable +
  assumes alloc_returns:
      "invar h \<Longrightarrow> 0 < n \<Longrightarrow> n < 2147483648 \<Longrightarrow> ready (n # ns) h \<Longrightarrow> \<exists>p h'. heap_alloc M n h = ret (p, h')"
    and always_mergeable: "mergeable h"
    and alloc_fits:
      "invar h \<Longrightarrow> 0 < n \<Longrightarrow> n < 2147483648 \<Longrightarrow> ready (n # ns) h \<Longrightarrow> heap_alloc M n h = ret (p, h') \<Longrightarrow>
        unat p + nat n < 4294967296"
begin

lemma buf_alloc_ok:
  assumes "invar (lheap s)" and "0 < n" and "n < 2147483648" and "ready (n # ns) (lheap s)"
  obtains p h where "heap_alloc M n (lheap s) = ret (p, h)"
      "buf_alloc M n s = ret (p, s\<lparr>lheap := h, bufs := (bufs s)(p \<mapsto> map (fresh s p) [0..<nat n])\<rparr>)"
      "p \<noteq> nullptr" "p \<notin> live (lheap s)" "live h = insert p (live (lheap s))" "invar h" "ready ns h" "unat p + nat n < 4294967296"
proof -
  obtain p h where a: "heap_alloc M n (lheap s) = ret (p, h)" using alloc_returns [OF assms] by blast
  note f = alloc_fresh [OF assms a] alloc_fits [OF assms a]
  show thesis by (rule that [OF a]) (use f a in \<open>simp_all add: buf_alloc_def\<close>)
qed

lemma buf_free_live:
  assumes "invar (lheap s)" and "p \<in> live (lheap s)" and "p \<noteq> nullptr"
  obtains h where "buf_free M p s = ret (s\<lparr>lheap := h, bufs := (bufs s)(p := None)\<rparr>)"
    "live h = live (lheap s) - {p}" "invar h" "\<And>ns. ready ns (lheap s) \<Longrightarrow> ready ns h"
  using free_live [OF assms(1) always_mergeable assms(2)] assms(3) by (auto simp: buf_free_def)

end

end
