(* ===== verification/Ata_Driver.thy ===== *)
theory Ata_Driver
  imports User_Lib
begin

section \<open>The ATA driver of the file system service\<close>

text \<open>
  \<^verbatim>\<open>userland/system/LtFsService/src/AtaDriver.cpp\<close>: programmed I/O through the ports
  of an IDE channel. The device is not code; its state \<open>dev\<close> changes by the port instructions of
  the \<open>platform\<close>. What the driver relies on, from the ATA command set, is the predicate
  \<open>ata_disk\<close>. \<open>irqs\<close> is the interrupt flag of the processor.
\<close>

subsection \<open>Devices and registers\<close>

record AtaDevice =
  ata_type :: u8
  dataPort :: u16
  errorPort :: u16
  sectorCountPort :: u16
  lbaLowPort :: u16
  lbaMidPort :: u16
  lbaHiPort :: u16
  devicePort :: u16
  commandPort :: u16
  controlPort :: u16

definition AtaCreate :: "u16 \<Rightarrow> u8 \<Rightarrow> AtaDevice" where
  "AtaCreate ioPort ty = \<lparr>ata_type = ty, dataPort = ioPort, errorPort = ioPort + 1,
     sectorCountPort = ioPort + 2, lbaLowPort = ioPort + 3, lbaMidPort = ioPort + 4,
     lbaHiPort = ioPort + 5, devicePort = ioPort + 6, commandPort = ioPort + 7,
     controlPort = ioPort + 518\<rparr>"

abbreviation (input) ATA_REG_FEATURES :: u16 where "ATA_REG_FEATURES \<equiv> 1"
abbreviation (input) ATA_REG_HDDEVSEL :: u16 where "ATA_REG_HDDEVSEL \<equiv> 6"
abbreviation (input) ATA_REG_STATUS :: u16 where "ATA_REG_STATUS \<equiv> 7"
abbreviation (input) ATA_REG_CONTROL :: u16 where "ATA_REG_CONTROL \<equiv> 12"
abbreviation (input) ATA_REG_ALTSTATUS :: u16 where "ATA_REG_ALTSTATUS \<equiv> 12"

abbreviation (input) ATA_SR_BSY :: u8 where "ATA_SR_BSY \<equiv> 128"
abbreviation (input) ATA_SR_DF :: u8 where "ATA_SR_DF \<equiv> 32"
abbreviation (input) ATA_SR_DRQ :: u8 where "ATA_SR_DRQ \<equiv> 8"
abbreviation (input) ATA_SR_ERR :: u8 where "ATA_SR_ERR \<equiv> 1"

abbreviation (input) ATA_CMD_READ_PIO :: u8 where "ATA_CMD_READ_PIO \<equiv> 32"
abbreviation (input) ATA_CMD_WRITE_PIO :: u8 where "ATA_CMD_WRITE_PIO \<equiv> 48"
abbreviation (input) ATA_CMD_CACHE_FLUSH :: u8 where "ATA_CMD_CACHE_FLUSH \<equiv> 231"
abbreviation (input) ATA_CMD_IDENTIFY :: u8 where "ATA_CMD_IDENTIFY \<equiv> 236"

abbreviation (input) EIO :: int where "EIO \<equiv> 5"

subsection \<open>Waiting\<close>

text \<open>\<open>i < timeout\<close>: the number of further rounds is the second argument.\<close>

fun status_wait_timed ::
  "('d, 'h, 'm) platform_scheme \<Rightarrow> nat \<Rightarrow> u16 \<Rightarrow> 'd \<Rightarrow> u8 \<times> 'd" where
  "status_wait_timed M 0 port d = inb M port d"
| "status_wait_timed M (Suc n) port d =
     (case inb M port d of (st, d') \<Rightarrow>
        if st AND ATA_SR_BSY \<noteq> 0 then status_wait_timed M n port d' else (st, d'))"

partial_function (option) status_wait ::
  "('d, 'h, 'm) platform_scheme \<Rightarrow> u16 \<Rightarrow> 'd \<Rightarrow> (u8 \<times> 'd) exec" where
  "status_wait M port d =
     (if fst (inb M port d) AND ATA_SR_BSY \<noteq> 0 then status_wait M port (snd (inb M port d))
      else ret (inb M port d))"

definition AtaStatusWait ::
  "('d, 'h, 'm) platform_scheme \<Rightarrow> u16 \<Rightarrow> int \<Rightarrow> 'd \<Rightarrow> (u8 \<times> 'd) exec" where
  "AtaStatusWait M io_base timeout d =
     (if timeout > 0 then ret (status_wait_timed M (nat timeout) (io_base + ATA_REG_STATUS) d)
      else status_wait M (io_base + ATA_REG_STATUS) d)"

definition AtaIoWait :: "('d, 'h, 'm) platform_scheme \<Rightarrow> u16 \<Rightarrow> 'd \<Rightarrow> 'd" where
  "AtaIoWait M io_base d =
     (let port = io_base + ATA_REG_ALTSTATUS in
      snd (inb M port (snd (inb M port (snd (inb M port (snd (inb M port d))))))))"

definition AtaWait ::
  "('d, 'h, 'm) platform_scheme \<Rightarrow> u16 \<Rightarrow> int \<Rightarrow> 'd \<Rightarrow> (int \<times> 'd) exec" where
  "AtaWait M io adv d =
     andThen (AtaStatusWait M io (-1) (AtaIoWait M io d)) (\<lambda>(status, d1).
       if adv \<noteq> 0 then
         case inb M (io + ATA_REG_STATUS) d1 of (status, d2) \<Rightarrow>
           ret (if status AND ATA_SR_ERR \<noteq> 0 then 1
                else if status AND ATA_SR_DF \<noteq> 0 then 1
                else if status AND ATA_SR_DRQ = 0 then 1 else 0, d2)
       else ret (0, d1))"

subsection \<open>Reading\<close>

text \<open>The register writes that select a sector.\<close>

definition select_sector ::
  "('d, 'h, 'm) platform_scheme \<Rightarrow> AtaDevice \<Rightarrow> u32 \<Rightarrow> 'd \<Rightarrow> 'd" where
  "select_sector M device lba d =
     outb M (lbaHiPort device) (ucast (drop_bit 16 lba))
    (outb M (lbaMidPort device) (ucast (drop_bit 8 lba))
    (outb M (lbaLowPort device) (ucast lba)
    (outb M (sectorCountPort device) 1
    (outb M (dataPort device + ATA_REG_FEATURES) 0 d))))"

definition drive_head :: "u32 \<Rightarrow> u8" where
  "drive_head lba = 224 OR ucast (drop_bit 24 lba AND 15)"

text \<open>One attempt: the register writes and the wait for the data.\<close>

definition read_attempt ::
  "('d, 'h, 'm) platform_scheme \<Rightarrow> AtaDevice \<Rightarrow> u32 \<Rightarrow> 'd \<Rightarrow> (int \<times> 'd) exec" where
  "read_attempt M device lba d =
     (let io = dataPort device in
      andThen (AtaWait M io 0 (outb M (io + ATA_REG_CONTROL) 2 d)) (\<lambda>(_, d1).
      AtaWait M io 1
        (outb M (commandPort device) ATA_CMD_READ_PIO
          (select_sector M device lba
            (outb M (io + ATA_REG_HDDEVSEL) (drive_head lba) d1)))))"

text \<open>The jumps back to \<^verbatim>\<open>try_label\<close>: at most five attempts.\<close>

function try_read ::
  "('d, 'h, 'm) platform_scheme \<Rightarrow> AtaDevice \<Rightarrow> u32 \<Rightarrow> nat \<Rightarrow> 'd \<Rightarrow> (int \<times> 'd) exec" where
  "try_read M device lba errors d =
     andThen (read_attempt M device lba d) (\<lambda>(failure, d1).
       if failure \<noteq> 0 then
         if Suc errors > 4 then ret (- EIO, d1) else try_read M device lba (Suc errors) d1
       else ret (0, d1))"
  by pat_completeness auto
termination
  by (relation "measure (\<lambda>(M, device, lba, errors, d). 4 - errors)") auto

declare try_read.simps [simp del]

definition word_bytes :: "u16 \<Rightarrow> u8 list" where
  "word_bytes w = [ucast w, ucast (drop_bit 8 w)]"

fun read_words ::
  "('d, 'h, 'm) platform_scheme \<Rightarrow> u16 \<Rightarrow> nat \<Rightarrow> addr \<Rightarrow> nat \<Rightarrow> ('h, 'd, 'z) prog_scheme \<Rightarrow>
   ('h, 'd, 'z) prog_scheme exec" where
  "read_words M port 0 p off s = ret s"
| "read_words M port (Suc n) p off s =
     (case inw M port (dev s) of (w, d) \<Rightarrow>
        andThen (wr_bytes p off (word_bytes w) (s\<lparr>dev := d\<rparr>)) (\<lambda>s1. read_words M port n p (off + 2) s1))"

definition AtaReadSectorPio ::
  "('d, 'h, 'm) platform_scheme \<Rightarrow> AtaDevice \<Rightarrow> addr \<Rightarrow> nat \<Rightarrow> u32 \<Rightarrow> ('h, 'd, 'z) prog_scheme \<Rightarrow>
   (int \<times> ('h, 'd, 'z) prog_scheme) exec" where
  "AtaReadSectorPio M device p off lba s =
     andThen (try_read M device lba 0 (dev s)) (\<lambda>(rc, d1).
       if rc \<noteq> 0 then ret (rc, s\<lparr>dev := d1\<rparr>)
       else andThen (read_words M (dataPort device) 256 p off (s\<lparr>dev := d1\<rparr>)) (\<lambda>s2.
         andThen (AtaWait M (dataPort device) 0 (dev s2)) (\<lambda>(_, d3).
           ret (0, s2\<lparr>dev := d3\<rparr>))))"

abbreviation (input) ATA_BLOCK_SIZE :: nat where "ATA_BLOCK_SIZE \<equiv> 512"

fun read_sectors ::
  "('d, 'h, 'm) platform_scheme \<Rightarrow> AtaDevice \<Rightarrow> nat \<Rightarrow> addr \<Rightarrow> nat \<Rightarrow> u32 \<Rightarrow>
   ('h, 'd, 'z) prog_scheme \<Rightarrow> (int \<times> ('h, 'd, 'z) prog_scheme) exec" where
  "read_sectors M device 0 p off lba s = ret (0, s)"
| "read_sectors M device (Suc n) p off lba s =
     andThen (AtaReadSectorPio M device p off lba s) (\<lambda>(rc, s1).
       if rc = - EIO then ret (- EIO, s1)
       else read_sectors M device n p (off + ATA_BLOCK_SIZE) (lba + 1) s1)"

text \<open>
  \<open>buf\<close> is a pointer to a buffer and an offset in it. After a failed sector the function returns
  with the buffer still allocated and the interrupts off.
\<close>

definition AtaRead ::
  "('d, 'h, 'm) platform_scheme \<Rightarrow> AtaDevice \<Rightarrow> addr \<Rightarrow> u32 \<Rightarrow> u32 \<Rightarrow>
   ('h, 'd, 'z) prog_scheme \<Rightarrow> (int \<times> ('h, 'd, 'z) prog_scheme) exec" where
  "AtaRead M device buf offset sz s =
     (let blockBegin = offset div 512; blockEnd = (offset + sz) div 512;
          nbBlocks = blockEnd - blockBegin + 1 in
      andThen (buf_alloc M (sint (nbBlocks * 512)) s) (\<lambda>(buffer, s1).
        if buffer = nullptr then ret (0, s1)
        else andThen (read_sectors M device (nat (sint nbBlocks)) buffer 0 blockBegin (s1\<lparr>irqs := False\<rparr>))
          (\<lambda>(rc, s2).
            if rc = - EIO then ret (- EIO, s2)
            else andThen (buf_copy buffer (unat (offset mod 512)) buf 0 sz s2) (\<lambda>s3.
              andThen (buf_free M buffer s3) (\<lambda>s4. ret (sint sz, s4\<lparr>irqs := True\<rparr>))))))"

subsection \<open>Writing\<close>

fun write_words ::
  "('d, 'h, 'm) platform_scheme \<Rightarrow> u16 \<Rightarrow> nat \<Rightarrow> int \<Rightarrow> int \<Rightarrow> addr \<Rightarrow> nat \<Rightarrow>
   ('h, 'd, 'z) prog_scheme \<Rightarrow> ('h, 'd, 'z) prog_scheme exec" where
  "write_words M port 0 i limit p off s = ret s"
| "write_words M port (Suc n) i limit p off s =
     andThen (if i < limit then rd16 p (off + 2 * nat i) s else ret 0) (\<lambda>w.
       write_words M port n (i + 1) limit p off (s\<lparr>dev := outw M port w (dev s)\<rparr>))"

definition AtaWriteSectorPio ::
  "('d, 'h, 'm) platform_scheme \<Rightarrow> AtaDevice \<Rightarrow> addr \<Rightarrow> nat \<Rightarrow> u32 \<Rightarrow> u32 \<Rightarrow>
   ('h, 'd, 'z) prog_scheme \<Rightarrow> (int \<times> ('h, 'd, 'z) prog_scheme) exec" where
  "AtaWriteSectorPio M device p off lba sz s =
     (let io = dataPort device in
      andThen (AtaWait M io 0 (outb M (io + ATA_REG_CONTROL) 2 (dev s))) (\<lambda>(_, d1).
      andThen (AtaWait M io 0 (outb M (io + ATA_REG_HDDEVSEL) (drive_head lba) d1)) (\<lambda>(_, d2).
      andThen (AtaWait M io 0
          (outb M (commandPort device) ATA_CMD_WRITE_PIO (select_sector M device lba d2))) (\<lambda>(_, d3).
      andThen (write_words M (dataPort device) 256 0 (if sz \<ge> 512 then 256 else sint (sz div 2)) p off
          (s\<lparr>dev := d3\<rparr>)) (\<lambda>s4.
      andThen (AtaWait M io 0 (outb M (commandPort device) ATA_CMD_CACHE_FLUSH (dev s4))) (\<lambda>(_, d5).
        ret (0, s4\<lparr>dev := d5\<rparr>)))))))"

text \<open>\<open>buffer\<close> points to 16-bit words: adding 512 moves it by 1024 bytes.\<close>

fun write_sectors ::
  "('d, 'h, 'm) platform_scheme \<Rightarrow> AtaDevice \<Rightarrow> nat \<Rightarrow> addr \<Rightarrow> nat \<Rightarrow> u32 \<Rightarrow> u32 \<Rightarrow>
   ('h, 'd, 'z) prog_scheme \<Rightarrow> ('h, 'd, 'z) prog_scheme exec" where
  "write_sectors M device 0 p off lba sz s = ret s"
| "write_sectors M device (Suc n) p off lba sz s =
     (if sz > 0 then
        andThen (AtaWriteSectorPio M device p off lba sz s) (\<lambda>(_, s1).
          if sz \<ge> 512
          then write_sectors M device n p (off + 2 * ATA_BLOCK_SIZE) (lba + 1) (sz - 512) s1
          else write_sectors M device n p (off + 2 * unat sz) (lba + 1) 0 s1)
      else ret s)"

definition AtaWrite ::
  "('d, 'h, 'm) platform_scheme \<Rightarrow> AtaDevice \<Rightarrow> addr \<Rightarrow> u32 \<Rightarrow> u32 \<Rightarrow>
   ('h, 'd, 'z) prog_scheme \<Rightarrow> (int \<times> ('h, 'd, 'z) prog_scheme) exec" where
  "AtaWrite M device buf offset sz s =
     (let count = (if sz > 512 then sint (sz div 512) else 1); block = offset div 512 in
      if offset mod 512 \<noteq> 0 then ret (-1, s)
      else andThen (write_sectors M device (nat count) buf 0 block sz (s\<lparr>irqs := False\<rparr>)) (\<lambda>s1.
        ret (count, s1\<lparr>irqs := True\<rparr>)))"

subsection \<open>Identification\<close>

fun skip_words :: "('d, 'h, 'm) platform_scheme \<Rightarrow> u16 \<Rightarrow> nat \<Rightarrow> 'd \<Rightarrow> 'd" where
  "skip_words M port 0 d = d"
| "skip_words M port (Suc n) d = skip_words M port n (snd (inw M port d))"

definition AtaIdentify :: "('d, 'h, 'm) platform_scheme \<Rightarrow> AtaDevice \<Rightarrow> 'd \<Rightarrow> int \<times> 'd" where
  "AtaIdentify M device d =
     (let d1 = outb M (devicePort device) (ata_type device) d;
          d2 = outb M (sectorCountPort device) 0 d1;
          d3 = outb M (lbaLowPort device) 0 d2;
          d4 = outb M (lbaMidPort device) 0 d3;
          d5 = outb M (lbaHiPort device) 0 d4;
          d6 = outb M (commandPort device) ATA_CMD_IDENTIFY d5 in
      case inb M (dataPort device + ATA_REG_STATUS) d6 of (status, d7) \<Rightarrow>
        if status \<noteq> 0 then (1, skip_words M (dataPort device) 256 d7) else (0, d7))"

definition AtaInit :: "('d, 'h, 'm) platform_scheme \<Rightarrow> AtaDevice \<Rightarrow> 'd \<Rightarrow> int \<times> 'd" where
  "AtaInit M ataDevice d = AtaIdentify M ataDevice d"

end
