(* ===== verification/Ext2.thy ===== *)
theory Ext2
  imports Ata_Driver
begin

section \<open>The ext2 file system\<close>

text \<open>
  \<^verbatim>\<open>userland/system/LtFsService/src/Ext2.cpp\<close>: reading the super block, the group
  descriptors, inodes and the content of a file. The structures of the disk are raw buffers whose
  members are read at their offsets; \<^verbatim>\<open>Ext2Disk\<close> is an object of the service. A division
  by zero is an exception, which stops the machine. Log messages are not modelled.
\<close>

subsection \<open>Objects\<close>

record Ext2Disk =
  disk_device :: addr
  superBlock :: addr
  blockSize :: u32
  groups :: u16
  groupDec :: addr

record ('h, 'd) ext2 = "('h, 'd) prog" +
  disks :: "addr \<rightharpoonup> Ext2Disk"
  atas :: "addr \<rightharpoonup> AtaDevice"

abbreviation sizeof_Ext2Disk :: int where "sizeof_Ext2Disk \<equiv> 20"
abbreviation sizeof_Ext2SuperBlock :: u32 where "sizeof_Ext2SuperBlock \<equiv> 1024"
abbreviation sizeof_Ext2Inode :: int where "sizeof_Ext2Inode \<equiv> 128"
abbreviation sizeof_Ext2GroupDesc :: int where "sizeof_Ext2GroupDesc \<equiv> 32"

abbreviation MBR_RESERVED_SIZE :: u32 where "MBR_RESERVED_SIZE \<equiv> 1024"

text \<open>The offsets of the members the code reads.\<close>

definition sb_inodesCount :: nat where "sb_inodesCount = 0"
definition sb_blocksCount :: nat where "sb_blocksCount = 4"
definition sb_logBlockSize :: nat where "sb_logBlockSize = 24"
definition sb_blocksPerGroup :: nat where "sb_blocksPerGroup = 32"
definition sb_inodesPerGroup :: nat where "sb_inodesPerGroup = 40"
definition sb_inodeSize :: nat where "sb_inodeSize = 88"
definition gd_inodeTable :: nat where "gd_inodeTable = 8"
definition in_mode :: nat where "in_mode = 0"
definition in_size :: nat where "in_size = 4"
definition in_block :: nat where "in_block = 40"

lemmas ext2_offsets = sb_inodesCount_def sb_blocksCount_def sb_logBlockSize_def sb_blocksPerGroup_def
  sb_inodesPerGroup_def sb_inodeSize_def gd_inodeTable_def in_mode_def in_size_def in_block_def

text \<open>A word of a block of memory before anything was stored there.\<close>

definition fresh32 :: "('h, 'd, 'z) prog_scheme \<Rightarrow> addr \<Rightarrow> nat \<Rightarrow> u32" where
  "fresh32 s p off = of_nat (le_bytes (map (fresh s p) [off..<off + 4]))"

definition fresh_Disk :: "('h, 'd, 'z) prog_scheme \<Rightarrow> addr \<Rightarrow> Ext2Disk" where
  "fresh_Disk s p = \<lparr>disk_device = fresh32 s p 0, superBlock = fresh32 s p 4, blockSize = fresh32 s p 8,
     groups = ucast (fresh32 s p 12), groupDec = fresh32 s p 16\<rparr>"

definition free_disk ::
  "('d, 'h, 'm) platform_scheme \<Rightarrow> addr \<Rightarrow> ('h, 'd, 'z) ext2_scheme \<Rightarrow> ('h, 'd, 'z) ext2_scheme exec" where
  "free_disk M p s = andThen (heap_free M p (lheap s)) (\<lambda>h.
     ret (s\<lparr>lheap := h, disks := (disks s)(p := None)\<rparr>))"

text \<open>Division and remainder of the processor.\<close>

definition udiv :: "u32 \<Rightarrow> u32 \<Rightarrow> u32 exec" where
  "udiv a b = (if b = 0 then halt Panicked else ret (a div b))"

definition umod :: "u32 \<Rightarrow> u32 \<Rightarrow> u32 exec" where
  "umod a b = (if b = 0 then halt Panicked else ret (a mod b))"

subsection \<open>The disk\<close>

text \<open>
  A pointer to the caller's variable is \<open>None\<close> when it is null, and otherwise its value. The call of
  \<^verbatim>\<open>AtaRead\<close> has size and offset exchanged; both are 1024.
\<close>

definition ReadSuperBlock ::
  "('d, 'h, 'm) platform_scheme \<Rightarrow> addr \<Rightarrow> addr option \<Rightarrow> ('h, 'd, 'z) ext2_scheme \<Rightarrow>
   (Status \<times> addr option \<times> ('h, 'd, 'z) ext2_scheme) exec" where
  "ReadSuperBlock M device superBlockp s =
     (if device = nullptr then ret (STATUS_NULL_PARAMETER, superBlockp, s)
      else if superBlockp = None then ret (STATUS_NULL_PARAMETER, superBlockp, s)
      else andThen (buf_alloc M (sint sizeof_Ext2SuperBlock) s) (\<lambda>(localSuperBlock, s1).
        if localSuperBlock = nullptr then ret (STATUS_ALLOC_FAILED, Some nullptr, s1)
        else andThen (deref (atas s1) device) (\<lambda>dv.
          andThen (AtaRead M dv localSuperBlock sizeof_Ext2SuperBlock MBR_RESERVED_SIZE s1) (\<lambda>(r, s2).
            if r < 0 then andThen (buf_free M localSuperBlock s2) (\<lambda>s3. ret (STATUS_FAILURE, Some nullptr, s3))
            else ret (STATUS_SUCCESS, Some localSuperBlock, s2)))))"

definition ReadGroupDesc ::
  "('d, 'h, 'm) platform_scheme \<Rightarrow> addr \<Rightarrow> addr option \<Rightarrow> ('h, 'd, 'z) ext2_scheme \<Rightarrow>
   (Status \<times> addr option \<times> ('h, 'd, 'z) ext2_scheme) exec" where
  "ReadGroupDesc M disk groupDesc s = andThen (deref (disks s) disk) (\<lambda>dk.
     let sz = int (unat (groups dk)) * sizeof_Ext2GroupDesc;
         offset = (if blockSize dk = MBR_RESERVED_SIZE then 2048 else blockSize dk) in
     if groupDesc = None then ret (STATUS_NULL_PARAMETER, groupDesc, s)
     else andThen (buf_alloc M sz s) (\<lambda>(localGroupDesc, s1).
       if localGroupDesc = nullptr then ret (STATUS_ALLOC_FAILED, Some nullptr, s1)
       else andThen (deref (atas s1) (disk_device dk)) (\<lambda>dv.
         andThen (AtaRead M dv localGroupDesc offset (of_int sz) s1) (\<lambda>(r, s2).
           if r < 0 then andThen (buf_free M localGroupDesc s2) (\<lambda>s3. ret (STATUS_FAILURE, Some nullptr, s3))
           else ret (STATUS_SUCCESS, Some localGroupDesc, s2)))))"

text \<open>
  The number of groups a count needs. The 32-bit sums are cut to 16 bits when they are stored.
\<close>

definition groups_for :: "u32 \<Rightarrow> u32 \<Rightarrow> u32 exec" where
  "groups_for count perGroup = andThen (udiv count perGroup) (\<lambda>q.
     andThen (umod count perGroup) (\<lambda>r. ret (q + (if r \<noteq> 0 then 1 else 0))))"

definition Ext2ReadDiskOnDevice ::
  "('d, 'h, 'm) platform_scheme \<Rightarrow> addr \<Rightarrow> addr option \<Rightarrow> ('h, 'd, 'z) ext2_scheme \<Rightarrow>
   (Status \<times> addr option \<times> ('h, 'd, 'z) ext2_scheme) exec" where
  "Ext2ReadDiskOnDevice M device disk s =
     (if device = nullptr then ret (STATUS_NULL_PARAMETER, disk, s)
      else if disk = None then ret (STATUS_NULL_PARAMETER, disk, s)
      else andThen (heap_alloc M sizeof_Ext2Disk (lheap s)) (\<lambda>(localDisk, h).
        if localDisk = nullptr then ret (STATUS_ALLOC_FAILED, Some nullptr, s\<lparr>lheap := h\<rparr>)
        else let s1 = s\<lparr>lheap := h, disks := (disks s)(localDisk \<mapsto> fresh_Disk s localDisk)\<rparr> in
        andThen (ReadSuperBlock M device (Some nullptr) s1) (\<lambda>(status, sbp, s2). let sb = the sbp in
          if failed status \<or> sb = nullptr
          then andThen (free_disk M localDisk s2) (\<lambda>s3.
            andThen (buf_free M sb s3) (\<lambda>s4. ret (status, Some nullptr, s4)))
          else andThen (rd32 sb sb_logBlockSize s2) (\<lambda>logBlockSize.
          andThen (rd32 sb sb_blocksCount s2) (\<lambda>blocksCount.
          andThen (rd32 sb sb_blocksPerGroup s2) (\<lambda>blocksPerGroup.
          andThen (groups_for blocksCount blocksPerGroup) (\<lambda>i.
          andThen (rd32 sb sb_inodesCount s2) (\<lambda>inodesCount.
          andThen (rd32 sb sb_inodesPerGroup s2) (\<lambda>inodesPerGroup.
          andThen (groups_for inodesCount inodesPerGroup) (\<lambda>j.
          andThen (deref (disks s2) localDisk) (\<lambda>dk.
            let s3 = s2\<lparr>disks := (disks s2)(localDisk \<mapsto> dk\<lparr>disk_device := device, superBlock := sb,
                  blockSize := push_bit (unat logBlockSize mod 32) 1024,
                  groups := ucast (if i > j then i else j)\<rparr>)\<rparr> in
            andThen (ReadGroupDesc M localDisk (Some nullptr) s3) (\<lambda>(status, gdp, s4). let gd = the gdp in
              if gd = nullptr
              then andThen (free_disk M localDisk s4) (\<lambda>s5.
                andThen (buf_free M sb s5) (\<lambda>s6. ret (status, Some nullptr, s6)))
              else andThen (deref (disks s4) localDisk) (\<lambda>dk.
                ret (STATUS_SUCCESS, Some localDisk,
                  s4\<lparr>disks := (disks s4)(localDisk \<mapsto> dk\<lparr>groupDec := gd\<rparr>)\<rparr>))))))))))))))"

text \<open>
  After a failed allocation \<^verbatim>\<open>Ext2ReadInode\<close> goes on with the null buffer. It reads as many
  bytes as the super block says an inode has, into a buffer of the 128 bytes of the structure.
\<close>

definition Ext2ReadInode ::
  "('d, 'h, 'm) platform_scheme \<Rightarrow> addr \<Rightarrow> int \<Rightarrow> addr option \<Rightarrow> ('h, 'd, 'z) ext2_scheme \<Rightarrow>
   (Status \<times> addr option \<times> ('h, 'd, 'z) ext2_scheme) exec" where
  "Ext2ReadInode M disk num inode s =
     (if inode = None then ret (STATUS_NULL_PARAMETER, inode, s)
      else if num < 1 then ret (STATUS_INVALID_PARAMETER, Some nullptr, s)
      else andThen (buf_alloc M sizeof_Ext2Inode s) (\<lambda>(localInode, s1).
        andThen (deref (disks s1) disk) (\<lambda>dk.
        andThen (rd32 (superBlock dk) sb_inodesPerGroup s1) (\<lambda>inodesPerGroup.
        andThen (udiv (of_int (num - 1)) inodesPerGroup) (\<lambda>inodeGroupIndex.
        andThen (umod (of_int (num - 1)) inodesPerGroup) (\<lambda>inodeIndex.
        andThen (rd32 (groupDec dk) (32 * unat inodeGroupIndex + gd_inodeTable) s1) (\<lambda>inodeTable.
        andThen (rd16 (superBlock dk) sb_inodeSize s1) (\<lambda>inodeSize.
        andThen (deref (atas s1) (disk_device dk)) (\<lambda>dv.
          let offset = inodeTable * blockSize dk + inodeIndex * ucast inodeSize in
          andThen (AtaRead M dv localInode offset (ucast inodeSize) s1) (\<lambda>(r, s2).
            if r < 0 then andThen (buf_free M localInode s2) (\<lambda>s3. ret (STATUS_FAILURE, Some nullptr, s3))
            else ret (STATUS_SUCCESS, Some localInode, s2)))))))))))"

subsection \<open>The content of a file\<close>

text \<open>
  The loops that copy the blocks of a file. \<open>entry\<close> is the pointer the loop condition tests and
  \<open>number\<close> the one the body reads; \<open>n\<close> is the number of rounds left. The result says whether a
  read failed, and gives the offset and the size left.
\<close>

definition copy_block ::
  "('d, 'h, 'm) platform_scheme \<Rightarrow> AtaDevice \<Rightarrow> u32 \<Rightarrow> addr \<Rightarrow> addr \<Rightarrow> u32 \<Rightarrow> u32 \<times> u32 \<Rightarrow>
   ('h, 'd, 'z) ext2_scheme \<Rightarrow> (bool \<times> (u32 \<times> u32) \<times> ('h, 'd, 'z) ext2_scheme) exec" where
  "copy_block M dv bsize block fileContent number progress s =
     (case progress of (fileOffset, fileSize) \<Rightarrow>
      andThen (AtaRead M dv block (number * bsize) bsize s) (\<lambda>(r, s1).
        if r < 0 then ret (True, (fileOffset, fileSize), s1)
        else let sz = (if fileSize > bsize then bsize else fileSize) in
          andThen (buf_copy block 0 fileContent (unat fileOffset) sz s1) (\<lambda>s2.
            ret (False, (fileOffset + sz, fileSize - sz), s2))))"

fun copy_loop ::
  "('d, 'h, 'm) platform_scheme \<Rightarrow> AtaDevice \<Rightarrow> u32 \<Rightarrow> addr \<Rightarrow> addr \<Rightarrow>
   (nat \<Rightarrow> ('h, 'd, 'z) ext2_scheme \<Rightarrow> u32 exec) \<Rightarrow> (nat \<Rightarrow> ('h, 'd, 'z) ext2_scheme \<Rightarrow> u32 exec) \<Rightarrow>
   nat \<Rightarrow> nat \<Rightarrow> u32 \<times> u32 \<Rightarrow> ('h, 'd, 'z) ext2_scheme \<Rightarrow>
   (bool \<times> (u32 \<times> u32) \<times> ('h, 'd, 'z) ext2_scheme) exec" where
  "copy_loop M dv bsize block fileContent entry number 0 i progress s = ret (False, progress, s)"
| "copy_loop M dv bsize block fileContent entry number (Suc n) i progress s =
     andThen (entry i s) (\<lambda>e.
       if e = 0 then ret (False, progress, s)
       else andThen (number i s) (\<lambda>b.
         andThen (copy_block M dv bsize block fileContent b progress s) (\<lambda>(fail, progress, s1).
           if fail then ret (True, progress, s1)
           else copy_loop M dv bsize block fileContent entry number n (Suc i) progress s1)))"

definition inode_block :: "addr \<Rightarrow> nat \<Rightarrow> ('h, 'd, 'z) ext2_scheme \<Rightarrow> u32 exec" where
  "inode_block inode i s = rd32 inode (in_block + 4 * i) s"

definition table_entry :: "addr \<Rightarrow> nat \<Rightarrow> ('h, 'd, 'z) ext2_scheme \<Rightarrow> u32 exec" where
  "table_entry table i s = rd32 table (4 * i) s"

text \<open>The part of the file behind the pointer in \<open>block[12]\<close>.\<close>

definition singly_part ::
  "('d, 'h, 'm) platform_scheme \<Rightarrow> AtaDevice \<Rightarrow> u32 \<Rightarrow> addr \<Rightarrow> addr \<Rightarrow> addr \<Rightarrow> u32 \<times> u32 \<Rightarrow>
   ('h, 'd, 'z) ext2_scheme \<Rightarrow> (Status \<times> addr \<times> (u32 \<times> u32) \<times> ('h, 'd, 'z) ext2_scheme) exec" where
  "singly_part M dv bsize inode block fileContent progress s =
     andThen (inode_block inode 12 s) (\<lambda>b.
       if b = 0 then ret (STATUS_SUCCESS, nullptr, progress, s)
       else andThen (buf_alloc M (sint bsize) s) (\<lambda>(singlyBlock, s1).
         if singlyBlock = nullptr then ret (STATUS_ALLOC_FAILED, nullptr, progress, s1)
         else andThen (AtaRead M dv singlyBlock (b * bsize) bsize s1) (\<lambda>(r, s2).
           if r < 0 then ret (STATUS_FAILURE, singlyBlock, progress, s2)
           else andThen (copy_loop M dv bsize block fileContent (table_entry singlyBlock) (table_entry singlyBlock)
               (unat bsize div 4) 0 progress s2) (\<lambda>(fail, progress, s3).
             ret (if fail then STATUS_FAILURE else STATUS_SUCCESS, singlyBlock, progress, s3)))))"

text \<open>
  The part behind \<open>block[13]\<close>. The inner loop tests \<open>doublyBlock[j]\<close> and reads the block
  \<open>doublyBlock[i]\<close>.
\<close>

fun doubly_loop ::
  "('d, 'h, 'm) platform_scheme \<Rightarrow> AtaDevice \<Rightarrow> u32 \<Rightarrow> addr \<Rightarrow> addr \<Rightarrow> addr \<Rightarrow> addr \<Rightarrow> nat \<Rightarrow> nat \<Rightarrow>
   u32 \<times> u32 \<Rightarrow> ('h, 'd, 'z) ext2_scheme \<Rightarrow> (bool \<times> (u32 \<times> u32) \<times> ('h, 'd, 'z) ext2_scheme) exec" where
  "doubly_loop M dv bsize block fileContent singlyBlock doublyBlock 0 i progress s = ret (False, progress, s)"
| "doubly_loop M dv bsize block fileContent singlyBlock doublyBlock (Suc n) i progress s =
     andThen (table_entry singlyBlock i s) (\<lambda>e.
       if e = 0 then ret (False, progress, s)
       else andThen (AtaRead M dv doublyBlock (e * bsize) bsize s) (\<lambda>(r, s1).
         if r < 0 then ret (True, progress, s1)
         else andThen (copy_loop M dv bsize block fileContent (table_entry doublyBlock) (\<lambda>j. table_entry doublyBlock i)
             (unat bsize div 4) 0 progress s1) (\<lambda>(fail, progress, s2).
           if fail then ret (True, progress, s2)
           else doubly_loop M dv bsize block fileContent singlyBlock doublyBlock n (Suc i) progress s2)))"

definition doubly_part ::
  "('d, 'h, 'm) platform_scheme \<Rightarrow> AtaDevice \<Rightarrow> u32 \<Rightarrow> addr \<Rightarrow> addr \<Rightarrow> addr \<Rightarrow> addr \<Rightarrow> u32 \<times> u32 \<Rightarrow>
   ('h, 'd, 'z) ext2_scheme \<Rightarrow> (Status \<times> addr \<times> addr \<times> ('h, 'd, 'z) ext2_scheme) exec" where
  "doubly_part M dv bsize inode block fileContent singlyBlock progress s =
     andThen (inode_block inode 13 s) (\<lambda>b.
       if b = 0 then ret (STATUS_SUCCESS, singlyBlock, nullptr, s)
       else andThen (if singlyBlock = nullptr then buf_alloc M (sint bsize) s else ret (singlyBlock, s))
         (\<lambda>(singlyBlock, s1).
           if singlyBlock = nullptr then ret (STATUS_ALLOC_FAILED, nullptr, nullptr, s1)
           else andThen (buf_alloc M (sint bsize) s1) (\<lambda>(doublyBlock, s2).
             if doublyBlock = nullptr then ret (STATUS_ALLOC_FAILED, singlyBlock, nullptr, s2)
             else andThen (AtaRead M dv singlyBlock (b * bsize) bsize s2) (\<lambda>(r, s3).
               if r < 0 then ret (STATUS_FAILURE, singlyBlock, doublyBlock, s3)
               else andThen (doubly_loop M dv bsize block fileContent singlyBlock doublyBlock (unat bsize div 4) 0
                   progress s3) (\<lambda>(fail, progress, s4).
                 ret (if fail then STATUS_FAILURE else STATUS_SUCCESS, singlyBlock, doublyBlock, s4))))))"

text \<open>The label \<^verbatim>\<open>clean\<close>: give back what is not null.\<close>

fun free_all ::
  "('d, 'h, 'm) platform_scheme \<Rightarrow> addr list \<Rightarrow> ('h, 'd, 'z) ext2_scheme \<Rightarrow> ('h, 'd, 'z) ext2_scheme exec" where
  "free_all M [] s = ret s"
| "free_all M (p # ps) s = andThen (buf_free M p s) (\<lambda>s1. free_all M ps s1)"

definition Ext2ReadFile ::
  "('d, 'h, 'm) platform_scheme \<Rightarrow> addr \<Rightarrow> addr \<Rightarrow> int \<Rightarrow> addr option \<Rightarrow> ('h, 'd, 'z) ext2_scheme \<Rightarrow>
   (Status \<times> addr option \<times> ('h, 'd, 'z) ext2_scheme) exec" where
  "Ext2ReadFile M disk inode inum content s =
     (if disk = nullptr then ret (STATUS_NULL_PARAMETER, content, s)
      else if inode = nullptr then ret (STATUS_NULL_PARAMETER, content, s)
      else if content = None then ret (STATUS_NULL_PARAMETER, content, s)
      else andThen (rd32 inode in_size s) (\<lambda>fileSize.
        andThen (buf_alloc M (sint fileSize) s) (\<lambda>(fileContent, s1).
        if fileContent = nullptr then ret (STATUS_ALLOC_FAILED, content, s1)
        else andThen (deref (disks s1) disk) (\<lambda>dk. let bsize = blockSize dk in
        andThen (buf_alloc M (sint bsize) s1) (\<lambda>(block, s2).
        if block = nullptr
        then andThen (free_all M [fileContent] s2) (\<lambda>s3. ret (STATUS_ALLOC_FAILED, content, s3))
        else andThen (deref (atas s2) (disk_device dk)) (\<lambda>dv.
        andThen (copy_loop M dv bsize block fileContent (inode_block inode) (inode_block inode) 12 0 (0, fileSize) s2)
          (\<lambda>(fail, progress, s3).
        if fail then andThen (free_all M [fileContent, block] s3) (\<lambda>s4. ret (STATUS_FAILURE, content, s4))
        else andThen (singly_part M dv bsize inode block fileContent progress s3) (\<lambda>(status, singlyBlock, progress, s4).
        if failed status
        then andThen (free_all M [fileContent, block, singlyBlock] s4) (\<lambda>s5. ret (status, content, s5))
        else andThen (doubly_part M dv bsize inode block fileContent singlyBlock progress s4)
          (\<lambda>(status, singlyBlock, doublyBlock, s5).
        if failed status
        then andThen (free_all M [fileContent, block, singlyBlock, doublyBlock] s5) (\<lambda>s6. ret (status, content, s6))
        else andThen (free_all M [block, singlyBlock, doublyBlock] s5) (\<lambda>s6.
          ret (STATUS_SUCCESS, Some fileContent, s6)))))))))))"

definition Ext2FreeDisk ::
  "('d, 'h, 'm) platform_scheme \<Rightarrow> addr \<Rightarrow> ('h, 'd, 'z) ext2_scheme \<Rightarrow> ('h, 'd, 'z) ext2_scheme exec" where
  "Ext2FreeDisk M disk s =
     (if disk = nullptr then ret s
      else andThen (deref (disks s) disk) (\<lambda>dk.
        andThen (buf_free M (groupDec dk) s) (\<lambda>s1.
        andThen (buf_free M (superBlock dk) s1) (\<lambda>s2.
          free_disk M disk s2))))"

end
