(* ===== verification/File_Cache.thy ===== *)
theory File_Cache
  imports Ext2
begin

section \<open>The files of the service\<close>

text \<open>
  \<^verbatim>\<open>userland/system/LtFsService/src/File.cpp\<close> and \<^verbatim>\<open>FsManager.cpp\<close>: the tree
  of cached files and directories over the ext2 code. A \<^verbatim>\<open>File\<close> is an object of the
  heap; its inode, name and content are buffers. The members a function does not set hold what the
  memory of the object held. Log messages are not modelled.
\<close>

subsection \<open>Objects\<close>

record File =
  f_disk :: addr
  f_inum :: int
  f_inode :: addr
  f_name :: addr
  f_content :: addr
  f_opened :: bool
  f_leaf :: addr
  f_parent :: addr
  f_prev :: addr
  f_next :: addr

record ('h, 'd) fs = "('h, 'd) ext2" +
  files :: "addr \<rightharpoonup> File"
  gExt2Disk :: addr
  gRootFile :: addr

abbreviation sizeof_File :: int where "sizeof_File \<equiv> 40"
abbreviation EXT2_ROOT_INODE_NUMBER :: int where "EXT2_ROOT_INODE_NUMBER \<equiv> 2"
abbreviation EXT2_S_IFDIR :: u16 where "EXT2_S_IFDIR \<equiv> 0x4000"

definition fresh_File :: "('h, 'd, 'z) prog_scheme \<Rightarrow> addr \<Rightarrow> File" where
  "fresh_File s p = \<lparr>f_disk = fresh32 s p 0, f_inum = sint (fresh32 s p 4), f_inode = fresh32 s p 8,
     f_name = fresh32 s p 12, f_content = fresh32 s p 16, f_opened = (fresh s p 20 \<noteq> 0),
     f_leaf = fresh32 s p 24, f_parent = fresh32 s p 28, f_prev = fresh32 s p 32, f_next = fresh32 s p 36\<rparr>"

definition alloc_file ::
  "('d, 'h, 'm) platform_scheme \<Rightarrow> ('h, 'd, 'z) fs_scheme \<Rightarrow> (addr \<times> ('h, 'd, 'z) fs_scheme) exec" where
  "alloc_file M s = andThen (heap_alloc M sizeof_File (lheap s)) (\<lambda>(p, h).
     if p = nullptr then ret (p, s\<lparr>lheap := h\<rparr>)
     else ret (p, s\<lparr>lheap := h, files := (files s)(p \<mapsto> fresh_File s p)\<rparr>))"

definition upd_file ::
  "addr \<Rightarrow> (File \<Rightarrow> File) \<Rightarrow> ('h, 'd, 'z) fs_scheme \<Rightarrow> ('h, 'd, 'z) fs_scheme exec" where
  "upd_file p g s = andThen (deref (files s) p) (\<lambda>f. ret (s\<lparr>files := (files s)(p \<mapsto> g f)\<rparr>))"

subsection \<open>Creating and opening\<close>

text \<open>\<^verbatim>\<open>CreateFile\<close> does not set \<open>leaf\<close>.\<close>

definition CreateFile ::
  "('d, 'h, 'm) platform_scheme \<Rightarrow> addr \<Rightarrow> addr \<Rightarrow> int \<Rightarrow> addr option \<Rightarrow> ('h, 'd, 'z) fs_scheme \<Rightarrow>
   (Status \<times> addr option \<times> ('h, 'd, 'z) fs_scheme) exec" where
  "CreateFile M disk inode inum file s =
     (if disk = nullptr then ret (STATUS_NULL_PARAMETER, file, s)
      else if inode = nullptr then ret (STATUS_NULL_PARAMETER, file, s)
      else if file = None then ret (STATUS_NULL_PARAMETER, file, s)
      else andThen (alloc_file M s) (\<lambda>(localFile, s1).
        if localFile = nullptr then ret (STATUS_ALLOC_FAILED, file, s1)
        else andThen (upd_file localFile (\<lambda>f. f\<lparr>f_content := nullptr, f_disk := disk, f_inode := inode, f_inum := inum,
            f_name := nullptr, f_opened := False, f_next := nullptr, f_parent := nullptr, f_prev := nullptr\<rparr>) s1) (\<lambda>s2.
          ret (STATUS_SUCCESS, Some localFile, s2))))"

text \<open>\<^verbatim>\<open>Ext2ReadInode(gExt2Disk, file->inum, &file->inode)\<close>\<close>

definition read_inode_of ::
  "('d, 'h, 'm) platform_scheme \<Rightarrow> addr \<Rightarrow> ('h, 'd, 'z) fs_scheme \<Rightarrow> (Status \<times> ('h, 'd, 'z) fs_scheme) exec" where
  "read_inode_of M file s = andThen (deref (files s) file) (\<lambda>f.
     andThen (Ext2ReadInode M (gExt2Disk s) (f_inum f) (Some (f_inode f)) s) (\<lambda>(status, inode, s1).
       andThen (upd_file file (\<lambda>f. f\<lparr>f_inode := the inode\<rparr>) s1) (\<lambda>s2. ret (status, s2))))"

definition ensure_inode ::
  "('d, 'h, 'm) platform_scheme \<Rightarrow> addr \<Rightarrow> ('h, 'd, 'z) fs_scheme \<Rightarrow> (Status \<times> ('h, 'd, 'z) fs_scheme) exec" where
  "ensure_inode M file s = andThen (deref (files s) file) (\<lambda>f.
     if f_inode f = nullptr then read_inode_of M file s else ret (STATUS_SUCCESS, s))"

definition OpenFile ::
  "('d, 'h, 'm) platform_scheme \<Rightarrow> addr \<Rightarrow> ('h, 'd, 'z) fs_scheme \<Rightarrow> (Status \<times> ('h, 'd, 'z) fs_scheme) exec" where
  "OpenFile M file s =
     (if file = nullptr then ret (STATUS_NULL_PARAMETER, s)
      else andThen (ensure_inode M file s) (\<lambda>(status, s1).
        if failed status then ret (status, s1)
        else andThen (deref (files s1) file) (\<lambda>f.
          andThen (Ext2ReadFile M (f_disk f) (f_inode f) (f_inum f) (Some (f_content f)) s1) (\<lambda>(status, content, s2).
            andThen (upd_file file (\<lambda>f. f\<lparr>f_content := the content\<rparr>) s2) (\<lambda>s3.
              if failed status then ret (status, s3)
              else andThen (upd_file file (\<lambda>f. f\<lparr>f_opened := True\<rparr>) s3) (\<lambda>s4. ret (STATUS_SUCCESS, s4)))))))"

text \<open>The inode is given back while the file refers to it.\<close>

definition ReadFileFromInode ::
  "('d, 'h, 'm) platform_scheme \<Rightarrow> int \<Rightarrow> addr option \<Rightarrow> ('h, 'd, 'z) fs_scheme \<Rightarrow>
   (Status \<times> addr option \<times> ('h, 'd, 'z) fs_scheme) exec" where
  "ReadFileFromInode M inodeNumber file s =
     (if file = None then ret (STATUS_INVALID_PARAMETER, file, s)
      else andThen (Ext2ReadInode M (gExt2Disk s) inodeNumber (Some nullptr) s) (\<lambda>(status, ip, s1). let inode = the ip in
        if failed status then andThen (buf_free M inode s1) (\<lambda>s2. ret (status, file, s2))
        else andThen (CreateFile M (gExt2Disk s1) inode inodeNumber file s1) (\<lambda>(status, file, s2).
          if failed status then andThen (buf_free M inode s2) (\<lambda>s3. ret (status, file, s3))
          else andThen (OpenFile M (the file) s2) (\<lambda>(status, s3).
            andThen (buf_free M inode s3) (\<lambda>s4. ret (status, file, s4))))))"

subsection \<open>Directories\<close>

text \<open>The flag is set in the modes of directories, of block devices and of sockets.\<close>

definition IsDirectory ::
  "('d, 'h, 'm) platform_scheme \<Rightarrow> addr \<Rightarrow> ('h, 'd, 'z) fs_scheme \<Rightarrow> (bool \<times> ('h, 'd, 'z) fs_scheme) exec" where
  "IsDirectory M file s = andThen (ensure_inode M file s) (\<lambda>(status, s1).
     if failed status then ret (False, s1)
     else andThen (deref (files s1) file) (\<lambda>f.
       andThen (rd16 (f_inode f) in_mode s1) (\<lambda>mode. ret (mode AND EXT2_S_IFDIR \<noteq> 0, s1))))"

partial_function (option) IsCached_loop ::
  "addr \<Rightarrow> cstr \<Rightarrow> ('h, 'd, 'z) fs_scheme \<Rightarrow> (bool \<times> addr) exec" where
  "IsCached_loop leaf fileName s =
     (if leaf = nullptr then ret (False, nullptr)
      else andThen (deref (files s) leaf) (\<lambda>f.
        if f_name f \<noteq> nullptr then andThen (rd_str (f_name f) 0 s) (\<lambda>name.
          if StrCmp (Some name) (Some fileName) = 0 then ret (True, leaf) else IsCached_loop (f_next f) fileName s)
        else IsCached_loop (f_next f) fileName s))"

definition IsCached ::
  "addr \<Rightarrow> cstr option \<Rightarrow> addr option \<Rightarrow> ('h, 'd, 'z) fs_scheme \<Rightarrow> (bool \<times> addr option) exec" where
  "IsCached dir fileName file s =
     (if dir = nullptr then ret (False, file)
      else case fileName of None \<Rightarrow> ret (False, file)
      | Some name \<Rightarrow> andThen (deref (files s) dir) (\<lambda>d.
          andThen (IsCached_loop (f_leaf d) name s) (\<lambda>(found, leaf).
            if found then ret (True, map_option (\<lambda>_. leaf) file) else ret (False, file))))"

text \<open>
  A new file for the directory entry at \<open>pos\<close> of the content, put in front of the others. It does not set
  \<open>opened\<close>. The result is \<open>False\<close> when an allocation failed.
\<close>

definition cache_file ::
  "('d, 'h, 'm) platform_scheme \<Rightarrow> addr \<Rightarrow> addr \<Rightarrow> addr \<Rightarrow> nat \<Rightarrow> ('h, 'd, 'z) fs_scheme \<Rightarrow>
   (bool \<times> ('h, 'd, 'z) fs_scheme) exec" where
  "cache_file M directory fileName content pos s = andThen (alloc_file M s) (\<lambda>(newCachedFile, s1).
     if newCachedFile = nullptr then ret (False, s1)
     else andThen (rd32 content pos s1) (\<lambda>inum.
       andThen (upd_file newCachedFile (\<lambda>f. f\<lparr>f_content := nullptr, f_disk := gExt2Disk s1, f_inode := nullptr,
           f_inum := sint inum, f_leaf := nullptr, f_name := fileName, f_next := nullptr, f_parent := directory,
           f_prev := nullptr\<rparr>) s1) (\<lambda>s2.
       andThen (deref (files s2) directory) (\<lambda>d.
         andThen
           (if f_leaf d = nullptr then ret s2
            else andThen (upd_file newCachedFile (\<lambda>f. f\<lparr>f_next := f_leaf d\<rparr>) s2) (\<lambda>s3.
              upd_file (f_leaf d) (\<lambda>f. f\<lparr>f_prev := newCachedFile\<rparr>) s3))
           (\<lambda>s4. andThen (upd_file directory (\<lambda>f. f\<lparr>f_leaf := newCachedFile\<rparr>) s4) (\<lambda>s5. ret (True, s5)))))))"

text \<open>One round of the loop over the entries.\<close>

definition browse_entry ::
  "('d, 'h, 'm) platform_scheme \<Rightarrow> addr \<Rightarrow> addr \<Rightarrow> nat \<Rightarrow> ('h, 'd, 'z) fs_scheme \<Rightarrow>
   (bool \<times> ('h, 'd, 'z) fs_scheme) exec" where
  "browse_entry M directory content pos s = andThen (rd8 content (pos + 6) s) (\<lambda>nameLen.
     andThen (buf_alloc M (int (unat nameLen) + 1) s) (\<lambda>(fileName, s1).
       if fileName = nullptr then ret (False, s1)
       else andThen (buf_copy content (pos + 8) fileName 0 (ucast nameLen + 1) s1) (\<lambda>s2.
         andThen (wr_bytes fileName (unat nameLen) [0] s2) (\<lambda>s3.
         andThen (rd_str fileName 0 s3) (\<lambda>name.
           if StrCmp (Some name) (Some [46]) \<noteq> 0 \<and> StrCmp (Some name) (Some [46, 46]) \<noteq> 0
           then andThen (IsCached directory (Some name) None s3) (\<lambda>(cached, _).
             if \<not> cached then cache_file M directory fileName content pos s3
             else andThen (buf_free M fileName s3) (\<lambda>s4. ret (True, s4)))
           else andThen (buf_free M fileName s3) (\<lambda>s4. ret (True, s4)))))))"

text \<open>
  \<open>status\<close> is what the variable holds before the loop: a failed allocation returns it.
\<close>

partial_function (option) browse_loop ::
  "('d, 'h, 'm) platform_scheme \<Rightarrow> addr \<Rightarrow> addr \<Rightarrow> Status \<Rightarrow> nat \<Rightarrow> u32 \<Rightarrow> ('h, 'd, 'z) fs_scheme \<Rightarrow>
   (Status \<times> ('h, 'd, 'z) fs_scheme) exec" where
  "browse_loop M directory content status pos dirContentSize s =
     (if dirContentSize = 0 then ret (STATUS_SUCCESS, s)
      else andThen (rd16 content (pos + 4) s) (\<lambda>recLen.
        if recLen = 0 then ret (STATUS_SUCCESS, s)
        else andThen (browse_entry M directory content pos s) (\<lambda>(going, s1).
          if \<not> going then ret (status, s1)
          else if content + of_nat (pos + unat recLen) = nullptr then ret (STATUS_UNEXPECTED, s1)
          else browse_loop M directory content status (pos + unat recLen) (dirContentSize - ucast recLen) s1)))"

definition BrowseAndCacheDirectory ::
  "('d, 'h, 'm) platform_scheme \<Rightarrow> addr \<Rightarrow> ('h, 'd, 'z) fs_scheme \<Rightarrow> (Status \<times> ('h, 'd, 'z) fs_scheme) exec" where
  "BrowseAndCacheDirectory M directory s =
     (if directory = nullptr then ret (STATUS_NULL_PARAMETER, s)
      else andThen (deref (files s) directory) (\<lambda>d.
        andThen (if f_inode d = nullptr then read_inode_of M directory s else ret (STATUS_FAILURE, s)) (\<lambda>(status, s1).
        if f_inode d = nullptr \<and> failed status then ret (status, s1)
        else andThen (deref (files s1) directory) (\<lambda>d.
          andThen (if \<not> f_opened d then OpenFile M directory s1 else ret (status, s1)) (\<lambda>(status, s2).
          if \<not> f_opened d \<and> failed status then ret (status, s2)
          else andThen (IsDirectory M directory s2) (\<lambda>(isdir, s3).
            if \<not> isdir then ret (STATUS_NOT_A_DIRECTORY, s3)
            else andThen (deref (files s3) directory) (\<lambda>d.
              andThen (rd32 (f_inode d) in_size s3) (\<lambda>dirContentSize.
                browse_loop M directory (f_content d) status 0 dirContentSize s3))))))))"

definition InitRootFile ::
  "('d, 'h, 'm) platform_scheme \<Rightarrow> addr \<Rightarrow> ('h, 'd, 'z) fs_scheme \<Rightarrow> (Status \<times> ('h, 'd, 'z) fs_scheme) exec" where
  "InitRootFile M file s =
     (if file = nullptr then ret (STATUS_NULL_PARAMETER, s)
      else andThen (buf_alloc M 2 s) (\<lambda>(name, s1).
        andThen (upd_file file (\<lambda>f. f\<lparr>f_name := name\<rparr>) s1) (\<lambda>s2.
        if name = nullptr then ret (STATUS_ALLOC_FAILED, s2)
        else andThen (wr_bytes name 0 [47, 0] s2) (\<lambda>s3.
          andThen (upd_file file (\<lambda>f. f\<lparr>f_parent := file\<rparr>) s3) (\<lambda>s4. ret (STATUS_SUCCESS, s4))))))"

subsection \<open>Paths\<close>

text \<open>
  One directory of a path. An empty name is taken for \<^verbatim>\<open>..\<close>, because \<^verbatim>\<open>StrCmp\<close>
  finds it equal. The status of the browsing is not looked at.
\<close>

definition enter_directory ::
  "('d, 'h, 'm) platform_scheme \<Rightarrow> addr \<Rightarrow> cstr \<Rightarrow> ('h, 'd, 'z) fs_scheme \<Rightarrow>
   (Status \<times> addr \<times> ('h, 'd, 'z) fs_scheme) exec" where
  "enter_directory M directory name s =
     (if StrCmp (Some name) (Some [46, 46]) = 0
      then andThen (deref (files s) directory) (\<lambda>d. ret (STATUS_SUCCESS, f_parent d, s))
      else if StrCmp (Some name) (Some [46]) = 0 then ret (STATUS_SUCCESS, directory, s)
      else andThen (IsCached directory (Some name) (Some directory) s) (\<lambda>(cached, dir). let directory = the dir in
        if \<not> cached then ret (STATUS_FILE_NOT_FOUND, directory, s)
        else andThen (deref (files s) directory) (\<lambda>d.
          andThen (if \<not> f_opened d then OpenFile M directory s else ret (STATUS_SUCCESS, s)) (\<lambda>(status, s1).
            if failed status then ret (status, directory, s1)
            else andThen (BrowseAndCacheDirectory M directory s1) (\<lambda>(_, s2).
              ret (STATUS_SUCCESS, directory, s2))))))"

text \<open>
  The path is a buffer that the function writes to: the slash behind a directory becomes the end of
  the string while the directory is looked up, and stays so when that fails.
\<close>

definition open_last ::
  "('d, 'h, 'm) platform_scheme \<Rightarrow> addr \<Rightarrow> cstr \<Rightarrow> addr \<Rightarrow> ('h, 'd, 'z) fs_scheme \<Rightarrow>
   (Status \<times> addr \<times> ('h, 'd, 'z) fs_scheme) exec" where
  "open_last M directory name file s =
     andThen (IsCached directory (Some name) (Some nullptr) s) (\<lambda>(cached, lf). let localFile = the lf in
       if \<not> cached then ret (STATUS_FILE_NOT_FOUND, file, s)
       else andThen (deref (files s) localFile) (\<lambda>f.
         andThen (if \<not> f_opened f then OpenFile M localFile s else ret (STATUS_SUCCESS, s)) (\<lambda>(status, s1).
           if failed status then ret (status, file, s1) else ret (STATUS_SUCCESS, localFile, s1))))"

partial_function (option) open_loop ::
  "('d, 'h, 'm) platform_scheme \<Rightarrow> addr \<Rightarrow> nat \<Rightarrow> addr \<Rightarrow> addr \<Rightarrow> ('h, 'd, 'z) fs_scheme \<Rightarrow>
   (Status \<times> addr \<times> ('h, 'd, 'z) fs_scheme) exec" where
  "open_loop M buf pos directory file s = andThen (rd8 buf pos s) (\<lambda>c.
     if c = 0 then ret (STATUS_SUCCESS, file, s)
     else andThen (rd_str buf pos s) (\<lambda>path. let indexSlash = FirstIndexOf (Some path) 47 in
       if indexSlash < 0 then open_last M directory path file s
       else andThen (wr_bytes buf (pos + nat indexSlash) [0] s) (\<lambda>s1.
         andThen (enter_directory M directory (take (nat indexSlash) path) s1) (\<lambda>(status, directory, s2).
           if failed status then ret (status, file, s2)
           else andThen (wr_bytes buf (pos + nat indexSlash) [47] s2) (\<lambda>s3.
             open_loop M buf (pos + nat indexSlash + 1) directory file s3)))))"

definition OpenFileFromName ::
  "('d, 'h, 'm) platform_scheme \<Rightarrow> (addr \<times> nat) option \<Rightarrow> addr option \<Rightarrow> ('h, 'd, 'z) fs_scheme \<Rightarrow>
   (Status \<times> addr option \<times> ('h, 'd, 'z) fs_scheme) exec" where
  "OpenFileFromName M filePath file s = (case filePath of None \<Rightarrow> ret (STATUS_NULL_PARAMETER, file, s)
     | Some (buf, pos) \<Rightarrow> (case file of None \<Rightarrow> ret (STATUS_NULL_PARAMETER, file, s)
       | Some f \<Rightarrow> andThen (rd8 buf pos s) (\<lambda>c.
           andThen
             (if c = 47 then andThen (rd8 buf (pos + 1) s) (\<lambda>c1.
                open_loop M buf (pos + 1) (gRootFile s) (if c1 = 0 then gRootFile s else f) s)
              else open_loop M buf pos (gRootFile s) f s)
             (\<lambda>(status, f1, s1). ret (status, Some f1, s1)))))"

text \<open>
  \<^verbatim>\<open>PrintDirectory\<close>: the lines it prints, as indentation, name and whether the file has
  cached files of its own.
\<close>

partial_function (option) PrintDirectory_loop ::
  "addr \<Rightarrow> addr \<Rightarrow> int \<Rightarrow> ('h, 'd, 'z) fs_scheme \<Rightarrow> (int \<times> cstr \<times> bool) list exec" where
  "PrintDirectory_loop dir f nb s =
     (if f = nullptr then ret []
      else andThen (deref (files s) f) (\<lambda>x.
        andThen (if f_name x \<noteq> nullptr
            then andThen (rd_str (f_name x) 0 s) (\<lambda>name. ret [(nb, name, f_leaf x \<noteq> nullptr)]) else ret []) (\<lambda>line.
        andThen
          (if f_leaf x \<noteq> nullptr then PrintDirectory_loop dir (f_leaf x) (nb + 4) s
           else if f_next x \<noteq> nullptr then PrintDirectory_loop dir (f_next x) nb s
           else andThen (deref (files s) (f_parent x)) (\<lambda>par.
             PrintDirectory_loop dir (if f_next par = dir then nullptr else f_next par) (nb - 4) s))
          (\<lambda>rest. ret (line @ rest)))))"

definition PrintDirectory ::
  "addr \<Rightarrow> ('h, 'd, 'z) fs_scheme \<Rightarrow> (int \<times> cstr \<times> bool) list exec" where
  "PrintDirectory dir s = (if dir = nullptr then ret [] else PrintDirectory_loop dir dir 0 s)"

subsection \<open>The manager\<close>

definition InitRoot ::
  "('d, 'h, 'm) platform_scheme \<Rightarrow> ('h, 'd, 'z) fs_scheme \<Rightarrow> (Status \<times> ('h, 'd, 'z) fs_scheme) exec" where
  "InitRoot M s =
     (if gExt2Disk s = nullptr then ret (STATUS_UNEXPECTED, s)
      else andThen (Ext2ReadInode M (gExt2Disk s) EXT2_ROOT_INODE_NUMBER (Some nullptr) s) (\<lambda>(status, inode, s1).
        if failed status then ret (status, s1)
        else andThen (CreateFile M (gExt2Disk s1) (the inode) EXT2_ROOT_INODE_NUMBER (Some (gRootFile s1)) s1)
          (\<lambda>(status, root, s2). let s3 = s2\<lparr>gRootFile := the root\<rparr> in
          if failed status then ret (status, s3)
          else andThen (InitRootFile M (gRootFile s3) s3) (\<lambda>(status, s4).
            if failed status then ret (status, s4)
            else andThen (BrowseAndCacheDirectory M (gRootFile s4) s4) (\<lambda>(status, s5).
              if failed status then ret (status, s5) else ret (STATUS_SUCCESS, s5))))))"

definition FsInit ::
  "('d, 'h, 'm) platform_scheme \<Rightarrow> addr \<Rightarrow> ('h, 'd, 'z) fs_scheme \<Rightarrow> (Status \<times> ('h, 'd, 'z) fs_scheme) exec" where
  "FsInit M device s =
     andThen (Ext2ReadDiskOnDevice M device (Some (gExt2Disk s)) s) (\<lambda>(status, disk, s1).
       let s2 = s1\<lparr>gExt2Disk := the disk\<rparr> in
       if failed status \<or> gExt2Disk s2 = nullptr then ret (status, s2)
       else andThen (InitRoot M s2) (\<lambda>(status, s3).
         if failed status then ret (status, s3) else ret (STATUS_SUCCESS, s3)))"

definition FsCleanCallback ::
  "('d, 'h, 'm) platform_scheme \<Rightarrow> ('h, 'd, 'z) fs_scheme \<Rightarrow> ('h, 'd, 'z) fs_scheme exec" where
  "FsCleanCallback M s = Ext2FreeDisk M (gExt2Disk s) s"

definition FreeFile ::
  "('d, 'h, 'm) platform_scheme \<Rightarrow> addr \<Rightarrow> ('h, 'd, 'z) fs_scheme \<Rightarrow> ('h, 'd, 'z) fs_scheme exec" where
  "FreeFile M file s =
     (if file = nullptr then ret s
      else andThen (heap_free M file (lheap s)) (\<lambda>h. ret (s\<lparr>lheap := h, files := (files s)(file := None)\<rparr>)))"

end
