(* ===== verification/User_Malloc.thy ===== *)
theory User_Malloc
  imports Heap_Blocks
begin

section \<open>The heap of user programs\<close>

text \<open>
  \<^verbatim>\<open>userland/StdLib/src/malloc.cpp\<close>. It has the block format of the kernel heap and
  gets its pages from the system call \<^verbatim>\<open>SysSbrk\<close>. A program sees one block of memory for
  its heap, which the kernel fills with pages on demand: an access outside it, such as the header
  of a block at the null address after a refused request for pages, is a \<open>BadAccess\<close>. The loop
  that ends a failed allocation is \<open>diverge\<close>. The text the functions print is not modelled.
\<close>

subsection \<open>State\<close>

record user_heap =
  umem :: memory
  g_baseBlock :: addr
  g_limitBlock :: addr
  g_lastBlock :: addr
  brk :: addr
  region_base :: addr
  region_limit :: addr

definition in_region :: "addr \<Rightarrow> nat \<Rightarrow> user_heap \<Rightarrow> bool" where
  "in_region p n s \<longleftrightarrow> unat (region_base s) \<le> unat p \<and> unat p + n \<le> unat (region_limit s)"

definition ld32 :: "addr \<Rightarrow> user_heap \<Rightarrow> u32 exec" where
  "ld32 p s = (if in_region p 4 s then ret (read32 (umem s) p) else halt BadAccess)"

definition st32 :: "addr \<Rightarrow> u32 \<Rightarrow> user_heap \<Rightarrow> user_heap exec" where
  "st32 p v s = (if in_region p 4 s then ret (s\<lparr>umem := write32 (umem s) p v\<rparr>) else halt BadAccess)"

definition user_MemSet :: "addr \<Rightarrow> u8 \<Rightarrow> u32 \<Rightarrow> user_heap \<Rightarrow> user_heap exec" where
  "user_MemSet p b n s =
     (if n = 0 then ret s
      else if in_region p (unat n) s then ret (s\<lparr>umem := MemSet (umem s) p b n\<rparr>) else halt BadAccess)"

text \<open>The bit fields of a block header.\<close>

definition set_size :: "addr \<Rightarrow> u32 \<Rightarrow> user_heap \<Rightarrow> user_heap exec" where
  "set_size block sz s = andThen (ld32 block s) (\<lambda>w. st32 block (set_field 0 31 sz w) s)"

definition set_state :: "addr \<Rightarrow> bool \<Rightarrow> user_heap \<Rightarrow> user_heap exec" where
  "set_state block u s = andThen (ld32 block s) (\<lambda>w. st32 block (set_flag 31 u w) s)"

subsection \<open>Operations\<close>

definition InitMalloc :: "user_heap \<Rightarrow> user_heap" where
  "InitMalloc s = s\<lparr>g_baseBlock := nullptr, g_limitBlock := nullptr, g_lastBlock := nullptr\<rparr>"

text \<open>
  The system call: \<^verbatim>\<open>SysSbrk\<close> on the heap of the calling process. It returns the old
  limit, or 0 when the request is refused.
\<close>

definition sysSbrk :: "u32 \<Rightarrow> user_heap \<Rightarrow> addr \<times> user_heap" where
  "sysSbrk nbBlock s =
     (if nbBlock = 0 then (0, s)
      else if brk s + nbBlock * PAGE_SIZE > region_limit s then (0, s)
      else (brk s, s\<lparr>brk := brk s + nbBlock * PAGE_SIZE\<rparr>))"

text \<open>\<open>g_lastBlock + g_lastBlock->size\<close> counts in structures of 8 bytes.\<close>

definition user_Sbrk :: "int \<Rightarrow> user_heap \<Rightarrow> (addr \<times> user_heap) exec" where
  "user_Sbrk n s =
     (if n \<le> 0 then ret (nullptr, s)
      else case sysSbrk (of_int n) s of (newBlock, s1) \<Rightarrow>
        andThen (set_size newBlock (of_int n * PAGE_SIZE) s1) (\<lambda>s2.
        andThen (set_state newBlock False s2) (\<lambda>s3.
        andThen (ld32 newBlock s3) (\<lambda>w.
        andThen (user_MemSet (newBlock + 4) 0 (hdr_size w - BLOCK_HEADER_SIZE) s3) (\<lambda>s4.
        andThen (ld32 newBlock s4) (\<lambda>v.
          ret (newBlock, s4\<lparr>g_lastBlock := newBlock, g_limitBlock := newBlock + 8 * hdr_size v\<rparr>)))))))"

definition user_SplitBlock :: "addr \<Rightarrow> u32 \<Rightarrow> user_heap \<Rightarrow> user_heap exec" where
  "user_SplitBlock block sz s =
     (let second_block = block + sz in
      andThen (ld32 block s) (\<lambda>w.
      andThen (set_size second_block (hdr_size w - sz) s) (\<lambda>s1.
      andThen (set_state second_block False s1) (\<lambda>s2.
        set_size block sz s2))))"

text \<open>The search loop of \<^verbatim>\<open>_Allocate\<close>: the result pointer and the last block looked at.\<close>

partial_function (option) user_find ::
  "addr \<Rightarrow> u32 \<Rightarrow> user_heap \<Rightarrow> (addr \<times> addr \<times> user_heap) exec" where
  "user_find block sz s =
     (if block \<le> g_lastBlock s then
        andThen (ld32 block s) (\<lambda>w.
          if hdr_used w \<or> sz > hdr_size w then user_find (block + hdr_size w) sz s
          else andThen
            (if hdr_size w - sz \<ge> BLOCK_HEADER_SIZE + MINIMAL_BLOCK_SIZE then user_SplitBlock block sz s
             else ret s)
            (\<lambda>s1. let res_ptr = block + 4 in
               if res_ptr \<noteq> nullptr then ret (res_ptr, block, s1) else user_find block sz s1))
      else ret (nullptr, block, s))"

partial_function (option) user_Allocate :: "addr \<Rightarrow> u32 \<Rightarrow> user_heap \<Rightarrow> (addr \<times> user_heap) exec" where
  "user_Allocate block sz s =
     andThen (user_find block sz s) (\<lambda>(res_ptr, b, s1).
       andThen
         (if res_ptr = nullptr then
            andThen
              (if sz > DEFAULT_BLOCK_SIZE then
                 andThen (local_mod sz DEFAULT_BLOCK_SIZE) (\<lambda>r.
                   user_Sbrk (sint (sz div DEFAULT_BLOCK_SIZE + (if r > 0 then 1 else 0))) s1)
               else user_Sbrk 1 s1)
              (\<lambda>(b', s2). andThen (user_Allocate b' sz s2) (\<lambda>(res_ptr', s3). ret (res_ptr', b', s3)))
          else ret (res_ptr, b, s1))
         (\<lambda>(res_ptr, b, s2). andThen (set_state b True s2) (\<lambda>s3. ret (res_ptr, s3))))"

text \<open>The first allocation of a program gets a first page.\<close>

definition first_page :: "user_heap \<Rightarrow> user_heap exec" where
  "first_page s =
     (if g_baseBlock s = nullptr then
        andThen (user_Sbrk 1 s) (\<lambda>(block, s1).
        andThen (set_size block PAGE_SIZE (s1\<lparr>g_baseBlock := block\<rparr>)) (\<lambda>s2.
        andThen (set_state block False s2) (\<lambda>s3.
          ret (s3\<lparr>g_limitBlock := block + 8 * PAGE_SIZE, g_lastBlock := block\<rparr>))))
      else ret s)"

definition user_HeapAlloc :: "int \<Rightarrow> user_heap \<Rightarrow> (addr \<times> user_heap) exec" where
  "user_HeapAlloc sz s =
     (if sz \<le> 0 then ret (nullptr, s)
      else andThen (first_page s) (\<lambda>s1.
        andThen (ClosestPow (of_int sz + BLOCK_HEADER_SIZE) 4) (\<lambda>blockSize.
        andThen (user_Allocate (g_baseBlock s1) blockSize s1) (\<lambda>(res, s2).
          if res = nullptr then diverge else ret (res, s2)))))"

definition user_HeapFree :: "addr \<Rightarrow> user_heap \<Rightarrow> user_heap exec" where
  "user_HeapFree ptr s =
     (if ptr = nullptr then ret s
      else let block = ptr - BLOCK_HEADER_SIZE in
        andThen (ld32 block s) (\<lambda>w.
          if \<not> hdr_used w then ret s
          else andThen (set_state block False s) (\<lambda>s1.
            andThen (ld32 block s1) (\<lambda>v.
              user_MemSet (block + 4) 0 (hdr_size v - BLOCK_HEADER_SIZE) s1))))"

text \<open>\<^verbatim>\<open>DumpHeap\<close>: the lines it prints.\<close>

partial_function (option) DumpHeap_loop :: "addr \<Rightarrow> user_heap \<Rightarrow> (addr \<times> u32 \<times> bool) list exec" where
  "DumpHeap_loop currentBlock s =
     (if currentBlock \<le> g_limitBlock s then
        andThen (ld32 currentBlock s) (\<lambda>w. let nextBlock = currentBlock + hdr_size w in
        andThen (ld32 nextBlock s) (\<lambda>v.
          if hdr_size v = 0 then ret [(currentBlock, hdr_size w, hdr_used w)]
          else andThen (DumpHeap_loop nextBlock s) (\<lambda>rest.
            ret ((currentBlock, hdr_size w, hdr_used w) # rest))))
      else ret [])"

definition DumpHeap :: "user_heap \<Rightarrow> (addr \<times> u32 \<times> bool) list exec" where
  "DumpHeap s = DumpHeap_loop (g_baseBlock s) s"

subsection \<open>Headers\<close>

text \<open>Two memories agree but for \<open>n\<close> bytes from \<open>a\<close> on.\<close>

definition changes :: "nat \<Rightarrow> nat \<Rightarrow> memory \<Rightarrow> memory \<Rightarrow> bool" where
  "changes a n M M' \<longleftrightarrow> (\<forall>u. \<not> (a \<le> unat u \<and> unat u < a + n) \<longrightarrow> M' u = M u)"

lemma changes_trans: "changes a n M M1 \<Longrightarrow> changes a n M1 M2 \<Longrightarrow> changes a n M M2"
  by (simp add: changes_def)

lemma changes_mono: "changes a n M M' \<Longrightarrow> b \<le> a \<Longrightarrow> a + n \<le> b + k \<Longrightarrow> changes b k M M'"
  by (auto simp: changes_def)

lemma changes_refl [simp]: "changes a n M M"
  by (simp add: changes_def)

lemma unat_byte: "a + i < 4294967296 \<Longrightarrow> unat (of_nat a + of_nat i :: addr) = a + i"
  by (metis of_nat_add unat_of_nat_u32)

lemma plus4_nonnull: "a + 4 < 4294967296 \<Longrightarrow> (of_nat a :: addr) + 4 \<noteq> 0"
  using unat_of_nat_u32 [of "a + 4"] by (metis add_is_0 of_nat_add of_nat_numeral unat_0 zero_neq_numeral)

lemma hdr_at_changes:
  assumes "changes b k M M'" "a + 4 \<le> b \<or> b + k \<le> a" "a + 4 \<le> 4294967296"
  shows "hdr_at M' a = hdr_at M a"
proof -
  have "M' (of_nat a + of_nat i) = M (of_nat a + of_nat i)" if "i < 4" for i
  proof -
    have "unat (of_nat a + of_nat i :: addr) = a + i" using assms(3) that by (intro unat_byte) simp
    then show ?thesis using assms(1,2) that by (auto simp: changes_def)
  qed
  from this [of 0] this [of 1] this [of 2] this [of 3]
  have "read32 M' (of_nat a) = read32 M (of_nat a)" by (intro read32_cong) auto
  then show ?thesis by (simp add: hdr_at_def)
qed

lemma tiles_changes:
  "tiles M a bs \<Longrightarrow> changes b k M M' \<Longrightarrow> a + total bs \<le> b \<or> b + k \<le> a \<Longrightarrow> a + total bs \<le> 4294967296 \<Longrightarrow>
    tiles M' a bs"
proof (induction bs arbitrary: a)
  case (Cons x bs)
  obtain n u where x: "x = (n, u)" by (cases x)
  have "hdr_at M' a = hdr_at M a"
    by (rule hdr_at_changes [OF Cons.prems(2)]) (use Cons.prems x in auto)
  moreover have "tiles M' (a + n) bs"
    by (rule Cons.IH) (use Cons.prems x in auto)
  ultimately show ?case using Cons.prems(1) x by simp
qed simp

text \<open>The heap's part of the region, as numbers.\<close>

definition inside :: "nat \<Rightarrow> nat \<Rightarrow> user_heap \<Rightarrow> bool" where
  "inside a n s \<longleftrightarrow> unat (region_base s) \<le> a \<and> a + n \<le> unat (region_limit s)"

lemma inside_lt: "inside a n s \<Longrightarrow> a + n < 4294967296"
  using unat_lt_2p32 [of "region_limit s"] by (simp add: inside_def)

lemma in_region_of_nat: "inside a n s \<Longrightarrow> 0 < n \<Longrightarrow> in_region (of_nat a) n s"
  using inside_lt [of a n s] by (simp add: inside_def in_region_def unat_of_nat_u32)

lemma inside_sub: "inside a n s \<Longrightarrow> a \<le> b \<Longrightarrow> b + k \<le> a + n \<Longrightarrow> inside b k s"
  by (auto simp: inside_def)

lemma ld32_hdr:
  assumes "inside a 4 s" "hdr_at (umem s) a = (n, u)"
  obtains w where "ld32 (of_nat a) s = ret w" "hdr_size w = of_nat n" "hdr_used w = u" "n < 2147483648"
proof -
  let ?w = "read32 (umem s) (of_nat a)"
  have "ld32 (of_nat a) s = ret ?w" using in_region_of_nat [OF assms(1)] by (simp add: ld32_def)
  moreover have "n = unat (hdr_size ?w)" "u = hdr_used ?w" using assms(2) by (auto simp: hdr_at_def Let_def)
  ultimately show thesis using hdr_size_lt [of ?w] by (intro that [of ?w]) auto
qed

lemma st32_hdr:
  assumes "inside a 4 s"
  obtains M where "st32 (of_nat a) w s = ret (s\<lparr>umem := M\<rparr>)" "changes a 4 (umem s) M"
    "hdr_at M a = (unat (hdr_size w), hdr_used w)"
proof
  let ?M = "write32 (umem s) (of_nat a) w"
  show "st32 (of_nat a) w s = ret (s\<lparr>umem := ?M\<rparr>)" using in_region_of_nat [OF assms] by (simp add: st32_def)
  have b: "unat (of_nat a + of_nat i :: addr) = a + i" if "i < 4" for i
    using inside_lt [OF assms] that by (intro unat_byte) simp
  have "?M u = umem s u" if "\<not> (a \<le> unat u \<and> unat u < a + 4)" for u
  proof -
    have "u \<noteq> of_nat a + of_nat i" if "i < 4" for i using b [OF that] that \<open>\<not> (a \<le> unat u \<and> unat u < a + 4)\<close> by auto
    from this [of 0] this [of 1] this [of 2] this [of 3] show ?thesis by (intro write32_other) auto
  qed
  then show "changes a 4 (umem s) ?M" by (simp add: changes_def)
  show "hdr_at ?M a = (unat (hdr_size w), hdr_used w)" by (simp add: hdr_at_def)
qed

lemma set_size_ok:
  assumes "inside a 4 s" "hdr_at (umem s) a = (n, u)" "sz < 2147483648"
  obtains M where "set_size (of_nat a) (of_nat sz) s = ret (s\<lparr>umem := M\<rparr>)" "changes a 4 (umem s) M" "hdr_at M a = (sz, u)"
proof -
  obtain w where w: "ld32 (of_nat a) s = ret w" "hdr_used w = u" using ld32_hdr [OF assms(1,2)] by metis
  obtain M where "st32 (of_nat a) (set_field 0 31 (of_nat sz) w) s = ret (s\<lparr>umem := M\<rparr>)" "changes a 4 (umem s) M"
      "hdr_at M a = (unat (hdr_size (set_field 0 31 (of_nat sz) w)), hdr_used (set_field 0 31 (of_nat sz) w))"
    using st32_hdr [OF assms(1)] by metis
  then show thesis using w assms(3)
    by (intro that [of M]) (simp_all add: set_size_def take_bit_31_of_nat unat_of_nat_u32)
qed

lemma set_state_ok:
  assumes "inside a 4 s" "hdr_at (umem s) a = (n, u)"
  obtains M where "set_state (of_nat a) v s = ret (s\<lparr>umem := M\<rparr>)" "changes a 4 (umem s) M" "hdr_at M a = (n, v)"
proof -
  obtain w where w: "ld32 (of_nat a) s = ret w" "hdr_size w = of_nat n" "n < 2147483648" using ld32_hdr [OF assms] by metis
  obtain M where "st32 (of_nat a) (set_flag 31 v w) s = ret (s\<lparr>umem := M\<rparr>)" "changes a 4 (umem s) M"
      "hdr_at M a = (unat (hdr_size w), v)"
    using st32_hdr [OF assms(1), of "set_flag 31 v w"] unfolding hdr_set_field by metis
  then show thesis using w by (intro that [of M]) (simp_all add: set_state_def unat_of_nat_u32)
qed

subsection \<open>Splitting and searching\<close>

lemma inside_umem [simp]: "inside a n (s\<lparr>umem := M\<rparr>) = inside a n s"
  by (simp add: inside_def)

lemma user_SplitBlock_ok:
  assumes r: "inside a n s" and hd: "hdr_at (umem s) a = (n, u)" and sz: "5 \<le> sz" "sz + 8 \<le> n"
  obtains M where "user_SplitBlock (of_nat a) (of_nat sz) s = ret (s\<lparr>umem := M\<rparr>)" "changes a n (umem s) M"
    "tiles M a [(sz, u), (n - sz, False)]"
proof -
  have r4: "inside a 4 s" "inside (a + sz) 4 s" using r sz by (auto simp: inside_def)
  have lim: "a + n < 4294967296" by (rule inside_lt [OF r])
  obtain w where w: "ld32 (of_nat a) s = ret w" "hdr_size w = of_nat n" "n < 2147483648"
    using ld32_hdr [OF r4(1) hd] by metis
  obtain k v where kv: "hdr_at (umem s) (a + sz) = (k, v)" by (cases "hdr_at (umem s) (a + sz)")
  have w4: "n - sz < 2147483648" using w(3) by simp
  obtain M1 where M1: "set_size (of_nat (a + sz)) (of_nat (n - sz)) s = ret (s\<lparr>umem := M1\<rparr>)"
      "changes (a + sz) 4 (umem s) M1" "hdr_at M1 (a + sz) = (n - sz, v)"
    by (rule set_size_ok [OF r4(2) kv w4])
  obtain M2 where M2: "set_state (of_nat (a + sz)) False (s\<lparr>umem := M1\<rparr>) = ret (s\<lparr>umem := M2\<rparr>)"
      "changes (a + sz) 4 M1 M2" "hdr_at M2 (a + sz) = (n - sz, False)"
    using set_state_ok [of "a + sz" "s\<lparr>umem := M1\<rparr>" "n - sz" v False] r4(2) M1(3) by auto
  have hd2: "hdr_at M2 a = (n, u)"
    using hdr_at_changes [OF M1(2), of a] hdr_at_changes [OF M2(2), of a] hd sz lim by simp
  obtain M3 where M3: "set_size (of_nat a) (of_nat sz) (s\<lparr>umem := M2\<rparr>) = ret (s\<lparr>umem := M3\<rparr>)"
      "changes a 4 M2 M3" "hdr_at M3 a = (sz, u)"
    using set_size_ok [of a "s\<lparr>umem := M2\<rparr>" n u sz] r4(1) hd2 w(3) sz by auto
  show thesis
  proof (rule that [of M3])
    have diff: "(of_nat n :: u32) - of_nat sz = of_nat (n - sz)" using sz by simp
    have "(of_nat a :: u32) + of_nat sz = of_nat (a + sz)" by simp
    then show "user_SplitBlock (of_nat a) (of_nat sz) s = ret (s\<lparr>umem := M3\<rparr>)"
      unfolding user_SplitBlock_def Let_def using w(1,2) M1(1) M2(1) M3(1)
      by (simp add: diff del: of_nat_add of_nat_diff)
    show "changes a n (umem s) M3"
      using changes_mono [OF M1(2), of a n] changes_mono [OF M2(2), of a n] changes_mono [OF M3(2), of a n] sz
      by (auto intro: changes_trans)
    have "hdr_at M3 (a + sz) = (n - sz, False)" using hdr_at_changes [OF M3(2), of "a + sz"] M2(3) sz lim by simp
    then show "tiles M3 a [(sz, u), (n - sz, False)]" using M3(3) sz by simp
  qed
qed

lemma user_place_ok:
  assumes r: "inside a n s" and hd: "hdr_at (umem s) a = (n, False)" and sz: "5 \<le> sz" "sz \<le> n"
  obtains M M' where "(if sz + 8 \<le> n then user_SplitBlock (of_nat a) (of_nat sz) s else ret s) = ret (s\<lparr>umem := M\<rparr>)"
    "set_state (of_nat a) True (s\<lparr>umem := M\<rparr>) = ret (s\<lparr>umem := M'\<rparr>)" "changes a n (umem s) M'" "tiles M' a (place sz n)"
proof (cases "sz + 8 \<le> n")
  case True
  have lim: "a + n < 4294967296" by (rule inside_lt [OF r])
  obtain M where M: "user_SplitBlock (of_nat a) (of_nat sz) s = ret (s\<lparr>umem := M\<rparr>)" "changes a n (umem s) M"
      "tiles M a [(sz, False), (n - sz, False)]"
    using user_SplitBlock_ok [OF r hd sz(1) True] by metis
  have r4: "inside a 4 s" using r sz by (auto simp: inside_def)
  obtain M' where M': "set_state (of_nat a) True (s\<lparr>umem := M\<rparr>) = ret (s\<lparr>umem := M'\<rparr>)" "changes a 4 M M'" "hdr_at M' a = (sz, True)"
    using set_state_ok [of a "s\<lparr>umem := M\<rparr>" sz False True] r4 M(3) by auto
  have "hdr_at M' (a + sz) = (n - sz, False)" using hdr_at_changes [OF M'(2), of "a + sz"] M(3) sz True lim by simp
  moreover have "changes a n (umem s) M'" using M(2) changes_mono [OF M'(2), of a n] sz by (auto intro: changes_trans)
  ultimately show thesis using True M(1) M'(1,3) sz by (intro that [of M M']) (auto simp: place_def)
next
  case False
  have r4: "inside a 4 s" using r sz by (auto simp: inside_def)
  obtain M' where M': "set_state (of_nat a) True s = ret (s\<lparr>umem := M'\<rparr>)" "changes a 4 (umem s) M'" "hdr_at M' a = (n, True)"
    using set_state_ok [OF r4 hd] by metis
  then show thesis using False sz changes_mono [OF M'(2), of a n] by (intro that [of "umem s" M']) (auto simp: place_def)
qed

text \<open>
  The search looks at the blocks up to and including the one at \<open>g_lastBlock\<close>: \<open>bs\<close> are these
  blocks from the current one on.
\<close>

lemma user_find_ok:
  assumes "g_lastBlock s = of_nat l" "l < 4294967296" "sz < 4294967296"
  shows "tiles (umem s) a bs \<Longrightarrow> inside a (total bs) s \<Longrightarrow> bs \<noteq> [] \<Longrightarrow> l = a + total (butlast bs) \<Longrightarrow>
    user_find (of_nat a) (of_nat sz) s =
    (case dropWhile (\<lambda>b. \<not> fits sz b) bs of
       [] \<Rightarrow> ret (nullptr, of_nat (a + total bs), s)
     | (n, u) # rest \<Rightarrow> let b = a + total (takeWhile (\<lambda>b. \<not> fits sz b) bs) in
         andThen (if sz + 8 \<le> n then user_SplitBlock (of_nat b) (of_nat sz) s else ret s)
           (\<lambda>s1. ret (of_nat b + 4, of_nat b, s1)))"
proof (induction bs arbitrary: a)
  case (Cons b bs)
  obtain n u where b: "b = (n, u)" by (cases b)
  have n: "5 \<le> n" "hdr_at (umem s) a = (n, u)" "tiles (umem s) (a + n) bs" using Cons.prems(1) b by auto
  have r: "inside a n s" "inside a 4 s" "inside (a + n) (total bs) s" using Cons.prems(2) b n(1) by (auto simp: inside_def)
  have lt: "a + n < 4294967296" by (rule inside_lt [OF r(1)])
  obtain w where w: "ld32 (of_nat a) s = ret w" "hdr_size w = of_nat n" "hdr_used w = u"
    using ld32_hdr [OF r(2) n(2)] by metis
  have le: "(of_nat a :: addr) \<le> g_lastBlock s"
    unfolding assms(1) by (subst u32_of_nat_le) (use assms(2) lt Cons.prems(4) in simp_all)
  have nofit: "hdr_used w \<or> of_nat sz > hdr_size w \<longleftrightarrow> \<not> fits sz b"
    using w lt assms(3) by (auto simp: fits_def b u32_of_nat_less)
  show ?case
  proof (cases "fits sz b")
    case False
    then have step: "user_find (of_nat a) (of_nat sz) s = user_find (of_nat (a + n)) (of_nat sz) s"
      using le nofit w by (subst user_find.simps) simp
    show ?thesis
    proof (cases "bs = []")
      case True
      have "g_lastBlock s < of_nat (a + n)" using assms lt n(1) Cons.prems(4) True
        by (simp add: u32_of_nat_less del: of_nat_add)
      then have "user_find (of_nat (a + n)) (of_nat sz) s = ret (nullptr, of_nat (a + n), s)"
        by (subst user_find.simps) (simp add: not_le [symmetric] del: of_nat_add)
      then show ?thesis using step False True b by simp
    next
      case False
      have l': "l = a + n + total (butlast bs)" using Cons.prems(4) False b by simp
      have tw: "a + total (takeWhile (\<lambda>b. \<not> fits sz b) (b # bs)) = a + n + total (takeWhile (\<lambda>b. \<not> fits sz b) bs)"
        and dw: "dropWhile (\<lambda>b. \<not> fits sz b) (b # bs) = dropWhile (\<lambda>b. \<not> fits sz b) bs"
        and tb: "a + total (b # bs) = a + n + total bs"
        using \<open>\<not> fits sz b\<close> b by simp_all
      show ?thesis unfolding step tw dw tb by (rule Cons.IH [OF n(3) r(3) False l'])
    qed
  next
    case True
    then have fit: "sz \<le> n" "\<not> u" by (auto simp: fits_def b)
    have nz: "(of_nat a :: addr) + 4 \<noteq> 0"
      using lt n(1) by (intro plus4_nonnull) simp
    have "(of_nat n :: u32) - of_nat sz \<ge> BLOCK_HEADER_SIZE + MINIMAL_BLOCK_SIZE \<longleftrightarrow> sz + 8 \<le> n"
    proof -
      have "(of_nat 8 :: u32) \<le> of_nat (n - sz) \<longleftrightarrow> 8 \<le> n - sz" by (rule u32_of_nat_le) (use lt in auto)
      then show ?thesis using fit by (simp add: le_diff_conv2 add.commute)
    qed
    then show ?thesis
      using True le nofit w nz b by (subst user_find.simps) (simp add: Let_def cong: if_cong)
  qed
qed simp

text \<open>Allocating when one of the searched blocks fits.\<close>

lemma user_Allocate_fit:
  assumes l: "g_lastBlock s = of_nat (a + total (butlast bs))" and bs: "bs \<noteq> []" "tiles (umem s) a bs" "inside a (total bs) s"
    and sz: "5 \<le> sz" "sz < 4294967296" and fit: "dropWhile (\<lambda>b. \<not> fits sz b) bs = (n, u) # rest"
    and pre: "pre = takeWhile (\<lambda>b. \<not> fits sz b) bs"
  obtains M where "user_Allocate (of_nat a) (of_nat sz) s = ret (of_nat (a + total pre) + 4, s\<lparr>umem := M\<rparr>)"
    "changes (a + total pre) n (umem s) M" "tiles M a (pre @ place sz n @ rest)"
    "bs = pre @ (n, False) # rest" "sz \<le> n" "(of_nat (a + total pre) :: addr) + 4 \<noteq> 0"
proof -
  let ?b = "a + total pre"
  have bseq: "bs = pre @ (n, u) # rest" using fit pre by (metis takeWhile_dropWhile_id)
  have f: "\<not> u" "sz \<le> n" using fit by (auto simp: dropWhile_eq_Cons_conv fits_def)
  have tt: "tiles (umem s) a pre" "hdr_at (umem s) ?b = (n, False)" "tiles (umem s) (?b + n) rest" "5 \<le> n"
    using bs(2) f unfolding bseq by auto
  have r: "inside ?b n s" using bs(3) unfolding bseq by (auto simp: inside_def)
  have lim: "a + total bs < 4294967296" by (rule inside_lt [OF bs(3)])
  have tot: "total bs = total pre + n + total rest" unfolding bseq by simp
  have ll: "a + total (butlast bs) < 4294967296"
  proof -
    have "total bs = total (butlast bs) + total [last bs]" using bs(1) total_simps(3) by (metis append_butlast_last_id)
    with lim show ?thesis by simp
  qed
  obtain M M' where m: "(if sz + 8 \<le> n then user_SplitBlock (of_nat ?b) (of_nat sz) s else ret s) = ret (s\<lparr>umem := M\<rparr>)"
      "set_state (of_nat ?b) True (s\<lparr>umem := M\<rparr>) = ret (s\<lparr>umem := M'\<rparr>)" "changes ?b n (umem s) M'" "tiles M' ?b (place sz n)"
    using user_place_ok [OF r tt(2) sz(1) f(2)] by metis
  have found: "user_find (of_nat a) (of_nat sz) s = ret (of_nat ?b + 4, of_nat ?b, s\<lparr>umem := M\<rparr>)"
    unfolding user_find_ok [OF l ll sz(2) bs(2,3,1) refl] fit pre [symmetric] using m(1) by (simp add: Let_def)
  have nz: "(of_nat ?b :: addr) + 4 \<noteq> 0"
    using lim tot tt(4) by (intro plus4_nonnull) simp
  have "user_Allocate (of_nat a) (of_nat sz) s = ret (of_nat ?b + 4, s\<lparr>umem := M'\<rparr>)"
    using nz found m(2) by (subst user_Allocate.simps) simp
  moreover have "tiles M' a (pre @ place sz n @ rest)"
    using m(4) tiles_changes [OF tt(1) m(3)] tiles_changes [OF tt(3) m(3)] f(2) lim tot by simp
  ultimately show thesis using m(3) nz f bseq by (intro that [of M']) simp_all
qed

subsection \<open>Growing\<close>

definition small_region :: "user_heap \<Rightarrow> bool" where
  "small_region s \<longleftrightarrow> unat (region_base s) \<le> unat (brk s) \<and> unat (brk s) \<le> unat (region_limit s) \<and> 0 < unat (brk s) \<and>
     unat (region_limit s) < unat (region_base s) + 2147483648"

definition room :: "nat \<Rightarrow> user_heap \<Rightarrow> bool" where
  "room n s \<longleftrightarrow> unat (brk s) + 4096 * n \<le> unat (region_limit s)"

lemma sysSbrk_ok:
  assumes "small_region s" "0 < n" "room n s"
  shows "sysSbrk (of_nat n) s = (brk s, s\<lparr>brk := of_nat (unat (brk s) + 4096 * n)\<rparr>)"
proof -
  have lim: "unat (brk s) + 4096 * n < 4294967296"
    using assms(3) unat_lt_2p32 [of "region_limit s"] by (simp add: room_def)
  have e: "brk s + of_nat n * PAGE_SIZE = of_nat (unat (brk s) + 4096 * n)" by (simp add: mult.commute)
  moreover have "(of_nat n :: u32) \<noteq> 0" using assms(2) lim unat_of_nat_u32 [of n] by auto
  moreover have "\<not> (of_nat (unat (brk s) + 4096 * n) :: u32) > region_limit s"
    using assms(3) lim by (simp add: word_less_nat_alt unat_of_nat_u32 room_def not_less del: of_nat_add)
  ultimately show ?thesis unfolding sysSbrk_def e by simp
qed

lemma user_Sbrk_ok:
  assumes "small_region s" "0 < n" "room n s"
  obtains M where "user_Sbrk (int n) s = ret (brk s, s\<lparr>umem := M, brk := of_nat (unat (brk s) + 4096 * n),
      g_lastBlock := brk s, g_limitBlock := brk s + of_nat (8 * (4096 * n))\<rparr>)"
    "changes (unat (brk s)) (4096 * n) (umem s) M" "hdr_at M (unat (brk s)) = (4096 * n, False)"
proof -
  let ?t = "unat (brk s)"
  let ?s = "s\<lparr>brk := of_nat (?t + 4096 * n)\<rparr>"
  have n31: "4096 * n < 2147483648" and lim: "?t + 4096 * n < 4294967296"
    using assms(1,3) unat_lt_2p32 [of "region_limit s"] by (simp_all add: small_region_def room_def)
  have r: "inside ?t (4096 * n) ?s" "inside ?t 4 ?s" using assms by (auto simp: small_region_def room_def inside_def)
  have bt: "of_nat ?t = brk s" by simp
  obtain k v where kv: "hdr_at (umem ?s) ?t = (k, v)" by (cases "hdr_at (umem ?s) ?t")
  obtain M1 where M1: "set_size (of_nat ?t) (of_nat (4096 * n)) ?s = ret (?s\<lparr>umem := M1\<rparr>)" "changes ?t 4 (umem ?s) M1"
      "hdr_at M1 ?t = (4096 * n, v)"
    by (rule set_size_ok [OF r(2) kv n31])
  obtain M2 where M2: "set_state (of_nat ?t) False (?s\<lparr>umem := M1\<rparr>) = ret (?s\<lparr>umem := M2\<rparr>)" "changes ?t 4 M1 M2"
      "hdr_at M2 ?t = (4096 * n, False)"
    using set_state_ok [of ?t "?s\<lparr>umem := M1\<rparr>" "4096 * n" v False] r(2) M1(3) by auto
  obtain w where w: "ld32 (of_nat ?t) (?s\<lparr>umem := M2\<rparr>) = ret w" "hdr_size w = of_nat (4096 * n)"
    using ld32_hdr [of ?t "?s\<lparr>umem := M2\<rparr>" "4096 * n" False] r(2) M2(3) by auto
  let ?k = "hdr_size w - BLOCK_HEADER_SIZE"
  have k: "unat ?k = 4096 * n - 4"
  proof -
    have "?k = of_nat (4096 * n - 4)" using assms(2) w(2) by (simp add: of_nat_diff)
    then show ?thesis using n31 by (simp add: unat_of_nat_u32 del: of_nat_diff)
  qed
  have t4: "unat (brk s + 4) = ?t + 4" using lim assms(2) unat_byte [of ?t 4] by simp
  let ?M = "MemSet M2 (brk s + 4) 0 ?k"
  have set: "user_MemSet (brk s + 4) 0 ?k (?s\<lparr>umem := M2\<rparr>) = ret (?s\<lparr>umem := ?M\<rparr>)"
  proof -
    have "?k \<noteq> 0" using k assms(2) by auto
    moreover have "in_region (brk s + 4) (unat ?k) (?s\<lparr>umem := M2\<rparr>)"
      using r(1) t4 k assms(2) by (simp add: in_region_def inside_def)
    ultimately show ?thesis by (simp add: user_MemSet_def)
  qed
  have tail: "?M u = M2 u" if "\<not> (?t + 4 \<le> unat u \<and> unat u < ?t + 4096 * n)" for u
  proof -
    have "\<not> unat (u - (brk s + 4)) < unat ?k"
    proof
      assume a: "unat (u - (brk s + 4)) < unat ?k"
      have "unat u = unat (u - (brk s + 4)) + unat (brk s + 4)"
        using unat_add_nowrap [of "u - (brk s + 4)" "brk s + 4"] a k t4 lim by simp
      with a k t4 that show False by simp
    qed
    then show ?thesis by (simp add: MemSet_eq)
  qed
  have ch: "changes (?t + 4) (4096 * n - 4) M2 ?M" using tail assms(2) by (simp add: changes_def)
  have hd: "hdr_at ?M ?t = (4096 * n, False)" using hdr_at_changes [OF ch, of ?t] M2(3) lim assms(2) by simp
  obtain v where v: "ld32 (of_nat ?t) (?s\<lparr>umem := ?M\<rparr>) = ret v" "hdr_size v = of_nat (4096 * n)"
    using ld32_hdr [of ?t "?s\<lparr>umem := ?M\<rparr>" "4096 * n" False] r(2) hd by auto
  have pos: "\<not> int n \<le> 0" using assms(2) by simp
  have e: "of_int (int n) * PAGE_SIZE = (of_nat (4096 * n) :: u32)" by (simp add: mult.commute)
  have sb: "sysSbrk (of_int (int n)) s = (brk s, ?s)" using sysSbrk_ok [OF assms] by simp
  show thesis
  proof (rule that [of ?M])
    show "user_Sbrk (int n) s = ret (brk s, s\<lparr>umem := ?M, brk := of_nat (?t + 4096 * n),
        g_lastBlock := brk s, g_limitBlock := brk s + of_nat (8 * (4096 * n))\<rparr>)"
      unfolding user_Sbrk_def sb using pos M1(1) M2(1) w(1) set v unfolding e bt
      by (simp add: w(2) [symmetric])
    show "changes ?t (4096 * n) (umem s) ?M"
      using M1(2) changes_mono [OF M1(2), of ?t "4096 * n"] changes_mono [OF M2(2), of ?t "4096 * n"]
        changes_mono [OF ch, of ?t "4096 * n"] assms(2) by (auto intro: changes_trans)
    show "hdr_at ?M ?t = (4096 * n, False)" by (rule hd)
  qed
qed

subsection \<open>The invariant\<close>

text \<open>
  The blocks \<open>front\<close> up to the first one of the newest pages are searched; the blocks \<open>rest\<close>
  behind it wait for the next growth.
\<close>

abbreviation heap_at :: "user_heap \<Rightarrow> nat" where
  "heap_at s \<equiv> unat (g_baseBlock s)"

definition user_heap_inv :: "user_heap \<Rightarrow> blocks \<Rightarrow> blocks \<Rightarrow> bool" where
  "user_heap_inv s front rest \<longleftrightarrow> small_region s \<and> front \<noteq> [] \<and> g_baseBlock s \<noteq> nullptr \<and>
     tiles (umem s) (heap_at s) (front @ rest) \<and> inside (heap_at s) (total (front @ rest)) s \<and>
     heap_at s + total (front @ rest) = unat (brk s) \<and>
     g_lastBlock s = of_nat (heap_at s + total (butlast front))"

lemma user_heap_invD:
  assumes "user_heap_inv s front rest"
  shows "small_region s" "front \<noteq> []" "g_baseBlock s \<noteq> nullptr" "tiles (umem s) (heap_at s) (front @ rest)"
    "inside (heap_at s) (total (front @ rest)) s" "heap_at s + total (front @ rest) = unat (brk s)"
    "g_lastBlock s = of_nat (heap_at s + total (butlast front))"
  using assms by (auto simp: user_heap_inv_def)

definition user_heap_ok :: "user_heap \<Rightarrow> bool" where
  "user_heap_ok s \<longleftrightarrow>
     (if g_baseBlock s = nullptr then small_region s else \<exists>front rest. user_heap_inv s front rest)"

definition user_live :: "user_heap \<Rightarrow> addr set" where
  "user_live s = {p. \<exists>front rest. user_heap_inv s front rest \<and> p \<in> of_nat ` used_ptrs (heap_at s) (front @ rest)}"

lemma user_live_eq:
  assumes "user_heap_inv s front rest"
  shows "user_live s = of_nat ` used_ptrs (heap_at s) (front @ rest)"
proof -
  have "front' @ rest' = front @ rest" if "user_heap_inv s front' rest'" for front' rest'
    using user_heap_invD(4,6) [OF that] user_heap_invD(4,6) [OF assms]
    by (intro tiles_unique [of "umem s" "heap_at s"]) auto
  note same = this
  show ?thesis
  proof (intro set_eqI iffI)
    fix p assume "p \<in> user_live s"
    then obtain f r where "user_heap_inv s f r" "p \<in> of_nat ` used_ptrs (heap_at s) (f @ r)"
      unfolding user_live_def by blast
    with same show "p \<in> of_nat ` used_ptrs (heap_at s) (front @ rest)" by metis
  next
    fix p :: addr assume "p \<in> of_nat ` used_ptrs (heap_at s) (front @ rest)"
    with assms show "p \<in> user_live s" unfolding user_live_def by blast
  qed
qed

lemma user_live_none: "g_baseBlock s = nullptr \<Longrightarrow> user_live s = {}"
  by (auto simp: user_live_def user_heap_inv_def)

lemma of_nat_notin_image:
  assumes "x \<notin> A" "x < 4294967296" "\<And>y. y \<in> A \<Longrightarrow> y < 4294967296"
  shows "(of_nat x :: u32) \<notin> of_nat ` A"
proof
  assume "(of_nat x :: u32) \<in> of_nat ` A"
  then obtain y where "y \<in> A" "(of_nat x :: u32) = of_nat y" by blast
  then have "x = y" using assms(2,3) of_nat_u32_eq_iff by blast
  with \<open>y \<in> A\<close> assms(1) show False by simp
qed

lemma inj_on_of_nat_u32: "(\<And>y. y \<in> A \<Longrightarrow> y < 4294967296) \<Longrightarrow> inj_on (of_nat :: nat \<Rightarrow> u32) A"
  by (rule inj_onI) (simp only: of_nat_u32_eq_iff)

text \<open>Replacing a free block by the blocks that an allocation makes of it.\<close>

lemma used_ptrs_place:
  assumes "tiles M a (pre @ (n, False) # post)" "sz \<le> n"
  shows "used_ptrs a (pre @ place sz n @ post) = insert (a + total pre + 4) (used_ptrs a (pre @ (n, False) # post))"
    and "a + total pre + 4 \<notin> used_ptrs a (pre @ (n, False) # post)"
proof -
  show "used_ptrs a (pre @ place sz n @ post) = insert (a + total pre + 4) (used_ptrs a (pre @ (n, False) # post))"
    using assms(2) by (auto simp: place_def)
  have "tiles M a pre" "tiles M (a + total pre + n) post" "5 \<le> n" using assms(1) by auto
  then show "a + total pre + 4 \<notin> used_ptrs a (pre @ (n, False) # post)"
    using used_ptrs_bounds [of M a pre "a + total pre + 4"] used_ptrs_bounds [of M "a + total pre + n" post "a + total pre + 4"]
    by auto
qed

lemma user_grow_call:
  assumes "5 \<le> sz" "sz \<le> 2147483652"
  shows "(if of_nat sz > DEFAULT_BLOCK_SIZE then
      andThen (local_mod (of_nat sz) DEFAULT_BLOCK_SIZE) (\<lambda>r.
        user_Sbrk (sint (of_nat sz div DEFAULT_BLOCK_SIZE + (if r > 0 then 1 else 0))) s)
     else user_Sbrk 1 s) = user_Sbrk (int (n_pages sz)) s"
proof -
  have lt: "(of_nat 4092 :: u32) < of_nat sz \<longleftrightarrow> 4092 < sz" using assms by (intro u32_of_nat_less) auto
  have "of_nat sz div DEFAULT_BLOCK_SIZE = of_nat (sz div 4092)"
    using assms by (intro u32_eqI) (simp add: unat_div unat_of_nat_u32 less_mult_imp_div_less)
  moreover have "sint (of_nat (sz div 4092) + (if P then 1 else 0) :: u32) = int (sz div 4092 + (if P then 1 else 0))" for P
  proof -
    have "(of_nat (sz div 4092) + (if P then 1 else 0) :: u32) = of_nat (sz div 4092 + (if P then 1 else 0))" by simp
    moreover have "sz div 4092 + (if P then 1 else 0) < 2147483648"
      using div_le_mono [OF assms(2), of 4092] by simp
    ultimately show ?thesis using sint_of_nat_u32 by metis
  qed
  moreover have "local_mod (of_nat sz) DEFAULT_BLOCK_SIZE = ret (if 4092 dvd sz then 0 else 1)"
    using local_mod_eq [of 4092 sz] assms by simp
  ultimately show ?thesis using lt by (auto simp: n_pages_def)
qed

text \<open>What an allocation of \<open>sz\<close> bytes, header included, does to an initialised heap.\<close>

definition allocated :: "nat \<Rightarrow> user_heap \<Rightarrow> addr \<Rightarrow> user_heap \<Rightarrow> bool" where
  "allocated sz s p s' \<longleftrightarrow> p \<noteq> nullptr \<and> p \<notin> user_live s \<and> user_live s' = insert p (user_live s) \<and>
     g_baseBlock s' = g_baseBlock s \<and> region_base s' = region_base s \<and> region_limit s' = region_limit s \<and>
     (\<exists>front rest. user_heap_inv s' front rest) \<and> unat p + sz < 4294967300"

lemma user_Allocate_found:
  assumes inv: "user_heap_inv s front rest" and sz: "5 \<le> sz" "sz < 4294967296" and some: "some_fits sz front"
  obtains p s' where "user_Allocate (g_baseBlock s) (of_nat sz) s = ret (p, s')" "allocated sz s p s'" "brk s' = brk s"
proof -
  note i = user_heap_invD [OF inv]
  let ?a = "heap_at s"
  define pre where "pre = takeWhile (\<lambda>b. \<not> fits sz b) front"
  obtain n u post where d: "dropWhile (\<lambda>b. \<not> fits sz b) front = (n, u) # post"
    using some no_fit_iff [of sz front] by (cases "dropWhile (\<lambda>b. \<not> fits sz b) front") auto
  have bt: "of_nat ?a = g_baseBlock s" by simp
  have t: "tiles (umem s) ?a front" "inside ?a (total front) s" using i(4,5) by (auto simp: inside_def)
  obtain M where M: "user_Allocate (of_nat ?a) (of_nat sz) s = ret (of_nat (?a + total pre) + 4, s\<lparr>umem := M\<rparr>)"
      "changes (?a + total pre) n (umem s) M" "tiles M ?a (pre @ place sz n @ post)"
      "front = pre @ (n, False) # post" "sz \<le> n" "(of_nat (?a + total pre) :: addr) + 4 \<noteq> 0"
    by (rule user_Allocate_fit [OF i(7,2) t sz d pre_def])
  let ?b = "?a + total pre" and ?s = "s\<lparr>umem := M\<rparr>"
  let ?f = "if post = [] then pre @ [hd (place sz n)] else pre @ place sz n @ post"
  let ?r = "if post = [] then tl (place sz n) @ rest else rest"
  have lim: "?a + total (front @ rest) < 4294967296" by (rule inside_lt [OF i(5)])
  have fr: "?f @ ?r = pre @ place sz n @ post @ rest" by (simp add: place_def)
  have all: "front @ rest = pre @ (n, False) # post @ rest" using M(4) by (metis append_Cons append_assoc)
  have tot: "total front = total pre + n + total post" by (subst M(4)) simp
  have tr: "tiles (umem s) (?a + total front) rest" using i(4) by simp
  have "tiles M ?a (?f @ ?r)"
    unfolding fr using M(3,5) tiles_changes [OF tr M(2)] tot lim by (simp add: add.assoc)
  moreover have "total (?f @ ?r) = total (front @ rest)" unfolding fr using M(5) tot by simp
  moreover have "total (butlast ?f) = total (butlast front)"
  proof (cases "post = []")
    case True
    then have "butlast front = pre" by (subst M(4)) simp
    with True show ?thesis by simp
  next
    case False
    then have "butlast front = pre @ (n, False) # butlast post" by (subst M(4)) (simp add: butlast_append)
    with False M(5) show ?thesis by (simp add: butlast_append)
  qed
  ultimately have inv': "user_heap_inv ?s ?f ?r"
    using i by (simp add: user_heap_inv_def small_region_def)
  have u: "used_ptrs ?a (?f @ ?r) = insert (?b + 4) (used_ptrs ?a (front @ rest))" "?b + 4 \<notin> used_ptrs ?a (front @ rest)"
    unfolding fr all using used_ptrs_place [of "umem s" ?a pre n "post @ rest" sz] i(4) M(5) all by auto
  have p: "(of_nat ?b :: addr) + 4 = of_nat (?b + 4)" by simp
  have "5 \<le> n" using i(4) unfolding all by simp
  then have b4: "?b + 4 < 4294967296" using lim tot by simp
  have "allocated sz s (of_nat ?b + 4) ?s"
    unfolding allocated_def user_live_eq [OF inv] user_live_eq [OF inv']
  proof (intro conjI)
    show "(of_nat ?b :: addr) + 4 \<notin> of_nat ` used_ptrs ?a (front @ rest)"
      unfolding p using u(2) b4 used_ptrs_bounds [OF i(4)] lim by (intro of_nat_notin_image) force+
    show "of_nat ` used_ptrs (heap_at ?s) (?f @ ?r) = insert ((of_nat ?b :: addr) + 4) (of_nat ` used_ptrs ?a (front @ rest))"
      using u(1) p by simp
    show "unat ((of_nat ?b :: addr) + 4) + sz < 4294967300"
      unfolding p using b4 M(5) tot lim by (simp add: unat_of_nat_u32 del: of_nat_add)
  qed (use M(6) inv' in auto)
  with M(1) show thesis by (intro that [of "of_nat ?b + 4" ?s]) simp_all
qed

lemma user_find_none:
  assumes inv: "user_heap_inv s front rest" and "sz < 4294967296" and "\<not> some_fits sz front"
  shows "user_find (g_baseBlock s) (of_nat sz) s = ret (nullptr, of_nat (heap_at s + total front), s)"
proof -
  note i = user_heap_invD [OF inv]
  have t: "tiles (umem s) (heap_at s) front" "inside (heap_at s) (total front) s" using i(4,5) by (auto simp: inside_def)
  have tb: "total front = total (butlast front) + total [last front]"
    using i(2) total_simps(3) by (metis append_butlast_last_id)
  then have ll: "heap_at s + total (butlast front) < 4294967296" using inside_lt [OF t(2)] by simp
  have none: "dropWhile (\<lambda>b. \<not> fits sz b) front = []" using no_fit_iff assms(3) by blast
  have bt: "of_nat (heap_at s) = g_baseBlock s" by simp
  show ?thesis
    using user_find_ok [OF i(7) ll assms(2) t i(2) refl] unfolding none bt by simp
qed

text \<open>Without a fitting block the heap grows by whole pages, which a new block fills.\<close>

lemma user_Allocate_grows:
  assumes inv: "user_heap_inv s front rest" and sz: "5 \<le> sz" "sz \<le> 2147483652" and none: "\<not> some_fits sz front"
    and room: "room (n_pages sz) s"
  obtains s' where "user_Allocate (g_baseBlock s) (of_nat sz) s = ret (brk s + 4, s')" "allocated sz s (brk s + 4) s'"
    "brk s' = of_nat (unat (brk s) + 4096 * n_pages sz)"
proof -
  note i = user_heap_invD [OF inv]
  let ?np = "n_pages sz" and ?t = "unat (brk s)" and ?a = "heap_at s"
  have sz32: "sz < 4294967296" using sz by simp
  have fit: "fits sz (4096 * ?np, False)" using n_pages_enough [of sz] by (simp add: fits_def)
  then have szn: "sz \<le> 4096 * ?np" by (simp add: fits_def)
  obtain M where M: "user_Sbrk (int ?np) s = ret (brk s, s\<lparr>umem := M, brk := of_nat (?t + 4096 * ?np),
      g_lastBlock := brk s, g_limitBlock := brk s + of_nat (8 * (4096 * ?np))\<rparr>)"
    "changes ?t (4096 * ?np) (umem s) M" "hdr_at M ?t = (4096 * ?np, False)"
    by (rule user_Sbrk_ok [OF i(1) n_pages_pos room])
  let ?s = "s\<lparr>umem := M, brk := of_nat (?t + 4096 * ?np), g_lastBlock := brk s, g_limitBlock := brk s + of_nat (8 * (4096 * ?np))\<rparr>"
  have lim: "?t + 4096 * ?np < 4294967296"
    using room unat_lt_2p32 [of "region_limit s"] by (simp add: room_def)
  have tot: "?a + total (front @ rest) = ?t" by (rule i(6))
  have new: "tiles (umem ?s) ?t [(4096 * ?np, False)]" "inside ?t (total [(4096 * ?np, False)]) ?s"
    using M(3) i(1) room n_pages_pos [of sz] by (simp_all add: small_region_def room_def inside_def)
  have bt: "of_nat ?t = brk s" by simp
  obtain M' where M': "user_Allocate (of_nat ?t) (of_nat sz) ?s = ret (of_nat (?t + total []) + 4, ?s\<lparr>umem := M'\<rparr>)"
      "changes (?t + total []) (4096 * ?np) (umem ?s) M'" "tiles M' ?t ([] @ place sz (4096 * ?np) @ [])"
      "[(4096 * ?np, False)] = [] @ (4096 * ?np, False) # []" "(of_nat (?t + total []) :: addr) + 4 \<noteq> 0"
    by (rule user_Allocate_fit [of ?s ?t "[(4096 * ?np, False)]" sz "4096 * ?np" False "[]" "[]", OF _ _ new sz(1) sz32])
       (use fit in simp_all)
  have hd': "hdr_at M' ?t = (fst (hd (place sz (4096 * ?np))), True)"
    using M'(3) by (auto simp: place_def)
  obtain M2 where M2: "set_state (of_nat ?t) True (?s\<lparr>umem := M'\<rparr>) = ret (?s\<lparr>umem := M2\<rparr>)" "changes ?t 4 M' M2"
      "hdr_at M2 ?t = (fst (hd (place sz (4096 * ?np))), True)"
    using set_state_ok [of ?t "?s\<lparr>umem := M'\<rparr>"] new(2) hd' n_pages_pos [of sz] by (auto simp: inside_def)
  let ?f = "front @ rest @ [hd (place sz (4096 * ?np))]" and ?r = "tl (place sz (4096 * ?np))"
  let ?s2 = "?s\<lparr>umem := M2\<rparr>"
  have fr: "?f @ ?r = front @ rest @ place sz (4096 * ?np)" by (simp add: place_def)
  have call: "user_Allocate (g_baseBlock s) (of_nat sz) s = ret (brk s + 4, ?s2)"
    using user_find_none [OF inv sz32 none] user_grow_call [OF sz, of s] M(1) M'(1) M2(1) unfolding bt
    by (subst user_Allocate.simps) simp
  have tp: "tiles M2 ?t (place sz (4096 * ?np))"
  proof -
    have "hdr_at M2 (?t + sz) = hdr_at M' (?t + sz)" if "sz + 8 \<le> 4096 * ?np"
      using hdr_at_changes [OF M2(2), of "?t + sz"] that lim sz by simp
    then show ?thesis using M'(3) M2(3) by (auto simp: place_def split: if_splits)
  qed
  have ch: "changes ?t (4096 * ?np) (umem s) M2"
    using changes_trans [OF changes_trans [OF M(2), of M'], of M2] M'(2) changes_mono [OF M2(2), of ?t "4096 * ?np"]
      n_pages_pos [of sz] by simp
  have "tiles M2 ?a (?f @ ?r)"
    unfolding fr using tiles_changes [OF i(4) ch] tot lim tp by (simp add: add.assoc)
  moreover have "total (?f @ ?r) = total (front @ rest) + 4096 * ?np" unfolding fr using szn by simp
  moreover have "butlast ?f = front @ rest" by (simp add: butlast_append)
  ultimately have inv': "user_heap_inv ?s2 ?f ?r"
    using i room lim tot by (simp add: user_heap_inv_def small_region_def room_def inside_def unat_of_nat_u32 del: of_nat_add of_nat_mult)
  have old: "tiles M2 ?a (front @ rest)" by (rule tiles_changes [OF i(4) ch]) (use tot lim in auto)
  have u: "used_ptrs ?a (?f @ ?r) = insert (?t + 4) (used_ptrs ?a (front @ rest))"
    unfolding fr using tot by (simp add: place_def add.assoc)
  have fresh: "?t + 4 \<notin> used_ptrs ?a (front @ rest)" using used_ptrs_bounds [OF i(4)] tot by fastforce
  have p: "brk s + 4 = of_nat (?t + 4)" by simp
  have t4: "?t + 4 < 4294967296" using lim n_pages_pos [of sz] by simp
  have "allocated sz s (brk s + 4) ?s2"
    unfolding allocated_def user_live_eq [OF inv] user_live_eq [OF inv']
  proof (intro conjI)
    show "brk s + 4 \<noteq> nullptr" using M'(5) by simp
    show "brk s + 4 \<notin> of_nat ` used_ptrs ?a (front @ rest)"
      unfolding p using fresh t4 used_ptrs_bounds [OF i(4)] tot lim by (intro of_nat_notin_image) force+
    show "of_nat ` used_ptrs (heap_at ?s2) (?f @ ?r) = insert (brk s + 4) (of_nat ` used_ptrs ?a (front @ rest))"
      using u p by simp
    show "unat (brk s + 4) + sz < 4294967300"
      unfolding p using t4 szn lim by (simp add: unat_of_nat_u32 del: of_nat_add)
  qed (use inv' in auto)
  with call show thesis by (intro that [of ?s2]) simp_all
qed

subsection \<open>Allocating\<close>

definition block_bytes :: "nat \<Rightarrow> nat" where
  "block_bytes n = 4 * ((n + 7) div 4)"

definition pages_for :: "int \<Rightarrow> nat" where
  "pages_for n = n_pages (block_bytes (nat n))"

definition user_ready :: "int list \<Rightarrow> user_heap \<Rightarrow> bool" where
  "user_ready ns s \<longleftrightarrow> room ((if g_baseBlock s = nullptr then 1 else 0) + sum_list (map pages_for ns)) s"

lemma block_bytes_bounds:
  assumes "0 < n" "n < 2147483648"
  shows "5 \<le> block_bytes (nat n)" "block_bytes (nat n) \<le> 2147483652"
proof -
  obtain k where n: "n = int k" "0 < k" "k < 2147483648" using assms by (metis zero_less_imp_eq_int of_nat_less_numeral_iff)
  have "4 * ((k + 7) div 4) \<le> k + 7" "k + 4 \<le> 4 * ((k + 7) div 4)" by linarith+
  moreover have "(k + 7) div 4 \<le> (2147483647 + 7) div 4" by (rule div_le_mono) (use n(3) in simp)
  ultimately show "5 \<le> block_bytes (nat n)" "block_bytes (nat n) \<le> 2147483652" using n(2) by (simp_all add: block_bytes_def n(1))
qed

lemma ClosestPow_block_bytes:
  assumes "0 < n" "n < 2147483648"
  shows "ClosestPow (of_int n + BLOCK_HEADER_SIZE) 4 = ret (of_nat (block_bytes (nat n)))"
proof -
  have "of_int n + BLOCK_HEADER_SIZE = (of_nat (nat n + 4) :: u32)" using assms(1) by simp
  then have "ClosestPow (of_int n + BLOCK_HEADER_SIZE) 4 = ret (of_nat (4 * ((nat n + 4 + 3) div 4)))"
    using ClosestPow_returns [of "nat n + 4"] assms by (simp del: of_nat_add of_nat_mult)
  then show ?thesis by (simp add: block_bytes_def add.assoc del: of_nat_mult)
qed

lemma first_page_ok:
  assumes "small_region s" "g_baseBlock s = nullptr" "room 1 s"
  obtains s' where "first_page s = ret s'" "user_heap_inv s' [(4096, False)] []" "g_baseBlock s' = brk s"
    "brk s' = of_nat (unat (brk s) + 4096)" "region_limit s' = region_limit s" "region_base s' = region_base s"
proof -
  let ?t = "unat (brk s)"
  have bt: "of_nat ?t = brk s" and tz: "0 < ?t" using assms(1) by (simp_all add: small_region_def)
  obtain M where M: "user_Sbrk (int 1) s = ret (brk s, s\<lparr>umem := M, brk := of_nat (?t + 4096 * 1),
      g_lastBlock := brk s, g_limitBlock := brk s + of_nat (8 * (4096 * 1))\<rparr>)"
    "changes ?t (4096 * 1) (umem s) M" "hdr_at M ?t = (4096 * 1, False)"
    by (rule user_Sbrk_ok [OF assms(1) _ assms(3)]) simp_all
  let ?s = "s\<lparr>umem := M, brk := of_nat (?t + 4096 * 1), g_lastBlock := brk s,
      g_limitBlock := brk s + of_nat (8 * (4096 * 1)), g_baseBlock := brk s\<rparr>"
  have r: "inside ?t 4 ?s" using assms by (auto simp: small_region_def room_def inside_def)
  obtain M1 where M1: "set_size (of_nat ?t) (of_nat 4096) ?s = ret (?s\<lparr>umem := M1\<rparr>)" "hdr_at M1 ?t = (4096, False)"
    using set_size_ok [OF r, of "4096 * 1" False 4096] M(3) by auto
  have r1: "inside ?t 4 (?s\<lparr>umem := M1\<rparr>)" using r by (simp add: inside_def)
  have h1: "hdr_at (umem (?s\<lparr>umem := M1\<rparr>)) ?t = (4096, False)" using M1(2) by simp
  obtain M2 where M2: "set_state (of_nat ?t) False (?s\<lparr>umem := M1\<rparr>) = ret (?s\<lparr>umem := M1, umem := M2\<rparr>)"
      "hdr_at M2 ?t = (4096, False)"
    using set_state_ok [OF r1 h1] by metis
  let ?s2 = "?s\<lparr>umem := M2, g_limitBlock := brk s + 8 * PAGE_SIZE, g_lastBlock := brk s\<rparr>"
  have lim: "?t + 4096 < 4294967296" using assms(3) unat_lt_2p32 [of "region_limit s"] by (simp add: room_def)
  have call: "first_page s = ret ?s2"
    using assms(2) M(1) M1(1) M2(1) unfolding bt by (simp add: first_page_def)
  have u: "unat (of_nat (?t + 4096) :: u32) = ?t + 4096" by (rule unat_of_nat_u32 [OF lim])
  have inv: "user_heap_inv ?s2 [(4096, False)] []"
    using assms M2(2) tz u
    by (auto simp: user_heap_inv_def small_region_def room_def inside_def simp del: of_nat_add)
  show thesis by (rule that [OF call inv]) simp_all
qed

lemma allocated_from_page:
  "user_live s1 = {} \<Longrightarrow> allocated sz s1 p s' \<Longrightarrow> user_live s = {} \<Longrightarrow>
    p \<noteq> nullptr \<and> p \<notin> user_live s \<and> user_live s' = insert p (user_live s)"
  by (simp add: allocated_def)

lemma user_Allocate_ok:
  assumes inv: "user_heap_inv s front rest" and sz: "5 \<le> sz" "sz \<le> 2147483652" and room: "room (n_pages sz + k) s"
  obtains p s' where "user_Allocate (g_baseBlock s) (of_nat sz) s = ret (p, s')" "allocated sz s p s'" "room k s'"
proof (cases "some_fits sz front")
  case True
  have sz32: "sz < 4294967296" using sz by simp
  obtain p s' where a: "user_Allocate (g_baseBlock s) (of_nat sz) s = ret (p, s')" "allocated sz s p s'" "brk s' = brk s"
    by (rule user_Allocate_found [OF inv sz(1) sz32 True])
  from a have "room k s'" using room by (simp add: room_def allocated_def)
  with a show thesis using that by blast
next
  case False
  have r: "room (n_pages sz) s" using room by (simp add: room_def)
  obtain s' where a: "user_Allocate (g_baseBlock s) (of_nat sz) s = ret (brk s + 4, s')" "allocated sz s (brk s + 4) s'"
      "brk s' = of_nat (unat (brk s) + 4096 * n_pages sz)"
    by (rule user_Allocate_grows [OF inv sz False r])
  have "unat (brk s) + 4096 * n_pages sz < 4294967296"
    using r unat_lt_2p32 [of "region_limit s"] by (simp add: room_def)
  then have "unat (brk s') = unat (brk s) + 4096 * n_pages sz" unfolding a(3) by (rule unat_of_nat_u32)
  then have "room k s'" using room a(2) by (simp add: room_def allocated_def)
  with a show thesis using that by blast
qed

lemma user_HeapAlloc_ok:
  assumes ok: "user_heap_ok s" and n: "0 < n" "n < 2147483648" and ready: "user_ready (n # ns) s"
  obtains p s' where "user_HeapAlloc n s = ret (p, s')" "p \<noteq> nullptr" "p \<notin> user_live s"
    "user_live s' = insert p (user_live s)" "user_heap_ok s'" "user_ready ns s'" "unat p + nat n < 4294967296"
proof -
  note b = block_bytes_bounds [OF n] and cp = ClosestPow_block_bytes [OF n]
  have rest: "\<exists>p s'. user_HeapAlloc n s = ret (p, s') \<and> p \<noteq> nullptr \<and> p \<notin> user_live s \<and>
      user_live s' = insert p (user_live s) \<and> user_heap_ok s' \<and> user_ready ns s' \<and> unat p + nat n < 4294967296"
    if f: "first_page s = ret s1" and inv: "user_heap_inv s1 front rest"
      and room: "room (n_pages (block_bytes (nat n)) + sum_list (map pages_for ns)) s1"
      and live: "user_live s1 = user_live s" for s1 front rest
  proof -
    obtain p s' where a: "user_Allocate (g_baseBlock s1) (of_nat (block_bytes (nat n))) s1 = ret (p, s')"
        "allocated (block_bytes (nat n)) s1 p s'" "room (sum_list (map pages_for ns)) s'"
      by (rule user_Allocate_ok [OF inv b room])
    have base: "g_baseBlock s' \<noteq> nullptr" using a(2) user_heap_invD(3) [OF inv] by (simp add: allocated_def)
    have "user_HeapAlloc n s = ret (p, s')" using n f cp a by (simp add: user_HeapAlloc_def allocated_def)
    moreover have "user_heap_ok s'" using a(2) base by (simp add: user_heap_ok_def allocated_def)
    moreover have "user_ready ns s'" using a(3) base by (simp add: user_ready_def)
    moreover have "unat p + nat n < 4294967296"
    proof -
      have "nat n + 4 \<le> block_bytes (nat n)" unfolding block_bytes_def by linarith
      then show ?thesis using a(2) by (simp add: allocated_def)
    qed
    ultimately show ?thesis using a(2) live by (auto simp: allocated_def)
  qed
  show thesis
  proof (cases "g_baseBlock s = nullptr")
    case True
    have sm: "small_region s" using ok True by (simp add: user_heap_ok_def)
    have r: "room (1 + (n_pages (block_bytes (nat n)) + sum_list (map pages_for ns))) s"
      using ready True by (simp add: user_ready_def pages_for_def)
    then have r1: "room 1 s" by (simp add: room_def)
    obtain s1 where s1: "first_page s = ret s1" "user_heap_inv s1 [(4096, False)] []" "g_baseBlock s1 = brk s"
        "brk s1 = of_nat (unat (brk s) + 4096)" "region_limit s1 = region_limit s"
      by (rule first_page_ok [OF sm True r1])
    have "unat (brk s1) = unat (brk s) + 4096"
      unfolding s1(4) using r1 unat_lt_2p32 [of "region_limit s"] by (intro unat_of_nat_u32) (simp add: room_def)
    then have "room (n_pages (block_bytes (nat n)) + sum_list (map pages_for ns)) s1" using r s1(5) by (simp add: room_def)
    moreover have "user_live s1 = user_live s" using user_live_eq [OF s1(2)] user_live_none [OF True] by simp
    ultimately show thesis using rest [OF s1(1,2)] that by blast
  next
    case False
    then obtain front rst where "user_heap_inv s front rst" using ok by (auto simp: user_heap_ok_def)
    moreover have "first_page s = ret s" using False by (simp add: first_page_def)
    ultimately show thesis using rest [of s front rst] ready False that by (auto simp: user_ready_def pages_for_def)
  qed
qed

subsection \<open>Freeing\<close>

text \<open>\<^verbatim>\<open>MemSet\<close> on the data of a block.\<close>

lemma user_MemSet_block:
  assumes "inside a n s" "4 \<le> n" "n < 2147483648"
  obtains M where "user_MemSet (of_nat a + 4) 0 (of_nat n - BLOCK_HEADER_SIZE) s = ret (s\<lparr>umem := M\<rparr>)"
    "changes (a + 4) (n - 4) (umem s) M"
proof -
  let ?k = "of_nat n - BLOCK_HEADER_SIZE :: u32" and ?p = "of_nat a + 4 :: addr"
  have lim: "a + n < 4294967296" by (rule inside_lt [OF assms(1)])
  have k: "unat ?k = n - 4"
  proof -
    have "?k = of_nat (n - 4)" using assms(2) by (simp add: of_nat_diff)
    then show ?thesis using assms(3) by (simp add: unat_of_nat_u32 del: of_nat_diff)
  qed
  have p4: "unat ?p = a + 4" using unat_byte [of a 4] lim assms(2) by simp
  show thesis
  proof (cases "?k = 0")
    case True
    then show thesis using that [of "umem s"] by (simp add: user_MemSet_def)
  next
    case False
    have "in_region ?p (unat ?k) s" using assms(1,2) p4 k by (simp add: in_region_def inside_def)
    then have "user_MemSet ?p 0 ?k s = ret (s\<lparr>umem := MemSet (umem s) ?p 0 ?k\<rparr>)"
      using False by (simp add: user_MemSet_def)
    moreover have "MemSet (umem s) ?p 0 ?k u = umem s u" if "\<not> (a + 4 \<le> unat u \<and> unat u < a + 4 + (n - 4))" for u
    proof -
      have "\<not> unat (u - ?p) < unat ?k"
      proof
        assume l: "unat (u - ?p) < unat ?k"
        have "unat u = unat (u - ?p) + unat ?p" using unat_add_nowrap [of "u - ?p" ?p] l k p4 lim by simp
        with l k p4 that show False by simp
      qed
      then show ?thesis by (simp add: MemSet_eq)
    qed
    ultimately show thesis using that by (simp add: changes_def)
  qed
qed

lemma total_map_fst: "map fst xs = map fst ys \<Longrightarrow> total xs = total ys"
  by (simp add: total_def)

text \<open>Freeing what is not in use: a block freed before.\<close>

lemma user_HeapFree_again:
  assumes "ld32 (p - BLOCK_HEADER_SIZE) s = ret w" "\<not> hdr_used w"
  shows "user_HeapFree p s = ret s"
  using assms by (simp add: user_HeapFree_def)

lemma user_HeapFree_ok:
  assumes inv: "user_heap_inv s front rest" and p: "p \<in> user_live s"
  obtains s' front' rest' where "user_HeapFree p s = ret s'" "user_heap_inv s' front' rest'" "user_live s' = user_live s - {p}"
    "brk s' = brk s" "g_baseBlock s' = g_baseBlock s" "region_limit s' = region_limit s" "user_HeapFree p s' = ret s'"
proof -
  note i = user_heap_invD [OF inv]
  let ?a = "heap_at s"
  obtain x where x: "x \<in> used_ptrs ?a (front @ rest)" "p = of_nat x"
    using p unfolding user_live_eq [OF inv] by blast
  obtain pre n post where bs: "front @ rest = pre @ (n, True) # post" "x = ?a + total pre + 4"
    by (rule used_ptrs_split [OF x(1)])
  let ?b = "?a + total pre"
  have t: "tiles (umem s) ?a pre" "5 \<le> n" "hdr_at (umem s) ?b = (n, True)" "tiles (umem s) (?b + n) post"
    using i(4) unfolding bs(1) by auto
  have lim: "?a + total (front @ rest) < 4294967296" by (rule inside_lt [OF i(5)])
  have tot: "total (front @ rest) = total pre + n + total post" unfolding bs(1) by simp
  have r: "inside ?b n s" "inside ?b 4 s" using i(5) tot t(2) by (auto simp: inside_def)
  have pb: "p - BLOCK_HEADER_SIZE = of_nat ?b" "p = of_nat ?b + 4" unfolding x(2) bs(2) by simp_all
  have nz: "p \<noteq> nullptr" unfolding pb(2) using lim tot t(2) by (intro plus4_nonnull) simp
  obtain w where w: "ld32 (of_nat ?b) s = ret w" "hdr_used w = True" "n < 2147483648" using ld32_hdr [OF r(2) t(3)] by metis
  obtain M1 where M1: "set_state (of_nat ?b) False s = ret (s\<lparr>umem := M1\<rparr>)" "changes ?b 4 (umem s) M1" "hdr_at M1 ?b = (n, False)"
    by (rule set_state_ok [OF r(2) t(3)])
  have r1: "inside ?b n (s\<lparr>umem := M1\<rparr>)" "inside ?b 4 (s\<lparr>umem := M1\<rparr>)" using r by (simp_all add: inside_def)
  have h1: "hdr_at (umem (s\<lparr>umem := M1\<rparr>)) ?b = (n, False)" using M1(3) by simp
  obtain v where v: "ld32 (of_nat ?b) (s\<lparr>umem := M1\<rparr>) = ret v" "hdr_size v = of_nat n" using ld32_hdr [OF r1(2) h1] by metis
  have n4: "4 \<le> n" using t(2) by simp
  obtain M2 where M2: "user_MemSet (of_nat ?b + 4) 0 (of_nat n - BLOCK_HEADER_SIZE) (s\<lparr>umem := M1\<rparr>) = ret (s\<lparr>umem := M1, umem := M2\<rparr>)"
      "changes (?b + 4) (n - 4) (umem (s\<lparr>umem := M1\<rparr>)) M2"
    by (rule user_MemSet_block [OF r1(1) n4 w(3)])
  have ch: "changes ?b n (umem s) M2"
    using changes_mono [OF M1(2), of ?b n] changes_mono [OF M2(2), of ?b n] t(2) by (auto intro: changes_trans)
  have h2: "hdr_at M2 ?b = (n, False)" using hdr_at_changes [OF M2(2), of ?b] M1(3) lim tot t(2) by simp
  with h2 have tiles': "tiles M2 ?a (pre @ (n, False) # post)"
    using tiles_changes [OF t(1) ch] tiles_changes [OF t(4) ch] t(2) lim tot by simp
  let ?bs = "pre @ (n, False) # post" and ?k = "length front" and ?s = "s\<lparr>umem := M2\<rparr>"
  have sizes: "map fst ?bs = map fst (front @ rest)" unfolding bs(1) by simp
  then have tf: "map fst (take ?k ?bs) = map fst front" unfolding take_map [symmetric] by simp
  obtain f r where fr: "?bs = f @ r" "map fst f = map fst front"
    using tf append_take_drop_id [of ?k ?bs] by metis
  have f: "f \<noteq> []" "total (butlast f) = total (butlast front)"
    using fr(2) i(2) by (auto intro!: total_map_fst simp: map_butlast)
  have inv': "user_heap_inv ?s f r"
    using i tiles' f total_map_fst [OF sizes] unfolding fr(1) user_heap_inv_def by (simp add: small_region_def inside_def)
  have call: "user_HeapFree p s = ret ?s"
    unfolding user_HeapFree_def Let_def pb(1) using nz w(1,2) M1(1) v M2(1) by simp
  have "used_ptrs ?a ?bs = used_ptrs ?a (front @ rest) - {x}"
  proof -
    have "x \<notin> used_ptrs ?a pre" using used_ptrs_bounds [OF t(1), of x] bs(2) by auto
    moreover have "x \<notin> used_ptrs (?b + n) post" using used_ptrs_bounds [OF t(4), of x] bs(2) t(2) by auto
    ultimately show ?thesis unfolding bs(1) using bs(2) by auto
  qed
  moreover have "inj_on (of_nat :: nat \<Rightarrow> u32) (used_ptrs ?a (front @ rest))"
    using used_ptrs_bounds [OF i(4)] lim by (intro inj_on_of_nat_u32) force
  ultimately have "of_nat ` used_ptrs ?a ?bs = of_nat ` used_ptrs ?a (front @ rest) - {p}"
    unfolding x(2) using x(1) by (simp add: inj_on_image_set_diff [where C = "used_ptrs ?a (front @ rest)"])
  then have "user_live ?s = user_live s - {p}"
    unfolding user_live_eq [OF inv] user_live_eq [OF inv'] fr(1) [symmetric] by simp
  moreover have "user_HeapFree p ?s = ret ?s"
  proof -
    obtain v where "ld32 (of_nat ?b) ?s = ret v" "hdr_used v = False"
      using ld32_hdr [of ?b ?s n False] h2 r(2) by auto
    then show ?thesis unfolding pb(1) [symmetric] by (intro user_HeapFree_again) simp_all
  qed
  ultimately show thesis using call inv' by (intro that [of ?s f r]) simp_all
qed

interpretation uheap: heap_allocator user_HeapAlloc user_HeapFree user_live user_heap_ok user_ready "\<lambda>_. True"
proof
  fix h :: user_heap and n :: int and ns
  assume "user_heap_ok h" "0 < n" "n < 2147483648" "user_ready (n # ns) h"
  then obtain p s' where "user_HeapAlloc n h = ret (p, s')" by (rule user_HeapAlloc_ok)
  then show "safe (user_HeapAlloc n h)" by simp
next
  fix h h' :: user_heap and n :: int and ns p
  assume a: "user_heap_ok h" "0 < n" "n < 2147483648" "user_ready (n # ns) h" "user_HeapAlloc n h = ret (p, h')"
  obtain q s' where "user_HeapAlloc n h = ret (q, s')" "q \<noteq> nullptr" "q \<notin> user_live h"
    "user_live s' = insert q (user_live h)" "user_heap_ok s'" "user_ready ns s'"
    by (rule user_HeapAlloc_ok [OF a(1-4)])
  with a(5) show "p \<noteq> nullptr \<and> p \<notin> user_live h \<and> user_live h' = insert p (user_live h) \<and> user_heap_ok h' \<and> user_ready ns h'"
    by simp
next
  fix h :: user_heap and p
  assume a: "user_heap_ok h" "True" "p \<in> user_live h"
  have base: "g_baseBlock h \<noteq> nullptr" using a(3) user_live_none by blast
  with a(1) obtain front rest where inv: "user_heap_inv h front rest" by (auto simp: user_heap_ok_def)
  obtain s' front' rest' where s': "user_HeapFree p h = ret s'" "user_heap_inv s' front' rest'" "user_live s' = user_live h - {p}"
    "brk s' = brk h" "g_baseBlock s' = g_baseBlock h" "region_limit s' = region_limit h"
    by (rule user_HeapFree_ok [OF inv a(3)])
  moreover have "user_heap_ok s'" using s'(2,5) base by (auto simp: user_heap_ok_def)
  moreover have "\<forall>ns. user_ready ns h \<longrightarrow> user_ready ns s'" using s'(4-6) by (simp add: user_ready_def room_def)
  ultimately show "\<exists>h'. user_HeapFree p h = ret h' \<and> user_live h' = user_live h - {p} \<and> user_heap_ok h' \<and> True \<and>
      (\<forall>ns. user_ready ns h \<longrightarrow> user_ready ns h')" by blast
next
  fix n :: int and ns and h :: user_heap
  assume "user_ready (n # ns) h"
  then show "user_ready ns h" by (auto simp: user_ready_def room_def split: if_splits)
qed

end
