(* ===== verification/Ata_Properties.thy ===== *)
theory Ata_Properties
  imports Ata_Driver User_Malloc
begin

section \<open>Reading the disk through the ATA driver\<close>

text \<open>
  \<open>ata_disk\<close> states what the ATA command set documents of a disk for programmed input: the
  register writes, the READ SECTORS command, the status and the data register. The properties of
  the driver follow from it: a sector read returns the bytes of the sector, and
  \<^verbatim>\<open>AtaRead\<close> any range of bytes of the disk, whatever its alignment.
\<close>

subsection \<open>The disk\<close>

text \<open>
  What is seen of a device state: whether the device works, how often its status will still be
  busy, the registers last written (by their number) and the data words it has ready.
\<close>

record 'd ata_view =
  valid :: "'d \<Rightarrow> bool"
  busy :: "'d \<Rightarrow> nat"
  reg :: "'d \<Rightarrow> u16 \<Rightarrow> u8"
  pending :: "'d \<Rightarrow> u16 list"

text \<open>The words of a sector of a disk with the bytes \<open>img\<close>, and the sector number in the registers.\<close>

definition bytes_word :: "u8 \<Rightarrow> u8 \<Rightarrow> u16" where
  "bytes_word lo hi = of_nat (unat lo + 256 * unat hi)"

definition sector_words :: "(nat \<Rightarrow> u8) \<Rightarrow> nat \<Rightarrow> u16 list" where
  "sector_words img lba = map (\<lambda>i. bytes_word (img (512 * lba + 2 * i)) (img (512 * lba + 2 * i + 1))) [0..<256]"

definition lba28 :: "(u16 \<Rightarrow> u8) \<Rightarrow> nat" where
  "lba28 r = unat (r 3) + 256 * unat (r 4) + 65536 * unat (r 5) + 16777216 * unat (r 6 AND 15)"

text \<open>Sector count 1, drive 0, addressing by sector number, a sector of the disk.\<close>

definition one_sector :: "nat \<Rightarrow> (u16 \<Rightarrow> u8) \<Rightarrow> bool" where
  "one_sector n r \<longleftrightarrow> r 2 = 1 \<and> r 6 AND 80 = 64 \<and> lba28 r < n"

definition status_law :: "'d ata_view \<Rightarrow> 'd \<Rightarrow> u8 \<times> 'd \<Rightarrow> bool" where
  "status_law A d sd \<longleftrightarrow> (case sd of (st, d') \<Rightarrow>
     valid A d' \<and> pending A d' = pending A d \<and>
     (if busy A d = 0
      then busy A d' = 0 \<and> st AND ATA_SR_BSY = 0 \<and>
        (pending A d \<noteq> [] \<longrightarrow> st AND ATA_SR_DRQ \<noteq> 0 \<and> st AND ATA_SR_ERR = 0 \<and> st AND ATA_SR_DF = 0)
      else busy A d' < busy A d \<and> st AND ATA_SR_BSY \<noteq> 0))"

text \<open>
  The port \<open>io + 12\<close>, which the driver takes for the control register, belongs to no register of
  the channel: using it does not disturb the device.
\<close>

definition ata_disk ::
  "('d, 'm) ports_scheme \<Rightarrow> u16 \<Rightarrow> 'd ata_view \<Rightarrow> (nat \<Rightarrow> u8) \<Rightarrow> nat \<Rightarrow> bool" where
  "ata_disk M io A img n \<longleftrightarrow>
     (\<forall>d v. valid A d \<longrightarrow> pending A d = [] \<longrightarrow>
        valid A (outb M (io + 12) v d) \<and> pending A (outb M (io + 12) v d) = []) \<and>
     (\<forall>d. valid A d \<longrightarrow> valid A (snd (inb M (io + 12) d)) \<and>
        pending A (snd (inb M (io + 12) d)) = pending A d) \<and>
     (\<forall>d. valid A d \<longrightarrow> status_law A d (inb M (io + 7) d)) \<and>
     (\<forall>d r v. valid A d \<longrightarrow> busy A d = 0 \<longrightarrow> pending A d = [] \<longrightarrow> r \<in> {1, 2, 3, 4, 5, 6} \<longrightarrow>
        valid A (outb M (io + r) v d) \<and> busy A (outb M (io + r) v d) = 0 \<and>
        pending A (outb M (io + r) v d) = [] \<and>
        reg A (outb M (io + r) v d) = (reg A d)(r := v)) \<and>
     (\<forall>d. valid A d \<longrightarrow> busy A d = 0 \<longrightarrow> pending A d = [] \<longrightarrow> one_sector n (reg A d) \<longrightarrow>
        valid A (outb M (io + 7) ATA_CMD_READ_PIO d) \<and>
        pending A (outb M (io + 7) ATA_CMD_READ_PIO d) = sector_words img (lba28 (reg A d))) \<and>
     (\<forall>d w ws. valid A d \<longrightarrow> busy A d = 0 \<longrightarrow> pending A d = w # ws \<longrightarrow>
        fst (inw M io d) = w \<and> valid A (snd (inw M io d)) \<and> pending A (snd (inw M io d)) = ws \<and>
        (ws \<noteq> [] \<longrightarrow> busy A (snd (inw M io d)) = 0))"

lemma ata_diskD:
  assumes "ata_disk M io A img n"
  shows ata_control: "\<And>d v. valid A d \<Longrightarrow> pending A d = [] \<Longrightarrow>
        valid A (outb M (io + 12) v d) \<and> pending A (outb M (io + 12) v d) = []"
    and ata_alt: "\<And>d. valid A d \<Longrightarrow> valid A (snd (inb M (io + 12) d)) \<and>
        pending A (snd (inb M (io + 12) d)) = pending A d"
    and ata_status: "\<And>d. valid A d \<Longrightarrow> status_law A d (inb M (io + 7) d)"
    and ata_reg: "\<And>d r v. valid A d \<Longrightarrow> busy A d = 0 \<Longrightarrow> pending A d = [] \<Longrightarrow> r \<in> {1, 2, 3, 4, 5, 6} \<Longrightarrow>
        valid A (outb M (io + r) v d) \<and> busy A (outb M (io + r) v d) = 0 \<and>
        pending A (outb M (io + r) v d) = [] \<and> reg A (outb M (io + r) v d) = (reg A d)(r := v)"
    and ata_read: "\<And>d. valid A d \<Longrightarrow> busy A d = 0 \<Longrightarrow> pending A d = [] \<Longrightarrow> one_sector n (reg A d) \<Longrightarrow>
        valid A (outb M (io + 7) ATA_CMD_READ_PIO d) \<and>
        pending A (outb M (io + 7) ATA_CMD_READ_PIO d) = sector_words img (lba28 (reg A d))"
    and ata_data: "\<And>d w ws. valid A d \<Longrightarrow> busy A d = 0 \<Longrightarrow> pending A d = w # ws \<Longrightarrow>
        fst (inw M io d) = w \<and> valid A (snd (inw M io d)) \<and> pending A (snd (inw M io d)) = ws \<and>
        (ws \<noteq> [] \<longrightarrow> busy A (snd (inw M io d)) = 0)"
proof -
  note l = assms [unfolded ata_disk_def]
  note l1 = l [THEN conjunct1] and l2 = l [THEN conjunct2]
  note l3 = l2 [THEN conjunct1] and l4 = l2 [THEN conjunct2]
  note l5 = l4 [THEN conjunct1] and l6 = l4 [THEN conjunct2]
  note l7 = l6 [THEN conjunct1] and l8 = l6 [THEN conjunct2]
  note l9 = l8 [THEN conjunct1] and l10 = l8 [THEN conjunct2]
  show "\<And>d v. valid A d \<Longrightarrow> pending A d = [] \<Longrightarrow>
      valid A (outb M (io + 12) v d) \<and> pending A (outb M (io + 12) v d) = []" by (rule l1 [rule_format])
  show "\<And>d. valid A d \<Longrightarrow> valid A (snd (inb M (io + 12) d)) \<and>
      pending A (snd (inb M (io + 12) d)) = pending A d" by (rule l3 [rule_format])
  show "\<And>d. valid A d \<Longrightarrow> status_law A d (inb M (io + 7) d)" by (rule l5 [rule_format])
  show "\<And>d r v. valid A d \<Longrightarrow> busy A d = 0 \<Longrightarrow> pending A d = [] \<Longrightarrow> r \<in> {1, 2, 3, 4, 5, 6} \<Longrightarrow>
      valid A (outb M (io + r) v d) \<and> busy A (outb M (io + r) v d) = 0 \<and>
      pending A (outb M (io + r) v d) = [] \<and> reg A (outb M (io + r) v d) = (reg A d)(r := v)"
    by (rule l7 [rule_format])
  show "\<And>d. valid A d \<Longrightarrow> busy A d = 0 \<Longrightarrow> pending A d = [] \<Longrightarrow> one_sector n (reg A d) \<Longrightarrow>
      valid A (outb M (io + 7) ATA_CMD_READ_PIO d) \<and>
      pending A (outb M (io + 7) ATA_CMD_READ_PIO d) = sector_words img (lba28 (reg A d))" by (rule l9 [rule_format])
  show "\<And>d w ws. valid A d \<Longrightarrow> busy A d = 0 \<Longrightarrow> pending A d = w # ws \<Longrightarrow>
      fst (inw M io d) = w \<and> valid A (snd (inw M io d)) \<and> pending A (snd (inw M io d)) = ws \<and>
      (ws \<noteq> [] \<longrightarrow> busy A (snd (inw M io d)) = 0)" by (rule l10 [rule_format])
qed

subsection \<open>Waiting ends\<close>

lemma status_wait_ok:
  assumes D: "ata_disk M io A img n"
  shows "valid A d \<Longrightarrow> \<exists>st d'. status_wait M (io + 7) d = ret (st, d') \<and>
    valid A d' \<and> busy A d' = 0 \<and> pending A d' = pending A d"
proof (induction "busy A d" arbitrary: d rule: less_induct)
  case less
  obtain st d' where i: "inb M (io + 7) d = (st, d')" by (cases "inb M (io + 7) d")
  have law: "status_law A d (st, d')" using ata_status [OF D less.prems] i by simp
  have v: "valid A d'" "pending A d' = pending A d" using law by (simp_all add: status_law_def)
  show ?case
  proof (cases "busy A d = 0")
    case True
    with law v show ?thesis by (subst status_wait.simps) (simp add: i status_law_def)
  next
    case False
    then have "busy A d' < busy A d" "st AND ATA_SR_BSY \<noteq> 0" using law by (simp_all add: status_law_def)
    from less.hyps [OF this(1) v(1)] this(2) v(2) show ?thesis by (subst status_wait.simps) (simp add: i)
  qed
qed

lemma AtaIoWait_ok:
  assumes "ata_disk M io A img n" and "valid A d"
  shows "valid A (AtaIoWait M io d) \<and> pending A (AtaIoWait M io d) = pending A d"
  using ata_alt [OF assms(1)] assms(2) by (simp add: AtaIoWait_def Let_def)

lemma AtaWait_0_ok:
  assumes D: "ata_disk M io A img n" and "valid A d"
  obtains d' where "AtaWait M io 0 d = ret (0, d')" "valid A d'" "busy A d' = 0" "pending A d' = pending A d"
proof -
  note w = AtaIoWait_ok [OF assms]
  obtain st d' where s: "status_wait M (io + 7) (AtaIoWait M io d) = ret (st, d')"
      "valid A d'" "busy A d' = 0" "pending A d' = pending A (AtaIoWait M io d)"
    using status_wait_ok [OF D] w by metis
  then have "AtaWait M io 0 d = ret (0, d')" by (simp add: AtaWait_def AtaStatusWait_def)
  with s w show thesis using that by simp
qed

lemma AtaWait_1_ok:
  assumes D: "ata_disk M io A img n" and "valid A d" and "pending A d \<noteq> []"
  obtains d' where "AtaWait M io 1 d = ret (0, d')" "valid A d'" "busy A d' = 0" "pending A d' = pending A d"
proof -
  note w = AtaIoWait_ok [OF assms(1,2)]
  obtain st d' where s: "status_wait M (io + 7) (AtaIoWait M io d) = ret (st, d')"
      "valid A d'" "busy A d' = 0" "pending A d' = pending A (AtaIoWait M io d)"
    using status_wait_ok [OF D] w by metis
  obtain st2 d2 where i: "inb M (io + 7) d' = (st2, d2)" by (cases "inb M (io + 7) d'")
  have law: "status_law A d' (st2, d2)" using ata_status [OF D s(2)] i by simp
  have "AtaWait M io 1 d = ret (0, d2)" using law s w assms(3)
    by (simp add: AtaWait_def AtaStatusWait_def i status_law_def)
  then show thesis by (rule that) (use law s w assms(3) in \<open>simp_all add: status_law_def\<close>)
qed

subsection \<open>One sector\<close>

lemma drive_head_mode: "drive_head lba AND 80 = 64"
  by (simp add: drive_head_def bit.conj_disj_distrib2 unsigned_and_eq and.assoc)

lemma drive_head_lba:
  assumes "unat (lba :: u32) < 268435456"
  shows "unat (drive_head lba AND 15) = unat lba div 16777216"
proof -
  have "drive_head lba AND 15 = ucast (drop_bit 24 lba AND 15)"
    by (simp add: drive_head_def bit.conj_disj_distrib2 unsigned_and_eq and.assoc)
  moreover have "unat (drop_bit 24 lba AND 15) = unat lba div 16777216"
  proof -
    have "unat (drop_bit 24 lba AND 15) = drop_bit 24 (unat lba) AND 15"
      using unat_lt_2p32 [of lba] by (simp add: unsigned_and_eq unsigned_drop_bit_eq take_bit_nat_eq_self)
    also have "\<dots> = unat lba div 16777216 mod 16"
      using take_bit_eq_mask [of 4 "drop_bit 24 (unat lba)"]
      by (simp add: drop_bit_eq_div take_bit_eq_mod mask_eq_exp_minus_1)
    also have "\<dots> = unat lba div 16777216" using assms by simp
    finally show ?thesis .
  qed
  ultimately show ?thesis using assms by (simp add: unsigned_ucast_eq take_bit_eq_mod)
qed

lemma bytes_of_number:
  "n mod 256 + 256 * (n div 256 mod 256) + 65536 * (n div 65536 mod 256) + 16777216 * (n div 16777216) = (n :: nat)"
proof -
  define a b c where d1: "a = n div 256" "b = n div 256 div 256" "c = n div 256 div 256 div 256"
  define r0 r1 r2 where d2: "r0 = n mod 256" "r1 = n div 256 mod 256" "r2 = n div 256 div 256 mod 256"
  note d = d1 d2
  have "r0 + 256 * a = n" "r1 + 256 * b = a" "r2 + 256 * c = b" by (simp_all add: d)
  then have "r0 + 256 * r1 + 65536 * r2 + 16777216 * c = n" by simp
  moreover have "n div 65536 = b" "n div 16777216 = c" by (simp_all add: d div_mult2_eq [symmetric])
  ultimately show ?thesis by (simp add: d)
qed

lemma lba28_of_registers:
  assumes "unat (lba :: u32) < 268435456"
  shows "unat (ucast lba :: u8) + 256 * unat (ucast (drop_bit 8 lba) :: u8) +
    65536 * unat (ucast (drop_bit 16 lba) :: u8) + 16777216 * unat (drive_head lba AND 15) = unat lba"
proof -
  define n where "n = unat lba"
  show ?thesis using bytes_of_number [of n]
    by (simp add: drive_head_lba [OF assms] unsigned_ucast_eq take_bit_eq_mod drop_bit_eq_div unat_div n_def)
qed

lemma read_attempt_ok:
  assumes D: "ata_disk M io A img n" and dev: "device = AtaCreate io ty"
    and "valid A d" "pending A d = []" and lba: "unat lba < n" "unat lba < 268435456"
  obtains d' where "read_attempt M device lba d = ret (0, d')" "valid A d'" "busy A d' = 0"
    "pending A d' = sector_words img (unat lba)"
proof -
  have "valid A (outb M (io + 12) 2 d) \<and> pending A (outb M (io + 12) 2 d) = []"
    using ata_control [OF D] assms(3,4) by blast
  then obtain d1 where d1: "AtaWait M io 0 (outb M (io + 12) 2 d) = ret (0, d1)"
      "valid A d1" "busy A d1 = 0" "pending A d1 = []"
    using AtaWait_0_ok [OF D] by metis
  define d2 where "d2 = select_sector M device lba (outb M (io + 6) (drive_head lba) d1)"
  have d2: "valid A d2 \<and> busy A d2 = 0 \<and> pending A d2 = [] \<and>
      reg A d2 = (reg A d1)(6 := drive_head lba, 1 := 0, 2 := 1, 3 := ucast lba,
        4 := ucast (drop_bit 8 lba), 5 := ucast (drop_bit 16 lba))"
    using d1 by (simp add: d2_def select_sector_def dev AtaCreate_def ata_reg [OF D])
  have "lba28 (reg A d2) = unat lba"
    using d2 lba28_of_registers [OF lba(2)] by (simp add: lba28_def)
  then have "valid A (outb M (io + 7) ATA_CMD_READ_PIO d2)"
      "pending A (outb M (io + 7) ATA_CMD_READ_PIO d2) = sector_words img (unat lba)"
    using ata_read [OF D, of d2] d2 lba(1) by (simp_all add: one_sector_def drive_head_mode)
  moreover have "sector_words img (unat lba) \<noteq> []" by (simp add: sector_words_def)
  ultimately obtain d3 where d3: "AtaWait M io 1 (outb M (io + 7) ATA_CMD_READ_PIO d2) = ret (0, d3)"
      "valid A d3" "busy A d3 = 0" "pending A d3 = sector_words img (unat lba)"
    using AtaWait_1_ok [OF D] by metis
  have "read_attempt M device lba d = ret (0, d3)"
    using d1(1) d3(1) by (simp add: read_attempt_def dev AtaCreate_def d2_def Let_def)
  with d3 show thesis using that by blast
qed

lemma word_bytes_word [simp]: "word_bytes (bytes_word lo hi) = [lo, hi]"
proof -
  have "unat lo + 256 * unat hi < 65536"
    using unsigned_less [of lo, where ?'a = nat] unsigned_less [of hi, where ?'a = nat] by simp
  then have "unat (bytes_word lo hi) = unat lo + 256 * unat hi"
    unfolding bytes_word_def by (subst unat_of_nat) simp
  then show ?thesis
    using unsigned_less [of lo, where ?'a = nat] unsigned_less [of hi, where ?'a = nat]
    by (simp add: word_bytes_def word_unat_eq_iff unsigned_ucast_eq
        take_bit_eq_mod drop_bit_eq_div unat_div)
qed

text \<open>The data loop stores the bytes of the words the device has ready.\<close>

lemma read_words_ok:
  assumes D: "ata_disk M io A img n" and "p \<noteq> nullptr"
  shows "valid A (dev s) \<Longrightarrow> busy A (dev s) = 0 \<Longrightarrow> pending A (dev s) = ws \<Longrightarrow> bufs s p = Some bs \<Longrightarrow>
    pos + 2 * length ws \<le> length bs \<Longrightarrow>
    \<exists>d. valid A d \<and> pending A d = [] \<and> read_words M io (length ws) p pos s =
      ret (s\<lparr>dev := d, bufs := (bufs s)(p \<mapsto> patch pos (concat (map word_bytes ws)) bs)\<rparr>)"
proof (induction ws arbitrary: s pos bs)
  case Nil
  then show ?case by (intro exI [of _ "dev s"]) (cases s, simp add: fun_upd_idem)
next
  case (Cons w ws)
  obtain d1 where i: "inw M io (dev s) = (w, d1)" "valid A d1" "pending A d1 = ws" "ws \<noteq> [] \<longrightarrow> busy A d1 = 0"
    using ata_data [OF D Cons.prems(1,2,3)] by (cases "inw M io (dev s)") auto
  let ?bs = "patch pos (word_bytes w) bs"
  let ?s = "s\<lparr>dev := d1, bufs := (bufs s)(p \<mapsto> ?bs)\<rparr>"
  have len: "length (word_bytes w) = 2" by (simp add: word_bytes_def)
  have wr: "wr_bytes p pos (word_bytes w) (s\<lparr>dev := d1\<rparr>) = ret ?s"
    using Cons.prems assms(2) len by simp
  have sp: "patch (pos + 2) (concat (map word_bytes ws)) ?bs = patch pos (concat (map word_bytes (w # ws))) bs"
  proof -
    have "length (concat (map word_bytes ws)) = 2 * length ws"
      by (induction ws) (simp_all add: word_bytes_def)
    then show ?thesis using patch_append [of pos "word_bytes w" "concat (map word_bytes ws)" bs] Cons.prems(5) len
      by simp
  qed
  have first: "read_words M io (length (w # ws)) p pos s = read_words M io (length ws) p (pos + 2) ?s"
    by (simp add: i wr)
  have upd: "?s\<lparr>dev := d, bufs := (bufs ?s)(p \<mapsto> x)\<rparr> = s\<lparr>dev := d, bufs := (bufs s)(p \<mapsto> x)\<rparr>" for d x
    by simp
  show ?case
  proof (cases ws)
    case Nil
    have "read_words M io (length ws) p (pos + 2) ?s = ret ?s" by (simp add: Nil)
    moreover have "?bs = patch pos (concat (map word_bytes (w # ws))) bs" by (simp add: Nil)
    ultimately show ?thesis unfolding first using i(2,3) Nil by metis
  next
    case (Cons w' ws')
    then have "\<exists>d. valid A d \<and> pending A d = [] \<and> read_words M io (length ws) p (pos + 2) ?s =
        ret (?s\<lparr>dev := d, bufs := (bufs ?s)(p \<mapsto> patch (pos + 2) (concat (map word_bytes ws)) ?bs)\<rparr>)"
      using i Cons.prems(5) len by (intro Cons.IH) simp_all
    then show ?thesis unfolding first upd sp .
  qed
qed

definition disk_bytes :: "(nat \<Rightarrow> u8) \<Rightarrow> nat \<Rightarrow> nat \<Rightarrow> u8 list" where
  "disk_bytes img pos n = map img [pos..<pos + n]"

lemma length_disk_bytes [simp]: "length (disk_bytes img pos n) = n"
  by (simp add: disk_bytes_def)

lemma disk_bytes_append: "disk_bytes img pos m @ disk_bytes img (pos + m) n = disk_bytes img pos (m + n)"
  by (simp add: disk_bytes_def upt_add_eq_append [of pos "pos + m" n] flip: add.assoc)

lemma take_drop_disk_bytes:
  "i + n \<le> m \<Longrightarrow> take n (drop i (disk_bytes img pos m)) = disk_bytes img (pos + i) n"
  by (simp add: disk_bytes_def drop_map take_map drop_upt take_upt)

lemma sector_words_bytes: "concat (map word_bytes (sector_words img lba)) = disk_bytes img (512 * lba) 512"
proof -
  have "concat (map (\<lambda>i. [img (b + 2 * i), img (b + 2 * i + 1)]) [0..<k]) = map img [b..<b + 2 * k]" for b k
    by (induction k) simp_all
  from this [of "512 * lba" 256] show ?thesis
    by (simp add: sector_words_def disk_bytes_def o_def)
qed

lemma AtaReadSectorPio_ok:
  assumes D: "ata_disk M io A img n" and dev: "device = AtaCreate io ty" and p: "p \<noteq> nullptr"
    and s: "valid A (dev s)" "pending A (dev s) = []" "bufs s p = Some bs" "pos + 512 \<le> length bs"
    and lba: "unat lba < n" "unat lba < 268435456"
  obtains d where "valid A d" "pending A d = []"
    "AtaReadSectorPio M device p pos lba s =
      ret (0, s\<lparr>dev := d, bufs := (bufs s)(p \<mapsto> patch pos (disk_bytes img (512 * unat lba) 512) bs)\<rparr>)"
proof -
  obtain d1 where d1: "read_attempt M device lba (dev s) = ret (0, d1)" "valid A d1" "busy A d1 = 0"
      "pending A d1 = sector_words img (unat lba)"
    using read_attempt_ok [OF D dev s(1,2) lba] by metis
  have tr: "try_read M device lba 0 (dev s) = ret (0, d1)" by (subst try_read.simps) (simp add: d1)
  let ?s1 = "s\<lparr>dev := d1\<rparr>"
  have len: "length (sector_words img (unat lba)) = 256" by (simp add: sector_words_def)
  obtain d2 where d2: "valid A d2" "pending A d2 = []" "read_words M io 256 p pos ?s1 =
      ret (?s1\<lparr>dev := d2, bufs := (bufs ?s1)(p \<mapsto> patch pos (disk_bytes img (512 * unat lba) 512) bs)\<rparr>)"
    using read_words_ok [OF D p, of ?s1 "sector_words img (unat lba)" bs pos] d1 s len
    by (auto simp: sector_words_bytes)
  obtain d3 where d3: "AtaWait M io 0 d2 = ret (0, d3)" "valid A d3" "pending A d3 = []"
    using AtaWait_0_ok [OF D d2(1)] d2(2) by metis
  show thesis
    by (rule that [OF d3(2,3)]) (use tr d2(3) d3(1) dev in \<open>simp add: AtaReadSectorPio_def AtaCreate_def\<close>)
qed

lemma read_sectors_ok:
  assumes D: "ata_disk M io A img n" and dev: "device = AtaCreate io ty" and p: "p \<noteq> nullptr"
  shows "valid A (dev s) \<Longrightarrow> pending A (dev s) = [] \<Longrightarrow> bufs s p = Some bs \<Longrightarrow> pos + 512 * k \<le> length bs \<Longrightarrow>
    unat lba + k \<le> n \<Longrightarrow> unat lba + k \<le> 268435456 \<Longrightarrow>
    \<exists>d. valid A d \<and> pending A d = [] \<and> read_sectors M device k p pos lba s =
      ret (0, s\<lparr>dev := d, bufs := (bufs s)(p \<mapsto> patch pos (disk_bytes img (512 * unat lba) (512 * k)) bs)\<rparr>)"
proof (induction k arbitrary: s pos bs lba)
  case 0
  then show ?case by (intro exI [of _ "dev s"]) (cases s, simp add: fun_upd_idem disk_bytes_def)
next
  case (Suc k)
  obtain d1 where d1: "valid A d1" "pending A d1 = []" "AtaReadSectorPio M device p pos lba s =
      ret (0, s\<lparr>dev := d1, bufs := (bufs s)(p \<mapsto> patch pos (disk_bytes img (512 * unat lba) 512) bs)\<rparr>)"
    using AtaReadSectorPio_ok [OF D dev p Suc.prems(1-3), of pos lba] Suc.prems(4-6) by auto
  let ?bs = "patch pos (disk_bytes img (512 * unat lba) 512) bs"
  let ?s = "s\<lparr>dev := d1, bufs := (bufs s)(p \<mapsto> ?bs)\<rparr>"
  have next_lba: "unat (lba + 1) = unat lba + 1" if "k > 0"
    using Suc.prems(6) that unat_add_nowrap [of lba 1] by simp
  show ?case
  proof (cases "k = 0")
    case True
    with d1 show ?thesis by (intro exI [of _ d1]) (simp add: fun_upd_def)
  next
    case False
    note nl = next_lba [OF False [unfolded neq0_conv]]
    have "\<exists>d. valid A d \<and> pending A d = [] \<and> read_sectors M device k p (pos + 512) (lba + 1) ?s =
        ret (0, ?s\<lparr>dev := d, bufs := (bufs ?s)(p \<mapsto>
          patch (pos + 512) (disk_bytes img (512 * unat (lba + 1)) (512 * k)) ?bs)\<rparr>)"
      using Suc.prems d1 nl by (intro Suc.IH) simp_all
    then obtain d where d: "valid A d" "pending A d = []" "read_sectors M device k p (pos + 512) (lba + 1) ?s =
        ret (0, ?s\<lparr>dev := d, bufs := (bufs ?s)(p \<mapsto>
          patch (pos + 512) (disk_bytes img (512 * unat (lba + 1)) (512 * k)) ?bs)\<rparr>)"
      by blast
    have p: "patch (pos + 512) (disk_bytes img (512 * unat (lba + 1)) (512 * k)) ?bs =
        patch pos (disk_bytes img (512 * unat lba) (512 * Suc k)) bs"
      using patch_append [of pos "disk_bytes img (512 * unat lba) 512" "disk_bytes img (512 * unat lba + 512) (512 * k)" bs]
        Suc.prems(4) nl by (simp add: disk_bytes_append add.commute [of 512 "512 * unat lba"])
    have u: "?s\<lparr>dev := d, bufs := (bufs ?s)(p \<mapsto> x)\<rparr> = s\<lparr>dev := d, bufs := (bufs s)(p \<mapsto> x)\<rparr>" for x
      by simp
    show ?thesis
      using d(1,2) d(3) [unfolded p u] d1(3) by (intro exI [of _ d] conjI) (simp_all add: fun_upd_def)
  qed
qed

subsection \<open>A range of bytes\<close>

text \<open>
  \<^verbatim>\<open>AtaRead\<close> reads the sectors that contain the range and one more when the range ends at a
  sector boundary: that sector must exist too. \<open>range_ok\<close> says so, and that the range is one that 28-bit
  sector numbers and the sign of the size allow.
\<close>

definition range_ok :: "nat \<Rightarrow> u32 \<Rightarrow> u32 \<Rightarrow> bool" where
  "range_ok n offset sz \<longleftrightarrow> unat offset + unat sz < 512 * n \<and> unat offset + unat sz < 4294967296 \<and> unat sz < 1073741824"

definition sectors_of :: "u32 \<Rightarrow> u32 \<Rightarrow> nat" where
  "sectors_of offset sz = (unat offset + unat sz) div 512 - unat offset div 512 + 1"

definition read_size :: "u32 \<Rightarrow> u32 \<Rightarrow> int" where
  "read_size offset sz = int (512 * sectors_of offset sz)"

lemma sectors_of_bounds:
  assumes "range_ok n offset sz"
  shows "unat offset div 512 + sectors_of offset sz \<le> n" "sectors_of offset sz \<le> 2097153"
    "unat offset mod 512 + unat sz \<le> 512 * sectors_of offset sz" "unat offset div 512 + sectors_of offset sz < 268435456"
proof -
  let ?o = "unat offset" and ?z = "unat sz"
  have le: "?o div 512 \<le> (?o + ?z) div 512" by (rule div_le_mono) simp
  have e: "?o div 512 + sectors_of offset sz = (?o + ?z) div 512 + 1" using le by (simp add: sectors_of_def)
  have "(?o + ?z) div 512 < n" using assms by (simp add: range_ok_def div_less_iff_less_mult mult.commute)
  then show "?o div 512 + sectors_of offset sz \<le> n" using e by simp
  have "(?o + ?z) div 512 < 8388608" using assms by (simp add: range_ok_def div_less_iff_less_mult)
  then show "?o div 512 + sectors_of offset sz < 268435456" using e by simp
  have "(?o + ?z) div 512 \<le> ?o div 512 + ?z div 512 + 1" by linarith
  moreover have "?z div 512 < 2097152" using assms by (simp add: range_ok_def div_less_iff_less_mult)
  ultimately show "sectors_of offset sz \<le> 2097153" using e by simp
  have "?o + ?z < 512 * ((?o + ?z) div 512 + 1)" using dividend_less_div_times [of 512 "?o + ?z"] by simp
  moreover have "512 * (?o div 512) + 512 * sectors_of offset sz = 512 * ((?o + ?z) div 512 + 1)"
    using e by (simp add: distrib_left [symmetric] del: distrib_left_numeral)
  moreover have "512 * (?o div 512) + ?o mod 512 = ?o" by simp
  ultimately show "?o mod 512 + ?z \<le> 512 * sectors_of offset sz" by linarith
qed

lemma sint_unat_u32:
  assumes "unat (x :: u32) < 2147483648"
  shows "sint x = int (unat x)"
proof -
  have "sint x = sint (of_nat (unat x) :: u32)" by simp
  also have "\<dots> = int (unat x)" by (rule sint_of_nat_u32 [OF assms])
  finally show ?thesis .
qed

text \<open>The numbers \<^verbatim>\<open>AtaRead\<close> computes.\<close>

lemma read_arith:
  assumes "range_ok n offset sz"
  defines "nb \<equiv> (offset + sz) div 512 - offset div 512 + 1"
  shows "nat (sint nb) = sectors_of offset sz" "sint (nb * 512) = read_size offset sz"
    "unat (offset div 512) = unat offset div 512" "unat (offset mod 512) = unat offset mod 512"
    "sint sz = int (unat sz)"
proof -
  note b = sectors_of_bounds [OF assms(1)]
  show u: "unat (offset div 512) = unat offset div 512" "unat (offset mod 512) = unat offset mod 512"
    by (simp_all add: unat_div unat_mod)
  have add: "unat (offset + sz) = unat offset + unat sz" using assms(1) by (intro unat_add_nowrap) (simp add: range_ok_def)
  have "unat offset div 512 \<le> (unat offset + unat sz) div 512" by (rule div_le_mono) simp
  moreover have "unat ((offset + sz) div 512) = (unat offset + unat sz) div 512" using add by (simp add: unat_div)
  ultimately have "unat ((offset + sz) div 512 - offset div 512) + 1 = sectors_of offset sz"
    using u(1) by (simp add: sectors_of_def unat_sub_nowrap word_le_nat_alt)
  then have "unat nb = sectors_of offset sz"
    unfolding nb_def using b(2) by (subst unat_add_nowrap) simp_all
  then have nb: "nb = of_nat (sectors_of offset sz)" using b(2) by (intro u32_eqI) (simp add: unat_of_nat_u32)
  show "nat (sint nb) = sectors_of offset sz" unfolding nb using b(2) by (subst sint_of_nat_u32) simp_all
  have "nb * 512 = of_nat (512 * sectors_of offset sz)" unfolding nb by (simp add: mult.commute)
  then show "sint (nb * 512) = read_size offset sz"
    using b(2) by (simp only: read_size_def) (subst sint_of_nat_u32, simp_all)
  show "sint sz = int (unat sz)" using assms(1) by (intro sint_unat_u32) (simp add: range_ok_def)
qed

context prog_heap
begin

text \<open>
  The sectors that contain the range come into a buffer of the driver's own, \<open>q\<close>; what
  \<^verbatim>\<open>AtaRead\<close> has left to do is to copy the range and give the buffer back.
\<close>

lemma AtaRead_sectors:
  assumes D: "ata_disk M io A img n" and dev: "device = AtaCreate io ty"
    and s: "valid A (dev s)" "pending A (dev s) = []"
    and heap: "bufs_ok invar live s" "ready (read_size offset sz # ns) (lheap s)" and range: "range_ok n offset sz"
  obtains q d h where "AtaRead M device p offset sz s =
      andThen (buf_copy q (unat offset mod 512) p 0 sz (s\<lparr>lheap := h, irqs := False, dev := d, bufs := (bufs s)(q \<mapsto>
          disk_bytes img (512 * (unat offset div 512)) (512 * sectors_of offset sz))\<rparr>))
        (\<lambda>s3. andThen (buf_free M q s3) (\<lambda>s4. ret (int (unat sz), s4\<lparr>irqs := True\<rparr>)))"
      "q \<noteq> nullptr" "q \<notin> live (lheap s)" "live h = insert q (live (lheap s))" "invar h" "ready ns h"
      "valid A d" "pending A d = []"
proof -
  note ra = read_arith [OF range] and sb = sectors_of_bounds [OF range]
  have size: "0 < read_size offset sz" "read_size offset sz < 2147483648"
    using sb(2) by (simp_all add: read_size_def sectors_of_def)
  have ok: "invar (lheap s)" using heap(1) by (auto simp: bufs_ok_def)
  obtain q h where a: "heap_alloc M (read_size offset sz) (lheap s) = ret (q, h)"
      "buf_alloc M (read_size offset sz) s =
        ret (q, s\<lparr>lheap := h, bufs := (bufs s)(q \<mapsto> map (fresh s q) [0..<nat (read_size offset sz)])\<rparr>)"
      "q \<noteq> nullptr" "q \<notin> live (lheap s)" "live h = insert q (live (lheap s))" "invar h" "ready ns h"
    by (rule buf_alloc_ok [OF ok size heap(2)])
  let ?k = "sectors_of offset sz" and ?raw = "map (fresh s q) [0..<nat (read_size offset sz)]"
  let ?s1 = "s\<lparr>lheap := h, bufs := (bufs s)(q \<mapsto> ?raw), irqs := False\<rparr>"
  have raw: "length ?raw = 512 * ?k" by (simp only: length_map length_upt read_size_def nat_int diff_zero)
  obtain d where d: "valid A d" "pending A d = []" "read_sectors M device ?k q 0 (offset div 512) ?s1 =
      ret (0, ?s1\<lparr>dev := d, bufs := (bufs ?s1)(q \<mapsto>
        patch 0 (disk_bytes img (512 * unat (offset div 512)) (512 * ?k)) ?raw)\<rparr>)"
    using read_sectors_ok [OF D dev a(3), of ?s1 ?raw 0 ?k "offset div 512"] s raw sb ra(3) by auto
  have full: "patch 0 (disk_bytes img (512 * unat (offset div 512)) (512 * ?k)) ?raw =
      disk_bytes img (512 * (unat offset div 512)) (512 * ?k)"
    unfolding ra(3) by (rule patch_whole) (simp only: raw length_disk_bytes)
  have rs: "read_sectors M device ?k q 0 (offset div 512) ?s1 = ret (0, s\<lparr>lheap := h, irqs := False, dev := d,
      bufs := (bufs s)(q \<mapsto> disk_bytes img (512 * (unat offset div 512)) (512 * ?k))\<rparr>)"
    using d(3) unfolding full by simp
  have "AtaRead M device p offset sz s =
      andThen (buf_copy q (unat offset mod 512) p 0 sz (s\<lparr>lheap := h, irqs := False, dev := d, bufs := (bufs s)(q \<mapsto>
          disk_bytes img (512 * (unat offset div 512)) (512 * ?k))\<rparr>))
        (\<lambda>s3. andThen (buf_free M q s3) (\<lambda>s4. ret (int (unat sz), s4\<lparr>irqs := True\<rparr>)))"
    using a(2,3) rs ra by (simp add: AtaRead_def Let_def)
  then show thesis by (rule that) (use d a in auto)
qed

text \<open>The piece of the sectors that is copied is the range asked for.\<close>

lemma range_piece:
  assumes "range_ok n offset sz"
  shows "take (unat sz) (drop (unat offset mod 512) (disk_bytes img (512 * (unat offset div 512)) (512 * sectors_of offset sz))) =
      disk_bytes img (unat offset) (unat sz)"
  using take_drop_disk_bytes [OF sectors_of_bounds(3) [OF assms], of img "512 * (unat offset div 512)"] by simp

text \<open>
  \<^verbatim>\<open>AtaRead\<close> stores the bytes of the disk in the caller's buffer; its own buffer is given
  back, and no other buffer has changed.
\<close>

lemma AtaRead_ok:
  assumes D: "ata_disk M io A img n" and dev: "device = AtaCreate io ty"
    and s: "valid A (dev s)" "pending A (dev s) = []"
    and heap: "bufs_ok invar live s" "ready (read_size offset sz # ns) (lheap s)"
    and buf: "bufs s p = Some bs" "unat sz \<le> length bs" and range: "range_ok n offset sz"
  obtains d h where "AtaRead M device p offset sz s = ret (int (unat sz),
      s\<lparr>lheap := h, dev := d, irqs := True, bufs := (bufs s)(p \<mapsto> patch 0 (disk_bytes img (unat offset) (unat sz)) bs)\<rparr>)"
      "valid A d" "pending A d = []" "invar h" "live h = live (lheap s)" "ready ns h"
proof -
  have ok: "dom (bufs s) \<subseteq> live (lheap s)" "nullptr \<notin> dom (bufs s)" using heap(1) by (auto simp: bufs_ok_def)
  let ?secs = "disk_bytes img (512 * (unat offset div 512)) (512 * sectors_of offset sz)"
  obtain q d h where q: "AtaRead M device p offset sz s =
      andThen (buf_copy q (unat offset mod 512) p 0 sz (s\<lparr>lheap := h, irqs := False, dev := d, bufs := (bufs s)(q \<mapsto> ?secs)\<rparr>))
        (\<lambda>s3. andThen (buf_free M q s3) (\<lambda>s4. ret (int (unat sz), s4\<lparr>irqs := True\<rparr>)))"
      "q \<noteq> nullptr" "q \<notin> live (lheap s)" "live h = insert q (live (lheap s))" "invar h" "ready ns h"
      "valid A d" "pending A d = []"
    by (rule AtaRead_sectors [OF D dev s heap range])
  have qp: "p \<noteq> q" "p \<noteq> nullptr" using buf(1) ok q(2,3) by auto
  let ?s2 = "s\<lparr>lheap := h, irqs := False, dev := d, bufs := (bufs s)(q \<mapsto> ?secs)\<rparr>"
  let ?new = "patch 0 (disk_bytes img (unat offset) (unat sz)) bs"
  have copy: "buf_copy q (unat offset mod 512) p 0 sz ?s2 = ret (?s2\<lparr>bufs := (bufs ?s2)(p \<mapsto> ?new)\<rparr>)"
    using buf_copy_ok [of q p ?s2 ?secs bs "unat offset mod 512" sz 0]
      q(2) qp buf sectors_of_bounds(3) [OF range] range_piece [OF range] by simp
  let ?s3 = "?s2\<lparr>bufs := (bufs ?s2)(p \<mapsto> ?new)\<rparr>"
  obtain h' where h': "buf_free M q ?s3 = ret (?s3\<lparr>lheap := h', bufs := (bufs ?s3)(q := None)\<rparr>)"
      "live h' = live (lheap ?s3) - {q}" "invar h'" "\<And>ns. ready ns (lheap ?s3) \<Longrightarrow> ready ns h'"
    using buf_free_live [of ?s3 q] q(2,4,5) by auto
  have bufq: "bufs s q = None" using ok(1) q(3) by (cases "bufs s q") auto
  have upd: "((bufs s)(q \<mapsto> x, p \<mapsto> y))(q := None) = (bufs s)(p \<mapsto> y)" for x y
    using qp(1) bufq by (auto simp: fun_eq_iff)
  have "AtaRead M device p offset sz s = ret (int (unat sz),
      s\<lparr>lheap := h', dev := d, irqs := True, bufs := (bufs s)(p \<mapsto> ?new)\<rparr>)"
    unfolding q(1) copy using h'(1) upd by (simp add: fun_upd_twist)
  then show thesis by (rule that) (use q h' in auto)
qed

text \<open>A buffer that is smaller than the range is written past its end.\<close>

lemma AtaRead_overflow:
  assumes D: "ata_disk M io A img n" and dev: "device = AtaCreate io ty"
    and s: "valid A (dev s)" "pending A (dev s) = []"
    and heap: "bufs_ok invar live s" "ready (read_size offset sz # ns) (lheap s)"
    and buf: "bufs s p = Some bs" "length bs < unat sz" and range: "range_ok n offset sz"
  shows "AtaRead M device p offset sz s = halt BadAccess"
proof -
  have ok: "dom (bufs s) \<subseteq> live (lheap s)" "nullptr \<notin> dom (bufs s)" using heap(1) by (auto simp: bufs_ok_def)
  let ?secs = "disk_bytes img (512 * (unat offset div 512)) (512 * sectors_of offset sz)"
  obtain q d h where q: "AtaRead M device p offset sz s =
      andThen (buf_copy q (unat offset mod 512) p 0 sz (s\<lparr>lheap := h, irqs := False, dev := d, bufs := (bufs s)(q \<mapsto> ?secs)\<rparr>))
        (\<lambda>s3. andThen (buf_free M q s3) (\<lambda>s4. ret (int (unat sz), s4\<lparr>irqs := True\<rparr>)))"
      "q \<noteq> nullptr" "q \<notin> live (lheap s)"
    by (rule AtaRead_sectors [OF D dev s heap range])
  have qp: "p \<noteq> q" "p \<noteq> nullptr" using buf(1) ok q(2,3) by auto
  let ?s2 = "s\<lparr>lheap := h, irqs := False, dev := d, bufs := (bufs s)(q \<mapsto> ?secs)\<rparr>"
  have len: "length (disk_bytes img (unat offset) (unat sz)) = unat sz" by simp
  have ne: "disk_bytes img (unat offset) (unat sz) \<noteq> []" using buf(2) len by (metis list.size(3) not_less_zero)
  have "rd_bytes q (unat offset mod 512) (unat sz) ?s2 = ret (disk_bytes img (unat offset) (unat sz))"
    using rd_bytes_ok [OF q(2), of ?s2 ?secs] sectors_of_bounds(3) [OF range] range_piece [OF range] by simp
  moreover have "wr_bytes p 0 (disk_bytes img (unat offset) (unat sz)) ?s2 = halt BadAccess"
    using buf qp len ne by (intro wr_bytes_outside [of _ _ bs]) auto
  ultimately show ?thesis unfolding q(1) by (simp add: buf_copy_def)
qed

end

subsection \<open>On the heap of a user program\<close>

definition user_program :: "'d ports \<Rightarrow> ('d, user_heap) platform" where
  "user_program P = \<lparr>inb = inb P, outb = outb P, inw = inw P, outw = outw P,
     heap_alloc = user_HeapAlloc, heap_free = user_HeapFree\<rparr>"

lemma user_program_simps [simp]:
  "inb (user_program P) = inb P" "outb (user_program P) = outb P" "inw (user_program P) = inw P"
  "outw (user_program P) = outw P"
  "heap_alloc (user_program P) = user_HeapAlloc" "heap_free (user_program P) = user_HeapFree"
  by (simp_all add: user_program_def)

lemma ata_disk_user_program [simp]: "ata_disk (user_program P) io A img n = ata_disk P io A img n"
  by (simp add: ata_disk_def)

interpretation uprog: prog_heap "user_program P" user_live user_heap_ok user_ready "\<lambda>_. True" for P :: "'d ports"
proof (intro prog_heap.intro prog_heap_axioms.intro)
  show "heap_allocator (heap_alloc (user_program P)) (heap_free (user_program P)) user_live user_heap_ok user_ready (\<lambda>_. True)"
    using uheap.heap_allocator_axioms by simp
  fix n :: int and ns and h :: user_heap
  assume a: "user_heap_ok h" "0 < n" "n < 2147483648" "user_ready (n # ns) h"
  obtain p s' where "user_HeapAlloc n h = ret (p, s')" by (rule user_HeapAlloc_ok [OF a])
  then show "\<exists>p h'. heap_alloc (user_program P) n h = ret (p, h')" by simp
next
  fix n :: int and ns p and h h' :: user_heap
  assume a: "user_heap_ok h" "0 < n" "n < 2147483648" "user_ready (n # ns) h" and r: "heap_alloc (user_program P) n h = ret (p, h')"
  obtain q s' where "user_HeapAlloc n h = ret (q, s')" "q \<noteq> nullptr" "q \<notin> user_live h" "user_live s' = insert q (user_live h)"
    "user_heap_ok s'" "user_ready ns s'" "unat q + nat n < 4294967296"
    by (rule user_HeapAlloc_ok [OF a])
  with r show "unat p + nat n < 4294967296" by simp
qed simp

end
