(* ===== verification/Ext2_Properties.thy ===== *)
theory Ext2_Properties
  imports Ext2 Ata_Properties
begin

section \<open>What reading a file returns\<close>

text \<open>
  On a disk that follows the ATA contract, \<^verbatim>\<open>Ext2ReadFile\<close> returns the bytes of the
  blocks the inode lists, directly and through its indirect block, cut to the size of the file.
\<close>

subsection \<open>Blocks of the disk\<close>

definition block_bytes_of :: "(nat \<Rightarrow> u8) \<Rightarrow> u32 \<Rightarrow> u32 \<Rightarrow> u8 list" where
  "block_bytes_of img bsize b = disk_bytes img (unat b * unat bsize) (unat bsize)"

lemma length_block_bytes_of [simp]: "length (block_bytes_of img bsize b) = unat bsize"
  by (simp add: block_bytes_of_def)

text \<open>Block sizes are multiples of the sector size; a block and the sector behind it are on the disk.\<close>

definition bsize_ok :: "u32 \<Rightarrow> bool" where
  "bsize_ok bsize \<longleftrightarrow> 512 dvd unat bsize \<and> 0 < unat bsize \<and> unat bsize < 1073741824"

definition block_ok :: "nat \<Rightarrow> u32 \<Rightarrow> u32 \<Rightarrow> bool" where
  "block_ok n bsize b \<longleftrightarrow> unat b * unat bsize + unat bsize < 512 * n \<and> unat b * unat bsize + unat bsize < 4294967296"

definition io_size :: "u32 \<Rightarrow> int" where
  "io_size bsize = int (unat bsize + 512)"

lemma block_offset:
  assumes "block_ok n bsize b"
  shows "unat (b * bsize) = unat b * unat bsize"
  using assms by (intro unat_mult_nowrap) (simp add: block_ok_def)

lemma block_range:
  assumes "block_ok n bsize b" and "bsize_ok bsize"
  shows "range_ok n (b * bsize) bsize" "read_size (b * bsize) bsize = io_size bsize"
proof -
  show "range_ok n (b * bsize) bsize"
    using assms block_offset [OF assms(1)] by (simp add: range_ok_def block_ok_def bsize_ok_def)
  obtain k where k: "unat bsize = 512 * k" using assms(2) by (auto simp: bsize_ok_def)
  have "sectors_of (b * bsize) bsize = k + 1"
  proof -
    have "unat b * unat bsize + unat bsize = 512 * (unat b * k + k)" "unat b * unat bsize = 512 * (unat b * k)"
      unfolding k by (simp_all only: distrib_left mult.left_commute)
    then have "(unat b * unat bsize + unat bsize) div 512 = unat b * k + k" "unat b * unat bsize div 512 = unat b * k"
      by simp_all
    then show ?thesis unfolding sectors_of_def block_offset [OF assms(1)] by simp
  qed
  then show "read_size (b * bsize) bsize = io_size bsize" unfolding read_size_def io_size_def k by simp
qed

lemma bsize_int:
  assumes "bsize_ok bsize"
  shows "0 < int (unat bsize)" "int (unat bsize) < 2147483648" "sint bsize = int (unat bsize)"
proof -
  have u: "0 < unat bsize" "unat bsize < 1073741824" using assms by (simp_all add: bsize_ok_def)
  then show "0 < int (unat bsize)" "int (unat bsize) < 2147483648" by linarith+
  from u show "sint bsize = int (unat bsize)" by (intro sint_unat_u32) simp
qed

lemma patch_patch_same: "pos + length xs \<le> length bs \<Longrightarrow> length xs = length ys \<Longrightarrow> patch pos ys (patch pos xs bs) = patch pos ys bs"
  by (simp add: patch_def)

lemma diff_min: "(a :: nat) - min a b = a - b"
  by simp

lemma take_block_split:
  "take fs (blk @ rest) = take fs blk @ take (fs - length blk) rest"
  by simp

context prog_heap
begin

text \<open>One round of the copy loops.\<close>

lemma copy_block_ok:
  assumes D: "ata_disk M io A img n" and dev: "dv = AtaCreate io ty"
    and s: "valid A (dev s)" "pending A (dev s) = []"
    and heap: "bufs_ok invar live s" "ready (io_size bsize # ns) (lheap s)"
    and b: "block_ok n bsize b" "bsize_ok bsize"
    and buf: "bufs s block = Some old" "length old = unat bsize" "bufs s content = Some cs" "block \<noteq> content"
    and fits: "unat fo + unat fs = length cs"
  obtains d h where "copy_block M dv bsize block content b (fo, fs) s =
      ret (False, (fo + of_nat (min (unat fs) (unat bsize)), fs - of_nat (min (unat fs) (unat bsize))),
        s\<lparr>lheap := h, dev := d, irqs := True, bufs := (bufs s)(block \<mapsto> block_bytes_of img bsize b,
          content \<mapsto> patch (unat fo) (take (unat fs) (block_bytes_of img bsize b)) cs)\<rparr>)"
    "valid A d" "pending A d = []" "invar h" "live h = live (lheap s)" "ready ns h"
proof -
  note r = block_range [OF b] and o = block_offset [OF b(1)]
  have rd: "ready (read_size (b * bsize) bsize # ns) (lheap s)" using heap(2) r(2) by simp
  have le: "unat bsize \<le> length old" using buf(2) by simp
  obtain d h where a: "AtaRead M dv block (b * bsize) bsize s = ret (int (unat bsize),
      s\<lparr>lheap := h, dev := d, irqs := True,
        bufs := (bufs s)(block \<mapsto> patch 0 (disk_bytes img (unat (b * bsize)) (unat bsize)) old)\<rparr>)"
      "valid A d" "pending A d = []" "invar h" "live h = live (lheap s)" "ready ns h"
    by (rule AtaRead_ok [OF D dev s heap(1) rd buf(1) le r(1)])
  let ?blk = "block_bytes_of img bsize b"
  have blk: "patch 0 (disk_bytes img (unat (b * bsize)) (unat bsize)) old = ?blk"
    unfolding o block_bytes_of_def by (rule patch_whole) (simp add: buf(2))
  let ?s1 = "s\<lparr>lheap := h, dev := d, irqs := True, bufs := (bufs s)(block \<mapsto> ?blk)\<rparr>"
  let ?sz = "if fs > bsize then bsize else fs"
  have sz: "unat ?sz = min (unat fs) (unat bsize)" by (simp add: word_less_nat_alt min_def)
  have szw: "?sz = of_nat (min (unat fs) (unat bsize))" unfolding sz [symmetric] by simp
  have nz: "block \<noteq> nullptr" "content \<noteq> nullptr" using heap(1) buf(1,3) by (auto simp: bufs_ok_def)
  have tk: "take (unat ?sz) ?blk = take (unat fs) ?blk" unfolding sz by (simp add: min_def)
  have copy: "buf_copy block 0 content (unat fo) ?sz ?s1 =
      ret (?s1\<lparr>bufs := (bufs ?s1)(content \<mapsto> patch (unat fo) (take (unat fs) ?blk) cs)\<rparr>)"
    using buf_copy_ok [of block content ?s1 ?blk cs 0 ?sz "unat fo"] nz buf(3,4) sz fits tk by simp
  have "copy_block M dv bsize block content b (fo, fs) s = ret (False, (fo + ?sz, fs - ?sz),
      s\<lparr>lheap := h, dev := d, irqs := True, bufs := (bufs s)(block \<mapsto> ?blk, content \<mapsto> patch (unat fo) (take (unat fs) ?blk) cs)\<rparr>)"
    using a(1) copy unfolding blk by (simp add: copy_block_def Let_def)
  then show thesis unfolding szw by (rule that) (use a in auto)
qed

text \<open>
  What the reads of a file change: the block buffer, the content, and the device and the heap behind them.
\<close>

definition copied ::
  "'d ata_view \<Rightarrow> int list \<Rightarrow> addr \<Rightarrow> addr \<Rightarrow> u8 list \<Rightarrow> ('h, 'd, 'z) ext2_scheme \<Rightarrow> ('h, 'd, 'z) ext2_scheme \<Rightarrow> bool" where
  "copied A ns block content new s s' \<longleftrightarrow> (\<exists>d h q old.
     s' = s\<lparr>lheap := h, dev := d, irqs := q, bufs := (bufs s)(block \<mapsto> old, content \<mapsto> new)\<rparr> \<and>
     length old = length (the (bufs s block)) \<and> valid A d \<and> pending A d = [] \<and> invar h \<and> live h = live (lheap s) \<and> ready ns h)"

lemma copied_trans:
  assumes "copied A ms block content new s s1" and "copied A ns block content new' s1 s2" and "block \<noteq> content"
  shows "copied A ns block content new' s s2"
proof -
  obtain d h q old where 1: "s1 = s\<lparr>lheap := h, dev := d, irqs := q, bufs := (bufs s)(block \<mapsto> old, content \<mapsto> new)\<rparr>"
     "length old = length (the (bufs s block))" "live h = live (lheap s)" using assms(1) by (auto simp: copied_def)
  obtain d' h' q' old' where 2: "s2 = s1\<lparr>lheap := h', dev := d', irqs := q', bufs := (bufs s1)(block \<mapsto> old', content \<mapsto> new')\<rparr>"
     "length old' = length (the (bufs s1 block))" "valid A d'" "pending A d' = []" "invar h'" "live h' = live (lheap s1)" "ready ns h'"
    using assms(2) by (auto simp: copied_def)
  have "(bufs s1)(block \<mapsto> old', content \<mapsto> new') = (bufs s)(block \<mapsto> old', content \<mapsto> new')"
    unfolding 1(1) using assms(3) by (auto simp: fun_eq_iff)
  then have "s2 = s\<lparr>lheap := h', dev := d', irqs := q', bufs := (bufs s)(block \<mapsto> old', content \<mapsto> new')\<rparr>"
    unfolding 2(1) by (simp add: 1(1))
  moreover have "length old' = length (the (bufs s block))" using 2(2) 1(1,2) assms(3) by simp
  moreover have "live h' = live (lheap s)" using 2(6) 1(1,3) by simp
  ultimately show ?thesis using 2(3-5,7) unfolding copied_def by blast
qed

lemma copy_loop_ok:
  assumes D: "ata_disk M io A img n" and dev: "dv = AtaCreate io ty" and bs: "bsize_ok bsize"
    and neq: "block \<noteq> content" "tbl \<noteq> block" "tbl \<noteq> content"
    and ent: "\<And>s' j. bufs s' tbl = Some tb \<Longrightarrow> j < length es \<Longrightarrow> ent (i + j) s' = ret (es ! j)"
    and s: "valid A (dev s)" "pending A (dev s) = []" "bufs_ok invar live s"
      "ready (replicate (length (takeWhile (\<lambda>e. e \<noteq> 0) es)) (io_size bsize) @ ns) (lheap s)"
    and ok: "\<And>b. b \<in> set (takeWhile (\<lambda>e. e \<noteq> 0) es) \<Longrightarrow> block_ok n bsize b"
    and buf: "bufs s tbl = Some tb" "bufs s block = Some old" "length old = unat bsize" "bufs s content = Some cs"
    and fits: "unat fo + unat fs = length cs" "length cs < 4294967296"
  shows "\<exists>fo' fs' s'. copy_loop M dv bsize block content ent ent (length es) i (fo, fs) s = ret (False, (fo', fs'), s') \<and>
    unat fo' + unat fs' = length cs \<and>
    unat fo' = unat fo + min (unat fs) (unat bsize * length (takeWhile (\<lambda>e. e \<noteq> 0) es)) \<and>
    copied A ns block content
      (patch (unat fo) (take (unat fs) (concat (map (block_bytes_of img bsize) (takeWhile (\<lambda>e. e \<noteq> 0) es)))) cs) s s'"
  using ent s ok buf fits
proof (induction es arbitrary: i fo fs s old cs)
  case Nil
  then have "copied A ns block content cs s s"
    unfolding copied_def using Nil.prems(2-5,8-10)
    by (intro exI [of _ "dev s"] exI [of _ "lheap s"] exI [of _ "irqs s"] exI [of _ old])
       (cases s, auto simp: bufs_ok_def fun_upd_idem)
  with Nil show ?case by simp
next
  case (Cons e es)
  have e: "ent i s = ret e" using Cons.prems(1) [of s 0] Cons.prems(7) by simp
  show ?case
  proof (cases "e = 0")
    case True
    have "copied A ns block content cs s s"
      unfolding copied_def using Cons.prems(2-5,8-10) True
      by (intro exI [of _ "dev s"] exI [of _ "lheap s"] exI [of _ "irqs s"] exI [of _ old])
         (cases s, auto simp: bufs_ok_def fun_upd_idem)
    with True e Cons.prems(11) show ?thesis by simp
  next
    case False
    let ?es = "takeWhile (\<lambda>e. e \<noteq> 0) es"
    have bok: "block_ok n bsize e" using Cons.prems(6) False by simp
    have rd: "ready (io_size bsize # replicate (length ?es) (io_size bsize) @ ns) (lheap s)"
      using Cons.prems(5) False by simp
    let ?m = "min (unat fs) (unat bsize)" and ?blk = "block_bytes_of img bsize e"
    let ?cs = "patch (unat fo) (take (unat fs) ?blk) cs"
    obtain d h where c: "copy_block M dv bsize block content e (fo, fs) s =
        ret (False, (fo + of_nat ?m, fs - of_nat ?m),
          s\<lparr>lheap := h, dev := d, irqs := True, bufs := (bufs s)(block \<mapsto> ?blk, content \<mapsto> ?cs)\<rparr>)"
      "valid A d" "pending A d = []" "invar h" "live h = live (lheap s)"
      "ready (replicate (length ?es) (io_size bsize) @ ns) h"
      by (rule copy_block_ok [OF D dev Cons.prems(2-4) rd bok bs Cons.prems(8-10) neq(1) Cons.prems(11)])
    let ?s1 = "s\<lparr>lheap := h, dev := d, irqs := True, bufs := (bufs s)(block \<mapsto> ?blk, content \<mapsto> ?cs)\<rparr>"
    have mb: "?m \<le> unat fs" "?m < 4294967296" using unat_lt_2p32 [of fs] by auto
    have fo1: "unat (fo + of_nat ?m) = unat fo + ?m"
      using mb Cons.prems(11,12) by (subst unat_add_nowrap) (simp_all add: unat_of_nat_u32)
    have fs1: "unat (fs - of_nat ?m) = unat fs - ?m"
      using mb by (subst unat_sub_nowrap) (simp_all add: unat_of_nat_u32 word_le_nat_alt)
    have lcs: "length ?cs = length cs" using Cons.prems(11) by (intro length_patch) simp
    have copied1: "copied A (replicate (length ?es) (io_size bsize) @ ns) block content ?cs s ?s1"
      unfolding copied_def using c Cons.prems(8,9)
      by (intro exI [of _ d] exI [of _ h] exI [of _ True] exI [of _ ?blk]) simp
    have "\<exists>fo' fs' s'. copy_loop M dv bsize block content ent ent (length es) (Suc i)
        (fo + of_nat ?m, fs - of_nat ?m) ?s1 = ret (False, (fo', fs'), s') \<and>
      unat fo' + unat fs' = length ?cs \<and>
      unat fo' = unat (fo + of_nat ?m) + min (unat (fs - of_nat ?m)) (unat bsize * length ?es) \<and>
      copied A ns block content
        (patch (unat (fo + of_nat ?m)) (take (unat (fs - of_nat ?m)) (concat (map (block_bytes_of img bsize) ?es))) ?cs) ?s1 s'"
    proof (rule Cons.IH)
      show "bufs ?s1 block = Some ?blk" using neq(1) by simp
      show "ent (Suc i + j) s' = ret (es ! j)" if "bufs s' tbl = Some tb" "j < length es" for s' j
        using Cons.prems(1) [of s' "Suc j"] that by simp
      show "bufs_ok invar live ?s1" using c(4,5) Cons.prems(4,8,10) by (auto simp: bufs_ok_def)
      show "unat (fo + of_nat ?m) + unat (fs - of_nat ?m) = length ?cs"
        unfolding fo1 fs1 lcs using mb Cons.prems(11) by simp
    qed (use c Cons.prems(6-10,12) neq lcs False in auto)
    then obtain fo' fs' s' where r: "copy_loop M dv bsize block content ent ent (length es) (Suc i)
        (fo + of_nat ?m, fs - of_nat ?m) ?s1 = ret (False, (fo', fs'), s')"
      "unat fo' + unat fs' = length ?cs"
      "unat fo' = unat (fo + of_nat ?m) + min (unat (fs - of_nat ?m)) (unat bsize * length ?es)"
      "copied A ns block content
        (patch (unat (fo + of_nat ?m)) (take (unat (fs - of_nat ?m)) (concat (map (block_bytes_of img bsize) ?es))) ?cs) ?s1 s'"
      by blast
    have call: "copy_loop M dv bsize block content ent ent (length (e # es)) i (fo, fs) s = ret (False, (fo', fs'), s')"
      using e False c(1) r(1) by simp
    have m: "length (take (unat fs) ?blk) = ?m" by simp
    have rest: "unat fs - ?m = unat fs - length ?blk" by simp
    have "patch (unat (fo + of_nat ?m)) (take (unat (fs - of_nat ?m)) (concat (map (block_bytes_of img bsize) ?es))) ?cs =
        patch (unat fo) (take (unat fs) ?blk @ take (unat fs - ?m) (concat (map (block_bytes_of img bsize) ?es))) cs"
      unfolding fo1 fs1
      using patch_append [of "unat fo" "take (unat fs) ?blk" "take (unat fs - ?m) (concat (map (block_bytes_of img bsize) ?es))" cs]
        mb Cons.prems(11) unfolding m by simp
    also have "\<dots> = patch (unat fo) (take (unat fs) (concat (map (block_bytes_of img bsize) (takeWhile (\<lambda>e. e \<noteq> 0) (e # es))))) cs"
      using False diff_min [of "unat fs" "unat bsize"] by (simp add: take_block_split)
    finally have data: "patch (unat (fo + of_nat ?m)) (take (unat (fs - of_nat ?m)) (concat (map (block_bytes_of img bsize) ?es))) ?cs =
        patch (unat fo) (take (unat fs) (concat (map (block_bytes_of img bsize) (takeWhile (\<lambda>e. e \<noteq> 0) (e # es))))) cs" .
    have "copied A ns block content
        (patch (unat fo) (take (unat fs) (concat (map (block_bytes_of img bsize) (takeWhile (\<lambda>e. e \<noteq> 0) (e # es))))) cs) s s'"
      using copied_trans [OF copied1 r(4) neq(1)] unfolding data .
    moreover have "unat fo' = unat fo + min (unat fs) (unat bsize * length (takeWhile (\<lambda>e. e \<noteq> 0) (e # es)))"
      unfolding r(3) fo1 fs1 using False by (auto simp: min_def)
    ultimately show ?thesis using call r(2) lcs by metis
  qed
qed

end

subsection \<open>Members and tables\<close>

definition le32_at :: "u8 list \<Rightarrow> nat \<Rightarrow> u32" where
  "le32_at bs pos = of_nat (le_bytes (take 4 (drop pos bs)))"

lemma rd32_ok: "p \<noteq> nullptr \<Longrightarrow> bufs s p = Some bs \<Longrightarrow> pos + 4 \<le> length bs \<Longrightarrow> rd32 p pos s = ret (le32_at bs pos)"
  by (simp add: rd32_def le32_at_def)

definition direct_pointers :: "u8 list \<Rightarrow> u32 list" where
  "direct_pointers ib = map (\<lambda>i. le32_at ib (40 + 4 * i)) [0..<12]"

definition table_pointers :: "u8 list \<Rightarrow> u32 list" where
  "table_pointers tb = map (\<lambda>i. le32_at tb (4 * i)) [0..<length tb div 4]"

abbreviation used_prefix :: "u32 list \<Rightarrow> u32 list" where
  "used_prefix ps \<equiv> takeWhile (\<lambda>b. b \<noteq> 0) ps"

lemma inode_block_ok:
  "p \<noteq> nullptr \<Longrightarrow> bufs s p = Some ib \<Longrightarrow> 100 \<le> length ib \<Longrightarrow> i < 15 \<Longrightarrow> inode_block p i s = ret (le32_at ib (40 + 4 * i))"
  by (simp add: inode_block_def ext2_offsets rd32_ok)

lemma table_entry_ok:
  "p \<noteq> nullptr \<Longrightarrow> bufs s p = Some tb \<Longrightarrow> i < length tb div 4 \<Longrightarrow> table_entry p i s = ret (table_pointers tb ! i)"
  by (simp add: table_entry_def table_pointers_def rd32_ok)

lemma length_table_pointers [simp]: "length (table_pointers tb) = length tb div 4"
  by (simp add: table_pointers_def)

context prog_heap
begin

lemma copiedD:
  assumes "copied A ns block content new s s'"
  obtains d h q old where "s' = s\<lparr>lheap := h, dev := d, irqs := q, bufs := (bufs s)(block \<mapsto> old, content \<mapsto> new)\<rparr>"
     "length old = length (the (bufs s block))" "valid A d" "pending A d = []" "invar h" "live h = live (lheap s)" "ready ns h"
  using assms by (auto simp: copied_def)

text \<open>The part of a file behind its indirect block: the table stays allocated until the end.\<close>

lemma singly_part_ok:
  assumes D: "ata_disk M io A img n" and dev: "dv = AtaCreate io ty" and bs: "bsize_ok bsize"
    and neq: "block \<noteq> content" "inode \<noteq> nullptr"
    and s: "valid A (dev s)" "pending A (dev s) = []" "bufs_ok invar live s"
    and ib: "bufs s inode = Some ib" "100 \<le> length ib" and b12: "le32_at ib 88 = b" "b \<noteq> 0" "block_ok n bsize b"
    and tab: "tp = used_prefix (table_pointers (block_bytes_of img bsize b))" "\<And>x. x \<in> set tp \<Longrightarrow> block_ok n bsize x"
    and rd: "ready (int (unat bsize) # io_size bsize # replicate (length tp) (io_size bsize) @ ns) (lheap s)"
    and buf: "bufs s block = Some old" "length old = unat bsize" "bufs s content = Some cs"
    and fits: "unat fo + unat fs = length cs" "length cs < 4294967296"
  shows "\<exists>t fo' fs' d h q old' tb. singly_part M dv bsize inode block content (fo, fs) s =
    ret (STATUS_SUCCESS, t, (fo', fs'), s\<lparr>lheap := h, dev := d, irqs := q, bufs := (bufs s)(t \<mapsto> tb, block \<mapsto> old',
      content \<mapsto> patch (unat fo) (take (unat fs) (concat (map (block_bytes_of img bsize) tp))) cs)\<rparr>) \<and>
    t \<noteq> nullptr \<and> t \<notin> live (lheap s) \<and> invar h \<and> live h = insert t (live (lheap s)) \<and> ready ns h \<and>
    valid A d \<and> pending A d = []"
proof -
  have ok: "invar (lheap s)" "dom (bufs s) \<subseteq> live (lheap s)" using s(3) by (auto simp: bufs_ok_def)
  have bz: "0 < int (unat bsize)" "int (unat bsize) < 2147483648" "sint bsize = int (unat bsize)"
    by (rule bsize_int [OF bs])+
  obtain t h1 where a: "heap_alloc M (int (unat bsize)) (lheap s) = ret (t, h1)"
      "buf_alloc M (int (unat bsize)) s = ret (t, s\<lparr>lheap := h1, bufs := (bufs s)(t \<mapsto> map (fresh s t) [0..<nat (int (unat bsize))])\<rparr>)"
      "t \<noteq> nullptr" "t \<notin> live (lheap s)" "live h1 = insert t (live (lheap s))" "invar h1"
      "ready (io_size bsize # replicate (length tp) (io_size bsize) @ ns) h1"
    by (rule buf_alloc_ok [OF ok(1) bz(1,2) rd])
  let ?raw = "map (fresh s t) [0..<nat (int (unat bsize))]"
  let ?s1 = "s\<lparr>lheap := h1, bufs := (bufs s)(t \<mapsto> ?raw)\<rparr>"
  note r = block_range [OF b12(3) bs] and o = block_offset [OF b12(3)]
  have nt: "t \<noteq> block" "t \<noteq> content" "t \<noteq> inode" using a(4) ok(2) buf(1,3) ib(1) by auto
  have bok1: "bufs_ok invar live ?s1" using s(3) a(3,5,6) by (auto simp: bufs_ok_def)
  have lt: "bufs ?s1 t = Some ?raw" "unat bsize \<le> length ?raw" by simp_all
  have rd1: "ready (read_size (b * bsize) bsize # replicate (length tp) (io_size bsize) @ ns) (lheap ?s1)"
    using a(7) r(2) by simp
  have v1: "valid A (dev ?s1)" "pending A (dev ?s1) = []" using s by simp_all
  let ?tb = "block_bytes_of img bsize b"
  obtain d2 h2 where r2: "AtaRead M dv t (b * bsize) bsize ?s1 = ret (int (unat bsize),
      ?s1\<lparr>lheap := h2, dev := d2, irqs := True,
        bufs := (bufs ?s1)(t \<mapsto> patch 0 (disk_bytes img (unat (b * bsize)) (unat bsize)) ?raw)\<rparr>)"
      "valid A d2" "pending A d2 = []" "invar h2" "live h2 = live (lheap ?s1)"
      "ready (replicate (length tp) (io_size bsize) @ ns) h2"
    by (rule AtaRead_ok [OF D dev v1 bok1 rd1 lt r(1)])
  have pt: "patch 0 (disk_bytes img (unat (b * bsize)) (unat bsize)) ?raw = ?tb"
    unfolding o block_bytes_of_def by (rule patch_whole) simp
  let ?s2 = "s\<lparr>lheap := h2, dev := d2, irqs := True, bufs := (bufs s)(t \<mapsto> ?tb)\<rparr>"
  have read: "AtaRead M dv t (b * bsize) bsize ?s1 = ret (int (unat bsize), ?s2)" using r2(1) unfolding pt by simp
  have len: "length (table_pointers ?tb) = unat bsize div 4" by simp
  have "\<exists>fo' fs' s'. copy_loop M dv bsize block content (table_entry t) (table_entry t) (length (table_pointers ?tb)) 0 (fo, fs) ?s2 =
      ret (False, (fo', fs'), s') \<and> unat fo' + unat fs' = length cs \<and>
    unat fo' = unat fo + min (unat fs) (unat bsize * length (used_prefix (table_pointers ?tb))) \<and>
    copied A ns block content
      (patch (unat fo) (take (unat fs) (concat (map (block_bytes_of img bsize) (used_prefix (table_pointers ?tb))))) cs) ?s2 s'"
  proof (rule copy_loop_ok [OF D dev bs neq(1) nt(1,2)])
    show "bufs ?s2 t = Some ?tb" by simp
    show "table_entry t (0 + j) s' = ret (table_pointers ?tb ! j)"
      if "bufs s' t = Some ?tb" "j < length (table_pointers ?tb)" for s' :: "('h, 'd, 'z) ext2_scheme" and j
      using table_entry_ok [OF a(3) that(1)] that(2) by simp
    show "bufs ?s2 block = Some old" using nt buf by simp
    show "bufs ?s2 content = Some cs" using nt buf by simp
    show "bufs_ok invar live ?s2" using bok1 r2(4,5) a(5) by (auto simp: bufs_ok_def)
  qed (use r2 tab fits buf in auto)
  then obtain fo' fs' s' where c: "copy_loop M dv bsize block content (table_entry t) (table_entry t) (length (table_pointers ?tb)) 0 (fo, fs) ?s2 =
      ret (False, (fo', fs'), s')"
    "copied A ns block content
      (patch (unat fo) (take (unat fs) (concat (map (block_bytes_of img bsize) tp))) cs) ?s2 s'"
    unfolding tab(1) by blast
  let ?new = "patch (unat fo) (take (unat fs) (concat (map (block_bytes_of img bsize) tp))) cs"
  obtain d h q old' where f: "s' = ?s2\<lparr>lheap := h, dev := d, irqs := q, bufs := (bufs ?s2)(block \<mapsto> old', content \<mapsto> ?new)\<rparr>"
     "valid A d" "pending A d = []" "invar h" "live h = live (lheap ?s2)" "ready ns h"
    by (rule copiedD [OF c(2)])
  have ibl: "inode_block inode 12 s = ret b" using inode_block_ok [OF neq(2) ib, of 12] b12(1) by simp
  have "singly_part M dv bsize inode block content (fo, fs) s = ret (STATUS_SUCCESS, t, (fo', fs'), s')"
    using ibl b12(2) a(2,3) read c(1) unfolding len by (simp add: singly_part_def bz(3))
  moreover have "s' = s\<lparr>lheap := h, dev := d, irqs := q, bufs := (bufs s)(t \<mapsto> ?tb, block \<mapsto> old', content \<mapsto> ?new)\<rparr>"
    unfolding f(1) by simp
  ultimately show ?thesis using a(3-5) f(2-6) r2(5) by (intro exI conjI) auto
qed

end

subsection \<open>The file an inode describes\<close>

text \<open>
  The blocks of a file with direct and singly indirect pointers; each list ends at its first null
  pointer. The file is their content, cut to its size.
\<close>

definition file_pointers :: "(nat \<Rightarrow> u8) \<Rightarrow> u32 \<Rightarrow> u8 list \<Rightarrow> u32 list" where
  "file_pointers img bsize ib = used_prefix (direct_pointers ib) @
     (if le32_at ib 88 = 0 then [] else used_prefix (table_pointers (block_bytes_of img bsize (le32_at ib 88))))"

definition file_data :: "(nat \<Rightarrow> u8) \<Rightarrow> u32 \<Rightarrow> u8 list \<Rightarrow> u8 list" where
  "file_data img bsize ib = concat (map (block_bytes_of img bsize) (file_pointers img bsize ib))"

definition inode_ok :: "nat \<Rightarrow> (nat \<Rightarrow> u8) \<Rightarrow> u32 \<Rightarrow> u8 list \<Rightarrow> bool" where
  "inode_ok n img bsize ib \<longleftrightarrow> 100 \<le> length ib \<and> 0 < unat (le32_at ib 4) \<and> unat (le32_at ib 4) < 2147483648 \<and>
     le32_at ib 92 = 0 \<and> (le32_at ib 88 \<noteq> 0 \<longrightarrow> block_ok n bsize (le32_at ib 88)) \<and>
     (\<forall>b \<in> set (file_pointers img bsize ib). block_ok n bsize b)"

text \<open>The allocations, one after the other: each read of the disk takes a buffer.\<close>

definition file_needs :: "(nat \<Rightarrow> u8) \<Rightarrow> u32 \<Rightarrow> u8 list \<Rightarrow> int list" where
  "file_needs img bsize ib = int (unat (le32_at ib 4)) # int (unat bsize) #
     replicate (length (used_prefix (direct_pointers ib))) (io_size bsize) @
     (if le32_at ib 88 = 0 then []
      else int (unat bsize) # io_size bsize # replicate (length (used_prefix (table_pointers
        (block_bytes_of img bsize (le32_at ib 88))))) (io_size bsize))"

definition indirect_needs :: "(nat \<Rightarrow> u8) \<Rightarrow> u32 \<Rightarrow> u8 list \<Rightarrow> int list" where
  "indirect_needs img bsize ib = (if le32_at ib 88 = 0 then []
      else int (unat bsize) # io_size bsize # replicate (length (used_prefix (table_pointers
        (block_bytes_of img bsize (le32_at ib 88))))) (io_size bsize))"

definition direct_data :: "(nat \<Rightarrow> u8) \<Rightarrow> u32 \<Rightarrow> u8 list \<Rightarrow> u8 list" where
  "direct_data img bsize ib = concat (map (block_bytes_of img bsize) (used_prefix (direct_pointers ib)))"

lemma length_direct_pointers [simp]: "length (direct_pointers ib) = 12"
  by (simp add: direct_pointers_def)

lemma length_concat_blocks: "length (concat (map (block_bytes_of img bsize) ps)) = unat bsize * length ps"
  by (induction ps) simp_all

context prog_heap
begin

text \<open>The two allocations and the direct blocks.\<close>

lemma direct_part_ok:
  assumes D: "ata_disk M io A img n" and bs: "bsize_ok bsize"
    and s: "valid A (dev s)" "pending A (dev s) = []" "bufs_ok invar live s"
    and ib: "bufs s inode = Some ib" "inode_ok n img bsize ib"
    and rd: "ready (file_needs img bsize ib @ ns) (lheap s)"
  obtains p k h1 s2 fo fs d h q old where
    "buf_alloc M (int (unat (le32_at ib 4))) s =
       ret (p, s\<lparr>lheap := h1, bufs := (bufs s)(p \<mapsto> map (fresh s p) [0..<unat (le32_at ib 4)])\<rparr>)"
    "buf_alloc M (int (unat bsize)) (s\<lparr>lheap := h1, bufs := (bufs s)(p \<mapsto> map (fresh s p) [0..<unat (le32_at ib 4)])\<rparr>) = ret (k, s2)"
    "disks s2 = disks s" "atas s2 = atas s"
    "copy_loop M (AtaCreate io ty) bsize k p (inode_block inode) (inode_block inode) 12 0 (0, le32_at ib 4) s2 =
       ret (False, (fo, fs), s\<lparr>lheap := h, dev := d, irqs := q, bufs := (bufs s)(p \<mapsto> patch 0 (take (unat (le32_at ib 4))
         (direct_data img bsize ib)) (map (fresh s p) [0..<unat (le32_at ib 4)]), k \<mapsto> old)\<rparr>)"
    "unat fo + unat fs = unat (le32_at ib 4)" "unat fo = min (unat (le32_at ib 4)) (length (direct_data img bsize ib))"
    "p \<noteq> nullptr" "k \<noteq> nullptr" "p \<notin> live (lheap s)" "k \<notin> live (lheap s)" "k \<noteq> p"
    "live h = insert k (insert p (live (lheap s)))" "invar h" "ready (indirect_needs img bsize ib @ ns) h"
    "valid A d" "pending A d = []" "length old = unat bsize" "unat p + unat (le32_at ib 4) < 4294967296"
proof -
  let ?fs = "le32_at ib 4" and ?dp = "used_prefix (direct_pointers ib)"
  define rest where "rest = indirect_needs img bsize ib @ ns"
  have ok: "invar (lheap s)" "dom (bufs s) \<subseteq> live (lheap s)" "nullptr \<notin> dom (bufs s)" using s(3) by (auto simp: bufs_ok_def)
  have inz: "inode \<noteq> nullptr" using ok(3) ib(1) by auto
  have io: "100 \<le> length ib" "0 < unat ?fs" "unat ?fs < 2147483648" "le32_at ib 92 = 0" using ib(2) by (simp_all add: inode_ok_def)
  have fz: "0 < int (unat ?fs)" "int (unat ?fs) < 2147483648" "sint ?fs = int (unat ?fs)"
    using io(2,3) sint_unat_u32 [of ?fs] by linarith+
  note bz = bsize_int [OF bs]
  have rd0: "ready (int (unat ?fs) # (int (unat bsize) # replicate (length ?dp) (io_size bsize) @ rest)) (lheap s)"
    using rd by (simp add: file_needs_def rest_def indirect_needs_def)
  obtain p h1 where a1: "heap_alloc M (int (unat ?fs)) (lheap s) = ret (p, h1)"
      "buf_alloc M (int (unat ?fs)) s = ret (p, s\<lparr>lheap := h1, bufs := (bufs s)(p \<mapsto> map (fresh s p) [0..<nat (int (unat ?fs))])\<rparr>)"
      "p \<noteq> nullptr" "p \<notin> live (lheap s)" "live h1 = insert p (live (lheap s))" "invar h1"
      "ready (int (unat bsize) # replicate (length ?dp) (io_size bsize) @ rest) h1" "unat p + nat (int (unat ?fs)) < 4294967296"
    by (rule buf_alloc_ok [OF ok(1) fz(1,2) rd0])
  let ?raw = "map (fresh s p) [0..<unat ?fs]"
  let ?s1 = "s\<lparr>lheap := h1, bufs := (bufs s)(p \<mapsto> ?raw)\<rparr>"
  have al1: "buf_alloc M (int (unat ?fs)) s = ret (p, ?s1)" using a1(2) unfolding nat_int .
  have inv1: "invar (lheap ?s1)" and rd1: "ready (int (unat bsize) # replicate (length ?dp) (io_size bsize) @ rest) (lheap ?s1)"
    using a1 by simp_all
  obtain k h2 where a2: "heap_alloc M (int (unat bsize)) (lheap ?s1) = ret (k, h2)"
      "buf_alloc M (int (unat bsize)) ?s1 = ret (k, ?s1\<lparr>lheap := h2, bufs := (bufs ?s1)(k \<mapsto> map (fresh ?s1 k) [0..<nat (int (unat bsize))])\<rparr>)"
      "k \<noteq> nullptr" "k \<notin> live (lheap ?s1)" "live h2 = insert k (live (lheap ?s1))" "invar h2"
      "ready (replicate (length ?dp) (io_size bsize) @ rest) h2"
    by (rule buf_alloc_ok [OF inv1 bz(1,2) rd1])
  let ?kraw = "map (fresh s k) [0..<unat bsize]"
  let ?s2 = "s\<lparr>lheap := h2, bufs := (bufs s)(p \<mapsto> ?raw, k \<mapsto> ?kraw)\<rparr>"
  have al2: "buf_alloc M (int (unat bsize)) ?s1 = ret (k, ?s2)" using a2(2) unfolding nat_int by simp
  have nk: "k \<noteq> p" "inode \<noteq> k" "inode \<noteq> p" using a1(4,5) a2(4) ok(2) ib(1) by auto
  have ib2: "bufs ?s2 inode = Some ib" using nk ib(1) by simp
  have live2: "live h2 = insert k (insert p (live (lheap s)))" using a1(5) a2(5) by simp
  have bok2: "bufs_ok invar live ?s2" using s(3) a1(3) a2(3,6) live2 by (auto simp: bufs_ok_def)
  have "\<exists>fo' fs' s'. copy_loop M (AtaCreate io ty) bsize k p (inode_block inode) (inode_block inode) (length (direct_pointers ib)) 0 (0, ?fs) ?s2 =
      ret (False, (fo', fs'), s') \<and> unat fo' + unat fs' = length ?raw \<and>
    unat fo' = unat (0 :: u32) + min (unat ?fs) (unat bsize * length ?dp) \<and>
    copied A rest k p (patch (unat (0 :: u32)) (take (unat ?fs) (concat (map (block_bytes_of img bsize) ?dp))) ?raw) ?s2 s'"
  proof (rule copy_loop_ok [OF D refl bs nk(1,2,3)])
    show "bufs ?s2 inode = Some ib" by (rule ib2)
    show "inode_block inode (0 + j) s' = ret (direct_pointers ib ! j)"
      if "bufs s' inode = Some ib" "j < length (direct_pointers ib)" for s' :: "('h, 'd, 'z) ext2_scheme" and j
      using inode_block_ok [OF inz that(1) io(1), of j] that(2) by (simp add: direct_pointers_def)
    show "bufs ?s2 k = Some ?kraw" "bufs ?s2 p = Some ?raw" using nk by simp_all
    show "block_ok n bsize b" if "b \<in> set ?dp" for b using that ib(2) by (auto simp: inode_ok_def file_pointers_def)
  qed (use s a2 bok2 unat_lt_2p32 [of ?fs] in auto)
  then obtain fo' fs' s3 where c: "copy_loop M (AtaCreate io ty) bsize k p (inode_block inode) (inode_block inode) 12 0 (0, ?fs) ?s2 =
      ret (False, (fo', fs'), s3)" "unat fo' + unat fs' = unat ?fs" "unat fo' = min (unat ?fs) (unat bsize * length ?dp)"
      "copied A rest k p (patch 0 (take (unat ?fs) (concat (map (block_bytes_of img bsize) ?dp))) ?raw) ?s2 s3"
    by auto
  let ?d1 = "concat (map (block_bytes_of img bsize) ?dp)"
  let ?c1 = "patch 0 (take (unat ?fs) ?d1) ?raw"
  obtain d3 h3 q3 k3 where f: "s3 = ?s2\<lparr>lheap := h3, dev := d3, irqs := q3, bufs := (bufs ?s2)(k \<mapsto> k3, p \<mapsto> ?c1)\<rparr>"
     "length k3 = length (the (bufs ?s2 k))" "valid A d3" "pending A d3 = []" "invar h3" "live h3 = live (lheap ?s2)" "ready rest h3"
    by (rule copiedD [OF c(4)])
  have s3: "s3 = s\<lparr>lheap := h3, dev := d3, irqs := q3, bufs := (bufs s)(p \<mapsto> ?c1, k \<mapsto> k3)\<rparr>"
    unfolding f(1) using nk(1) by (simp add: fun_upd_twist)
  show thesis
  proof (rule that [OF al1 al2])
    show "copy_loop M (AtaCreate io ty) bsize k p (inode_block inode) (inode_block inode) 12 0 (0, ?fs) ?s2 =
       ret (False, (fo', fs'), s\<lparr>lheap := h3, dev := d3, irqs := q3, bufs := (bufs s)(p \<mapsto> patch 0 (take (unat ?fs)
         (direct_data img bsize ib)) ?raw, k \<mapsto> k3)\<rparr>)"
      using c(1) unfolding s3 direct_data_def .
    show "unat fo' = min (unat ?fs) (length (direct_data img bsize ib))"
      using c(3) unfolding direct_data_def length_concat_blocks .
  qed (use c(2) a1 a2 nk f live2 rest_def in auto)
qed

lemma indirect_blocks_ok:
  assumes D: "ata_disk M io A img n" and bs: "bsize_ok bsize"
    and s: "bufs_ok invar live s" and ib: "bufs s inode = Some ib" "inode_ok n img bsize ib"
    and s3: "s3 = s\<lparr>lheap := h3, dev := d3, irqs := q3, bufs := (bufs s)(p \<mapsto> patch 0 (take (unat (le32_at ib 4))
         (direct_data img bsize ib)) (map (fresh s p) [0..<unat (le32_at ib 4)]), k \<mapsto> k3)\<rparr>"
    and c: "unat fo' + unat fs' = unat (le32_at ib 4)" "unat fo' = min (unat (le32_at ib 4)) (length (direct_data img bsize ib))"
    and pk: "p \<noteq> nullptr" "k \<noteq> nullptr" "p \<notin> live (lheap s)" "k \<notin> live (lheap s)" "k \<noteq> p"
    and f: "live h3 = insert k (insert p (live (lheap s)))" "invar h3" "ready (indirect_needs img bsize ib @ ns) h3"
      "valid A d3" "pending A d3 = []" "length k3 = unat bsize"
    and False: "le32_at ib 88 \<noteq> 0"
  shows "\<exists>t pr s4 d4 h4 q4. singly_part M (AtaCreate io ty) bsize inode k p (fo', fs') s3 = ret (STATUS_SUCCESS, t, pr, s4) \<and>
      bufs s4 inode = Some ib \<and> free_all M [k, t, nullptr] s4 = ret (s\<lparr>lheap := h4, dev := d4, irqs := q4,
        bufs := (bufs s)(p \<mapsto> patch 0 (take (unat (le32_at ib 4)) (file_data img bsize ib)) (map (fresh s p) [0..<unat (le32_at ib 4)]))\<rparr>) \<and>
      live h4 = insert p (live (lheap s)) \<and> invar h4 \<and> valid A d4 \<and> pending A d4 = [] \<and> ready ns h4"
proof -
  let ?fs = "le32_at ib 4" and ?d1 = "direct_data img bsize ib" and ?raw = "map (fresh s p) [0..<unat (le32_at ib 4)]"
  let ?c1 = "patch 0 (take (unat ?fs) ?d1) ?raw" and ?data = "take (unat ?fs) (file_data img bsize ib)"
  have ok: "dom (bufs s) \<subseteq> live (lheap s)" "nullptr \<notin> dom (bufs s)" using s by (auto simp: bufs_ok_def)
  have inz: "inode \<noteq> nullptr" using ok(2) ib(1) by auto
  have nk: "inode \<noteq> k" "inode \<noteq> p" using ok(1) ib(1) pk by auto
  have io: "100 \<le> length ib" using ib(2) by (simp add: inode_ok_def)
  have none: "bufs s k = None" using ok(1) pk(4) by (cases "bufs s k") auto
  have ib3: "bufs s3 inode = Some ib" unfolding s3 using nk ib(1) by simp
  have bok3: "bufs_ok invar live s3" unfolding s3 using s pk f by (auto simp: bufs_ok_def)
  let ?tp = "used_prefix (table_pointers (block_bytes_of img bsize (le32_at ib 88)))"
  let ?d2 = "concat (map (block_bytes_of img bsize) ?tp)"
  have bok: "block_ok n bsize (le32_at ib 88)" using ib(2) False by (simp add: inode_ok_def)
  have tok: "block_ok n bsize x" if "x \<in> set ?tp" for x using that ib(2) False by (auto simp: inode_ok_def file_pointers_def)
  have lc1: "length ?c1 = unat ?fs" by (subst length_patch) simp_all
  have v3: "valid A (dev s3)" "pending A (dev s3) = []" unfolding s3 using f(4,5) by simp_all
  have rd3: "ready (int (unat bsize) # io_size bsize # replicate (length ?tp) (io_size bsize) @ ns) (lheap s3)"
    using f(3) False unfolding s3 by (simp add: indirect_needs_def)
  have b3: "bufs s3 k = Some k3" "bufs s3 p = Some ?c1" unfolding s3 using pk(5) by simp_all
  have fits3: "unat fo' + unat fs' = length ?c1" "length ?c1 < 4294967296"
    unfolding lc1 using c(1) unat_lt_2p32 [of ?fs] by simp_all
  let ?new = "patch (unat fo') (take (unat fs') ?d2) ?c1"
  obtain t fo2 fs2 d h q old tb where g: "singly_part M (AtaCreate io ty) bsize inode k p (fo', fs') s3 =
      ret (STATUS_SUCCESS, t, (fo2, fs2), s3\<lparr>lheap := h, dev := d, irqs := q, bufs := (bufs s3)(t \<mapsto> tb, k \<mapsto> old, p \<mapsto> ?new)\<rparr>)"
    "t \<noteq> nullptr" "t \<notin> live (lheap s3)" "invar h" "live h = insert t (live (lheap s3))" "valid A d" "pending A d = []" "ready ns h"
    using singly_part_ok [OF D refl bs pk(5) inz v3 bok3 ib3 io refl False bok refl tok rd3 b3(1) f(6) b3(2) fits3] by blast
  let ?s4 = "s3\<lparr>lheap := h, dev := d, irqs := q, bufs := (bufs s3)(t \<mapsto> tb, k \<mapsto> old, p \<mapsto> ?new)\<rparr>"
  have l3: "lheap s3 = h3" unfolding s3 by simp
  have nt: "t \<noteq> k" "t \<noteq> p" "t \<noteq> inode" "t \<notin> live (lheap s)" using g(3) f(1) ok(1) ib(1) unfolding l3 by auto
  have len: "length (take (unat ?fs) ?d1) = unat fo'" using c(2) by simp
  have "?new = patch 0 (take (unat ?fs) ?d1 @ take (unat fs') ?d2) ?raw"
    using patch_append [of 0 "take (unat ?fs) ?d1" "take (unat fs') ?d2" ?raw] c(1) unfolding len by simp
  moreover have "take (unat ?fs) ?d1 @ take (unat fs') ?d2 = ?data"
  proof -
    have "?data = take (unat ?fs) ?d1 @ take (unat ?fs - length ?d1) ?d2"
      using False by (simp add: file_data_def file_pointers_def direct_data_def)
    moreover have "take (unat ?fs - length ?d1) ?d2 = take (unat fs') ?d2"
    proof -
      have "unat ?fs - length ?d1 = unat fs'" using c by (simp add: min_def split: if_splits)
      then show ?thesis by simp
    qed
    ultimately show ?thesis by simp
  qed
  ultimately have new: "?new = patch 0 ?data ?raw" by simp
  obtain h5 where h5: "buf_free M k ?s4 = ret (?s4\<lparr>lheap := h5, bufs := (bufs ?s4)(k := None)\<rparr>)"
      "live h5 = live (lheap ?s4) - {k}" "invar h5" "\<And>ns. ready ns (lheap ?s4) \<Longrightarrow> ready ns h5"
    by (rule buf_free_live [of ?s4 k]) (use g(4,5) pk(2) f(1) l3 in auto)
  let ?s5 = "?s4\<lparr>lheap := h5, bufs := (bufs ?s4)(k := None)\<rparr>"
  obtain h6 where h6: "buf_free M t ?s5 = ret (?s5\<lparr>lheap := h6, bufs := (bufs ?s5)(t := None)\<rparr>)"
      "live h6 = live (lheap ?s5) - {t}" "invar h6" "\<And>ns. ready ns (lheap ?s5) \<Longrightarrow> ready ns h6"
    by (rule buf_free_live [of ?s5 t]) (use g(2,5) h5(2,3) nt(1) in auto)
  have "bufs s t = None" using ok(1) nt(4) by (cases "bufs s t") auto
  then have m: "((bufs s3)(t \<mapsto> tb, k \<mapsto> old, p \<mapsto> ?new))(k := None, t := None) = (bufs s)(p \<mapsto> ?new)"
    unfolding s3 using nt pk(5) none by (auto simp: fun_eq_iff)
  have "free_all M [k, t, nullptr] ?s4 = ret (s\<lparr>lheap := h6, dev := d, irqs := q, bufs := (bufs s)(p \<mapsto> patch 0 ?data ?raw)\<rparr>)"
  proof -
    have "free_all M [k, t, nullptr] ?s4 = ret (s3\<lparr>lheap := h6, dev := d, irqs := q,
        bufs := ((bufs s3)(t \<mapsto> tb, k \<mapsto> old, p \<mapsto> ?new))(k := None, t := None)\<rparr>)"
      using h5(1) h6(1) by (simp add: buf_free_def [of M nullptr])
    moreover have "s3\<lparr>lheap := h6, dev := d, irqs := q, bufs := B\<rparr> = s\<lparr>lheap := h6, dev := d, irqs := q, bufs := B\<rparr>" for B
      unfolding s3 by simp
    ultimately show ?thesis unfolding new using m [unfolded new] by metis
  qed
  moreover have "live h6 = insert p (live (lheap s))" using h6(2) h5(2) g(5) f(1) nt pk unfolding l3 by auto
  moreover have "bufs ?s4 inode = Some ib" using ib3 nt nk by simp
  moreover have "ready ns h6" using h6(4) h5(4) g(8) by simp
  ultimately show ?thesis using g(1,6,7) h6(3) by blast
qed

text \<open>The indirect block, and giving back the buffers.\<close>

lemma indirect_part_ok:
  assumes D: "ata_disk M io A img n" and bs: "bsize_ok bsize"
    and s: "bufs_ok invar live s" and ib: "bufs s inode = Some ib" "inode_ok n img bsize ib"
    and s3: "s3 = s\<lparr>lheap := h3, dev := d3, irqs := q3, bufs := (bufs s)(p \<mapsto> patch 0 (take (unat (le32_at ib 4))
         (direct_data img bsize ib)) (map (fresh s p) [0..<unat (le32_at ib 4)]), k \<mapsto> k3)\<rparr>"
    and c: "unat fo' + unat fs' = unat (le32_at ib 4)" "unat fo' = min (unat (le32_at ib 4)) (length (direct_data img bsize ib))"
    and pk: "p \<noteq> nullptr" "k \<noteq> nullptr" "p \<notin> live (lheap s)" "k \<notin> live (lheap s)" "k \<noteq> p"
    and f: "live h3 = insert k (insert p (live (lheap s)))" "invar h3" "ready (indirect_needs img bsize ib @ ns) h3"
      "valid A d3" "pending A d3 = []" "length k3 = unat bsize"
  shows "\<exists>t pr s4 d4 h4 q4. singly_part M (AtaCreate io ty) bsize inode k p (fo', fs') s3 = ret (STATUS_SUCCESS, t, pr, s4) \<and>
      bufs s4 inode = Some ib \<and> free_all M [k, t, nullptr] s4 = ret (s\<lparr>lheap := h4, dev := d4, irqs := q4,
        bufs := (bufs s)(p \<mapsto> patch 0 (take (unat (le32_at ib 4)) (file_data img bsize ib)) (map (fresh s p) [0..<unat (le32_at ib 4)]))\<rparr>) \<and>
      live h4 = insert p (live (lheap s)) \<and> invar h4 \<and> valid A d4 \<and> pending A d4 = [] \<and> ready ns h4"
proof -
  let ?fs = "le32_at ib 4" and ?d1 = "direct_data img bsize ib" and ?raw = "map (fresh s p) [0..<unat (le32_at ib 4)]"
  let ?c1 = "patch 0 (take (unat ?fs) ?d1) ?raw" and ?data = "take (unat ?fs) (file_data img bsize ib)"
  have ok: "dom (bufs s) \<subseteq> live (lheap s)" "nullptr \<notin> dom (bufs s)" using s by (auto simp: bufs_ok_def)
  have inz: "inode \<noteq> nullptr" using ok(2) ib(1) by auto
  have nk: "inode \<noteq> k" "inode \<noteq> p" using ok(1) ib(1) pk by auto
  have io: "100 \<le> length ib" using ib(2) by (simp add: inode_ok_def)
  have none: "bufs s k = None" using ok(1) pk(4) by (cases "bufs s k") auto
  have ib3: "bufs s3 inode = Some ib" unfolding s3 using nk ib(1) by simp
  show ?thesis
  proof (cases "le32_at ib 88 = 0")
    case True
    have "singly_part M (AtaCreate io ty) bsize inode k p (fo', fs') s3 = ret (STATUS_SUCCESS, nullptr, (fo', fs'), s3)"
      using inode_block_ok [OF inz ib3 io, of 12] True by (simp add: singly_part_def)
    moreover have data: "?c1 = patch 0 ?data ?raw" using True by (simp add: file_data_def file_pointers_def direct_data_def)
    moreover obtain h where h: "buf_free M k s3 = ret (s3\<lparr>lheap := h, bufs := (bufs s3)(k := None)\<rparr>)"
        "live h = live (lheap s3) - {k}" "invar h" "\<And>ns. ready ns (lheap s3) \<Longrightarrow> ready ns h"
      by (rule buf_free_live [of s3 k]) (use f pk s3 in auto)
    moreover have "((bufs s)(p \<mapsto> ?c1))(k := None) = (bufs s)(p \<mapsto> ?c1)" using none pk(5) by (auto simp: fun_eq_iff)
    then have "s3\<lparr>lheap := h, bufs := (bufs s3)(k := None)\<rparr> = s\<lparr>lheap := h, dev := d3, irqs := q3, bufs := (bufs s)(p \<mapsto> ?c1)\<rparr>"
      unfolding s3 by simp
    moreover have "live h = insert p (live (lheap s))" using h(2) f(1) s3 pk by auto
    moreover have "ready ns h" using h(4) f(3) True s3 by (simp add: indirect_needs_def)
    ultimately show ?thesis using ib3 f(4,5)
      by (intro exI [of _ nullptr] exI [of _ "(fo', fs')"] exI [of _ s3] exI [of _ d3] exI [of _ h] exI [of _ q3])
        (simp add: buf_free_def)
  next
    case False
    with indirect_blocks_ok [OF D bs s ib s3 c pk f] show ?thesis by blast
  qed
qed

text \<open>The whole file.\<close>

lemma Ext2ReadFile_ok:
  assumes D: "ata_disk M io A img n" and bs: "bsize_ok bsize"
    and s: "valid A (dev s)" "pending A (dev s) = []" "bufs_ok invar live s"
    and dk: "disk \<noteq> nullptr" "disks s disk = Some dk" "blockSize dk = bsize"
    and dv: "disk_device dk \<noteq> nullptr" "atas s (disk_device dk) = Some (AtaCreate io ty)"
    and ib: "bufs s inode = Some ib" "inode_ok n img bsize ib"
    and rd: "ready (file_needs img bsize ib @ ns) (lheap s)"
  obtains p d h q where "Ext2ReadFile M disk inode inum (Some out) s = ret (STATUS_SUCCESS, Some p,
      s\<lparr>lheap := h, dev := d, irqs := q, bufs := (bufs s)(p \<mapsto>
        patch 0 (take (unat (le32_at ib 4)) (file_data img bsize ib)) (map (fresh s p) [0..<unat (le32_at ib 4)]))\<rparr>)"
    "p \<noteq> nullptr" "p \<notin> live (lheap s)" "live h = insert p (live (lheap s))" "invar h" "valid A d" "pending A d = []" "ready ns h"
    "unat p + unat (le32_at ib 4) < 4294967296"
proof -
  let ?fs = "le32_at ib 4" and ?raw = "\<lambda>p. map (fresh s p) [0..<unat (le32_at ib 4)]"
  have inz: "inode \<noteq> nullptr" using s(3) ib(1) by (auto simp: bufs_ok_def)
  have io: "100 \<le> length ib" "0 < unat ?fs" "unat ?fs < 2147483648" "le32_at ib 92 = 0" using ib(2) by (simp_all add: inode_ok_def)
  have fz: "sint ?fs = int (unat ?fs)" by (rule sint_unat_u32 [OF io(3)])
  obtain p k h1 s2 fo fs d h q old where a: "buf_alloc M (int (unat ?fs)) s = ret (p, s\<lparr>lheap := h1, bufs := (bufs s)(p \<mapsto> ?raw p)\<rparr>)"
      "buf_alloc M (int (unat bsize)) (s\<lparr>lheap := h1, bufs := (bufs s)(p \<mapsto> ?raw p)\<rparr>) = ret (k, s2)"
      "disks s2 = disks s" "atas s2 = atas s"
    and c: "copy_loop M (AtaCreate io ty) bsize k p (inode_block inode) (inode_block inode) 12 0 (0, ?fs) s2 =
       ret (False, (fo, fs), s\<lparr>lheap := h, dev := d, irqs := q, bufs := (bufs s)(p \<mapsto> patch 0 (take (unat ?fs)
         (direct_data img bsize ib)) (?raw p), k \<mapsto> old)\<rparr>)"
    and fo: "unat fo + unat fs = unat ?fs" "unat fo = min (unat ?fs) (length (direct_data img bsize ib))"
    and pk: "p \<noteq> nullptr" "k \<noteq> nullptr" "p \<notin> live (lheap s)" "k \<notin> live (lheap s)" "k \<noteq> p"
    and f: "live h = insert k (insert p (live (lheap s)))" "invar h" "ready (indirect_needs img bsize ib @ ns) h"
      "valid A d" "pending A d = []" "length old = unat bsize" and fit: "unat p + unat ?fs < 4294967296"
    by (rule direct_part_ok [OF D bs s ib rd])
  obtain t pr s4 d4 h4 q4 where g: "singly_part M (AtaCreate io ty) bsize inode k p (fo, fs)
        (s\<lparr>lheap := h, dev := d, irqs := q, bufs := (bufs s)(p \<mapsto> patch 0 (take (unat ?fs)
         (direct_data img bsize ib)) (?raw p), k \<mapsto> old)\<rparr>) = ret (STATUS_SUCCESS, t, pr, s4)"
      "bufs s4 inode = Some ib" "free_all M [k, t, nullptr] s4 = ret (s\<lparr>lheap := h4, dev := d4, irqs := q4,
        bufs := (bufs s)(p \<mapsto> patch 0 (take (unat ?fs) (file_data img bsize ib)) (?raw p))\<rparr>)"
      "live h4 = insert p (live (lheap s))" "invar h4" "valid A d4" "pending A d4 = []" "ready ns h4"
    using indirect_part_ok [OF D bs s(3) ib refl fo pk f] by blast
  have dbl: "doubly_part M (AtaCreate io ty) bsize inode k p t pr s4 = ret (STATUS_SUCCESS, t, nullptr, s4)"
    using inode_block_ok [OF inz g(2) io(1), of 13] io(4) by (simp add: doubly_part_def)
  have size: "rd32 inode in_size s = ret ?fs" using rd32_ok [OF inz ib(1)] io(1) by (simp add: ext2_offsets)
  have "Ext2ReadFile M disk inode inum (Some out) s = ret (STATUS_SUCCESS, Some p, s\<lparr>lheap := h4, dev := d4, irqs := q4,
        bufs := (bufs s)(p \<mapsto> patch 0 (take (unat ?fs) (file_data img bsize ib)) (?raw p))\<rparr>)"
    unfolding Ext2ReadFile_def using size a pk(1,2) dk(2,3) dv c g(1,3) dbl dk(1) inz
    by (simp add: Let_def fz bsize_int(3) [OF bs] del: free_all.simps)
  then show thesis by (rule that) (use pk g fit in auto)
qed

end

end
