(* ===== verification/Storage_Properties.thy ===== *)
theory Storage_Properties
  imports Ext2_Properties
begin

section \<open>Properties of the disk stack of the file system service\<close>

text \<open>
  What the ATA driver and the ext2 code promise when they run on the heap of a user program and
  on a disk that keeps the ATA protocol: reading inodes, and the properties of the manifest about
  \<^verbatim>\<open>malloc.cpp\<close>, \<^verbatim>\<open>AtaDriver.cpp\<close> and \<^verbatim>\<open>Ext2.cpp\<close>. A simulated disk shows that
  the protocol can be kept.
\<close>

subsection \<open>Inodes\<close>

text \<open>Where the inode is, as the super block, the group descriptors and the table say.\<close>

definition le16_at :: "u8 list \<Rightarrow> nat \<Rightarrow> u16" where
  "le16_at bs pos = of_nat (le_bytes (take 2 (drop pos bs)))"

definition inode_group :: "u8 list \<Rightarrow> int \<Rightarrow> u32" where
  "inode_group sb num = (of_int num - 1) div le32_at sb 40"

definition inode_offset :: "u32 \<Rightarrow> u8 list \<Rightarrow> u8 list \<Rightarrow> int \<Rightarrow> u32" where
  "inode_offset bsize sb gd num = le32_at gd (32 * unat (inode_group sb num) + 8) * bsize +
     ((of_int num - 1) mod le32_at sb 40) * ucast (le16_at sb 88)"

definition inode_size :: "u8 list \<Rightarrow> u32" where
  "inode_size sb = ucast (le16_at sb 88)"

text \<open>The tables of a disk in memory, and an inode number that they cover.\<close>

definition disk_tables_ok :: "nat \<Rightarrow> u32 \<Rightarrow> u8 list \<Rightarrow> u8 list \<Rightarrow> int \<Rightarrow> bool" where
  "disk_tables_ok n bsize sb gd num \<longleftrightarrow> 90 \<le> length sb \<and> le32_at sb 40 \<noteq> 0 \<and> 1 \<le> num \<and>
     32 * unat (inode_group sb num) + 12 \<le> length gd \<and> range_ok n (inode_offset bsize sb gd num) (inode_size sb)"

lemma rd16_ok: "p \<noteq> nullptr \<Longrightarrow> bufs s p = Some bs \<Longrightarrow> pos + 2 \<le> length bs \<Longrightarrow> rd16 p pos s = ret (le16_at bs pos)"
  by (simp add: rd16_def le16_at_def)

context prog_heap
begin

text \<open>\<^verbatim>\<open>Ext2ReadInode\<close> comes down to one read into a fresh buffer of 128 bytes.\<close>

lemma Ext2ReadInode_reads:
  assumes s: "bufs_ok invar live s" "ready (128 # ns) (lheap s)"
    and dk: "disk \<noteq> nullptr" "disks s disk = Some dk" "disk_device dk \<noteq> nullptr" "atas s (disk_device dk) = Some dv"
    and sb: "bufs s (superBlock dk) = Some sb" and gd: "bufs s (groupDec dk) = Some gd"
    and t: "disk_tables_ok n (blockSize dk) sb gd num"
  obtains p h where "p \<noteq> nullptr" "p \<notin> live (lheap s)" "live h = insert p (live (lheap s))" "invar h" "ready ns h"
    "Ext2ReadInode M disk num (Some out) s =
      andThen (AtaRead M dv p (inode_offset (blockSize dk) sb gd num) (inode_size sb)
          (s\<lparr>lheap := h, bufs := (bufs s)(p \<mapsto> map (fresh s p) [0..<128])\<rparr>)) (\<lambda>(r, s2).
        if r < 0 then andThen (buf_free M p s2) (\<lambda>s3. ret (STATUS_FAILURE, Some nullptr, s3))
        else ret (STATUS_SUCCESS, Some p, s2))"
proof -
  have ok: "invar (lheap s)" "dom (bufs s) \<subseteq> live (lheap s)" "nullptr \<notin> dom (bufs s)" using s(1) by (auto simp: bufs_ok_def)
  obtain p h where a: "buf_alloc M 128 s = ret (p, s\<lparr>lheap := h, bufs := (bufs s)(p \<mapsto> map (fresh s p) [0..<nat 128])\<rparr>)"
      "p \<noteq> nullptr" "p \<notin> live (lheap s)" "live h = insert p (live (lheap s))" "invar h" "ready ns h"
    by (rule buf_alloc_ok [OF ok(1) _ _ s(2)]) simp_all
  let ?s1 = "s\<lparr>lheap := h, bufs := (bufs s)(p \<mapsto> map (fresh s p) [0..<128])\<rparr>"
  have nz: "superBlock dk \<noteq> nullptr" "groupDec dk \<noteq> nullptr" using ok(3) sb gd by auto
  have np: "superBlock dk \<noteq> p" "groupDec dk \<noteq> p" using ok(2) sb gd a(3) by auto
  have tb: "90 \<le> length sb" "le32_at sb 40 \<noteq> 0" "1 \<le> num" "32 * unat (inode_group sb num) + 12 \<le> length gd"
    using t by (simp_all add: disk_tables_ok_def)
  have r: "rd32 (superBlock dk) sb_inodesPerGroup ?s1 = ret (le32_at sb 40)"
      "rd16 (superBlock dk) sb_inodeSize ?s1 = ret (le16_at sb 88)"
      "rd32 (groupDec dk) (32 * unat (inode_group sb num) + gd_inodeTable) ?s1 = ret (le32_at gd (32 * unat (inode_group sb num) + 8))"
    using rd32_ok [OF nz(1), of ?s1 sb] rd16_ok [OF nz(1), of ?s1 sb] rd32_ok [OF nz(2), of ?s1 gd] np sb gd tb
    by (simp_all add: ext2_offsets)
  have "Ext2ReadInode M disk num (Some out) s =
      andThen (AtaRead M dv p (inode_offset (blockSize dk) sb gd num) (inode_size sb) ?s1) (\<lambda>(r, s2).
        if r < 0 then andThen (buf_free M p s2) (\<lambda>s3. ret (STATUS_FAILURE, Some nullptr, s3))
        else ret (STATUS_SUCCESS, Some p, s2))"
    unfolding Ext2ReadInode_def using a(1) dk tb(2,3) r by (simp add: udiv_def umod_def Let_def
      inode_group_def [symmetric] inode_offset_def inode_size_def)
  then show thesis using a by (intro that) simp_all
qed

lemma Ext2ReadInode_ok:
  assumes D: "ata_disk M io A img n" and v: "valid A (dev s)" "pending A (dev s) = []"
    and s: "bufs_ok invar live s"
      "ready (128 # read_size (inode_offset (blockSize dk) sb gd num) (inode_size sb) # ns) (lheap s)"
    and dk: "disk \<noteq> nullptr" "disks s disk = Some dk" "disk_device dk \<noteq> nullptr" "atas s (disk_device dk) = Some (AtaCreate io ty)"
    and sb: "bufs s (superBlock dk) = Some sb" and gd: "bufs s (groupDec dk) = Some gd"
    and t: "disk_tables_ok n (blockSize dk) sb gd num" and le: "unat (inode_size sb) \<le> 128"
  obtains p h d where "Ext2ReadInode M disk num (Some out) s = ret (STATUS_SUCCESS, Some p, s\<lparr>lheap := h, dev := d, irqs := True,
      bufs := (bufs s)(p \<mapsto> patch 0 (disk_bytes img (unat (inode_offset (blockSize dk) sb gd num)) (unat (inode_size sb)))
        (map (fresh s p) [0..<128]))\<rparr>)"
    "p \<noteq> nullptr" "p \<notin> live (lheap s)" "live h = insert p (live (lheap s))" "invar h" "ready ns h" "valid A d" "pending A d = []"
proof -
  obtain p h where a: "p \<noteq> nullptr" "p \<notin> live (lheap s)" "live h = insert p (live (lheap s))" "invar h"
      "ready (read_size (inode_offset (blockSize dk) sb gd num) (inode_size sb) # ns) h"
    and e: "Ext2ReadInode M disk num (Some out) s =
      andThen (AtaRead M (AtaCreate io ty) p (inode_offset (blockSize dk) sb gd num) (inode_size sb)
          (s\<lparr>lheap := h, bufs := (bufs s)(p \<mapsto> map (fresh s p) [0..<128])\<rparr>)) (\<lambda>(r, s2).
        if r < 0 then andThen (buf_free M p s2) (\<lambda>s3. ret (STATUS_FAILURE, Some nullptr, s3))
        else ret (STATUS_SUCCESS, Some p, s2))"
    by (rule Ext2ReadInode_reads [OF s dk sb gd t])
  let ?s1 = "s\<lparr>lheap := h, bufs := (bufs s)(p \<mapsto> map (fresh s p) [0..<128])\<rparr>"
  have ok1: "bufs_ok invar live ?s1" using s(1) a by (auto simp: bufs_ok_def)
  have rg: "range_ok n (inode_offset (blockSize dk) sb gd num) (inode_size sb)" using t by (simp add: disk_tables_ok_def)
  obtain d h' where r: "AtaRead M (AtaCreate io ty) p (inode_offset (blockSize dk) sb gd num) (inode_size sb) ?s1 =
      ret (int (unat (inode_size sb)), ?s1\<lparr>lheap := h', dev := d, irqs := True, bufs := (bufs ?s1)(p \<mapsto> patch 0
        (disk_bytes img (unat (inode_offset (blockSize dk) sb gd num)) (unat (inode_size sb))) (map (fresh s p) [0..<128]))\<rparr>)"
      "valid A d" "pending A d = []" "invar h'" "live h' = live (lheap ?s1)" "ready ns h'"
    by (rule AtaRead_ok [where ns = ns and p = p and ty = ty and bs = "map (fresh s p) [0..<128]", OF D refl _ _ ok1 _ _ _ rg]) (use v a le in simp_all)
  show thesis using r a by (intro that [of p d h']) (simp_all add: e)
qed

lemma Ext2ReadInode_overflow:
  assumes D: "ata_disk M io A img n" and v: "valid A (dev s)" "pending A (dev s) = []"
    and s: "bufs_ok invar live s"
      "ready (128 # read_size (inode_offset (blockSize dk) sb gd num) (inode_size sb) # ns) (lheap s)"
    and dk: "disk \<noteq> nullptr" "disks s disk = Some dk" "disk_device dk \<noteq> nullptr" "atas s (disk_device dk) = Some (AtaCreate io ty)"
    and sb: "bufs s (superBlock dk) = Some sb" and gd: "bufs s (groupDec dk) = Some gd"
    and t: "disk_tables_ok n (blockSize dk) sb gd num" and gt: "128 < unat (inode_size sb)"
  shows "Ext2ReadInode M disk num (Some out) s = halt BadAccess"
proof -
  obtain p h where a: "p \<noteq> nullptr" "p \<notin> live (lheap s)" "live h = insert p (live (lheap s))" "invar h"
      "ready (read_size (inode_offset (blockSize dk) sb gd num) (inode_size sb) # ns) h"
    and e: "Ext2ReadInode M disk num (Some out) s =
      andThen (AtaRead M (AtaCreate io ty) p (inode_offset (blockSize dk) sb gd num) (inode_size sb)
          (s\<lparr>lheap := h, bufs := (bufs s)(p \<mapsto> map (fresh s p) [0..<128])\<rparr>)) (\<lambda>(r, s2).
        if r < 0 then andThen (buf_free M p s2) (\<lambda>s3. ret (STATUS_FAILURE, Some nullptr, s3))
        else ret (STATUS_SUCCESS, Some p, s2))"
    by (rule Ext2ReadInode_reads [OF s dk sb gd t])
  let ?s1 = "s\<lparr>lheap := h, bufs := (bufs s)(p \<mapsto> map (fresh s p) [0..<128])\<rparr>"
  have ok1: "bufs_ok invar live ?s1" using s(1) a by (auto simp: bufs_ok_def)
  have rg: "range_ok n (inode_offset (blockSize dk) sb gd num) (inode_size sb)" using t by (simp add: disk_tables_ok_def)
  have "AtaRead M (AtaCreate io ty) p (inode_offset (blockSize dk) sb gd num) (inode_size sb) ?s1 = halt BadAccess"
    by (rule AtaRead_overflow [where ns = ns and bs = "map (fresh s p) [0..<128]", OF D refl _ _ ok1 _ _ _ rg]) (use v a gt in simp_all)
  then show ?thesis by (simp add: e)
qed

end

subsection \<open>A simulated disk\<close>

record sim_disk =
  sim_regs :: "u16 \<Rightarrow> u8"
  sim_words :: "u16 list"

definition sim_ports :: "u16 \<Rightarrow> (nat \<Rightarrow> u8) \<Rightarrow> sim_disk ports" where
  "sim_ports io img = \<lparr>
     inb = (\<lambda>port d. (if port = io + 7 then (if sim_words d = [] then 64 else 72) else 0, d)),
     outb = (\<lambda>port v d.
       if port = io + 7
       then (if v = ATA_CMD_READ_PIO then d\<lparr>sim_words := sector_words img (lba28 (sim_regs d))\<rparr> else d)
       else d\<lparr>sim_regs := (sim_regs d)(port - io := v)\<rparr>),
     inw = (\<lambda>port d. if port = io then (case sim_words d of [] \<Rightarrow> (0, d) | w # ws \<Rightarrow> (w, d\<lparr>sim_words := ws\<rparr>)) else (0, d)),
     outw = (\<lambda>port w d. d)\<rparr>"

definition sim_view :: "sim_disk ata_view" where
  "sim_view = \<lparr>valid = (\<lambda>_. True), busy = (\<lambda>_. 0), reg = sim_regs, pending = sim_words\<rparr>"

lemma sim_ata_disk: "ata_disk (sim_ports io img) io sim_view img n"
  unfolding ata_disk_def
  by (intro conjI allI impI) (auto simp: sim_ports_def sim_view_def status_law_def)

definition sim_idle :: sim_disk where
  "sim_idle = \<lparr>sim_regs = (\<lambda>_. 0), sim_words = []\<rparr>"

lemma sim_view_simps [simp]:
  "valid sim_view d" "pending sim_view sim_idle = []"
  by (simp_all add: sim_view_def sim_idle_def)

text \<open>The heap of a program that has just started, with 256 MB of room, and with one block.\<close>

definition new_heap :: user_heap where
  "new_heap = InitMalloc \<lparr>umem = (\<lambda>_. 0), g_baseBlock = 0, g_limitBlock = 0, g_lastBlock = 0,
     brk = 0x10000000, region_base = 0x10000000, region_limit = 0x20000000\<rparr>"

lemma new_heap_ok: "user_heap_ok new_heap" "user_live new_heap = {}" "g_baseBlock new_heap = nullptr"
  by (simp_all add: user_heap_ok_def small_region_def new_heap_def InitMalloc_def user_live_none)

lemma new_heap_ready: "sum_list (map pages_for ns) < 65536 \<Longrightarrow> user_ready ns new_heap"
  by (simp add: user_ready_def room_def new_heap_def InitMalloc_def)

lemma alloc_many:
  assumes "user_heap_ok h" "\<forall>m \<in> set ms. 0 < m \<and> m < 2147483648" "user_ready (ms @ ns) h"
  shows "\<exists>ps h'. length ps = length ms \<and> distinct ps \<and> nullptr \<notin> set ps \<and> set ps \<inter> user_live h = {} \<and>
    user_live h' = set ps \<union> user_live h \<and> user_heap_ok h' \<and> user_ready ns h'"
  using assms
proof (induction ms arbitrary: h)
  case (Cons m ms)
  obtain p h1 where p: "p \<noteq> nullptr" "p \<notin> user_live h" "user_live h1 = insert p (user_live h)" "user_heap_ok h1"
      "user_ready (ms @ ns) h1"
    by (rule user_HeapAlloc_ok [of h m "ms @ ns"]) (use Cons.prems in auto)
  obtain ps h2 where "length ps = length ms" "distinct ps" "nullptr \<notin> set ps" "set ps \<inter> user_live h1 = {}"
      "user_live h2 = set ps \<union> user_live h1" "user_heap_ok h2" "user_ready ns h2"
    using Cons.IH [OF p(4) _ p(5)] Cons.prems(2) by auto
  with p show ?case by (intro exI [of _ "p # ps"] exI [of _ h2]) auto
qed auto

lemma three_blocks:
  assumes "sum_list (map pages_for ns) < 65000"
  obtains a b c h where "distinct [a, b, c, nullptr]" "user_live h = {a, b, c}" "user_heap_ok h" "user_ready ns h"
proof -
  have r: "user_ready ([128, 128, 128] @ ns) new_heap"
    using assms by (intro new_heap_ready) (simp add: pages_for_def block_bytes_def n_pages_def)
  have m: "\<forall>m \<in> set [128, 128, 128 :: int]. 0 < m \<and> m < 2147483648" by simp
  obtain ps h where ps: "length ps = length [128, 128, 128 :: int]" "distinct ps" "nullptr \<notin> set ps"
      "user_live h = set ps \<union> user_live new_heap" "user_heap_ok h" "user_ready ns h"
    using alloc_many [OF new_heap_ok(1) m r] by blast
  obtain a b c where "ps = [a, b, c]" using ps(1) by (auto simp: length_Suc_conv)
  with ps show thesis by (intro that [of a b c h]) (auto simp: new_heap_ok(2))
qed

text \<open>A service with these blocks as buffers and an idle disk.\<close>

definition sim_service :: "user_heap \<Rightarrow> (addr \<rightharpoonup> u8 list) \<Rightarrow> addr \<Rightarrow> addr \<Rightarrow> (user_heap, sim_disk) ext2" where
  "sim_service h B sb gd = \<lparr>lheap = h, lnodes = Map.empty, bufs = B, fresh = (\<lambda>_ _. 0), dev = sim_idle, irqs = True,
     disks = [4 \<mapsto> \<lparr>disk_device = 8, superBlock = sb, blockSize = 1024, groups = 1, groupDec = gd\<rparr>],
     atas = [8 \<mapsto> AtaCreate 496 0]\<rparr>"

subsection \<open>The heap and the disk\<close>

text \<open>An allocation of a positive size on a heap that has room returns a block that was not in
  use, which from then on is: no other block changes its state, and the heap is well formed again.\<close>

theorem malloc_fresh_block:
  assumes "user_heap_ok s" "0 < n" "n < 2147483648" "user_ready (n # ns) s"
  shows "\<exists>p s'. user_HeapAlloc n s = ret (p, s') \<and> p \<noteq> nullptr \<and> p \<notin> user_live s \<and>
    user_live s' = insert p (user_live s) \<and> user_heap_ok s' \<and> user_ready ns s'"
proof -
  obtain p s' where "user_HeapAlloc n s = ret (p, s')" "p \<noteq> nullptr" "p \<notin> user_live s"
    "user_live s' = insert p (user_live s)" "user_heap_ok s'" "user_ready ns s'"
    by (rule user_HeapAlloc_ok [OF assms])
  then show ?thesis by blast
qed

theorem malloc_fresh_block_witness: "\<exists>p s'. user_HeapAlloc 100 new_heap = ret (p, s') \<and> user_live s' = {p}"
  using malloc_fresh_block [OF new_heap_ok(1), of 100 "[]"] new_heap_ready [of "[100]"] new_heap_ok(2)
  by (auto simp: pages_for_def block_bytes_def n_pages_def)

text \<open>Freeing a block that is in use makes it free and nothing else, and freeing it once more
  changes nothing.\<close>

theorem free_then_free_again:
  assumes "user_heap_ok s" "p \<in> user_live s"
  shows "\<exists>s'. user_HeapFree p s = ret s' \<and> user_live s' = user_live s - {p} \<and> user_heap_ok s' \<and> user_HeapFree p s' = ret s'"
proof -
  have base: "g_baseBlock s \<noteq> nullptr" using assms(2) user_live_none by blast
  with assms(1) obtain front rest where inv: "user_heap_inv s front rest" by (auto simp: user_heap_ok_def)
  obtain s' front' rest' where s': "user_HeapFree p s = ret s'" "user_heap_inv s' front' rest'" "user_live s' = user_live s - {p}"
    "g_baseBlock s' = g_baseBlock s" "user_HeapFree p s' = ret s'"
    by (rule user_HeapFree_ok [OF inv assms(2)])
  moreover have "user_heap_ok s'" using s'(2,4) base by (auto simp: user_heap_ok_def)
  ultimately show ?thesis by blast
qed

theorem free_then_free_again_witness:
  "\<exists>p s s'. user_HeapFree p s = ret s' \<and> user_live s = {p} \<and> user_live s' = {} \<and> user_HeapFree p s' = ret s'"
proof -
  obtain p s where s: "user_live s = {p}" "user_heap_ok s"
    by (rule user_HeapAlloc_ok [OF new_heap_ok(1), of 100 "[]"])
      (use new_heap_ready [of "[100]"] new_heap_ok(2) in \<open>auto simp: pages_for_def block_bytes_def n_pages_def\<close>)
  with free_then_free_again [OF s(2), of p] show ?thesis by (metis Diff_cancel insertI1)
qed

text \<open>A program and its heap: allocations, and releases of the blocks the program still holds, by their place in its list.\<close>

datatype heap_call = Malloc int | Release nat

fun run_heap :: "heap_call list \<Rightarrow> addr list \<Rightarrow> user_heap \<Rightarrow> (addr list \<times> user_heap) exec" where
  "run_heap [] held s = ret (held, s)"
| "run_heap (Malloc n # calls) held s = andThen (user_HeapAlloc n s) (\<lambda>(p, s'). run_heap calls (p # held) s')"
| "run_heap (Release i # calls) held s =
     (if i < length held then andThen (user_HeapFree (held ! i) s) (run_heap calls (take i held @ drop (Suc i) held))
      else run_heap calls held s)"

fun malloc_sizes :: "heap_call list \<Rightarrow> int list" where
  "malloc_sizes [] = []"
| "malloc_sizes (Malloc n # calls) = n # malloc_sizes calls"
| "malloc_sizes (Release i # calls) = malloc_sizes calls"

lemma remove_nth:
  assumes "distinct xs" "i < length xs"
  shows "set (take i xs @ drop (Suc i) xs) = set xs - {xs ! i}" "distinct (take i xs @ drop (Suc i) xs)"
proof -
  have "xs = take i xs @ xs ! i # drop (Suc i) xs" using assms(2) by (simp add: id_take_nth_drop)
  then have "distinct (take i xs @ xs ! i # drop (Suc i) xs)" "set xs = set (take i xs @ xs ! i # drop (Suc i) xs)"
    using assms(1) by metis+
  then show "set (take i xs @ drop (Suc i) xs) = set xs - {xs ! i}" "distinct (take i xs @ drop (Suc i) xs)" by auto
qed

text \<open>C40: The heap of a user program stays well formed: whatever allocations of positive sizes and releases of blocks it holds a
  program makes, in any order, as long as the kernel has pages for its allocations, no call fails or loops, the blocks the program holds are
  exactly the blocks in use, no two of them are the same and none is null, and the blocks tile the region again.\<close>

theorem user_heap_stays_well_formed:
  assumes "user_heap_ok s" "user_live s = set held" "distinct held" "nullptr \<notin> set held"
    and "\<forall>n \<in> set (malloc_sizes calls). 0 < n \<and> n < 2147483648" "user_ready (malloc_sizes calls) s"
  shows "\<exists>held' s'. run_heap calls held s = ret (held', s') \<and> user_heap_ok s' \<and> user_live s' = set held' \<and> distinct held' \<and>
    nullptr \<notin> set held'"
  using assms
proof (induction calls held s rule: run_heap.induct)
  case (2 n calls held s)
  obtain p s' where "user_HeapAlloc n s = ret (p, s')" "p \<noteq> nullptr" "p \<notin> user_live s" "user_live s' = insert p (user_live s)"
      "user_heap_ok s'" "user_ready (malloc_sizes calls) s'"
    by (rule user_HeapAlloc_ok [OF "2.prems"(1), of n "malloc_sizes calls"]) (use "2.prems" in simp_all)
  then show ?case using "2.IH" [of "(p, s')" p s'] "2.prems" by auto
next
  case (3 i calls held s)
  show ?case
  proof (cases "i < length held")
    case True
    then have "held ! i \<in> user_live s" using "3.prems"(2) by simp
    then obtain s' where "user_HeapFree (held ! i) s = ret s'" "user_live s' = user_live s - {held ! i}" "user_heap_ok s'"
        "user_ready (malloc_sizes calls) s'"
      using uheap.free_live [OF "3.prems"(1) TrueI] "3.prems"(6) by (metis malloc_sizes.simps(3))
    then show ?thesis using True "3.IH"(1) [OF True, of s'] "3.prems" remove_nth [OF "3.prems"(3) True] by auto
  next
    case False
    then show ?thesis using "3.IH"(2) "3.prems" by simp
  qed
qed auto

theorem user_heap_stays_well_formed_witness:
  "\<exists>p q s'. run_heap [Malloc 100, Malloc 8, Release 1, Malloc 24] [] new_heap = ret ([p, q], s') \<and> user_live s' = {p, q} \<and> p \<noteq> q"
proof -
  let ?cs = "[Malloc 100, Malloc 8, Release 1, Malloc 24]"
  have h: "user_heap_ok new_heap" "user_live new_heap = set []" "\<forall>n \<in> set (malloc_sizes ?cs). 0 < n \<and> n < 2147483648"
      "user_ready (malloc_sizes ?cs) new_heap"
    using new_heap_ok new_heap_ready [of "malloc_sizes ?cs"] by (auto simp: pages_for_def block_bytes_def n_pages_def)
  obtain held s' where r: "run_heap ?cs [] new_heap = ret (held, s')" "user_live s' = set held" "distinct held"
    using user_heap_stays_well_formed [OF h(1,2) _ _ h(3,4)] by auto
  have len: "run_heap calls hs s = ret (held, s') \<Longrightarrow>
      length held = fold (\<lambda>c n. case c of Malloc _ \<Rightarrow> Suc n | Release i \<Rightarrow> if i < n then n - 1 else n) calls (length hs)" for calls hs s
    by (induction calls hs s rule: run_heap.induct) (auto simp: andThen_eq_ret_iff split: if_splits)
  have "length held = 2" using len [OF r(1)] by simp
  then obtain p q where "held = [p, q]" by (auto simp: numeral_2_eq_2 length_Suc_conv)
  with r show ?thesis by auto
qed

text \<open>C33: on a disk that keeps the ATA protocol, AtaRead stores in the buffer of the caller exactly
  the bytes of the disk at the offset, for any offset and size that need not be aligned to sectors. The buffer
  of the driver is given back, no other buffer changes and the disk is idle again.\<close>

theorem AtaRead_reads_disk:
  assumes "ata_disk P io A img n" "valid A (dev s)" "pending A (dev s) = []"
    and "bufs_ok user_heap_ok user_live s" "user_ready (read_size offset sz # ns) (lheap s)"
    and "bufs s p = Some bs" "unat sz \<le> length bs" "range_ok n offset sz"
  shows "\<exists>d h. AtaRead (user_program P) (AtaCreate io ty) p offset sz s = ret (int (unat sz),
      s\<lparr>lheap := h, dev := d, irqs := True, bufs := (bufs s)(p \<mapsto> patch 0 (disk_bytes img (unat offset) (unat sz)) bs)\<rparr>) \<and>
    valid A d \<and> pending A d = [] \<and> user_heap_ok h \<and> user_live h = user_live (lheap s) \<and> user_ready ns h"
proof -
  have D: "ata_disk (user_program P) io A img n" using assms(1) by simp
  obtain d h where "AtaRead (user_program P) (AtaCreate io ty) p offset sz s = ret (int (unat sz),
      s\<lparr>lheap := h, dev := d, irqs := True, bufs := (bufs s)(p \<mapsto> patch 0 (disk_bytes img (unat offset) (unat sz)) bs)\<rparr>)"
      "valid A d" "pending A d = []" "user_heap_ok h" "user_live h = user_live (lheap s)" "user_ready ns h"
    by (rule uprog.AtaRead_ok [OF D refl assms(2-8)])
  then show ?thesis by blast
qed

theorem AtaRead_reads_disk_witness:
  "\<exists>s p s'. AtaRead (user_program (sim_ports 496 (\<lambda>i. of_nat i))) (AtaCreate 496 0) p 510 4 s = ret (4, s') \<and>
     bufs (s' :: (user_heap, sim_disk) ext2) p = Some [254, 255, 0, 1, 9]"
proof -
  have ns: "sum_list (map pages_for [read_size 510 4]) < 65000"
    by (simp add: pages_for_def block_bytes_def n_pages_def read_size_def sectors_of_def)
  obtain a b c h where h: "distinct [a, b, c, nullptr]" "user_live h = {a, b, c}" "user_heap_ok h"
      "user_ready [read_size 510 4] h"
    by (rule three_blocks [OF ns])
  let ?s = "sim_service h [a \<mapsto> [9, 9, 9, 9, 9]] b c"
  have s: "pending sim_view (dev ?s) = []" "bufs_ok user_heap_ok user_live ?s" "lheap ?s = h" "bufs ?s a = Some [9, 9, 9, 9, 9]"
    using h by (simp_all add: sim_service_def bufs_ok_def)
  have r: "range_ok 10 510 4" "unat (4 :: u32) \<le> length [9 :: u8, 9, 9, 9, 9]" by (simp_all add: range_ok_def)
  have "patch 0 (disk_bytes of_nat (unat (510 :: u32)) (unat (4 :: u32))) [9, 9, 9, 9, 9] = [254, 255, 0, 1, 9 :: u8]"
    by (simp add: patch_def disk_bytes_def upt_rec)
  note p = this
  obtain d h' where "AtaRead (user_program (sim_ports 496 of_nat)) (AtaCreate 496 0) a 510 4 ?s = ret (int (unat (4 :: u32)),
      ?s\<lparr>lheap := h', dev := d, irqs := True, bufs := (bufs ?s)(a \<mapsto> [254, 255, 0, 1, 9])\<rparr>)"
    using AtaRead_reads_disk [where ns = "[]" and img = of_nat and ty = 0, OF sim_ata_disk [of 496] _ s(1,2) _ s(4) r(2,1)] h(4) s(3)
    unfolding p by auto
  moreover let ?t = "?s\<lparr>lheap := h', dev := d, irqs := True, bufs := (bufs ?s)(a \<mapsto> [254, 255, 0, 1, 9])\<rparr>"
  have "bufs ?t a = Some [254, 255, 0, 1, 9]" by simp
  ultimately have "AtaRead (user_program (sim_ports 496 of_nat)) (AtaCreate 496 0) a 510 4 ?s = ret (4, ?t) \<and>
      bufs ?t a = Some [254, 255, 0, 1, 9]" by simp
  then show ?thesis by blast
qed

subsection \<open>Inodes and files\<close>

text \<open>Ext2ReadInode returns a fresh buffer with the bytes of the inode, found through the group
  descriptor of its group, when the super block says that inodes have at most the 128 bytes of the structure.\<close>

theorem Ext2ReadInode_returns_inode:
  assumes "ata_disk P io A img n" "valid A (dev s)" "pending A (dev s) = []" "bufs_ok user_heap_ok user_live s"
    and "user_ready (128 # read_size (inode_offset (blockSize dk) sb gd num) (inode_size sb) # ns) (lheap s)"
    and "disk \<noteq> nullptr" "disks s disk = Some dk" "disk_device dk \<noteq> nullptr" "atas s (disk_device dk) = Some (AtaCreate io ty)"
    and "bufs s (superBlock dk) = Some sb" "bufs s (groupDec dk) = Some gd"
    and "disk_tables_ok n (blockSize dk) sb gd num" "unat (inode_size sb) \<le> 128"
  shows "\<exists>p h d. Ext2ReadInode (user_program P) disk num (Some out) s = ret (STATUS_SUCCESS, Some p,
      s\<lparr>lheap := h, dev := d, irqs := True, bufs := (bufs s)(p \<mapsto> patch 0
        (disk_bytes img (unat (inode_offset (blockSize dk) sb gd num)) (unat (inode_size sb))) (map (fresh s p) [0..<128]))\<rparr>) \<and>
    p \<noteq> nullptr \<and> p \<notin> user_live (lheap s) \<and> user_live h = insert p (user_live (lheap s)) \<and> user_heap_ok h \<and>
    valid A d \<and> pending A d = []"
proof -
  have D: "ata_disk (user_program P) io A img n" using assms(1) by simp
  show ?thesis by (rule uprog.Ext2ReadInode_ok [OF D assms(2-13), where out = out]) blast
qed

text \<open>On a file system with larger inodes, Ext2ReadInode writes past the end of its buffer of 128
  bytes: it reads as many bytes as the super block gives.\<close>

theorem Ext2ReadInode_overruns:
  assumes "ata_disk P io A img n" "valid A (dev s)" "pending A (dev s) = []" "bufs_ok user_heap_ok user_live s"
    and "user_ready (128 # read_size (inode_offset (blockSize dk) sb gd num) (inode_size sb) # ns) (lheap s)"
    and "disk \<noteq> nullptr" "disks s disk = Some dk" "disk_device dk \<noteq> nullptr" "atas s (disk_device dk) = Some (AtaCreate io ty)"
    and "bufs s (superBlock dk) = Some sb" "bufs s (groupDec dk) = Some gd"
    and "disk_tables_ok n (blockSize dk) sb gd num" "128 < unat (inode_size sb)"
  shows "Ext2ReadInode (user_program P) disk num (Some out) s = halt BadAccess"
proof -
  have D: "ata_disk (user_program P) io A img n" using assms(1) by simp
  show ?thesis by (rule uprog.Ext2ReadInode_overflow [OF D assms(2-13)])
qed

lemma disk_bytes_const: "disk_bytes (\<lambda>_. v) pos n = replicate n v"
  by (simp add: disk_bytes_def map_replicate_const)

text \<open>A super block with eight inodes of some size per group, and one group with its table in block 5.\<close>

definition sim_super :: "u8 \<Rightarrow> u8 \<Rightarrow> u8 list" where
  "sim_super lo hi = replicate 40 0 @ [8, 0, 0, 0] @ replicate 44 0 @ [lo, hi]"

definition sim_groups :: "u8 list" where
  "sim_groups = replicate 8 0 @ [5, 0, 0, 0] @ replicate 20 0"

lemma sim_tables:
  "length (sim_super lo hi) = 90" "length sim_groups = 32" "le32_at (sim_super lo hi) 40 = 8"
  "le16_at (sim_super lo hi) 88 = of_nat (unat lo + 256 * unat hi)" "le32_at sim_groups 8 = 5"
  by (simp_all add: sim_super_def sim_groups_def le32_at_def le16_at_def)

lemma sim_inode_2:
  "inode_group (sim_super lo hi) 2 = 0"
  "inode_size (sim_super 128 0) = 128" "inode_offset 1024 (sim_super 128 0) sim_groups 2 = 5248"
  "inode_size (sim_super 0 1) = 256" "inode_offset 1024 (sim_super 0 1) sim_groups 2 = 5376"
  by (simp_all add: inode_group_def inode_size_def inode_offset_def sim_tables)

lemma sim_service_tables:
  assumes "distinct [a, b, c, nullptr]" "user_live h = {a, b, c}" "user_heap_ok h"
  shows "bufs_ok user_heap_ok user_live (sim_service h [a \<mapsto> sb, b \<mapsto> gd] a b)"
    "bufs (sim_service h [a \<mapsto> sb, b \<mapsto> gd] a b) a = Some sb" "bufs (sim_service h [a \<mapsto> sb, b \<mapsto> gd] a b) b = Some gd"
    "pending sim_view (dev (sim_service h B a b)) = []" "lheap (sim_service h B a b) = h"
    "disks (sim_service h B a b) 4 = Some \<lparr>disk_device = 8, superBlock = a, blockSize = 1024, groups = 1, groupDec = b\<rparr>"
    "atas (sim_service h B a b) 8 = Some (AtaCreate 496 0)" "fresh (sim_service h B a b) p i = 0"
  using assms by (auto simp: sim_service_def bufs_ok_def)

theorem Ext2ReadInode_returns_inode_witness:
  "\<exists>s p s'. Ext2ReadInode (user_program (sim_ports 496 (\<lambda>_. 7))) 4 2 (Some nullptr) s = ret (STATUS_SUCCESS, Some p, s') \<and>
     bufs (s' :: (user_heap, sim_disk) ext2) p = Some (replicate 128 7)"
proof -
  have ns: "sum_list (map pages_for [128, read_size 5248 128]) < 65000"
    by (simp add: pages_for_def block_bytes_def n_pages_def read_size_def sectors_of_def)
  obtain a b c h where h: "distinct [a, b, c, nullptr]" "user_live h = {a, b, c}" "user_heap_ok h"
      "user_ready [128, read_size 5248 128] h"
    by (rule three_blocks [OF ns])
  let ?dk = "\<lparr>disk_device = 8, superBlock = a, blockSize = 1024, groups = 1, groupDec = b\<rparr>"
  let ?s = "sim_service h [a \<mapsto> sim_super 128 0, b \<mapsto> sim_groups] a b"
  note s = sim_service_tables [OF h(1-3)]
  have t: "disk_tables_ok 100 (blockSize ?dk) (sim_super 128 0) sim_groups 2"
    by (simp add: disk_tables_ok_def sim_inode_2 sim_tables range_ok_def)
  have sz: "unat (128 :: u32) = 128" by simp
  have "patch 0 (disk_bytes (\<lambda>_. 7) (unat (5248 :: u32)) (unat (128 :: u32))) (map f [0..<128]) = replicate 128 (7 :: u8)" for f :: "nat \<Rightarrow> u8"
    by (subst patch_whole) (simp_all only: disk_bytes_const length_replicate length_map length_upt diff_zero sz)
  with Ext2ReadInode_returns_inode [where dk = ?dk and s = ?s and sb = "sim_super 128 0" and gd = sim_groups and num = 2 and disk = 4
      and ns = "[]" and ty = 0 and out = nullptr, OF sim_ata_disk [of 496 "\<lambda>_. 7"] _ s(4,1) _ _ s(6) _ _ _ _ t]
  obtain p s' where "Ext2ReadInode (user_program (sim_ports 496 (\<lambda>_. 7))) 4 2 (Some nullptr) ?s = ret (STATUS_SUCCESS, Some p, s')"
      "bufs s' p = Some (replicate 128 7)"
    using h(4) s by (auto simp: sim_inode_2)
  then show ?thesis by blast
qed

theorem Ext2ReadInode_overruns_witness:
  "\<exists>s :: (user_heap, sim_disk) ext2.
     Ext2ReadInode (user_program (sim_ports 496 (\<lambda>_. 7))) 4 2 (Some nullptr) s = halt BadAccess"
proof -
  have ns: "sum_list (map pages_for [128, read_size 5376 256]) < 65000"
    by (simp add: pages_for_def block_bytes_def n_pages_def read_size_def sectors_of_def)
  obtain a b c h where h: "distinct [a, b, c, nullptr]" "user_live h = {a, b, c}" "user_heap_ok h"
      "user_ready [128, read_size 5376 256] h"
    by (rule three_blocks [OF ns])
  let ?dk = "\<lparr>disk_device = 8, superBlock = a, blockSize = 1024, groups = 1, groupDec = b\<rparr>"
  let ?s = "sim_service h [a \<mapsto> sim_super 0 1, b \<mapsto> sim_groups] a b"
  note s = sim_service_tables [OF h(1-3)]
  have t: "disk_tables_ok 100 (blockSize ?dk) (sim_super 0 1) sim_groups 2"
    by (simp add: disk_tables_ok_def sim_inode_2 sim_tables range_ok_def)
  have "Ext2ReadInode (user_program (sim_ports 496 (\<lambda>_. 7))) 4 2 (Some nullptr) ?s = halt BadAccess"
    by (rule Ext2ReadInode_overruns [where dk = ?dk and sb = "sim_super 0 1" and gd = sim_groups and ns = "[]",
          OF sim_ata_disk [of 496 "\<lambda>_. 7"] _ s(4,1) _ _ s(6) _ _ _ _ t]) (use h(4) s in \<open>simp_all add: sim_inode_2\<close>)
  then show ?thesis by blast
qed

text \<open>C34: reading a file whose blocks are behind direct pointers and the single indirect block returns
  a fresh buffer of the size of the file, with the blocks one after the other, cut to the size; the blocks end at the first null pointer
  of each table, and what they do not cover of the buffer is left as the heap gave it. The buffers of the function are given
  back, and no other buffer changes.\<close>

theorem Ext2ReadFile_returns_file:
  assumes "ata_disk P io A img n" "bsize_ok bsize" "valid A (dev s)" "pending A (dev s) = []" "bufs_ok user_heap_ok user_live s"
    and "disk \<noteq> nullptr" "disks s disk = Some dk" "blockSize dk = bsize"
    and "disk_device dk \<noteq> nullptr" "atas s (disk_device dk) = Some (AtaCreate io ty)"
    and "bufs s inode = Some ib" "inode_ok n img bsize ib" "user_ready (file_needs img bsize ib @ ns) (lheap s)"
  shows "\<exists>p d h q. Ext2ReadFile (user_program P) disk inode inum (Some out) s = ret (STATUS_SUCCESS, Some p,
      s\<lparr>lheap := h, dev := d, irqs := q, bufs := (bufs s)(p \<mapsto> patch 0 (take (unat (le32_at ib 4)) (file_data img bsize ib))
        (map (fresh s p) [0..<unat (le32_at ib 4)]))\<rparr>) \<and>
    p \<noteq> nullptr \<and> p \<notin> user_live (lheap s) \<and> user_live h = insert p (user_live (lheap s)) \<and> user_heap_ok h \<and>
    user_ready ns h \<and> valid A d \<and> pending A d = []"
proof -
  have D: "ata_disk (user_program P) io A img n" using assms(1) by simp
  show ?thesis by (rule uprog.Ext2ReadFile_ok [OF D assms(2-13), where inum = inum and out = out]) blast
qed

text \<open>An inode of a file of ten bytes in block 6.\<close>

definition sim_inode :: "u8 list" where
  "sim_inode = replicate 4 0 @ [10, 0, 0, 0] @ replicate 32 0 @ [6, 0, 0, 0] @ replicate 84 0"


lemma le_bytes_zeros: "le_bytes (replicate n 0) = 0"
  by (induction n) simp_all

lemma sim_inode_fields:
  "le32_at sim_inode 4 = 10" "le32_at sim_inode 88 = 0" "le32_at sim_inode 92 = 0" "length sim_inode = 128"
  "used_prefix (direct_pointers sim_inode) = [6]"
  by (simp_all add: le_bytes_zeros sim_inode_def le32_at_def direct_pointers_def upt_rec)

theorem Ext2ReadFile_returns_file_witness:
  "\<exists>s i p s'. Ext2ReadFile (user_program (sim_ports 496 (\<lambda>_. 7))) 4 i 12 (Some nullptr) s = ret (STATUS_SUCCESS, Some p, s') \<and>
     bufs (s' :: (user_heap, sim_disk) ext2) p = Some (replicate 10 7)"
proof -
  have needs: "file_needs (\<lambda>_. 7) 1024 sim_inode = [10, 1024, io_size 1024]"
    by (simp add: file_needs_def sim_inode_fields)
  have ns: "sum_list (map pages_for (file_needs (\<lambda>_. 7) 1024 sim_inode)) < 65000"
    unfolding needs by (simp add: pages_for_def block_bytes_def n_pages_def io_size_def)
  obtain a b c h where h: "distinct [a, b, c, nullptr]" "user_live h = {a, b, c}" "user_heap_ok h"
      "user_ready (file_needs (\<lambda>_. 7) 1024 sim_inode) h"
    by (rule three_blocks [OF ns])
  let ?dk = "\<lparr>disk_device = 8, superBlock = a, blockSize = 1024, groups = 1, groupDec = b\<rparr>"
  let ?s = "sim_service h [a \<mapsto> sim_inode, b \<mapsto> sim_groups] a b"
  note s = sim_service_tables [OF h(1-3)]
  have data: "file_data (\<lambda>_. 7) 1024 sim_inode = replicate 1024 7"
    by (simp add: file_data_def file_pointers_def sim_inode_fields) (simp add: block_bytes_of_def disk_bytes_const)
  have i: "inode_ok 100 (\<lambda>_. 7) 1024 sim_inode"
    by (simp add: inode_ok_def sim_inode_fields file_pointers_def block_ok_def)
  have bs: "bsize_ok 1024" by (simp add: bsize_ok_def)
  have whole: "patch 0 (take (unat (le32_at sim_inode 4)) (file_data (\<lambda>_. 7) 1024 sim_inode)) (map f [0..<unat (le32_at sim_inode 4)]) =
      replicate 10 7" for f
    unfolding data by (subst patch_whole) (simp_all add: sim_inode_fields)
  obtain p s' where "Ext2ReadFile (user_program (sim_ports 496 (\<lambda>_. 7))) 4 a 12 (Some nullptr) ?s = ret (STATUS_SUCCESS, Some p, s')"
      "bufs s' p = Some (replicate 10 7)"
    using Ext2ReadFile_returns_file [where dk = ?dk and s = ?s and ib = sim_inode and inode = a and disk = 4 and inum = 12
      and ty = 0 and out = nullptr and ns = "[]", OF sim_ata_disk [of 496 "\<lambda>_. 7"] bs _ s(4,1) _ s(6) _ _ _ _ i] h(4) s
    unfolding whole by auto
  then show ?thesis by blast
qed

end
