(* ===== verification/File_Properties.thy ===== *)
theory File_Properties
  imports File_Cache Storage_Properties
begin

section \<open>Directories and paths\<close>

text \<open>
  The tree of cached files against what it stands for: the entries of a directory on the disk, as
  the bytes ext2 lays down for them, and the list of the files a directory has in the cache. Browsing
  a directory turns the one into the other, and opening a path follows it.
\<close>

subsection \<open>Directory entries\<close>

record dirent =
  de_inode :: u32
  de_name :: cstr
  de_type :: u8
  de_pad :: "u8 list"

definition entry_len :: "dirent \<Rightarrow> nat" where
  "entry_len e = 8 + length (de_name e) + length (de_pad e)"

definition entry_bytes :: "dirent \<Rightarrow> u8 list" where
  "entry_bytes e = nat_bytes 4 (unat (de_inode e)) @ nat_bytes 2 (entry_len e) @ [of_nat (length (de_name e)), de_type e] @
     de_name e @ de_pad e"

definition dir_bytes :: "dirent list \<Rightarrow> u8 list" where
  "dir_bytes es = concat (map entry_bytes es)"

definition entry_ok :: "dirent \<Rightarrow> bool" where
  "entry_ok e \<longleftrightarrow> de_name e \<noteq> [] \<and> nul_free (de_name e) \<and> length (de_name e) < 256 \<and> entry_len e < 65536"

lemma length_entry_bytes [simp]: "length (entry_bytes e) = entry_len e"
  by (simp add: entry_bytes_def entry_len_def)

lemma dir_bytes_simps [simp]: "dir_bytes [] = []" "dir_bytes (e # es) = entry_bytes e @ dir_bytes es"
  by (simp_all add: dir_bytes_def)

text \<open>The members of an entry in the middle of a buffer.\<close>

lemma rd_bytes_middle:
  "p \<noteq> nullptr \<Longrightarrow> bufs s p = Some (pre @ xs @ post) \<Longrightarrow> rd_bytes p (length pre) (length xs) s = ret xs"
  by simp

lemma entry_fields:
  assumes "p \<noteq> nullptr" "bufs s p = Some (pre @ entry_bytes e @ post)" "entry_ok e"
  shows "rd32 p (length pre) s = ret (de_inode e)"
    "rd16 p (length pre + 4) s = ret (of_nat (entry_len e))"
    "rd8 p (length pre + 6) s = ret (of_nat (length (de_name e)))"
    "rd_bytes p (length pre + 8) (length (de_name e) + k) s =
      (if length (de_name e) + k = 0 then ret [] else if k \<le> length (de_pad e @ post) then ret (de_name e @ take k (de_pad e @ post)) else halt BadAccess)"
proof -
  let ?i = "nat_bytes 4 (unat (de_inode e))" and ?l = "nat_bytes 2 (entry_len e)" and ?n = "of_nat (length (de_name e)) :: u8"
  have b: "bufs s p = Some (pre @ ?i @ ?l @ [?n, de_type e] @ de_name e @ de_pad e @ post)"
    using assms(2) by (simp add: entry_bytes_def)
  have "rd_bytes p (length pre) 4 s = ret ?i" using rd_bytes_middle [OF assms(1), of s pre ?i] b by simp
  moreover have "le_bytes ?i = unat (de_inode e)"
    using unat_lt_2p32 [of "de_inode e"] by (intro le_bytes_nat_bytes) simp
  ultimately show "rd32 p (length pre) s = ret (de_inode e)" by (simp add: rd32_def)
  have "rd_bytes p (length pre + 4) 2 s = ret ?l" using rd_bytes_middle [OF assms(1), of s "pre @ ?i" ?l] b by simp
  moreover have "le_bytes ?l = entry_len e" using assms(3) by (intro le_bytes_nat_bytes) (simp add: entry_ok_def)
  ultimately show "rd16 p (length pre + 4) s = ret (of_nat (entry_len e))" by (simp add: rd16_def)
  have "rd_bytes p (length pre + 6) 1 s = ret [?n]"
    using rd_bytes_middle [OF assms(1), of s "pre @ ?i @ ?l" "[?n]"] b by simp
  then show "rd8 p (length pre + 6) s = ret ?n" by (simp add: rd8_def)
  let ?h = "pre @ ?i @ ?l @ [?n, de_type e]"
  have d: "drop (length pre + 8) (?h @ de_name e @ de_pad e @ post) = de_name e @ de_pad e @ post"
    by (simp add: drop_append [of "length ?h" ?h, simplified])
  show "rd_bytes p (length pre + 8) (length (de_name e) + k) s =
      (if length (de_name e) + k = 0 then ret [] else if k \<le> length (de_pad e @ post) then ret (de_name e @ take k (de_pad e @ post)) else halt BadAccess)"
    using assms(1) b d by (auto simp: rd_bytes_def deref_def)
qed

subsection \<open>What a directory has cached\<close>

definition names_ok :: "(cstr \<times> u32) list \<Rightarrow> bool" where
  "names_ok L \<longleftrightarrow> (\<forall>(n, i) \<in> set L. n \<noteq> [] \<and> nul_free n)"

definition cached_as :: "('h, 'd, 'z) fs_scheme \<Rightarrow> addr \<Rightarrow> addr \<Rightarrow> cstr \<times> u32 \<Rightarrow> bool" where
  "cached_as s dr p = (\<lambda>(name, ino). \<exists>f. files s p = Some f \<and> f_name f \<noteq> nullptr \<and> bufs s (f_name f) = Some (name @ [0]) \<and>
     f_inum f = sint ino \<and> f_parent f = dr \<and> f_disk f = gExt2Disk s)"

definition dir_caches :: "('h, 'd, 'z) fs_scheme \<Rightarrow> addr \<Rightarrow> addr list \<Rightarrow> (cstr \<times> u32) list \<Rightarrow> bool" where
  "dir_caches s dr ps L \<longleftrightarrow> (\<exists>d. files s dr = Some d \<and> chain f_next (files s) (f_leaf d) ps) \<and> dr \<notin> set ps \<and>
     list_all2 (cached_as s dr) ps L \<and> names_ok L"

text \<open>The entries a directory gets when it is browsed: the last one first, no name twice.\<close>

fun cache_names :: "dirent list \<Rightarrow> (cstr \<times> u32) list \<Rightarrow> (cstr \<times> u32) list" where
  "cache_names [] L = L"
| "cache_names (e # es) L = cache_names es
     (if de_name e \<in> {[46], [46, 46]} \<or> de_name e \<in> fst ` set L then L else (de_name e, de_inode e) # L)"

lemma takeWhile_name: "nul_free name \<Longrightarrow> takeWhile (\<lambda>b. b \<noteq> 0) (name @ 0 # rest) = name"
  by (induction name) (auto simp: nul_free_def)

lemma rd_str_name: "p \<noteq> nullptr \<Longrightarrow> bufs s p = Some (name @ 0 # rest) \<Longrightarrow> nul_free name \<Longrightarrow> rd_str p 0 s = ret name"
  by (simp add: rd_str_def deref_def takeWhile_name)

lemma IsCached_loop_chain:
  assumes "name \<noteq> []" "nul_free name"
  shows "chain f_next (files s) p ps \<Longrightarrow> list_all2 (cached_as s dr) ps L \<Longrightarrow> names_ok L \<Longrightarrow>
    IsCached_loop p name s = ret (case find (\<lambda>(q, n, i). n = name) (zip ps L) of None \<Rightarrow> (False, nullptr) | Some (q, x) \<Rightarrow> (True, q))"
proof (induction ps arbitrary: p L)
  case Nil
  then show ?case by (subst IsCached_loop.simps) simp
next
  case (Cons q ps)
  obtain n i L' where L: "L = (n, i) # L'" "cached_as s dr q (n, i)" "list_all2 (cached_as s dr) ps L'"
    using Cons.prems(2) by (cases L) auto
  obtain f where f: "files s q = Some f" "f_name f \<noteq> nullptr" "bufs s (f_name f) = Some (n @ [0])"
    using L(2) by (auto simp: cached_as_def)
  have c: "p = q" "q \<noteq> nullptr" "chain f_next (files s) (f_next f) ps" using Cons.prems(1) f(1) by auto
  have n: "n \<noteq> []" "nul_free n" "names_ok L'" using Cons.prems(3) L(1) by (auto simp: names_ok_def)
  have "rd_str (f_name f) 0 s = ret n" using rd_str_name [OF f(2), of s n "[]"] f(3) n(2) by simp
  then show ?case
    using Cons.IH [OF c(3) L(3) n(3)] StrCmp_0_iff [OF n(1) assms(1) n(2) assms(2)] c f(1,2) L(1)
    by (subst IsCached_loop.simps) (simp add: deref_def)
qed

lemma find_zip_None:
  "length ps = length L \<Longrightarrow> find (\<lambda>(q, n, i). n = name) (zip ps L) = None \<longleftrightarrow> name \<notin> fst ` set L"
  by (induction ps L rule: list_induct2) auto

lemma IsCached_dir:
  assumes d: "dr \<noteq> nullptr" "dir_caches s dr ps L" and n: "name \<noteq> []" "nul_free name"
  shows "IsCached dr (Some name) None s = ret (name \<in> fst ` set L, None)"
    "IsCached dr (Some name) (Some out) s = ret (case find (\<lambda>(q, n, i). n = name) (zip ps L) of
       None \<Rightarrow> (False, Some out) | Some (q, x) \<Rightarrow> (True, Some q))"
proof -
  obtain x where x: "files s dr = Some x" "chain f_next (files s) (f_leaf x) ps" "list_all2 (cached_as s dr) ps L" "names_ok L"
    using d(2) by (auto simp: dir_caches_def)
  note loop = IsCached_loop_chain [OF n x(2-4)]
  have len: "length ps = length L" using x(3) by (rule list_all2_lengthD)
  show "IsCached dr (Some name) None s = ret (name \<in> fst ` set L, None)"
    using loop d(1) x(1) find_zip_None [OF len, of name]
    by (cases "find (\<lambda>(q, n, i). n = name) (zip ps L)") (auto simp: IsCached_def deref_def)
  show "IsCached dr (Some name) (Some out) s = ret (case find (\<lambda>(q, n, i). n = name) (zip ps L) of
       None \<Rightarrow> (False, Some out) | Some (q, x) \<Rightarrow> (True, Some q))"
    using loop d(1) x(1)
    by (cases "find (\<lambda>(q, n, i). n = name) (zip ps L)") (auto simp: IsCached_def deref_def)
qed

subsection \<open>Browsing\<close>

definition fs_ok :: "('h \<Rightarrow> bool) \<Rightarrow> ('h \<Rightarrow> addr set) \<Rightarrow> ('h, 'd, 'z) fs_scheme \<Rightarrow> bool" where
  "fs_ok invar live s \<longleftrightarrow> bufs_ok invar live s \<and> dom (files s) \<subseteq> live (lheap s) \<and> nullptr \<notin> dom (files s)"

text \<open>
  A state that comes from another by new objects: what the heap, the device and the files do not hold is
  the same, no object goes and no file is closed. \<open>grown\<close>: by new files of a directory; buffers keep
  their bytes, the directory keeps everything but its list.
\<close>

definition is_open :: "('h, 'd, 'z) fs_scheme \<Rightarrow> addr \<Rightarrow> bool" where
  "is_open s p \<longleftrightarrow> (\<exists>f. files s p = Some f \<and> f_opened f)"

definition kept :: "('h \<Rightarrow> addr set) \<Rightarrow> ('h, 'd, 'z) fs_scheme \<Rightarrow> ('h, 'd, 'z) fs_scheme \<Rightarrow> bool" where
  "kept live s s' \<longleftrightarrow> (\<exists>h B d q F. s' = s\<lparr>lheap := h, bufs := B, dev := d, irqs := q, files := F\<rparr>) \<and>
     live (lheap s) \<subseteq> live (lheap s') \<and> (\<forall>p. is_open s p \<longrightarrow> is_open s' p)"

definition grown :: "('h \<Rightarrow> addr set) \<Rightarrow> addr \<Rightarrow> ('h, 'd, 'z) fs_scheme \<Rightarrow> ('h, 'd, 'z) fs_scheme \<Rightarrow> bool" where
  "grown live dr s s' \<longleftrightarrow> (\<exists>h F B. s' = s\<lparr>lheap := h, files := F, bufs := B\<rparr>) \<and> bufs s \<subseteq>\<^sub>m bufs s' \<and>
     map_option (\<lambda>d. d\<lparr>f_leaf := nullptr\<rparr>) (files s' dr) = map_option (\<lambda>d. d\<lparr>f_leaf := nullptr\<rparr>) (files s dr) \<and>
     live (lheap s) \<subseteq> live (lheap s') \<and> (\<forall>p. is_open s p \<longrightarrow> is_open s' p)"

lemma kept_refl: "kept live s s"
  unfolding kept_def
  by (intro conjI exI [of _ "lheap s"] exI [of _ "bufs s"] exI [of _ "dev s"] exI [of _ "irqs s"] exI [of _ "files s"]) simp_all

lemma kept_trans:
  assumes "kept live s s1" "kept live s1 s2"
  shows "kept live s s2"
proof -
  obtain h B d q F where s1: "s1 = s\<lparr>lheap := h, bufs := B, dev := d, irqs := q, files := F\<rparr>" using assms(1) by (auto simp: kept_def)
  obtain h' B' d' q' F' where s2: "s2 = s1\<lparr>lheap := h', bufs := B', dev := d', irqs := q', files := F'\<rparr>" using assms(2) by (auto simp: kept_def)
  have "s2 = s\<lparr>lheap := h', bufs := B', dev := d', irqs := q', files := F'\<rparr>" unfolding s2 s1 by simp
  then have "\<exists>h B d q F. s2 = s\<lparr>lheap := h, bufs := B, dev := d, irqs := q, files := F\<rparr>" by blast
  with assms show ?thesis unfolding kept_def by blast
qed

lemma grown_kept:
  assumes "grown live dr s s'"
  shows "kept live s s'"
proof -
  obtain h F B where s': "s' = s\<lparr>lheap := h, files := F, bufs := B\<rparr>" using assms by (auto simp: grown_def)
  have "s' = s\<lparr>lheap := h, bufs := B, dev := dev s, irqs := irqs s, files := F\<rparr>" unfolding s' by simp
  then have "\<exists>h B d q F. s' = s\<lparr>lheap := h, bufs := B, dev := d, irqs := q, files := F\<rparr>" by blast
  with assms show ?thesis unfolding kept_def grown_def by blast
qed

lemma grown_refl: "grown live dr s s"
  unfolding grown_def by (intro conjI exI [of _ "lheap s"] exI [of _ "files s"] exI [of _ "bufs s"]) simp_all

lemma grown_trans:
  assumes "grown live dr s s1" "grown live dr s1 s2"
  shows "grown live dr s s2"
proof -
  obtain h F B where s1: "s1 = s\<lparr>lheap := h, files := F, bufs := B\<rparr>" using assms(1) by (auto simp: grown_def)
  obtain h' F' B' where s2: "s2 = s1\<lparr>lheap := h', files := F', bufs := B'\<rparr>" using assms(2) by (auto simp: grown_def)
  have "s2 = s\<lparr>lheap := h', files := F', bufs := B'\<rparr>" unfolding s2 s1 by simp
  then have "\<exists>h F B. s2 = s\<lparr>lheap := h, files := F, bufs := B\<rparr>" by blast
  with assms show ?thesis unfolding grown_def by (auto intro: map_le_trans)
qed

lemma cached_as_grow:
  assumes "cached_as s dr p x" "\<And>f. files s p = Some f \<Longrightarrow> \<exists>b. files s' p = Some (f\<lparr>f_prev := b\<rparr>)"
    and "bufs s \<subseteq>\<^sub>m bufs s'" "gExt2Disk s' = gExt2Disk s"
  shows "cached_as s' dr p x"
proof -
  obtain name ino where x: "x = (name, ino)" by (cases x)
  obtain f where f: "files s p = Some f" "f_name f \<noteq> nullptr" "bufs s (f_name f) = Some (name @ [0])" "f_inum f = sint ino"
      "f_parent f = dr" "f_disk f = gExt2Disk s"
    using assms(1) unfolding x cached_as_def by auto
  obtain b where b: "files s' p = Some (f\<lparr>f_prev := b\<rparr>)" using assms(2) [OF f(1)] by blast
  have "bufs s' (f_name f) = Some (name @ [0])" using assms(3) f(3) by (metis map_le_def domI)
  then show ?thesis unfolding x cached_as_def using f b assms(4) by simp
qed

text \<open>
  Files that have only been cached. \<open>opened\<close> of a new file is what its memory held, so this needs
  memory that is zero there.
\<close>

definition unread :: "('h, 'd, 'z) fs_scheme \<Rightarrow> addr list \<Rightarrow> bool" where
  "unread s ps \<longleftrightarrow> (\<forall>q \<in> set ps. \<exists>f. files s q = Some f \<and> \<not> f_opened f \<and> f_inode f = nullptr \<and> f_leaf f = nullptr)"

definition zeroed :: "('h, 'd, 'z) prog_scheme \<Rightarrow> bool" where
  "zeroed s \<longleftrightarrow> (\<forall>p. fresh s p 20 = 0)"

lemma grown_same: "grown live dr s s' \<Longrightarrow> fresh s' = fresh s \<and> dev s' = dev s \<and> disks s' = disks s \<and> atas s' = atas s \<and>
    gExt2Disk s' = gExt2Disk s \<and> gRootFile s' = gRootFile s"
  by (auto simp: grown_def)

lemma dir_caches_bufs:
  assumes "dir_caches s dr ps L" "files s' = files s" "bufs s \<subseteq>\<^sub>m bufs s'" "gExt2Disk s' = gExt2Disk s"
  shows "dir_caches s' dr ps L"
proof -
  have "list_all2 (cached_as s dr) ps L" using assms(1) by (simp add: dir_caches_def)
  then have "list_all2 (cached_as s' dr) ps L"
  proof (rule list.rel_mono_strong)
    fix q x
    assume q: "cached_as s dr q x"
    have "\<exists>b. files s' q = Some (f\<lparr>f_prev := b\<rparr>)" if "files s q = Some f" for f
      using that assms(2) by (intro exI [of _ "f_prev f"]) simp
    then show "cached_as s' dr q x" by (rule cached_as_grow [OF q _ assms(3,4)])
  qed
  with assms(1,2) show ?thesis by (simp add: dir_caches_def)
qed

lemma rd_cong:
  assumes "bufs s' = bufs s"
  shows "rd_bytes p pos n s' = rd_bytes p pos n s" "rd8 p pos s' = rd8 p pos s" "rd16 p pos s' = rd16 p pos s"
    "rd32 p pos s' = rd32 p pos s"
  by (simp_all add: assms rd8_def rd16_def rd32_def rd_bytes_def)

text \<open>Putting a file in front of the list.\<close>

lemma push_file:
  assumes d: "dir_caches s dr ps L" "files s dr = Some d" "dr \<noteq> nullptr"
    and p: "p \<noteq> nullptr" "p \<notin> dom (files s)"
    and F: "f_name F \<noteq> nullptr" "bufs s' (f_name F) = Some (name @ [0])" "f_inum F = sint ino" "f_parent F = dr"
      "f_disk F = gExt2Disk s" "f_next F = f_leaf d" and n: "name \<noteq> []" "nul_free name"
    and s': "files s' = (if f_leaf d = nullptr then (files s)(p \<mapsto> F, dr \<mapsto> d\<lparr>f_leaf := p\<rparr>)
        else (files s)(p \<mapsto> F, f_leaf d \<mapsto> (the (files s (f_leaf d)))\<lparr>f_prev := p\<rparr>, dr \<mapsto> d\<lparr>f_leaf := p\<rparr>))"
      "bufs s \<subseteq>\<^sub>m bufs s'" "gExt2Disk s' = gExt2Disk s"
  shows "dir_caches s' dr (p # ps) ((name, ino) # L)"
proof -
  have c: "chain f_next (files s) (f_leaf d) ps" "dr \<notin> set ps" "list_all2 (cached_as s dr) ps L" "names_ok L"
    using d(1,2) by (auto simp: dir_caches_def)
  have pd: "p \<noteq> dr" "p \<notin> set ps" using p(2) d(2) chain_dom [OF c(1)] by auto
  have old: "\<exists>b. files s' q = Some (f\<lparr>f_prev := b\<rparr>)" if "q \<in> set ps" "files s q = Some f" for q f
  proof -
    have "q \<noteq> dr" "q \<noteq> p" using that c(2) pd by auto
    then have "files s' q = (if q = f_leaf d then Some (f\<lparr>f_prev := p\<rparr>) else Some (f\<lparr>f_prev := f_prev f\<rparr>))"
      using that chain_not_null [OF c(1)] unfolding s'(1) by auto
    then show ?thesis by metis
  qed
  have "map_option f_next (files s' q) = map_option f_next (files s q)" if q: "q \<in> set ps" for q
  proof -
    obtain f where f: "files s q = Some f" using q chain_dom [OF c(1)] by auto
    with old [OF q f] show ?thesis by auto
  qed
  then have ch: "chain f_next (files s') (f_leaf d) ps" using c(1) chain_cong by blast
  have leaf: "f_leaf d \<noteq> nullptr \<Longrightarrow> f_leaf d \<in> set ps" using c(1) by (cases ps) auto
  then have fp: "files s' p = Some F" using s'(1) pd by auto
  have fd: "files s' dr = Some (d\<lparr>f_leaf := p\<rparr>)" using s'(1) by simp
  have "list_all2 (cached_as s' dr) ps L"
    using c(3)
  proof (rule list.rel_mono_strong)
    fix q x
    assume q: "q \<in> set ps" "cached_as s dr q x"
    show "cached_as s' dr q x" by (rule cached_as_grow [OF q(2) old [OF q(1)] s'(2,3)])
  qed
  moreover have "cached_as s' dr p (name, ino)" using fp F s'(3) by (simp add: cached_as_def)
  ultimately show ?thesis using ch fp fd c(2,4) pd(1) F(6) n p(1) by (simp add: dir_caches_def names_ok_def)
qed

lemma upd_file_ok: "p \<noteq> nullptr \<Longrightarrow> files s p = Some f \<Longrightarrow> upd_file p g s = ret (s\<lparr>files := (files s)(p \<mapsto> g f)\<rparr>)"
  by (simp add: upd_file_def deref_def)

lemma patch_last: "patch (length xs) [y] (xs @ [x]) = xs @ [y]"
  by (simp add: patch_def)

lemma deref_ok: "p \<noteq> nullptr \<Longrightarrow> m p = Some x \<Longrightarrow> deref m p = ret x"
  by (simp add: deref_def)

text \<open>The allocations of a browsing.\<close>

definition dir_needs :: "dirent list \<Rightarrow> int list" where
  "dir_needs es = concat (map (\<lambda>e. [1 + int (length (de_name e)), sizeof_File]) es)"

lemma dir_needs_simps [simp]:
  "dir_needs [] = []" "dir_needs (e # es) = (1 + int (length (de_name e))) # sizeof_File # dir_needs es"
  by (simp_all add: dir_needs_def)

text \<open>
  The content of a directory: entries one behind the other, with a byte behind the last name, and not at
  the end of the address space.
\<close>

definition dir_content :: "addr \<Rightarrow> nat \<Rightarrow> dirent list \<Rightarrow> bool" where
  "dir_content content pos es \<longleftrightarrow> (\<forall>e \<in> set es. entry_ok e) \<and> (es \<noteq> [] \<longrightarrow> de_pad (last es) \<noteq> []) \<and>
     unat content + pos + length (dir_bytes es) < 4294967296"

lemma dir_content_Cons:
  assumes "dir_content content pos (e # es)"
  shows "entry_ok e" "dir_content content (pos + entry_len e) es" "de_pad e @ dir_bytes es \<noteq> []"
    "unat content + pos + entry_len e + length (dir_bytes es) < 4294967296" "entry_len e < 65536" "0 < entry_len e"
proof -
  show e: "entry_ok e" and "dir_content content (pos + entry_len e) es"
    and "unat content + pos + entry_len e + length (dir_bytes es) < 4294967296"
    using assms by (auto simp: dir_content_def add.assoc split: if_splits)
  show "entry_len e < 65536" using e by (simp add: entry_ok_def)
  show "0 < entry_len e" by (simp add: entry_len_def)
  show "de_pad e @ dir_bytes es \<noteq> []"
  proof (cases es)
    case Nil
    then show ?thesis using assms by (simp add: dir_content_def)
  next
    case (Cons x xs)
    have "entry_bytes x \<noteq> []" by (simp add: entry_bytes_def)
    then show ?thesis using Cons by simp
  qed
qed

subsection \<open>Opening\<close>

text \<open>
  A mounted disk: the tables are in memory, the device is idle. \<open>file_whole\<close>: the inode of a file
  whose blocks cover its size.
\<close>

definition mounted ::
  "'d ata_view \<Rightarrow> u16 \<Rightarrow> ('h, 'd, 'z) fs_scheme \<Rightarrow> Ext2Disk \<Rightarrow> u8 list \<Rightarrow> u8 list \<Rightarrow> bool" where
  "mounted A io s dk sb gd \<longleftrightarrow> valid A (dev s) \<and> pending A (dev s) = [] \<and> gExt2Disk s \<noteq> nullptr \<and>
     disks s (gExt2Disk s) = Some dk \<and> disk_device dk \<noteq> nullptr \<and> (\<exists>ty. atas s (disk_device dk) = Some (AtaCreate io ty)) \<and>
     bufs s (superBlock dk) = Some sb \<and> bufs s (groupDec dk) = Some gd \<and> bsize_ok (blockSize dk)"

definition file_content :: "(nat \<Rightarrow> u8) \<Rightarrow> u32 \<Rightarrow> u8 list \<Rightarrow> u8 list" where
  "file_content img bsize ib = take (unat (le32_at ib 4)) (file_data img bsize ib)"

definition file_whole :: "nat \<Rightarrow> (nat \<Rightarrow> u8) \<Rightarrow> u32 \<Rightarrow> u8 list \<Rightarrow> bool" where
  "file_whole n img bsize ib \<longleftrightarrow> inode_ok n img bsize ib \<and> unat (le32_at ib 4) \<le> length (file_data img bsize ib)"

definition inode_bytes :: "(nat \<Rightarrow> u8) \<Rightarrow> u32 \<Rightarrow> u8 list \<Rightarrow> u8 list \<Rightarrow> int \<Rightarrow> u8 list" where
  "inode_bytes img bsize sb gd num = disk_bytes img (unat (inode_offset bsize sb gd num)) 128"

text \<open>The inode of a number, on a file system with inodes of 128 bytes.\<close>

definition inode_at :: "nat \<Rightarrow> u32 \<Rightarrow> u8 list \<Rightarrow> u8 list \<Rightarrow> int \<Rightarrow> bool" where
  "inode_at n bsize sb gd num \<longleftrightarrow> disk_tables_ok n bsize sb gd num \<and> inode_size sb = 128"

definition inode_needs :: "u32 \<Rightarrow> u8 list \<Rightarrow> u8 list \<Rightarrow> int \<Rightarrow> int list" where
  "inode_needs bsize sb gd num = [128, read_size (inode_offset bsize sb gd num) 128]"

context prog_heap
begin

lemma alloc_file_ok:
  assumes "invar (lheap s)" "ready (sizeof_File # ns) (lheap s)"
  obtains p h where "alloc_file M s = ret (p, s\<lparr>lheap := h, files := (files s)(p \<mapsto> fresh_File s p)\<rparr>)"
    "p \<noteq> nullptr" "p \<notin> live (lheap s)" "live h = insert p (live (lheap s))" "invar h" "ready ns h"
proof -
  obtain p h where a: "heap_alloc M sizeof_File (lheap s) = ret (p, h)"
    using alloc_returns [OF assms(1) _ _ assms(2)] by auto
  have "p \<noteq> nullptr \<and> p \<notin> live (lheap s) \<and> live h = insert p (live (lheap s)) \<and> invar h \<and> ready ns h"
    by (rule alloc_fresh [OF assms(1) _ _ assms(2) a]) simp_all
  then show thesis by (intro that [of p h]) (simp_all add: alloc_file_def a)
qed

lemma cache_file_ok:
  assumes s: "fs_ok invar live s" "dir_caches s dr ps L" "dr \<noteq> nullptr" "ready (sizeof_File # ns) (lheap s)"
    and q: "q \<noteq> nullptr" "bufs s q = Some (name @ [0])" "name \<noteq> []" "nul_free name"
    and ino: "rd32 content pos s = ret ino"
  obtains s' p where "cache_file M dr q content pos s = ret (True, s')" "fs_ok invar live s'"
    "dir_caches s' dr (p # ps) ((name, ino) # L)" "grown live dr s s'" "bufs s' = bufs s" "ready ns (lheap s')" "zeroed s \<longrightarrow> unread s ps \<longrightarrow> unread s' (p # ps)"
proof -
  have ok: "invar (lheap s)" "dom (bufs s) \<subseteq> live (lheap s)" "nullptr \<notin> dom (bufs s)" "dom (files s) \<subseteq> live (lheap s)"
      "nullptr \<notin> dom (files s)"
    using s(1) by (auto simp: fs_ok_def bufs_ok_def)
  obtain d where d: "files s dr = Some d" "chain f_next (files s) (f_leaf d) ps" "dr \<notin> set ps"
    using s(2) by (auto simp: dir_caches_def)
  obtain p h where p: "alloc_file M s = ret (p, s\<lparr>lheap := h, files := (files s)(p \<mapsto> fresh_File s p)\<rparr>)"
    "p \<noteq> nullptr" "p \<notin> live (lheap s)" "live h = insert p (live (lheap s))" "invar h" "ready ns h"
    by (rule alloc_file_ok [OF ok(1) s(4)])
  have pd: "p \<notin> dom (files s)" "p \<noteq> dr" using p(3) ok(4) d(1) by auto
  let ?F = "(fresh_File s p)\<lparr>f_content := nullptr, f_disk := gExt2Disk s, f_inode := nullptr, f_inum := sint ino,
      f_leaf := nullptr, f_name := q, f_next := f_leaf d, f_parent := dr, f_prev := nullptr\<rparr>"
  let ?fs = "if f_leaf d = nullptr then (files s)(p \<mapsto> ?F, dr \<mapsto> d\<lparr>f_leaf := p\<rparr>)
    else (files s)(p \<mapsto> ?F, f_leaf d \<mapsto> (the (files s (f_leaf d)))\<lparr>f_prev := p\<rparr>, dr \<mapsto> d\<lparr>f_leaf := p\<rparr>)"
  let ?s = "s\<lparr>lheap := h, files := ?fs\<rparr>"
  have leaf: "f_leaf d \<in> dom (files s) \<and> f_leaf d \<noteq> dr \<and> f_leaf d \<noteq> p" if "f_leaf d \<noteq> nullptr"
    using that d(2,3) chain_dom [OF d(2)] pd(1) by (cases ps) auto
  let ?s1 = "s\<lparr>lheap := h, files := (files s)(p \<mapsto> fresh_File s p)\<rparr>"
  have ino1: "rd32 content pos ?s1 = ret ino" using ino by (simp add: rd_cong(4) [of ?s1 s])
  have call: "cache_file M dr q content pos s = ret (True, ?s)"
  proof (cases "f_leaf d = nullptr")
    case True
    show ?thesis
      unfolding cache_file_def p(1) using p(2) ino1 True d(1) pd(2) s(3) by (simp add: upd_file_ok deref_ok fresh_File_def)
  next
    case False
    then obtain l where "files s (f_leaf d) = Some l" "dr \<noteq> f_leaf d" "f_leaf d \<noteq> p" "dr \<noteq> p"
      using leaf pd(2) by auto
    then show ?thesis
      unfolding cache_file_def p(1) using p(2) ino1 False d(1) s(3) by (simp add: upd_file_ok deref_ok fresh_File_def)
  qed
  have dc: "dir_caches ?s dr (p # ps) ((name, ino) # L)"
    by (rule push_file [OF s(2) d(1) s(3) p(2) pd(1), where F = ?F]) (use q in \<open>simp_all add: fresh_File_def\<close>)
  have sub: "dom ?fs \<subseteq> live h" using ok(4) p(4) leaf d(1) by auto
  have nn: "nullptr \<notin> dom ?fs" using ok(5) p(2) s(3) by auto
  have fok: "fs_ok invar live ?s"
    unfolding fs_ok_def bufs_ok_def using ok(2,3) p(4,5) sub nn by (simp add: subset_insertI2)
  have gr: "grown live dr s ?s"
    unfolding grown_def
  proof (intro conjI allI impI exI [of _ h] exI [of _ ?fs] exI [of _ "bufs s"])
    fix q assume "is_open s q"
    then obtain f where f: "files s q = Some f" "f_opened f" by (auto simp: is_open_def)
    have "q \<noteq> p" using f(1) pd(1) by auto
    then have "?fs q = (if q = dr then Some (d\<lparr>f_leaf := p\<rparr>) else if f_leaf d \<noteq> nullptr \<and> q = f_leaf d then Some (f\<lparr>f_prev := p\<rparr>) else Some f)"
      using f(1) by auto
    moreover have "q = dr \<Longrightarrow> f_opened d" using f d(1) by simp
    ultimately show "is_open ?s q" using f(2) by (auto simp: is_open_def)
  qed (use d(1) p(4) in auto)
  have "unread ?s (p # ps)" if "zeroed s" "unread s ps"
  proof -
    have "\<exists>f. ?fs q = Some f \<and> \<not> f_opened f \<and> f_inode f = nullptr \<and> f_leaf f = nullptr" if q: "q \<in> set ps" for q
    proof -
      obtain f where f: "files s q = Some f" "\<not> f_opened f" "f_inode f = nullptr" "f_leaf f = nullptr"
        using \<open>unread s ps\<close> q by (auto simp: unread_def)
      have "q \<noteq> p" "q \<noteq> dr" using q f(1) pd(1) d(3) by auto
      then have "?fs q = (if f_leaf d = nullptr \<or> q \<noteq> f_leaf d then Some f else Some (f\<lparr>f_prev := p\<rparr>))" using f(1) by auto
      with f show ?thesis by auto
    qed
    moreover have "?fs p = Some ?F" using leaf pd(2) by auto
    moreover have "\<not> f_opened ?F" using \<open>zeroed s\<close> by (simp add: zeroed_def fresh_File_def)
    ultimately show ?thesis by (simp add: unread_def)
  qed
  then show thesis by (intro that [OF call fok dc gr]) (use p(6) in simp_all)
qed

text \<open>
  One entry: the name is copied into a buffer of its own; it stays when the entry is cached.
\<close>

lemma browse_name:
  assumes s: "bufs_ok invar live s" "ready ((1 + int (length (de_name e))) # ns) (lheap s)" and e: "entry_ok e"
    and b: "bufs s content = Some (pre @ entry_bytes e @ post)" "de_pad e @ post \<noteq> []"
  obtains q h where "q \<noteq> nullptr" "q \<notin> live (lheap s)" "live h = insert q (live (lheap s))" "invar h" "ready ns h"
    "browse_entry M dr content (length pre) s =
      (let s3 = s\<lparr>lheap := h, bufs := (bufs s)(q \<mapsto> de_name e @ [0])\<rparr> in
       if de_name e \<in> {[46], [46, 46]} then andThen (buf_free M q s3) (\<lambda>s4. ret (True, s4))
       else andThen (IsCached dr (Some (de_name e)) None s3) (\<lambda>(cached, _).
         if \<not> cached then cache_file M dr q content (length pre) s3
         else andThen (buf_free M q s3) (\<lambda>s4. ret (True, s4))))"
proof -
  have ok: "invar (lheap s)" "dom (bufs s) \<subseteq> live (lheap s)" "nullptr \<notin> dom (bufs s)" using s(1) by (auto simp: bufs_ok_def)
  have n: "de_name e \<noteq> []" "nul_free (de_name e)" "length (de_name e) < 256" using e by (simp_all add: entry_ok_def)
  have cz: "content \<noteq> nullptr" using b(1) ok(3) by auto
  obtain q h where a: "buf_alloc M (1 + int (length (de_name e))) s = ret (q, s\<lparr>lheap := h, bufs := (bufs s)(q \<mapsto>
        map (fresh s q) [0..<nat (1 + int (length (de_name e)))])\<rparr>)"
      "q \<noteq> nullptr" "q \<notin> live (lheap s)" "live h = insert q (live (lheap s))" "invar h" "ready ns h"
    by (rule buf_alloc_ok [OF ok(1) _ _ s(2)]) (use n(3) in simp_all)
  let ?raw = "map (fresh s q) [0..<nat (1 + int (length (de_name e)))]"
  let ?s1 = "s\<lparr>lheap := h, bufs := (bufs s)(q \<mapsto> ?raw)\<rparr>" and ?s3 = "s\<lparr>lheap := h, bufs := (bufs s)(q \<mapsto> de_name e @ [0])\<rparr>"
  have cq: "content \<noteq> q" using b(1) ok(2) a(3) by auto
  have b1: "bufs ?s1 content = Some (pre @ entry_bytes e @ post)" using b(1) cq by simp
  have len: "length ?raw = length (de_name e) + 1" by simp
  have u8n: "unat (of_nat (length (de_name e)) :: u8) = length (de_name e)" using n(3) by (simp add: unat_of_nat)
  have u: "unat (ucast (of_nat (length (de_name e)) :: u8) + 1 :: u32) = length (de_name e) + 1"
  proof -
    have "unat (ucast (of_nat (length (de_name e)) :: u8) :: u32) = length (de_name e)" using u8n n(3) by (simp add: unsigned_ucast_eq take_bit_nat_eq_self del: unat_of_nat)
    then show ?thesis using n(3) by (subst unat_add_nowrap) simp_all
  qed
  obtain x xs where x: "de_pad e @ post = x # xs" using b(2) by (cases "de_pad e @ post") auto
  have rd: "rd_bytes content (length pre + 8) (length (de_name e) + 1) ?s1 = ret (de_name e @ [x])"
    unfolding entry_fields(4) [OF cz b1 e] x by simp
  have copy: "buf_copy content (length pre + 8) q 0 (ucast (of_nat (length (de_name e)) :: u8) + 1) ?s1 =
      ret (s\<lparr>lheap := h, bufs := (bufs s)(q \<mapsto> de_name e @ [x])\<rparr>)"
    unfolding buf_copy_def u rd using a(2) len patch_whole [of "de_name e @ [x]" ?raw] by (simp add: del: length_map)
  have wr: "wr_bytes q (length (de_name e)) [0] (s\<lparr>lheap := h, bufs := (bufs s)(q \<mapsto> de_name e @ [x])\<rparr>) = ret ?s3"
    using a(2) by (simp add: patch_last)
  have str: "rd_str q 0 ?s3 = ret (de_name e)" using a(2) n(2) by (intro rd_str_name [where rest = "[]"]) simp_all
  have dots: "StrCmp (Some (de_name e)) (Some [46]) = 0 \<longleftrightarrow> de_name e = [46]"
      "StrCmp (Some (de_name e)) (Some [46, 46]) = 0 \<longleftrightarrow> de_name e = [46, 46]"
    using n by (simp_all add: StrCmp_0_iff nul_free_def)
  have bn: "int (length (de_name e)) + 1 = 1 + int (length (de_name e))" by simp
  have "browse_entry M dr content (length pre) s =
      (let s3 = ?s3 in
       if de_name e \<in> {[46], [46, 46]} then andThen (buf_free M q s3) (\<lambda>s4. ret (True, s4))
       else andThen (IsCached dr (Some (de_name e)) None s3) (\<lambda>(cached, _).
         if \<not> cached then cache_file M dr q content (length pre) s3
         else andThen (buf_free M q s3) (\<lambda>s4. ret (True, s4))))"
    unfolding browse_entry_def entry_fields(3) [OF cz b(1) e] andThen_ret u8n bn a(1) prod.case
    using a(2) by (simp add: copy wr str dots patch_last Let_def del: wr_bytes_ok)
  then show thesis using a by (intro that) simp_all
qed

lemma browse_entry_ok:
  assumes s: "fs_ok invar live s" "dir_caches s dr ps L" "dr \<noteq> nullptr"
      "ready ((1 + int (length (de_name e))) # sizeof_File # ns) (lheap s)" and e: "entry_ok e"
    and b: "bufs s content = Some (pre @ entry_bytes e @ post)" "de_pad e @ post \<noteq> []"
  obtains s' ps' where "browse_entry M dr content (length pre) s = ret (True, s')" "fs_ok invar live s'"
    "dir_caches s' dr ps' (cache_names [e] L)" "grown live dr s s'" "ready ns (lheap s')"
    "zeroed s \<longrightarrow> unread s ps \<longrightarrow> unread s' ps'"
proof -
  have ok: "bufs_ok invar live s" "dom (bufs s) \<subseteq> live (lheap s)" "nullptr \<notin> dom (bufs s)" "dom (files s) \<subseteq> live (lheap s)"
      "nullptr \<notin> dom (files s)"
    using s(1) by (auto simp: fs_ok_def bufs_ok_def)
  have n: "de_name e \<noteq> []" "nul_free (de_name e)" using e by (simp_all add: entry_ok_def)
  obtain q h where q: "q \<noteq> nullptr" "q \<notin> live (lheap s)" "live h = insert q (live (lheap s))" "invar h" "ready (sizeof_File # ns) h"
    and call: "browse_entry M dr content (length pre) s =
      (let s3 = s\<lparr>lheap := h, bufs := (bufs s)(q \<mapsto> de_name e @ [0])\<rparr> in
       if de_name e \<in> {[46], [46, 46]} then andThen (buf_free M q s3) (\<lambda>s4. ret (True, s4))
       else andThen (IsCached dr (Some (de_name e)) None s3) (\<lambda>(cached, _).
         if \<not> cached then cache_file M dr q content (length pre) s3
         else andThen (buf_free M q s3) (\<lambda>s4. ret (True, s4))))"
    by (rule browse_name [OF ok(1) s(4) e b])
  let ?s3 = "s\<lparr>lheap := h, bufs := (bufs s)(q \<mapsto> de_name e @ [0])\<rparr>"
  have qn: "q \<notin> dom (bufs s)" using ok(2) q(2) by auto
  have le: "bufs s \<subseteq>\<^sub>m bufs ?s3" using qn by (auto simp: map_le_def)
  have dc: "dir_caches ?s3 dr ps L" by (rule dir_caches_bufs [OF s(2) _ le]) simp_all
  have fok: "fs_ok invar live ?s3" using ok q unfolding fs_ok_def bufs_ok_def by auto
  have gr: "grown live dr s ?s3"
    unfolding grown_def using le q(3) by (intro conjI exI [of _ h] exI [of _ "files s"] exI [of _ "bufs ?s3"]) (auto simp: is_open_def)
  note cached = IsCached_dir(1) [OF s(3) dc n]
  show thesis
  proof (cases "de_name e \<in> {[46], [46, 46]} \<or> de_name e \<in> fst ` set L")
    case True
    obtain h' where h': "buf_free M q ?s3 = ret (?s3\<lparr>lheap := h', bufs := (bufs ?s3)(q := None)\<rparr>)"
        "live h' = live (lheap ?s3) - {q}" "invar h'" "\<And>ns. ready ns (lheap ?s3) \<Longrightarrow> ready ns h'"
      by (rule buf_free_live [of ?s3 q]) (use q in simp_all)
    have none: "(bufs s)(q := None) = bufs s" using qn by (auto simp: fun_eq_iff domIff)
    have st: "?s3\<lparr>lheap := h', bufs := (bufs ?s3)(q := None)\<rparr> = s\<lparr>lheap := h'\<rparr>" using none by simp
    have c: "browse_entry M dr content (length pre) s = ret (True, s\<lparr>lheap := h'\<rparr>)"
      using True unfolding call Let_def cached h'(1) st by auto
    have l: "live h' = live (lheap s)" using h'(2) q(2,3) by simp
    have "fs_ok invar live (s\<lparr>lheap := h'\<rparr>)" using ok l h'(3) by (auto simp: fs_ok_def bufs_ok_def)
    moreover have "dir_caches (s\<lparr>lheap := h'\<rparr>) dr ps (cache_names [e] L)"
      using dir_caches_bufs [OF s(2), of "s\<lparr>lheap := h'\<rparr>"] True by simp
    moreover have "grown live dr s (s\<lparr>lheap := h'\<rparr>)"
      unfolding grown_def using l by (intro conjI exI [of _ h'] exI [of _ "files s"] exI [of _ "bufs s"]) (auto simp: is_open_def)
    moreover have "ready ns (lheap (s\<lparr>lheap := h'\<rparr>))" using h'(4) q(5) ready_later by simp
    moreover have "zeroed s \<longrightarrow> unread s ps \<longrightarrow> unread (s\<lparr>lheap := h'\<rparr>) ps" by (simp add: unread_def)
    ultimately show thesis using that [OF c] by blast
  next
    case False
    have cz: "content \<noteq> nullptr" "content \<noteq> q" using b(1) ok(3) qn by auto
    have b3: "bufs ?s3 content = Some (pre @ entry_bytes e @ post)" using b(1) cz(2) by simp
    have r3: "ready (sizeof_File # ns) (lheap ?s3)" using q(5) by simp
    have q3: "bufs ?s3 q = Some (de_name e @ [0])" by simp
    obtain s' p where c: "cache_file M dr q content (length pre) ?s3 = ret (True, s')" "fs_ok invar live s'"
      "dir_caches s' dr (p # ps) ((de_name e, de_inode e) # L)" "grown live dr ?s3 s'" "bufs s' = bufs ?s3" "ready ns (lheap s')"
      "zeroed ?s3 \<longrightarrow> unread ?s3 ps \<longrightarrow> unread s' (p # ps)"
      by (rule cache_file_ok [OF fok dc s(3) r3 q(1) q3 n entry_fields(1) [OF cz(1) b3 e]])
    have "browse_entry M dr content (length pre) s = ret (True, s')"
      using False c(1) unfolding call Let_def cached by auto
    moreover have "zeroed s \<longrightarrow> unread s ps \<longrightarrow> unread s' (p # ps)" using c(7) by (simp add: zeroed_def unread_def)
    ultimately show thesis using c False grown_trans [OF gr c(4)] by (intro that [of s' "p # ps"]) auto
  qed
qed

lemma browse_loop_ok:
  assumes "fs_ok invar live s" "dir_caches s dr ps L" "dr \<noteq> nullptr" "ready (dir_needs es @ ns) (lheap s)"
    and "bufs s content = Some (pre @ dir_bytes es)" "dir_content content (length pre) es"
  shows "\<exists>s' ps'. browse_loop M dr content st (length pre) (of_nat (length (dir_bytes es))) s = ret (STATUS_SUCCESS, s') \<and>
    fs_ok invar live s' \<and> dir_caches s' dr ps' (cache_names es L) \<and> grown live dr s s' \<and> ready ns (lheap s') \<and>
    (zeroed s \<longrightarrow> unread s ps \<longrightarrow> unread s' ps')"
  using assms
proof (induction es arbitrary: pre s ps L)
  case Nil
  then show ?case using grown_refl by (subst browse_loop.simps) auto
next
  case (Cons e es)
  note c = dir_content_Cons [OF Cons.prems(6)]
  have cz: "content \<noteq> nullptr" using Cons.prems(1,5) by (auto simp: fs_ok_def bufs_ok_def)
  have b: "bufs s content = Some (pre @ entry_bytes e @ dir_bytes es)" using Cons.prems(5) by simp
  have r: "ready ((1 + int (length (de_name e))) # sizeof_File # dir_needs es @ ns) (lheap s)" using Cons.prems(4) by simp
  obtain s1 ps1 where s1: "browse_entry M dr content (length pre) s = ret (True, s1)" "fs_ok invar live s1"
    "dir_caches s1 dr ps1 (cache_names [e] L)" "grown live dr s s1" "ready (dir_needs es @ ns) (lheap s1)"
    "zeroed s \<longrightarrow> unread s ps \<longrightarrow> unread s1 ps1"
    by (rule browse_entry_ok [OF Cons.prems(1-3) r c(1) b c(3)])
  have "bufs s \<subseteq>\<^sub>m bufs s1" using s1(4) by (simp add: grown_def)
  then have "bufs s1 content = Some (pre @ entry_bytes e @ dir_bytes es)" using b by (metis map_le_def domI)
  then have b1: "bufs s1 content = Some ((pre @ entry_bytes e) @ dir_bytes es)" by simp
  have c1: "dir_content content (length (pre @ entry_bytes e)) es" using c(2) by simp
  from Cons.IH [OF s1(2,3) Cons.prems(3) s1(5) b1 c1] obtain s' ps' where
    ih: "browse_loop M dr content st (length pre + entry_len e) (of_nat (length (dir_bytes es))) s1 = ret (STATUS_SUCCESS, s')"
      "fs_ok invar live s'" "dir_caches s' dr ps' (cache_names es (cache_names [e] L))" "grown live dr s1 s'" "ready ns (lheap s')" "zeroed s1 \<longrightarrow> unread s1 ps1 \<longrightarrow> unread s' ps'"
    by auto
  let ?k = "entry_len e" and ?n = "length (dir_bytes es)"
  have u: "unat (of_nat ?k :: u16) = ?k" "unat (of_nat (?k + ?n) :: u32) = ?k + ?n"
    using c(4,5) by (simp_all add: unat_of_nat unat_of_nat_u32 del: of_nat_add)
  have rl: "(of_nat ?k :: u16) \<noteq> 0" "(of_nat (?k + ?n) :: u32) \<noteq> 0" using u c(6) by auto
  have "ucast (of_nat ?k :: u16) = (of_nat ?k :: u32)" 
    using u(1) c(5) by (intro u32_eqI) (simp add: unsigned_ucast_eq take_bit_nat_eq_self unat_of_nat_u32 del: unat_of_nat)
  then have sz: "of_nat (?k + ?n) - ucast (of_nat ?k :: u16) = (of_nat ?n :: u32)" by simp
  have nn: "content + of_nat (length pre + ?k) \<noteq> nullptr"
  proof
    assume "content + of_nat (length pre + ?k) = nullptr"
    moreover have "unat (content + of_nat (length pre + ?k)) = unat content + (length pre + ?k)"
      using c(4) by (subst unat_add_nowrap) (simp_all add: unat_of_nat_u32 del: of_nat_add)
    ultimately show False using c(6) by simp
  qed
  have "browse_loop M dr content st (length pre) (of_nat (?k + ?n)) s = ret (STATUS_SUCCESS, s')"
    using entry_fields(2) [OF cz b c(1)] rl u(1) s1(1) nn ih(1)
    by (subst browse_loop.simps) (simp add: sz del: of_nat_add)
  moreover have "zeroed s \<longrightarrow> unread s ps \<longrightarrow> unread s' ps'" using s1(6) ih(6) grown_same [OF s1(4)] by (simp add: zeroed_def)
  ultimately show ?case using ih grown_trans [OF s1(4) ih(4)] by (intro exI [of _ s'] exI [of _ ps']) simp
qed

text \<open>Reading the inode of a cached file.\<close>

lemma read_inode_ok:
  assumes D: "ata_disk M io A img n" and m: "mounted A io s dk sb gd" and s: "fs_ok invar live s"
    and f: "files s x = Some f" "inode_at n (blockSize dk) sb gd (f_inum f)"
    and rd: "ready (inode_needs (blockSize dk) sb gd (f_inum f) @ ns) (lheap s)"
  obtains i h d where "i \<noteq> nullptr" "i \<notin> live (lheap s)" "live h = insert i (live (lheap s))" "invar h" "ready ns h"
    "valid A d" "pending A d = []"
    "read_inode_of M x s = ret (STATUS_SUCCESS, s\<lparr>lheap := h, dev := d, irqs := True,
      bufs := (bufs s)(i \<mapsto> inode_bytes img (blockSize dk) sb gd (f_inum f)), files := (files s)(x \<mapsto> f\<lparr>f_inode := i\<rparr>)\<rparr>)"
proof -
  have bok: "bufs_ok invar live s" using s by (simp add: fs_ok_def)
  have xz: "x \<noteq> nullptr" using s f(1) by (auto simp: fs_ok_def)
  obtain ty where dv: "atas s (disk_device dk) = Some (AtaCreate io ty)" using m by (auto simp: mounted_def)
  have mm: "valid A (dev s)" "pending A (dev s) = []" "gExt2Disk s \<noteq> nullptr" "disks s (gExt2Disk s) = Some dk"
      "disk_device dk \<noteq> nullptr" "bufs s (superBlock dk) = Some sb" "bufs s (groupDec dk) = Some gd"
    using m by (simp_all add: mounted_def)
  have iz: "disk_tables_ok n (blockSize dk) sb gd (f_inum f)" "inode_size sb = 128" using f(2) by (simp_all add: inode_at_def)
  have rd1: "ready (128 # read_size (inode_offset (blockSize dk) sb gd (f_inum f)) (inode_size sb) # ns) (lheap s)"
    using rd by (simp add: inode_needs_def iz(2))
  have le: "unat (inode_size sb) \<le> 128" by (simp add: iz(2))
  obtain i h d where r: "Ext2ReadInode M (gExt2Disk s) (f_inum f) (Some (f_inode f)) s = ret (STATUS_SUCCESS, Some i,
      s\<lparr>lheap := h, dev := d, irqs := True, bufs := (bufs s)(i \<mapsto> patch 0 (disk_bytes img (unat (inode_offset (blockSize dk) sb gd (f_inum f)))
        (unat (inode_size sb))) (map (fresh s i) [0..<128]))\<rparr>)"
    "i \<noteq> nullptr" "i \<notin> live (lheap s)" "live h = insert i (live (lheap s))" "invar h" "ready ns h" "valid A d" "pending A d = []"
    by (rule Ext2ReadInode_ok [OF D mm(1,2) bok rd1 mm(3-5) dv mm(6,7) iz(1) le])
  have sz: "unat (inode_size sb) = 128" by (simp add: iz(2))
  have "patch 0 (disk_bytes img (unat (inode_offset (blockSize dk) sb gd (f_inum f))) (unat (inode_size sb))) (map (fresh s i) [0..<128]) =
      inode_bytes img (blockSize dk) sb gd (f_inum f)"
    unfolding inode_bytes_def sz by (rule patch_whole) (simp only: length_disk_bytes length_map length_upt)
  then have "read_inode_of M x s = ret (STATUS_SUCCESS, s\<lparr>lheap := h, dev := d, irqs := True,
      bufs := (bufs s)(i \<mapsto> inode_bytes img (blockSize dk) sb gd (f_inum f)), files := (files s)(x \<mapsto> f\<lparr>f_inode := i\<rparr>)\<rparr>)"
    using r(1) f(1) xz by (simp add: read_inode_of_def deref_ok upd_file_ok)
  then show thesis using r by (intro that) simp_all
qed

text \<open>Reading the content, once the inode is there.\<close>

lemma OpenFile_loaded:
  assumes D: "ata_disk M io A img n" and m: "mounted A io s dk sb gd" and s: "fs_ok invar live s"
    and f: "files s x = Some f" "f_disk f = gExt2Disk s" "bufs s (f_inode f) = Some ib" "file_whole n img (blockSize dk) ib"
    and ens: "ensure_inode M x s0 = ret (STATUS_SUCCESS, s)"
    and rd: "ready (file_needs img (blockSize dk) ib @ ns) (lheap s)"
  obtains c h d q where "c \<noteq> nullptr" "c \<notin> live (lheap s)" "live h = insert c (live (lheap s))" "invar h" "ready ns h"
    "valid A d" "pending A d = []"
    "OpenFile M x s0 = ret (STATUS_SUCCESS, s\<lparr>lheap := h, dev := d, irqs := q,
      bufs := (bufs s)(c \<mapsto> file_content img (blockSize dk) ib), files := (files s)(x \<mapsto> f\<lparr>f_content := c, f_opened := True\<rparr>)\<rparr>)"
    "unat c + length (file_content img (blockSize dk) ib) < 4294967296"
proof -
  have bok: "bufs_ok invar live s" using s by (simp add: fs_ok_def)
  have xz: "x \<noteq> nullptr" using s f(1) by (auto simp: fs_ok_def)
  obtain ty where dv: "atas s (disk_device dk) = Some (AtaCreate io ty)" using m by (auto simp: mounted_def)
  have mm: "valid A (dev s)" "pending A (dev s) = []" "gExt2Disk s \<noteq> nullptr" "disks s (gExt2Disk s) = Some dk"
      "disk_device dk \<noteq> nullptr" "bsize_ok (blockSize dk)"
    using m by (simp_all add: mounted_def)
  have w: "inode_ok n img (blockSize dk) ib" "unat (le32_at ib 4) \<le> length (file_data img (blockSize dk) ib)"
    using f(4) by (simp_all add: file_whole_def)
  obtain c h d q where r: "Ext2ReadFile M (gExt2Disk s) (f_inode f) (f_inum f) (Some (f_content f)) s = ret (STATUS_SUCCESS, Some c,
      s\<lparr>lheap := h, dev := d, irqs := q, bufs := (bufs s)(c \<mapsto> patch 0 (take (unat (le32_at ib 4)) (file_data img (blockSize dk) ib))
        (map (fresh s c) [0..<unat (le32_at ib 4)]))\<rparr>)"
    "c \<noteq> nullptr" "c \<notin> live (lheap s)" "live h = insert c (live (lheap s))" "invar h" "valid A d" "pending A d = []" "ready ns h"
    "unat c + unat (le32_at ib 4) < 4294967296"
    by (rule Ext2ReadFile_ok [OF D mm(6,1,2) bok mm(3,4) refl mm(5) dv f(3) w(1) rd])
  have "patch 0 (take (unat (le32_at ib 4)) (file_data img (blockSize dk) ib)) (map (fresh s c) [0..<unat (le32_at ib 4)]) =
      file_content img (blockSize dk) ib"
    unfolding file_content_def by (rule patch_whole) (use w(2) in simp)
  then have "OpenFile M x s0 = ret (STATUS_SUCCESS, s\<lparr>lheap := h, dev := d, irqs := q,
      bufs := (bufs s)(c \<mapsto> file_content img (blockSize dk) ib), files := (files s)(x \<mapsto> f\<lparr>f_content := c, f_opened := True\<rparr>)\<rparr>)"
    using r(1) f(1,2) xz ens by (simp add: OpenFile_def deref_ok upd_file_ok)
  then show thesis using r w(2) by (intro that) (simp_all add: file_content_def)
qed

end

end
