(* ===== verification/Path_Properties.thy ===== *)
theory Path_Properties
  imports File_Properties
begin

section \<open>Paths\<close>

text \<open>
  Following a path through the directories of a disk. \<open>path_on_disk\<close> says which inode a path leads
  to, from the names a directory has cached and the directories on the disk; the properties state that
  the service opens the file with this inode and reads its content.
\<close>

subsection \<open>What the disk says\<close>

definition dir_on_disk :: "nat \<Rightarrow> (nat \<Rightarrow> u8) \<Rightarrow> u32 \<Rightarrow> u8 list \<Rightarrow> u8 list \<Rightarrow> int \<Rightarrow> dirent list \<Rightarrow> bool" where
  "dir_on_disk n img bsize sb gd num es \<longleftrightarrow> inode_at n bsize sb gd num \<and>
     file_whole n img bsize (inode_bytes img bsize sb gd num) \<and>
     file_content img bsize (inode_bytes img bsize sb gd num) = dir_bytes es \<and>
     le16_at (inode_bytes img bsize sb gd num) 0 AND EXT2_S_IFDIR \<noteq> 0 \<and>
     (\<forall>e \<in> set es. entry_ok e) \<and> (es \<noteq> [] \<longrightarrow> de_pad (last es) \<noteq> [])"

definition open_needs :: "(nat \<Rightarrow> u8) \<Rightarrow> u32 \<Rightarrow> u8 list \<Rightarrow> u8 list \<Rightarrow> int \<Rightarrow> int list" where
  "open_needs img bsize sb gd num = inode_needs bsize sb gd num @ file_needs img bsize (inode_bytes img bsize sb gd num)"

text \<open>
  The last argument lists the allocations on the way.
\<close>

inductive path_on_disk ::
  "nat \<Rightarrow> (nat \<Rightarrow> u8) \<Rightarrow> u32 \<Rightarrow> u8 list \<Rightarrow> u8 list \<Rightarrow> (cstr \<times> u32) list \<Rightarrow> cstr list \<Rightarrow> u32 \<Rightarrow> int list \<Rightarrow> bool"
  for n img bsize sb gd where
  path_file: "map_of L name = Some ino \<Longrightarrow> inode_at n bsize sb gd (sint ino) \<Longrightarrow>
     file_whole n img bsize (inode_bytes img bsize sb gd (sint ino)) \<Longrightarrow>
     path_on_disk n img bsize sb gd L [name] ino (open_needs img bsize sb gd (sint ino))"
| path_dir: "map_of L name = Some d \<Longrightarrow> dir_on_disk n img bsize sb gd (sint d) es \<Longrightarrow>
     path_on_disk n img bsize sb gd (cache_names es []) cs ino needs \<Longrightarrow>
     path_on_disk n img bsize sb gd L (name # cs) ino (open_needs img bsize sb gd (sint d) @ dir_needs es @ needs)"

inductive_cases path_on_diskE: "path_on_disk n img bsize sb gd L (name # cs) ino needs"

definition comp_ok :: "cstr \<Rightarrow> bool" where
  "comp_ok name \<longleftrightarrow> name \<noteq> [] \<and> nul_free name \<and> 47 \<notin> set name \<and> name \<notin> {[46], [46, 46]}"

fun path_str :: "cstr list \<Rightarrow> cstr" where
  "path_str [] = []"
| "path_str [name] = name"
| "path_str (name # cs) = name @ 47 # path_str cs"

subsection \<open>Looking up a name\<close>

lemma find_cached_name:
  assumes "list_all2 R ps L" "map_of L name = Some ino"
  obtains q where "find (\<lambda>(q, n, i). n = name) (zip ps L) = Some (q, name, ino)" "q \<in> set ps" "R q (name, ino)"
  using assms
proof (induction ps L arbitrary: thesis rule: list_all2_induct)
  case (Cons p ps x L)
  obtain n i where x: "x = (n, i)" by (cases x)
  show ?case
  proof (cases "n = name")
    case True
    with Cons.prems Cons.hyps(1) x show ?thesis by auto
  next
    case False
    then have "map_of L name = Some ino" using Cons.prems(2) x by simp
    from Cons.IH [OF _ this] obtain q where "find (\<lambda>(q, n, i). n = name) (zip ps L) = Some (q, name, ino)" "q \<in> set ps" "R q (name, ino)"
      by blast
    with Cons.prems(1) False x show ?thesis by auto
  qed
qed simp

lemma map_le_Some: "m \<subseteq>\<^sub>m m' \<Longrightarrow> m p = Some x \<Longrightarrow> m' p = Some x"
  by (metis map_le_def domI)

lemma mounted_cong:
  assumes "mounted A io s dk sb gd" "valid A (dev s')" "pending A (dev s') = []" "gExt2Disk s' = gExt2Disk s"
    "disks s' = disks s" "atas s' = atas s" "bufs s \<subseteq>\<^sub>m bufs s'"
  shows "mounted A io s' dk sb gd"
proof -
  have "bufs s' (superBlock dk) = Some sb" "bufs s' (groupDec dk) = Some gd"
    using assms(1,7) unfolding mounted_def by (metis domI map_le_def)+
  with assms show ?thesis by (simp add: mounted_def)
qed

subsection \<open>The path buffer\<close>

text \<open>
  The path is written to while it is read: the files of a directory must not have it as a name.
\<close>

definition apart :: "addr \<Rightarrow> ('h, 'd, 'z) fs_scheme \<Rightarrow> addr list \<Rightarrow> bool" where
  "apart buf s ps \<longleftrightarrow> (\<forall>q \<in> set ps. \<forall>f. files s q = Some f \<longrightarrow> f_name f \<noteq> buf)"

definition opened_as :: "(nat \<Rightarrow> u8) \<Rightarrow> u32 \<Rightarrow> u8 list \<Rightarrow> u8 list \<Rightarrow> ('h, 'd, 'z) fs_scheme \<Rightarrow> addr \<Rightarrow> u32 \<Rightarrow> bool" where
  "opened_as img bsize sb gd s p ino \<longleftrightarrow> (\<exists>f. files s p = Some f \<and> f_inum f = sint ino \<and> f_opened f \<and>
     bufs s (f_content f) = Some (file_content img bsize (inode_bytes img bsize sb gd (sint ino))))"

lemma dir_caches_write:
  assumes "dir_caches s dr ps L" "apart buf s ps"
  shows "dir_caches (s\<lparr>bufs := (bufs s)(buf \<mapsto> bs)\<rparr>) dr ps L"
proof -
  have "list_all2 (cached_as s dr) ps L" using assms(1) by (simp add: dir_caches_def)
  then have "list_all2 (cached_as (s\<lparr>bufs := (bufs s)(buf \<mapsto> bs)\<rparr>) dr) ps L"
    by (rule list.rel_mono_strong) (use assms(2) in \<open>auto simp: cached_as_def apart_def\<close>)
  then show ?thesis using assms(1) by (simp add: dir_caches_def)
qed

lemma mounted_write:
  "mounted A io s dk sb gd \<Longrightarrow> buf \<notin> {superBlock dk, groupDec dk} \<Longrightarrow> mounted A io (s\<lparr>bufs := (bufs s)(buf \<mapsto> bs)\<rparr>) dk sb gd"
  by (auto simp: mounted_def)

lemma fs_ok_write:
  "fs_ok invar live s \<Longrightarrow> buf \<in> dom (bufs s) \<Longrightarrow> fs_ok invar live (s\<lparr>bufs := (bufs s)(buf \<mapsto> bs)\<rparr>)"
  by (auto simp: fs_ok_def bufs_ok_def)

lemma kept_write: "kept live s (s\<lparr>bufs := (bufs s)(buf \<mapsto> bs)\<rparr>)"
  unfolding kept_def
  by (intro conjI exI [of _ "lheap s"] exI [of _ "(bufs s)(buf \<mapsto> bs)"] exI [of _ "dev s"] exI [of _ "irqs s"] exI [of _ "files s"])
    (simp_all add: is_open_def)

text \<open>A buffer with a NUL in the middle is not the name of a cached file.\<close>

lemma apart_two_nuls:
  assumes "dir_caches s dr ps L" "bufs s buf = Some (pre @ 0 # mid @ 0 # rest)"
  shows "apart buf s ps"
  unfolding apart_def
proof (intro ballI allI impI notI)
  fix q f
  assume q: "q \<in> set ps" "files s q = Some f" "f_name f = buf"
  have all: "list_all2 (cached_as s dr) ps L" "names_ok L" using assms(1) by (simp_all add: dir_caches_def)
  obtain i where "i < length ps" "q = ps ! i" using q(1) by (auto simp: in_set_conv_nth)
  then obtain x where x: "x \<in> set L" "cached_as s dr q x"
    using list_all2_nthD [OF all(1)] list_all2_lengthD [OF all(1)] by (metis nth_mem)
  then obtain n i where n: "x = (n, i)" "bufs s buf = Some (n @ [0])" using q(2,3) by (cases x) (auto simp: cached_as_def)
  have "0 \<notin> set n" using all(2) x(1) n(1) by (auto simp: names_ok_def nul_free_def)
  moreover have "n @ [0] = pre @ 0 # mid @ 0 # rest" using n(2) assms(2) by simp
  then have "0 \<in> set (butlast (pre @ 0 # mid @ 0 # rest)) \<longleftrightarrow> 0 \<in> set n" by (metis butlast_snoc)
  moreover have "0 \<in> set (butlast (pre @ 0 # mid @ 0 # rest))" by (simp add: butlast_append)
  ultimately show False by blast
qed

lemma patch_middle: "patch (length pre + length xs) [y] (pre @ xs @ x # post) = pre @ xs @ y # post"
  by (simp add: patch_def)

lemma path_str_Cons: "cs \<noteq> [] \<Longrightarrow> path_str (name # cs) = name @ 47 # path_str cs"
  by (cases cs) simp_all

lemma path_str_nul_free: "\<forall>c \<in> set cs. comp_ok c \<Longrightarrow> nul_free (path_str cs)"
  by (induction cs rule: path_str.induct) (auto simp: comp_ok_def nul_free_def)

lemma FirstIndexOf_none: "comp_ok name \<Longrightarrow> FirstIndexOf (Some name) 47 = -1"
  by (simp add: FirstIndexOf_spec comp_ok_def)

lemma FirstIndexOf_path:
  assumes "comp_ok name" "\<forall>c \<in> set cs. comp_ok c" "cs \<noteq> []"
  shows "FirstIndexOf (Some (path_str (name # cs))) 47 = int (length name)"
proof -
  have "nul_free (path_str (name # cs))" by (rule path_str_nul_free) (use assms in simp)
  moreover have "takeWhile (\<lambda>x. x \<noteq> 47) (name @ 47 # path_str cs) = name" using assms(1)
    by (subst takeWhile_append2) (auto simp: comp_ok_def)
  ultimately show ?thesis using assms(3) by (simp add: FirstIndexOf_spec path_str_Cons)
qed

lemma rd_path:
  assumes "buf \<noteq> nullptr" "bufs s buf = Some (pre @ path_str (name # cs) @ 0 # rest)" "\<forall>c \<in> set (name # cs). comp_ok c"
  shows "\<exists>c. c \<noteq> 0 \<and> rd8 buf (length pre) s = ret c" "rd_str buf (length pre) s = ret (path_str (name # cs))"
proof -
  have nf: "nul_free (path_str (name # cs))" by (rule path_str_nul_free [OF assms(3)])
  have "path_str (name # cs) \<noteq> []" using assms(3) by (cases cs) (auto simp: comp_ok_def)
  then obtain c xs where c: "path_str (name # cs) = c # xs" by (cases "path_str (name # cs)") auto
  have b: "bufs s buf = Some (pre @ [c] @ (xs @ 0 # rest))" using assms(2) c by simp
  have "rd8 buf (length pre) s = ret c" using rd_bytes_middle [OF assms(1) b] by (simp add: rd8_def)
  then show "\<exists>c. c \<noteq> 0 \<and> rd8 buf (length pre) s = ret c" using nf unfolding c by (auto simp: nul_free_def)
  show "rd_str buf (length pre) s = ret (path_str (name # cs))"
    using assms(1,2) takeWhile_name [OF nf, of rest] by (simp add: rd_str_def deref_def)
qed

context prog_heap
begin

text \<open>Opening a file that has only been cached.\<close>

lemma OpenFile_unread:
  assumes D: "ata_disk M io A img n" and m: "mounted A io s dk sb gd" and s: "fs_ok invar live s"
    and f: "files s x = Some f" "f_disk f = gExt2Disk s" "f_inode f = nullptr"
    and w: "inode_at n (blockSize dk) sb gd (f_inum f)" "file_whole n img (blockSize dk) (inode_bytes img (blockSize dk) sb gd (f_inum f))"
    and rd: "ready (open_needs img (blockSize dk) sb gd (f_inum f) @ ns) (lheap s)"
  obtains s' i c h d q where "OpenFile M x s = ret (STATUS_SUCCESS, s')"
    "s' = s\<lparr>lheap := h, dev := d, irqs := q, bufs := (bufs s)(i \<mapsto> inode_bytes img (blockSize dk) sb gd (f_inum f),
        c \<mapsto> file_content img (blockSize dk) (inode_bytes img (blockSize dk) sb gd (f_inum f))),
      files := (files s)(x \<mapsto> f\<lparr>f_inode := i, f_content := c, f_opened := True\<rparr>)\<rparr>"
    "fs_ok invar live s'" "mounted A io s' dk sb gd" "ready ns (lheap s')" "bufs s \<subseteq>\<^sub>m bufs s'" "i \<noteq> nullptr" "c \<noteq> i"
    "unat c + length (file_content img (blockSize dk) (inode_bytes img (blockSize dk) sb gd (f_inum f))) < 4294967296" "kept live s s'"
proof -
  let ?ib = "inode_bytes img (blockSize dk) sb gd (f_inum f)"
  have ok: "invar (lheap s)" "dom (bufs s) \<subseteq> live (lheap s)" "nullptr \<notin> dom (bufs s)" "dom (files s) \<subseteq> live (lheap s)"
      "nullptr \<notin> dom (files s)" "x \<noteq> nullptr"
    using s f(1) by (auto simp: fs_ok_def bufs_ok_def)
  have rd1: "ready (inode_needs (blockSize dk) sb gd (f_inum f) @ (file_needs img (blockSize dk) ?ib @ ns)) (lheap s)"
    using rd by (simp add: open_needs_def)
  obtain i h d where i: "i \<noteq> nullptr" "i \<notin> live (lheap s)" "live h = insert i (live (lheap s))" "invar h"
      "ready (file_needs img (blockSize dk) ?ib @ ns) h" "valid A d" "pending A d = []"
    "read_inode_of M x s = ret (STATUS_SUCCESS, s\<lparr>lheap := h, dev := d, irqs := True,
      bufs := (bufs s)(i \<mapsto> ?ib), files := (files s)(x \<mapsto> f\<lparr>f_inode := i\<rparr>)\<rparr>)"
    by (rule read_inode_ok [OF D m s f(1) w(1) rd1])
  let ?s1 = "s\<lparr>lheap := h, dev := d, irqs := True, bufs := (bufs s)(i \<mapsto> ?ib), files := (files s)(x \<mapsto> f\<lparr>f_inode := i\<rparr>)\<rparr>"
  have ens: "ensure_inode M x s = ret (STATUS_SUCCESS, ?s1)" using i(8) f(1,3) ok(6) by (simp add: ensure_inode_def deref_ok)
  have le1: "bufs s \<subseteq>\<^sub>m bufs ?s1" using ok(2) i(2) by (auto simp: map_le_def)
  have fok1: "fs_ok invar live ?s1" using ok i(1,3,4) f(1) by (auto simp: fs_ok_def bufs_ok_def)
  have m1: "mounted A io ?s1 dk sb gd" by (rule mounted_cong [OF m _ _ _ _ _ le1]) (use i in simp_all)
  have f1: "files ?s1 x = Some (f\<lparr>f_inode := i\<rparr>)" "f_disk (f\<lparr>f_inode := i\<rparr>) = gExt2Disk ?s1"
      "bufs ?s1 (f_inode (f\<lparr>f_inode := i\<rparr>)) = Some ?ib" using f(2) by simp_all
  have rd2: "ready (file_needs img (blockSize dk) ?ib @ ns) (lheap ?s1)" using i(5) by simp
  obtain c h' d' q where c: "c \<noteq> nullptr" "c \<notin> live (lheap ?s1)" "live h' = insert c (live (lheap ?s1))" "invar h'" "ready ns h'"
    "valid A d'" "pending A d' = []"
    "OpenFile M x s = ret (STATUS_SUCCESS, ?s1\<lparr>lheap := h', dev := d', irqs := q,
      bufs := (bufs ?s1)(c \<mapsto> file_content img (blockSize dk) ?ib),
      files := (files ?s1)(x \<mapsto> f\<lparr>f_inode := i\<rparr>\<lparr>f_content := c, f_opened := True\<rparr>)\<rparr>)"
    "unat c + length (file_content img (blockSize dk) ?ib) < 4294967296"
    by (rule OpenFile_loaded [OF D m1 fok1 f1 w(2) ens rd2])
  let ?s2 = "s\<lparr>lheap := h', dev := d', irqs := q, bufs := (bufs s)(i \<mapsto> ?ib, c \<mapsto> file_content img (blockSize dk) ?ib),
      files := (files s)(x \<mapsto> f\<lparr>f_inode := i, f_content := c, f_opened := True\<rparr>)\<rparr>"
  have call: "OpenFile M x s = ret (STATUS_SUCCESS, ?s2)" using c(8) by simp
  have ci: "c \<noteq> i" "c \<notin> live (lheap s)" using c(2) i(3) by auto
  have le: "bufs s \<subseteq>\<^sub>m bufs ?s2" using ok(2) i(2) ci(2) by (auto simp: map_le_def)
  have fok: "fs_ok invar live ?s2" using ok i(1,3) c(1,3,4) f(1) by (auto simp: fs_ok_def bufs_ok_def)
  have m2: "mounted A io ?s2 dk sb gd" by (rule mounted_cong [OF m _ _ _ _ _ le]) (use c in simp_all)
  have "is_open ?s2 p" if "is_open s p" for p using that by (auto simp: is_open_def)
  moreover have "live (lheap s) \<subseteq> live (lheap ?s2)" using c(3) i(3) by auto
  moreover have "?s2 = s\<lparr>lheap := h', bufs := bufs ?s2, dev := d', irqs := q, files := files ?s2\<rparr>" by simp
  ultimately have kp: "kept live s ?s2" unfolding kept_def by blast
  show thesis by (rule that [OF call refl fok m2 _ le i(1) ci(1) c(9) kp]) (use c(5) in simp)
qed

text \<open>Browsing a directory whose content is in memory.\<close>

lemma Browse_opened:
  assumes s: "fs_ok invar live s" and d: "files s dr = Some d" "f_opened d" "f_inode d \<noteq> nullptr" "bufs s (f_inode d) = Some ib"
      "bufs s (f_content d) = Some (dir_bytes es)" and ib: "100 \<le> length ib" "le16_at ib 0 AND EXT2_S_IFDIR \<noteq> 0"
      "unat (le32_at ib 4) = length (dir_bytes es)" and c: "dir_content (f_content d) 0 es"
    and dc: "dir_caches s dr ps L" and rd: "ready (dir_needs es @ ns) (lheap s)"
  shows "\<exists>s' ps'. BrowseAndCacheDirectory M dr s = ret (STATUS_SUCCESS, s') \<and> fs_ok invar live s' \<and>
    dir_caches s' dr ps' (cache_names es L) \<and> grown live dr s s' \<and> ready ns (lheap s') \<and> (zeroed s \<longrightarrow> unread s ps \<longrightarrow> unread s' ps')"
proof -
  have dz: "dr \<noteq> nullptr" using s d(1) by (auto simp: fs_ok_def)
  have b: "bufs s (f_content d) = Some ([] @ dir_bytes es)" using d(5) by simp
  have c0: "dir_content (f_content d) (length ([] :: u8 list)) es" using c by simp
  have sz: "of_nat (length (dir_bytes es)) = le32_at ib 4" by (simp add: ib(3) [symmetric])
  obtain s' ps' where l: "browse_loop M dr (f_content d) STATUS_FAILURE 0 (le32_at ib 4) s = ret (STATUS_SUCCESS, s')"
      "fs_ok invar live s'" "dir_caches s' dr ps' (cache_names es L)" "grown live dr s s'" "ready ns (lheap s')"
      "zeroed s \<longrightarrow> unread s ps \<longrightarrow> unread s' ps'"
    using browse_loop_ok [OF s dc dz rd b c0, of STATUS_FAILURE] unfolding sz by auto
  have isd: "IsDirectory M dr s = ret (True, s)"
    using rd16_ok [OF d(3,4), of 0] ib(1,2) d(1,3) dz by (simp add: IsDirectory_def ensure_inode_def deref_ok in_mode_def)
  have "BrowseAndCacheDirectory M dr s = ret (STATUS_SUCCESS, s')"
    using l(1) isd d(1-3) dz rd32_ok [OF d(3,4), of 4] ib(1)
    by (simp add: BrowseAndCacheDirectory_def deref_ok in_size_def)
  with l show ?thesis by blast
qed

text \<open>Entering a directory that has not been opened yet.\<close>

lemma enter_directory_ok:
  assumes D: "ata_disk M io A img n" and m: "mounted A io s dk sb gd" and s: "fs_ok invar live s" and z: "zeroed s"
    and dc: "dir_caches s x ps L" "unread s ps" and name: "comp_ok name" "map_of L name = Some ino"
    and dir: "dir_on_disk n img (blockSize dk) sb gd (sint ino) es"
    and rd: "ready (open_needs img (blockSize dk) sb gd (sint ino) @ dir_needs es @ ns) (lheap s)"
  obtains s' y ps' where "enter_directory M x name s = ret (STATUS_SUCCESS, y, s')" "fs_ok invar live s'" "mounted A io s' dk sb gd"
    "zeroed s'" "dir_caches s' y ps' (cache_names es [])" "unread s' ps'" "ready ns (lheap s')" "bufs s \<subseteq>\<^sub>m bufs s'" "kept live s s'"
proof -
  let ?ib = "inode_bytes img (blockSize dk) sb gd (sint ino)"
  have xz: "x \<noteq> nullptr" using s dc(1) by (auto simp: fs_ok_def dir_caches_def)
  have n: "name \<noteq> []" "nul_free name" "name \<noteq> [46]" "name \<noteq> [46, 46]" using name(1) by (auto simp: comp_ok_def)
  have dots: "StrCmp (Some name) (Some [46]) \<noteq> 0" "StrCmp (Some name) (Some [46, 46]) \<noteq> 0"
    using n by (simp_all add: StrCmp_0_iff nul_free_def)
  have all: "list_all2 (cached_as s x) ps L" using dc(1) by (simp add: dir_caches_def)
  obtain y where y: "find (\<lambda>(q, n, i). n = name) (zip ps L) = Some (y, name, ino)" "y \<in> set ps" "cached_as s x y (name, ino)"
    by (rule find_cached_name [OF all name(2)])
  have look: "IsCached x (Some name) (Some x) s = ret (True, Some y)" using IsCached_dir(2) [OF xz dc(1) n(1,2), of x] y(1) by simp
  obtain f where f: "files s y = Some f" "f_inum f = sint ino" "f_disk f = gExt2Disk s" using y(3) by (auto simp: cached_as_def)
  have un: "\<not> f_opened f" "f_inode f = nullptr" "f_leaf f = nullptr" using dc(2) y(2) f(1) by (auto simp: unread_def)
  have yz: "y \<noteq> nullptr" using s f(1) by (auto simp: fs_ok_def)
  have dd: "inode_at n (blockSize dk) sb gd (f_inum f)" "file_whole n img (blockSize dk) (inode_bytes img (blockSize dk) sb gd (f_inum f))"
      "file_content img (blockSize dk) ?ib = dir_bytes es" "le16_at ?ib 0 AND EXT2_S_IFDIR \<noteq> 0"
      "\<forall>e \<in> set es. entry_ok e" "es \<noteq> [] \<longrightarrow> de_pad (last es) \<noteq> []"
    using dir unfolding f(2) dir_on_disk_def by blast+
  have rd1: "ready (open_needs img (blockSize dk) sb gd (f_inum f) @ (dir_needs es @ ns)) (lheap s)" using rd f(2) by simp
  obtain s1 i c h d q where o: "OpenFile M y s = ret (STATUS_SUCCESS, s1)"
    "s1 = s\<lparr>lheap := h, dev := d, irqs := q, bufs := (bufs s)(i \<mapsto> inode_bytes img (blockSize dk) sb gd (f_inum f),
        c \<mapsto> file_content img (blockSize dk) (inode_bytes img (blockSize dk) sb gd (f_inum f))),
      files := (files s)(y \<mapsto> f\<lparr>f_inode := i, f_content := c, f_opened := True\<rparr>)\<rparr>"
    "fs_ok invar live s1" "mounted A io s1 dk sb gd" "ready (dir_needs es @ ns) (lheap s1)" "bufs s \<subseteq>\<^sub>m bufs s1" "i \<noteq> nullptr" "c \<noteq> i"
    "unat c + length (file_content img (blockSize dk) (inode_bytes img (blockSize dk) sb gd (f_inum f))) < 4294967296" "kept live s s1"
    by (rule OpenFile_unread [OF D m s f(1,3) un(2) dd(1,2) rd1])
  let ?d = "f\<lparr>f_inode := i, f_content := c, f_opened := True\<rparr>"
  have e1: "files s1 y = Some ?d" "bufs s1 i = Some ?ib" "bufs s1 c = Some (dir_bytes es)" "zeroed s1"
    unfolding o(2) using o(8) dd(3) f(2) z by (simp_all add: zeroed_def)
  have w: "unat (le32_at ?ib 4) = length (dir_bytes es)"
    using dd(2) f(2) unfolding dd(3) [symmetric] by (simp add: file_whole_def file_content_def)
  have len: "100 \<le> length ?ib" by (simp add: inode_bytes_def)
  have cont: "dir_content (f_content ?d) 0 es"
    unfolding dir_content_def using dd(3,5,6) o(9) f(2) by simp
  have dc1: "dir_caches s1 y [] []" using e1(1) un(3) by (simp add: dir_caches_def names_ok_def)
  have pre: "f_opened ?d" "f_inode ?d \<noteq> nullptr" "bufs s1 (f_inode ?d) = Some ?ib" "bufs s1 (f_content ?d) = Some (dir_bytes es)"
    using e1 o(7) by simp_all
  obtain s' ps' where b: "BrowseAndCacheDirectory M y s1 = ret (STATUS_SUCCESS, s')" "fs_ok invar live s'"
    "dir_caches s' y ps' (cache_names es [])" "grown live y s1 s'" "ready ns (lheap s')" "zeroed s1 \<longrightarrow> unread s1 [] \<longrightarrow> unread s' ps'"
    using Browse_opened [OF o(3) e1(1) pre len dd(4) w cont dc1 o(5)] by blast
  have call: "enter_directory M x name s = ret (STATUS_SUCCESS, y, s')"
    unfolding enter_directory_def using dots look f(1) yz un(1) o(1) b(1) by (simp add: deref_ok)
  note g = grown_same [OF b(4)]
  have le: "bufs s1 \<subseteq>\<^sub>m bufs s'" using b(4) by (simp add: grown_def)
  have mm: "mounted A io s' dk sb gd" by (rule mounted_cong [OF o(4) _ _ _ _ _ le]) (use g o(4) in \<open>simp_all add: mounted_def\<close>)
  show thesis
    by (rule that [OF call b(2) mm _ b(3) _ b(5) map_le_trans [OF o(6) le] kept_trans [OF o(10) grown_kept [OF b(4)]]])
      (use b(6) e1(4) g in \<open>simp_all add: zeroed_def unread_def\<close>)
qed

text \<open>The last name of a path.\<close>

lemma open_last_ok:
  assumes D: "ata_disk M io A img n" and m: "mounted A io s dk sb gd" and s: "fs_ok invar live s"
    and dc: "dir_caches s x ps L" "unread s ps" and name: "comp_ok name" "map_of L name = Some ino"
    and w: "inode_at n (blockSize dk) sb gd (sint ino)" "file_whole n img (blockSize dk) (inode_bytes img (blockSize dk) sb gd (sint ino))"
    and rd: "ready (open_needs img (blockSize dk) sb gd (sint ino) @ ns) (lheap s)"
  shows "\<exists>s' p. open_last M x name file s = ret (STATUS_SUCCESS, p, s') \<and> opened_as img (blockSize dk) sb gd s' p ino \<and>
    fs_ok invar live s' \<and> mounted A io s' dk sb gd \<and> ready ns (lheap s') \<and> bufs s \<subseteq>\<^sub>m bufs s' \<and> kept live s s' \<and> \<not> is_open s p"
proof -
  have xz: "x \<noteq> nullptr" using s dc(1) by (auto simp: fs_ok_def dir_caches_def)
  have n: "name \<noteq> []" "nul_free name" using name(1) by (auto simp: comp_ok_def)
  have all: "list_all2 (cached_as s x) ps L" using dc(1) by (simp add: dir_caches_def)
  obtain y where y: "find (\<lambda>(q, n, i). n = name) (zip ps L) = Some (y, name, ino)" "y \<in> set ps" "cached_as s x y (name, ino)"
    by (rule find_cached_name [OF all name(2)])
  have look: "IsCached x (Some name) (Some nullptr) s = ret (True, Some y)" using IsCached_dir(2) [OF xz dc(1) n, of nullptr] y(1) by simp
  obtain f where f: "files s y = Some f" "f_inum f = sint ino" "f_disk f = gExt2Disk s" using y(3) by (auto simp: cached_as_def)
  have un: "\<not> f_opened f" "f_inode f = nullptr" using dc(2) y(2) f(1) by (auto simp: unread_def)
  have yz: "y \<noteq> nullptr" using s f(1) by (auto simp: fs_ok_def)
  obtain s1 i c h d q where o: "OpenFile M y s = ret (STATUS_SUCCESS, s1)"
    "s1 = s\<lparr>lheap := h, dev := d, irqs := q, bufs := (bufs s)(i \<mapsto> inode_bytes img (blockSize dk) sb gd (f_inum f),
        c \<mapsto> file_content img (blockSize dk) (inode_bytes img (blockSize dk) sb gd (f_inum f))),
      files := (files s)(y \<mapsto> f\<lparr>f_inode := i, f_content := c, f_opened := True\<rparr>)\<rparr>"
    "fs_ok invar live s1" "mounted A io s1 dk sb gd" "ready ns (lheap s1)" "bufs s \<subseteq>\<^sub>m bufs s1" "kept live s s1"
    by (rule OpenFile_unread [OF D m s f(1,3) un(2) w [folded f(2)] rd [folded f(2)]])
  have "open_last M x name file s = ret (STATUS_SUCCESS, y, s1)"
    unfolding open_last_def using look f(1) yz un(1) o(1) by (simp add: deref_ok)
  moreover have "opened_as img (blockSize dk) sb gd s1 y ino" unfolding o(2) opened_as_def by (simp add: f(2))
  moreover have "\<not> is_open s y" using f(1) un(1) by (simp add: is_open_def)
  ultimately show ?thesis using o by blast
qed

text \<open>The path itself: the slash behind each directory is put back.\<close>

lemma open_loop_ok:
  assumes "path_on_disk n img (blockSize dk) sb gd L cs ino needs" and D: "ata_disk M io A img n"
    and "mounted A io s dk sb gd" "fs_ok invar live s" "zeroed s" "dir_caches s x ps L" "unread s ps" "\<forall>c \<in> set cs. comp_ok c"
    and "bufs s buf = Some (pre @ path_str cs @ 0 # rest)" "apart buf s ps" and bk: "buf \<notin> {superBlock dk, groupDec dk}"
    and "ready (needs @ ns) (lheap s)"
  shows "\<exists>s' p. open_loop M buf (length pre) x file s = ret (STATUS_SUCCESS, p, s') \<and> opened_as img (blockSize dk) sb gd s' p ino \<and>
    fs_ok invar live s' \<and> mounted A io s' dk sb gd \<and> ready ns (lheap s') \<and> bufs s \<subseteq>\<^sub>m bufs s' \<and> kept live s s' \<and> \<not> is_open s p"
  using assms(1,3-10,12)
proof (induction arbitrary: s x ps pre rule: path_on_disk.induct)
  case (path_file L name ino)
  have bz: "buf \<noteq> nullptr" using path_file.prems(2,7) by (auto simp: fs_ok_def bufs_ok_def)
  have nm: "comp_ok name" using path_file.prems(6) by simp
  obtain c where c: "c \<noteq> 0" "rd8 buf (length pre) s = ret c" and str: "rd_str buf (length pre) s = ret name"
    using rd_path [OF bz path_file.prems(7,6)] by auto
  have "open_loop M buf (length pre) x file s = open_last M x name file s"
    by (subst open_loop.simps) (simp add: c str FirstIndexOf_none [OF nm])
  with open_last_ok [OF D path_file.prems(1,2,4,5) nm path_file.hyps path_file.prems(9)] show ?case by simp
next
  case (path_dir L name d es cs ino needs)
  have bz: "buf \<noteq> nullptr" using path_dir.prems(2,7) by (auto simp: fs_ok_def bufs_ok_def)
  have nm: "comp_ok name" and csok: "\<forall>c \<in> set cs. comp_ok c" using path_dir.prems(6) by simp_all
  have cs: "cs \<noteq> []" using path_dir.hyps(3) by (auto elim: path_on_disk.cases)
  obtain c where c: "c \<noteq> 0" "rd8 buf (length pre) s = ret c" and str: "rd_str buf (length pre) s = ret (path_str (name # cs))"
    using rd_path [OF bz path_dir.prems(7,6)] by auto
  have idx: "FirstIndexOf (Some (path_str (name # cs))) 47 = int (length name)" by (rule FirstIndexOf_path [OF nm csok cs])
  have b: "bufs s buf = Some (pre @ name @ 47 # path_str cs @ 0 # rest)" using path_dir.prems(7) cs by (simp add: path_str_Cons)
  let ?s1 = "s\<lparr>bufs := (bufs s)(buf \<mapsto> pre @ name @ 0 # path_str cs @ 0 # rest)\<rparr>"
  have w1: "wr_bytes buf (length pre + length name) [0] s = ret ?s1" using bz b patch_middle [of pre name 0 47] by simp
  have d: "buf \<in> dom (bufs s)" using b by auto
  have p1: "mounted A io ?s1 dk sb gd" "fs_ok invar live ?s1" "zeroed ?s1" "dir_caches ?s1 x ps L" "unread ?s1 ps"
    using mounted_write [OF path_dir.prems(1) bk] fs_ok_write [OF path_dir.prems(2) d] path_dir.prems(3,5)
      dir_caches_write [OF path_dir.prems(4,8)] by (simp_all add: zeroed_def unread_def)
  have r1: "ready (open_needs img (blockSize dk) sb gd (sint d) @ dir_needs es @ (needs @ ns)) (lheap ?s1)" using path_dir.prems(9) by simp
  obtain s2 y ps2 where s2: "enter_directory M x name ?s1 = ret (STATUS_SUCCESS, y, s2)" "fs_ok invar live s2" "mounted A io s2 dk sb gd"
    "zeroed s2" "dir_caches s2 y ps2 (cache_names es [])" "unread s2 ps2" "ready (needs @ ns) (lheap s2)" "bufs ?s1 \<subseteq>\<^sub>m bufs s2" "kept live ?s1 s2"
    by (rule enter_directory_ok [OF D p1 nm path_dir.hyps(1,2) r1])
  have b2: "bufs s2 buf = Some (pre @ name @ 0 # path_str cs @ 0 # rest)" by (rule map_le_Some [OF s2(8)]) simp
  then have ap: "apart buf s2 ps2" using apart_two_nuls [OF s2(5), of buf "pre @ name"] by simp
  let ?bs = "pre @ name @ 47 # path_str cs @ 0 # rest"
  let ?s3 = "s2\<lparr>bufs := (bufs s2)(buf \<mapsto> ?bs)\<rparr>"
  have w3: "wr_bytes buf (length pre + length name) [47] s2 = ret ?s3" using bz b2 patch_middle [of pre name 47 0] by simp
  have d2: "buf \<in> dom (bufs s2)" using b2 by auto
  have p3: "mounted A io ?s3 dk sb gd" "fs_ok invar live ?s3" "zeroed ?s3" "dir_caches ?s3 y ps2 (cache_names es [])" "unread ?s3 ps2"
    using mounted_write [OF s2(3) bk] fs_ok_write [OF s2(2) d2] s2(4,6) dir_caches_write [OF s2(5) ap]
    by (simp_all add: zeroed_def unread_def)
  have b3: "bufs ?s3 buf = Some ((pre @ name @ [47]) @ path_str cs @ 0 # rest)" by simp
  have ap3: "apart buf ?s3 ps2" using ap by (simp add: apart_def)
  have r3: "ready (needs @ ns) (lheap ?s3)" using s2(7) by simp
  obtain s' p where ih: "open_loop M buf (length (pre @ name @ [47])) y file ?s3 = ret (STATUS_SUCCESS, p, s')"
      "opened_as img (blockSize dk) sb gd s' p ino" "fs_ok invar live s'" "mounted A io s' dk sb gd" "ready ns (lheap s')"
      "bufs ?s3 \<subseteq>\<^sub>m bufs s'" "kept live ?s3 s'" "\<not> is_open ?s3 p"
    using path_dir.IH [OF p3 csok b3 ap3 r3] by blast
  have pos: "length pre + length name + 1 = length (pre @ name @ [47])" by simp
  have tk: "take (length name) (path_str (name # cs)) = name" using cs by (simp add: path_str_Cons)
  have "open_loop M buf (length pre) x file s = ret (STATUS_SUCCESS, p, s')"
    using ih(1) unfolding pos [symmetric]
    by (subst open_loop.simps) (simp add: c str idx w1 w3 tk s2(1) del: wr_bytes_ok)
  moreover have "bufs s \<subseteq>\<^sub>m bufs ?s3"
  proof -
    have "bufs s q = bufs ?s3 q" if q: "q \<in> dom (bufs s)" for q
    proof (cases "q = buf")
      case True
      then show ?thesis using b by simp
    next
      case False
      obtain v where v: "bufs s q = Some v" using q by auto
      with False map_le_Some [OF s2(8), of q v] show ?thesis by simp
    qed
    then show ?thesis by (simp add: map_le_def)
  qed
  then have "bufs s \<subseteq>\<^sub>m bufs s'" using ih(6) map_le_trans by blast
  moreover have kp: "kept live s ?s3" by (rule kept_trans [OF kept_write kept_trans [OF s2(9) kept_write]])
  moreover have "\<not> is_open s p" using kp ih(8) by (auto simp: kept_def)
  ultimately show ?case using ih kept_trans [OF kp ih(7)] by blast
qed

text \<open>Browsing a directory whose inode is in memory, and whose content is not: the root, when the service starts.\<close>

lemma Browse_unopened:
  assumes D: "ata_disk M io A img n" and m: "mounted A io s dk sb gd" and s: "fs_ok invar live s"
    and d: "files s dr = Some d" "\<not> f_opened d" "f_disk d = gExt2Disk s" "f_inode d \<noteq> nullptr" "bufs s (f_inode d) = Some ib"
    and dir: "file_whole n img (blockSize dk) ib" "file_content img (blockSize dk) ib = dir_bytes es" "le16_at ib 0 AND EXT2_S_IFDIR \<noteq> 0"
      "\<forall>e \<in> set es. entry_ok e" "es \<noteq> [] \<longrightarrow> de_pad (last es) \<noteq> []"
    and dc: "dir_caches s dr ps L" and rd: "ready (file_needs img (blockSize dk) ib @ dir_needs es @ ns) (lheap s)"
  shows "\<exists>s' ps'. BrowseAndCacheDirectory M dr s = ret (STATUS_SUCCESS, s') \<and> fs_ok invar live s' \<and> mounted A io s' dk sb gd \<and>
    dir_caches s' dr ps' (cache_names es L) \<and> bufs s \<subseteq>\<^sub>m bufs s' \<and> ready ns (lheap s') \<and> (zeroed s \<longrightarrow> unread s ps \<longrightarrow> unread s' ps')"
proof -
  have dz: "dr \<noteq> nullptr" using s d(1) by (auto simp: fs_ok_def)
  have ok: "dom (bufs s) \<subseteq> live (lheap s)" "nullptr \<notin> dom (bufs s)" "dom (files s) \<subseteq> live (lheap s)" "nullptr \<notin> dom (files s)"
    using s by (auto simp: fs_ok_def bufs_ok_def)
  have ens: "ensure_inode M dr s = ret (STATUS_SUCCESS, s)" using d(1,4) dz by (simp add: ensure_inode_def deref_ok)
  obtain c h dv q where c: "c \<noteq> nullptr" "c \<notin> live (lheap s)" "live h = insert c (live (lheap s))" "invar h" "ready (dir_needs es @ ns) h"
    "valid A dv" "pending A dv = []"
    "OpenFile M dr s = ret (STATUS_SUCCESS, s\<lparr>lheap := h, dev := dv, irqs := q,
      bufs := (bufs s)(c \<mapsto> file_content img (blockSize dk) ib), files := (files s)(dr \<mapsto> d\<lparr>f_content := c, f_opened := True\<rparr>)\<rparr>)"
    "unat c + length (file_content img (blockSize dk) ib) < 4294967296"
    by (rule OpenFile_loaded [OF D m s d(1,3,5) dir(1) ens rd])
  let ?d = "d\<lparr>f_content := c, f_opened := True\<rparr>"
  let ?s1 = "s\<lparr>lheap := h, dev := dv, irqs := q, bufs := (bufs s)(c \<mapsto> dir_bytes es), files := (files s)(dr \<mapsto> ?d)\<rparr>"
  have call1: "OpenFile M dr s = ret (STATUS_SUCCESS, ?s1)" using c(8) unfolding dir(2) .
  have nc: "f_inode d \<noteq> c" using c(2) ok(1) d(5) by auto
  have le1: "bufs s \<subseteq>\<^sub>m bufs ?s1" using ok(1) c(2) by (auto simp: map_le_def)
  have fok: "fs_ok invar live ?s1" using ok c(1,3,4) d(1) by (auto simp: fs_ok_def bufs_ok_def)
  have m1: "mounted A io ?s1 dk sb gd" by (rule mounted_cong [OF m _ _ _ _ _ le1]) (use c in simp_all)
  have dcp: "chain f_next (files s) (f_leaf d) ps" "dr \<notin> set ps" "list_all2 (cached_as s dr) ps L" "names_ok L"
    using dc d(1) by (auto simp: dir_caches_def)
  have ch: "chain f_next (files ?s1) (f_leaf ?d) ps"
  proof -
    have "chain f_next (files ?s1) (f_leaf d) ps" using chain_cong [of ps f_next "files ?s1" "files s"] dcp(1,2) by auto
    then show ?thesis by simp
  qed
  have "list_all2 (cached_as ?s1 dr) ps L"
    using dcp(3)
  proof (rule list.rel_mono_strong)
    fix q' x
    assume q': "q' \<in> set ps" "cached_as s dr q' x"
    then have "q' \<noteq> dr" using dcp(2) by auto
    then have "\<exists>b. files ?s1 q' = Some (f\<lparr>f_prev := b\<rparr>)" if "files s q' = Some f" for f
      using that by (intro exI [of _ "f_prev f"]) simp
    then show "cached_as ?s1 dr q' x" by (rule cached_as_grow [OF q'(2) _ le1]) simp_all
  qed
  with ch dcp have dc1: "dir_caches ?s1 dr ps L" by (simp add: dir_caches_def)
  have un1: "unread ?s1 ps" if "unread s ps" using that dcp(2) by (auto simp: unread_def)
  have w: "100 \<le> length ib" "unat (le32_at ib 4) = length (dir_bytes es)"
    using dir(1) unfolding dir(2) [symmetric] by (simp_all add: file_whole_def file_content_def inode_ok_def)
  have cont: "dir_content (f_content ?d) 0 es" unfolding dir_content_def using dir(4,5) c(9) by (simp add: dir(2))
  have pre: "files ?s1 dr = Some ?d" "f_opened ?d" "f_inode ?d \<noteq> nullptr" "bufs ?s1 (f_inode ?d) = Some ib"
      "bufs ?s1 (f_content ?d) = Some (dir_bytes es)" using d(4,5) nc by simp_all
  have r1: "ready (dir_needs es @ ns) (lheap ?s1)" using c(5) by simp
  have sz: "of_nat (length (dir_bytes es)) = le32_at ib 4" by (simp add: w(2) [symmetric])
  have b: "bufs ?s1 c = Some ([] @ dir_bytes es)" by simp
  have c0: "dir_content c (length ([] :: u8 list)) es" using cont by simp
  obtain s' ps' where l: "browse_loop M dr c STATUS_SUCCESS 0 (le32_at ib 4) ?s1 = ret (STATUS_SUCCESS, s')"
      "fs_ok invar live s'" "dir_caches s' dr ps' (cache_names es L)" "grown live dr ?s1 s'" "ready ns (lheap s')"
      "zeroed ?s1 \<longrightarrow> unread ?s1 ps \<longrightarrow> unread s' ps'"
    using browse_loop_ok [OF fok dc1 dz r1 b c0, of STATUS_SUCCESS] unfolding sz by auto
  have isd: "IsDirectory M dr ?s1 = ret (True, ?s1)"
    using rd16_ok [OF pre(3,4), of 0] w(1) dir(3) pre(1,3) dz by (simp add: IsDirectory_def ensure_inode_def deref_ok in_mode_def)
  have call: "BrowseAndCacheDirectory M dr s = ret (STATUS_SUCCESS, s')"
    unfolding BrowseAndCacheDirectory_def using l(1) isd d dz call1 rd32_ok [OF pre(3,4), of 4] w(1) pre
    by (simp add: deref_ok in_size_def)
  note g = grown_same [OF l(4)]
  have le2: "bufs ?s1 \<subseteq>\<^sub>m bufs s'" using l(4) by (simp add: grown_def)
  have m2: "mounted A io s' dk sb gd" by (rule mounted_cong [OF m1 _ _ _ _ _ le2]) (use g m1 in \<open>simp_all add: mounted_def\<close>)
  have un2: "zeroed s \<longrightarrow> unread s ps \<longrightarrow> unread s' ps'" using l(6) un1 by (simp add: zeroed_def)
  show ?thesis using call l(2,3,5) m2 map_le_trans [OF le1 le2] un2 by blast
qed

text \<open>A directory that is not there.\<close>

lemma open_loop_missing:
  assumes "dir_caches s x ps L" "x \<noteq> nullptr" and nm: "comp_ok name" "name \<notin> fst ` set L" and cs: "cs \<noteq> []" "\<forall>c \<in> set cs. comp_ok c"
    and "buf \<noteq> nullptr" "bufs s buf = Some (pre @ path_str (name # cs) @ 0 # rest)" "apart buf s ps"
  shows "open_loop M buf (length pre) x file s =
    ret (STATUS_FILE_NOT_FOUND, file, s\<lparr>bufs := (bufs s)(buf \<mapsto> pre @ name @ 0 # path_str cs @ 0 # rest)\<rparr>)"
proof -
  have all: "\<forall>c \<in> set (name # cs). comp_ok c" using nm(1) cs(2) by simp
  obtain c where c: "c \<noteq> 0" "rd8 buf (length pre) s = ret c" and str: "rd_str buf (length pre) s = ret (path_str (name # cs))"
    using rd_path [OF assms(7,8) all] by auto
  have idx: "FirstIndexOf (Some (path_str (name # cs))) 47 = int (length name)" by (rule FirstIndexOf_path [OF nm(1) cs(2,1)])
  have b: "bufs s buf = Some (pre @ name @ 47 # path_str cs @ 0 # rest)" using assms(8) cs by (simp add: path_str_Cons)
  let ?s1 = "s\<lparr>bufs := (bufs s)(buf \<mapsto> pre @ name @ 0 # path_str cs @ 0 # rest)\<rparr>"
  have w1: "wr_bytes buf (length pre + length name) [0] s = ret ?s1" using assms(7) b patch_middle [of pre name 0 47] by simp
  have dc: "dir_caches ?s1 x ps L" by (rule dir_caches_write [OF assms(1,9)])
  have n: "name \<noteq> []" "nul_free name" "name \<noteq> [46]" "name \<noteq> [46, 46]" using nm(1) by (auto simp: comp_ok_def)
  have dots: "StrCmp (Some name) (Some [46]) \<noteq> 0" "StrCmp (Some name) (Some [46, 46]) \<noteq> 0"
    using n by (simp_all add: StrCmp_0_iff nul_free_def)
  have len: "length ps = length L" using dc list_all2_lengthD by (auto simp: dir_caches_def)
  have none: "find (\<lambda>(q, n, i). n = name) (zip ps L) = None" using find_zip_None [OF len] nm(2) by simp
  have "IsCached x (Some name) (Some x) ?s1 = ret (False, Some x)" using IsCached_dir(2) [OF assms(2) dc n(1,2), of x] none by simp
  then have e: "enter_directory M x name ?s1 = ret (STATUS_FILE_NOT_FOUND, x, ?s1)" using dots by (simp add: enter_directory_def)
  have tk: "take (length name) (path_str (name # cs)) = name" using cs by (simp add: path_str_Cons)
  show ?thesis by (subst open_loop.simps) (simp add: c str idx w1 tk e del: wr_bytes_ok)
qed

text \<open>The first character of a path.\<close>

lemma OpenFileFromName_start:
  assumes "buf \<noteq> nullptr" "lead \<in> {[], [47]}" "cs \<noteq> []" "\<forall>c \<in> set cs. comp_ok c"
    and "bufs s buf = Some (pre @ lead @ path_str cs @ 0 # rest)"
  shows "OpenFileFromName M (Some (buf, length pre)) (Some out) s =
    andThen (open_loop M buf (length (pre @ lead)) (gRootFile s) out s) (\<lambda>(status, f1, s1). ret (status, Some f1, s1))"
proof -
  obtain name cs' where cs: "cs = name # cs'" using assms(3) by (cases cs) auto
  have nm: "comp_ok name" using assms(4) cs by simp
  have b: "bufs s buf = Some ((pre @ lead) @ path_str (name # cs') @ 0 # rest)" using assms(5) cs by simp
  obtain c where c: "c \<noteq> 0" "rd8 buf (length (pre @ lead)) s = ret c" using rd_path(1) [OF assms(1) b] assms(4) cs by auto
  show ?thesis
  proof (cases "lead = []")
    case True
    obtain a as where a: "name = a # as" "a \<noteq> 47" using nm by (cases name) (auto simp: comp_ok_def)
    have "bufs s buf = Some (pre @ [a] @ (tl (path_str (name # cs')) @ 0 # rest))"
      using b True a(1) by (cases cs') simp_all
    then have "rd8 buf (length pre) s = ret a" using rd_bytes_middle [OF assms(1), of s pre "[a]"] by (simp add: rd8_def)
    then show ?thesis using True a(2) by (simp add: OpenFileFromName_def)
  next
    case False
    then have l: "lead = [47]" using assms(2) by simp
    have "bufs s buf = Some (pre @ [47] @ (path_str (name # cs') @ 0 # rest))" using b l by simp
    then have "rd8 buf (length pre) s = ret 47" using rd_bytes_middle [OF assms(1), of s pre "[47]"] by (simp add: rd8_def)
    then show ?thesis using c l by (simp add: OpenFileFromName_def)
  qed
qed

end

subsection \<open>The service on a program's heap\<close>

text \<open>C29: browsing the root directory, when its inode is in memory and its content is not, reads the
  directory and caches exactly its entries: the ones that are not \<^verbatim>\<open>.\<close> or \<^verbatim>\<open>..\<close>,
  one file for each name, in front of what was cached, with the inode number of the entry and the directory as
  its parent.\<close>

theorem Browse_caches_entries:
  assumes "ata_disk P io A img n" "mounted A io s dk sb gd" "fs_ok user_heap_ok user_live s"
    and "files s dr = Some d" "\<not> f_opened d" "f_disk d = gExt2Disk s" "f_inode d \<noteq> nullptr" "bufs s (f_inode d) = Some ib"
    and "file_whole n img (blockSize dk) ib" "file_content img (blockSize dk) ib = dir_bytes es" "le16_at ib 0 AND EXT2_S_IFDIR \<noteq> 0"
    and "\<forall>e \<in> set es. entry_ok e" "es \<noteq> [] \<longrightarrow> de_pad (last es) \<noteq> []"
    and "dir_caches s dr ps L" "user_ready (file_needs img (blockSize dk) ib @ dir_needs es @ ns) (lheap s)"
  shows "\<exists>s' ps'. BrowseAndCacheDirectory (user_program P) dr s = ret (STATUS_SUCCESS, s') \<and> dir_caches s' dr ps' (cache_names es L) \<and>
    fs_ok user_heap_ok user_live s' \<and> mounted A io s' dk sb gd \<and> bufs s \<subseteq>\<^sub>m bufs s' \<and> user_ready ns (lheap s')"
proof -
  have D: "ata_disk (user_program P) io A img n" using assms(1) by simp
  show ?thesis using uprog.Browse_unopened [OF D assms(2-15)] by blast
qed



subsection \<open>A disk with a directory\<close>

text \<open>
  Inode 3, in block 5, is a directory with its entries in block 6; its one file has inode 4 and ten
  bytes in block 7.
\<close>

definition overlay :: "nat \<Rightarrow> u8 list \<Rightarrow> (nat \<Rightarrow> u8) \<Rightarrow> nat \<Rightarrow> u8" where
  "overlay a xs img i = (if a \<le> i \<and> i < a + length xs then xs ! (i - a) else img i)"

lemma disk_bytes_overlay: "length xs = k \<Longrightarrow> disk_bytes (overlay a xs img) a k = xs"
  by (auto simp: disk_bytes_def overlay_def intro!: nth_equalityI)

lemma disk_bytes_outside: "pos + k \<le> a \<or> a + length xs \<le> pos \<Longrightarrow> disk_bytes (overlay a xs img) pos k = disk_bytes img pos k"
  by (auto simp: disk_bytes_def overlay_def)

definition sim_ino :: "u8 \<Rightarrow> u8 \<Rightarrow> u8 \<Rightarrow> u8 list" where
  "sim_ino mode sz block = [0, mode, 0, 0, sz, 0, 0, 0] @ replicate 32 0 @ [block, 0, 0, 0] @ replicate 84 0"

definition sim_entries :: "dirent list" where
  "sim_entries = [\<lparr>de_inode = 4, de_name = [97], de_type = 1, de_pad = [0, 0, 0]\<rparr>]"

definition sim_tree :: "nat \<Rightarrow> u8" where
  "sim_tree = overlay 5376 (sim_ino 64 12 6) (overlay 5504 (sim_ino 0 10 7)
     (overlay 6144 (dir_bytes sim_entries @ replicate 1012 0) (\<lambda>_. 7)))"

lemma sim_ino_fields:
  "length (sim_ino m z b) = 128" "le32_at (sim_ino m 12 b) 4 = 12" "le32_at (sim_ino m 10 b) 4 = 10" "le32_at (sim_ino m z b) 88 = 0"
  "le32_at (sim_ino m z b) 92 = 0" "used_prefix (direct_pointers (sim_ino m z 6)) = [6]"
  "used_prefix (direct_pointers (sim_ino m z 7)) = [7]" "le16_at (sim_ino 64 z b) 0 = 0x4000"
proof -
  show "length (sim_ino m z b) = 128" "le32_at (sim_ino m 12 b) 4 = 12" "le32_at (sim_ino m 10 b) 4 = 10" "le32_at (sim_ino m z b) 88 = 0"
    by (simp_all add: le_bytes_zeros sim_ino_def le32_at_def)
  show  "le32_at (sim_ino m z b) 92 = 0" "le16_at (sim_ino 64 z b) 0 = 0x4000"
    by (simp_all add: le_bytes_zeros sim_ino_def le32_at_def le16_at_def)
  show "used_prefix (direct_pointers (sim_ino m z 6)) = [6]"
    "used_prefix (direct_pointers (sim_ino m z 7)) = [7]" 
    by (simp_all add: le_bytes_zeros sim_ino_def le32_at_def direct_pointers_def upt_rec)
qed

lemma sim_entries_bytes: "dir_bytes sim_entries = [4, 0, 0, 0, 12, 0, 1, 1, 97, 0, 0, 0]"
  by (simp add: sim_entries_def dir_bytes_def entry_bytes_def entry_len_def nat_bytes_numeral)

lemma sim_tree_inodes:
  "inode_offset 1024 (sim_super 128 0) sim_groups 3 = 5376" "inode_offset 1024 (sim_super 128 0) sim_groups 4 = 5504"
  "inode_bytes sim_tree 1024 (sim_super 128 0) sim_groups 3 = sim_ino 64 12 6"
  "inode_bytes sim_tree 1024 (sim_super 128 0) sim_groups 4 = sim_ino 0 10 7"
proof -
  show o: "inode_offset 1024 (sim_super 128 0) sim_groups 3 = 5376" "inode_offset 1024 (sim_super 128 0) sim_groups 4 = 5504"
    by (simp_all add: inode_offset_def inode_group_def inode_size_def sim_tables)
  show "inode_bytes sim_tree 1024 (sim_super 128 0) sim_groups 3 = sim_ino 64 12 6"
    unfolding inode_bytes_def o sim_tree_def by (simp add: disk_bytes_overlay sim_ino_fields)
  show "inode_bytes sim_tree 1024 (sim_super 128 0) sim_groups 4 = sim_ino 0 10 7"
    unfolding inode_bytes_def o sim_tree_def by (simp add: disk_bytes_overlay disk_bytes_outside sim_ino_fields)
qed

lemma sim_tree_data:
  "file_data sim_tree 1024 (sim_ino 64 12 6) = dir_bytes sim_entries @ replicate 1012 0"
  "file_data sim_tree 1024 (sim_ino 0 10 7) = replicate 1024 7"
proof -
  have "disk_bytes sim_tree 6144 1024 = dir_bytes sim_entries @ replicate 1012 0"
    unfolding sim_tree_def by (simp add: disk_bytes_overlay disk_bytes_outside sim_ino_fields sim_entries_bytes del: replicate.simps)
  then show "file_data sim_tree 1024 (sim_ino 64 12 6) = dir_bytes sim_entries @ replicate 1012 0"
    by (simp add: file_data_def file_pointers_def sim_ino_fields block_bytes_of_def)
  have "disk_bytes sim_tree 7168 1024 = replicate 1024 7"
    unfolding sim_tree_def by (simp add: disk_bytes_outside sim_ino_fields sim_entries_bytes disk_bytes_const)
  then show "file_data sim_tree 1024 (sim_ino 0 10 7) = replicate 1024 7"
    by (simp add: file_data_def file_pointers_def sim_ino_fields block_bytes_of_def)
qed

lemma sim_tree_files:
  "file_whole 100 sim_tree 1024 (sim_ino 64 12 6)" "file_content sim_tree 1024 (sim_ino 64 12 6) = dir_bytes sim_entries"
  "file_whole 100 sim_tree 1024 (sim_ino 0 10 7)" "file_content sim_tree 1024 (sim_ino 0 10 7) = replicate 10 7"
  "file_needs sim_tree 1024 (sim_ino 64 12 6) = [12, 1024, io_size 1024]"
  "file_needs sim_tree 1024 (sim_ino 0 10 7) = [10, 1024, io_size 1024]"
  "inode_at 100 1024 (sim_super 128 0) sim_groups 3" "inode_at 100 1024 (sim_super 128 0) sim_groups 4"
  by (simp_all add: file_whole_def file_content_def sim_tree_data inode_ok_def sim_ino_fields file_pointers_def block_ok_def
    file_needs_def inode_at_def disk_tables_ok_def inode_size_def inode_group_def sim_tables range_ok_def sim_tree_inodes
    del: replicate.simps) (simp_all add: sim_entries_bytes)

lemma sim_entries_ok: "\<forall>e \<in> set sim_entries. entry_ok e" "sim_entries \<noteq> [] \<longrightarrow> de_pad (last sim_entries) \<noteq> []"
  "cache_names sim_entries [] = [([97], 4)]" "dir_needs sim_entries = [2, sizeof_File]"
  by (simp_all add: sim_entries_def entry_ok_def entry_len_def nul_free_def)



text \<open>The service with this disk, a root directory and perhaps a file in it.\<close>

definition sim_file :: "int \<Rightarrow> addr \<Rightarrow> addr \<Rightarrow> addr \<Rightarrow> addr \<Rightarrow> File" where
  "sim_file num inode name leaf par = \<lparr>f_disk = 4, f_inum = num, f_inode = inode, f_name = name, f_content = nullptr,
     f_opened = False, f_leaf = leaf, f_parent = par, f_prev = nullptr, f_next = nullptr\<rparr>"

definition sim_fs :: "user_heap \<Rightarrow> (addr \<rightharpoonup> u8 list) \<Rightarrow> (addr \<rightharpoonup> File) \<Rightarrow> addr \<Rightarrow> addr \<Rightarrow> addr \<Rightarrow> (user_heap, sim_disk) fs" where
  "sim_fs h B F root sb gd = \<lparr>lheap = h, lnodes = Map.empty, bufs = B, fresh = (\<lambda>_ _. 0), dev = sim_idle, irqs = True,
     disks = [4 \<mapsto> \<lparr>disk_device = 8, superBlock = sb, blockSize = 1024, groups = 1, groupDec = gd\<rparr>],
     atas = [8 \<mapsto> AtaCreate 496 0], files = F, gExt2Disk = 4, gRootFile = root\<rparr>"

lemma six_blocks:
  assumes "sum_list (map pages_for ns) < 65000"
  obtains a b c r f m h where "distinct [a, b, c, r, f, m, nullptr]" "user_live h = {a, b, c, r, f, m}" "user_heap_ok h" "user_ready ns h"
proof -
  have r: "user_ready ([128, 128, 128, 128, 128, 128] @ ns) new_heap"
    using assms by (intro new_heap_ready) (simp add: pages_for_def block_bytes_def n_pages_def)
  have m: "\<forall>m \<in> set [128, 128, 128, 128, 128, 128 :: int]. 0 < m \<and> m < 2147483648" by simp
  obtain ps h where ps: "length ps = length [128, 128, 128, 128, 128, 128 :: int]" "distinct ps" "nullptr \<notin> set ps"
      "user_live h = set ps \<union> user_live new_heap" "user_heap_ok h" "user_ready ns h"
    using alloc_many [OF new_heap_ok(1) m r] by blast
  obtain a b c r f m where "ps = [a, b, c, r, f, m]" using ps(1) by (auto simp: length_Suc_conv)
  with ps show thesis by (intro that [of a b c r f m h]) (auto simp: new_heap_ok(2))
qed

abbreviation sim_dk :: "addr \<Rightarrow> addr \<Rightarrow> Ext2Disk" where
  "sim_dk sb gd \<equiv> \<lparr>disk_device = 8, superBlock = sb, blockSize = 1024, groups = 1, groupDec = gd\<rparr>"

lemma sim_fs_mounted:
  "bufs (sim_fs h B F root sb gd) = B" "files (sim_fs h B F root sb gd) = F" "lheap (sim_fs h B F root sb gd) = h"
  "zeroed (sim_fs h B F root sb gd)" "gRootFile (sim_fs h B F root sb gd) = root" "gExt2Disk (sim_fs h B F root sb gd) = 4"
  "B sb = Some (sim_super 128 0) \<Longrightarrow> B gd = Some sim_groups \<Longrightarrow>
    mounted sim_view 496 (sim_fs h B F root sb gd) (sim_dk sb gd) (sim_super 128 0) sim_groups"
  by (auto simp: sim_fs_def zeroed_def mounted_def bsize_ok_def)

theorem Browse_caches_entries_witness:
  "\<exists>s r s' ps. BrowseAndCacheDirectory (user_program (sim_ports 496 sim_tree)) r s = ret (STATUS_SUCCESS, s') \<and>
     dir_caches (s' :: (user_heap, sim_disk) fs) r ps [([97], 4)]"
proof -
  have ns: "sum_list (map pages_for [12, 1024, io_size 1024, 2, sizeof_File]) < 65000"
    by (simp add: pages_for_def block_bytes_def n_pages_def io_size_def)
  obtain a b c r f m h where h: "distinct [a, b, c, r, f, m, nullptr]" "user_live h = {a, b, c, r, f, m}" "user_heap_ok h"
      "user_ready [12, 1024, io_size 1024, 2, sizeof_File] h"
    by (rule six_blocks [OF ns])
  let ?B = "[a \<mapsto> sim_super 128 0, b \<mapsto> sim_groups, c \<mapsto> sim_ino 64 12 6]"
  let ?d = "sim_file 3 c nullptr nullptr r"
  let ?s = "sim_fs h ?B [r \<mapsto> ?d] r a b"
  note s = sim_fs_mounted [where h = h and B = ?B and F = "[r \<mapsto> ?d]" and root = r and sb = a and gd = b]
  have m: "mounted sim_view 496 ?s (sim_dk a b) (sim_super 128 0) sim_groups" by (rule s(7)) (use h(1) in simp_all)
  have ok: "fs_ok user_heap_ok user_live ?s" unfolding fs_ok_def bufs_ok_def s using h by auto
  have d: "files ?s r = Some ?d" "\<not> f_opened ?d" "f_disk ?d = gExt2Disk ?s" "f_inode ?d \<noteq> nullptr" "bufs ?s (f_inode ?d) = Some (sim_ino 64 12 6)"
    unfolding s using h(1) by (auto simp: sim_file_def)
  have w: "file_whole 100 sim_tree (blockSize (sim_dk a b)) (sim_ino 64 12 6)"
      "file_content sim_tree (blockSize (sim_dk a b)) (sim_ino 64 12 6) = dir_bytes sim_entries" "le16_at (sim_ino 64 12 6) 0 AND EXT2_S_IFDIR \<noteq> 0"
    by (simp_all add: sim_tree_files sim_ino_fields)
  have dc: "dir_caches ?s r [] []" unfolding dir_caches_def s by (simp add: names_ok_def sim_file_def)
  have r: "user_ready (file_needs sim_tree (blockSize (sim_dk a b)) (sim_ino 64 12 6) @ dir_needs sim_entries @ []) (lheap ?s)"
    unfolding s using h(4) by (simp add: sim_tree_files sim_entries_ok)
  from Browse_caches_entries [OF sim_ata_disk [of 496] m ok d w sim_entries_ok(1,2) dc r] show ?thesis
    unfolding sim_entries_ok(3) by blast
qed




end
