(* ===== verification/Fs_Protocol.thy ===== *)
theory Fs_Protocol
  imports Ext2
begin

section \<open>Messages between programs and the file system service\<close>

text \<open>
  \<^verbatim>\<open>userland/StdLib/src/Ipc.cpp\<close>, the classes a program sends and receives messages with, and
  \<^verbatim>\<open>userland/system/Common/LtFsCommon.cpp\<close>, the requests and responses of the file system
  service. The system calls are those of \<^verbatim>\<open>userland/StdLib/src/syscalls.asm\<close>: what the kernel
  does with its state \<open>'k\<close> is an argument.
\<close>

subsection \<open>System calls\<close>

text \<open>
  A call returns the number of a status. The handle is stored whatever the status is. \<open>sysIpcReceive\<close>
  also gives the bytes the kernel has stored in the buffer of the caller, and their number.
\<close>

record 'k ipc_calls =
  sysIpcServerCreate :: "cstr \<Rightarrow> 'k \<Rightarrow> u32 \<times> u32 \<times> 'k"
  sysIpcServerConnect :: "cstr \<Rightarrow> 'k \<Rightarrow> u32 \<times> u32 \<times> 'k"
  sysIpcSend :: "u32 \<Rightarrow> u8 list \<Rightarrow> 'k \<Rightarrow> u32 \<times> 'k"
  sysIpcReceive :: "u32 \<Rightarrow> u32 \<Rightarrow> 'k \<Rightarrow> u32 \<times> u8 list \<times> u32 \<times> 'k"
  sysRaiseThreadPriority :: "'k \<Rightarrow> 'k"
  sysLowerThreadPriority :: "'k \<Rightarrow> 'k"

abbreviation (input) INVALID_HANDLE_VALUE :: u32 where "INVALID_HANDLE_VALUE \<equiv> 0"

text \<open>The number of a status, as the members of the messages hold it.\<close>

definition status_num :: "Status \<Rightarrow> u32" where
  "status_num st = (case st of Status_value n \<Rightarrow> of_nat n | _ \<Rightarrow> of_nat (length (takeWhile (\<lambda>x. x \<noteq> st) STATUS_LIST)))"

definition RaiseThreadPriority :: "'k ipc_calls \<Rightarrow> 'k \<Rightarrow> 'k" where
  "RaiseThreadPriority K k = sysRaiseThreadPriority K k"

definition LowerThreadPriority :: "'k ipc_calls \<Rightarrow> 'k \<Rightarrow> 'k" where
  "LowerThreadPriority K k = sysLowerThreadPriority K k"

subsection \<open>Servers and clients\<close>

text \<open>
  The one member of an \<^verbatim>\<open>IpcServer\<close> is its handle; an \<^verbatim>\<open>IpcClient\<close> has none. A
  pointer that may be null is an option.
\<close>

definition IpcServer_Create :: "'k ipc_calls \<Rightarrow> cstr option \<Rightarrow> u32 option \<Rightarrow> 'k \<Rightarrow> Status \<times> u32 option \<times> 'k" where
  "IpcServer_Create K serverName server k = (case serverName of
     None \<Rightarrow> (STATUS_NULL_PARAMETER, server, k)
   | Some name \<Rightarrow>
       if server = None then (STATUS_NULL_PARAMETER, server, k)
       else case sysIpcServerCreate K name k of (n, handle, k1) \<Rightarrow>
         if failed (status_of n) then (status_of n, server, k1)
         else (STATUS_SUCCESS, Some handle, k1))"

definition IpcServer_Receive ::
  "'k ipc_calls \<Rightarrow> u32 \<Rightarrow> u8 list option \<Rightarrow> u32 \<Rightarrow> u32 option \<Rightarrow> 'k \<Rightarrow> (Status \<times> u8 list option \<times> u32 option \<times> 'k) exec" where
  "IpcServer_Receive K serverHandle buffer sz readBytes k = (case buffer of
     None \<Rightarrow> ret (STATUS_NULL_PARAMETER, buffer, readBytes, k)
   | Some content \<Rightarrow>
       if sz = 0 then ret (STATUS_INVALID_PARAMETER, buffer, readBytes, k)
       else if readBytes = None then ret (STATUS_NULL_PARAMETER, buffer, readBytes, k)
       else case sysIpcReceive K serverHandle sz k of (n, bytes, count, k1) \<Rightarrow>
         if failed (status_of n) then ret (status_of n, buffer, readBytes, k1)
         else if length bytes \<le> length content then ret (STATUS_SUCCESS, Some (patch 0 bytes content), Some count, k1)
         else halt BadAccess)"

definition IpcClient_ConnectToServer :: "'k ipc_calls \<Rightarrow> cstr option \<Rightarrow> u32 option \<Rightarrow> 'k \<Rightarrow> Status \<times> u32 option \<times> 'k" where
  "IpcClient_ConnectToServer K serverName handle k = (case serverName of
     None \<Rightarrow> (STATUS_NULL_PARAMETER, handle, k)
   | Some name \<Rightarrow>
       if handle = None then (STATUS_NULL_PARAMETER, handle, k)
       else case sysIpcServerConnect K name k of (n, h, k1) \<Rightarrow> (status_of n, Some h, k1))"

text \<open>The message is a buffer of the program; the kernel reads \<open>sz\<close> bytes of it.\<close>

definition IpcClient_Send ::
  "'k ipc_calls \<Rightarrow> u32 \<Rightarrow> addr \<Rightarrow> u32 \<Rightarrow> ('h, 'd, 'z) prog_scheme \<Rightarrow> 'k \<Rightarrow> (Status \<times> 'k) exec" where
  "IpcClient_Send K serverHandle message sz s k =
     (if serverHandle = INVALID_HANDLE_VALUE then ret (STATUS_INVALID_PARAMETER, k)
      else if message = nullptr then ret (STATUS_NULL_PARAMETER, k)
      else if sz = 0 then ret (STATUS_INVALID_PARAMETER, k)
      else andThen (rd_bytes message 0 (unat sz) s) (\<lambda>bytes.
        case sysIpcSend K serverHandle bytes k of (n, k1) \<Rightarrow> ret (status_of n, k1)))"

subsection \<open>Requests and responses\<close>

definition LTFS_SERVICE_NAME :: cstr where
  "LTFS_SERVICE_NAME = [95, 95, 76, 116, 70, 115, 83, 101, 114, 118, 105, 99, 101, 95, 95]"

datatype FileAccess = FILE_READ | FILE_ACCESS_MAX
datatype FileShareMode = FILE_SHARE_NONE | FILE_SHARE_READ | FILE_SHARE_WRITE | FILE_SHARE_MAX
datatype LtFsRequestType = LTFS_REQUEST_TERMINATE | LTFS_REQUEST_CONNECT | LTFS_REQUEST_OPEN_FILE | LTFS_REQUEST_MAX

text \<open>The numbers of the enumerators, as the messages hold them; a message may hold another number.\<close>

fun access_num :: "FileAccess \<Rightarrow> u32" where
  "access_num FILE_READ = 0"
| "access_num FILE_ACCESS_MAX = 1"

fun share_num :: "FileShareMode \<Rightarrow> u32" where
  "share_num FILE_SHARE_NONE = 0"
| "share_num FILE_SHARE_READ = 1"
| "share_num FILE_SHARE_WRITE = 2"
| "share_num FILE_SHARE_MAX = 3"

fun request_num :: "LtFsRequestType \<Rightarrow> u32" where
  "request_num LTFS_REQUEST_TERMINATE = 0"
| "request_num LTFS_REQUEST_CONNECT = 1"
| "request_num LTFS_REQUEST_OPEN_FILE = 2"
| "request_num LTFS_REQUEST_MAX = 3"

abbreviation MAX_FULL_PATH_SIZE :: nat where "MAX_FULL_PATH_SIZE \<equiv> 255"

text \<open>
  Sizes and offsets: a request is its type and the pointer member that the parameters overlay, a
  response its status, its size and the pointer member that the data overlays. The path of an open request
  has 255 bytes; one byte pads it.
\<close>

abbreviation sizeof_LtFsRequest :: u32 where "sizeof_LtFsRequest \<equiv> 8"
abbreviation sizeof_LtFsResponse :: u32 where "sizeof_LtFsResponse \<equiv> 12"
abbreviation sizeof_LtFsOpenFileParameters :: u32 where "sizeof_LtFsOpenFileParameters \<equiv> 264"
abbreviation sizeof_LtFsConnectParameter :: u32 where "sizeof_LtFsConnectParameter \<equiv> 255"
abbreviation rq_parameters :: nat where "rq_parameters \<equiv> 4"
abbreviation of_access :: nat where "of_access \<equiv> 256"
abbreviation of_shareMode :: nat where "of_shareMode \<equiv> 260"

text \<open>
  The object behind \<open>parameters\<close> or \<open>data\<close> is given as its bytes. The out parameter is only stored to when
  the call succeeds.
\<close>

definition copy_in :: "u8 list \<Rightarrow> u32 \<Rightarrow> addr \<Rightarrow> nat \<Rightarrow> ('h, 'd, 'z) prog_scheme \<Rightarrow> ('h, 'd, 'z) prog_scheme exec" where
  "copy_in src sz dst pos s =
     (if unat sz \<le> length src then wr_bytes dst pos (take (unat sz) src) s else halt BadAccess)"

definition LtFsRequest_Create ::
  "('d, 'h, 'm) platform_scheme \<Rightarrow> u32 \<Rightarrow> u8 list option \<Rightarrow> u32 \<Rightarrow> addr option \<Rightarrow> ('h, 'd, 'z) prog_scheme \<Rightarrow>
   (Status \<times> addr option \<times> ('h, 'd, 'z) prog_scheme) exec" where
  "LtFsRequest_Create M ty parameters sz outRequest s =
     (if ty \<ge> request_num LTFS_REQUEST_MAX then ret (STATUS_INVALID_PARAMETER, outRequest, s)
      else case parameters of None \<Rightarrow> ret (STATUS_NULL_PARAMETER, outRequest, s)
      | Some src \<Rightarrow>
          if sz = 0 then ret (STATUS_INVALID_PARAMETER, outRequest, s)
          else if outRequest = None then ret (STATUS_NULL_PARAMETER, outRequest, s)
          else andThen (buf_alloc M (sint (sizeof_LtFsRequest + sz)) s) (\<lambda>(request, s1).
            if request = nullptr then ret (STATUS_ALLOC_FAILED, outRequest, s1)
            else andThen (wr32 request 0 ty s1) (\<lambda>s2.
              andThen (copy_in src sz request rq_parameters s2) (\<lambda>s3. ret (STATUS_SUCCESS, Some request, s3)))))"

definition LtFsResponse_Create ::
  "('d, 'h, 'm) platform_scheme \<Rightarrow> Status \<Rightarrow> u8 list option \<Rightarrow> u32 \<Rightarrow> addr option \<Rightarrow> ('h, 'd, 'z) prog_scheme \<Rightarrow>
   (Status \<times> addr option \<times> ('h, 'd, 'z) prog_scheme) exec" where
  "LtFsResponse_Create M resStatus data sz outResponse s =
     (if data = None \<and> sz \<noteq> 0 then ret (STATUS_INVALID_PARAMETER, outResponse, s)
      else if outResponse = None then ret (STATUS_INVALID_PARAMETER, outResponse, s)
      else andThen (buf_alloc M (sint (sizeof_LtFsResponse + sz)) s) (\<lambda>(res, s1).
        if res = nullptr then ret (STATUS_ALLOC_FAILED, outResponse, s1)
        else andThen (wr32 res 4 (sizeof_LtFsResponse + sz) s1) (\<lambda>s2.
          andThen (wr32 res 0 (status_num resStatus) s2) (\<lambda>s3.
            andThen (if sz > 0 then copy_in (the data) sz res 8 s3 else ret s3) (\<lambda>s4.
              ret (STATUS_SUCCESS, Some res, s4))))))"

end
