(* ===== verification/Fs_Client.thy ===== *)
theory Fs_Client
  imports Fs_Protocol
begin

section \<open>The file system functions of the user library\<close>

text \<open>
  \<^verbatim>\<open>userland/StdLib/src/FileSystem.cpp\<close>: a program opens a file by a request to the file system
  service. \<open>ckern\<close> is the state of the kernel behind the system calls.
\<close>

record FsContext =
  fc_ipcServer :: u32
  fc_ltFsServiceHandle :: u32
  fc_isInitialized :: bool
  fc_connectedToLtFs :: bool

record ('h, 'd, 'k) client = "('h, 'd) prog" +
  gFsContext :: FsContext
  ckern :: 'k

text \<open>
  \<^verbatim>\<open>FsInit\<close>; the name tells it from the function of the service.
  \<open>uniqueIpcServerId\<close> is the time of the compilation, in eight characters; \<open>junk\<close> is what the variable
  \<open>parameter\<close> on the stack held. The request is sent with the size of an open request. The status of the
  sending is dropped: \<open>status\<close> is that of the creation, which has succeeded, so the request is never freed.
\<close>

definition ClientFsInit ::
  "('d, 'h, 'm) platform_scheme \<Rightarrow> 'k ipc_calls \<Rightarrow> cstr \<Rightarrow> u8 list \<Rightarrow> ('h, 'd, 'k, 'z) client_scheme \<Rightarrow>
   (Status \<times> ('h, 'd, 'k, 'z) client_scheme) exec" where
  "ClientFsInit M K uniqueIpcServerId junk s =
     (case IpcClient_ConnectToServer K (Some LTFS_SERVICE_NAME) (Some INVALID_HANDLE_VALUE) (ckern s) of (status, serverHandle, k1) \<Rightarrow>
      if failed status then ret (status, s\<lparr>ckern := k1\<rparr>)
      else case IpcServer_Create K (Some uniqueIpcServerId) (Some 0) k1 of (status, ipcServer, k2) \<Rightarrow>
      let s2 = s\<lparr>ckern := k2\<rparr> in
      if failed status then ret (status, s2)
      else if length uniqueIpcServerId + 1 > length junk then halt BadAccess
      else andThen (LtFsRequest_Create M (request_num LTFS_REQUEST_CONNECT) (Some (patch 0 (uniqueIpcServerId @ [0]) junk))
          sizeof_LtFsConnectParameter (Some nullptr) s2) (\<lambda>(status, connectRequest, s3).
        if failed status then ret (status, s3)
        else andThen (IpcClient_Send K (the serverHandle) (the connectRequest) (sizeof_LtFsRequest + sizeof_LtFsOpenFileParameters) s3 (ckern s3))
          (\<lambda>(_, k4). ret (status, s3\<lparr>ckern := k4, gFsContext := (gFsContext s3)\<lparr>fc_isInitialized := True,
             fc_ltFsServiceHandle := the serverHandle, fc_ipcServer := the ipcServer\<rparr>\<rparr>))))"

text \<open>The parameters of an open request, over what the variable on the stack held.\<close>

definition open_parameters :: "cstr \<Rightarrow> u32 \<Rightarrow> u32 \<Rightarrow> u8 list \<Rightarrow> u8 list" where
  "open_parameters filePath access shareMode junk =
     patch 0 (filePath @ [0]) (patch of_access (nat_bytes 4 (unat access)) (patch of_shareMode (nat_bytes 4 (unat shareMode)) junk))"

definition FsOpenFile ::
  "('d, 'h, 'm) platform_scheme \<Rightarrow> 'k ipc_calls \<Rightarrow> cstr \<Rightarrow> u8 list \<Rightarrow> u8 list \<Rightarrow> cstr option \<Rightarrow> u32 \<Rightarrow> u32 \<Rightarrow> u32 option \<Rightarrow>
   ('h, 'd, 'k, 'z) client_scheme \<Rightarrow> (Status \<times> ('h, 'd, 'k, 'z) client_scheme) exec" where
  "FsOpenFile M K uniqueIpcServerId junk0 junk filePath access shareMode fileHandle s = (case filePath of
     None \<Rightarrow> ret (STATUS_NULL_PARAMETER, s)
   | Some path \<Rightarrow>
       if access \<ge> access_num FILE_ACCESS_MAX then ret (STATUS_INVALID_PARAMETER, s)
       else if shareMode \<ge> share_num FILE_SHARE_MAX then ret (STATUS_INVALID_PARAMETER, s)
       else if fileHandle = None then ret (STATUS_NULL_PARAMETER, s)
       else andThen (if \<not> fc_isInitialized (gFsContext s) then ClientFsInit M K uniqueIpcServerId junk0 s else ret (STATUS_SUCCESS, s)) (\<lambda>(status, s1).
         if failed status then ret (status, s1)
         else if StrLen (Some path) + 1 > MAX_FULL_PATH_SIZE then ret (STATUS_PATH_TOO_LONG, s1)
         else andThen (LtFsRequest_Create M (request_num LTFS_REQUEST_OPEN_FILE) (Some (open_parameters path access shareMode junk))
             sizeof_LtFsOpenFileParameters (Some nullptr) s1) (\<lambda>(status, request, s2).
           andThen
             (if failed status then ret (status, s2)
              else andThen (IpcClient_Send K (fc_ltFsServiceHandle (gFsContext s2)) (the request)
                  (sizeof_LtFsRequest + sizeof_LtFsOpenFileParameters) s2 (ckern s2)) (\<lambda>(_, k3). ret (STATUS_SUCCESS, s2\<lparr>ckern := k3\<rparr>)))
             (\<lambda>(status, s3). andThen (buf_free M (the request) s3) (\<lambda>s4. ret (status, s4))))))"

text \<open>The other functions do nothing.\<close>

definition FsGetFileSize :: "u32 \<Rightarrow> u32 option \<Rightarrow> Status \<times> u32 option" where
  "FsGetFileSize fileHandle fileSize = (STATUS_SUCCESS, fileSize)"

definition FsReadFile :: "u32 \<Rightarrow> u8 list \<Rightarrow> int \<Rightarrow> u32 option \<Rightarrow> Status \<times> u8 list \<times> u32 option" where
  "FsReadFile fileHandle buffer bytes bytesRead = (STATUS_SUCCESS, buffer, bytesRead)"

definition FsCloseFile :: "u32 \<Rightarrow> ('h, 'd, 'k, 'z) client_scheme \<Rightarrow> ('h, 'd, 'k, 'z) client_scheme" where
  "FsCloseFile fileHandle s = s"

end
