(* ===== verification/Service_Commands.thy ===== *)
theory Service_Commands
  imports File_Cache Fs_Protocol User_Malloc
begin

section \<open>The commands of the file system service\<close>

text \<open>
  \<^verbatim>\<open>userland/system/LtFsService/src/ServiceCommands.cpp\<close>: the processes that have connected and
  the files they have opened, and \<^verbatim>\<open>main.cpp\<close>, the start of the service. \<open>kern\<close> is the
  state of the kernel behind the system calls. Log messages are not modelled.
\<close>

subsection \<open>State\<close>

record ProcessEntry =
  pe_serverHandle :: u32
  pe_processHandle :: u32
  pe_fileEntries :: addr

record FileEntry =
  fe_handle :: u32
  fe_cursor :: u32
  fe_file :: addr
  fe_shareMode :: u32

record ('h, 'd, 'k) service = "('h, 'd) fs" +
  kern :: 'k
  processEntries :: "addr \<rightharpoonup> ProcessEntry"
  fileEntries :: "addr \<rightharpoonup> FileEntry"
  gSvc_processes :: addr
  gSvc_fileEntries :: addr
  gCurrentFileHandle :: u32

abbreviation sizeof_ProcessEntry :: int where "sizeof_ProcessEntry \<equiv> 16"
abbreviation sizeof_FileEntry :: int where "sizeof_FileEntry \<equiv> 16"
abbreviation sizeof_Handle :: u32 where "sizeof_Handle \<equiv> 4"

definition ServiceCommandInit ::
  "('d, 'h, 'm) platform_scheme \<Rightarrow> ('h, 'd, 'k, 'z) service_scheme \<Rightarrow> ('h, 'd, 'k, 'z) service_scheme exec" where
  "ServiceCommandInit M s =
     andThen (ListCreate (heap_alloc M) s) (\<lambda>(processes, s1).
     andThen (ListCreate (heap_alloc M) (s1\<lparr>gSvc_processes := processes\<rparr>)) (\<lambda>(entries, s2).
       ret (s2\<lparr>gSvc_fileEntries := entries, gCurrentFileHandle := 0\<rparr>)))"

subsection \<open>Looking for entries\<close>

record LOOK_FOR_PROCESS_CONTEXT =
  lp_processHandle :: u32
  lp_processEntry :: addr

definition LookForProcessFromHandleCallback ::
  "('h, 'd, 'k, 'z) service_scheme \<Rightarrow> addr \<Rightarrow> LOOK_FOR_PROCESS_CONTEXT \<Rightarrow> (Status \<times> LOOK_FOR_PROCESS_CONTEXT) exec" where
  "LookForProcessFromHandleCallback s data ctx =
     (if data = nullptr then ret (STATUS_NULL_PARAMETER, ctx)
      else andThen (deref (processEntries s) data) (\<lambda>entry.
        if pe_processHandle entry = lp_processHandle ctx
        then ret (STATUS_LIST_STOP_ITERATING, ctx\<lparr>lp_processEntry := data\<rparr>) else ret (STATUS_SUCCESS, ctx)))"

definition LookForProcessFromHandle ::
  "u32 \<Rightarrow> addr option \<Rightarrow> ('h, 'd, 'k, 'z) service_scheme \<Rightarrow> (Status \<times> addr option) exec" where
  "LookForProcessFromHandle processHandle process s =
     (if processHandle = INVALID_HANDLE_VALUE then ret (STATUS_INVALID_PARAMETER, process)
      else if process = None then ret (STATUS_NULL_PARAMETER, process)
      else andThen (UserListEnumerate (gSvc_processes s) (Some (LookForProcessFromHandleCallback s))
          \<lparr>lp_processHandle = processHandle, lp_processEntry = nullptr\<rparr> s) (\<lambda>(status, ctx).
        if failed status \<and> status \<noteq> STATUS_LIST_STOP_ITERATING then ret (status, process)
        else ret (STATUS_SUCCESS, Some (lp_processEntry ctx))))"

record LOOK_FOR_FILE_ENTRY_CONTEXT =
  lf_file :: addr
  lf_fileEntry :: addr

definition LookForFileEntryFromFilePtrCallback ::
  "('h, 'd, 'k, 'z) service_scheme \<Rightarrow> addr \<Rightarrow> LOOK_FOR_FILE_ENTRY_CONTEXT \<Rightarrow> (Status \<times> LOOK_FOR_FILE_ENTRY_CONTEXT) exec" where
  "LookForFileEntryFromFilePtrCallback s elem ctx =
     (if elem = nullptr then ret (STATUS_NULL_PARAMETER, ctx)
      else andThen (deref (fileEntries s) elem) (\<lambda>entry.
        if fe_file entry = lf_file ctx
        then ret (STATUS_LIST_STOP_ITERATING, ctx\<lparr>lf_fileEntry := elem\<rparr>) else ret (STATUS_SUCCESS, ctx)))"

definition LookForFileEntryFromFilePtr ::
  "addr \<Rightarrow> addr option \<Rightarrow> ('h, 'd, 'k, 'z) service_scheme \<Rightarrow> (Status \<times> addr option) exec" where
  "LookForFileEntryFromFilePtr file fileEntry s =
     (if file = nullptr then ret (STATUS_NULL_PARAMETER, fileEntry)
      else if fileEntry = None then ret (STATUS_NULL_PARAMETER, fileEntry)
      else andThen (UserListEnumerate (gSvc_fileEntries s) (Some (LookForFileEntryFromFilePtrCallback s))
          \<lparr>lf_file = file, lf_fileEntry = nullptr\<rparr> s) (\<lambda>(status, ctx).
        if failed status \<and> status \<noteq> STATUS_LIST_STOP_ITERATING then ret (status, fileEntry)
        else ret (STATUS_SUCCESS, Some (lf_fileEntry ctx))))"

subsection \<open>New entries\<close>

text \<open>\<^verbatim>\<open>CreateProcessEntry\<close> sets the process handle only.\<close>

definition fresh_ProcessEntry :: "('h, 'd, 'z) prog_scheme \<Rightarrow> addr \<Rightarrow> ProcessEntry" where
  "fresh_ProcessEntry s p = \<lparr>pe_serverHandle = fresh32 s p 0, pe_processHandle = fresh32 s p 8, pe_fileEntries = fresh32 s p 12\<rparr>"

definition CreateProcessEntry ::
  "('d, 'h, 'm) platform_scheme \<Rightarrow> u32 \<Rightarrow> addr option \<Rightarrow> ('h, 'd, 'k, 'z) service_scheme \<Rightarrow>
   (Status \<times> addr option \<times> ('h, 'd, 'k, 'z) service_scheme) exec" where
  "CreateProcessEntry M processHandle process s =
     (if processHandle = INVALID_HANDLE_VALUE then ret (STATUS_NULL_PARAMETER, process, s)
      else if process = None then ret (STATUS_NULL_PARAMETER, process, s)
      else andThen (heap_alloc M sizeof_ProcessEntry (lheap s)) (\<lambda>(p, h).
        if p = nullptr then ret (STATUS_ALLOC_FAILED, process, s\<lparr>lheap := h\<rparr>)
        else ret (STATUS_SUCCESS, Some p, s\<lparr>lheap := h, processEntries := (processEntries s)(p \<mapsto>
          (fresh_ProcessEntry s p)\<lparr>pe_processHandle := processHandle\<rparr>)\<rparr>)))"

definition IsFileAccessible :: "FileEntry \<Rightarrow> u32 \<Rightarrow> bool" where
  "IsFileAccessible fileEntry access =
     (if access = access_num FILE_READ then
        if share_num FILE_SHARE_READ AND fe_shareMode fileEntry = 0 then False else True
      else True)"

definition NewFileEntry ::
  "('d, 'h, 'm) platform_scheme \<Rightarrow> addr \<Rightarrow> u32 \<Rightarrow> u32 \<Rightarrow> addr option \<Rightarrow> ('h, 'd, 'k, 'z) service_scheme \<Rightarrow>
   (Status \<times> addr option \<times> ('h, 'd, 'k, 'z) service_scheme) exec" where
  "NewFileEntry M file access shareMode newFileEntry s =
     (if file = nullptr then ret (STATUS_NULL_PARAMETER, newFileEntry, s)
      else if access \<ge> access_num FILE_ACCESS_MAX then ret (STATUS_INVALID_PARAMETER, newFileEntry, s)
      else if shareMode \<ge> share_num FILE_SHARE_MAX then ret (STATUS_INVALID_PARAMETER, newFileEntry, s)
      else if newFileEntry = None then ret (STATUS_NULL_PARAMETER, newFileEntry, s)
      else andThen (heap_alloc M sizeof_FileEntry (lheap s)) (\<lambda>(p, h).
        if p = nullptr then ret (STATUS_ALLOC_FAILED, newFileEntry, s\<lparr>lheap := h\<rparr>)
        else ret (STATUS_SUCCESS, Some p, s\<lparr>lheap := h, gCurrentFileHandle := gCurrentFileHandle s + 1,
          fileEntries := (fileEntries s)(p \<mapsto> \<lparr>fe_handle = gCurrentFileHandle s + 1, fe_cursor = 0, fe_file = file,
            fe_shareMode = shareMode\<rparr>)\<rparr>)))"

subsection \<open>Requests\<close>

text \<open>\<^verbatim>\<open>HeapFree(process)\<close>; the pointer may be that of an entry that is in the list.\<close>

definition free_process ::
  "('d, 'h, 'm) platform_scheme \<Rightarrow> addr \<Rightarrow> ('h, 'd, 'k, 'z) service_scheme \<Rightarrow> ('h, 'd, 'k, 'z) service_scheme exec" where
  "free_process M process s =
     (if process = nullptr then ret s
      else andThen (heap_free M process (lheap s)) (\<lambda>h.
        ret (s\<lparr>lheap := h, processEntries := (processEntries s)(process := None)\<rparr>)))"

definition RequestConnect ::
  "('d, 'h, 'm) platform_scheme \<Rightarrow> 'k ipc_calls \<Rightarrow> u32 \<Rightarrow> (addr \<times> nat) option \<Rightarrow> ('h, 'd, 'k, 'z) service_scheme \<Rightarrow>
   (Status \<times> ('h, 'd, 'k, 'z) service_scheme) exec" where
  "RequestConnect M K processHandle parameters s = (case parameters of
     None \<Rightarrow> ret (STATUS_NULL_PARAMETER, s)
   | Some (message, pos) \<Rightarrow>
       andThen (LookForProcessFromHandle processHandle (Some nullptr) s) (\<lambda>(status, process).
         andThen
           (if failed status then ret (status, the process, s)
            else if the process \<noteq> nullptr then ret (STATUS_SUCCESS, the process, s)
            else andThen (CreateProcessEntry M processHandle process s) (\<lambda>(status, process, s1).
              if failed status then ret (status, the process, s1)
              else andThen (rd_str message pos s1) (\<lambda>ipcServerId.
                andThen (deref (processEntries s1) (the process)) (\<lambda>entry.
                case IpcClient_ConnectToServer K (Some ipcServerId) (Some (pe_serverHandle entry)) (kern s1) of (status, handle, k) \<Rightarrow>
                let s2 = s1\<lparr>kern := k, processEntries := (processEntries s1)(the process \<mapsto> entry\<lparr>pe_serverHandle := the handle\<rparr>)\<rparr> in
                if failed status then ret (status, the process, s2)
                else andThen (ListPush (heap_alloc M) (gSvc_processes s2) (the process) s2) (\<lambda>s3.
                  ret (STATUS_SUCCESS, nullptr, s3))))))
           (\<lambda>(status, process, s4). andThen (free_process M process s4) (\<lambda>s5. ret (status, s5)))))"

text \<open>The part between raising and lowering the priority.\<close>

definition open_and_reply ::
  "('d, 'h, 'm) platform_scheme \<Rightarrow> 'k ipc_calls \<Rightarrow> addr \<Rightarrow> addr \<Rightarrow> nat \<Rightarrow> ('h, 'd, 'k, 'z) service_scheme \<Rightarrow>
   (Status \<times> ('h, 'd, 'k, 'z) service_scheme) exec" where
  "open_and_reply M K process message pos s =
     andThen (OpenFileFromName M (Some (message, pos)) (Some nullptr) s) (\<lambda>(status, file, s1).
     if failed status then ret (status, s1)
     else andThen (LookForFileEntryFromFilePtr (the file) (Some nullptr) s1) (\<lambda>(status, existing).
     if failed status then ret (status, s1)
     else andThen (rd32 message (pos + of_access) s1) (\<lambda>access.
     andThen (if the existing \<noteq> nullptr
         then andThen (deref (fileEntries s1) (the existing)) (\<lambda>e. ret (\<not> IsFileAccessible e access)) else ret False) (\<lambda>denied.
     andThen
       (if denied then LtFsResponse_Create M STATUS_ACCESS_DENIED None 0 (Some nullptr) s1
        else andThen (rd32 message (pos + of_shareMode) s1) (\<lambda>shareMode.
          andThen (NewFileEntry M (the file) access shareMode (Some nullptr) s1) (\<lambda>(status, newEntry, s2).
            if failed status then ret (status, Some nullptr, s2)
            else andThen (ListPush (heap_alloc M) (gSvc_fileEntries s2) (the newEntry) s2) (\<lambda>s3.
              andThen (deref (processEntries s3) process) (\<lambda>p.
              andThen (ListPush (heap_alloc M) (pe_fileEntries p) (the newEntry) s3) (\<lambda>s4.
              andThen (deref (fileEntries s4) (the newEntry)) (\<lambda>e.
                LtFsResponse_Create M STATUS_SUCCESS (Some (nat_bytes 4 (unat (fe_handle e)))) sizeof_Handle (Some nullptr) s4)))))))
       (\<lambda>(status, response, s5).
         if failed status then ret (status, s5)
         else andThen (rd32 (the response) 4 s5) (\<lambda>sz.
           andThen (deref (processEntries s5) process) (\<lambda>p.
           andThen (IpcClient_Send K (pe_serverHandle p) (the response) sz s5 (kern s5)) (\<lambda>(status, k).
             ret (if failed status then status else STATUS_SUCCESS, s5\<lparr>kern := k\<rparr>)))))))))"

text \<open>
  The priority is lowered on every way out, also on those that have not raised it. Nothing is given
  back.
\<close>

definition RequestOpenFile ::
  "('d, 'h, 'm) platform_scheme \<Rightarrow> 'k ipc_calls \<Rightarrow> u32 \<Rightarrow> (addr \<times> nat) option \<Rightarrow> ('h, 'd, 'k, 'z) service_scheme \<Rightarrow>
   (Status \<times> ('h, 'd, 'k, 'z) service_scheme) exec" where
  "RequestOpenFile M K processHandle parameters s = (case parameters of
     None \<Rightarrow> ret (STATUS_NULL_PARAMETER, s)
   | Some (message, pos) \<Rightarrow>
       andThen (LookForProcessFromHandle processHandle (Some nullptr) s) (\<lambda>(status, process).
       andThen
         (if failed status then ret (status, s)
          else if the process = nullptr then ret (STATUS_UNEXPECTED, s)
          else open_and_reply M K (the process) message pos (s\<lparr>kern := RaiseThreadPriority K (kern s)\<rparr>))
         (\<lambda>(status, s1). ret (status, s1\<lparr>kern := LowerThreadPriority K (kern s1)\<rparr>))))"

definition ServiceExecuteCommand ::
  "('d, 'h, 'm) platform_scheme \<Rightarrow> 'k ipc_calls \<Rightarrow> u32 \<Rightarrow> addr \<Rightarrow> u32 \<Rightarrow> bool \<Rightarrow> ('h, 'd, 'k, 'z) service_scheme \<Rightarrow>
   (Status \<times> bool \<times> ('h, 'd, 'k, 'z) service_scheme) exec" where
  "ServiceExecuteCommand M K processHandle message sz serviceTerminate s =
     (if message = nullptr then ret (STATUS_NULL_PARAMETER, serviceTerminate, s)
      else andThen (rd32 message 0 s) (\<lambda>ty.
        if ty = request_num LTFS_REQUEST_TERMINATE then ret (STATUS_SUCCESS, True, s)
        else if ty = request_num LTFS_REQUEST_CONNECT
        then andThen (RequestConnect M K processHandle (Some (message, rq_parameters)) s) (\<lambda>(status, s1). ret (status, serviceTerminate, s1))
        else if ty = request_num LTFS_REQUEST_OPEN_FILE
        then andThen (RequestOpenFile M K processHandle (Some (message, rq_parameters)) s) (\<lambda>(status, s1). ret (status, serviceTerminate, s1))
        else ret (STATUS_UNEXPECTED, serviceTerminate, s)))"

subsection \<open>Starting\<close>

abbreviation (input) ATA_SECONDARY :: u16 where "ATA_SECONDARY \<equiv> 0x170"
abbreviation (input) ATA_MASTER :: u8 where "ATA_MASTER \<equiv> 0xA0"

text \<open>\<open>gDevice\<close> is the address of the variable. \<^verbatim>\<open>AtaInit\<close> returns 0 when there is no device.\<close>

definition AtaDeviceCreate ::
  "('d, 'h, 'm) platform_scheme \<Rightarrow> 'k ipc_calls \<Rightarrow> addr \<Rightarrow> ('h, 'd, 'k, 'z) service_scheme \<Rightarrow> (bool \<times> ('h, 'd, 'k, 'z) service_scheme) exec" where
  "AtaDeviceCreate M K gDevice s =
     (let device = AtaCreate ATA_SECONDARY ATA_MASTER;
          s1 = s\<lparr>kern := RaiseThreadPriority K (kern s), atas := (atas s)(gDevice \<mapsto> device)\<rparr> in
      case AtaInit M device (dev s1) of (found, d) \<Rightarrow>
      let s2 = s1\<lparr>dev := d\<rparr> in
      andThen
        (if found = 0 then ret (False, s2)
         else andThen (FsInit M gDevice s2) (\<lambda>(status, s3).
           if failed status then ret (False, s3)
           else andThen (ServiceCommandInit M s3) (\<lambda>s4. ret (True, s4))))
        (\<lambda>(result, s5). ret (result, s5\<lparr>kern := LowerThreadPriority K (kern s5)\<rparr>)))"

text \<open>
  One message is received and logged; \<open>junk\<close> is what the buffer on the stack held. The result is
  the buffer and the number of bytes, which the service prints.
\<close>

definition StartListening ::
  "'k ipc_calls \<Rightarrow> u8 list \<Rightarrow> ('h, 'd, 'k, 'z) service_scheme \<Rightarrow> ((u8 list \<times> u32) option \<times> ('h, 'd, 'k, 'z) service_scheme) exec" where
  "StartListening K junk s = (case IpcServer_Create K (Some LTFS_SERVICE_NAME) (Some 0) (kern s) of (status, server, k) \<Rightarrow>
     if failed status then ret (None, s\<lparr>kern := k\<rparr>)
     else andThen (IpcServer_Receive K (the server) (Some junk) 512 (Some 0) k) (\<lambda>(_, buffer, bytesRead, k1).
       ret (Some (the buffer, the bytesRead), s\<lparr>kern := k1\<rparr>)))"

text \<open>\<^verbatim>\<open>main\<close>, up to its endless loop.\<close>

definition service_main ::
  "('d, user_heap, 'm) platform_scheme \<Rightarrow> 'k ipc_calls \<Rightarrow> addr \<Rightarrow> u8 list \<Rightarrow> (user_heap, 'd, 'k, 'z) service_scheme \<Rightarrow>
   ((u8 list \<times> u32) option \<times> (user_heap, 'd, 'k, 'z) service_scheme) exec" where
  "service_main M K gDevice junk s =
     andThen (AtaDeviceCreate M K gDevice (s\<lparr>lheap := InitMalloc (lheap s)\<rparr>)) (\<lambda>(created, s1).
       if created then StartListening K junk s1 else ret (None, s1))"

end
