(* ===== verification/Fs_Properties.thy ===== *)
theory Fs_Properties
  imports Path_Properties Fs_Client Service_Commands
begin

section \<open>Opening a file through the service\<close>

text \<open>
  A program and the service, on their own heaps: what the program sends, what the service does with it.
\<close>

subsection \<open>Messages\<close>

text \<open>The bytes of an open request, with the four bytes behind its parameters.\<close>

definition open_message :: "cstr \<Rightarrow> u32 \<Rightarrow> u32 \<Rightarrow> u8 list \<Rightarrow> u8 list \<Rightarrow> u8 list" where
  "open_message path access share junk rest = nat_bytes 4 2 @ open_parameters path access share junk @ rest"

lemma le32_at_num: "le32_at (pre @ nat_bytes 4 (unat v) @ post) (length pre) = v"
proof -
  have "le_bytes (nat_bytes 4 (unat v)) = unat v" by (rule le_bytes_nat_bytes) (use unat_lt_2p32 [of v] in simp)
  moreover have "take 4 (drop (length pre) (pre @ nat_bytes 4 (unat v) @ post)) = nat_bytes 4 (unat v)" by simp
  ultimately show ?thesis unfolding le32_at_def by (metis word_unat_eq_iff unat_of_nat_u32 unat_lt_2p32)
qed

lemma length_open_parameters: "length junk = 264 \<Longrightarrow> length path < 255 \<Longrightarrow> length (open_parameters path access share junk) = 264"
  by (simp add: open_parameters_def)

text \<open>What the service reads of it.\<close>

lemma open_message_fields:
  assumes "length junk = 264" "length path < 255"
  shows "le32_at (open_message path access share junk rest) 0 = 2"
    "\<exists>tl. open_message path access share junk rest = nat_bytes 4 2 @ path @ 0 # tl"
    "le32_at (open_message path access share junk rest) 260 = access" "le32_at (open_message path access share junk rest) 264 = share"
    "length (open_message path access share junk rest) = 268 + length rest"
proof -
  show "le32_at (open_message path access share junk rest) 0 = 2"
    using le32_at_num [of "[]" 2] by (simp add: open_message_def)
  let ?p = "path @ 0 # drop (length path + 1) (take 256 junk)"
  have eq: "open_parameters path access share junk = ?p @ nat_bytes 4 (unat access) @ nat_bytes 4 (unat share)"
  proof -
    have "patch of_shareMode (nat_bytes 4 (unat share)) junk = take 260 junk @ nat_bytes 4 (unat share)"
      using assms(1) by (simp add: patch_def)
    moreover have "patch of_access (nat_bytes 4 (unat access)) (take 260 junk @ nat_bytes 4 (unat share)) =
        take 256 junk @ nat_bytes 4 (unat access) @ nat_bytes 4 (unat share)"
      using assms(1) by (simp add: patch_def min_def)
    moreover have "patch 0 (path @ [0]) (take 256 junk @ nat_bytes 4 (unat access) @ nat_bytes 4 (unat share)) =
        ?p @ nat_bytes 4 (unat access) @ nat_bytes 4 (unat share)"
      using assms by (simp add: patch_def)
    ultimately show ?thesis by (simp add: open_parameters_def)
  qed
  have l: "length ?p = 256" using assms by simp
  show "\<exists>tl. open_message path access share junk rest = nat_bytes 4 2 @ path @ 0 # tl" by (simp add: open_message_def eq)
  show "le32_at (open_message path access share junk rest) 260 = access"
    using le32_at_num [of "nat_bytes 4 2 @ ?p" access "nat_bytes 4 (unat share) @ rest"] l by (simp add: open_message_def eq)
  show "le32_at (open_message path access share junk rest) 264 = share"
    using le32_at_num [of "nat_bytes 4 2 @ ?p @ nat_bytes 4 (unat access)" share rest] l by (simp add: open_message_def eq)
  show "length (open_message path access share junk rest) = 268 + length rest"
    using length_open_parameters [OF assms, of access share] by (simp add: open_message_def)
qed

subsection \<open>The lists of the service\<close>

text \<open>
  The files that are open are in a list of entries, the processes in another; no entry is for a file
  that has not been opened.
\<close>

definition service_ok ::
  "('h \<Rightarrow> bool) \<Rightarrow> ('h \<Rightarrow> addr set) \<Rightarrow> ('h, 'd, 'k, 'z) service_scheme \<Rightarrow> addr list \<Rightarrow> addr list \<Rightarrow> bool" where
  "service_ok invar live s procs entries \<longleftrightarrow> fs_ok invar live s \<and> list_heap_ok invar live s \<and>
     (\<exists>pps fps. list_rep (lnodes s) (gSvc_processes s) pps procs \<and> list_rep (lnodes s) (gSvc_fileEntries s) fps entries \<and>
       set pps \<inter> set fps = {}) \<and> set procs \<subseteq> dom (processEntries s) \<and>
     (\<forall>e \<in> set entries. \<exists>fe. fileEntries s e = Some fe \<and> is_open s (fe_file fe)) \<and>
     dom (fileEntries s) \<subseteq> live (lheap s)"

lemma LookForProcess_found:
  assumes "list_rep (lnodes s) (gSvc_processes s) ps procs" "set procs \<subseteq> dom (processEntries s)" "handle \<noteq> 0"
  shows "LookForProcessFromHandle handle (Some out) s = ret (STATUS_SUCCESS, Some
    (case find (\<lambda>p. pe_processHandle (the (processEntries s p)) = handle) procs of None \<Rightarrow> nullptr | Some p \<Rightarrow> p))"
proof -
  let ?c = "\<lparr>lp_processHandle = handle, lp_processEntry = nullptr\<rparr>"
  have nz: "nullptr \<notin> set procs" using list_repD(5) [OF assms(1)] .
  have "user_enumerate (LookForProcessFromHandleCallback s) procs ?c = ret (STATUS_SUCCESS,
      case find (\<lambda>p. pe_processHandle (the (processEntries s p)) = handle) procs of None \<Rightarrow> ?c | Some p \<Rightarrow> ?c\<lparr>lp_processEntry := p\<rparr>)"
  proof (rule user_enumerate_find)
    fix p assume p: "p \<in> set procs"
    then obtain e where "processEntries s p = Some e" using assms(2) by auto
    with p nz show "LookForProcessFromHandleCallback s p ?c = ret (if pe_processHandle (the (processEntries s p)) = handle
        then (STATUS_LIST_STOP_ITERATING, ?c\<lparr>lp_processEntry := p\<rparr>) else (STATUS_SUCCESS, ?c))"
      by (auto simp: LookForProcessFromHandleCallback_def deref_ok)
  qed
  then show ?thesis using assms(3)
    by (simp add: LookForProcessFromHandle_def UserListEnumerate_rep [OF assms(1)] split: option.splits)
qed

lemma LookForFileEntry_found:
  assumes "list_rep (lnodes s) (gSvc_fileEntries s) ps entries" "set entries \<subseteq> dom (fileEntries s)" "file \<noteq> nullptr"
  shows "LookForFileEntryFromFilePtr file (Some out) s = ret (STATUS_SUCCESS, Some
    (case find (\<lambda>e. fe_file (the (fileEntries s e)) = file) entries of None \<Rightarrow> nullptr | Some e \<Rightarrow> e))"
proof -
  let ?c = "\<lparr>lf_file = file, lf_fileEntry = nullptr\<rparr>"
  have nz: "nullptr \<notin> set entries" using list_repD(5) [OF assms(1)] .
  have "user_enumerate (LookForFileEntryFromFilePtrCallback s) entries ?c = ret (STATUS_SUCCESS,
      case find (\<lambda>e. fe_file (the (fileEntries s e)) = file) entries of None \<Rightarrow> ?c | Some e \<Rightarrow> ?c\<lparr>lf_fileEntry := e\<rparr>)"
  proof (rule user_enumerate_find)
    fix p assume p: "p \<in> set entries"
    then obtain e where "fileEntries s p = Some e" using assms(2) by auto
    with p nz show "LookForFileEntryFromFilePtrCallback s p ?c = ret (if fe_file (the (fileEntries s p)) = file
        then (STATUS_LIST_STOP_ITERATING, ?c\<lparr>lf_fileEntry := p\<rparr>) else (STATUS_SUCCESS, ?c))"
      by (auto simp: LookForFileEntryFromFilePtrCallback_def deref_ok)
  qed
  then show ?thesis using assms(3)
    by (simp add: LookForFileEntryFromFilePtr_def UserListEnumerate_rep [OF assms(1)] split: option.splits)
qed

text \<open>The bytes of the response with a handle, with the four bytes behind it that are sent too.\<close>

definition open_response :: "u32 \<Rightarrow> u8 list \<Rightarrow> u8 list" where
  "open_response handle rest = nat_bytes 4 0 @ nat_bytes 4 16 @ nat_bytes 4 (unat handle) @ rest"

lemma list_rep_same:
  assumes "list_rep m p ps xs" "\<And>a. a \<in> set ps \<Longrightarrow> m' a = m a"
  shows "list_rep m' p ps xs"
proof -
  have "nodes_change (- set ps) \<lparr>lheap = (), lnodes = m\<rparr> \<lparr>lheap = (), lnodes = m'\<rparr>" using assms(2) by (simp add: nodes_change_def)
  from list_rep_frame [OF this, of p ps xs] assms(1) show ?thesis by simp
qed

lemma list_heap_upd: "list_heap.more s' = list_heap.more s \<Longrightarrow> s' = s\<lparr>lheap := lheap s', lnodes := lnodes s'\<rparr>"
  by (cases s; cases s') simp

context prog_heap
begin

lemma push_ok:
  assumes ok: "list_heap_ok invar live s" and rep: "list_rep (lnodes s) p ps xs" and d: "d \<noteq> nullptr"
    and r: "ready (sizeof_ListElem # ns) (lheap s)"
  obtains new h N where "ListPush (heap_alloc M) p d s = ret (s\<lparr>lheap := h, lnodes := N\<rparr>)" "live h = set new \<union> live (lheap s)"
    "list_rep N p (ps @ new) (xs @ [d])" "invar h" "dom N \<subseteq> live h" "nullptr \<notin> dom N" "ready ns h"
    "\<And>a. a \<notin> set ps \<union> set new \<Longrightarrow> N a = lnodes s a" "set new \<inter> live (lheap s) = {}"
proof -
  have inv: "invar (lheap s)" using ok by (simp add: list_heap_ok_def)
  note l = list_repD [OF rep]
  obtain e where e: "deref (lnodes s) p = ret e" using list_rep_head [OF rep] by metis
  have "last ps \<in> dom (lnodes s)" using chain_dom [OF l(1)] l(2) by (metis last_in_set subsetD)
  moreover have "last ps \<noteq> nullptr" using chain_not_null [OF l(1)] l(2) by (metis last_in_set)
  ultimately obtain le where le: "deref (lnodes s) (last ps) = ret le" by auto
  obtain q h where a: "heap_alloc M sizeof_ListElem (lheap s) = ret (q, h)" using alloc_returns [OF inv _ _ r] by auto
  have "\<exists>s'. ListPush (heap_alloc M) p d s = ret s'"
    using l(3) e le a last_elem_chain [OF l(1,2)] by (simp add: ListPush_def Let_def)
  then obtain s' where s': "ListPush (heap_alloc M) p d s = ret s'" by blast
  obtain new where n: "set new \<inter> live (lheap s) = {}" "live (lheap s') = set new \<union> live (lheap s)"
    "list_rep (lnodes s') p (ps @ new) (xs @ [d])" "list_heap_ok invar live s'" "nodes_change (set ps \<union> set new) s s'" "ready ns (lheap s')"
    using push_rep [OF ok rep d r s'] by blast
  have "s' = s\<lparr>lheap := lheap s', lnodes := lnodes s'\<rparr>" using n(5) by (intro list_heap_upd) (simp add: nodes_change_def)
  with s' have "ListPush (heap_alloc M) p d s = ret (s\<lparr>lheap := lheap s', lnodes := lnodes s'\<rparr>)" by simp
  then show thesis by (rule that) (use n in \<open>simp_all add: list_heap_ok_def nodes_change_def\<close>)
qed

lemma LtFsResponse_Create_ok:
  assumes inv: "invar (lheap s)" and r: "ready ((12 + int (length src)) # ns) (lheap s)" and a: "unat sz = length src" "length src < 2147483632" "sz \<noteq> 0"
  obtains p h rest where "LtFsResponse_Create M st (Some src) sz (Some out) s = ret (STATUS_SUCCESS, Some p,
      s\<lparr>lheap := h, bufs := (bufs s)(p \<mapsto> nat_bytes 4 (unat (status_num st)) @ nat_bytes 4 (unat (12 + sz)) @ src @ rest)\<rparr>)" "length rest = 4"
    "p \<noteq> nullptr" "p \<notin> live (lheap s)" "live h = insert p (live (lheap s))" "invar h" "ready ns h"
proof -
  have u: "unat (12 + sz) = 12 + length src" using a(1,2) by (subst unat_add_nowrap) simp_all
  have n: "sint (12 + sz) = 12 + int (length src)" using a(2) u by (subst sint_unat_u32) simp_all
  have nb: "0 < 12 + int (length src)" "12 + int (length src) < 2147483648" using a(2) by linarith+
  have nl: "nat (12 + int (length src)) = 12 + length src" by simp
  obtain p h where b: "buf_alloc M (12 + int (length src)) s = ret (p, s\<lparr>lheap := h, bufs := (bufs s)(p \<mapsto>
      map (fresh s p) [0..<12 + length src])\<rparr>)" "p \<noteq> nullptr" "p \<notin> live (lheap s)" "live h = insert p (live (lheap s))" "invar h" "ready ns h"
    by (rule buf_alloc_ok [OF inv nb r, unfolded nl])
  let ?raw = "map (fresh s p) [0..<12 + length src]"
  have len: "length ?raw = 12 + length src" by simp
  let ?p1 = "patch 4 (nat_bytes 4 (unat (12 + sz))) ?raw"
  have l1: "length ?p1 = 12 + length src" using len by (subst length_patch) simp_all
  let ?p2 = "patch 0 (nat_bytes 4 (unat (status_num st))) ?p1"
  have l2: "length ?p2 = 12 + length src" using l1 by (subst length_patch) simp_all
  have pt: "patch 8 src ?p2 = nat_bytes 4 (unat (status_num st)) @ nat_bytes 4 (unat (12 + sz)) @ src @ drop (8 + length src) ?raw"
    using len by (simp add: patch_def min_def add.commute del: length_map)
  have "0 < sz" using a(3) word_gt_0 by blast
  then have "LtFsResponse_Create M st (Some src) sz (Some out) s = ret (STATUS_SUCCESS, Some p,
      s\<lparr>lheap := h, bufs := (bufs s)(p \<mapsto> nat_bytes 4 (unat (status_num st)) @ nat_bytes 4 (unat (12 + sz)) @ src @ drop (8 + length src) ?raw)\<rparr>)"
    using a b(1,2) len l1 l2 by (simp add: LtFsResponse_Create_def n wr32_def copy_in_def pt del: length_map)
  moreover have "length (drop (8 + length src) ?raw) = 4" using len by simp
  ultimately show thesis using b that by blast
qed

lemma LtFsRequest_Create_ok:
  assumes s: "bufs_ok invar live s" "ready ((8 + int (unat sz)) # ns) (lheap s)"
    and a: "ty < 3" "sz \<noteq> 0" "unat sz < 2147483640" "unat sz = length src"
  obtains p h rest where "LtFsRequest_Create M ty (Some src) sz (Some out) s = ret (STATUS_SUCCESS, Some p,
      s\<lparr>lheap := h, bufs := (bufs s)(p \<mapsto> nat_bytes 4 (unat ty) @ src @ rest)\<rparr>)" "length rest = 4"
    "p \<noteq> nullptr" "p \<notin> live (lheap s)" "live h = insert p (live (lheap s))" "invar h" "ready ns h"
proof -
  have inv: "invar (lheap s)" using s(1) by (simp add: bufs_ok_def)
  have n: "sint (8 + sz) = 8 + int (unat sz)" 
  proof -
    have "unat (8 + sz) = 8 + unat sz" using a(3) by (subst unat_add_nowrap) simp_all
    then show ?thesis using a(3) by (subst sint_unat_u32) simp_all
  qed
  have nb: "0 < 8 + int (unat sz)" "8 + int (unat sz) < 2147483648" using a(3) by linarith+
  obtain p h where b: "buf_alloc M (8 + int (unat sz)) s = ret (p, s\<lparr>lheap := h, bufs := (bufs s)(p \<mapsto>
      map (fresh s p) [0..<nat (8 + int (unat sz))])\<rparr>)" "p \<noteq> nullptr" "p \<notin> live (lheap s)" "live h = insert p (live (lheap s))" "invar h" "ready ns h"
    by (rule buf_alloc_ok [OF inv nb s(2)])
  let ?raw = "map (fresh s p) [0..<nat (8 + int (unat sz))]"
  have len: "length ?raw = 8 + length src" using a(4) by simp
  have pt: "patch rq_parameters src (patch 0 (nat_bytes 4 (unat ty)) ?raw) = nat_bytes 4 (unat ty) @ src @ drop (4 + length src) ?raw"
    using len by (simp add: patch_def add.commute del: length_map)
  have "LtFsRequest_Create M ty (Some src) sz (Some out) s = ret (STATUS_SUCCESS, Some p,
      s\<lparr>lheap := h, bufs := (bufs s)(p \<mapsto> nat_bytes 4 (unat ty) @ src @ drop (4 + length src) ?raw)\<rparr>)"
    using a b(1,2) len pt by (simp add: LtFsRequest_Create_def n wr32_def copy_in_def not_le)
  moreover have "length (drop (4 + length src) ?raw) = 4" using len by simp
  ultimately show thesis using b that by blast
qed

text \<open>The client's side: the request is sent and given back.\<close>

lemma FsOpenFile_ok:
  assumes s: "bufs_ok invar live s" "ready (272 # ns) (lheap s)"
    and c: "fc_isInitialized (gFsContext s)" "fc_ltFsServiceHandle (gFsContext s) \<noteq> 0"
    and a: "access < 1" "share < 3" "nul_free path" "length path < 255" "length junk = 264"
  obtains rest h where "length rest = 4" "invar h" "live h = live (lheap s)" "ready ns h"
    "FsOpenFile M K gid junk0 junk (Some path) access share (Some out) s = ret (STATUS_SUCCESS, s\<lparr>lheap := h,
       ckern := snd (sysIpcSend K (fc_ltFsServiceHandle (gFsContext s)) (open_message path access share junk rest) (ckern s))\<rparr>)"
proof -
  let ?src = "open_parameters path access share junk"
  have len: "unat (264 :: u32) = length ?src" using length_open_parameters [OF a(5,4)] by simp
  have s2: "ready ((8 + int (unat (264 :: u32))) # ns) (lheap s)" using s(2) by simp
  obtain p h rest where r: "LtFsRequest_Create M 2 (Some ?src) 264 (Some nullptr) s = ret (STATUS_SUCCESS, Some p,
      s\<lparr>lheap := h, bufs := (bufs s)(p \<mapsto> nat_bytes 4 (unat (2 :: u32)) @ ?src @ rest)\<rparr>)" "length rest = 4"
    "p \<noteq> nullptr" "p \<notin> live (lheap s)" "live h = insert p (live (lheap s))" "invar h" "ready ns h"
    by (rule LtFsRequest_Create_ok [OF s(1) s2 _ _ _ len, of 2]) simp_all
  let ?s2 = "s\<lparr>lheap := h, bufs := (bufs s)(p \<mapsto> open_message path access share junk rest)\<rparr>"
  let ?k = "snd (sysIpcSend K (fc_ltFsServiceHandle (gFsContext s)) (open_message path access share junk rest) (ckern s))"
  have r2: "LtFsRequest_Create M 2 (Some ?src) 264 (Some nullptr) s = ret (STATUS_SUCCESS, Some p, ?s2)"
    using r(1) by (simp add: open_message_def)
  have ml: "length (open_message path access share junk rest) = 272" using open_message_fields(5) [OF a(5,4)] r(2) by simp
  have send: "IpcClient_Send K (fc_ltFsServiceHandle (gFsContext s)) p 272 ?s2 (ckern s) =
      ret (status_of (fst (sysIpcSend K (fc_ltFsServiceHandle (gFsContext s)) (open_message path access share junk rest) (ckern s))), ?k)"
    using c(2) r(3) ml by (simp add: IpcClient_Send_def split: prod.split)
  obtain h' where h': "buf_free M p (?s2\<lparr>ckern := ?k\<rparr>) = ret (?s2\<lparr>ckern := ?k, lheap := h', bufs := (bufs ?s2)(p := None)\<rparr>)"
      "live h' = live h - {p}" "invar h'" "\<And>ns. ready ns h \<Longrightarrow> ready ns h'"
    by (rule buf_free_live [of "?s2\<lparr>ckern := ?k\<rparr>" p]) (use r in simp_all)
  have "p \<notin> dom (bufs s)" using s(1) r(4) by (auto simp: bufs_ok_def)
  then have "(bufs s)(p := None) = bufs s" by (auto simp: fun_eq_iff domIff)
  then have st: "?s2\<lparr>ckern := ?k, lheap := h', bufs := (bufs ?s2)(p := None)\<rparr> = s\<lparr>lheap := h', ckern := ?k\<rparr>" by simp
  have "FsOpenFile M K gid junk0 junk (Some path) access share (Some out) s = ret (STATUS_SUCCESS, s\<lparr>lheap := h', ckern := ?k\<rparr>)"
    using c(1) a(1-4) r2 send h'(1) unfolding st by (simp add: FsOpenFile_def not_le)
  then show thesis using r h' by (intro that [of rest h']) simp_all
qed

text \<open>The connect request is sent with more bytes than it has.\<close>

lemma ClientFsInit_bad:
  assumes s: "bufs_ok invar live s" "ready (263 # ns) (lheap s)"
    and k: "sysIpcServerConnect K LTFS_SERVICE_NAME (ckern s) = (0, h, k1)" "h \<noteq> 0" "sysIpcServerCreate K gid k1 = (0, hs, k2)"
    and j: "length gid + 1 \<le> length junk" "length junk = 255"
  shows "ClientFsInit M K gid junk s = halt BadAccess"
proof -
  let ?src = "patch 0 (gid @ [0]) junk"
  have len: "unat (255 :: u32) = length ?src" using j by simp
  let ?s = "s\<lparr>ckern := k2\<rparr>"
  have s1: "bufs_ok invar live ?s" "ready ((8 + int (unat (255 :: u32))) # ns) (lheap ?s)" using s by (simp_all add: bufs_ok_def)
  obtain p h' rest where r: "LtFsRequest_Create M 1 (Some ?src) 255 (Some nullptr) ?s = ret (STATUS_SUCCESS, Some p,
      ?s\<lparr>lheap := h', bufs := (bufs ?s)(p \<mapsto> nat_bytes 4 (unat (1 :: u32)) @ ?src @ rest)\<rparr>)" "length rest = 4" "p \<noteq> nullptr"
    by (rule LtFsRequest_Create_ok [OF s1 _ _ _ len, of 1]) simp_all
  have ok: "status_of 0 = STATUS_SUCCESS" by (simp add: status_of_def STATUS_LIST_def)
  have "IpcClient_Send K h p 272 (?s\<lparr>lheap := h', bufs := (bufs ?s)(p \<mapsto> nat_bytes 4 (unat (1 :: u32)) @ ?src @ rest)\<rparr>) k2 = halt BadAccess"
    using k(2) r(2,3) len by (simp add: IpcClient_Send_def rd_bytes_def deref_def)
  then show ?thesis
    using k r(1) j by (simp add: ClientFsInit_def IpcClient_ConnectToServer_def IpcServer_Create_def ok Let_def)
qed

text \<open>The service's side of an open request.\<close>

lemma open_and_reply_ok:
  assumes D: "ata_disk M io A img n" and m: "mounted A io s dk sb gd" and s: "service_ok invar live s procs entries" and z: "zeroed s"
    and dc: "dir_caches s (gRootFile s) ps L" "unread s ps"
    and path: "path_on_disk n img (blockSize dk) sb gd L cs ino needs" "\<forall>c \<in> set cs. comp_ok c" "length (path_str cs) < 254"
    and msg: "bufs s msg = Some (open_message (47 # path_str cs) access share junk rest)" "length junk = 264" "apart msg s ps"
      "msg \<notin> {superBlock dk, groupDec dk}"
    and p: "p \<noteq> nullptr" "processEntries s p = Some pe" "pe_fileEntries pe = nullptr" "pe_serverHandle pe \<noteq> 0"
    and a: "access < 1" "share < 3"
    and rd: "ready (needs @ sizeof_FileEntry # sizeof_ListElem # 16 # ns) (lheap s)"
  shows "\<exists>s' e f rest'. open_and_reply M K p msg 4 s = ret (status_of (fst (sysIpcSend K (pe_serverHandle pe)
       (open_response (gCurrentFileHandle s + 1) rest') (kern s))), s') \<and> length rest' = 4 \<and>
     kern s' = snd (sysIpcSend K (pe_serverHandle pe) (open_response (gCurrentFileHandle s + 1) rest') (kern s)) \<and>
     fileEntries s' e = Some \<lparr>fe_handle = gCurrentFileHandle s + 1, fe_cursor = 0, fe_file = f, fe_shareMode = share\<rparr> \<and>
     opened_as img (blockSize dk) sb gd s' f ino \<and> service_ok invar live s' procs (entries @ [e]) \<and>
     gCurrentFileHandle s' = gCurrentFileHandle s + 1 \<and> ready ns (lheap s')"
proof -
  obtain pps fps where so: "fs_ok invar live s" "list_heap_ok invar live s" "list_rep (lnodes s) (gSvc_processes s) pps procs"
      "list_rep (lnodes s) (gSvc_fileEntries s) fps entries" "set pps \<inter> set fps = {}" "set procs \<subseteq> dom (processEntries s)"
      "\<forall>e \<in> set entries. \<exists>fe. fileEntries s e = Some fe \<and> is_open s (fe_file fe)" "dom (fileEntries s) \<subseteq> live (lheap s)"
    using s by (auto simp: service_ok_def)
  have mz: "msg \<noteq> nullptr" using so(1) msg(1) by (auto simp: fs_ok_def bufs_ok_def)
  have pl: "length (47 # path_str cs) < 255" using path(3) by simp
  note mf = open_message_fields [OF msg(2) pl, of access share rest]
  obtain tl where tl: "open_message (47 # path_str cs) access share junk rest = nat_bytes 4 2 @ [47] @ path_str cs @ 0 # tl"
    using mf(2) by auto
  have b: "bufs s msg = Some ((nat_bytes 4 2 @ [47]) @ path_str cs @ 0 # tl)" using msg(1) tl by simp
  obtain s1 f where o: "open_loop M msg (length (nat_bytes 4 2 @ [47])) (gRootFile s) nullptr s = ret (STATUS_SUCCESS, f, s1)"
      "opened_as img (blockSize dk) sb gd s1 f ino" "fs_ok invar live s1" "mounted A io s1 dk sb gd"
      "ready (sizeof_FileEntry # sizeof_ListElem # 16 # ns) (lheap s1)" "bufs s \<subseteq>\<^sub>m bufs s1" "kept live s s1" "\<not> is_open s f"
    using open_loop_ok [OF path(1) D m so(1) z dc path(2) b msg(3,4) rd] by blast
  have cs: "cs \<noteq> []" using path(1) by (auto elim: path_on_disk.cases)
  have b0: "bufs s msg = Some (nat_bytes 4 2 @ [47] @ path_str cs @ 0 # tl)" using b by simp
  have open1: "OpenFileFromName M (Some (msg, 4)) (Some nullptr) s = ret (STATUS_SUCCESS, Some f, s1)"
    using OpenFileFromName_start [OF mz _ cs path(2) b0, of nullptr] o(1) by simp
  obtain h1 B1 d1 q1 F1 where s1: "s1 = s\<lparr>lheap := h1, bufs := B1, dev := d1, irqs := q1, files := F1\<rparr>"
    and lv: "live (lheap s) \<subseteq> live h1" and op: "\<And>p. is_open s p \<Longrightarrow> is_open s1 p"
    using o(7) by (auto simp: kept_def)
  have fz: "f \<noteq> nullptr" using o(2,3) by (auto simp: opened_as_def fs_ok_def)
  have dme: "set entries \<subseteq> dom (fileEntries s1)" using so(7) s1 by auto
  have l1: "list_rep (lnodes s1) (gSvc_fileEntries s1) fps entries" using so(4) s1 by simp
  have none: "find (\<lambda>e. fe_file (the (fileEntries s1 e)) = f) entries = None"
    unfolding find_None_iff using so(7) o(8) s1 by auto
  have look: "LookForFileEntryFromFilePtr f (Some nullptr) s1 = ret (STATUS_SUCCESS, Some nullptr)"
    using LookForFileEntry_found [OF l1 dme fz, of nullptr] none by simp
  have bm: "bufs s1 msg = Some (open_message (47 # path_str cs) access share junk rest)" by (rule map_le_Some [OF o(6) msg(1)])
  have rdm: "rd32 msg 260 s1 = ret access" "rd32 msg 264 s1 = ret share"
    using rd32_ok [OF mz bm, of 260] rd32_ok [OF mz bm, of 264] mf(3-5) by simp_all
  have inv1: "invar (lheap s1)" using o(3) by (simp add: fs_ok_def bufs_ok_def)
  obtain e h2 where al: "heap_alloc M sizeof_FileEntry (lheap s1) = ret (e, h2)" using alloc_returns [OF inv1 _ _ o(5)] by auto
  have e: "e \<noteq> nullptr \<and> e \<notin> live (lheap s1) \<and> live h2 = insert e (live (lheap s1)) \<and> invar h2 \<and> ready (sizeof_ListElem # 16 # ns) h2"
    by (rule alloc_fresh [OF inv1 _ _ o(5) al]) simp_all
  let ?hd = "gCurrentFileHandle s + 1"
  let ?fe = "\<lparr>fe_handle = ?hd, fe_cursor = 0, fe_file = f, fe_shareMode = share\<rparr>"
  let ?s2 = "s1\<lparr>lheap := h2, gCurrentFileHandle := ?hd, fileEntries := (fileEntries s)(e \<mapsto> ?fe)\<rparr>"
  have new: "NewFileEntry M f access share (Some nullptr) s1 = ret (STATUS_SUCCESS, Some e, ?s2)"
    using fz a al e by (simp add: NewFileEntry_def s1 not_le)
  have ln2: "lnodes ?s2 = lnodes s" "gSvc_fileEntries ?s2 = gSvc_fileEntries s" using s1 by simp_all
  have l2: "list_rep (lnodes ?s2) (gSvc_fileEntries ?s2) fps entries" unfolding ln2 by (rule so(4))
  have lh2: "list_heap_ok invar live ?s2" using so(2) e lv s1 by (auto simp: list_heap_ok_def)
  have r2: "ready (sizeof_ListElem # 16 # ns) (lheap ?s2)" using e by simp
  obtain new h3 N where push: "ListPush (heap_alloc M) (gSvc_fileEntries ?s2) e ?s2 = ret (?s2\<lparr>lheap := h3, lnodes := N\<rparr>)"
    "live h3 = set new \<union> live (lheap ?s2)" "list_rep N (gSvc_fileEntries ?s2) (fps @ new) (entries @ [e])" "invar h3" "dom N \<subseteq> live h3"
    "nullptr \<notin> dom N" "ready (16 # ns) h3" "\<And>a. a \<notin> set fps \<union> set new \<Longrightarrow> N a = lnodes ?s2 a" "set new \<inter> live (lheap ?s2) = {}"
    by (rule push_ok [OF lh2 l2 conjunct1 [OF e] r2]) blast
  let ?s3 = "?s2\<lparr>lheap := h3, lnodes := N\<rparr>"
  have p3: "processEntries ?s3 p = Some pe" "fileEntries ?s3 e = Some ?fe" using p(2) s1 by simp_all
  have inv3: "invar (lheap ?s3)" using push(4) by simp
  have r3: "ready ((12 + int (length (nat_bytes 4 (unat ?hd)))) # ns) (lheap ?s3)" using push(7) by simp
  obtain r h5 rest' where rs: "LtFsResponse_Create M STATUS_SUCCESS (Some (nat_bytes 4 (unat ?hd))) 4 (Some nullptr) ?s3 = ret (STATUS_SUCCESS, Some r,
      ?s3\<lparr>lheap := h5, bufs := (bufs ?s3)(r \<mapsto> nat_bytes 4 (unat (status_num STATUS_SUCCESS)) @ nat_bytes 4 (unat (12 + 4 :: u32)) @ nat_bytes 4 (unat ?hd) @ rest')\<rparr>)"
      "length rest' = 4" "r \<noteq> nullptr" "r \<notin> live (lheap ?s3)" "live h5 = insert r (live (lheap ?s3))" "invar h5" "ready ns h5"
    by (rule LtFsResponse_Create_ok [OF inv3 r3, of 4 STATUS_SUCCESS nullptr]) simp_all
  let ?bs = "open_response ?hd rest'"
  let ?s5 = "?s3\<lparr>lheap := h5, bufs := (bufs ?s3)(r \<mapsto> ?bs)\<rparr>"
  have rs': "LtFsResponse_Create M STATUS_SUCCESS (Some (nat_bytes 4 (unat ?hd))) 4 (Some nullptr) ?s3 = ret (STATUS_SUCCESS, Some r, ?s5)"
    using rs(1) by (simp add: open_response_def status_num_def STATUS_LIST_def)
  have lb: "length ?bs = 16" using rs(2) by (simp add: open_response_def)
  have "le32_at ?bs 4 = 16" using le32_at_num [of "nat_bytes 4 0" 16 "nat_bytes 4 (unat ?hd) @ rest'"] by (simp add: open_response_def)
  then have sz: "rd32 r 4 ?s5 = ret 16" using rd32_ok [OF rs(3), of ?s5 ?bs 4] lb by simp
  let ?k = "sysIpcSend K (pe_serverHandle pe) ?bs (kern s)"
  have send: "IpcClient_Send K (pe_serverHandle pe) r 16 ?s5 (kern ?s5) = ret (status_of (fst ?k), snd ?k)"
    using p(4) rs(3) lb s1 by (simp add: IpcClient_Send_def split: prod.split)
  let ?s' = "?s5\<lparr>kern := snd ?k\<rparr>"
  have call: "open_and_reply M K p msg 4 s = ret (status_of (fst ?k), ?s')"
    unfolding open_and_reply_def
    using open1 look rdm new push(1) p3 p(1,3) rs' sz send e rs(3) s1
    by (simp add: deref_ok ListPush_def [of _ nullptr])
  have lv3: "live (lheap s) \<subseteq> live h3" "live h3 \<subseteq> live h5" "e \<in> live h3" "live h1 \<subseteq> live h3" using lv e push(2) rs(5) s1 by auto
  have en: "e \<notin> set entries" using e lv so(7,8) s1 by (auto simp: domI)
  have op': "is_open ?s' q = is_open s1 q" for q using s1 by (simp add: is_open_def)
  have f1: "dom (bufs s1) \<subseteq> live h1" "nullptr \<notin> dom (bufs s1)" "dom (files s1) \<subseteq> live h1" "nullptr \<notin> dom (files s1)"
    using o(3) s1 by (simp_all add: fs_ok_def bufs_ok_def)
  have fok: "fs_ok invar live ?s'"
    unfolding fs_ok_def bufs_ok_def using f1 lv3 rs(3,5,6) s1 by auto
  have lok: "list_heap_ok invar live ?s'" unfolding list_heap_ok_def using push(5,6) rs(5,6) by auto
  have pps: "set pps \<inter> (set fps \<union> set new) = {}"
  proof -
    have "set pps \<subseteq> live (lheap s)" using chain_dom [OF list_repD(1) [OF so(3)]] so(2) by (auto simp: list_heap_ok_def)
    then have "set pps \<subseteq> live (lheap ?s2)" using lv e s1 by auto
    with push(9) so(5) show ?thesis by blast
  qed
  have "list_rep N (gSvc_processes s) pps procs" by (rule list_rep_same [OF so(3)]) (use push(8) pps ln2(1) in auto)
  moreover have "list_rep N (gSvc_fileEntries s) (fps @ new) (entries @ [e])" using push(3) ln2(2) by simp
  moreover have "set pps \<inter> set (fps @ new) = {}" using pps by auto
  moreover have "gSvc_processes ?s' = gSvc_processes s" "gSvc_fileEntries ?s' = gSvc_fileEntries s" "lnodes ?s' = N" using s1 by simp_all
  ultimately have lists: "\<exists>pps fps. list_rep (lnodes ?s') (gSvc_processes ?s') pps procs \<and>
      list_rep (lnodes ?s') (gSvc_fileEntries ?s') fps (entries @ [e]) \<and> set pps \<inter> set fps = {}" by metis
  have fe': "fileEntries ?s' = (fileEntries s)(e \<mapsto> ?fe)" "processEntries ?s' = processEntries s" using s1 by simp_all
  have isf: "is_open s1 f" using o(2) by (auto simp: opened_as_def is_open_def)
  have ents: "\<forall>x \<in> set (entries @ [e]). \<exists>fe. fileEntries ?s' x = Some fe \<and> is_open ?s' (fe_file fe)"
    unfolding fe' op' using so(7) op isf en by auto
  have de: "dom (fileEntries ?s') \<subseteq> live (lheap ?s')" unfolding fe' using so(8) lv3 by auto
  have pe: "set procs \<subseteq> dom (processEntries ?s')" unfolding fe' by (rule so(6))
  have ok: "service_ok invar live ?s' procs (entries @ [e])"
    unfolding service_ok_def by (intro conjI fok lok lists pe ents de)
  have ro: "r \<notin> dom (bufs s1)" using rs(4) f1(1) lv3(4) by auto
  have opn: "opened_as img (blockSize dk) sb gd ?s' f ino"
    using o(2) ro by (auto simp: opened_as_def)
  have "gCurrentFileHandle ?s' = ?hd" "kern ?s' = snd ?k" "fileEntries ?s' e = Some ?fe" "ready ns (lheap ?s')"
    using s1 rs(7) by simp_all
  with call rs(2) opn ok show ?thesis by blast
qed

end

subsection \<open>Requests of a program\<close>


text \<open>C30: opening a file through a context that is set up sends exactly one message to the service, with the type of
  the request, the path and the two modes, and gives its memory back. It succeeds whatever the sending returns, and no answer is
  waited for.\<close>

theorem FsOpenFile_sends_request:
  assumes "bufs_ok user_heap_ok user_live s" "user_ready (272 # ns) (lheap s)"
    and "fc_isInitialized (gFsContext s)" "fc_ltFsServiceHandle (gFsContext s) \<noteq> 0"
    and "access < 1" "share < 3" "nul_free path" "length path < 255" "length junk = 264"
  shows "\<exists>rest h. FsOpenFile (user_program P) K gid junk0 junk (Some path) access share (Some out) s = ret (STATUS_SUCCESS, s\<lparr>lheap := h,
       ckern := snd (sysIpcSend K (fc_ltFsServiceHandle (gFsContext s)) (open_message path access share junk rest) (ckern s))\<rparr>) \<and>
    length rest = 4 \<and> user_heap_ok h \<and> user_live h = user_live (lheap s) \<and> user_ready ns h"
  by (rule uprog.FsOpenFile_ok [OF assms]) blast

text \<open>Setting up the context sends the connect request with the size of an open request, which is more than
  was allocated for it: when the service is there and the server of the program can be made, it reads past the end of the buffer.\<close>

theorem ClientFsInit_overreads:
  assumes "bufs_ok user_heap_ok user_live s" "user_ready (263 # ns) (lheap s)"
    and "sysIpcServerConnect K LTFS_SERVICE_NAME (ckern s) = (0, h, k1)" "h \<noteq> 0" "sysIpcServerCreate K gid k1 = (0, hs, k2)"
    and "length gid + 1 \<le> length junk" "length junk = 255"
  shows "ClientFsInit (user_program P) K gid junk s = halt BadAccess"
  by (rule uprog.ClientFsInit_bad [OF assms])


lemma user_enumerate_halts:
  assumes "find P xs = Some x" "cb x c = halt e" "\<And>y. y \<in> set xs \<Longrightarrow> \<not> P y \<Longrightarrow> y \<noteq> x \<Longrightarrow> cb y c = ret (STATUS_SUCCESS, c)"
  shows "user_enumerate cb xs c = halt e"
  using assms
proof (induction xs)
  case (Cons a xs)
  then show ?case by (cases "a = x"; cases "P a") simp_all
qed simp

text \<open>C31: a process that connects a second time has its entry freed while it is still in the list of processes; its
  next request to open a file uses the freed entry.\<close>

theorem RequestConnect_again_frees_entry:
  assumes "user_heap_ok (lheap s)" "list_rep (lnodes s) (gSvc_processes s) ps procs" "set procs \<subseteq> dom (processEntries s)"
    and "set procs \<subseteq> user_live (lheap s)" "handle \<noteq> 0"
    and "find (\<lambda>p. pe_processHandle (the (processEntries s p)) = handle) procs = Some p"
  shows "\<exists>s'. RequestConnect (user_program P) K handle (Some (msg, pos)) s = ret (STATUS_SUCCESS, s') \<and>
    list_rep (lnodes s') (gSvc_processes s') ps procs \<and> p \<in> set procs \<and> processEntries s' p = None \<and> p \<notin> user_live (lheap s') \<and>
    RequestOpenFile (user_program P) K handle (Some (msg, pos)) s' = halt BadAccess"
proof -
  have p: "p \<in> set procs" using assms(6) by (auto simp: find_Some_iff)
  have pz: "p \<noteq> nullptr" using p list_repD(5) [OF assms(2)] by auto
  have look: "LookForProcessFromHandle handle (Some nullptr) s = ret (STATUS_SUCCESS, Some p)"
    using LookForProcess_found [OF assms(2,3,5), of nullptr] assms(6) by simp
  have lp: "p \<in> user_live (lheap s)" using p assms(4) by blast
  obtain h where h: "heap_free (user_program P) p (lheap s) = ret h" "user_live h = user_live (lheap s) - {p}"
    using uprog.free_live [OF assms(1) _ lp, of P] by auto
  let ?s' = "s\<lparr>lheap := h, processEntries := (processEntries s)(p := None)\<rparr>"
  have c: "RequestConnect (user_program P) K handle (Some (msg, pos)) s = ret (STATUS_SUCCESS, ?s')"
    using look pz h(1) by (simp add: RequestConnect_def free_process_def)
  have rep: "list_rep (lnodes ?s') (gSvc_processes ?s') ps procs" using assms(2) by simp
  have "user_enumerate (LookForProcessFromHandleCallback ?s') procs \<lparr>lp_processHandle = handle, lp_processEntry = nullptr\<rparr> = halt BadAccess"
  proof (rule user_enumerate_halts [OF assms(6)])
    show "LookForProcessFromHandleCallback ?s' p \<lparr>lp_processHandle = handle, lp_processEntry = nullptr\<rparr> = halt BadAccess"
      using pz by (simp add: LookForProcessFromHandleCallback_def deref_def)
    fix y assume y: "y \<in> set procs" "pe_processHandle (the (processEntries s y)) \<noteq> handle" "y \<noteq> p"
    then obtain e where "processEntries s y = Some e" using assms(3) by auto
    moreover have "y \<noteq> nullptr" using y(1) list_repD(5) [OF assms(2)] by auto
    ultimately show "LookForProcessFromHandleCallback ?s' y \<lparr>lp_processHandle = handle, lp_processEntry = nullptr\<rparr> =
        ret (STATUS_SUCCESS, \<lparr>lp_processHandle = handle, lp_processEntry = nullptr\<rparr>)"
      using y by (simp add: LookForProcessFromHandleCallback_def deref_ok)
  qed
  moreover have en: "UserListEnumerate (gSvc_processes s) (Some cb) ctx ?s' = user_enumerate cb procs ctx"
    for cb and ctx :: LOOK_FOR_PROCESS_CONTEXT
    by (rule UserListEnumerate_rep) (use assms(2) in simp)
  ultimately have "RequestOpenFile (user_program P) K handle (Some (msg, pos)) ?s' = halt BadAccess"
    using assms(5) en by (simp add: RequestOpenFile_def LookForProcessFromHandle_def)
  then show ?thesis using c rep p h(2) by (intro exI [of _ ?s']) simp
qed

subsection \<open>A program, a service and a kernel that logs what is sent\<close>

definition sim_calls :: "(u32 \<times> u8 list) list ipc_calls" where
  "sim_calls = \<lparr>sysIpcServerCreate = (\<lambda>name k. (0, 6, k)), sysIpcServerConnect = (\<lambda>name k. (0, 7, k)),
     sysIpcSend = (\<lambda>handle bytes k. (0, k @ [(handle, bytes)])), sysIpcReceive = (\<lambda>handle sz k. (0, [], 0, k)),
     sysRaiseThreadPriority = (\<lambda>k. k), sysLowerThreadPriority = (\<lambda>k. k)\<rparr>"

definition sim_client :: "bool \<Rightarrow> (user_heap, unit, (u32 \<times> u8 list) list) client" where
  "sim_client initialized = \<lparr>lheap = new_heap, lnodes = Map.empty, bufs = Map.empty, fresh = (\<lambda>_ _. 0), dev = (), irqs = True,
     gFsContext = \<lparr>fc_ipcServer = 6, fc_ltFsServiceHandle = 7, fc_isInitialized = initialized, fc_connectedToLtFs = False\<rparr>, ckern = []\<rparr>"

definition no_ports :: "unit ports" where
  "no_ports = \<lparr>inb = (\<lambda>port d. (0, d)), outb = (\<lambda>port v d. d), inw = (\<lambda>port d. (0, d)), outw = (\<lambda>port v d. d)\<rparr>"

lemma sim_client_ok: "bufs_ok user_heap_ok user_live (sim_client i)" "lheap (sim_client i) = new_heap"
  by (simp_all add: sim_client_def bufs_ok_def new_heap_ok)

theorem FsOpenFile_sends_request_witness:
  "\<exists>s' rest. FsOpenFile (user_program no_ports) sim_calls [] [] (replicate 264 0) (Some [47, 97]) 0 1 (Some 0) (sim_client True) =
     ret (STATUS_SUCCESS, s') \<and> ckern s' = [(7, open_message [47, 97] 0 1 (replicate 264 0) rest)]"
proof -
  have r: "user_ready (272 # []) (lheap (sim_client True))"
    unfolding sim_client_ok by (rule new_heap_ready) (simp add: pages_for_def block_bytes_def n_pages_def)
  have c: "fc_isInitialized (gFsContext (sim_client True))" "fc_ltFsServiceHandle (gFsContext (sim_client True)) \<noteq> 0"
      "(0 :: u32) < 1" "(1 :: u32) < 3" "nul_free [47, 97]" "length [47 :: u8, 97] < 255" "length (replicate 264 (0 :: u8)) = 264"
    by (simp_all add: sim_client_def nul_free_def)
  obtain rest h where "FsOpenFile (user_program no_ports) sim_calls [] [] (replicate 264 0) (Some [47, 97]) 0 1 (Some 0) (sim_client True) =
      ret (STATUS_SUCCESS, sim_client True\<lparr>lheap := h, ckern := snd (sysIpcSend sim_calls (fc_ltFsServiceHandle (gFsContext (sim_client True)))
        (open_message [47, 97] 0 1 (replicate 264 0) rest) (ckern (sim_client True)))\<rparr>)"
    using FsOpenFile_sends_request [OF sim_client_ok(1) r c, of no_ports sim_calls "[]" "[]" 0] by blast
  moreover have "ckern (sim_client True\<lparr>lheap := h, ckern := snd (sysIpcSend sim_calls (fc_ltFsServiceHandle (gFsContext (sim_client True)))
        (open_message [47, 97] 0 1 (replicate 264 0) rest) (ckern (sim_client True)))\<rparr>) = [(7, open_message [47, 97] 0 1 (replicate 264 0) rest)]"
    by (simp add: sim_client_def sim_calls_def)
  ultimately show ?thesis by blast
qed

theorem ClientFsInit_overreads_witness:
  "ClientFsInit (user_program no_ports) sim_calls [49, 50, 58, 48, 48, 58, 48, 48] (replicate 255 0) (sim_client False) = halt BadAccess"
proof -
  have r: "user_ready (263 # []) (lheap (sim_client False))"
    unfolding sim_client_ok by (rule new_heap_ready) (simp add: pages_for_def block_bytes_def n_pages_def)
  have k: "sysIpcServerConnect sim_calls LTFS_SERVICE_NAME (ckern (sim_client False)) = (0, 7, [])" "(7 :: u32) \<noteq> 0"
      "sysIpcServerCreate sim_calls [49, 50, 58, 48, 48, 58, 48, 48] [] = (0, 6, [])" "length [49 :: u8, 50, 58, 48, 48, 58, 48, 48] + 1 \<le> length (replicate 255 (0 :: u8))"
      "length (replicate 255 (0 :: u8)) = 255"
    by (simp_all add: sim_calls_def sim_client_def)
  show ?thesis by (rule ClientFsInit_overreads [OF sim_client_ok(1) r k])
qed

text \<open>The service of before, with one process that has connected, and its request.\<close>

definition sim_svc :: "user_heap \<Rightarrow> (addr \<rightharpoonup> u8 list) \<Rightarrow> (addr \<rightharpoonup> File) \<Rightarrow> addr \<Rightarrow> addr \<Rightarrow> addr \<Rightarrow> addr \<Rightarrow> addr \<Rightarrow> addr \<Rightarrow>
    (user_heap, sim_disk, (u32 \<times> u8 list) list) service" where
  "sim_svc h B F root sb gd x y z = \<lparr>lheap = h, lnodes = [x \<mapsto> \<lparr>elem_prev = nullptr, elem_next = nullptr, elem_data = z\<rparr>,
       y \<mapsto> \<lparr>elem_prev = nullptr, elem_next = nullptr, elem_data = nullptr\<rparr>],
     bufs = B, fresh = (\<lambda>_ _. 0), dev = sim_idle, irqs = True, disks = [4 \<mapsto> sim_dk sb gd], atas = [8 \<mapsto> AtaCreate 496 0],
     files = F, gExt2Disk = 4, gRootFile = root, kern = [],
     processEntries = [z \<mapsto> \<lparr>pe_serverHandle = 9, pe_processHandle = 5, pe_fileEntries = nullptr\<rparr>], fileEntries = Map.empty,
     gSvc_processes = x, gSvc_fileEntries = y, gCurrentFileHandle = 0\<rparr>"

lemma nine_blocks:
  assumes "sum_list (map pages_for ns) < 65000"
  obtains a b c r f m x y z h where "distinct [a, b, c, r, f, m, x, y, z, nullptr]" "user_live h = {a, b, c, r, f, m, x, y, z}"
    "user_heap_ok h" "user_ready ns h"
proof -
  have r: "user_ready ([128, 128, 128, 128, 128, 128, 128, 128, 128] @ ns) new_heap"
    using assms by (intro new_heap_ready) (simp add: pages_for_def block_bytes_def n_pages_def)
  have m: "\<forall>m \<in> set [128, 128, 128, 128, 128, 128, 128, 128, 128 :: int]. 0 < m \<and> m < 2147483648" by simp
  obtain ps h where ps: "length ps = length [128, 128, 128, 128, 128, 128, 128, 128, 128 :: int]" "distinct ps" "nullptr \<notin> set ps"
      "user_live h = set ps \<union> user_live new_heap" "user_heap_ok h" "user_ready ns h"
    using alloc_many [OF new_heap_ok(1) m r] by blast
  obtain a b c r f m x y z where "ps = [a, b, c, r, f, m, x, y, z]" using ps(1) by (auto simp: length_Suc_conv)
  with ps show thesis by (intro that [of a b c r f m x y z h]) (auto simp: new_heap_ok(2))
qed

abbreviation sim_message :: "u8 list" where
  "sim_message \<equiv> open_message (47 # path_str [[100], [97]]) 0 1 (replicate 264 0) [0, 0, 0, 0]"

lemma sim_svc_state:
  assumes "sum_list (map pages_for ns) < 65000"
  obtains s :: "(user_heap, sim_disk, (u32 \<times> u8 list) list) service" and a b c f z where
    "mounted sim_view 496 s (sim_dk a b) (sim_super 128 0) sim_groups" "service_ok user_heap_ok user_live s [z] []" "zeroed s"
    "dir_caches s (gRootFile s) [f] [([100], 3)]" "unread s [f]" "bufs s c = Some sim_message" "apart c s [f]"
    "c \<notin> {superBlock (sim_dk a b), groupDec (sim_dk a b)}" "user_ready ns (lheap s)"
    "processEntries s z = Some \<lparr>pe_serverHandle = 9, pe_processHandle = 5, pe_fileEntries = nullptr\<rparr>" "z \<in> user_live (lheap s)" "kern s = []" "gCurrentFileHandle s = 0"
proof -
  obtain a b c r f m x y z h where h: "distinct [a, b, c, r, f, m, x, y, z, nullptr]" "user_live h = {a, b, c, r, f, m, x, y, z}"
      "user_heap_ok h" "user_ready ns h"
    by (rule nine_blocks [OF assms])
  let ?B = "[a \<mapsto> sim_super 128 0, b \<mapsto> sim_groups, c \<mapsto> sim_message, m \<mapsto> [100, 0]]"
  let ?F = "[r \<mapsto> sim_file 2 nullptr nullptr f r, f \<mapsto> sim_file 3 nullptr m nullptr r]"
  let ?s = "sim_svc h ?B ?F r a b x y z"
  have s: "bufs ?s = ?B" "files ?s = ?F" "lheap ?s = h" "zeroed ?s" "gRootFile ?s = r" "gExt2Disk ?s = 4"
      "processEntries ?s = [z \<mapsto> \<lparr>pe_serverHandle = 9, pe_processHandle = 5, pe_fileEntries = nullptr\<rparr>]" "kern ?s = []"
      "fileEntries ?s = Map.empty" "lnodes ?s = [x \<mapsto> \<lparr>elem_prev = nullptr, elem_next = nullptr, elem_data = z\<rparr>,
       y \<mapsto> \<lparr>elem_prev = nullptr, elem_next = nullptr, elem_data = nullptr\<rparr>]" "gSvc_processes ?s = x" "gSvc_fileEntries ?s = y" "gCurrentFileHandle ?s = 0"
    by (simp_all add: sim_svc_def zeroed_def)
  have fok: "fs_ok user_heap_ok user_live ?s" unfolding fs_ok_def bufs_ok_def s using h by auto
  have lok: "list_heap_ok user_heap_ok user_live ?s" unfolding list_heap_ok_def s using h by auto
  have "list_rep (lnodes ?s) x [x] [z]" "list_rep (lnodes ?s) y [y] []"
    unfolding s(10) list_rep_def using h(1) by (auto simp: node_data_def)
  then have "\<exists>pps fps. list_rep (lnodes ?s) x pps [z] \<and> list_rep (lnodes ?s) y fps [] \<and> set pps \<inter> set fps = {}"
    using h(1) by (intro exI [of _ "[x]"] exI [of _ "[y]"]) auto
  then have sok: "service_ok user_heap_ok user_live ?s [z] []"
    unfolding service_ok_def using fok lok s by simp
  show thesis
  proof (rule that [of ?s a b z f c])
    show "mounted sim_view 496 ?s (sim_dk a b) (sim_super 128 0) sim_groups"
      using h(1) by (auto simp: sim_svc_def mounted_def bsize_ok_def)
    show "dir_caches ?s (gRootFile ?s) [f] [([100], 3)]"
      unfolding dir_caches_def cached_as_def s using h(1) by (auto simp: names_ok_def sim_file_def nul_free_def)
    show "unread ?s [f]" "apart c ?s [f]" unfolding unread_def apart_def s using h(1) by (auto simp: sim_file_def)
    show "user_ready ns (lheap ?s)" "bufs ?s c = Some sim_message" "zeroed ?s" "z \<in> user_live (lheap ?s)"
      "processEntries ?s z = Some \<lparr>pe_serverHandle = 9, pe_processHandle = 5, pe_fileEntries = nullptr\<rparr>" "kern ?s = []" "gCurrentFileHandle ?s = 0"
      unfolding s(1,3,7,8,13) using h s(4) by auto
    show "c \<notin> {superBlock (sim_dk a b), groupDec (sim_dk a b)}" using h(1) by auto
  qed (rule sok)
qed


theorem RequestConnect_again_frees_entry_witness:
  "\<exists>(s :: (user_heap, sim_disk, (u32 \<times> u8 list) list) service) s'.
     RequestConnect (user_program (sim_ports 496 sim_tree)) sim_calls 5 (Some (4, 4)) s = ret (STATUS_SUCCESS, s') \<and>
     RequestOpenFile (user_program (sim_ports 496 sim_tree)) sim_calls 5 (Some (4, 4)) s' = halt BadAccess"
proof -
  obtain s :: "(user_heap, sim_disk, (u32 \<times> u8 list) list) service" and a b c f z where
    s: "service_ok user_heap_ok user_live s [z] []"
    "processEntries s z = Some \<lparr>pe_serverHandle = 9, pe_processHandle = 5, pe_fileEntries = nullptr\<rparr>" "z \<in> user_live (lheap s)"
    by (rule sim_svc_state [of "[]"]) simp_all
  obtain ps where l: "list_rep (lnodes s) (gSvc_processes s) ps [z]" "user_heap_ok (lheap s)" "set [z] \<subseteq> dom (processEntries s)"
    using s(1) by (auto simp: service_ok_def list_heap_ok_def)
  have f: "set [z] \<subseteq> user_live (lheap s)" "(5 :: u32) \<noteq> 0" "find (\<lambda>p. pe_processHandle (the (processEntries s p)) = 5) [z] = Some z"
    using s(2,3) by simp_all
  from RequestConnect_again_frees_entry [OF l(2,1,3) f, of "sim_ports 496 sim_tree" sim_calls 4 4] show ?thesis by blast
qed

end
