(* ===== verification/Kernel_Devices.thy ===== *)
theory Kernel_Devices
  imports Vmm Descriptors
begin

section \<open>The drivers of the kernel\<close>

text \<open>
  \<^verbatim>\<open>kernel/drivers\<close>: the text screen, the serial ports, the interrupt controller and the clock. The
  screen is memory at 0xB8000, so its driver works on the machine; the others use port instructions of a device that
  is a parameter, as in \<open>Ata_Driver\<close>.
\<close>

subsection \<open>The screen\<close>

abbreviation (input) SCREEN_PTR :: addr where "SCREEN_PTR \<equiv> 0xB8000"
abbreviation (input) SCREEN_END_PTR :: addr where "SCREEN_END_PTR \<equiv> 0xB8FA0"
abbreviation (input) LINES :: int where "LINES \<equiv> 25"
abbreviation (input) COLUMNS :: int where "COLUMNS \<equiv> 80"

abbreviation (input) BLACK :: u8 where "BLACK \<equiv> 0"
abbreviation (input) BLUE :: u8 where "BLUE \<equiv> 1"
abbreviation (input) CYAN :: u8 where "CYAN \<equiv> 3"
abbreviation (input) RED :: u8 where "RED \<equiv> 4"
abbreviation (input) MAGENTA :: u8 where "MAGENTA \<equiv> 5"
abbreviation (input) WHITE :: u8 where "WHITE \<equiv> 7"

text \<open>The static variables of \<^verbatim>\<open>Screen.cpp\<close>, with their values at the start.\<close>

record console =
  con_Line :: int
  con_Column :: int
  con_Color :: u8
  con_CursorEnabled :: bool

definition console_start :: console where
  "console_start = \<lparr>con_Line = 1, con_Column = 1, con_Color = 7, con_CursorEnabled = False\<rparr>"

text \<open>
  \<^verbatim>\<open>ScrollUp\<close>, with the number of bytes still to come. \<^verbatim>\<open>lastLine_ptr\<close> is the address
  of the second byte behind the screen.
\<close>

abbreviation (input) lastLine_ptr :: addr where "lastLine_ptr \<equiv> SCREEN_PTR + (1 + 25 * 80) * 2"

fun scroll_loop :: "nat \<Rightarrow> addr \<Rightarrow> 'z machine_scheme \<Rightarrow> 'z machine_scheme exec" where
  "scroll_loop 0 screen_ptr s = ret s"
| "scroll_loop (Suc n) screen_ptr s =
     andThen (if screen_ptr < lastLine_ptr
              then andThen (vread8 s (screen_ptr + 160)) (\<lambda>b. vwrite8 screen_ptr b s)
              else vwrite8 screen_ptr 0 s) (scroll_loop n (screen_ptr + 1))"

definition ScrollUp :: "'z machine_scheme \<Rightarrow> 'z machine_scheme exec" where
  "ScrollUp s = scroll_loop (unat (SCREEN_END_PTR - SCREEN_PTR) + 1) SCREEN_PTR s"

text \<open>The two blocks of \<^verbatim>\<open>PrintChar\<close> that occur twice.\<close>

definition wrap_column :: "console \<Rightarrow> console" where
  "wrap_column k = (if con_Column k > COLUMNS - 1 then k\<lparr>con_Column := 0, con_Line := con_Line k + 1\<rparr> else k)"

definition scroll_if_below :: "console \<Rightarrow> 'z machine_scheme \<Rightarrow> (console \<times> 'z machine_scheme) exec" where
  "scroll_if_below k s = (if con_Line k > LINES - 1
     then andThen (ScrollUp s) (\<lambda>s1. ret (k\<lparr>con_Line := con_Line k - 1\<rparr>, s1)) else ret (k, s))"

definition Screen_PrintChar :: "u8 \<Rightarrow> console \<Rightarrow> 'z machine_scheme \<Rightarrow> (console \<times> 'z machine_scheme) exec" where
  "Screen_PrintChar c k s =
     andThen
       (if c = 10 then ret (k\<lparr>con_Line := con_Line k + 1, con_Column := 0\<rparr>, s)
        else if c = 13 then ret (k\<lparr>con_Column := 0\<rparr>, s)
        else andThen (scroll_if_below (wrap_column k) s) (\<lambda>(k1, s1).
          let screen_ptr = SCREEN_PTR + of_int ((con_Column k1 + con_Line k1 * COLUMNS) * 2) in
          andThen (vwrite8 screen_ptr c s1) (\<lambda>s2.
          andThen (vwrite8 (screen_ptr + 1) (con_Color k1) s2) (\<lambda>s3.
            ret (k1\<lparr>con_Column := con_Column k1 + 1\<rparr>, s3)))))
       (\<lambda>(k2, s2). scroll_if_below (wrap_column k2) s2)"

fun clear_loop :: "nat \<Rightarrow> addr \<Rightarrow> 'z machine_scheme \<Rightarrow> 'z machine_scheme exec" where
  "clear_loop 0 p s = ret s"
| "clear_loop (Suc n) p s = andThen (vwrite8 p 32 s) (clear_loop n (p + 2))"

definition Screen_Clear :: "console \<Rightarrow> 'z machine_scheme \<Rightarrow> (console \<times> 'z machine_scheme) exec" where
  "Screen_Clear k s = andThen (clear_loop 2000 SCREEN_PTR s) (\<lambda>s1. ret (k\<lparr>con_Line := 0, con_Column := 0\<rparr>, s1))"

text \<open>The color byte; \<^verbatim>\<open>blink\<close> is masked without having been shifted.\<close>

definition SetColorEx :: "u8 \<Rightarrow> u8 \<Rightarrow> u8 \<Rightarrow> u8 \<Rightarrow> console \<Rightarrow> console" where
  "SetColorEx background foreground blink intensity k = k\<lparr>con_Color :=
     (((blink AND 0x80) OR (0x70 AND push_bit 4 background)) OR (0x08 AND push_bit 3 intensity)) OR (0x07 AND foreground)\<rparr>"

definition SetColor :: "u8 \<Rightarrow> console \<Rightarrow> console" where
  "SetColor value k = (if value = WHITE then SetColorEx BLACK value 0 0 k else SetColorEx BLACK value 0 1 k)"

fun background_loop :: "nat \<Rightarrow> u8 \<Rightarrow> addr \<Rightarrow> 'z machine_scheme \<Rightarrow> 'z machine_scheme exec" where
  "background_loop 0 color p s = ret s"
| "background_loop (Suc n) color p s = andThen (vread8 s p) (\<lambda>b.
     andThen (vwrite8 p ((b AND 0x8F) OR push_bit 4 (color AND 7)) s) (background_loop n color (p + 2)))"

definition SetBackground :: "u8 \<Rightarrow> 'z machine_scheme \<Rightarrow> 'z machine_scheme exec" where
  "SetBackground color s = background_loop 2000 color (SCREEN_PTR + 1) s"

text \<open>The hardware cursor.\<close>

definition MoveCursor :: "('d, 'm) ports_scheme \<Rightarrow> u8 \<Rightarrow> u8 \<Rightarrow> 'd \<Rightarrow> 'd" where
  "MoveCursor M x y d =
     (let c_pos = (ucast y * 80 + ucast x :: u16) in
      outb M 0x3D5 (ucast (drop_bit 8 c_pos)) (outb M 0x3D4 0x0E (outb M 0x3D5 (ucast c_pos) (outb M 0x3D4 0x0F d))))"

definition ShowCursor :: "('d, 'm) ports_scheme \<Rightarrow> console \<Rightarrow> 'd \<Rightarrow> 'd" where
  "ShowCursor M k d = MoveCursor M (of_int (con_Column k)) (of_int (con_Line k)) d"

definition HideCursor :: "('d, 'm) ports_scheme \<Rightarrow> 'd \<Rightarrow> 'd" where
  "HideCursor M d = MoveCursor M (-1) (-1) d"

definition EnableCursor :: "('d, 'm) ports_scheme \<Rightarrow> console \<Rightarrow> 'd \<Rightarrow> console \<times> 'd" where
  "EnableCursor M k d =
     (let (a, d1) = inb M 0x3D5 (outb M 0x3D4 0x0A d);
          (b, d2) = inb M 0x3D5 (outb M 0x3D4 0x0B (outb M 0x3D5 ((a AND 0xC0) OR 13) d1));
          k1 = k\<lparr>con_CursorEnabled := True\<rparr>
      in (k1, ShowCursor M k1 (outb M 0x3D5 ((b AND 0xE0) OR 15) d2)))"

definition DisableCursor :: "('d, 'm) ports_scheme \<Rightarrow> console \<Rightarrow> 'd \<Rightarrow> console \<times> 'd" where
  "DisableCursor M k d = (k\<lparr>con_CursorEnabled := False\<rparr>, outb M 0x3D5 0x20 (outb M 0x3D4 0x0A d))"

definition IsCursorEnabled :: "console \<Rightarrow> bool" where
  "IsCursorEnabled k = con_CursorEnabled k"

subsection \<open>Serial ports\<close>

abbreviation (input) COM1_PORT :: u16 where "COM1_PORT \<equiv> 0x3F8"
abbreviation (input) COM2_PORT :: u16 where "COM2_PORT \<equiv> 0x2F8"

definition Serial_InitPort :: "('d, 'm) ports_scheme \<Rightarrow> u16 \<Rightarrow> 'd \<Rightarrow> 'd" where
  "Serial_InitPort M port d =
     fold (\<lambda>(r, v). outb M (port + r) v)
       [(1, 0x00), (3, 0x80), (0, 0x03), (1, 0x00), (3, 0x03), (2, 0xC7), (4, 0x0B), (1, 0x01)] d"

definition Serial_Init :: "('d, 'm) ports_scheme \<Rightarrow> 'd \<Rightarrow> 'd" where
  "Serial_Init M d = Serial_InitPort M COM2_PORT (Serial_InitPort M COM1_PORT d)"

definition ReceivedData :: "('d, 'm) ports_scheme \<Rightarrow> u16 \<Rightarrow> 'd \<Rightarrow> u8 \<times> 'd" where
  "ReceivedData M port d = (fst (inb M (port + 5) d) AND 1, snd (inb M (port + 5) d))"

definition IsTransmitEmpty :: "('d, 'm) ports_scheme \<Rightarrow> u16 \<Rightarrow> 'd \<Rightarrow> u8 \<times> 'd" where
  "IsTransmitEmpty M port d = (fst (inb M (port + 5) d) AND 0x20, snd (inb M (port + 5) d))"

partial_function (option) wait_data :: "('d, 'm) ports_scheme \<Rightarrow> u16 \<Rightarrow> 'd \<Rightarrow> 'd exec" where
  "wait_data M port d =
     (if fst (ReceivedData M port d) = 0 then wait_data M port (snd (ReceivedData M port d))
      else ret (snd (ReceivedData M port d)))"

partial_function (option) wait_empty :: "('d, 'm) ports_scheme \<Rightarrow> u16 \<Rightarrow> 'd \<Rightarrow> 'd exec" where
  "wait_empty M port d =
     (if fst (IsTransmitEmpty M port d) = 0 then wait_empty M port (snd (IsTransmitEmpty M port d))
      else ret (snd (IsTransmitEmpty M port d)))"

definition Serial_ReadByte :: "('d, 'm) ports_scheme \<Rightarrow> u16 \<Rightarrow> 'd \<Rightarrow> (u8 \<times> 'd) exec" where
  "Serial_ReadByte M port d = andThen (wait_data M port d) (\<lambda>d1. ret (inb M port d1))"

definition Serial_WriteByte :: "('d, 'm) ports_scheme \<Rightarrow> u16 \<Rightarrow> u8 \<Rightarrow> 'd \<Rightarrow> 'd exec" where
  "Serial_WriteByte M port c d = andThen (wait_empty M port d) (\<lambda>d1. ret (outb M port c d1))"

subsection \<open>Characters to the devices\<close>

text \<open>
  \<^verbatim>\<open>printChar\<close> of \<^verbatim>\<open>StdIo.cpp\<close>, by the mode of the logger, and the loop of \<^verbatim>\<open>printStr\<close> over
  the characters of a text.
\<close>

abbreviation (input) LOG_SCREEN :: u32 where "LOG_SCREEN \<equiv> 1"
abbreviation (input) LOG_SERIAL :: u32 where "LOG_SERIAL \<equiv> 2"

definition printChar ::
  "('d, 'm) ports_scheme \<Rightarrow> u32 \<Rightarrow> u8 \<Rightarrow> console \<times> 'z machine_scheme \<times> 'd \<Rightarrow> (console \<times> 'z machine_scheme \<times> 'd) exec" where
  "printChar M mode c = (\<lambda>(k, s, d).
     andThen (if FlagOn mode LOG_SCREEN then Screen_PrintChar c k s else ret (k, s)) (\<lambda>(k1, s1).
     andThen (if FlagOn mode LOG_SERIAL then Serial_WriteByte M COM1_PORT c d else ret d) (\<lambda>d1. ret (k1, s1, d1))))"

fun print_text ::
  "('d, 'm) ports_scheme \<Rightarrow> u32 \<Rightarrow> u8 list \<Rightarrow> console \<times> 'z machine_scheme \<times> 'd \<Rightarrow> (console \<times> 'z machine_scheme \<times> 'd) exec" where
  "print_text M mode [] t = ret t"
| "print_text M mode (c # cs) t = andThen (printChar M mode c t) (print_text M mode cs)"

subsection \<open>The interrupt controller\<close>

record PicDriver =
  icw1 :: u8
  icw2Master :: u8
  icw2Slave :: u8
  icw3Master :: u8
  icw3Slave :: u8
  icw4 :: u8
  ocw1Master :: u8
  ocw1Slave :: u8

abbreviation (input) ICW1_WITH_ICW4 :: u8 where "ICW1_WITH_ICW4 \<equiv> 1"
abbreviation (input) IRQ_SYSTEM_TIMER :: u8 where "IRQ_SYSTEM_TIMER \<equiv> 1"
abbreviation (input) IRQ_NONE :: u8 where "IRQ_NONE \<equiv> 0"

definition SetIcw1 :: "u8 \<Rightarrow> PicDriver \<Rightarrow> PicDriver" where
  "SetIcw1 m p = p\<lparr>icw1 := 0x10 OR m\<rparr>"

definition SetIcw2 :: "u8 \<Rightarrow> u8 \<Rightarrow> PicDriver \<Rightarrow> PicDriver" where
  "SetIcw2 masterIntVecBaseAddr slaveIntVecBaseAddr p =
     p\<lparr>icw2Master := masterIntVecBaseAddr, icw2Slave := slaveIntVecBaseAddr\<rparr>"

definition SetIcw3 :: "u8 \<Rightarrow> u8 \<Rightarrow> PicDriver \<Rightarrow> PicDriver" where
  "SetIcw3 master slave p = p\<lparr>icw3Master := master, icw3Slave := slave\<rparr>"

definition SetIcw4 :: "u8 \<Rightarrow> PicDriver \<Rightarrow> PicDriver" where
  "SetIcw4 m p = p\<lparr>icw4 := 1 OR m\<rparr>"

text \<open>The exclamation mark is the logical negation: 1 for the mask 0, and 0 for every other one.\<close>

definition SetOcw1 :: "u8 \<Rightarrow> u8 \<Rightarrow> PicDriver \<Rightarrow> PicDriver" where
  "SetOcw1 master slave p = p\<lparr>ocw1Master := of_bool (master = 0), ocw1Slave := of_bool (slave = 0)\<rparr>"

definition Pic_Reload :: "('d, 'm) ports_scheme \<Rightarrow> PicDriver \<Rightarrow> 'd \<Rightarrow> 'd" where
  "Pic_Reload M p d =
     fold (\<lambda>(port, v). outb M port v)
       [(0x20, icw1 p), (0xA0, icw1 p), (0x21, icw2Master p), (0xA1, icw2Slave p), (0x21, ocw1Master p), (0xA1, ocw1Slave p)] d"

definition Pic_Init :: "('d, 'm) ports_scheme \<Rightarrow> PicDriver \<Rightarrow> 'd \<Rightarrow> PicDriver \<times> 'd" where
  "Pic_Init M p d =
     (let p1 = SetOcw1 IRQ_SYSTEM_TIMER IRQ_NONE (SetIcw2 0x20 0x70 (SetIcw1 ICW1_WITH_ICW4 p)) in (p1, Pic_Reload M p1 d))"

subsection \<open>The clock\<close>

text \<open>
  The timer itself is not programmed. \<^verbatim>\<open>Pause\<close> waits for the clock interrupt to count. Its argument is the
  sequence of the values it reads, its result what is left of it when it returns.
\<close>

definition Clock_Init :: "u32 \<Rightarrow> memory \<Rightarrow> memory" where
  "Clock_Init isr m = Idt_InitDescriptor isr CPU_GATE 32 m"

fun Pause_loop :: "u32 \<Rightarrow> u32 \<Rightarrow> u32 list \<Rightarrow> u32 list option" where
  "Pause_loop ms t [] = None"
| "Pause_loop ms t (tics # later) = (if tics - t < ms then Pause_loop ms t later else Some later)"

fun Clock_Pause :: "u32 \<Rightarrow> u32 list \<Rightarrow> u32 list option" where
  "Clock_Pause ms [] = None"
| "Clock_Pause ms (t # later) = Pause_loop ms t later"

subsection \<open>What the screen shows\<close>

text \<open>
  The driver uses the video memory from 0xB8000 on, which the kernel reaches at the same virtual addresses; the page
  directory does not lie in it.
\<close>

definition video :: "'z machine_scheme \<Rightarrow> nat \<Rightarrow> u8" where
  "video s i = pmem s (SCREEN_PTR + of_nat i)"

definition with_video :: "(nat \<Rightarrow> u8) \<Rightarrow> 'z machine_scheme \<Rightarrow> 'z machine_scheme" where
  "with_video v s = s\<lparr>pmem := (\<lambda>p. if SCREEN_PTR \<le> p \<and> p \<le> SCREEN_END_PTR then v (unat (p - SCREEN_PTR)) else pmem s p)\<rparr>"

definition video_ok :: "'z machine_scheme \<Rightarrow> bool" where
  "video_ok s \<longleftrightarrow> (\<not> paging s \<or> kernel_space s \<and> pd_frame s \<noteq> 184) \<and>
     (\<forall>p. SCREEN_PTR \<le> p \<and> p < SCREEN_PTR + 8192 \<longrightarrow> mmu s p = Some p)"

lemma screen_addr: "i \<le> 8191 \<Longrightarrow> unat (SCREEN_PTR + of_nat i :: addr) = 753664 + i"
  by (simp add: unat_word_ariths unat_of_nat)

lemma video_with_video:
  "i \<le> 8191 \<Longrightarrow> video (with_video v s) i = (if i \<le> 4000 then v i else video s i)"
  by (simp add: video_def with_video_def word_le_nat_alt screen_addr unat_of_nat)

lemma video_offset: "video s (unat (p - SCREEN_PTR)) = pmem s p"
  by (simp add: video_def)

lemma with_video_with_video [simp]: "with_video v (with_video w s) = with_video v s"
  by (simp add: with_video_def cong: if_cong)

lemma with_video_cong: "(\<And>i. i \<le> 4000 \<Longrightarrow> v i = w i) \<Longrightarrow> with_video v s = with_video w s"
  unfolding with_video_def by (rule arg_cong [where f = "\<lambda>m. pmem_update m s"])
    (auto simp: fun_eq_iff word_le_nat_alt unat_sub_nowrap)

lemma with_video_video [simp]: "with_video (video s) s = s"
proof -
  have "pmem (with_video (video s) s) = pmem s"
    by (simp add: with_video_def video_def fun_eq_iff)
  then show ?thesis by (simp add: with_video_def)
qed

lemma video_upd:
  assumes "i \<le> 4000"
  shows "s\<lparr>pmem := (pmem s)(SCREEN_PTR + of_nat i := b)\<rparr> = with_video ((video s)(i := b)) s"
proof -
  have "((pmem s)(SCREEN_PTR + of_nat i := b)) p =
      (if SCREEN_PTR \<le> p \<and> p \<le> SCREEN_END_PTR then ((video s)(i := b)) (unat (p - SCREEN_PTR)) else pmem s p)" for p
  proof (cases "p = SCREEN_PTR + of_nat i")
    case True
    then show ?thesis using assms by (simp add: word_le_nat_alt screen_addr unat_of_nat)
  next
    case False
    have "unat (p - SCREEN_PTR) \<noteq> i"
    proof
      assume i: "unat (p - SCREEN_PTR) = i"
      have "p = of_nat (unat (p - SCREEN_PTR)) + SCREEN_PTR" by (simp only: of_nat_unat ucast_id diff_add_cancel)
      with False show False unfolding i by (simp only: add.commute)
    qed
    then show ?thesis using False video_offset [of s p] by simp
  qed
  then have "(pmem s)(SCREEN_PTR + of_nat i := b) =
      (\<lambda>p. if SCREEN_PTR \<le> p \<and> p \<le> SCREEN_END_PTR then ((video s)(i := b)) (unat (p - SCREEN_PTR)) else pmem s p)" by (rule ext)
  then show ?thesis unfolding with_video_def by simp
qed

lemma video_frame:
  assumes "frame_of p \<noteq> 184"
  shows "pmem (with_video v s) p = pmem s p"
proof -
  have "unat p div 4096 = 184" if "753664 \<le> unat p" "unat p \<le> 757664"
    by (rule div_nat_eqI) (use that in simp_all)
  then show ?thesis using assms by (auto simp: with_video_def word_le_nat_alt frame_of_def)
qed

lemma video_ok_with_video:
  assumes "video_ok s"
  shows "video_ok (with_video v s)"
proof (cases "paging s")
  case False
  then show ?thesis using assms by (simp add: video_ok_def with_video_def mmu_def)
next
  case True
  then have k: "kernel_space s" "pd_frame s \<noteq> 184" using assms by (auto simp: video_ok_def)
  have same: "pmem (with_video v s) (phys f i) = pmem s (phys f i)" if "f \<noteq> 184" "f < 1048576" "i < 4096" for f i
    using that by (intro video_frame) simp_all
  have c: "cr3 (with_video v s) = cr3 s" "paging (with_video v s) = paging s" by (simp_all add: with_video_def)
  have k': "kernel_space (with_video v s)"
    using k by (intro kernel_space_cong [OF k(1) c] same) simp_all
  moreover have "mmu (with_video v s) p = mmu s p" if "SCREEN_PTR \<le> p" "p < SCREEN_PTR + 8192" for p
  proof -
    have "dir p = 0" using that by (simp add: dir_def word_less_nat_alt)
    then show ?thesis using k(1) k' by (intro kernel_mmu_cong) (simp_all add: same)
  qed
  ultimately show ?thesis using assms k c by (simp add: video_ok_def)
qed

lemma screen_read: "video_ok s \<Longrightarrow> i \<le> 8191 \<Longrightarrow> vread8 s (SCREEN_PTR + of_nat i) = ret (video s i)"
  by (simp add: vread8_def video_ok_def video_def word_le_nat_alt word_less_nat_alt screen_addr)

lemma screen_write:
  "video_ok s \<Longrightarrow> i \<le> 4000 \<Longrightarrow> vwrite8 (SCREEN_PTR + of_nat i) b s = ret (with_video ((video s)(i := b)) s)"
  by (simp add: vwrite8_def video_ok_def word_le_nat_alt word_less_nat_alt screen_addr video_upd)

text \<open>\<^verbatim>\<open>ScrollUp\<close> moves every byte of the screen, and the one behind it, up by a line.\<close>

lemma scroll_loop_ok:
  assumes "video_ok s" "k + n = 4001"
  shows "scroll_loop n (SCREEN_PTR + of_nat k) (with_video (\<lambda>i. if i < k then video s (i + 160) else video s i) s) =
    ret (with_video (\<lambda>i. video s (i + 160)) s)"
  using assms(2)
proof (induction n arbitrary: k)
  case 0
  then show ?case by (auto intro!: with_video_cong)
next
  case (Suc n)
  let ?t = "with_video (\<lambda>i. if i < k then video s (i + 160) else video s i) s"
  have t: "video_ok ?t" using assms(1) by (rule video_ok_with_video)
  have k: "k \<le> 4000" using Suc.prems by simp
  have less: "SCREEN_PTR + of_nat k < lastLine_ptr" using k by (simp add: word_less_nat_alt screen_addr)
  have "vread8 ?t (SCREEN_PTR + of_nat (k + 160)) = ret (video s (k + 160))"
    using k by (subst screen_read [OF t]) (simp_all add: video_with_video)
  then have r: "vread8 ?t (SCREEN_PTR + of_nat k + 160) = ret (video s (k + 160))" by (simp add: ac_simps)
  have w: "vwrite8 (SCREEN_PTR + of_nat k) (video s (k + 160)) ?t =
      ret (with_video (\<lambda>i. if i < Suc k then video s (i + 160) else video s i) s)"
    using k by (subst screen_write [OF t]) (auto intro!: with_video_cong simp: video_with_video)
  have n: "SCREEN_PTR + of_nat k + 1 = SCREEN_PTR + of_nat (Suc k)" by simp
  show ?case
    unfolding scroll_loop.simps if_P [OF less] r andThen_ret w n using Suc.IH [of "Suc k"] Suc.prems by simp
qed

lemma ScrollUp_ok: "video_ok s \<Longrightarrow> ScrollUp s = ret (with_video (\<lambda>i. video s (i + 160)) s)"
  using scroll_loop_ok [of s 0 4001] by (simp add: ScrollUp_def)

subsection \<open>A terminal\<close>

text \<open>
  The screen as a grid of characters and attributes with a cursor. A line feed on the last line scrolls: each row takes the row
  below it, and the last row of the screen the row behind it in the video memory, which is not cleared.
\<close>

record terminal =
  grid :: "nat \<Rightarrow> nat \<Rightarrow> u8 \<times> u8"
  row :: nat
  column :: nat

definition scroll_grid :: "(nat \<Rightarrow> nat \<Rightarrow> u8 \<times> u8) \<Rightarrow> nat \<Rightarrow> nat \<Rightarrow> u8 \<times> u8" where
  "scroll_grid g r c = (if r < 25 then g (r + 1) c
     else if r = 25 \<and> c = 0 then (fst (g 26 0), snd (g 25 0)) else g r c)"

definition line_feed :: "terminal \<Rightarrow> terminal" where
  "line_feed t = (if row t = 24 then t\<lparr>grid := scroll_grid (grid t), column := 0\<rparr> else t\<lparr>row := row t + 1, column := 0\<rparr>)"

definition put_char :: "u8 \<Rightarrow> u8 \<Rightarrow> terminal \<Rightarrow> terminal" where
  "put_char color c t =
     (if c = 10 then line_feed t
      else if c = 13 then t\<lparr>column := 0\<rparr>
      else let t1 = t\<lparr>grid := (grid t)(row t := (grid t (row t))(column t := (c, color)))\<rparr> in
        if column t = 79 then line_feed t1 else t1\<lparr>column := column t + 1\<rparr>)"

definition shows_terminal :: "console \<Rightarrow> 'z machine_scheme \<Rightarrow> terminal \<Rightarrow> bool" where
  "shows_terminal k s t \<longleftrightarrow> con_Line k = int (row t) \<and> row t < 25 \<and> con_Column k = int (column t) \<and> column t < 80 \<and>
     (\<forall>r \<le> 26. \<forall>c < 80. grid t r c = (video s (160 * r + 2 * c), video s (160 * r + 2 * c + 1)))"

lemma scroll_if_below_ok:
  assumes "video_ok s"
  shows "scroll_if_below k s = ret (if con_Line k > 24 then (k\<lparr>con_Line := con_Line k - 1\<rparr>, with_video (\<lambda>i. video s (i + 160)) s)
    else (k, s))"
  by (simp add: scroll_if_below_def ScrollUp_ok [OF assms])

lemma scrolled_grid:
  assumes "\<forall>r \<le> 26. \<forall>c < 80. g r c = (video s (160 * r + 2 * c), video s (160 * r + 2 * c + 1))"
  shows "\<forall>r \<le> 26. \<forall>c < 80. scroll_grid g r c =
    (video (with_video (\<lambda>i. video s (i + 160)) s) (160 * r + 2 * c), video (with_video (\<lambda>i. video s (i + 160)) s) (160 * r + 2 * c + 1))"
proof (intro allI impI)
  fix r c :: nat
  assume rc: "r \<le> 26" "c < 80"
  consider "r < 25" | "r = 25" "c = 0" | "r = 25" "0 < c" | "r = 26" using rc by linarith
  then show "scroll_grid g r c = (video (with_video (\<lambda>i. video s (i + 160)) s) (160 * r + 2 * c),
      video (with_video (\<lambda>i. video s (i + 160)) s) (160 * r + 2 * c + 1))"
    by cases (use rc assms in \<open>simp_all add: scroll_grid_def video_with_video algebra_simps\<close>)
qed

lemma after_char:
  assumes v: "video_ok s" and t: "\<forall>r \<le> 26. \<forall>c < 80. grid t r c = (video s (160 * r + 2 * c), video s (160 * r + 2 * c + 1))"
    and r: "row t < 25"
  shows "\<exists>k' s'. scroll_if_below (k\<lparr>con_Line := int (row t) + 1, con_Column := 0\<rparr>) s = ret (k', s') \<and>
    shows_terminal k' s' (line_feed t) \<and> con_Color k' = con_Color k \<and> s' = with_video (video s') s"
proof (cases "row t = 24")
  case True
  let ?s = "with_video (\<lambda>i. video s (i + 160)) s"
  have "?s = with_video (video ?s) s" by (rule with_video_cong) (simp add: video_with_video)
  moreover have "shows_terminal (k\<lparr>con_Column := 0, con_Line := 24\<rparr>) ?s (line_feed t)"
    using scrolled_grid [OF t] True by (simp add: shows_terminal_def line_feed_def)
  ultimately show ?thesis using True by (simp add: scroll_if_below_ok [OF v])
next
  case False
  then show ?thesis using t r by (simp add: scroll_if_below_ok [OF v] shows_terminal_def line_feed_def)
qed

text \<open>Where the bytes of two cells coincide.\<close>

lemma cell_eq_iff:
  assumes "c < 80" "c' < 80"
  shows "160 * r + 2 * c = 160 * r' + 2 * c' \<longleftrightarrow> r = r' \<and> c = (c' :: nat)"
proof (cases r r' rule: linorder_cases)
  case less
  then have "160 * r + 160 \<le> 160 * r'" by linarith
  then show ?thesis using assms less by linarith
next
  case greater
  then have "160 * r' + 160 \<le> 160 * r" by linarith
  then show ?thesis using assms greater by linarith
qed auto

lemma cell_parity:
  "160 * r + 2 * c \<noteq> 160 * r' + 2 * c' + 1" "160 * r + 2 * c + 1 \<noteq> 160 * r' + 2 * (c' :: nat)"
  by (rule notI, drule arg_cong [where f = even], simp)+

lemma Screen_PrintChar_ok:
  assumes v: "video_ok s" and t: "shows_terminal k s t"
  shows "\<exists>k' s'. Screen_PrintChar c k s = ret (k', s') \<and> shows_terminal k' s' (put_char (con_Color k) c t) \<and>
    con_Color k' = con_Color k \<and> s' = with_video (video s') s"
proof -
  note T = t [unfolded shows_terminal_def]
  have below: "scroll_if_below k s = ret (k, s)" if "con_Line k < 25" for k s
    using that by (simp add: scroll_if_below_def)
  consider "c = 10" | "c = 13" | "c \<noteq> 10" "c \<noteq> 13" by blast
  then show ?thesis
  proof cases
    case 1
    then show ?thesis using after_char [OF v, of t k] T by (simp add: Screen_PrintChar_def wrap_column_def put_char_def)
  next
    case 2
    then show ?thesis using T by (simp add: Screen_PrintChar_def wrap_column_def put_char_def below shows_terminal_def)
  next
    case 3
    let ?i = "160 * row t + 2 * column t"
    let ?s1 = "with_video ((video s)(?i := c)) s"
    let ?s2 = "with_video ((video s)(?i := c, ?i + 1 := con_Color k)) s"
    have i: "?i \<le> 3998" using T by simp
    have p: "SCREEN_PTR + of_int ((con_Column k + con_Line k * COLUMNS) * 2) = SCREEN_PTR + of_nat ?i"
    proof -
      have "(con_Column k + con_Line k * COLUMNS) * 2 = int ?i" using T by simp
      then show ?thesis by (simp only: of_int_of_nat_eq)
    qed
    have w1: "vwrite8 (SCREEN_PTR + of_nat ?i) c s = ret ?s1" using i by (intro screen_write [OF v]) simp
    have "vwrite8 (SCREEN_PTR + of_nat (?i + 1)) (con_Color k) ?s1 = ret ?s2"
      using i by (subst screen_write [OF video_ok_with_video [OF v]]) (auto intro!: with_video_cong simp: video_with_video)
    moreover have "SCREEN_PTR + of_nat ?i + 1 = SCREEN_PTR + of_nat (?i + 1)" by (simp only: of_nat_add of_nat_1 add.assoc)
    ultimately have w2: "vwrite8 (SCREEN_PTR + of_nat ?i + 1) (con_Color k) ?s1 = ret ?s2" by (simp only:)
    let ?t = "t\<lparr>grid := (grid t)(row t := (grid t (row t))(column t := (c, con_Color k)))\<rparr>"
    have g: "\<forall>r \<le> 26. \<forall>c < 80. grid ?t r c = (video ?s2 (160 * r + 2 * c), video ?s2 (160 * r + 2 * c + 1))"
    proof (intro allI impI)
      fix r j :: nat
      assume rj: "r \<le> 26" "j < 80"
      note e = cell_eq_iff [OF rj(2), of "column t" r "row t"] cell_parity [of r j "row t" "column t"]
      have old: "grid t r j = (video s (160 * r + 2 * j), video s (160 * r + 2 * j + 1))" using rj T by simp
      show "grid ?t r j = (video ?s2 (160 * r + 2 * j), video ?s2 (160 * r + 2 * j + 1))"
      proof (cases "r = row t \<and> j = column t")
        case True
        then show ?thesis using i by (simp add: video_with_video)
      next
        case False
        have "160 * r + 2 * j \<noteq> ?i" using False e(1) T by simp
        moreover have "grid ?t r j = grid t r j" using False by auto
        ultimately show ?thesis using rj e(2,3) old by (simp only: video_with_video) simp
      qed
    qed
    have s2: "?s2 = with_video (video ?s2) s" by (rule with_video_cong) (simp add: video_with_video)
    have start: "Screen_PrintChar c k s = scroll_if_below (wrap_column (k\<lparr>con_Column := con_Column k + 1\<rparr>)) ?s2"
    proof -
      have k: "wrap_column k = k" "scroll_if_below k s = ret (k, s)" using T by (simp_all add: wrap_column_def below)
      show ?thesis by (simp only: Screen_PrintChar_def 3 if_False andThen_ret prod.case Let_def k p w1 w2)
    qed
    show ?thesis
    proof (cases "column t = 79")
      case True
      have row: "row ?t < 25" using T by simp
      have "wrap_column (k\<lparr>con_Column := con_Column k + 1\<rparr>) = k\<lparr>con_Line := int (row ?t) + 1, con_Column := 0\<rparr>"
        using True T by (simp add: wrap_column_def)
      moreover obtain k' s' where "scroll_if_below (k\<lparr>con_Line := int (row ?t) + 1, con_Column := 0\<rparr>) ?s2 = ret (k', s')"
          "shows_terminal k' s' (line_feed ?t)" "con_Color k' = con_Color k" "s' = with_video (video s') ?s2"
        using after_char [OF video_ok_with_video [OF v] g row, of k] by blast
      ultimately show ?thesis using True 3 unfolding start by (auto simp: put_char_def Let_def)
    next
      case False
      then have "con_Column k + 1 \<le> 79" using T by simp
      then show ?thesis using False 3 T g s2 unfolding start
        by (simp add: wrap_column_def below put_char_def Let_def shows_terminal_def)
    qed
  qed
qed

subsection \<open>A serial line\<close>

text \<open>
  What the driver relies on, from the documentation of the 16550: bit 0 of the line status says that a byte has been
  received, bit 5 that one can be sent; the data register holds the byte received, and writing it sends a byte. What is seen of a device
  state are the bytes the other end will have sent, those it got, and how often the status will still say to wait.
\<close>

record 'd uart =
  rx :: "'d \<Rightarrow> u8 list"
  rx_wait :: "'d \<Rightarrow> nat"
  tx :: "'d \<Rightarrow> u8 list"
  tx_wait :: "'d \<Rightarrow> nat"

definition line_status :: "'d uart \<Rightarrow> 'd \<Rightarrow> u8 \<times> 'd \<Rightarrow> bool" where
  "line_status U d sd \<longleftrightarrow> (case sd of (st, d') \<Rightarrow> rx U d' = rx U d \<and> tx U d' = tx U d \<and>
     (st AND 1 \<noteq> 0 \<longleftrightarrow> rx U d \<noteq> [] \<and> rx_wait U d = 0) \<and> (st AND 0x20 \<noteq> 0 \<longleftrightarrow> tx_wait U d = 0) \<and>
     (if rx_wait U d = 0 then rx_wait U d' = 0 else rx_wait U d' < rx_wait U d) \<and>
     (if tx_wait U d = 0 then tx_wait U d' = 0 else tx_wait U d' < tx_wait U d))"

definition serial_line :: "('d, 'm) ports_scheme \<Rightarrow> u16 \<Rightarrow> 'd uart \<Rightarrow> bool" where
  "serial_line M port U \<longleftrightarrow> (\<forall>d. line_status U d (inb M (port + 5) d)) \<and>
     (\<forall>d b bs. rx U d = b # bs \<longrightarrow> rx_wait U d = 0 \<longrightarrow>
        fst (inb M port d) = b \<and> rx U (snd (inb M port d)) = bs \<and> tx U (snd (inb M port d)) = tx U d) \<and>
     (\<forall>d c. tx_wait U d = 0 \<longrightarrow> rx U (outb M port c d) = rx U d \<and> tx U (outb M port c d) = tx U d @ [c])"

lemma wait_data_ok:
  assumes L: "serial_line M port U"
  shows "rx U d \<noteq> [] \<Longrightarrow> \<exists>d'. wait_data M port d = ret d' \<and> rx U d' = rx U d \<and> tx U d' = tx U d \<and> rx_wait U d' = 0"
proof (induction "rx_wait U d" arbitrary: d rule: less_induct)
  case less
  obtain st d' where i: "inb M (port + 5) d = (st, d')" by (cases "inb M (port + 5) d")
  have law: "line_status U d (st, d')" using L i unfolding serial_line_def by metis
  show ?case
  proof (cases "rx_wait U d = 0")
    case True
    with law less.prems show ?thesis by (subst wait_data.simps) (simp add: i ReceivedData_def line_status_def)
  next
    case False
    then have "rx_wait U d' < rx_wait U d" "rx U d' \<noteq> []" using law less.prems by (auto simp: line_status_def)
    from less.hyps [OF this] False law show ?thesis
      by (subst wait_data.simps) (simp add: i ReceivedData_def line_status_def)
  qed
qed

lemma wait_empty_ok:
  assumes L: "serial_line M port U"
  shows "\<exists>d'. wait_empty M port d = ret d' \<and> rx U d' = rx U d \<and> tx U d' = tx U d \<and> tx_wait U d' = 0"
proof (induction "tx_wait U d" arbitrary: d rule: less_induct)
  case less
  obtain st d' where i: "inb M (port + 5) d = (st, d')" by (cases "inb M (port + 5) d")
  have law: "line_status U d (st, d')" using L i unfolding serial_line_def by metis
  show ?case
  proof (cases "tx_wait U d = 0")
    case True
    with law show ?thesis by (subst wait_empty.simps) (simp add: i IsTransmitEmpty_def line_status_def)
  next
    case False
    then have "tx_wait U d' < tx_wait U d" using law by (simp add: line_status_def)
    from less.hyps [OF this] False law show ?thesis
      by (subst wait_empty.simps) (simp add: i IsTransmitEmpty_def line_status_def)
  qed
qed

lemma Serial_ReadByte_ok:
  assumes L: "serial_line M port U" and d: "rx U d = b # bs"
  obtains d' where "Serial_ReadByte M port d = ret (b, d')" "rx U d' = bs" "tx U d' = tx U d"
proof -
  obtain d1 where d1: "wait_data M port d = ret d1" "rx U d1 = b # bs" "tx U d1 = tx U d" "rx_wait U d1 = 0"
    using wait_data_ok [OF L, of d] d by auto
  then have "fst (inb M port d1) = b" "rx U (snd (inb M port d1)) = bs" "tx U (snd (inb M port d1)) = tx U d1"
    using L unfolding serial_line_def by metis+
  with d1 that show thesis by (metis Serial_ReadByte_def andThen_ret prod.collapse)
qed

lemma Serial_WriteByte_ok:
  assumes L: "serial_line M port U"
  obtains d' where "Serial_WriteByte M port c d = ret d'" "rx U d' = rx U d" "tx U d' = tx U d @ [c]"
proof -
  obtain d1 where d1: "wait_empty M port d = ret d1" "rx U d1 = rx U d" "tx U d1 = tx U d" "tx_wait U d1 = 0"
    using wait_empty_ok [OF L, of d] by blast
  then have "rx U (outb M port c d1) = rx U d1" "tx U (outb M port c d1) = tx U d1 @ [c]"
    using L unfolding serial_line_def by metis+
  with d1 that show thesis by (simp add: Serial_WriteByte_def)
qed

text \<open>When the other end sends nothing more, the driver waits for ever.\<close>

lemma wait_data_blocks:
  assumes L: "serial_line M port U"
  shows "rx U d = [] \<Longrightarrow> wait_data M port d = diverge"
proof -
  have "M' = M \<and> port' = port \<longrightarrow> rx U d \<noteq> []" if "wait_data M' port' d = Some r" for M' port' d r
  proof (rule wait_data.raw_induct [OF _ that, of "\<lambda>M' port' d r. M' = M \<and> port' = port \<longrightarrow> rx U d \<noteq> []"])
    fix f M' port' d r
    assume IH: "\<And>M' port' d r. f M' port' d = Some r \<Longrightarrow> M' = M \<and> port' = port \<longrightarrow> rx U d \<noteq> []"
      and f: "(if fst (ReceivedData M' port' d) = 0 then f M' port' (snd (ReceivedData M' port' d))
        else ret (snd (ReceivedData M' port' d))) = Some r"
    obtain st d' where i: "inb M (port + 5) d = (st, d')" by (cases "inb M (port + 5) d")
    have "line_status U d (st, d')" using L i unfolding serial_line_def by metis
    then show "M' = M \<and> port' = port \<longrightarrow> rx U d \<noteq> []" using f IH [of M port d' r] i
      by (auto simp: ReceivedData_def line_status_def split: if_splits)
  qed
  then show "rx U d = [] \<Longrightarrow> wait_data M port d = diverge" by (cases "wait_data M port d") auto
qed

subsection \<open>Printing a text\<close>

lemma Screen_PrintChar_cursor:
  assumes "Screen_PrintChar c k s = ret (k', s')"
  shows "con_CursorEnabled k' = con_CursorEnabled k"
proof -
  have 1: "con_CursorEnabled (wrap_column k) = con_CursorEnabled k" for k by (simp add: wrap_column_def)
  have 2: "scroll_if_below k s = ret (k', s') \<Longrightarrow> con_CursorEnabled k' = con_CursorEnabled k" for k s k' s'
    by (auto simp: scroll_if_below_def andThen_eq_ret_iff split: if_splits)
  show ?thesis using assms
    by (auto simp: Screen_PrintChar_def andThen_eq_ret_iff 1 Let_def dest!: 2 split: if_splits)
qed

lemma printChar_ok:
  assumes v: "video_ok s" and t: "shows_terminal k s t" and L: "serial_line M COM1_PORT U" and m: "FlagOn mode LOG_SCREEN"
  obtains k' s' d' where "printChar M mode c (k, s, d) = ret (k', s', d')" "shows_terminal k' s' (put_char (con_Color k) c t)"
    "con_Color k' = con_Color k" "con_CursorEnabled k' = con_CursorEnabled k" "s' = with_video (video s') s" "rx U d' = rx U d"
    "tx U d' = tx U d @ (if FlagOn mode LOG_SERIAL then [c] else [])"
proof -
  obtain k' s' where p: "Screen_PrintChar c k s = ret (k', s')" "shows_terminal k' s' (put_char (con_Color k) c t)"
      "con_Color k' = con_Color k" "s' = with_video (video s') s"
    using Screen_PrintChar_ok [OF v t] by blast
  obtain d' where "Serial_WriteByte M COM1_PORT c d = ret d'" "rx U d' = rx U d" "tx U d' = tx U d @ [c]"
    by (rule Serial_WriteByte_ok [OF L])
  with p Screen_PrintChar_cursor [OF p(1)] m that show thesis by (cases "FlagOn mode LOG_SERIAL") (simp_all add: printChar_def)
qed

lemma print_text_ok:
  assumes "video_ok s" and "shows_terminal k s t" and "serial_line M COM1_PORT U" and "FlagOn mode LOG_SCREEN"
  shows "\<exists>k' s' d'. print_text M mode cs (k, s, d) = ret (k', s', d') \<and>
    shows_terminal k' s' (fold (put_char (con_Color k)) cs t) \<and> s' = with_video (video s') s \<and>
    con_Color k' = con_Color k \<and> con_CursorEnabled k' = con_CursorEnabled k \<and> tx U d' = tx U d @ (if FlagOn mode LOG_SERIAL then cs else []) \<and> rx U d' = rx U d"
  using assms(1,2)
proof (induction cs arbitrary: k s t d)
  case (Cons c cs)
  obtain k1 s1 d1 where p: "printChar M mode c (k, s, d) = ret (k1, s1, d1)" "shows_terminal k1 s1 (put_char (con_Color k) c t)"
      "con_Color k1 = con_Color k" "con_CursorEnabled k1 = con_CursorEnabled k" "s1 = with_video (video s1) s" "rx U d1 = rx U d"
      "tx U d1 = tx U d @ (if FlagOn mode LOG_SERIAL then [c] else [])"
    using printChar_ok [OF Cons.prems assms(3,4)] by blast
  have "video_ok s1" using video_ok_with_video [OF Cons.prems(1)] p(5) by metis
  from Cons.IH [OF this p(2), of d1] obtain k' s' d' where
    "print_text M mode cs (k1, s1, d1) = ret (k', s', d')" "shows_terminal k' s' (fold (put_char (con_Color k)) cs (put_char (con_Color k) c t))"
    "s' = with_video (video s') s1" "con_Color k' = con_Color k" "con_CursorEnabled k' = con_CursorEnabled k1" "tx U d' = tx U d1 @ (if FlagOn mode LOG_SERIAL then cs else [])" "rx U d' = rx U d1"
    unfolding p(3) by blast
  moreover have "with_video (video s') s1 = with_video (video s') s" by (subst p(5)) simp
  ultimately show ?case using p by simp
qed simp

text \<open>C39: Printing a text on the kernel's devices: the screen shows it as a terminal of 25 lines of 80 characters does, with
  line feeds, returns, wrapping and scrolling, in the color that is set; when the logger has the serial port on, the other end of the line
  gets exactly the characters, in order. Nothing but the video memory changes, and printing always returns. When the screen scrolls
  its last line is not cleared: it takes what the video memory holds behind the screen.\<close>

theorem print_text_shows:
  assumes "video_ok s" and "shows_terminal k s t" and "serial_line M COM1_PORT U" and "FlagOn mode LOG_SCREEN"
  shows "\<exists>k' s' d'. print_text M mode cs (k, s, d) = ret (k', s', d') \<and>
    shows_terminal k' s' (fold (put_char (con_Color k)) cs t) \<and> s' = with_video (video s') s \<and>
    tx U d' = tx U d @ (if FlagOn mode LOG_SERIAL then cs else []) \<and> rx U d' = rx U d"
  using print_text_ok [OF assms, of cs d] by (elim exE conjE) (intro exI conjI)

text \<open>A machine whose memory is empty, without paging, and a line that is always ready and keeps what is sent.\<close>

definition blank_machine :: machine where
  "blank_machine = \<lparr>memBitmap = (\<lambda>_. 0), pmem = (\<lambda>_. 0), cr3 = 0, paging = False, s_SavedPageDirectoryEntry = 0\<rparr>"

definition echo_ports :: "u8 list ports" where
  "echo_ports = \<lparr>inb = (\<lambda>p d. (0x20, d)), outb = (\<lambda>p c d. d @ [c]), inw = (\<lambda>p d. (0, d)), outw = (\<lambda>p w d. d)\<rparr>"

theorem print_text_shows_witness:
  "\<exists>k s d. print_text echo_ports 3 [72, 105, 10] (console_start\<lparr>con_Line := 0, con_Column := 0\<rparr>, blank_machine, []) = ret (k, s, d) \<and>
     con_Line k = 1 \<and> con_Column k = 0 \<and> video s 0 = 72 \<and> video s 1 = 7 \<and> video s 2 = 105 \<and> d = [72, 105, 10]"
proof -
  let ?k = "console_start\<lparr>con_Line := 0, con_Column := 0\<rparr>" and ?t = "\<lparr>grid = (\<lambda>r c. (0, 0)), row = 0, column = 0\<rparr>"
  let ?U = "\<lparr>rx = (\<lambda>_. []), rx_wait = (\<lambda>_. 0), tx = (\<lambda>d. d), tx_wait = (\<lambda>_. 0)\<rparr>"
  have v: "video_ok blank_machine" by (simp add: video_ok_def blank_machine_def mmu_def)
  have t: "shows_terminal ?k blank_machine ?t" by (simp add: shows_terminal_def video_def blank_machine_def)
  have L: "serial_line echo_ports COM1_PORT ?U" by (simp add: serial_line_def line_status_def echo_ports_def)
  have m: "FlagOn 3 LOG_SCREEN" "FlagOn 3 LOG_SERIAL" by (simp_all add: FlagOn_def)
  obtain k s d where p: "print_text echo_ports 3 [72, 105, 10] (?k, blank_machine, []) = ret (k, s, d)"
      "shows_terminal k s (fold (put_char (con_Color ?k)) [72, 105, 10] ?t)" "tx ?U d = tx ?U [] @ [72, 105, 10]"
    using print_text_shows [OF v t L m(1), of "[72, 105, 10]" "[]"] m(2) by auto
  have f: "fold (put_char (con_Color ?k)) [72, 105, 10] ?t =
      \<lparr>grid = (\<lambda>r c. (0, 0))(0 := (\<lambda>c. (0, 0))(0 := (72, 7), 1 := (105, 7))), row = 1, column = 0\<rparr>"
    by (simp add: put_char_def line_feed_def console_start_def)
  have g: "((\<lambda>r c. (0, 0))(0 := (\<lambda>c. (0, 0))(0 := (72, 7), 1 := (105, 7)))) r c =
      (video s (160 * r + 2 * c), video s (160 * r + 2 * c + 1))" if "r \<le> 26" "c < 80" for r c
    using p(2) that unfolding f shows_terminal_def terminal.simps by blast
  have "(72, 7) = (video s 0, video s 1)" "(105, 7) = (video s 2, video s 3)"
    using g [of 0 0] g [of 0 1] by (simp_all add: numeral_2_eq_2 numeral_3_eq_3)
  moreover have "con_Line k = 1" "con_Column k = 0" using p(2) unfolding f by (simp_all add: shows_terminal_def)
  ultimately show ?thesis using p by auto
qed

end
