(* ===== verification/Debug_Link.thy ===== *)
theory Debug_Link
  imports Kernel_Devices Processes
begin

section \<open>The link of the kernel debugger\<close>

text \<open>
  \<^verbatim>\<open>kernel/debug/LtDbgCom.cpp\<close>: packets on the second serial port. A packet is its size and its bytes;
  requests and responses are structures copied to and from buffers of the kernel heap. Local variables are passed as records; pointers
  to them are options.
\<close>

subsection \<open>Data\<close>

abbreviation (input) CMD_CONNECT :: u32 where "CMD_CONNECT \<equiv> 0"
abbreviation (input) CMD_STEP :: u32 where "CMD_STEP \<equiv> 1"
abbreviation (input) CMD_CONTINUE :: u32 where "CMD_CONTINUE \<equiv> 2"
abbreviation (input) CMD_QUIT :: u32 where "CMD_QUIT \<equiv> 3"
abbreviation (input) CMD_REGISTERS :: u32 where "CMD_REGISTERS \<equiv> 4"
abbreviation (input) CMD_DISASS :: u32 where "CMD_DISASS \<equiv> 5"
abbreviation (input) CMD_STACK_TRACE :: u32 where "CMD_STACK_TRACE \<equiv> 6"
abbreviation (input) CMD_MEMORY :: u32 where "CMD_MEMORY \<equiv> 7"
abbreviation (input) CMD_BP :: u32 where "CMD_BP \<equiv> 8"
abbreviation (input) CMD_IDT :: u32 where "CMD_IDT \<equiv> 10"
abbreviation (input) CMD_UNKNOWN :: u32 where "CMD_UNKNOWN \<equiv> 11"

datatype KeDebugStatus = DBG_STATUS_SUCCESS | DBG_STATUS_FAILURE | DBG_STATUS_ALREADY_CONNECTED
  | DBG_STATUS_BREAKPOINT_REACHED | DBG_STATUS_WRONG_PARAMETER | DBG_STATUS_MEMORY_UNAVAILABLE

fun debug_status_value :: "KeDebugStatus \<Rightarrow> u32" where
  "debug_status_value DBG_STATUS_SUCCESS = 0"
| "debug_status_value DBG_STATUS_FAILURE = 1"
| "debug_status_value DBG_STATUS_ALREADY_CONNECTED = 2"
| "debug_status_value DBG_STATUS_BREAKPOINT_REACHED = 3"
| "debug_status_value DBG_STATUS_WRONG_PARAMETER = 4"
| "debug_status_value DBG_STATUS_MEMORY_UNAVAILABLE = 5"

text \<open>The registers at the interrupt; two bytes of padding follow \<^verbatim>\<open>cs\<close>.\<close>

record KeDebugContext =
  dc_cr3 :: u32
  dc_cr2 :: u32
  dc_cr0 :: u32
  dc_gs :: u32
  dc_fs :: u32
  dc_es :: u32
  dc_ds :: u32
  dc_ss :: u32
  dc_edi :: u32
  dc_esi :: u32
  dc_ebp :: u32
  dc_esp :: u32
  dc_ebx :: u32
  dc_edx :: u32
  dc_ecx :: u32
  dc_eax :: u32
  dc_eip :: u32
  dc_cs :: u16
  dc_padding :: u16
  dc_eflags :: u32

record KeDebugPacket =
  packet_size :: u32
  packet_content :: addr

record KeDebugRequest =
  req_command :: u32
  req_paramSize :: u32
  req_param :: addr

record KeDebugResponseHeader =
  rh_command :: u32
  rh_status :: KeDebugStatus
  rh_context :: KeDebugContext
  rh_processName :: cstr
  rh_dataSize :: u32

record KeDebugResponse =
  resp_header :: KeDebugResponseHeader
  resp_data :: addr

abbreviation sizeof_KeDebugResponseHeader :: u32 where "sizeof_KeDebugResponseHeader \<equiv> 600"

text \<open>Structures as they lie in memory.\<close>

definition u32_bytes :: "u32 \<Rightarrow> u8 list" where
  "u32_bytes w = [ucast w, ucast (drop_bit 8 w), ucast (drop_bit 16 w), ucast (drop_bit 24 w)]"

definition u16_bytes :: "u16 \<Rightarrow> u8 list" where
  "u16_bytes w = [ucast w, ucast (drop_bit 8 w)]"

definition bytes_u32 :: "u8 list \<Rightarrow> u32" where
  "bytes_u32 bs = ucast (bs ! 0) OR push_bit 8 (ucast (bs ! 1)) OR push_bit 16 (ucast (bs ! 2)) OR push_bit 24 (ucast (bs ! 3))"

definition context_bytes :: "KeDebugContext \<Rightarrow> u8 list" where
  "context_bytes c = concat (map u32_bytes
     [dc_cr3 c, dc_cr2 c, dc_cr0 c, dc_gs c, dc_fs c, dc_es c, dc_ds c, dc_ss c, dc_edi c, dc_esi c, dc_ebp c, dc_esp c,
      dc_ebx c, dc_edx c, dc_ecx c, dc_eax c, dc_eip c]) @ u16_bytes (dc_cs c) @ u16_bytes (dc_padding c) @ u32_bytes (dc_eflags c)"

definition header_bytes :: "KeDebugResponseHeader \<Rightarrow> u8 list" where
  "header_bytes h = u32_bytes (rh_command h) @ u32_bytes (debug_status_value (rh_status h)) @ context_bytes (rh_context h) @
     rh_processName h @ u32_bytes (rh_dataSize h)"

subsection \<open>State\<close>

record 'd debugger = tasks +
  serial_dev :: 'd
  idt_info :: IdtInfo
  dbg_isInitialized :: bool
  dbg_isConnected :: bool

subsection \<open>Bytes\<close>

definition Com_ReadByte :: "('d, 'm) ports_scheme \<Rightarrow> ('d, 'z) debugger_scheme \<Rightarrow> (u8 \<times> ('d, 'z) debugger_scheme) exec" where
  "Com_ReadByte M s = andThen (Serial_ReadByte M COM2_PORT (serial_dev s)) (\<lambda>(b, d). ret (b, s\<lparr>serial_dev := d\<rparr>))"

definition Com_WriteByte :: "('d, 'm) ports_scheme \<Rightarrow> u8 \<Rightarrow> ('d, 'z) debugger_scheme \<Rightarrow> ('d, 'z) debugger_scheme exec" where
  "Com_WriteByte M b s = andThen (Serial_WriteByte M COM2_PORT b (serial_dev s)) (\<lambda>d. ret (s\<lparr>serial_dev := d\<rparr>))"

text \<open>\<^verbatim>\<open>ReadBytes\<close> into a local variable, whose new bytes are the result, and into a buffer.\<close>

fun Com_ReadBytes_local ::
  "('d, 'm) ports_scheme \<Rightarrow> nat \<Rightarrow> ('d, 'z) debugger_scheme \<Rightarrow> (u8 list \<times> ('d, 'z) debugger_scheme) exec" where
  "Com_ReadBytes_local M 0 s = ret ([], s)"
| "Com_ReadBytes_local M (Suc n) s = andThen (Com_ReadByte M s) (\<lambda>(b, s1).
     andThen (Com_ReadBytes_local M n s1) (\<lambda>(bs, s2). ret (b # bs, s2)))"

definition store_byte :: "addr \<Rightarrow> u8 \<Rightarrow> ('d, 'z) debugger_scheme \<Rightarrow> ('d, 'z) debugger_scheme exec" where
  "store_byte p b s = andThen (vwrite8 p b (lheap s)) (\<lambda>h. ret (s\<lparr>lheap := h\<rparr>))"

fun read_loop :: "('d, 'm) ports_scheme \<Rightarrow> addr \<Rightarrow> nat \<Rightarrow> ('d, 'z) debugger_scheme \<Rightarrow> ('d, 'z) debugger_scheme exec" where
  "read_loop M buffer 0 s = ret s"
| "read_loop M buffer (Suc n) s = andThen (Com_ReadByte M s) (\<lambda>(b, s1).
     andThen (store_byte buffer b s1) (read_loop M (buffer + 1) n))"

definition Com_ReadBytes :: "('d, 'm) ports_scheme \<Rightarrow> addr \<Rightarrow> u32 \<Rightarrow> ('d, 'z) debugger_scheme \<Rightarrow> ('d, 'z) debugger_scheme exec" where
  "Com_ReadBytes M buffer sz s = (if buffer = nullptr then ret s else read_loop M buffer (unat sz) s)"

text \<open>\<^verbatim>\<open>WriteBytes\<close> from a local variable, and from a buffer.\<close>

fun Com_WriteBytes_local :: "('d, 'm) ports_scheme \<Rightarrow> u8 list \<Rightarrow> ('d, 'z) debugger_scheme \<Rightarrow> ('d, 'z) debugger_scheme exec" where
  "Com_WriteBytes_local M [] s = ret s"
| "Com_WriteBytes_local M (b # bs) s = andThen (Com_WriteByte M b s) (Com_WriteBytes_local M bs)"

fun Com_WriteBytes :: "('d, 'm) ports_scheme \<Rightarrow> addr \<Rightarrow> nat \<Rightarrow> ('d, 'z) debugger_scheme \<Rightarrow> ('d, 'z) debugger_scheme exec" where
  "Com_WriteBytes M buffer 0 s = ret s"
| "Com_WriteBytes M buffer (Suc n) s = andThen (vread8 (lheap s) buffer) (\<lambda>b.
     andThen (Com_WriteByte M b s) (Com_WriteBytes M (buffer + 1) n))"

subsection \<open>Packets\<close>

definition RecvPacket ::
  "('d, 'm) ports_scheme \<Rightarrow> KeDebugPacket option \<Rightarrow> ('d, 'z) debugger_scheme \<Rightarrow>
   (KeStatus \<times> KeDebugPacket option \<times> ('d, 'z) debugger_scheme) exec" where
  "RecvPacket M packet s = (case packet of None \<Rightarrow> ret (STATUS_NULL_PARAMETER, packet, s)
   | Some pk \<Rightarrow> andThen (Com_ReadBytes_local M 4 s) (\<lambda>(bs, s1). let sz = bytes_u32 bs in
       if sz = 0 then ret (STATUS_SUCCESS, Some (pk\<lparr>packet_size := sz\<rparr>), s1)
       else andThen (in_kernel (HeapAlloc (sint sz)) s1) (\<lambda>(content, s2).
         if content = nullptr then ret (STATUS_ALLOC_FAILED, Some (pk\<lparr>packet_size := 0, packet_content := content\<rparr>), s2)
         else andThen (Com_ReadBytes M content sz s2) (\<lambda>s3.
           ret (STATUS_SUCCESS, Some (pk\<lparr>packet_size := sz, packet_content := content\<rparr>), s3)))))"

definition SendPacket ::
  "('d, 'm) ports_scheme \<Rightarrow> KeDebugPacket option \<Rightarrow> ('d, 'z) debugger_scheme \<Rightarrow> (KeStatus \<times> ('d, 'z) debugger_scheme) exec" where
  "SendPacket M packet s = (case packet of None \<Rightarrow> ret (STATUS_NULL_PARAMETER, s)
   | Some pk \<Rightarrow>
       if packet_content pk = nullptr then ret (STATUS_INVALID_PARAMETER, s)
       else if packet_size pk = 0 then ret (STATUS_INVALID_PARAMETER, s)
       else andThen (Com_WriteBytes_local M (u32_bytes (packet_size pk)) s) (\<lambda>s1.
         andThen (Com_WriteBytes M (packet_content pk) (unat (packet_size pk)) s1) (\<lambda>s2. ret (STATUS_SUCCESS, s2))))"

definition CleanupPacket ::
  "KeDebugPacket option \<Rightarrow> ('d, 'z) debugger_scheme \<Rightarrow> (KeDebugPacket option \<times> ('d, 'z) debugger_scheme) exec" where
  "CleanupPacket packet s = (case packet of None \<Rightarrow> ret (packet, s)
   | Some pk \<Rightarrow>
       if packet_content pk \<noteq> nullptr
       then andThen (free_obj (packet_content pk) s) (\<lambda>s1. ret (Some (pk\<lparr>packet_content := nullptr\<rparr>), s1))
       else ret (packet, s))"

subsection \<open>Requests and responses\<close>

text \<open>
  An empty packet leaves the request as it was. The parameters of a request follow its first two
  members in the packet, where the structure has the pointer to them.
\<close>

definition RecvRequest ::
  "('d, 'm) ports_scheme \<Rightarrow> KeDebugRequest \<Rightarrow> ('d, 'z) debugger_scheme \<Rightarrow> (KeStatus \<times> KeDebugRequest \<times> ('d, 'z) debugger_scheme) exec" where
  "RecvRequest M request s =
     andThen (RecvPacket M (Some \<lparr>packet_size = 0, packet_content = nullptr\<rparr>) s) (\<lambda>(status, packet, s1).
       if status \<noteq> STATUS_SUCCESS then ret (status, request, s1)
       else if packet_size (the packet) = 0 \<or> packet_content (the packet) = nullptr then ret (STATUS_SUCCESS, request, s1)
       else let ptrRequest = packet_content (the packet) in
         andThen (vread32 (lheap s1) ptrRequest) (\<lambda>command.
         andThen (vread32 (lheap s1) (ptrRequest + 4)) (\<lambda>paramSize.
           let request1 = request\<lparr>req_command := command, req_paramSize := paramSize\<rparr> in
           if paramSize > 0 then
             andThen (in_kernel (HeapAlloc (sint paramSize)) s1) (\<lambda>(param, s2).
               if param = nullptr then ret (STATUS_ALLOC_FAILED, request1\<lparr>req_param := param\<rparr>, s2)
               else andThen (vMemCopy (ptrRequest + 8) param (unat paramSize) (lheap s2)) (\<lambda>h.
                 andThen (CleanupPacket packet (s2\<lparr>lheap := h\<rparr>)) (\<lambda>(_, s3).
                   ret (STATUS_SUCCESS, request1\<lparr>req_param := param\<rparr>, s3))))
           else andThen (CleanupPacket packet s1) (\<lambda>(_, s2). ret (STATUS_SUCCESS, request1\<lparr>req_param := nullptr\<rparr>, s2)))))"

fun vwrite_bytes :: "addr \<Rightarrow> u8 list \<Rightarrow> 'z machine_scheme \<Rightarrow> 'z machine_scheme exec" where
  "vwrite_bytes p [] h = ret h"
| "vwrite_bytes p (b # bs) h = andThen (vwrite8 p b h) (vwrite_bytes (p + 1) bs)"

definition SendResponse ::
  "('d, 'm) ports_scheme \<Rightarrow> KeDebugResponse option \<Rightarrow> ('d, 'z) debugger_scheme \<Rightarrow> (KeStatus \<times> ('d, 'z) debugger_scheme) exec" where
  "SendResponse M response s = (case response of None \<Rightarrow> ret (STATUS_NULL_PARAMETER, s)
   | Some r \<Rightarrow> let dataSize = rh_dataSize (resp_header r); sz = sizeof_KeDebugResponseHeader + dataSize in
       if dataSize \<noteq> 0 \<and> resp_data r = nullptr then ret (STATUS_INVALID_PARAMETER, s)
       else andThen (in_kernel (HeapAlloc (sint sz)) s) (\<lambda>(buffer, s1).
         if buffer = nullptr then ret (STATUS_ALLOC_FAILED, s1)
         else andThen (vwrite_bytes buffer (header_bytes (resp_header r)) (lheap s1)) (\<lambda>h1.
           andThen (vMemCopy (resp_data r) (buffer + sizeof_KeDebugResponseHeader) (unat dataSize) h1) (\<lambda>h2.
             SendPacket M (Some \<lparr>packet_size = sz, packet_content = buffer\<rparr>) (s1\<lparr>lheap := h2\<rparr>)))))"

end
