(* ===== verification/Debugger.thy ===== *)
theory Debugger
  imports Debug_Link
begin

section \<open>The kernel debugger\<close>

text \<open>
  \<^verbatim>\<open>kernel/debug/LtDbg.cpp\<close>: the handlers of the debug and the breakpoint interrupt. They
  work on the registers the interrupt left on the stack, read commands from the link and answer them until one lets the
  program run. The request and the response are local variables, so their first content is a parameter.
\<close>

subsection \<open>Helpers\<close>

definition LtDbg_Init :: "u32 \<Rightarrow> u32 \<Rightarrow> ('d, 'z) debugger_scheme \<Rightarrow> ('d, 'z) debugger_scheme" where
  "LtDbg_Init debug_isr breakpoint_isr s = s\<lparr>lheap := (lheap s)\<lparr>pmem :=
     Idt_InitDescriptor breakpoint_isr DEBUG_GATE 3 (Idt_InitDescriptor debug_isr DEBUG_GATE 1 (pmem (lheap s)))\<rparr>,
     dbg_isInitialized := True\<rparr>"

definition CleanupKeDebugResponse :: "KeDebugResponse \<Rightarrow> ('d, 'z) debugger_scheme \<Rightarrow> ('d, 'z) debugger_scheme exec" where
  "CleanupKeDebugResponse response s = (if resp_data response = nullptr then ret s else free_obj (resp_data response) s)"

definition CleanupKeDebugRequest :: "KeDebugRequest \<Rightarrow> ('d, 'z) debugger_scheme \<Rightarrow> ('d, 'z) debugger_scheme exec" where
  "CleanupKeDebugRequest request s = (if req_param request = nullptr then ret s else free_obj (req_param request) s)"

text \<open>The name of the process is copied into the header.\<close>

definition UpdateKeDebugResponseWithProcessInfo ::
  "KeDebugContext option \<Rightarrow> KeDebugResponse option \<Rightarrow> ('d, 'z) debugger_scheme \<Rightarrow> (KeStatus \<times> KeDebugResponse option) exec" where
  "UpdateKeDebugResponseWithProcessInfo context response s =
     (if context = None then ret (STATUS_NULL_PARAMETER, response)
      else case response of None \<Rightarrow> ret (STATUS_NULL_PARAMETER, response)
      | Some r \<Rightarrow> andThen (GetCurrentProcess s) (\<lambda>currentProcess.
          if currentProcess = nullptr then ret (STATUS_FAILURE, response)
          else andThen (deref (processes s) currentProcess) (\<lambda>p.
            ret (STATUS_SUCCESS, Some (r\<lparr>resp_header := (resp_header r)\<lparr>rh_processName := pname p\<rparr>\<rparr>)))))"

text \<open>The answer to a command that has no data.\<close>

definition plain_response :: "u32 \<Rightarrow> KeDebugStatus \<Rightarrow> KeDebugContext \<Rightarrow> KeDebugResponse \<Rightarrow> KeDebugResponse" where
  "plain_response command status context r =
     r\<lparr>resp_header := (resp_header r)\<lparr>rh_command := command, rh_context := context, rh_dataSize := 0, rh_status := status\<rparr>,
       resp_data := nullptr\<rparr>"

text \<open>The members a command sets one at a time.\<close>

definition set_header :: "u32 \<Rightarrow> KeDebugContext \<Rightarrow> KeDebugResponse \<Rightarrow> KeDebugResponse" where
  "set_header command context r = r\<lparr>resp_header := (resp_header r)\<lparr>rh_command := command, rh_context := context\<rparr>\<rparr>"

definition set_status :: "KeDebugStatus \<Rightarrow> KeDebugResponse \<Rightarrow> KeDebugResponse" where
  "set_status status r = r\<lparr>resp_header := (resp_header r)\<lparr>rh_status := status\<rparr>\<rparr>"

definition set_data :: "u32 \<Rightarrow> addr \<Rightarrow> KeDebugResponse \<Rightarrow> KeDebugResponse" where
  "set_data sz p r = r\<lparr>resp_header := (resp_header r)\<lparr>rh_dataSize := sz\<rparr>, resp_data := p\<rparr>"

subsection \<open>Commands\<close>

text \<open>A command returns whether the program is to run, the registers, the response and the state.\<close>

type_synonym ('d, 'z) command_result = "(bool \<times> KeDebugContext \<times> KeDebugResponse \<times> ('d, 'z) debugger_scheme) exec"

definition StepCommand :: "KeDebugContext \<Rightarrow> KeDebugResponse \<Rightarrow> ('d, 'z) debugger_scheme \<Rightarrow> ('d, 'z) command_result" where
  "StepCommand context response s =
     (let context1 = context\<lparr>dc_eflags := dc_eflags context OR 0x100\<rparr> in
      ret (True, context1, plain_response CMD_STEP DBG_STATUS_SUCCESS context1 response, s))"

definition ContinueCommand :: "KeDebugContext \<Rightarrow> KeDebugResponse \<Rightarrow> ('d, 'z) debugger_scheme \<Rightarrow> ('d, 'z) command_result" where
  "ContinueCommand context response s =
     (let context1 = context\<lparr>dc_eflags := dc_eflags context AND 0x0FEFF\<rparr> in
      ret (True, context1, plain_response CMD_CONTINUE DBG_STATUS_SUCCESS context1 response, s))"

definition QuitCommand :: "KeDebugContext \<Rightarrow> KeDebugResponse \<Rightarrow> ('d, 'z) debugger_scheme \<Rightarrow> ('d, 'z) command_result" where
  "QuitCommand context response s =
     (let context1 = context\<lparr>dc_eflags := dc_eflags context AND 0x0FEFF\<rparr> in
      ret (True, context1, plain_response CMD_QUIT DBG_STATUS_SUCCESS context1 response, s))"

definition RegistersCommand :: "KeDebugContext \<Rightarrow> KeDebugResponse \<Rightarrow> ('d, 'z) debugger_scheme \<Rightarrow> ('d, 'z) command_result" where
  "RegistersCommand context response s = ret (False, context, plain_response CMD_REGISTERS DBG_STATUS_SUCCESS context response, s)"

text \<open>
  \<^verbatim>\<open>DisassCommand\<close>. The two early ways out leave the data of the response as it was, and a failed
  allocation goes on with the null pointer.
\<close>

definition DisassCommand ::
  "KeDebugRequest \<Rightarrow> KeDebugContext \<Rightarrow> KeDebugResponse \<Rightarrow> ('d, 'z) debugger_scheme \<Rightarrow> ('d, 'z) command_result" where
  "DisassCommand request context response s = (let r1 = set_header CMD_DISASS context response in
     if req_paramSize request = 0 \<or> req_param request = nullptr
     then ret (False, context, set_status DBG_STATUS_FAILURE r1, s)
     else andThen (vread32 (lheap s) (req_param request)) (\<lambda>nbInst.
       if nbInst = 0 then ret (False, context, set_status DBG_STATUS_SUCCESS r1, s)
       else let paramSize = 12 + nbInst * 20 in
         andThen (in_kernel (HeapAlloc (sint paramSize)) s) (\<lambda>(paramRes, s1).
         andThen (vwrite32 paramRes (nbInst * 20) (lheap s1)) (\<lambda>h1.
         andThen (vwrite32 (paramRes + 4) (dc_eip context) h1) (\<lambda>h2.
         andThen (vread32 h2 paramRes) (\<lambda>sz.
         andThen (vMemCopy (dc_eip context) (paramRes + 8) (unat sz) h2) (\<lambda>h3.
           ret (False, context, set_status DBG_STATUS_SUCCESS (set_data paramSize paramRes r1), s1\<lparr>lheap := h3\<rparr>))))))))"

text \<open>The loops of \<^verbatim>\<open>StackTraceCommand\<close>: following the frame pointers, and emptying the list.\<close>

partial_function (option) walk_frames ::
  "addr \<Rightarrow> addr \<Rightarrow> u32 \<Rightarrow> ('d, 'z) debugger_scheme \<Rightarrow> (u32 \<times> ('d, 'z) debugger_scheme) exec" where
  "walk_frames list frame nbPtr s =
     (if frame = nullptr then ret (nbPtr, s)
      else andThen (vread32 (lheap s) (frame + 4)) (\<lambda>a.
        andThen (ListPush HeapAlloc list a s) (\<lambda>s1.
        andThen (vread32 (lheap s1) frame) (\<lambda>next_frame. walk_frames list next_frame (nbPtr + 1) s1))))"

partial_function (option) pop_addresses ::
  "addr \<Rightarrow> u32 \<Rightarrow> addr option \<Rightarrow> ('d, 'z) debugger_scheme \<Rightarrow> (addr option \<times> ('d, 'z) debugger_scheme) exec" where
  "pop_addresses addresses index list s = andThen (ListPop HeapFree list s) (\<lambda>(a, list1, s1).
     if a \<noteq> 0 then andThen (vwrite32 (addresses + 4 * index) a (lheap s1)) (\<lambda>h.
       pop_addresses addresses (index + 1) list1 (s1\<lparr>lheap := h\<rparr>))
     else ret (list1, s1))"

definition StackTraceCommand :: "KeDebugContext \<Rightarrow> KeDebugResponse \<Rightarrow> ('d, 'z) debugger_scheme \<Rightarrow> ('d, 'z) command_result" where
  "StackTraceCommand context response s =
     andThen (ListCreate HeapAlloc s) (\<lambda>(list, s1).
     andThen (ListPush HeapAlloc list (dc_eip context) s1) (\<lambda>s2.
     andThen (walk_frames list (dc_ebp context) 1 s2) (\<lambda>(nbPtr, s3). let bufferSize = nbPtr * 4 in
     andThen (in_kernel (HeapAlloc (sint bufferSize)) s3) (\<lambda>(buffer, s4).
     andThen
       (if buffer = nullptr then ret (response, Some list, s4)
        else andThen (pop_addresses buffer 0 (Some list) s4) (\<lambda>(list1, s5).
          ret (set_status DBG_STATUS_SUCCESS (set_data bufferSize buffer (set_header CMD_STACK_TRACE context response)), list1, s5)))
       (\<lambda>(r, list1, s5).
         andThen (if the list1 \<noteq> nullptr then ListDestroy HeapFree (the list1) s5 else ret s5) (\<lambda>s6.
           ret (False, context, r, s6)))))))"

text \<open>
  \<^verbatim>\<open>MemoryCommand\<close>: the bytes of the address space of the interrupted program. Only the first and the
  last address are checked.
\<close>

definition read_memory :: "u32 \<Rightarrow> u32 \<Rightarrow> KeDebugResponse \<Rightarrow> ('d, 'z) debugger_scheme \<Rightarrow> (KeDebugResponse \<times> ('d, 'z) debugger_scheme) exec" where
  "read_memory a sz r s =
     andThen (IsVirtualAddressAvailable a (lheap s)) (\<lambda>first.
       if \<not> first then ret (set_status DBG_STATUS_MEMORY_UNAVAILABLE (set_data 0 nullptr r), s)
       else andThen (IsVirtualAddressAvailable (a + sz - 1) (lheap s)) (\<lambda>last.
         if \<not> last then ret (set_status DBG_STATUS_MEMORY_UNAVAILABLE (set_data 0 nullptr r), s)
         else andThen (in_kernel (HeapAlloc (sint sz)) s) (\<lambda>(buffer, s1).
           if buffer = nullptr then ret (set_status DBG_STATUS_FAILURE (set_data 0 nullptr r), s1)
           else andThen (vMemCopy a buffer (unat sz) (lheap s1)) (\<lambda>h.
             ret (set_data sz buffer (set_status DBG_STATUS_SUCCESS r), s1\<lparr>lheap := h\<rparr>)))))"

definition MemoryCommand ::
  "KeDebugRequest \<Rightarrow> KeDebugContext \<Rightarrow> KeDebugResponse \<Rightarrow> ('d, 'z) debugger_scheme \<Rightarrow> ('d, 'z) command_result" where
  "MemoryCommand request context response s = (let r1 = set_header CMD_MEMORY context response in
     if req_paramSize request \<noteq> 8
     then ret (False, context, set_data 0 nullptr (set_status DBG_STATUS_WRONG_PARAMETER r1), s)
     else andThen (vread32 (lheap s) (req_param request + 4)) (\<lambda>a.
       andThen (vread32 (lheap s) (req_param request)) (\<lambda>sz.
         let currentPd = GetCurrentPageDirectory (lheap s) in
         andThen (read_memory a sz r1 (s\<lparr>lheap := SetCurrentPageDirectory (dc_cr3 context) (lheap s)\<rparr>)) (\<lambda>(r, s1).
           ret (False, context, r, s1\<lparr>lheap := SetCurrentPageDirectory currentPd (lheap s1)\<rparr>)))))"

definition IdtCommand :: "KeDebugContext \<Rightarrow> KeDebugResponse \<Rightarrow> ('d, 'z) debugger_scheme \<Rightarrow> ('d, 'z) command_result" where
  "IdtCommand context response s = (let idtSize = (ucast (idt_limit (idt_info s)) :: u32) in
     andThen (in_kernel (HeapAlloc (sint idtSize)) s) (\<lambda>(descriptors, s1).
       if descriptors = nullptr
       then ret (False, context, set_status DBG_STATUS_FAILURE (set_data 0 nullptr response), s1)
       else andThen (vMemCopy (idt_base (idt_info s1)) descriptors (unat idtSize) (lheap s1)) (\<lambda>h.
         ret (False, context, set_data idtSize descriptors (set_status DBG_STATUS_SUCCESS (set_header CMD_IDT context response)),
           s1\<lparr>lheap := h\<rparr>))))"

subsection \<open>The command loop\<close>

text \<open>The switch on the command; the one for breakpoints does nothing.\<close>

definition execute_command ::
  "KeDebugRequest \<Rightarrow> KeDebugContext \<Rightarrow> KeDebugResponse \<Rightarrow> ('d, 'z) debugger_scheme \<Rightarrow> ('d, 'z) command_result" where
  "execute_command request context response s = (let command = req_command request in
     if command = CMD_STEP then StepCommand context response s
     else if command = CMD_CONTINUE then ContinueCommand context response s
     else if command = CMD_QUIT then QuitCommand context response s
     else if command = CMD_REGISTERS then RegistersCommand context response s
     else if command = CMD_DISASS then DisassCommand request context response s
     else if command = CMD_STACK_TRACE then StackTraceCommand context response s
     else if command = CMD_MEMORY then MemoryCommand request context response s
     else if command = CMD_BP then ret (False, context, response, s)
     else if command = CMD_IDT then IdtCommand context response s
     else ret (False, context, plain_response command DBG_STATUS_FAILURE context response, s))"

text \<open>One round: the request, the command, the answer unless the program is to run, the cleaning.\<close>

definition serve_request ::
  "('d, 'm) ports_scheme \<Rightarrow> KeDebugRequest \<Rightarrow> KeDebugContext \<Rightarrow> KeDebugResponse \<Rightarrow> ('d, 'z) debugger_scheme \<Rightarrow>
   ('d, 'z) command_result" where
  "serve_request M request context response s =
     andThen (execute_command request context response s) (\<lambda>(running, context1, r1, s1).
     andThen (UpdateKeDebugResponseWithProcessInfo (Some context1) (Some r1) s1) (\<lambda>(_, r2).
     andThen (if \<not> running then SendResponse M r2 s1 else ret (STATUS_SUCCESS, s1)) (\<lambda>(_, s2).
     andThen (CleanupKeDebugRequest request s2) (\<lambda>s3.
     andThen (CleanupKeDebugResponse (the r2) s3) (\<lambda>s4. ret (running, context1, the r2, s4))))))"

partial_function (option) packet_loop ::
  "('d, 'm) ports_scheme \<Rightarrow> KeDebugRequest \<Rightarrow> KeDebugContext \<Rightarrow> KeDebugResponse \<Rightarrow> ('d, 'z) debugger_scheme \<Rightarrow>
   (KeDebugContext \<times> ('d, 'z) debugger_scheme) exec" where
  "packet_loop M request context response s =
     andThen (RecvRequest M request s) (\<lambda>(status, request1, s1).
       if status \<noteq> STATUS_SUCCESS then ret (context, s1)
       else andThen (serve_request M request1 context response s1) (\<lambda>(running, context1, r, s2).
         if running then ret (context1, s2) else packet_loop M request1 context1 r s2))"

definition WaitForPacket ::
  "('d, 'm) ports_scheme \<Rightarrow> KeDebugRequest \<Rightarrow> KeDebugResponse \<Rightarrow> KeDebugContext option \<Rightarrow> ('d, 'z) debugger_scheme \<Rightarrow>
   (KeDebugContext option \<times> ('d, 'z) debugger_scheme) exec" where
  "WaitForPacket M request0 response0 context s = (case context of None \<Rightarrow> ret (None, s)
     | Some c \<Rightarrow> andThen (packet_loop M request0 c response0 s) (\<lambda>(c1, s1). ret (Some c1, s1)))"

definition BreakpointHit ::
  "('d, 'm) ports_scheme \<Rightarrow> KeDebugResponse \<Rightarrow> KeDebugContext \<Rightarrow> ('d, 'z) debugger_scheme \<Rightarrow> ('d, 'z) debugger_scheme exec" where
  "BreakpointHit M response0 context s =
     (let r = plain_response CMD_UNKNOWN DBG_STATUS_BREAKPOINT_REACHED context response0 in
      andThen (UpdateKeDebugResponseWithProcessInfo (Some context) (Some r) s) (\<lambda>(_, r1).
      andThen (SendResponse M r1 s) (\<lambda>(_, s1). ret s1)))"

text \<open>The first byte of the other end connects already; the request that follows is checked.\<close>

definition WaitForConnectCommand ::
  "('d, 'm) ports_scheme \<Rightarrow> KeDebugRequest \<Rightarrow> KeDebugResponse \<Rightarrow> KeDebugContext option \<Rightarrow> ('d, 'z) debugger_scheme \<Rightarrow>
   ('d, 'z) debugger_scheme exec" where
  "WaitForConnectCommand M request0 response0 context s = (case context of None \<Rightarrow> ret s
     | Some c \<Rightarrow> andThen (Com_ReadByte M s) (\<lambda>(byte, s1).
         let s2 = (if byte \<noteq> 1 then s1 else s1\<lparr>dbg_isConnected := True\<rparr>) in
         andThen (Com_WriteByte M 1 s2) (\<lambda>s3.
         andThen (RecvRequest M request0 s3) (\<lambda>(status, request, s4).
           if status \<noteq> STATUS_SUCCESS then ret s4
           else if req_command request \<noteq> CMD_CONNECT then ret s4
           else andThen (UpdateKeDebugResponseWithProcessInfo context
               (Some (plain_response CMD_CONNECT DBG_STATUS_SUCCESS c response0)) s4) (\<lambda>(_, r).
             andThen (SendResponse M r s4) (\<lambda>(_, s5). ret (s5\<lparr>dbg_isConnected := True\<rparr>)))))))"

subsection \<open>The interrupt handlers\<close>

text \<open>The pairs of a request and a response are the local variables of the functions called, before they are set.\<close>

definition DebugIsr ::
  "('d, 'm) ports_scheme \<Rightarrow> KeDebugResponse \<Rightarrow> KeDebugRequest \<times> KeDebugResponse \<Rightarrow> KeDebugContext \<Rightarrow> ('d, 'z) debugger_scheme \<Rightarrow>
   (KeDebugContext option \<times> ('d, 'z) debugger_scheme) exec" where
  "DebugIsr M hit0 wait0 context s =
     (if \<not> dbg_isInitialized s then ret (Some context, s)
      else if \<not> dbg_isConnected s then ret (Some context, s)
      else andThen (BreakpointHit M hit0 context s) (WaitForPacket M (fst wait0) (snd wait0) (Some context)))"

definition BreakpointIsr ::
  "('d, 'm) ports_scheme \<Rightarrow> KeDebugResponse \<Rightarrow> KeDebugRequest \<times> KeDebugResponse \<Rightarrow> KeDebugRequest \<times> KeDebugResponse \<Rightarrow>
   KeDebugContext \<Rightarrow> ('d, 'z) debugger_scheme \<Rightarrow> (KeDebugContext option \<times> ('d, 'z) debugger_scheme) exec" where
  "BreakpointIsr M hit0 connect0 wait0 context s =
     (if \<not> dbg_isInitialized s then ret (Some context, s)
      else andThen (if \<not> dbg_isConnected s then WaitForConnectCommand M (fst connect0) (snd connect0) (Some context) s
          else BreakpointHit M hit0 context s)
        (WaitForPacket M (fst wait0) (snd wait0) (Some context)))"

end
