(* ===== verification/Heap_Contents.thy ===== *)
theory Heap_Contents
  imports Debug_Link
begin

section \<open>What blocks of the kernel heap hold\<close>

text \<open>
  Code that keeps bytes in blocks of the heap relies on this: the bytes of a block in use stay what they are while
  other blocks are allocated, written and freed. \<open>holds h p bs\<close> says that the block in use at \<open>p\<close> begins with the bytes
  \<open>bs\<close>; the lemmas are the laws of the heap operations for it.
\<close>

subsection \<open>Blocks in use and their extent\<close>

definition holds :: "'z kheap_scheme \<Rightarrow> addr \<Rightarrow> u8 list \<Rightarrow> bool" where
  "holds h p bs \<longleftrightarrow> (\<exists>blks a. heap_inv h blks \<and> a \<in> used_ptrs 16777216 blks \<and> p = of_nat a \<and>
     length bs + 4 \<le> fst (hdr_at (view h) (a - 4)) \<and> (\<forall>i < length bs. view h (of_nat (a + i)) = bs ! i))"

lemma used_ptrs_block:
  assumes "tiles M b blks" "a \<in> used_ptrs b blks"
  obtains n where "hdr_at M (a - 4) = (n, True)" "5 \<le> n" "b + 4 \<le> a" "a - 4 + n \<le> b + total blks"
proof -
  obtain pre n post where d: "blks = pre @ (n, True) # post" "a = b + total pre + 4"
    using used_ptrs_split [OF assms(2)] by blast
  then show thesis using that assms(1) by simp
qed

text \<open>Two blocks in use do not overlap.\<close>

lemma used_ptrs_apart:
  assumes "tiles M b blks" "a \<in> used_ptrs b blks" "c \<in> used_ptrs b blks" "a \<noteq> c"
    and "hdr_at M (a - 4) = (n, u)" "hdr_at M (c - 4) = (m, v)"
  shows "a - 4 + n \<le> c - 4 \<or> c - 4 + m \<le> a - 4"
proof -
  obtain pre k post where d: "blks = pre @ (k, True) # post" "a = b + total pre + 4"
    using used_ptrs_split [OF assms(2)] by blast
  then have t: "tiles M b pre" "hdr_at M (b + total pre) = (k, True)" "tiles M (b + total pre + k) post" using assms(1) by auto
  have n: "n = k" using assms(5) t(2) d(2) by simp
  consider "c \<in> used_ptrs b pre" | "c \<in> used_ptrs (b + total pre + k) post" using assms(3,4) d by auto
  then show ?thesis
  proof cases
    case 1
    then obtain m' where "hdr_at M (c - 4) = (m', True)" "c - 4 + m' \<le> b + total pre" by (rule used_ptrs_block [OF t(1)])
    then show ?thesis using assms(6) d(2) by simp
  next
    case 2
    then obtain m' where "b + total pre + k + 4 \<le> c" by (rule used_ptrs_block [OF t(3)])
    moreover have "a - 4 + n = b + total pre + k" using n d(2) by simp
    ultimately show ?thesis by linarith
  qed
qed

lemma used_ptrs_outside:
  assumes "tiles M b (A @ (k, False) # rest)" "c \<in> used_ptrs b (A @ (k, False) # rest)" "hdr_at M (c - 4) = (m, v)"
  shows "c - 4 + m \<le> b + total A \<or> b + total A + k \<le> c - 4"
proof -
  have t: "tiles M b A" "tiles M (b + total A + k) rest" using assms(1) by auto
  consider "c \<in> used_ptrs b A" | "c \<in> used_ptrs (b + total A + k) rest" using assms(2) by auto
  then show ?thesis
  proof cases
    case 1
    then obtain m' where "hdr_at M (c - 4) = (m', True)" "c - 4 + m' \<le> b + total A" by (rule used_ptrs_block [OF t(1)])
    then show ?thesis using assms(3) by simp
  next
    case 2
    then obtain m' where "b + total A + k + 4 \<le> c" by (rule used_ptrs_block [OF t(2)])
    then show ?thesis by linarith
  qed
qed

text \<open>A block keeps what it holds when memory stays the same over its extent.\<close>

lemma holds_keep:
  assumes q: "holds h q bs" and inv: "heap_inv h' blks'" and mem: "\<And>blks. heap_inv h blks \<Longrightarrow> used_ptrs 16777216 blks - X \<subseteq> used_ptrs 16777216 blks'"
    and x: "q \<notin> of_nat ` X"
    and same: "\<And>blks a n. heap_inv h blks \<Longrightarrow> a \<in> used_ptrs 16777216 blks \<Longrightarrow> q = of_nat a \<Longrightarrow>
      hdr_at (view h) (a - 4) = (n, True) \<Longrightarrow> 16777220 \<le> a \<Longrightarrow> heap_range (last_page h) (a - 4) n \<Longrightarrow>
      (\<And>u. in_heap (last_page h) u \<Longrightarrow> a - 4 \<le> unat u \<Longrightarrow> unat u < a - 4 + n \<Longrightarrow> view h' u = view h u)"
  shows "holds h' q bs"
proof -
  obtain blks a where a: "heap_inv h blks" "a \<in> used_ptrs 16777216 blks" "q = of_nat a"
      "length bs + 4 \<le> fst (hdr_at (view h) (a - 4))" "\<forall>i < length bs. view h (of_nat (a + i)) = bs ! i"
    using q unfolding holds_def by blast
  note i = heap_invD [OF a(1)]
  obtain n where n: "hdr_at (view h) (a - 4) = (n, True)" "5 \<le> n" "16777216 + 4 \<le> a" "a - 4 + n \<le> 16777216 + total blks"
    by (rule used_ptrs_block [OF i(3) a(2)])
  have r: "heap_range (last_page h) (a - 4) n" using n i(4,6) by (simp add: heap_range_def)
  have eq: "view h' u = view h u" if "in_heap (last_page h) u" "a - 4 \<le> unat u" "unat u < a - 4 + n" for u
    using same [OF a(1,2,3) n(1) _ r that] n(3) by simp
  have "hdr_at (view h') (a - 4) = hdr_at (view h) (a - 4)"
    by (rule hdr_at_cong [OF r]) (use n(2) eq in auto)
  moreover have "view h' (of_nat (a + j)) = bs ! j" if j: "j < length bs" for j
  proof -
    have lt: "4 + j < n" using j a(4) n(1) by simp
    have "a - 4 + (4 + j) = a + j" using n(3) by linarith
    then have e: "of_nat (a - 4) + of_nat (4 + j) = (of_nat (a + j) :: addr)" by (metis of_nat_add)
    have "unat (of_nat (a + j) :: addr) = a - 4 + (4 + j)" "in_heap (last_page h) (of_nat (a + j))"
      using heap_range_addr [OF r lt] unfolding e .
    then show ?thesis using eq [of "of_nat (a + j)"] lt a(5) j n(3) by simp
  qed
  moreover have "a \<in> used_ptrs 16777216 blks'" using mem [OF a(1)] a(2,3) x by blast
  ultimately show ?thesis unfolding holds_def using inv a(3,4) by (intro exI [of _ blks'] exI [of _ a] conjI allI impI) simp_all
qed

text \<open>Where the bytes of a block lie.\<close>

lemma holds_range:
  assumes "holds h p bs"
  shows "heap_map (last_page h) h" "heap_range (last_page h) (unat p) (length bs)" "p \<noteq> nullptr" "unat p + length bs < 4294967296"
    "\<And>i. i < length bs \<Longrightarrow> view h (p + of_nat i) = bs ! i" "p \<in> live_ptrs h" "heap_ok h"
proof -
  obtain blks a where a: "heap_inv h blks" "a \<in> used_ptrs 16777216 blks" "p = of_nat a"
      "length bs + 4 \<le> fst (hdr_at (view h) (a - 4))" "\<forall>i < length bs. view h (of_nat (a + i)) = bs ! i"
    using assms unfolding holds_def by blast
  note i = heap_invD [OF a(1)]
  obtain n where n: "hdr_at (view h) (a - 4) = (n, True)" "16777216 + 4 \<le> a" "a - 4 + n \<le> 16777216 + total blks"
    by (rule used_ptrs_block [OF i(3) a(2)])
  have u: "unat p = a" using used_ptrs_range(3) [OF a(1,2)] a(3) by (simp add: unat_of_nat_u32)
  have le: "a + length bs \<le> 4096 * last_page h" using n a(4) i(4) by simp
  show "heap_map (last_page h) h" by (rule i(1))
  show "heap_range (last_page h) (unat p) (length bs)" using u n(2) le i(6) by (simp add: heap_range_def)
  show "p \<noteq> nullptr" using u n(2) by auto
  show "unat p + length bs < 4294967296" using u le i(6) by simp
  show "view h (p + of_nat i) = bs ! i" if "i < length bs" for i using a(3,5) that by simp
  show "p \<in> live_ptrs h" using a by (auto simp: live_ptrs_eq [OF a(1)])
  show "heap_ok h" using a(1) by (auto simp: heap_ok_def)
qed

lemma holds_take: "holds h p bs \<Longrightarrow> n \<le> length bs \<Longrightarrow> holds h p (take n bs)"
  unfolding holds_def by fastforce

lemma holds_addr: "holds h p bs \<Longrightarrow> i < length bs \<Longrightarrow> in_heap (last_page h) (p + of_nat i) \<and> unat (p + of_nat i) = unat p + i"
  using heap_range_addr [OF holds_range(2), of h p bs i] by simp

lemma vread8_heap: "heap_map L h \<Longrightarrow> in_heap L v \<Longrightarrow> vread8 h v = ret (view h v)"
  by (simp add: vread8_def heap_mmu view_heap)

lemma holds_read: "holds h p bs \<Longrightarrow> i < length bs \<Longrightarrow> vread8 h (p + of_nat i) = ret (bs ! i)"
  using holds_addr [of h p bs i] holds_range(1,5) [of h p bs] by (simp add: vread8_heap)

lemma holds_read32:
  assumes "holds h p bs" "i + 4 \<le> length bs"
  shows "vread32 h (p + of_nat i) = ret (bytes_u32 (drop i bs))"
proof -
  have r: "heap_range (last_page h) (unat p + i) 4" using holds_range(2) [OF assms(1)] assms(2) by (simp add: heap_range_def)
  have "of_nat (unat p + i) = p + of_nat i" by simp
  then have "vread32 h (p + of_nat i) = ret (read32 (view h) (p + of_nat i))"
    using vread32_heap [OF holds_range(1) [OF assms(1)] r] by simp
  moreover have "view h (p + of_nat i + of_nat k) = drop i bs ! k" if "k < 4" for k
    using holds_range(5) [OF assms(1), of "i + k"] that assms(2) by (simp add: add.assoc)
  from this [of 0] this [of 1] this [of 2] this [of 3] have "read32 (view h) (p + of_nat i) = bytes_u32 (drop i bs)"
    by (simp add: read32_def bytes_u32_def)
  ultimately show ?thesis by simp
qed

subsection \<open>Writing\<close>

lemma vwrite_bytes_heap:
  assumes "heap_map L s" and "heap_range L a (length bs)"
  shows "\<exists>s'. vwrite_bytes (of_nat a) bs s = ret s' \<and> heap_upd L s s' \<and>
    agree L (view s') (\<lambda>u. if a \<le> unat u \<and> unat u < a + length bs then bs ! (unat u - a) else view s u)"
  using assms
proof (induction bs arbitrary: a s)
  case Nil
  then show ?case by (auto simp: heap_upd_refl agree_def)
next
  case (Cons b bs)
  have v: "in_heap L (of_nat a)" "unat (of_nat a :: addr) = a"
    using heap_range_addr_0 [OF Cons.prems(2)] by auto
  obtain s1 where s1: "vwrite8 (of_nat a) b s = ret s1" "heap_upd L s s1" "agree L (view s1) ((view s)(of_nat a := b))"
    using vwrite8_heap [OF Cons.prems(1) v(1)] by blast
  have "heap_range L (a + 1) (length bs)" using Cons.prems(2) by (auto simp: heap_range_def)
  then obtain s2 where s2: "vwrite_bytes (of_nat (a + 1)) bs s1 = ret s2" "heap_upd L s1 s2"
      "agree L (view s2) (\<lambda>u. if a + 1 \<le> unat u \<and> unat u < a + 1 + length bs then bs ! (unat u - (a + 1)) else view s1 u)"
    using Cons.IH [OF heap_upd_map [OF s1(2)]] by blast
  have "view s2 u = (if a \<le> unat u \<and> unat u < a + length (b # bs) then (b # bs) ! (unat u - a) else view s u)"
    if u: "in_heap L u" for u
  proof -
    have e: "u = of_nat a \<longleftrightarrow> unat u = a" using v(2) u32_eqI by metis
    have "view s2 u = (if a + 1 \<le> unat u \<and> unat u < a + 1 + length bs then bs ! (unat u - (a + 1)) else view s1 u)"
      using s2(3) u by (simp add: agree_def)
    moreover have "view s1 u = (if unat u = a then b else view s u)" using s1(3) u e by (auto simp: agree_def)
    moreover have "(b # bs) ! (unat u - a) = bs ! (unat u - (a + 1))" if "a + 1 \<le> unat u"
      using that by (simp add: nth_Cons')
    ultimately show ?thesis by auto
  qed
  then have "agree L (view s2) (\<lambda>u. if a \<le> unat u \<and> unat u < a + length (b # bs) then (b # bs) ! (unat u - a) else view s u)"
    by (simp add: agree_def)
  moreover have "vwrite_bytes (of_nat a) (b # bs) s = ret s2" using s1(1) s2(1) by (simp add: add.commute)
  ultimately show ?case using heap_upd_trans [OF s1(2) s2(2)] by blast
qed

text \<open>Changing memory inside a block in use keeps the blocks.\<close>

lemma inv_inside_block:
  assumes inv: "heap_inv h blks" and a: "a \<in> used_ptrs 16777216 blks" "hdr_at (view h) (a - 4) = (n, True)"
    and upd: "heap_upd (last_page h) h h'" and same: "same_but (last_page h) a (n - 4) (view h) (view h')"
  shows "heap_inv h' blks"
proof -
  note i = heap_invD [OF inv]
  obtain pre k post where d: "blks = pre @ (k, True) # post" "a = 16777216 + total pre + 4"
    using used_ptrs_split [OF a(1)] by blast
  have t: "tiles (view h) 16777216 pre" "5 \<le> k" "hdr_at (view h) (16777216 + total pre) = (k, True)" "tiles (view h) (16777216 + total pre + k) post"
    using i(3) d(1) by auto
  have k: "n = k" using t(3) a(2) d(2) by simp
  let ?L = "last_page h"
  have r: "heap_range ?L 16777216 (total pre)" "heap_range ?L (16777216 + total pre) k" "4 \<le> k" "heap_range ?L (16777216 + total pre + k) (total post)"
    using i(5) t(2) d(1) by (auto simp: heap_range_def)
  have "tiles (view h') 16777216 pre" by (rule tiles_same_but [OF t(1) r(1) same]) (simp add: d(2))
  moreover have "hdr_at (view h') (16777216 + total pre) = (k, True)"
    using hdr_at_same_but [OF same r(2,3)] t(3) by (simp add: d(2))
  moreover have "tiles (view h') (16777216 + total pre + k) post"
    by (rule tiles_same_but [OF t(4) r(4) same]) (use t(2) k d(2) in simp)
  ultimately have "tiles (view h') 16777216 blks" using d(1) t(2) by simp
  then show ?thesis by (rule heap_inv_upd [OF inv upd]) simp
qed

text \<open>The frame of a heap operation: the free frames and the size of the heap stay.\<close>

definition same_room :: "'z kheap_scheme \<Rightarrow> 'z kheap_scheme \<Rightarrow> bool" where
  "same_room h h' \<longleftrightarrow> last_page h' = last_page h \<and> free_frames h' = free_frames h \<and> heap_frame h h'"

lemma heap_upd_same_room: "heap_upd L h h' \<Longrightarrow> same_room h h'"
  using heap_upd_regs [of L h h'] heap_upd_frame [of L h h'] by (simp add: same_room_def last_page_def)

lemma holds_write:
  assumes p: "holds h p old" and k: "k + length new \<le> length old"
  shows "\<exists>h'. vwrite_bytes (p + of_nat k) new h = ret h' \<and> holds h' p (take k old @ new @ drop (k + length new) old) \<and>
    same_room h h' \<and> (\<forall>q bs. q \<noteq> p \<longrightarrow> holds h q bs \<longrightarrow> holds h' q bs)"
proof -
  obtain blks a where a: "heap_inv h blks" "a \<in> used_ptrs 16777216 blks" "p = of_nat a"
      "length old + 4 \<le> fst (hdr_at (view h) (a - 4))" "\<forall>i < length old. view h (of_nat (a + i)) = old ! i"
    using p unfolding holds_def by blast
  note i = heap_invD [OF a(1)]
  let ?L = "last_page h"
  obtain n where n: "hdr_at (view h) (a - 4) = (n, True)" "5 \<le> n" "16777216 + 4 \<le> a" "a - 4 + n \<le> 16777216 + total blks"
    by (rule used_ptrs_block [OF i(3) a(2)])
  have len: "length old + 4 \<le> n" using a(4) n(1) by simp
  have r: "heap_range ?L (a + k) (length new)" "heap_range ?L (a - 4) n" "heap_range ?L a (length old)"
    using n k len i(4,6) by (simp_all add: heap_range_def)
  obtain h' where h': "vwrite_bytes (of_nat (a + k)) new h = ret h'" "heap_upd ?L h h'"
      "agree ?L (view h') (\<lambda>u. if a + k \<le> unat u \<and> unat u < a + k + length new then new ! (unat u - (a + k)) else view h u)"
    using vwrite_bytes_heap [OF i(1) r(1)] by blast
  have lp: "last_page h' = ?L" using heap_upd_regs [OF h'(2)] by (simp add: last_page_def)
  have view': "view h' u = (if a + k \<le> unat u \<and> unat u < a + k + length new then new ! (unat u - (a + k)) else view h u)"
    if "in_heap ?L u" for u using h'(3) that by (simp add: agree_def)
  have same: "same_but ?L a (n - 4) (view h) (view h')"
    unfolding same_but_def using view' k len by auto
  have inv: "heap_inv h' blks" by (rule inv_inside_block [OF a(1,2) n(1) h'(2) same])
  have hd: "hdr_at (view h') (a - 4) = (n, True)"
    using hdr_at_same_but [OF same r(2)] n by simp
  have c: "view h' (of_nat (a + j)) = (take k old @ new @ drop (k + length new) old) ! j" if j: "j < length old" for j
  proof -
    have v: "unat (of_nat (a + j) :: addr) = a + j" "in_heap ?L (of_nat (a + j))" using heap_range_addr [OF r(3) j] by simp_all
    show ?thesis using view' [OF v(2)] v(1) j k a(5) by (auto simp: nth_append min_def)
  qed
  have l: "length (take k old @ new @ drop (k + length new) old) = length old" using k by simp
  have "holds h' p (take k old @ new @ drop (k + length new) old)"
    unfolding holds_def l using inv a(2,3) hd len c by (intro exI [of _ blks] exI [of _ a] conjI allI impI) simp_all
  moreover have "holds h' q bs" if q: "q \<noteq> p" "holds h q bs" for q bs
  proof (rule holds_keep [OF q(2) inv, of "{a}"])
    show "used_ptrs 16777216 b - {a} \<subseteq> used_ptrs 16777216 blks" if "heap_inv h b" for b
      using heap_inv_unique [OF that a(1)] by auto
    show "q \<notin> of_nat ` {a}" using q(1) a(3) by simp
    fix b c m u
    assume b: "heap_inv h b" "c \<in> used_ptrs 16777216 b" "q = of_nat c" "hdr_at (view h) (c - 4) = (m, True)"
      and u: "in_heap ?L u" "c - 4 \<le> unat u" "unat u < c - 4 + m"
    have "c \<in> used_ptrs 16777216 blks" "a \<noteq> c" using b(2,3) heap_inv_unique [OF b(1) a(1)] q(1) a(3) by auto
    from used_ptrs_apart [OF i(3) a(2) this n(1) b(4)] show "view h' u = view h u"
      using same_butD [OF same u(1)] u(2,3) n(3) by linarith
  qed
  moreover have "vwrite_bytes (p + of_nat k) new h = ret h'" using h'(1) a(3) by simp
  ultimately show ?thesis using heap_upd_same_room [OF h'(2)] by blast
qed

lemma same_room_trans: "same_room h h1 \<Longrightarrow> same_room h1 h2 \<Longrightarrow> same_room h h2"
  unfolding same_room_def using heap_frame_trans by (metis (full_types))

text \<open>Copying from one block to another stores the bytes of the first.\<close>

lemma vwrite_bytes_append:
  "vwrite_bytes p (xs @ ys) h = andThen (vwrite_bytes p xs h) (vwrite_bytes (p + of_nat (length xs)) ys)"
proof (induction xs arbitrary: p h)
  case (Cons x xs)
  then show ?case by (cases "vwrite8 p x h" rule: exec_cases) (simp_all add: add.assoc)
qed simp

lemma vMemCopy_write:
  assumes "holds h q src" "holds h p old" "q \<noteq> p" "j + n \<le> length src" "k + n \<le> length old"
  shows "vMemCopy (q + of_nat j) (p + of_nat k) n h = vwrite_bytes (p + of_nat k) (take n (drop j src)) h"
  using assms
proof (induction n arbitrary: j k h old)
  case (Suc n)
  have d: "take (Suc n) (drop j src) = src ! j # take n (drop (Suc j) src)"
    using Suc.prems(4) by (simp add: Cons_nth_drop_Suc [symmetric])
  obtain h1 where h1: "vwrite_bytes (p + of_nat k) [src ! j] h = ret h1"
      "holds h1 p (take k old @ [src ! j] @ drop (k + length [src ! j]) old)" "\<forall>q bs. q \<noteq> p \<longrightarrow> holds h q bs \<longrightarrow> holds h1 q bs"
    using holds_write [OF Suc.prems(2), of k "[src ! j]"] Suc.prems(5) by auto
  have w: "vwrite8 (p + of_nat k) (src ! j) h = ret h1" using h1(1) by (cases "vwrite8 (p + of_nat k) (src ! j) h" rule: exec_cases) auto
  have r: "vread8 h (q + of_nat j) = ret (src ! j)" using holds_read [OF Suc.prems(1)] Suc.prems(4) by simp
  have "holds h1 q src" using h1(3) Suc.prems(1,3) by blast
  from Suc.IH [OF this h1(2) Suc.prems(3), of "Suc j" "Suc k"] Suc.prems(4,5)
  have "vMemCopy (q + of_nat (Suc j)) (p + of_nat (Suc k)) n h1 = vwrite_bytes (p + of_nat (Suc k)) (take n (drop (Suc j) src)) h1" by simp
  moreover have "x + of_nat i + 1 = x + of_nat (Suc i)" for x :: addr and i by simp
  ultimately show ?case unfolding d by (simp only: vMemCopy.simps vwrite_bytes.simps r w andThen_ret)
qed simp

lemma vread_bytes_holds:
  assumes "holds h p bs"
  shows "i + n \<le> length bs \<Longrightarrow> vread_bytes (p + of_nat i) n h = ret (take n (drop i bs))"
proof (induction n arbitrary: i)
  case (Suc n)
  have e: "p + of_nat i + 1 = p + of_nat (Suc i)" by simp
  have t: "take (Suc n) (drop i bs) = bs ! i # take n (drop (Suc i) bs)"
    using Suc.prems by (simp add: Cons_nth_drop_Suc [symmetric])
  have "vread_bytes (p + of_nat (Suc i)) n h = ret (take n (drop (Suc i) bs))" using Suc.IH [of "Suc i"] Suc.prems by simp
  then show ?case using holds_read [OF assms, of i] Suc.prems unfolding t by (simp add: e del: of_nat_Suc)
qed simp

subsection \<open>Allocating and freeing\<close>

text \<open>
  Room for allocations of the given sizes, however the heap has to grow for them: frames are left, the limit is not
  reached, and the heap never ends at the last page of a page table.
\<close>

definition heap_room :: "int list \<Rightarrow> 'z kheap_scheme \<Rightarrow> bool" where
  "heap_room ns h \<longleftrightarrow> (\<Sum>n\<leftarrow>ns. n_pages (nat n + 4)) \<le> free_frames h \<and>
     (\<forall>j \<le> (\<Sum>n\<leftarrow>ns. n_pages (nat n + 4)). last_page h + j < 262144 \<and> (last_page h + j) mod 1024 \<noteq> 1023)"

lemma heap_room_mergeable: "heap_room ns h \<Longrightarrow> mergeable h"
  unfolding heap_room_def mergeable_def by (metis add.right_neutral le0)

lemma heap_room_same: "same_room h h' \<Longrightarrow> heap_room ns h \<Longrightarrow> heap_room ns h'"
  by (simp add: heap_room_def same_room_def)

lemma heap_room_Cons: "heap_room (n # ns) h \<Longrightarrow> heap_room ns h"
  unfolding heap_room_def by auto

lemma holds_alloc:
  assumes ok: "heap_ok h" and n: "0 < n" "n < 2147483648" and room: "heap_room (n # ns) h"
  obtains p h' junk where "HeapAlloc n h = ret (p, h')" "length junk = nat n" "holds h' p junk" "heap_room ns h'"
    "heap_frame h h'" "\<And>q bs. holds h q bs \<Longrightarrow> q \<noteq> p \<and> holds h' q bs"
proof -
  obtain blks where inv: "heap_inv h blks" using ok by (auto simp: heap_ok_def)
  note i = heap_invD [OF inv]
  let ?sz = "nat n + 4"
  let ?A = "takeWhile (\<lambda>b. \<not> fits ?sz b) blks" and ?D = "dropWhile (\<lambda>b. \<not> fits ?sz b) blks"
  let ?a = "alloc_addr ?sz blks" and ?k = "if some_fits ?sz blks then 0 else n_pages ?sz"
  have nn: "0 < nat n" "nat n < 2147483648" "int (nat n) = n" using n by auto
  have pages: "last_page h + n_pages ?sz \<le> 262144" "n_pages ?sz \<le> free_frames h"
    using room unfolding heap_room_def by (auto dest: spec [of _ "n_pages ?sz"])
  obtain h' where h': "HeapAlloc n h = ret (of_nat (?a + 4), h')" "heap_inv h' (alloc_list ?sz blks)"
      "last_page h' = last_page h + ?k" "same_but (last_page h) ?a (alloc_room ?sz blks) (view h) (view h')" "heap_frame h h'"
      "free_frames h' = free_frames h - ?k"
    using HeapAlloc_ok [OF inv nn(1,2)] pages unfolding nn(3) by blast
  note i' = heap_invD [OF h'(2)]
  have sz: "5 \<le> ?sz" using n by simp
  note u = used_ptrs_alloc [OF inv sz]
  have a: "?a + 4 \<in> used_ptrs 16777216 (alloc_list ?sz blks)" using u(1) by simp
  obtain m where m: "hdr_at (view h') (?a + 4 - 4) = (m, True)" by (rule used_ptrs_block [OF i'(3) a])
  have big: "?sz \<le> m"
  proof -
    have pl: "?sz \<le> b \<Longrightarrow> tiles M ?a (place ?sz b @ rest) \<Longrightarrow> hdr_at M ?a = (k, True) \<Longrightarrow> ?sz \<le> k" for b M rest k
      by (auto simp: place_def split: if_splits)
    have t: "tiles (view h') 16777216 (alloc_list ?sz blks)" by (rule i'(3))
    show ?thesis
    proof (cases ?D)
      case Nil
      then have pt: "tiles (view h') ?a (place ?sz (4096 * n_pages ?sz) @ [])" using t unfolding alloc_list_def alloc_addr_def Nil by simp
      show ?thesis using pl [OF _ pt, of m] m n_pages_enough [of ?sz] by simp
    next
      case (Cons b rest)
      then obtain k v where b: "?D = (k, v) # rest" by (cases b) auto
      then have "?sz \<le> k" by (auto simp: dropWhile_eq_Cons_conv fits_def)
      moreover have "tiles (view h') ?a (place ?sz k @ rest)" using t unfolding alloc_list_def alloc_addr_def b by simp
      ultimately show ?thesis using pl [of k "view h'" rest m] m by simp
    qed
  qed
  define junk where "junk = map (\<lambda>i. view h' (of_nat (?a + 4 + i))) [0..<nat n]"
  have "holds h' (of_nat (?a + 4)) junk"
    unfolding holds_def using h'(2) a m big by (intro exI [of _ "alloc_list ?sz blks"] exI [of _ "?a + 4"] conjI allI impI) (simp_all add: junk_def)
  moreover have "heap_room ns h'"
    unfolding heap_room_def h'(3,6)
  proof (intro conjI allI impI)
    let ?S = "\<Sum>n\<leftarrow>ns. n_pages (nat n + 4)"
    show "?S \<le> free_frames h - ?k" using room unfolding heap_room_def by auto
    fix j assume "j \<le> ?S"
    then have "?k + j \<le> (\<Sum>n\<leftarrow>n # ns. n_pages (nat n + 4))" by simp
    then have "last_page h + (?k + j) < 262144 \<and> (last_page h + (?k + j)) mod 1024 \<noteq> 1023"
      using room unfolding heap_room_def by blast
    then show "last_page h + ?k + j < 262144" "(last_page h + ?k + j) mod 1024 \<noteq> 1023" by (simp_all only: add.assoc simp_thms)
  qed
  moreover have "q \<noteq> of_nat (?a + 4) \<and> holds h' q bs" if q: "holds h q bs" for q bs
  proof
    obtain x where x: "q = of_nat x" "x \<in> used_ptrs 16777216 blks"
      using holds_range(6) [OF q] unfolding live_ptrs_eq [OF inv] by blast
    have "x \<noteq> ?a + 4" using x(2) u(2) by blast
    then show "q \<noteq> of_nat (?a + 4)"
      unfolding x(1) using of_nat_u32_eq_iff [OF used_ptrs_range(3) [OF inv x(2)] used_ptrs_range(3) [OF h'(2) a]] by blast
    show "holds h' q bs"
    proof (rule holds_keep [OF q h'(2), of "{}"])
      show "used_ptrs 16777216 b - {} \<subseteq> used_ptrs 16777216 (alloc_list ?sz blks)" if "heap_inv h b" for b
        using heap_inv_unique [OF that inv] u(1) by auto
      fix b c m v
      assume b: "heap_inv h b" "c \<in> used_ptrs 16777216 b" "q = of_nat c" "hdr_at (view h) (c - 4) = (m, True)" "16777220 \<le> c"
        and v: "in_heap (last_page h) v" "c - 4 \<le> unat v" "unat v < c - 4 + m"
      have c: "c \<in> used_ptrs 16777216 blks" using b(2) heap_inv_unique [OF b(1) inv] by simp
      have "\<not> (?a \<le> unat v \<and> unat v < ?a + alloc_room ?sz blks)"
      proof (cases ?D)
        case Nil
        then show ?thesis unfolding alloc_room_def by (simp only: list.case) simp
      next
        case (Cons d rest)
        then obtain k w where d: "?D = (k, w) # rest" by (cases d) auto
        then have w: "\<not> w" by (auto simp: dropWhile_eq_Cons_conv fits_def)
        then have eq: "blks = ?A @ (k, False) # rest" using takeWhile_dropWhile_id [of "\<lambda>b. \<not> fits ?sz b" blks] d by simp
        have "c - 4 + m \<le> 16777216 + total ?A \<or> 16777216 + total ?A + k \<le> c - 4"
          by (rule used_ptrs_outside [OF _ _ b(4), where rest = rest]) (simp_all only: eq [symmetric] i(3) c)
        then show ?thesis using v(2,3) unfolding alloc_room_def d alloc_addr_def by (simp only: list.case prod.case) linarith
      qed
      then show "view h' v = view h v" using same_butD [OF h'(4) v(1)] by blast
    qed simp
  qed
  moreover have "length junk = nat n" by (simp add: junk_def)
  ultimately show thesis using that h'(1,5) by blast
qed

lemma holds_free:
  assumes p: "holds h p bs" and room: "heap_room ns h"
  shows "\<exists>h'. HeapFree p h = ret h' \<and> heap_ok h' \<and> same_room h h' \<and> (\<forall>q cs. q \<noteq> p \<longrightarrow> holds h q cs \<longrightarrow> holds h' q cs)"
proof -
  obtain blks a where inv: "heap_inv h blks" and a: "a \<in> used_ptrs 16777216 blks" "p = of_nat a"
    using p unfolding holds_def by blast
  note i = heap_invD [OF inv]
  obtain pre n post where d: "blks = pre @ (n, True) # post" "a = 16777216 + total pre + 4"
    using used_ptrs_split [OF a(1)] by blast
  obtain h' where h': "HeapFree p h = ret h'" "heap_inv h' (pre @ free_list n post)" "last_page h' = last_page h"
      "same_but (last_page h) (16777216 + total pre) n (view h) (view h')" "free_frames h' = free_frames h" "heap_frame h h'"
    using HeapFree_ok [OF inv [unfolded d(1)] heap_room_mergeable [OF room]] unfolding a(2) d(2) by blast
  have n: "hdr_at (view h) (a - 4) = (n, True)" using i(3) d by simp
  have "holds h' q cs" if q: "q \<noteq> p" "holds h q cs" for q cs
  proof (rule holds_keep [OF q(2) h'(2), of "{a}"])
    show "used_ptrs 16777216 b - {a} \<subseteq> used_ptrs 16777216 (pre @ free_list n post)" if "heap_inv h b" for b
      using used_ptrs_free_list [OF inv [unfolded d(1)]] heap_inv_unique [OF that inv] d by simp
    show "q \<notin> of_nat ` {a}" using q(1) a(2) by simp
    fix b c m v
    assume b: "heap_inv h b" "c \<in> used_ptrs 16777216 b" "q = of_nat c" "hdr_at (view h) (c - 4) = (m, True)"
      and v: "in_heap (last_page h) v" "c - 4 \<le> unat v" "unat v < c - 4 + m"
    have "c \<in> used_ptrs 16777216 blks" "a \<noteq> c" using b(2,3) heap_inv_unique [OF b(1) inv] q(1) a(2) by auto
    from used_ptrs_apart [OF i(3) a(1) this n b(4)] show "view h' v = view h v"
      using same_butD [OF h'(4) v(1)] v(2,3) d(2) by linarith
  qed
  then show ?thesis using h' by (auto simp: heap_ok_def same_room_def)
qed

end
