(* ===== verification/Debug_Properties.thy ===== *)
theory Debug_Properties
  imports Debugger Heap_Contents Memory_Properties Task_Properties
begin

section \<open>What the debugger receives and sends\<close>

text \<open>
  On a serial line that keeps the documentation of the port, requests arrive as they were sent, and answers as they
  were built; the blocks of the heap that are not the debugger's keep what they hold.
\<close>

subsection \<open>Numbers as bytes\<close>

lemma length_u32_bytes [simp]: "length (u32_bytes w) = 4"
  by (simp add: u32_bytes_def)

lemma length_u16_bytes [simp]: "length (u16_bytes w) = 2"
  by (simp add: u16_bytes_def)

lemma bytes_u32_bytes [simp]: "bytes_u32 (u32_bytes w @ bs) = w"
proof -
  have "bit (bytes_u32 (u32_bytes w @ bs)) n = bit w n" if "n < 32" for n
  proof -
    consider "n < 8" | "8 \<le> n" "n < 16" | "16 \<le> n" "n < 24" | "24 \<le> n" using that by linarith
    then show ?thesis using that by cases (auto simp: bytes_u32_def u32_bytes_def bit_simps)
  qed
  then show ?thesis by (intro bit_word_eqI) simp
qed

lemma bytes_u32_bytes_0 [simp]: "bytes_u32 (u32_bytes w) = w"
  using bytes_u32_bytes [of w "[]"] by simp

lemma length_context_bytes [simp]: "length (context_bytes c) = 76"
  by (simp add: context_bytes_def)

lemma length_header_bytes: "length (rh_processName h) = 512 \<Longrightarrow> length (header_bytes h) = 600"
  by (simp add: header_bytes_def)

subsection \<open>Bytes on the line\<close>

lemma Com_ReadByte_ok:
  assumes "serial_line M COM2_PORT U" "rx U (serial_dev s) = b # bs"
  obtains d where "Com_ReadByte M s = ret (b, s\<lparr>serial_dev := d\<rparr>)" "rx U d = bs" "tx U d = tx U (serial_dev s)"
proof -
  obtain d where "Serial_ReadByte M COM2_PORT (serial_dev s) = ret (b, d)" "rx U d = bs" "tx U d = tx U (serial_dev s)"
    by (rule Serial_ReadByte_ok [OF assms])
  then show thesis by (intro that [of d]) (simp_all add: Com_ReadByte_def)
qed

lemma Com_WriteByte_ok:
  assumes "serial_line M COM2_PORT U"
  obtains d where "Com_WriteByte M b s = ret (s\<lparr>serial_dev := d\<rparr>)" "rx U d = rx U (serial_dev s)" "tx U d = tx U (serial_dev s) @ [b]"
proof -
  obtain d where "Serial_WriteByte M COM2_PORT b (serial_dev s) = ret d" "rx U d = rx U (serial_dev s)" "tx U d = tx U (serial_dev s) @ [b]"
    by (rule Serial_WriteByte_ok [OF assms])
  then show thesis by (intro that [of d]) (simp_all add: Com_WriteByte_def)
qed

lemma Com_ReadBytes_local_ok:
  assumes L: "serial_line M COM2_PORT U"
  shows "rx U (serial_dev s) = bs @ rest \<Longrightarrow> \<exists>d. Com_ReadBytes_local M (length bs) s = ret (bs, s\<lparr>serial_dev := d\<rparr>) \<and>
    rx U d = rest \<and> tx U d = tx U (serial_dev s)"
proof (induction bs arbitrary: s)
  case Nil
  then show ?case by (intro exI [of _ "serial_dev s"]) simp
next
  case (Cons b bs)
  obtain d where d: "Com_ReadByte M s = ret (b, s\<lparr>serial_dev := d\<rparr>)" "rx U d = bs @ rest" "tx U d = tx U (serial_dev s)"
    by (rule Com_ReadByte_ok [OF L, of s b "bs @ rest"]) (use Cons.prems in simp_all)
  then show ?case using Cons.IH [of "s\<lparr>serial_dev := d\<rparr>"] by auto
qed

lemma read_loop_ok:
  assumes L: "serial_line M COM2_PORT U"
  shows "rx U (serial_dev s) = bs @ rest \<Longrightarrow> vwrite_bytes p bs (lheap s) = ret h \<Longrightarrow>
    \<exists>d. read_loop M p (length bs) s = ret (s\<lparr>serial_dev := d, lheap := h\<rparr>) \<and> rx U d = rest \<and> tx U d = tx U (serial_dev s)"
proof (induction bs arbitrary: s p)
  case Nil
  then show ?case by (intro exI [of _ "serial_dev s"]) simp
next
  case (Cons b bs)
  obtain d where d: "Com_ReadByte M s = ret (b, s\<lparr>serial_dev := d\<rparr>)" "rx U d = bs @ rest" "tx U d = tx U (serial_dev s)"
    by (rule Com_ReadByte_ok [OF L, of s b "bs @ rest"]) (use Cons.prems in simp_all)
  obtain h1 where h1: "vwrite8 p b (lheap s) = ret h1" "vwrite_bytes (p + 1) bs h1 = ret h"
    using Cons.prems(2) by (auto simp: andThen_eq_ret_iff)
  then show ?case using Cons.IH [of "s\<lparr>serial_dev := d, lheap := h1\<rparr>" "p + 1"] d by (auto simp: store_byte_def)
qed

lemma Com_WriteBytes_local_ok:
  assumes L: "serial_line M COM2_PORT U"
  shows "\<exists>d. Com_WriteBytes_local M bs s = ret (s\<lparr>serial_dev := d\<rparr>) \<and> rx U d = rx U (serial_dev s) \<and> tx U d = tx U (serial_dev s) @ bs"
proof (induction bs arbitrary: s)
  case Nil
  show ?case by (intro exI [of _ "serial_dev s"]) simp
next
  case (Cons b bs)
  obtain d where d: "Com_WriteByte M b s = ret (s\<lparr>serial_dev := d\<rparr>)" "rx U d = rx U (serial_dev s)" "tx U d = tx U (serial_dev s) @ [b]"
    by (rule Com_WriteByte_ok [OF L])
  then show ?case using Cons.IH [of "s\<lparr>serial_dev := d\<rparr>"] by auto
qed

lemma Com_WriteBytes_ok:
  assumes L: "serial_line M COM2_PORT U"
  shows "holds (lheap s) p bs \<Longrightarrow> i + n \<le> length bs \<Longrightarrow> \<exists>d. Com_WriteBytes M (p + of_nat i) n s = ret (s\<lparr>serial_dev := d\<rparr>) \<and>
    rx U d = rx U (serial_dev s) \<and> tx U d = tx U (serial_dev s) @ take n (drop i bs)"
proof (induction n arbitrary: s i)
  case 0
  show ?case by (intro exI [of _ "serial_dev s"]) simp
next
  case (Suc n)
  obtain d where d: "Com_WriteByte M (bs ! i) s = ret (s\<lparr>serial_dev := d\<rparr>)" "rx U d = rx U (serial_dev s)" "tx U d = tx U (serial_dev s) @ [bs ! i]"
    by (rule Com_WriteByte_ok [OF L])
  have t: "take (Suc n) (drop i bs) = bs ! i # take n (drop (Suc i) bs)"
    using Suc.prems(2) by (simp add: Cons_nth_drop_Suc [symmetric])
  have e: "p + of_nat i + 1 = p + of_nat (Suc i)" by simp
  have r: "vread8 (lheap s) (p + of_nat i) = ret (bs ! i)" using holds_read [OF Suc.prems(1)] Suc.prems(2) by simp
  show ?case using Suc.IH [of "s\<lparr>serial_dev := d\<rparr>" "Suc i"] Suc.prems d
    unfolding t by (auto simp: r e simp del: of_nat_Suc)
qed

subsection \<open>Receiving a request\<close>

text \<open>A request as the other end sends it: the size, then the command, the size of the parameters and these.\<close>

definition request_packet :: "u32 \<Rightarrow> u8 list \<Rightarrow> u8 list" where
  "request_packet command params =
     u32_bytes (8 + of_nat (length params)) @ u32_bytes command @ u32_bytes (of_nat (length params)) @ params"

text \<open>The allocations that receiving it takes.\<close>

definition request_sizes :: "u8 list \<Rightarrow> int list" where
  "request_sizes params = (8 + int (length params)) # (if params = [] then [] else [int (length params)])"

lemma RecvPacket_ok:
  assumes L: "serial_line M COM2_PORT U" and rx: "rx U (serial_dev s) = u32_bytes (of_nat (length bs)) @ bs @ rest"
    and h: "heap_ok (lheap s)" "heap_room (int (length bs) # ns) (lheap s)" and n: "bs \<noteq> []" "length bs < 2147483648"
  obtains p h' d where "RecvPacket M (Some pk) s =
      ret (STATUS_SUCCESS, Some (pk\<lparr>packet_size := of_nat (length bs), packet_content := p\<rparr>), s\<lparr>serial_dev := d, lheap := h'\<rparr>)"
    "holds h' p bs" "heap_room ns h'" "heap_frame (lheap s) h'" "rx U d = rest" "tx U d = tx U (serial_dev s)"
    "\<And>q cs. holds (lheap s) q cs \<Longrightarrow> q \<noteq> p \<and> holds h' q cs"
proof -
  let ?n = "of_nat (length bs) :: u32"
  have u: "unat ?n = length bs" "?n \<noteq> 0" "sint ?n = int (length bs)"
    using n unat_of_nat_u32 [of "length bs"] sint_of_nat_u32 [of "length bs"] by auto
  obtain d1 where d1: "Com_ReadBytes_local M 4 s = ret (u32_bytes ?n, s\<lparr>serial_dev := d1\<rparr>)" "rx U d1 = bs @ rest" "tx U d1 = tx U (serial_dev s)"
    using Com_ReadBytes_local_ok [OF L rx] by auto
  obtain p h1 junk where a: "HeapAlloc (int (length bs)) (lheap s) = ret (p, h1)" "length junk = nat (int (length bs))" "holds h1 p junk"
      "heap_room ns h1" "heap_frame (lheap s) h1" "\<And>q cs. holds (lheap s) q cs \<Longrightarrow> q \<noteq> p \<and> holds h1 q cs"
    by (rule holds_alloc [OF h(1) _ _ h(2)]) (use n in simp_all)
  obtain h2 where w: "vwrite_bytes p bs h1 = ret h2" "holds h2 p bs" "same_room h1 h2" "\<And>q cs. q \<noteq> p \<Longrightarrow> holds h1 q cs \<Longrightarrow> holds h2 q cs"
    using holds_write [OF a(3), of 0 bs] a(2) by auto
  obtain d2 where d2: "read_loop M p (length bs) (s\<lparr>serial_dev := d1, lheap := h1\<rparr>) = ret (s\<lparr>serial_dev := d2, lheap := h2\<rparr>)"
      "rx U d2 = rest" "tx U d2 = tx U d1"
    using read_loop_ok [OF L, of "s\<lparr>serial_dev := d1, lheap := h1\<rparr>" bs rest p h2] d1(2) w(1) by auto
  have "RecvPacket M (Some pk) s =
      ret (STATUS_SUCCESS, Some (pk\<lparr>packet_size := ?n, packet_content := p\<rparr>), s\<lparr>serial_dev := d2, lheap := h2\<rparr>)"
    using d1(1) d2(1) holds_range(3) [OF a(3)] a(1) u by (simp add: RecvPacket_def Com_ReadBytes_def in_kernel_def)
  moreover have "heap_frame (lheap s) h2" using a(5) w(3) heap_frame_trans unfolding same_room_def by blast
  ultimately show thesis using that [OF _ w(2) heap_room_same [OF w(3) a(4)]] d1(3) d2(2,3) a(6) w(4) by metis
qed

lemma CleanupPacket_ok:
  assumes p: "holds (lheap s) (packet_content pk) bs" and room: "heap_room ns (lheap s)"
  obtains h' where "CleanupPacket (Some pk) s = ret (Some (pk\<lparr>packet_content := nullptr\<rparr>), s\<lparr>lheap := h'\<rparr>)" "heap_ok h'"
    "same_room (lheap s) h'" "\<And>q cs. q \<noteq> packet_content pk \<Longrightarrow> holds (lheap s) q cs \<Longrightarrow> holds h' q cs"
proof -
  obtain h' where "HeapFree (packet_content pk) (lheap s) = ret h'" "heap_ok h'" "same_room (lheap s) h'"
      "\<And>q cs. q \<noteq> packet_content pk \<Longrightarrow> holds (lheap s) q cs \<Longrightarrow> holds h' q cs"
    using holds_free [OF p room] by blast
  then show thesis using holds_range(3) [OF p] by (intro that [of h']) (simp_all add: CleanupPacket_def free_obj_def)
qed

text \<open>What a received request is.\<close>

definition received ::
  "'z kheap_scheme \<Rightarrow> u32 \<Rightarrow> u8 list \<Rightarrow> KeDebugRequest \<Rightarrow> 'z kheap_scheme \<Rightarrow> bool" where
  "received h command params request h' \<longleftrightarrow> req_command request = command \<and> req_paramSize request = of_nat (length params) \<and>
     (if params = [] then req_param request = nullptr
      else holds h' (req_param request) params \<and> (\<forall>cs. \<not> holds h (req_param request) cs)) \<and>
     heap_ok h' \<and> (\<forall>q cs. holds h q cs \<longrightarrow> holds h' q cs)"

lemma RecvRequest_ok:
  assumes L: "serial_line M COM2_PORT U" and rx: "rx U (serial_dev s) = request_packet command params @ rest"
    and h: "heap_ok (lheap s)" "heap_room (request_sizes params @ ns) (lheap s)" and n: "length params < 2147483640"
  obtains r h' d where "RecvRequest M request s = ret (STATUS_SUCCESS, r, s\<lparr>serial_dev := d, lheap := h'\<rparr>)"
    "received (lheap s) command params r h'" "heap_room ns h'" "heap_frame (lheap s) h'" "rx U d = rest" "tx U d = tx U (serial_dev s)"
proof -
  let ?bs = "u32_bytes command @ u32_bytes (of_nat (length params)) @ params"
  let ?ns = "(if params = [] then [] else [int (length params)]) @ ns"
  have len: "length ?bs = 8 + length params" by simp
  have rx': "rx U (serial_dev s) = u32_bytes (of_nat (length ?bs)) @ ?bs @ rest" using rx by (simp add: request_packet_def)
  have room: "heap_room (int (length ?bs) # ?ns) (lheap s)" using h(2) by (simp add: request_sizes_def)
  have nb: "?bs \<noteq> []" "length ?bs < 2147483648" using n by (simp_all add: u32_bytes_def)
  obtain p h1 d where p: "RecvPacket M (Some \<lparr>packet_size = 0, packet_content = nullptr\<rparr>) s =
        ret (STATUS_SUCCESS, Some (\<lparr>packet_size = 0, packet_content = nullptr\<rparr>\<lparr>packet_size := of_nat (length ?bs), packet_content := p\<rparr>),
          s\<lparr>serial_dev := d, lheap := h1\<rparr>)"
      "holds h1 p ?bs" "heap_room ?ns h1" "heap_frame (lheap s) h1" "rx U d = rest" "tx U d = tx U (serial_dev s)"
      "\<And>q cs. holds (lheap s) q cs \<Longrightarrow> q \<noteq> p \<and> holds h1 q cs"
    by (rule RecvPacket_ok [OF L rx' h(1) room nb, where pk = "\<lparr>packet_size = 0, packet_content = nullptr\<rparr>"]) (rule that)
  let ?pk = "\<lparr>packet_size = of_nat (length ?bs), packet_content = p\<rparr>"
  have sz: "(of_nat (length ?bs) :: u32) \<noteq> 0"
  proof
    assume "(of_nat (length ?bs) :: u32) = 0"
    then have "unat (of_nat (length ?bs) :: u32) = 0" by (simp only: unat_0)
    then show False using unat_of_nat_u32 [of "length ?bs"] nb(2) unfolding len by linarith
  qed
  note nz = sz holds_range(3) [OF p(2)]
  have r: "vread32 h1 p = ret command" "vread32 h1 (p + 4) = ret (of_nat (length params))"
    using holds_read32 [OF p(2), of 0] holds_read32 [OF p(2), of 4] by simp_all
  have start: "RecvRequest M request s =
      (let request1 = request\<lparr>req_command := command, req_paramSize := of_nat (length params)\<rparr>; s1 = s\<lparr>serial_dev := d, lheap := h1\<rparr> in
       if params \<noteq> [] then
         andThen (in_kernel (HeapAlloc (int (length params))) s1) (\<lambda>(param, s2).
           if param = nullptr then ret (STATUS_ALLOC_FAILED, request1\<lparr>req_param := param\<rparr>, s2)
           else andThen (vMemCopy (p + 8) param (length params) (lheap s2)) (\<lambda>h.
             andThen (CleanupPacket (Some ?pk) (s2\<lparr>lheap := h\<rparr>)) (\<lambda>(_, s3). ret (STATUS_SUCCESS, request1\<lparr>req_param := param\<rparr>, s3))))
       else andThen (CleanupPacket (Some ?pk) s1) (\<lambda>(_, s2). ret (STATUS_SUCCESS, request1\<lparr>req_param := nullptr\<rparr>, s2)))"
  proof -
    have u: "unat (of_nat (length params) :: u32) = length params" "sint (of_nat (length params) :: u32) = int (length params)"
      using n unat_of_nat_u32 [of "length params"] sint_of_nat_u32 [of "length params"] by simp_all
    have pos: "0 < (of_nat (length params) :: u32) \<longleftrightarrow> params \<noteq> []"
      unfolding word_less_nat_alt u by simp
    show ?thesis
      unfolding RecvRequest_def p(1) andThen_ret prod.case option.sel using nz r u pos
      by (simp add: Let_def del: length_append cong: if_cong)
  qed
  show thesis
  proof (cases "params = []")
    case True
    have "holds (lheap (s\<lparr>serial_dev := d, lheap := h1\<rparr>)) (packet_content ?pk) ?bs" "heap_room ns (lheap (s\<lparr>serial_dev := d, lheap := h1\<rparr>))"
      using p(2,3) True by simp_all
    then obtain h2 where h2: "CleanupPacket (Some ?pk) (s\<lparr>serial_dev := d, lheap := h1\<rparr>) =
          ret (Some (?pk\<lparr>packet_content := nullptr\<rparr>), s\<lparr>serial_dev := d, lheap := h1\<rparr>\<lparr>lheap := h2\<rparr>)" "heap_ok h2"
        "same_room (lheap (s\<lparr>serial_dev := d, lheap := h1\<rparr>)) h2"
        "\<And>q cs. q \<noteq> packet_content ?pk \<Longrightarrow> holds (lheap (s\<lparr>serial_dev := d, lheap := h1\<rparr>)) q cs \<Longrightarrow> holds h2 q cs"
      by (rule CleanupPacket_ok) (rule that)
    let ?r = "request\<lparr>req_command := command, req_paramSize := 0, req_param := nullptr\<rparr>"
    have "RecvRequest M request s = ret (STATUS_SUCCESS, ?r, s\<lparr>serial_dev := d, lheap := h2\<rparr>)"
      unfolding start using True h2(1) by simp
    moreover have "received (lheap s) command params ?r h2"
      using True h2(2,4) p(7) by (auto simp: received_def)
    moreover have "heap_frame (lheap s) h2" using heap_frame_trans [OF p(4)] h2(3) by (simp add: same_room_def)
    moreover have "heap_room ns h2" using heap_room_same [OF h2(3)] p(3) True by simp
    ultimately show thesis using that p(5,6) by blast
  next
    case False
    have room1: "heap_room (int (length params) # ns) h1" using p(3) False by simp
    obtain q h2 junk where a: "HeapAlloc (int (length params)) h1 = ret (q, h2)" "length junk = nat (int (length params))" "holds h2 q junk"
        "heap_room ns h2" "heap_frame h1 h2" "\<And>x cs. holds h1 x cs \<Longrightarrow> x \<noteq> q \<and> holds h2 x cs"
      by (rule holds_alloc [OF holds_range(7) [OF p(2)] _ _ room1]) (use n False in simp_all)
    have pq: "holds h2 p ?bs" "p \<noteq> q" using a(6) [OF p(2)] by simp_all
    obtain h3 where w: "vwrite_bytes q params h2 = ret h3" "holds h3 q params" "same_room h2 h3" "\<And>x cs. x \<noteq> q \<Longrightarrow> holds h2 x cs \<Longrightarrow> holds h3 x cs"
      using holds_write [OF a(3), of 0 params] a(2) by auto
    have c: "vMemCopy (p + 8) q (length params) h2 = ret h3"
      using vMemCopy_write [OF pq(1) a(3) pq(2), of 8 "length params" 0] a(2) w(1) by simp
    let ?s3 = "s\<lparr>serial_dev := d, lheap := h3\<rparr>"
    have "holds (lheap ?s3) (packet_content ?pk) ?bs" "heap_room ns (lheap ?s3)"
      using w(4) [OF pq(2,1)] heap_room_same [OF w(3) a(4)] by simp_all
    then obtain h4 where h4: "CleanupPacket (Some ?pk) ?s3 = ret (Some (?pk\<lparr>packet_content := nullptr\<rparr>), ?s3\<lparr>lheap := h4\<rparr>)" "heap_ok h4"
        "same_room (lheap ?s3) h4" "\<And>x cs. x \<noteq> packet_content ?pk \<Longrightarrow> holds (lheap ?s3) x cs \<Longrightarrow> holds h4 x cs"
      by (rule CleanupPacket_ok) (rule that)
    let ?r = "request\<lparr>req_command := command, req_paramSize := of_nat (length params), req_param := q\<rparr>"
    have "RecvRequest M request s = ret (STATUS_SUCCESS, ?r, s\<lparr>serial_dev := d, lheap := h4\<rparr>)"
      unfolding start using False a(1) holds_range(3) [OF a(3)] c h4(1) by (simp add: in_kernel_def)
    moreover have keep: "x \<noteq> q \<and> holds h4 x cs" if x: "holds (lheap s) x cs" for x cs
    proof -
      have "x \<noteq> p" "holds h1 x cs" using p(7) [OF x] by simp_all
      moreover from a(6) [OF this(2)] have "x \<noteq> q" "holds h2 x cs" by simp_all
      ultimately show ?thesis using h4(4) w(4) by simp
    qed
    moreover have "holds h4 q params" using h4(4) [of q params] w(2) pq(2) by simp
    then have "received (lheap s) command params ?r h4"
      unfolding received_def using False h4(2) keep by auto
    moreover have "heap_frame (lheap s) h4"
      using heap_frame_trans [OF heap_frame_trans [OF heap_frame_trans [OF p(4) a(5)]], of h3 h4] w(3) h4(3)
      by (simp add: same_room_def)
    moreover have "heap_room ns h4" using heap_room_same [OF h4(3)] heap_room_same [OF w(3) a(4)] by simp
    ultimately show thesis using that p(5,6) by blast
  qed
qed

subsection \<open>Sending a response\<close>

text \<open>What is sent: the size, the header, the data. The buffer it is built in stays allocated.\<close>

definition response_packet :: "KeDebugResponseHeader \<Rightarrow> u8 list \<Rightarrow> u8 list" where
  "response_packet header data = u32_bytes (600 + of_nat (length data)) @ header_bytes header @ data"

definition response_ok :: "'z kheap_scheme \<Rightarrow> KeDebugResponse \<Rightarrow> u8 list \<Rightarrow> bool" where
  "response_ok h r data \<longleftrightarrow> length (rh_processName (resp_header r)) = 512 \<and> rh_dataSize (resp_header r) = of_nat (length data) \<and>
     length data < 2147483000 \<and> (data \<noteq> [] \<longrightarrow> holds h (resp_data r) data)"

lemma SendResponse_ok:
  assumes L: "serial_line M COM2_PORT U" and r: "response_ok (lheap s) r data"
    and h: "heap_ok (lheap s)" "heap_room ((600 + int (length data)) # ns) (lheap s)"
  obtains b h' d where "SendResponse M (Some r) s = ret (STATUS_SUCCESS, s\<lparr>serial_dev := d, lheap := h'\<rparr>)"
    "tx U d = tx U (serial_dev s) @ response_packet (resp_header r) data" "rx U d = rx U (serial_dev s)"
    "holds h' b (header_bytes (resp_header r) @ data)" "heap_room ns h'" "heap_frame (lheap s) h'"
    "\<And>q cs. holds (lheap s) q cs \<Longrightarrow> q \<noteq> b \<and> holds h' q cs"
proof -
  let ?hd = "header_bytes (resp_header r)" and ?n = "600 + length data" and ?w = "600 + of_nat (length data) :: u32"
  have R: "rh_dataSize (resp_header r) = of_nat (length data)" "length data < 2147483000" "data \<noteq> [] \<Longrightarrow> holds (lheap s) (resp_data r) data"
      "length ?hd = 600"
    using r length_header_bytes unfolding response_ok_def by auto
  have w: "?w = of_nat ?n" by simp
  have u: "unat ?w = ?n" "sint ?w = 600 + int (length data)" "unat (of_nat (length data) :: u32) = length data"
    unfolding w using R(2) unat_of_nat_u32 [of ?n] sint_of_nat_u32 [of ?n] unat_of_nat_u32 [of "length data"] by simp_all
  have nz: "?w \<noteq> 0" using u(1) by (metis add_is_0 unat_0 zero_neq_numeral)
  have bad: "\<not> ((of_nat (length data) :: u32) \<noteq> 0 \<and> resp_data r = nullptr)"
    using holds_range(3) [OF R(3)] by (cases data) auto
  obtain b h1 junk where a: "HeapAlloc (600 + int (length data)) (lheap s) = ret (b, h1)" "length junk = nat (600 + int (length data))"
      "holds h1 b junk" "heap_room ns h1" "heap_frame (lheap s) h1" "\<And>q cs. holds (lheap s) q cs \<Longrightarrow> q \<noteq> b \<and> holds h1 q cs"
    by (rule holds_alloc [OF h(1) _ _ h(2)]) (use R(2) in simp_all)
  have lj: "length junk = ?n" using a(2) by simp
  obtain h2 where w2: "vwrite_bytes b ?hd h1 = ret h2" "holds h2 b (?hd @ drop 600 junk)" "same_room h1 h2"
      "\<And>q cs. q \<noteq> b \<Longrightarrow> holds h1 q cs \<Longrightarrow> holds h2 q cs"
    using holds_write [OF a(3), of 0 ?hd] lj R(4) by auto
  obtain h3 where w3: "vwrite_bytes (b + of_nat 600) data h2 = ret h3" "holds h3 b (?hd @ data)" "same_room h2 h3"
      "\<And>q cs. q \<noteq> b \<Longrightarrow> holds h2 q cs \<Longrightarrow> holds h3 q cs"
    using holds_write [OF w2(2), of 600 data] lj R(4) by auto
  have c: "vMemCopy (resp_data r) (b + 600) (length data) h2 = ret h3"
  proof (cases "data = []")
    case True
    then show ?thesis using w3(1) by simp
  next
    case False
    have q: "holds h2 (resp_data r) data" "resp_data r \<noteq> b" using a(6) [OF R(3) [OF False]] w2(4) by auto
    have l: "0 + length data \<le> length data" "600 + length data \<le> length (?hd @ drop 600 junk)" using lj R(4) by simp_all
    show ?thesis using vMemCopy_write [OF q(1) w2(2) q(2) l] w3(1) by simp
  qed
  let ?s3 = "s\<lparr>lheap := h3\<rparr>"
  obtain d1 where d1: "Com_WriteBytes_local M (u32_bytes ?w) ?s3 = ret (?s3\<lparr>serial_dev := d1\<rparr>)" "rx U d1 = rx U (serial_dev s)"
      "tx U d1 = tx U (serial_dev s) @ u32_bytes ?w"
    using Com_WriteBytes_local_ok [OF L, of "u32_bytes ?w" ?s3] by auto
  have hb: "holds (lheap (?s3\<lparr>serial_dev := d1\<rparr>)) b (?hd @ data)" using w3(2) by simp
  obtain d2 where d2: "Com_WriteBytes M b ?n (?s3\<lparr>serial_dev := d1\<rparr>) = ret (?s3\<lparr>serial_dev := d1\<rparr>\<lparr>serial_dev := d2\<rparr>)"
      "rx U d2 = rx U d1" "tx U d2 = tx U d1 @ take ?n (drop 0 (?hd @ data))"
    using Com_WriteBytes_ok [OF L hb, of 0 ?n] R(4) by auto
  have sent: "SendResponse M (Some r) s = ret (STATUS_SUCCESS, s\<lparr>serial_dev := d2, lheap := h3\<rparr>)"
    using a(1) holds_range(3) [OF a(3)] w2(1) c d1(1) d2(1) nz bad
    by (simp add: SendResponse_def SendPacket_def in_kernel_def Let_def R(1) u del: unat_of_nat)
  have tx: "tx U d2 = tx U (serial_dev s) @ response_packet (resp_header r) data"
    using d1(3) d2(3) R(4) by (simp add: response_packet_def)
  have rx: "rx U d2 = rx U (serial_dev s)" using d1(2) d2(2) by simp
  have fr: "heap_frame (lheap s) h3"
    using heap_frame_trans [OF heap_frame_trans [OF a(5)], of h2 h3] w2(3) w3(3) by (simp add: same_room_def)
  have "q \<noteq> b \<and> holds h3 q cs" if q: "holds (lheap s) q cs" for q cs
  proof -
    have "q \<noteq> b" "holds h1 q cs" using a(6) [OF q] by simp_all
    then show ?thesis using w2(4) w3(4) by simp
  qed
  then show thesis by (rule that [OF sent tx rx w3(2) heap_room_same [OF w3(3) heap_room_same [OF w2(3) a(4)]] fr]) assumption
qed

subsection \<open>Reading memory for the debugger\<close>

lemma IsVirtualAddressAvailable_mmu:
  assumes "self_map s"
  shows "IsVirtualAddressAvailable v s = ret (mmu s v \<noteq> None)"
proof -
  have "paging s" "frame_of (cr3 s) = pd_frame s" using assms by (simp_all add: self_map_def)
  then show ?thesis using read_pde [OF assms, of v] read_pte(1) [OF assms, of v]
    by (simp add: IsVirtualAddressAvailable_def mmu_eq Let_def)
qed

lemma heap_translates:
  assumes "heap_map L s" "in_heap L v"
  shows "IsVirtualAddressAvailable v s = ret True"
proof -
  have "self_map s" using assms(1) by (simp add: heap_map_def kernel_space_def)
  then show ?thesis by (simp add: IsVirtualAddressAvailable_mmu heap_mmu [OF assms])
qed

lemma MemoryCommand_ok:
  assumes src: "holds (lheap s) q src" and n: "0 < n" "j + n \<le> length src"
    and par: "holds (lheap s) (req_param request) (u32_bytes (of_nat n) @ u32_bytes (q + of_nat j))" "req_paramSize request = 8"
    and room: "heap_room (int n # ns) (lheap s)" and dir: "dc_cr3 context = cr3 (lheap s)"
  obtains b h' where "MemoryCommand request context r s = ret (False, context,
      set_data (of_nat n) b (set_status DBG_STATUS_SUCCESS (set_header CMD_MEMORY context r)), s\<lparr>lheap := h'\<rparr>)"
    "holds h' b (take n (drop j src))" "heap_room ns h'" "heap_frame (lheap s) h'"
    "\<And>p cs. holds (lheap s) p cs \<Longrightarrow> p \<noteq> b \<and> holds h' p cs"
proof -
  let ?h = "lheap s" and ?a = "q + of_nat j" and ?L = "last_page (lheap s)"
  note R = holds_range [OF src]
  have small: "n < 2147483648" using R(1,2) n by (simp add: heap_map_def heap_range_def)
  have u: "unat (of_nat n :: u32) = n" "sint (of_nat n :: u32) = int n"
    using small unat_of_nat_u32 [of n] sint_of_nat_u32 [of n] by simp_all
  have e: "?a + of_nat n - 1 = q + of_nat (j + n - 1)" using n(1) by (simp add: of_nat_diff)
  have avail: "IsVirtualAddressAvailable ?a ?h = ret True" "IsVirtualAddressAvailable (?a + of_nat n - 1) ?h = ret True"
    unfolding e using heap_translates [OF R(1)] holds_addr [OF src, of j] holds_addr [OF src, of "j + n - 1"] n by simp_all
  have params: "vread32 ?h (req_param request + 4) = ret ?a" "vread32 ?h (req_param request) = ret (of_nat n)"
    using holds_read32 [OF par(1), of 4] holds_read32 [OF par(1), of 0] by simp_all
  obtain b h1 junk where a: "HeapAlloc (int n) ?h = ret (b, h1)" "length junk = nat (int n)" "holds h1 b junk" "heap_room ns h1"
      "heap_frame ?h h1" "\<And>p cs. holds ?h p cs \<Longrightarrow> p \<noteq> b \<and> holds h1 p cs"
    by (rule holds_alloc [OF R(7) _ _ room]) (use n small in simp_all)
  have src1: "holds h1 q src" "q \<noteq> b" using a(6) [OF src] by simp_all
  obtain h2 where w: "vwrite_bytes b (take n (drop j src)) h1 = ret h2" "holds h2 b (take n (drop j src))" "same_room h1 h2"
      "\<And>p cs. p \<noteq> b \<Longrightarrow> holds h1 p cs \<Longrightarrow> holds h2 p cs"
    using holds_write [OF a(3), of 0 "take n (drop j src)"] a(2) n by auto
  have c: "vMemCopy ?a b n h1 = ret h2"
    using vMemCopy_write [OF src1(1) a(3) src1(2) n(2), of 0] a(2) w(1) by simp
  have regs: "(lheap s)\<lparr>cr3 := cr3 (lheap s)\<rparr> = lheap s" "h2\<lparr>cr3 := cr3 (lheap s)\<rparr> = h2"
  proof -
    have "heap_frame ?h h2" using heap_frame_trans [OF a(5)] w(3) by (simp add: same_room_def)
    then show "h2\<lparr>cr3 := cr3 (lheap s)\<rparr> = h2" by (auto simp: heap_frame_def)
  qed simp
  have "MemoryCommand request context r s = ret (False, context,
      set_data (of_nat n) b (set_status DBG_STATUS_SUCCESS (set_header CMD_MEMORY context r)), s\<lparr>lheap := h2\<rparr>)"
    using params avail a(1) holds_range(3) [OF a(3)] c par(2)
    by (simp add: MemoryCommand_def read_memory_def in_kernel_def Let_def SetCurrentPageDirectory_def GetCurrentPageDirectory_def
      dir u regs)
  moreover have "heap_frame ?h h2" using heap_frame_trans [OF a(5)] w(3) by (simp add: same_room_def)
  moreover have "p \<noteq> b \<and> holds h2 p cs" if p: "holds ?h p cs" for p cs
    using a(6) [OF p] w(4) by simp
  ultimately show thesis using that [of b h2] w(2) heap_room_same [OF w(3) a(4)] by simp
qed

subsection \<open>One round\<close>

definition running_process :: "'z tasks_scheme \<Rightarrow> Process \<Rightarrow> bool" where
  "running_process s pr \<longleftrightarrow> currentThread s \<noteq> nullptr \<and> length (pname pr) = 512 \<and>
     (\<exists>t. threads s (currentThread s) = Some t \<and> th_process t \<noteq> nullptr \<and> processes s (th_process t) = Some pr)"

definition with_name :: "Process \<Rightarrow> KeDebugResponse \<Rightarrow> KeDebugResponse" where
  "with_name pr r = r\<lparr>resp_header := (resp_header r)\<lparr>rh_processName := pname pr\<rparr>\<rparr>"

lemma Update_name:
  "running_process s pr \<Longrightarrow>
   UpdateKeDebugResponseWithProcessInfo (Some c) (Some r) s = ret (STATUS_SUCCESS, Some (with_name pr r))"
  by (auto simp: UpdateKeDebugResponseWithProcessInfo_def running_process_def GetCurrentProcess_def deref_def with_name_def)

lemma with_name_simps [simp]: "resp_data (with_name pr r) = resp_data r"
  by (simp add: with_name_def)

text \<open>Freeing what a local variable points to, if anything.\<close>

lemma free_local_ok:
  assumes p: "p \<noteq> nullptr \<Longrightarrow> holds (lheap s) p bs" and ok: "heap_ok (lheap s)" and room: "heap_room ns (lheap s)"
  obtains h' where "(if p = nullptr then ret s else free_obj p s) = ret (s\<lparr>lheap := h'\<rparr>)" "heap_ok h'" "heap_room ns h'"
    "heap_frame (lheap s) h'" "\<And>q cs. q \<noteq> p \<Longrightarrow> holds (lheap s) q cs \<Longrightarrow> holds h' q cs"
proof (cases "p = nullptr")
  case True
  have "heap_frame (lheap s) (lheap s)" 
    unfolding heap_frame_def by (intro exI [of _ "memBitmap (lheap s)"] exI [of _ "pmem (lheap s)"] exI [of _ "lastBlock (lheap s)"]) simp
  then show thesis using True ok room by (intro that [of "lheap s"]) simp_all
next
  case False
  obtain h' where "HeapFree p (lheap s) = ret h'" "heap_ok h'" "same_room (lheap s) h'"
      "\<And>q cs. q \<noteq> p \<Longrightarrow> holds (lheap s) q cs \<Longrightarrow> holds h' q cs"
    using holds_free [OF p [OF False] room] by blast
  then show thesis using False heap_room_same [OF _ room, of h']
    by (intro that [of h']) (simp_all add: free_obj_def same_room_def)
qed

text \<open>A command that lets the program wait: its answer goes out, and its request and its data are freed.\<close>

lemma serve_answer:
  assumes L: "serial_line M COM2_PORT U" and P: "running_process s pr"
    and ex: "execute_command request context r0 s = ret (False, context, r, s\<lparr>lheap := h1\<rparr>)"
    and ok: "heap_ok h1" "heap_room ((600 + int (length data)) # ns) h1"
    and r: "response_ok h1 (with_name pr r) data" "data = [] \<Longrightarrow> resp_data r = nullptr"
    and par: "req_param request \<noteq> nullptr \<Longrightarrow> holds h1 (req_param request) ps \<and> req_param request \<noteq> resp_data r"
  obtains h' d where "serve_request M request context r0 s = ret (False, context, with_name pr r, s\<lparr>serial_dev := d, lheap := h'\<rparr>)"
    "tx U d = tx U (serial_dev s) @ response_packet (resp_header (with_name pr r)) data" "rx U d = rx U (serial_dev s)"
    "heap_ok h'" "heap_room ns h'" "heap_frame h1 h'"
    "\<And>q cs. q \<noteq> req_param request \<Longrightarrow> q \<noteq> resp_data r \<Longrightarrow> holds h1 q cs \<Longrightarrow> holds h' q cs"
proof -
  have P1: "running_process (s\<lparr>lheap := h1\<rparr>) pr" using P by (simp add: running_process_def)
  obtain b h2 d where s: "SendResponse M (Some (with_name pr r)) (s\<lparr>lheap := h1\<rparr>) =
        ret (STATUS_SUCCESS, s\<lparr>lheap := h1\<rparr>\<lparr>serial_dev := d, lheap := h2\<rparr>)"
      "tx U d = tx U (serial_dev (s\<lparr>lheap := h1\<rparr>)) @ response_packet (resp_header (with_name pr r)) data"
      "rx U d = rx U (serial_dev (s\<lparr>lheap := h1\<rparr>))" "holds h2 b (header_bytes (resp_header (with_name pr r)) @ data)"
      "heap_room ns h2" "heap_frame (lheap (s\<lparr>lheap := h1\<rparr>)) h2" "\<And>q cs. holds (lheap (s\<lparr>lheap := h1\<rparr>)) q cs \<Longrightarrow> q \<noteq> b \<and> holds h2 q cs"
    by (rule SendResponse_ok [OF L, of "s\<lparr>lheap := h1\<rparr>" "with_name pr r" data ns]) (use ok r in simp_all)
  let ?s2 = "s\<lparr>serial_dev := d, lheap := h2\<rparr>"
  obtain h3 where f: "(if req_param request = nullptr then ret ?s2 else free_obj (req_param request) ?s2) = ret (?s2\<lparr>lheap := h3\<rparr>)"
      "heap_ok h3" "heap_room ns h3" "heap_frame (lheap ?s2) h3" "\<And>q cs. q \<noteq> req_param request \<Longrightarrow> holds (lheap ?s2) q cs \<Longrightarrow> holds h3 q cs"
    by (rule free_local_ok [of "req_param request" ?s2 ps ns]) (use par s(5,7) holds_range(7) [OF s(4)] in auto)
  let ?s3 = "s\<lparr>serial_dev := d, lheap := h3\<rparr>"
  have d3: "holds (lheap ?s3) (resp_data r) data" if nz: "resp_data r \<noteq> nullptr"
  proof -
    have "holds h1 (resp_data r) data" using r nz by (auto simp: response_ok_def)
    then have "holds (lheap ?s2) (resp_data r) data" using s(7) by simp
    moreover have "resp_data r \<noteq> req_param request" using par nz by metis
    ultimately show ?thesis using f(5) by simp
  qed
  obtain h4 where g: "(if resp_data r = nullptr then ret ?s3 else free_obj (resp_data r) ?s3) = ret (?s3\<lparr>lheap := h4\<rparr>)"
      "heap_ok h4" "heap_room ns h4" "heap_frame (lheap ?s3) h4" "\<And>q cs. q \<noteq> resp_data r \<Longrightarrow> holds (lheap ?s3) q cs \<Longrightarrow> holds h4 q cs"
    by (rule free_local_ok [of "resp_data r" ?s3 data ns]) (use d3 f(2,3) in simp_all)
  have "serve_request M request context r0 s = ret (False, context, with_name pr r, s\<lparr>serial_dev := d, lheap := h4\<rparr>)"
    unfolding serve_request_def ex andThen_ret prod.case Update_name [OF P1] using s(1) f(1) g(1)
    by (cases "req_param request = nullptr"; cases "resp_data r = nullptr")
      (simp_all add: CleanupKeDebugRequest_def CleanupKeDebugResponse_def)
  moreover have "heap_frame h1 h4" using heap_frame_trans [OF heap_frame_trans [OF _ f(4)]] s(6) g(4) by simp
  moreover have "holds h4 q cs" if "q \<noteq> req_param request" "q \<noteq> resp_data r" "holds h1 q cs" for q cs
    using that s(7) f(5) g(5) by simp
  ultimately show thesis using that [of h4 d] s(2,3) g(2,3) by simp
qed

subsection \<open>Sessions\<close>

text \<open>
  What the other end asks while the program waits: the registers, or bytes of the block at \<open>q\<close>, given by the
  offset in the block and the length; and what it lets the program do in the end.
\<close>

datatype query = Ask_registers | Ask_memory nat nat

datatype resume = Resume_step | Resume_continue | Resume_quit

fun query_packet :: "addr \<Rightarrow> query \<Rightarrow> u8 list" where
  "query_packet q Ask_registers = request_packet CMD_REGISTERS []"
| "query_packet q (Ask_memory j n) = request_packet CMD_MEMORY (u32_bytes (of_nat n) @ u32_bytes (q + of_nat j))"

fun resume_packet :: "resume \<Rightarrow> u8 list" where
  "resume_packet Resume_step = request_packet CMD_STEP []"
| "resume_packet Resume_continue = request_packet CMD_CONTINUE []"
| "resume_packet Resume_quit = request_packet CMD_QUIT []"

definition answer_header :: "u32 \<Rightarrow> KeDebugContext \<Rightarrow> Process \<Rightarrow> u8 list \<Rightarrow> KeDebugResponseHeader" where
  "answer_header command context pr data = \<lparr>rh_command = command, rh_status = DBG_STATUS_SUCCESS, rh_context = context,
     rh_processName = pname pr, rh_dataSize = of_nat (length data)\<rparr>"

fun query_answer :: "KeDebugContext \<Rightarrow> Process \<Rightarrow> u8 list \<Rightarrow> query \<Rightarrow> u8 list" where
  "query_answer context pr src Ask_registers = response_packet (answer_header CMD_REGISTERS context pr []) []"
| "query_answer context pr src (Ask_memory j n) =
     response_packet (answer_header CMD_MEMORY context pr (take n (drop j src))) (take n (drop j src))"

text \<open>The trap flag makes the processor stop again after one instruction; the other two clear it.\<close>

fun resumed_context :: "resume \<Rightarrow> KeDebugContext \<Rightarrow> KeDebugContext" where
  "resumed_context Resume_step c = c\<lparr>dc_eflags := dc_eflags c OR 0x100\<rparr>"
| "resumed_context Resume_continue c = c\<lparr>dc_eflags := dc_eflags c AND 0xFEFF\<rparr>"
| "resumed_context Resume_quit c = c\<lparr>dc_eflags := dc_eflags c AND 0xFEFF\<rparr>"

fun query_within :: "u8 list \<Rightarrow> query \<Rightarrow> bool" where
  "query_within src Ask_registers \<longleftrightarrow> True"
| "query_within src (Ask_memory j n) \<longleftrightarrow> 0 < n \<and> j + n \<le> length src"

text \<open>The allocations a query takes: the packet, the parameters, the data and the answer.\<close>

fun query_sizes :: "query \<Rightarrow> int list" where
  "query_sizes Ask_registers = [8, 600]"
| "query_sizes (Ask_memory j n) = [16, 8, int n, 600 + int n]"

text \<open>What one round changes: the link, and blocks of the heap that nobody had.\<close>

definition round_change :: "('d, 'z) debugger_scheme \<Rightarrow> ('d, 'z) debugger_scheme \<Rightarrow> bool" where
  "round_change s s' \<longleftrightarrow> (\<exists>d h. s' = s\<lparr>serial_dev := d, lheap := h\<rparr> \<and> heap_frame (lheap s) h \<and> heap_ok h \<and>
     (\<forall>q cs. holds (lheap s) q cs \<longrightarrow> holds h q cs))"

lemma round_change_trans:
  assumes "round_change s s1" "round_change s1 s'"
  shows "round_change s s'"
proof -
  obtain d h where 1: "s1 = s\<lparr>serial_dev := d, lheap := h\<rparr>" "heap_frame (lheap s) h" "\<forall>q cs. holds (lheap s) q cs \<longrightarrow> holds h q cs"
    using assms(1) unfolding round_change_def by blast
  obtain d' h' where 2: "s' = s1\<lparr>serial_dev := d', lheap := h'\<rparr>" "heap_frame (lheap s1) h'" "heap_ok h'"
      "\<forall>q cs. holds (lheap s1) q cs \<longrightarrow> holds h' q cs"
    using assms(2) unfolding round_change_def by blast
  have "s' = s\<lparr>serial_dev := d', lheap := h'\<rparr>" "lheap s1 = h" using 1(1) 2(1) by simp_all
  with 1 2 heap_frame_trans [OF 1(2)] show ?thesis
    unfolding round_change_def by (intro exI [of _ d'] exI [of _ h']) simp
qed

lemma round_change_keeps:
  assumes "round_change s s'"
  shows "running_process s' pr \<longleftrightarrow> running_process s pr" "holds (lheap s) q bs \<Longrightarrow> holds (lheap s') q bs"
    "cr3 (lheap s') = cr3 (lheap s)" "heap_ok (lheap s')"
  using assms by (auto simp: round_change_def running_process_def heap_frame_def)

lemma query_round:
  assumes L: "serial_line M COM2_PORT U" and P: "running_process s pr" and src: "holds (lheap s) q src" and x: "query_within src x"
    and rx: "rx U (serial_dev s) = query_packet q x @ rest" and room: "heap_room (query_sizes x @ ns) (lheap s)"
    and dir: "dc_cr3 context = cr3 (lheap s)"
  obtains request r s' where "packet_loop M request0 context r0 s = packet_loop M request context r s'" "round_change s s'"
    "rx U (serial_dev s') = rest" "tx U (serial_dev s') = tx U (serial_dev s) @ query_answer context pr src x" "heap_room ns (lheap s')"
proof (cases x)
  case Ask_registers
  obtain rq h1 d1 where r: "RecvRequest M request0 s = ret (STATUS_SUCCESS, rq, s\<lparr>serial_dev := d1, lheap := h1\<rparr>)"
      "received (lheap s) CMD_REGISTERS [] rq h1" "heap_room (600 # ns) h1" "heap_frame (lheap s) h1" "rx U d1 = rest" "tx U d1 = tx U (serial_dev s)"
    by (rule RecvRequest_ok [OF L, of s CMD_REGISTERS "[]" rest "600 # ns" request0])
      (use rx room holds_range(7) [OF src] Ask_registers in \<open>simp_all add: request_sizes_def\<close>)
  let ?s1 = "s\<lparr>serial_dev := d1, lheap := h1\<rparr>" and ?r = "plain_response CMD_REGISTERS DBG_STATUS_SUCCESS context r0"
  have P1: "running_process ?s1 pr" using P by (simp add: running_process_def)
  have ex: "execute_command rq context r0 ?s1 = ret (False, context, ?r, ?s1\<lparr>lheap := h1\<rparr>)"
    using r(2) by (simp add: received_def execute_command_def RegistersCommand_def)
  have rok: "response_ok h1 (with_name pr ?r) []"
    using P by (simp add: response_ok_def with_name_def plain_response_def running_process_def)
  obtain h2 d2 where sv: "serve_request M rq context r0 ?s1 = ret (False, context, with_name pr ?r, ?s1\<lparr>serial_dev := d2, lheap := h2\<rparr>)"
      "tx U d2 = tx U (serial_dev ?s1) @ response_packet (resp_header (with_name pr ?r)) []" "rx U d2 = rx U (serial_dev ?s1)"
      "heap_ok h2" "heap_room ns h2" "heap_frame h1 h2" "\<And>p cs. p \<noteq> req_param rq \<Longrightarrow> p \<noteq> resp_data ?r \<Longrightarrow> holds h1 p cs \<Longrightarrow> holds h2 p cs"
    by (rule serve_answer [OF L P1 ex _ _ rok, of ns "[]"]) (use r(2,3) in \<open>simp_all add: received_def plain_response_def\<close>)
  let ?s' = "s\<lparr>serial_dev := d2, lheap := h2\<rparr>"
  have "packet_loop M request0 context r0 s = packet_loop M rq context (with_name pr ?r) ?s'"
    by (subst packet_loop.simps) (simp add: r(1) sv(1))
  moreover have "holds h2 p cs" if p: "holds (lheap s) p cs" for p cs
    using sv(7) [of p cs] r(2) holds_range(3) [OF p] p by (simp add: received_def plain_response_def)
  then have "round_change s ?s'"
    unfolding round_change_def using sv(4) heap_frame_trans [OF r(4) sv(6)]
    by (intro exI [of _ d2] exI [of _ h2]) simp
  moreover have "resp_header (with_name pr ?r) = answer_header CMD_REGISTERS context pr []"
    by (rule KeDebugResponseHeader.equality) (simp_all add: with_name_def plain_response_def answer_header_def)
  ultimately show thesis using that [of rq "with_name pr ?r" ?s'] sv(2,3,5) r(5,6) Ask_registers by simp
next
  case (Ask_memory j n)
  let ?params = "u32_bytes (of_nat n) @ u32_bytes (q + of_nat j)" and ?data = "take n (drop j src)"
  have n: "0 < n" "j + n \<le> length src" "length ?data = n" using x Ask_memory by auto
  have small: "n < 2147483000" using holds_range(1,2) [OF src] n by (simp add: heap_map_def heap_range_def)
  obtain rq h1 d1 where r: "RecvRequest M request0 s = ret (STATUS_SUCCESS, rq, s\<lparr>serial_dev := d1, lheap := h1\<rparr>)"
      "received (lheap s) CMD_MEMORY ?params rq h1" "heap_room (int n # (600 + int n) # ns) h1" "heap_frame (lheap s) h1"
      "rx U d1 = rest" "tx U d1 = tx U (serial_dev s)"
    by (rule RecvRequest_ok [OF L, of s CMD_MEMORY ?params rest "int n # (600 + int n) # ns" request0])
      (use rx room holds_range(7) [OF src] Ask_memory in \<open>simp_all add: request_sizes_def u32_bytes_def\<close>)
  let ?s1 = "s\<lparr>serial_dev := d1, lheap := h1\<rparr>"
  have ne: "?params \<noteq> []" by (simp add: u32_bytes_def)
  note rq = r(2) [unfolded received_def if_not_P [OF ne]]
  have c1: "cr3 (lheap ?s1) = cr3 (lheap s)" using r(4) by (auto simp: heap_frame_def)
  obtain b h2 where m: "MemoryCommand rq context r0 ?s1 = ret (False, context,
        set_data (of_nat n) b (set_status DBG_STATUS_SUCCESS (set_header CMD_MEMORY context r0)), ?s1\<lparr>lheap := h2\<rparr>)"
      "holds h2 b ?data" "heap_room ((600 + int n) # ns) h2" "heap_frame (lheap ?s1) h2" "\<And>p cs. holds (lheap ?s1) p cs \<Longrightarrow> p \<noteq> b \<and> holds h2 p cs"
    by (rule MemoryCommand_ok [of ?s1 q src n j rq "(600 + int n) # ns" "context" r0]) (use rq src n(1,2) r(3) dir c1 in simp_all)
  let ?r = "set_data (of_nat n) b (set_status DBG_STATUS_SUCCESS (set_header CMD_MEMORY context r0))"
  have ex: "execute_command rq context r0 ?s1 = ret (False, context, ?r, ?s1\<lparr>lheap := h2\<rparr>)"
    using rq m(1) by (simp add: execute_command_def)
  have P1: "running_process ?s1 pr" using P by (simp add: running_process_def)
  have rok: "response_ok h2 (with_name pr ?r) ?data"
    using P m(2) n small by (simp add: response_ok_def with_name_def set_data_def set_status_def set_header_def running_process_def)
  have par: "holds h2 (req_param rq) ?params" "req_param rq \<noteq> b" using m(5) [of "req_param rq" ?params] rq by simp_all
  obtain h3 d2 where sv: "serve_request M rq context r0 ?s1 = ret (False, context, with_name pr ?r, ?s1\<lparr>serial_dev := d2, lheap := h3\<rparr>)"
      "tx U d2 = tx U (serial_dev ?s1) @ response_packet (resp_header (with_name pr ?r)) ?data" "rx U d2 = rx U (serial_dev ?s1)"
      "heap_ok h3" "heap_room ns h3" "heap_frame h2 h3" "\<And>p cs. p \<noteq> req_param rq \<Longrightarrow> p \<noteq> resp_data ?r \<Longrightarrow> holds h2 p cs \<Longrightarrow> holds h3 p cs"
    by (rule serve_answer [OF L P1 ex _ _ rok, of ns ?params])
      (use m(3) n holds_range(7) [OF m(2)] par in \<open>simp_all add: set_data_def\<close>)
  let ?s' = "s\<lparr>serial_dev := d2, lheap := h3\<rparr>"
  have "packet_loop M request0 context r0 s = packet_loop M rq context (with_name pr ?r) ?s'"
    by (subst packet_loop.simps) (simp add: r(1) sv(1))
  moreover have "holds h3 p cs" if p: "holds (lheap s) p cs" for p cs
  proof -
    have "holds h1 p cs" "p \<noteq> req_param rq" using rq p by auto
    then show ?thesis using m(5) [of p cs] sv(7) [of p cs] by (simp add: set_data_def)
  qed
  then have "round_change s ?s'"
    unfolding round_change_def using sv(4) heap_frame_trans [OF r(4) heap_frame_trans [OF _ sv(6)]] m(4)
    by (intro exI [of _ d2] exI [of _ h3]) simp
  moreover have "resp_header (with_name pr ?r) = answer_header CMD_MEMORY context pr ?data"
    by (rule KeDebugResponseHeader.equality)
      (use n(3) in \<open>simp_all add: with_name_def set_data_def set_status_def set_header_def answer_header_def del: length_take\<close>)
  ultimately show thesis using that [of rq "with_name pr ?r" ?s'] sv(2,3,5) r(5,6) Ask_memory by simp
qed

lemma resume_round:
  assumes L: "serial_line M COM2_PORT U" and P: "running_process s pr" and ok: "heap_ok (lheap s)"
    and rx: "rx U (serial_dev s) = resume_packet e @ rest" and room: "heap_room (8 # ns) (lheap s)"
  obtains s' where "packet_loop M request0 context r0 s = ret (resumed_context e context, s')" "round_change s s'"
    "rx U (serial_dev s') = rest" "tx U (serial_dev s') = tx U (serial_dev s)"
proof -
  define command where "command = (case e of Resume_step \<Rightarrow> CMD_STEP | Resume_continue \<Rightarrow> CMD_CONTINUE | Resume_quit \<Rightarrow> CMD_QUIT)"
  have pk: "resume_packet e = request_packet command []" by (cases e) (simp_all add: command_def)
  obtain rq h1 d1 where r: "RecvRequest M request0 s = ret (STATUS_SUCCESS, rq, s\<lparr>serial_dev := d1, lheap := h1\<rparr>)"
      "received (lheap s) command [] rq h1" "heap_room ns h1" "heap_frame (lheap s) h1" "rx U d1 = rest" "tx U d1 = tx U (serial_dev s)"
    by (rule RecvRequest_ok [OF L, of s command "[]" rest ns request0]) (use rx room ok in \<open>simp_all add: request_sizes_def pk\<close>)
  let ?s1 = "s\<lparr>serial_dev := d1, lheap := h1\<rparr>"
  let ?r = "plain_response command DBG_STATUS_SUCCESS (resumed_context e context) r0"
  have P1: "running_process ?s1 pr" using P by (simp add: running_process_def)
  have ex: "execute_command rq context r0 ?s1 = ret (True, resumed_context e context, ?r, ?s1)"
    using r(2) by (cases e)
      (simp_all add: command_def received_def execute_command_def StepCommand_def ContinueCommand_def QuitCommand_def Let_def)
  have "serve_request M rq context r0 ?s1 = ret (True, resumed_context e context, with_name pr ?r, ?s1)"
    unfolding serve_request_def ex andThen_ret prod.case Update_name [OF P1] using r(2)
    by (simp add: CleanupKeDebugRequest_def CleanupKeDebugResponse_def received_def plain_response_def)
  then have "packet_loop M request0 context r0 s = ret (resumed_context e context, ?s1)"
    by (subst packet_loop.simps) (simp add: r(1))
  moreover have "round_change s ?s1"
    unfolding round_change_def using r(2,4) by (intro exI [of _ d1] exI [of _ h1]) (simp add: received_def)
  ultimately show thesis using that [of ?s1] r(5,6) by simp
qed

lemma session_rounds:
  assumes L: "serial_line M COM2_PORT U"
  shows "running_process s pr \<Longrightarrow> holds (lheap s) q src \<Longrightarrow> \<forall>x \<in> set xs. query_within src x \<Longrightarrow>
    rx U (serial_dev s) = concat (map (query_packet q) xs) @ resume_packet e @ rest \<Longrightarrow>
    heap_room (concat (map query_sizes xs) @ [8]) (lheap s) \<Longrightarrow> dc_cr3 context = cr3 (lheap s) \<Longrightarrow>
    \<exists>s'. packet_loop M request context r s = ret (resumed_context e context, s') \<and> round_change s s' \<and> rx U (serial_dev s') = rest \<and>
      tx U (serial_dev s') = tx U (serial_dev s) @ concat (map (query_answer context pr src) xs)"
proof (induction xs arbitrary: s request r)
  case Nil
  then show ?case
    using resume_round [OF L Nil.prems(1) holds_range(7) [OF Nil.prems(2)], of e rest "[]" request "context" r] by auto
next
  case (Cons x xs)
  obtain rq r' s1 where 1: "packet_loop M request context r s = packet_loop M rq context r' s1" "round_change s s1"
      "rx U (serial_dev s1) = concat (map (query_packet q) xs) @ resume_packet e @ rest"
      "tx U (serial_dev s1) = tx U (serial_dev s) @ query_answer context pr src x" "heap_room (concat (map query_sizes xs) @ [8]) (lheap s1)"
    by (rule query_round [OF L Cons.prems(1,2), of x "concat (map (query_packet q) xs) @ resume_packet e @ rest"
        "concat (map query_sizes xs) @ [8]" "context" request r]) (use Cons.prems(3-6) in simp_all)
  note k = round_change_keeps [OF 1(2)]
  obtain s' where "packet_loop M rq context r' s1 = ret (resumed_context e context, s')" "round_change s1 s'"
      "rx U (serial_dev s') = rest" "tx U (serial_dev s') = tx U (serial_dev s1) @ concat (map (query_answer context pr src) xs)"
    using Cons.IH [of s1 rq r'] 1(3,5) k Cons.prems by auto
  then show ?case using 1 round_change_trans [OF 1(2), of s'] by auto
qed

subsection \<open>Connecting and breaking\<close>

lemma BreakpointHit_ok:
  assumes L: "serial_line M COM2_PORT U" and P: "running_process s pr" and ok: "heap_ok (lheap s)" and room: "heap_room (600 # ns) (lheap s)"
  obtains s' where "BreakpointHit M r0 context s = ret s'" "round_change s s'" "rx U (serial_dev s') = rx U (serial_dev s)"
    "tx U (serial_dev s') = tx U (serial_dev s) @
       response_packet ((answer_header CMD_UNKNOWN context pr [])\<lparr>rh_status := DBG_STATUS_BREAKPOINT_REACHED\<rparr>) []"
    "heap_room ns (lheap s')"
proof -
  let ?r = "with_name pr (plain_response CMD_UNKNOWN DBG_STATUS_BREAKPOINT_REACHED context r0)"
  have rok: "response_ok (lheap s) ?r []"
    using P by (simp add: response_ok_def with_name_def plain_response_def running_process_def)
  have hdr: "resp_header ?r = (answer_header CMD_UNKNOWN context pr [])\<lparr>rh_status := DBG_STATUS_BREAKPOINT_REACHED\<rparr>"
    by (rule KeDebugResponseHeader.equality) (simp_all add: with_name_def plain_response_def answer_header_def)
  obtain b h' d where s: "SendResponse M (Some ?r) s = ret (STATUS_SUCCESS, s\<lparr>serial_dev := d, lheap := h'\<rparr>)"
      "tx U d = tx U (serial_dev s) @ response_packet (resp_header ?r) []" "rx U d = rx U (serial_dev s)"
      "holds h' b (header_bytes (resp_header ?r) @ [])" "heap_room ns h'" "heap_frame (lheap s) h'"
      "\<And>q cs. holds (lheap s) q cs \<Longrightarrow> q \<noteq> b \<and> holds h' q cs"
    by (rule SendResponse_ok [OF L rok ok, of ns]) (use room in simp_all)
  have "BreakpointHit M r0 context s = ret (s\<lparr>serial_dev := d, lheap := h'\<rparr>)"
    using s(1) by (simp add: BreakpointHit_def Let_def Update_name [OF P])
  moreover have "round_change s (s\<lparr>serial_dev := d, lheap := h'\<rparr>)"
    unfolding round_change_def using s(6,7) holds_range(7) [OF s(4)] by (intro exI [of _ d] exI [of _ h']) simp
  ultimately show thesis using that [of "s\<lparr>serial_dev := d, lheap := h'\<rparr>"] s(2,3,5) hdr by simp
qed

subsection \<open>A machine being debugged\<close>

text \<open>
  The booted machine with two threads, the second serial port connected to a line that is always ready: its state
  are the bytes on their way to the kernel and those the kernel has sent. The block at 0x1001004 holds the elements of the page pool.
\<close>

definition com2_ports :: "(u8 list \<times> u8 list) ports" where
  "com2_ports = \<lparr>inb = (\<lambda>p d. if p = COM2_PORT then (hd (fst d), (tl (fst d), snd d)) else (if fst d = [] then 0x20 else 0x21, d)),
     outb = (\<lambda>p c d. (fst d, snd d @ [c])), inw = (\<lambda>p d. (0, d)), outw = (\<lambda>p w d. d)\<rparr>"

definition com2_line :: "(u8 list \<times> u8 list) uart" where
  "com2_line = \<lparr>rx = fst, rx_wait = (\<lambda>_. 0), tx = snd, tx_wait = (\<lambda>_. 0)\<rparr>"

lemma com2_serial_line: "serial_line com2_ports COM2_PORT com2_line"
  by (auto simp: serial_line_def line_status_def com2_ports_def com2_line_def)

definition debug_process :: Process where
  "debug_process = a_process\<lparr>pname := kernel_image_name\<rparr>"

definition debugged :: "u8 list \<Rightarrow> bool \<Rightarrow> (u8 list \<times> u8 list) debugger" where
  "debugged input connected = tasks.extend
     ((two_tasks THREAD_PRIORITY_NORMAL)\<lparr>lheap := pool.extend booted (vad_space.fields Map.empty), processes := [0x5000 \<mapsto> debug_process]\<rparr>)
     (debugger.fields (input, []) \<lparr>idt_limit = 0, idt_base = nullptr\<rparr> True connected)"

lemma debugged_simps [simp]:
  "serial_dev (debugged i c) = (i, [])" "dbg_isInitialized (debugged i c) = True" "dbg_isConnected (debugged i c) = c"
  "rx com2_line (d :: u8 list \<times> u8 list) = fst d" "tx com2_line (d :: u8 list \<times> u8 list) = snd d"
  by (simp_all add: debugged_def tasks.defs debugger.defs com2_line_def)

lemma debugged_process: "running_process (debugged i c) debug_process"
  by (simp add: running_process_def debugged_def tasks.defs debugger.defs two_tasks_def a_thread_def debug_process_def kernel_image_name_def)

lemma debugged_same:
  "pmem (lheap (debugged i c)) = pmem booted" "cr3 (lheap (debugged i c)) = cr3 booted"
  "paging (lheap (debugged i c)) = paging booted" "memBitmap (lheap (debugged i c)) = memBitmap booted"
  "lastBlock (lheap (debugged i c)) = lastBlock booted" "baseBlock (lheap (debugged i c)) = baseBlock booted"
  by (simp_all add: debugged_def tasks.defs debugger.defs two_tasks_def pool.defs vad_space.defs)

lemma debugged_heap: "heap_inv (lheap (debugged i c)) [(4096, False), (32772, True), (4092, False)]"
  and debugged_room: "free_frames (lheap (debugged i c)) = 14326" "last_page (lheap (debugged i c)) = 4106"
proof -
  note same = machine_same [OF debugged_same(1-4) [of i c]]
  have v: "view (lheap (debugged i c)) = view booted" by (rule ext) (simp add: view_def same debugged_same(1))
  show l: "last_page (lheap (debugged i c)) = 4106" using booted_heap(2) by (simp add: last_page_def debugged_same(5))
  show "heap_inv (lheap (debugged i c)) [(4096, False), (32772, True), (4092, False)]"
    using booted_heap unfolding heap_inv_def v l by (simp add: same debugged_same(5,6))
  show "free_frames (lheap (debugged i c)) = 14326" using booted_free same by simp
qed

lemma debugged_heap_room:
  assumes "(\<Sum>n\<leftarrow>ns. n_pages (nat n + 4)) \<le> 100"
  shows "heap_room ns (lheap (debugged i c))"
proof -
  have "(4106 + j) mod 1024 \<noteq> 1023" if "j \<le> 100" for j :: nat
  proof -
    have "(4106 + j) mod 1024 = (10 + j + 1024 * 4) mod 1024" by (simp add: add.commute)
    also have "\<dots> = 10 + j" using that by (simp only: mod_mult_self2) simp
    finally show ?thesis using that by simp
  qed
  then show ?thesis using assms by (auto simp: heap_room_def debugged_room)
qed

lemma debugged_holds: obtains src where "length src = 32" "holds (lheap (debugged i c)) 0x1001004 src"
proof -
  let ?h = "lheap (debugged i c)" and ?a = "16781316 :: nat"
  have t: "tiles (view ?h) 16777216 [(4096, False), (32772, True), (4092, False)]" by (rule heap_invD(3) [OF debugged_heap])
  define src where "src = map (\<lambda>k. view ?h (of_nat (?a + k))) [0..<32]"
  have hdr: "hdr_at (view ?h) (?a - 4) = (32772, True)" using t by simp
  have "holds ?h (of_nat ?a) src"
    unfolding holds_def
  proof (intro exI conjI)
    show "heap_inv ?h [(4096, False), (32772, True), (4092, False)]" by (rule debugged_heap)
    show "length src + 4 \<le> fst (hdr_at (view ?h) (?a - 4))" unfolding hdr by (simp add: src_def)
    show "\<forall>i < length src. view ?h (of_nat (?a + i)) = src ! i" by (simp add: src_def)
  qed simp_all
  then show thesis using that [of src] by (simp add: src_def)
qed

definition a_context :: KeDebugContext where
  "a_context = \<lparr>dc_cr3 = cr3 booted, dc_cr2 = 0, dc_cr0 = 0x80000011, dc_gs = 0x10, dc_fs = 0x10, dc_es = 0x10, dc_ds = 0x10, dc_ss = 0x10,
     dc_edi = 0, dc_esi = 0, dc_ebp = 0, dc_esp = 0x9FFF0, dc_ebx = 0, dc_edx = 0, dc_ecx = 0, dc_eax = 42, dc_eip = 0x100010, dc_cs = 8,
     dc_padding = 0, dc_eflags = 0x202\<rparr>"

definition unset_request :: KeDebugRequest where
  "unset_request = \<lparr>req_command = 0, req_paramSize = 0, req_param = nullptr\<rparr>"

definition unset_response :: KeDebugResponse where
  "unset_response = \<lparr>resp_header = \<lparr>rh_command = 0, rh_status = DBG_STATUS_SUCCESS, rh_context = a_context, rh_processName = replicate 512 0,
     rh_dataSize = 0\<rparr>, resp_data = nullptr\<rparr>"

subsection \<open>Properties\<close>

text \<open>C36: \<^verbatim>\<open>LtDbgCom::RecvRequest\<close> receives what the other end sends: from a packet with a command and its
  parameters, of any length below 2 GiB, it makes the request with this command, and the parameters in a block of the heap of their own (a
  null pointer without parameters). It takes from the line exactly the packet; the block of the packet is freed, the blocks
  in use keep what they hold, and the heap grows by no more than the two blocks need.\<close>

theorem RecvRequest_receives:
  assumes "serial_line M COM2_PORT U" and "rx U (serial_dev s) = request_packet command params @ rest" and "length params < 2147483640"
    and "heap_ok (lheap s)" and "heap_room (request_sizes params @ ns) (lheap s)"
  shows "\<exists>r h' d. RecvRequest M request s = ret (STATUS_SUCCESS, r, s\<lparr>serial_dev := d, lheap := h'\<rparr>) \<and> rx U d = rest \<and>
    tx U d = tx U (serial_dev s) \<and> received (lheap s) command params r h' \<and> heap_room ns h'"
  using RecvRequest_ok [OF assms(1,2,4,5,3), of request] by blast

theorem RecvRequest_receives_witness:
  "\<exists>r s'. RecvRequest com2_ports unset_request (debugged (request_packet CMD_DISASS [3, 0, 0, 0]) True) = ret (STATUS_SUCCESS, r, s') \<and>
     req_command r = CMD_DISASS \<and> req_paramSize r = 4 \<and> vread32 (lheap s') (req_param r) = ret 3 \<and> fst (serial_dev s') = []"
proof -
  let ?s = "debugged (request_packet CMD_DISASS [3, 0, 0, 0]) True"
  have ok: "heap_ok (lheap ?s)" using debugged_heap by (auto simp: heap_ok_def)
  have room: "heap_room (request_sizes [3, 0, 0, 0] @ []) (lheap ?s)"
    by (rule debugged_heap_room) (simp add: request_sizes_def n_pages_def)
  obtain r h' d where r: "RecvRequest com2_ports unset_request ?s = ret (STATUS_SUCCESS, r, ?s\<lparr>serial_dev := d, lheap := h'\<rparr>)"
      "rx com2_line d = []" "received (lheap ?s) CMD_DISASS [3, 0, 0, 0] r h'"
    using RecvRequest_receives [OF com2_serial_line _ _ ok room, of CMD_DISASS "[]" unset_request] by auto
  then have "holds h' (req_param r) [3, 0, 0, 0]" by (simp add: received_def)
  from holds_read32 [OF this, of 0] have "vread32 h' (req_param r) = ret 3" by (simp add: bytes_u32_def)
  then show ?thesis using r by (auto simp: received_def)
qed



text \<open>C35: A debugging session. When a connected kernel hits a breakpoint, it tells so and then serves the other end: for any
  sequence of queries, of registers or of bytes of a block in use, and a last command that lets the program go on, the
  handler returns, having sent the answers in order, with the registers at the breakpoint, the name of the process and exactly the
  bytes asked for. The program goes on with its registers, the trap flag set for a step and cleared otherwise. The state changes in the
  line and the heap only, and the blocks that were in use hold what they did.\<close>

theorem breakpoint_session:
  assumes "serial_line M COM2_PORT U" and "dbg_isInitialized s" and "dbg_isConnected s" and "running_process s pr"
    and "holds (lheap s) q src" and "\<forall>x \<in> set queries. query_within src x"
    and "rx U (serial_dev s) = concat (map (query_packet q) queries) @ resume_packet e @ rest"
    and "heap_room (600 # concat (map query_sizes queries) @ [8]) (lheap s)" and "dc_cr3 context = cr3 (lheap s)"
  shows "\<exists>s'. BreakpointIsr M hit0 connect0 wait0 context s = ret (Some (resumed_context e context), s') \<and> round_change s s' \<and>
    rx U (serial_dev s') = rest \<and> tx U (serial_dev s') = tx U (serial_dev s) @
      response_packet ((answer_header CMD_UNKNOWN context pr [])\<lparr>rh_status := DBG_STATUS_BREAKPOINT_REACHED\<rparr>) [] @
      concat (map (query_answer context pr src) queries)"
proof -
  obtain s1 where 1: "BreakpointHit M hit0 context s = ret s1" "round_change s s1" "rx U (serial_dev s1) = rx U (serial_dev s)"
      "tx U (serial_dev s1) = tx U (serial_dev s) @
        response_packet ((answer_header CMD_UNKNOWN context pr [])\<lparr>rh_status := DBG_STATUS_BREAKPOINT_REACHED\<rparr>) []"
      "heap_room (concat (map query_sizes queries) @ [8]) (lheap s1)"
    by (rule BreakpointHit_ok [OF assms(1,4) holds_range(7) [OF assms(5)] assms(8)])
  note k = round_change_keeps [OF 1(2)]
  obtain s' where 2: "packet_loop M (fst wait0) context (snd wait0) s1 = ret (resumed_context e context, s')" "round_change s1 s'"
      "rx U (serial_dev s') = rest" "tx U (serial_dev s') = tx U (serial_dev s1) @ concat (map (query_answer context pr src) queries)"
    using session_rounds [OF assms(1), of s1 pr q src queries e rest "context" "fst wait0" "snd wait0"] 1(3,5) k assms by auto
  have "BreakpointIsr M hit0 connect0 wait0 context s = ret (Some (resumed_context e context), s')"
    using assms(2,3) 1(1) 2(1) by (simp add: BreakpointIsr_def WaitForPacket_def)
  then show ?thesis using 1(4) 2 round_change_trans [OF 1(2)] by auto
qed

theorem breakpoint_session_witness:
  "\<exists>src s'. length src = 32 \<and> vread_bytes 0x1001004 32 (lheap s') = ret src \<and>
     BreakpointIsr com2_ports unset_response (unset_request, unset_response) (unset_request, unset_response) a_context
       (debugged (request_packet CMD_REGISTERS [] @ request_packet CMD_MEMORY (u32_bytes 8 @ u32_bytes 0x1001008) @ request_packet CMD_STEP []) True) =
       ret (Some (a_context\<lparr>dc_eflags := 0x302\<rparr>), s') \<and>
     snd (serial_dev s') = response_packet ((answer_header CMD_UNKNOWN a_context debug_process [])\<lparr>rh_status := DBG_STATUS_BREAKPOINT_REACHED\<rparr>) [] @
       response_packet (answer_header CMD_REGISTERS a_context debug_process []) [] @
       response_packet (answer_header CMD_MEMORY a_context debug_process (take 8 (drop 4 src))) (take 8 (drop 4 src))"
proof -
  let ?in = "request_packet CMD_REGISTERS [] @ request_packet CMD_MEMORY (u32_bytes 8 @ u32_bytes 0x1001008) @ request_packet CMD_STEP []"
  let ?s = "debugged ?in True" and ?qs = "[Ask_registers, Ask_memory 4 8]"
  obtain src where src: "length src = 32" "holds (lheap ?s) 0x1001004 src" by (rule debugged_holds)
  have room: "heap_room (600 # concat (map query_sizes ?qs) @ [8]) (lheap ?s)"
    by (rule debugged_heap_room) (simp add: n_pages_def)
  have hyps: "dbg_isInitialized ?s" "dbg_isConnected ?s" "\<forall>x \<in> set ?qs. query_within src x" "dc_cr3 a_context = cr3 (lheap ?s)"
      "rx com2_line (serial_dev ?s) = concat (map (query_packet 0x1001004) ?qs) @ resume_packet Resume_step @ []"
    using src(1) by (simp_all add: debugged_same a_context_def)
  obtain s' where s': "BreakpointIsr com2_ports unset_response (unset_request, unset_response) (unset_request, unset_response) a_context ?s =
        ret (Some (resumed_context Resume_step a_context), s')" "round_change ?s s'"
      "tx com2_line (serial_dev s') = tx com2_line (serial_dev ?s) @
        response_packet ((answer_header CMD_UNKNOWN a_context debug_process [])\<lparr>rh_status := DBG_STATUS_BREAKPOINT_REACHED\<rparr>) [] @
        concat (map (query_answer a_context debug_process src) ?qs)"
    using breakpoint_session [OF com2_serial_line hyps(1,2) debugged_process src(2) hyps(3,5) room hyps(4),
      of unset_response "(unset_request, unset_response)" "(unset_request, unset_response)"] by blast
  have "resumed_context Resume_step a_context = a_context\<lparr>dc_eflags := 0x302\<rparr>" by (simp add: a_context_def)
  moreover have "vread_bytes 0x1001004 32 (lheap s') = ret src"
    using vread_bytes_holds [OF round_change_keeps(2) [OF s'(2) src(2)], of 0 32] src(1) by simp
  ultimately show ?thesis using s'(1,3) src(1) by (intro exI [of _ src] exI [of _ s']) simp
qed

text \<open>C37: Connecting: the first breakpoint waits for a byte and a request of the other end and sends a byte back. The kernel
  is connected after it when the request was to connect, and also when just the byte was 1; only the request to connect is
  answered, with the registers and the name of the process.\<close>

theorem connect_handshake:
  assumes "serial_line M COM2_PORT U" and "running_process s pr" and "heap_ok (lheap s)" and "heap_room [8, 600] (lheap s)"
    and "rx U (serial_dev s) = b # request_packet command [] @ rest"
  shows "\<exists>s'. WaitForConnectCommand M request0 r0 (Some context) s = ret s' \<and> rx U (serial_dev s') = rest \<and>
    (dbg_isConnected s' \<longleftrightarrow> dbg_isConnected s \<or> b = 1 \<or> command = CMD_CONNECT) \<and>
    tx U (serial_dev s') = tx U (serial_dev s) @ [1] @
      (if command = CMD_CONNECT then response_packet (answer_header CMD_CONNECT context pr []) [] else [])"
proof -
  obtain d1 where d1: "Com_ReadByte M s = ret (b, s\<lparr>serial_dev := d1\<rparr>)" "rx U d1 = request_packet command [] @ rest" "tx U d1 = tx U (serial_dev s)"
    by (rule Com_ReadByte_ok [OF assms(1,5)])
  let ?s2 = "if b \<noteq> 1 then s\<lparr>serial_dev := d1\<rparr> else s\<lparr>serial_dev := d1\<rparr>\<lparr>dbg_isConnected := True\<rparr>"
  have s2: "serial_dev ?s2 = d1" "lheap ?s2 = lheap s" "running_process ?s2 pr" "dbg_isConnected ?s2 \<longleftrightarrow> dbg_isConnected s \<or> b = 1"
    using assms(2) by (auto simp: running_process_def)
  obtain d2 where d2: "Com_WriteByte M 1 ?s2 = ret (?s2\<lparr>serial_dev := d2\<rparr>)" "rx U d2 = request_packet command [] @ rest"
      "tx U d2 = tx U (serial_dev s) @ [1]"
    using Com_WriteByte_ok [OF assms(1), of 1 ?s2] d1(2,3) unfolding s2(1) by metis
  define s3 where "s3 = ?s2\<lparr>serial_dev := d2\<rparr>"
  have s3: "serial_dev s3 = d2" "lheap s3 = lheap s" "running_process s3 pr" "dbg_isConnected s3 \<longleftrightarrow> dbg_isConnected s \<or> b = 1"
    using s2(2-4) by (simp_all add: s3_def running_process_def)
  obtain rq h1 d3 where r: "RecvRequest M request0 s3 = ret (STATUS_SUCCESS, rq, s3\<lparr>serial_dev := d3, lheap := h1\<rparr>)"
      "received (lheap s3) command [] rq h1" "heap_room [600] h1" "heap_frame (lheap s3) h1" "rx U d3 = rest" "tx U d3 = tx U (serial_dev s3)"
    by (rule RecvRequest_ok [OF assms(1), of s3 command "[]" rest "[600]" request0]) (use d2(2) assms(3,4) s3 in \<open>simp_all add: request_sizes_def\<close>)
  let ?s4 = "s3\<lparr>serial_dev := d3, lheap := h1\<rparr>"
  have start: "WaitForConnectCommand M request0 r0 (Some context) s = (if command \<noteq> CMD_CONNECT then ret ?s4
      else andThen (UpdateKeDebugResponseWithProcessInfo (Some context) (Some (plain_response CMD_CONNECT DBG_STATUS_SUCCESS context r0)) ?s4)
        (\<lambda>(_, r). andThen (SendResponse M r ?s4) (\<lambda>(_, s5). ret (s5\<lparr>dbg_isConnected := True\<rparr>))))"
    unfolding WaitForConnectCommand_def option.case d1(1) andThen_ret prod.case Let_def d2(1) s3_def [symmetric] r(1)
    using r(2) by (simp add: received_def)
  show ?thesis
  proof (cases "command = CMD_CONNECT")
    case False
    then show ?thesis unfolding start using r(5,6) s3 d2(3) by simp
  next
    case True
    let ?r = "with_name pr (plain_response CMD_CONNECT DBG_STATUS_SUCCESS context r0)"
    have P4: "running_process ?s4 pr" using s3(3) by (simp add: running_process_def)
    have rok: "response_ok (lheap ?s4) ?r []"
      using P4 by (simp add: response_ok_def with_name_def plain_response_def running_process_def)
    have hdr: "resp_header ?r = answer_header CMD_CONNECT context pr []"
      by (rule KeDebugResponseHeader.equality) (simp_all add: with_name_def plain_response_def answer_header_def)
    obtain p h' d where s: "SendResponse M (Some ?r) ?s4 = ret (STATUS_SUCCESS, ?s4\<lparr>serial_dev := d, lheap := h'\<rparr>)"
        "tx U d = tx U (serial_dev ?s4) @ response_packet (resp_header ?r) []" "rx U d = rx U (serial_dev ?s4)"
        "holds h' p (header_bytes (resp_header ?r) @ [])" "heap_room [] h'" "heap_frame (lheap ?s4) h'"
        "\<And>q cs. holds (lheap ?s4) q cs \<Longrightarrow> q \<noteq> p \<and> holds h' q cs"
      by (rule SendResponse_ok [OF assms(1) rok, of "[]"]) (use r(2,3) in \<open>simp_all add: received_def\<close>)
    show ?thesis unfolding start Update_name [OF P4] using True s(1-3) r(5,6) s3 d2(3) hdr by simp
  qed
qed

theorem connect_handshake_witness:
  "(\<exists>s'. WaitForConnectCommand com2_ports unset_request unset_response (Some a_context) (debugged (1 # request_packet CMD_BP []) False) = ret s' \<and>
     dbg_isConnected s' \<and> snd (serial_dev s') = [1]) \<and>
   (\<exists>s'. WaitForConnectCommand com2_ports unset_request unset_response (Some a_context) (debugged (0 # request_packet CMD_CONNECT []) False) = ret s' \<and>
     dbg_isConnected s' \<and> snd (serial_dev s') = 1 # response_packet (answer_header CMD_CONNECT a_context debug_process []) [])"
proof -
  have ok: "heap_ok (lheap (debugged i c))" for i c using debugged_heap by (auto simp: heap_ok_def)
  have room: "heap_room [8, 600] (lheap (debugged i c))" for i c by (rule debugged_heap_room) (simp add: n_pages_def)
  note h = connect_handshake [OF com2_serial_line debugged_process ok room, where rest = "[]"]
  show ?thesis using h [of "1 # request_packet CMD_BP []" False 1 CMD_BP unset_request unset_response a_context]
      h [of "0 # request_packet CMD_CONNECT []" False 0 CMD_CONNECT unset_request unset_response a_context] by auto
qed

end
