(* ===== verification/Spec2Isabelle.thy ===== *)
theory Spec2Isabelle
  imports Ipc_Properties Process_Properties Fs_Properties Debug_Properties
begin

text \<open>
  \<^bold>\<open>LtMicros: a model of the microkernel, its user library and its file system service\<close>

  \<^bold>\<open>The program.\<close> GRUB loads the kernel, whose \<^verbatim>\<open>kmain\<close> builds the segment table and calls
  \<^verbatim>\<open>Kernel::Init\<close> and \<^verbatim>\<open>Kernel::Start\<close>. Init brings up, in this order, the interrupt
  table, the drivers, the physical and the virtual memory manager, the heap, the page pool and the managers of processes, handles,
  threads and messages; Start creates the system process, loads the boot modules as processes and lets the
  scheduler run. From then on the kernel works on interrupts: the clock makes the scheduler choose a thread, a page fault maps a
  page of a region of the process, a system call runs its handler. A program is linked with the library under
  \<^verbatim>\<open>userland/StdLib\<close>, which gets pages from the kernel for its own heap and sends and
  receives messages; the service under \<^verbatim>\<open>userland/system/LtFsService\<close> reads an ext2 disk through the ATA ports and opens files
  for the programs that ask it by messages.

  \<^bold>\<open>Executions.\<close> A function of the code is a definition with the name it has there. It takes the state and
  returns an \<open>exec\<close> of \<open>Lt_Prelude\<close>: a value with the new state, \<open>halt Panicked\<close> (the kernel stops the machine), \<open>halt BadAccess\<close> (an
  access to an address that holds no object or has no mapping) or \<open>diverge\<close> (a loop that never ends). Loops with an evident bound are \<open>fun\<close>s on that
  bound; every other loop is a \<open>partial_function (option)\<close>, so no fuel is used anywhere and a theorem that says \<open>= ret x\<close> also says that
  the code returns. Integers are words of the width the code declares; pointers are 32-bit words.

  \<^bold>\<open>Kernel memory.\<close>
  \<^item> \<open>Kernel_Lib\<close> (\<^verbatim>\<open>kernel/lib/StdLib.cpp, StdMem.cpp, Status.cpp\<close>): strings, \<^verbatim>\<open>MemSet\<close>, \<^verbatim>\<open>MemCopy\<close>, statuses.
  \<^item> \<open>Pmm\<close> (\<^verbatim>\<open>arch/x86/Pmm.cpp\<close>): the page bitmap, as a list of bytes.
  \<^item> \<open>Vmm\<close> (\<^verbatim>\<open>arch/x86/Vmm.cpp\<close>): physical memory as bytes, the translation \<open>mmu\<close> of the processor, and the code that
    builds and changes page tables through the recursive mapping. \<open>kernel_space\<close> is what holds of the tables after \<open>Vmm_Init\<close>.
  \<^item> \<open>Kernel_Heap\<close>, \<open>Heap_Blocks\<close> (\<^verbatim>\<open>mem/Heap.cpp\<close>): the operations on headers in virtual memory, and their
    refinement of a list of blocks (size, used). \<open>heap_inv s bs\<close> says that the headers tile the heap as \<open>bs\<close>.
  \<^item> \<open>Linked_List\<close> (\<^verbatim>\<open>lib/List.cpp\<close>): nodes in a store indexed by address, over any allocator. \<open>list_rep\<close> relates a list to
    its nodes; the locale \<open>heap_allocator\<close> states what the list code needs of an allocator and is interpreted on the kernel heap
    (\<open>Heap_Blocks\<close>) and on the user heap (\<open>User_Malloc\<close>); \<open>prog_heap\<close> of \<open>User_Lib\<close> extends it for programs (\<open>Ata_Properties\<close>).
  \<^item> \<open>Page_Pool\<close> (\<^verbatim>\<open>mem/PagePool.cpp\<close>), \<open>Handle_Manager\<close> (\<^verbatim>\<open>handle/HandleManager.cpp\<close>), \<open>Kernel_Boot\<close>
    (\<^verbatim>\<open>kmain.cpp\<close> and \<^verbatim>\<open>Kernel.cpp\<close> up to the page pool), \<open>Descriptors\<close> (\<^verbatim>\<open>arch/x86/Gdt.cpp, Idt.cpp\<close>).
  \<^item> \<open>Memory_Properties\<close>: first fit, merging, page tables, lists, pages and handles, and the invariant of every state that
    boot, allocations and releases reach.

  \<^bold>\<open>Tasks.\<close>
  \<^item> \<open>Address_Regions\<close>, \<open>Region_Properties\<close> (\<^verbatim>\<open>mem/Vad.cpp\<close>): the regions of an address space, searching, splitting, reserving.
  \<^item> \<open>Critical_Section\<close> (\<^verbatim>\<open>lib/CriticalSection.cpp\<close> and its assembly): the lock as a function of one thread, and as
    the step relation \<open>lock_step\<close> of several threads, with its invariants by rule induction.
  \<^item> \<open>Threads\<close>, \<open>Task_Scheduler\<close>, \<open>Task_Properties\<close> (\<^verbatim>\<open>arch/x86/Thread.cpp, task/ThreadManager.cpp, task/Scheduler.cpp,
    task/Event.cpp, drivers/Clock.cpp\<close>): threads and processes as stores of records. \<open>sched_inv\<close> says that the threads are in a ring with the
    current one; the properties are on the choice of the next thread, fairness, and waiting.
  \<^item> \<open>Ipc_Buffers\<close>, \<open>Ipc_Handler\<close>, \<open>Ipc_Properties\<close> (\<^verbatim>\<open>task/Ipc\<close>): messages in pages of the pool. A receive call that
    finds nothing gives the processor away; it is split there, and \<open>receive_rest\<close> is what runs when the thread is resumed.
  \<^item> \<open>Processes\<close>, \<open>Kernel_Print\<close>, \<open>Syscalls\<close>, \<open>Process_Properties\<close> (\<^verbatim>\<open>arch/x86/Process.cpp, task/ProcessManager.cpp, module,
    lib/StdIo.cpp, syscalls, arch/x86/Syscalls.cpp, arch/x86/Exceptions\<close>): creating processes from ELF modules, page faults, printing, and every system call
    from the registers of the caller to the registers it gets back.

  \<^bold>\<open>Devices and debugger.\<close>
  \<^item> \<open>Kernel_Devices\<close> (\<^verbatim>\<open>drivers/Screen.cpp, Serial.cpp, Pic.cpp, Clock.cpp\<close>, \<^verbatim>\<open>printChar\<close>): the screen is memory at
    0xB8000, the others use port instructions. \<open>shows_terminal\<close> relates the video memory to a terminal of 25 lines, \<open>serial_line\<close> states what the
    driver relies on of a serial port.
  \<^item> \<open>Debug_Link\<close>, \<open>Debugger\<close> (\<^verbatim>\<open>debug/LtDbgCom.cpp, LtDbg.cpp\<close>): packets, requests and responses on the second serial port, the
    commands, and the handlers of the debug and breakpoint interrupts.
  \<^item> \<open>Heap_Contents\<close>, \<open>Debug_Properties\<close>: \<open>holds h p bs\<close> says what the block in use at \<open>p\<close> contains; its laws for allocating, writing, copying and
    freeing carry the proofs that requests arrive as sent and that a whole session returns with the right answers.

  \<^bold>\<open>User space.\<close>
  \<^item> \<open>User_Lib\<close>, \<open>User_Malloc\<close> (\<^verbatim>\<open>userland/StdLib/src/list.cpp, status.cpp, malloc.cpp\<close>): the heap of a program with its headers in the
    memory the kernel gives it. Programs over it keep their raw buffers as lists of bytes (\<open>bufs\<close>), one for each block in use.
  \<^item> \<open>Ata_Driver\<close>, \<open>Ata_Properties\<close>, \<open>Ext2\<close>, \<open>Ext2_Properties\<close>, \<open>Storage_Properties\<close> (\<^verbatim>\<open>LtFsService/src/AtaDriver.cpp,
    Ext2.cpp\<close>): reading bytes of the disk, inodes and the content of files.
  \<^item> \<open>File_Cache\<close>, \<open>File_Properties\<close>, \<open>Path_Properties\<close> (\<^verbatim>\<open>File.cpp, FsManager.cpp\<close>): the tree of cached files;
    \<open>dir_caches\<close> relates a directory of the tree to the directory entries on the disk, \<open>path_on_disk\<close> a path to an inode.
  \<^item> \<open>Fs_Protocol\<close>, \<open>Fs_Client\<close>, \<open>Service_Commands\<close>, \<open>Fs_Properties\<close> (\<^verbatim>\<open>Ipc.cpp, LtFsCommon.cpp, FileSystem.cpp,
    ServiceCommands.cpp, main.cpp\<close>): requests and responses byte by byte, the two sides of opening a file, and the message that links them.

  \<^bold>\<open>Parameters and hypotheses.\<close> Three things are not code of the repository and are arguments of the definitions: the device behind the port instructions
  (\<open>ports\<close>), the kernel as a user program sees it (\<open>ipc_calls\<close> and the page source of \<open>User_Malloc\<close>), and the content of fresh memory
  (\<open>fresh\<close>, \<open>raw_threads\<close> and the like). The law \<open>ata_disk\<close> states the documented behaviour of an ATA channel, \<open>serial_line\<close> that of a serial port, \<open>zeroed\<close> that the member \<^verbatim>\<open>leaf\<close>, which the code does not
  set, is zero in fresh memory, \<open>heap_ready\<close> and \<open>heap_room\<close> that memory is left for the allocations made, \<open>mergeable\<close> that the word behind the heap,
  which the merging loop reads, is not a page table entry. Each has a witness: a booted machine, one that is debugged, two threads, a server with one page, a simulated disk with
  a directory tree, a service with a connected program.

  \<^bold>\<open>Bounds.\<close> The heap lies between 0x1000000 and 0x40000000, so \<open>last_page \<le> 262144\<close>; allocations below \<open>2\<^sup>3\<^sup>1\<close> bytes
  are those the signed parameter can name. The properties of \<^verbatim>\<open>IpcBuffer\<close> are for a buffer of one page, as a longer
  one is read wrongly (see \<open>read_bytes\<close> and the findings). \<^verbatim>\<open>Ext2ReadFile\<close> is proved for direct and single indirect pointers, as the loop over the double
  indirect block does not read its pointers.

  \<^bold>\<open>Not modelled.\<close> Assembly (entry stubs, loading of registers and tables, \<^verbatim>\<open>iret\<close>): a function that ends in
  it returns what it hands over. Interrupts inside kernel code: the kernel runs with interrupts off, and only the lock is modelled
  with interleavings. The log messages, which only go to the screen and the first serial port; the accessed and dirty bits and stale
  entries of the translation buffer; the C++ runtime support; \<^verbatim>\<open>stdarg.h\<close>, whose argument lists are lists of words.
\<close>

end
